(* ===== verification/Prelude.thy ===== *)
theory Prelude
  imports
    Main
    "HOL-Library.Word"
    "HOL-Library.List_Lexorder"
    "HOL-Library.Char_ord"
    "HOL-Library.Product_Lexorder"
begin

text \<open>
  The shared vocabulary of the development: the errors the node raises, the
  result type that carries them, the overflow-checked integers of
  \<^verbatim>\<open>fc/safe.hpp\<close>, and the lemmas on keyed tables that every component uses.
  A \<^verbatim>\<open>throw\<close> of the source is the value \<open>Inl e\<close>; a normal return is \<open>Inr x\<close>.
\<close>

named_theorems result_simps \<open>inversion of successful runs of the result type\<close>
named_theorems table_simps \<open>lookups after updates of keyed tables\<close>
named_theorems int64_simps \<open>range facts of checked 64 bit arithmetic\<close>

section \<open>Errors and results\<close>

text \<open>
  One constructor per exception class of the source; an \<open>FC_ASSERT\<close> carries the
  condition it guards as a value of \<open>assertion\<close>. Two values are no exceptions: \<open>Does_not_return\<close>
  stands for a loop that does not end, \<open>Undefined_behaviour\<close> for what C++ leaves open.
\<close>

datatype (plugins only: code) assertion =
    Unnamed_assertion
  | Symbol_mismatch
  | Invalid_symbol
  | Decimals_too_big
  | Bad_symbol_encoding
  | Bad_asset_string
  | Bad_version_string
  | Invalid_account_name
  | Non_positive_amount
  | Memo_too_large
  | Not_utf8
  | Not_json
  | Empty_field
  | Out_of_range
  | Insufficient_funds
  | Account_banned
  | Not_root
  | Producer_limit
  | Excepted_bobserver
  | Still_producer
  | Url_too_long
  | Data_too_large
  | Temp_account
  | Owner_update_too_soon
  | Wrong_recovery_partner
  | Impossible_authority
  | Open_authority
  | No_recovery_request
  | Authority_mismatch
  | No_recent_authority
  | Same_authority
  | Request_exists
  | Request_missing
  | Disabled_operation
  | Interest_not_set
  | Virtual_operation
  | Empty_transaction
  | Duplicate_transaction
  | Wrong_previous
  | Wrong_timestamp
  | Wrong_signee
  | Wrong_slot
  | Block_too_big
  | Merkle_mismatch
  | Checkpoint_mismatch
  | Unknown_extension
  | Hardfork_out_of_order
  | Missing_irreversible_block
  | Empty_fork_database
  | Too_old_block
  | Invalid_parent
  | Missing_branch
  | Unknown_dapp
  | Dapp_exists
  | Not_dapp_owner
  | Wrong_dapp_key
  | Wrong_dapp_state
  | Not_a_member
  | Already_a_member
  | Not_a_producer
  | Comment_too_deep
  | Comment_too_soon
  | Comment_parent_changed
  | Comment_has_replies
  | Comment_closed
  | Unknown_comment
  | Unknown_token
  | Token_exists
  | Not_token_publisher
  | Token_limit
  | Unknown_account
  | No_token_balance
  | Unknown_token_fund
  | Request_id_in_use
  | No_interest_rate
  | Unknown_request
  | Inner_authority_mismatch
  | Array_too_large
  | Not_a_bool
  | No_such_alternative

datatype fc_error =
    Assert_exception assertion
  | Overflow_exception
  | Underflow_exception
  | Divide_by_zero_exception
  | Parse_error_exception
  | Unknown_key
  | Uniqueness_violated
  | No_undo_state
  | Unlinkable_block_exception
  | Pop_empty_chain
  | Undo_database_exception
  | Unknown_hardfork_exception
  | Tx_missing_posting_auth
  | Tx_missing_active_auth
  | Tx_missing_owner_auth
  | Tx_missing_other_auth
  | Tx_irrelevant_sig
  | Tx_duplicate_sig
  | Transaction_tapos_exception
  | Transaction_expiration_exception
  | Block_log_exception
  | Logic_error
  | Net_unlinkable_block_exception
  | Peer_is_on_an_unreachable_fork
  | Block_older_than_undo_history
  | Out_of_range_exception
  | Undefined_behaviour
  | Does_not_return

type_synonym 'a result = "fc_error + 'a"

definition bindR :: "'a result \<Rightarrow> ('a \<Rightarrow> 'b result) \<Rightarrow> 'b result" where
  "bindR m f = (case m of Inl e \<Rightarrow> Inl e | Inr x \<Rightarrow> f x)"

definition fc_assert :: "bool \<Rightarrow> assertion \<Rightarrow> 'b result \<Rightarrow> 'b result" where
  "fc_assert c a k = (if c then k else Inl (Assert_exception a))"

definition guardR :: "bool \<Rightarrow> fc_error \<Rightarrow> 'b result \<Rightarrow> 'b result" where
  "guardR c e k = (if c then k else Inl e)"

definition of_option :: "fc_error \<Rightarrow> 'a option \<Rightarrow> 'a result" where
  "of_option e m = (case m of None \<Rightarrow> Inl e | Some x \<Rightarrow> Inr x)"

fun foldR :: "('s \<Rightarrow> 'a \<Rightarrow> 's result) \<Rightarrow> 's \<Rightarrow> 'a list \<Rightarrow> 's result" where
  "foldR f s [] = Inr s"
| "foldR f s (x # xs) = bindR (f s x) (\<lambda>s'. foldR f s' xs)"

definition is_ok :: "'a result \<Rightarrow> bool" where
  "is_ok m = (case m of Inl _ \<Rightarrow> False | Inr _ \<Rightarrow> True)"

lemma bindR_simps [simp]:
  "bindR (Inr x) f = f x"
  "bindR (Inl e) f = Inl e"
  by (simp_all add: bindR_def)

lemma bindR_Inr_iff [result_simps]:
  "bindR m f = Inr y \<longleftrightarrow> (\<exists>x. m = Inr x \<and> f x = Inr y)"
  by (cases m) auto

lemma bindR_Inl_iff:
  "bindR m f = Inl e \<longleftrightarrow> m = Inl e \<or> (\<exists>x. m = Inr x \<and> f x = Inl e)"
  by (cases m) auto

lemma bindR_cong:
  "m = m' \<Longrightarrow> (\<And>x. m' = Inr x \<Longrightarrow> f x = f' x) \<Longrightarrow> bindR m f = bindR m' f'"
  by (cases m') auto

lemma bindR_assoc: "bindR (bindR m f) g = bindR m (\<lambda>x. bindR (f x) g)"
  by (cases m) auto

lemma fc_assert_Inr_iff [result_simps]: "fc_assert c a k = Inr y \<longleftrightarrow> c \<and> k = Inr y"
  by (simp add: fc_assert_def)

lemma fc_assert_Inl_iff:
  "fc_assert c a k = Inl e \<longleftrightarrow> (\<not> c \<and> e = Assert_exception a) \<or> (c \<and> k = Inl e)"
  by (auto simp: fc_assert_def)

lemma fc_assert_simps [simp]:
  "fc_assert True a k = k"
  "fc_assert False a k = Inl (Assert_exception a)"
  by (simp_all add: fc_assert_def)

lemma guardR_Inr_iff [result_simps]: "guardR c e k = Inr y \<longleftrightarrow> c \<and> k = Inr y"
  by (simp add: guardR_def)

lemma guardR_simps [simp]:
  "guardR True e k = k"
  "guardR False e k = Inl e"
  by (simp_all add: guardR_def)

lemma of_option_Inr_iff [result_simps]: "of_option e m = Inr x \<longleftrightarrow> m = Some x"
  by (cases m) (simp_all add: of_option_def)

lemma guardR_Inl_iff: "guardR c e k = Inl e' \<longleftrightarrow> (\<not> c \<and> e' = e) \<or> (c \<and> k = Inl e')"
  by (auto simp: guardR_def)

lemma of_option_Inl_iff: "of_option e m = Inl e' \<longleftrightarrow> m = None \<and> e' = e"
  by (cases m) (auto simp: of_option_def)

lemmas failure_simps = bindR_Inl_iff fc_assert_Inl_iff guardR_Inl_iff of_option_Inl_iff

lemma of_option_simps [simp]:
  "of_option e None = Inl e"
  "of_option e (Some x) = Inr x"
  by (simp_all add: of_option_def)

lemma is_ok_simps [simp]:
  "is_ok (Inr x)"
  "\<not> is_ok (Inl e)"
  by (simp_all add: is_ok_def)

lemma is_ok_iff: "is_ok m \<longleftrightarrow> (\<exists>x. m = Inr x)"
  by (cases m) auto

text \<open>
  Loops over a list that may throw: an invariant of the body is an invariant of
  the loop, and two loops in sequence are the loop over the appended list.
\<close>

lemma foldR_invariant:
  assumes step: "\<And>s x s'. x \<in> set xs \<Longrightarrow> I s \<Longrightarrow> f s x = Inr s' \<Longrightarrow> I s'"
    and start: "I s"
    and run: "foldR f s xs = Inr s'"
  shows "I s'"
  using step start run
proof (induction xs arbitrary: s)
  case Nil
  then show ?case by simp
next
  case (Cons x xs)
  from Cons.prems(3) obtain t where t: "f s x = Inr t" "foldR f t xs = Inr s'"
    by (auto simp: result_simps)
  have "I t"
    using Cons.prems(1) [OF _ Cons.prems(2) t(1)] by simp
  moreover have "\<And>s y s'. y \<in> set xs \<Longrightarrow> I s \<Longrightarrow> f s y = Inr s' \<Longrightarrow> I s'"
    using Cons.prems(1) by (metis list.set_intros(2))
  ultimately show ?case using Cons.IH t(2) by blast
qed

lemma foldR_append: "foldR f s (xs @ ys) = bindR (foldR f s xs) (\<lambda>t. foldR f t ys)"
  by (induction xs arbitrary: s) (simp_all add: bindR_assoc)

section \<open>Checked 64 bit arithmetic\<close>

text \<open>
  \<^verbatim>\<open>share_type\<close> is \<^verbatim>\<open>fc::safe<int64_t>\<close>: the value is an \<open>int\<close> in the signed
  64 bit range and every operation tests for overflow before it computes, in the
  order of \<^verbatim>\<open>fc/safe.hpp\<close>. Division truncates towards zero.
\<close>

type_synonym share_type = int

definition int64_max :: int where
  "int64_max = 9223372036854775807"

definition int64_min :: int where
  "int64_min = -9223372036854775808"

definition int64_range :: "int \<Rightarrow> bool" where
  "int64_range a \<longleftrightarrow> int64_min \<le> a \<and> a \<le> int64_max"

definition trunc_div :: "int \<Rightarrow> int \<Rightarrow> int" where
  "trunc_div a b = sgn a * sgn b * (\<bar>a\<bar> div \<bar>b\<bar>)"

definition trunc_mod :: "int \<Rightarrow> int \<Rightarrow> int" where
  "trunc_mod a b = a - trunc_div a b * b"

definition safe_add :: "share_type \<Rightarrow> share_type \<Rightarrow> share_type result" where
  "safe_add a b =
     (if b > 0 \<and> a > int64_max - b then Inl Overflow_exception
      else if b < 0 \<and> a < int64_min - b then Inl Underflow_exception
      else Inr (a + b))"

definition safe_sub :: "share_type \<Rightarrow> share_type \<Rightarrow> share_type result" where
  "safe_sub a b =
     (if b > 0 \<and> a < int64_min + b then Inl Underflow_exception
      else if b < 0 \<and> a > int64_max + b then Inl Overflow_exception
      else Inr (a - b))"

definition safe_mul :: "share_type \<Rightarrow> share_type \<Rightarrow> share_type result" where
  "safe_mul a b =
     (if a > 0 then
        (if b > 0 then (if a > trunc_div int64_max b then Inl Overflow_exception else Inr (a * b))
         else (if b < trunc_div int64_min a then Inl Underflow_exception else Inr (a * b)))
      else
        (if b > 0 then (if a < trunc_div int64_min b then Inl Underflow_exception else Inr (a * b))
         else (if a \<noteq> 0 \<and> b < trunc_div int64_max a then Inl Overflow_exception else Inr (a * b))))"

definition safe_div :: "share_type \<Rightarrow> share_type \<Rightarrow> share_type result" where
  "safe_div a b =
     (if b = 0 then Inl Divide_by_zero_exception
      else if a = int64_min \<and> b = -1 then Inl Overflow_exception
      else Inr (trunc_div a b))"

definition safe_neg :: "share_type \<Rightarrow> share_type result" where
  "safe_neg a = (if a = int64_min then Inl Overflow_exception else Inr (- a))"

lemma safe_add_Inr_iff [result_simps]:
  assumes "int64_range a" "int64_range b"
  shows "safe_add a b = Inr c \<longleftrightarrow> c = a + b \<and> int64_range (a + b)"
  using assms
  by (auto simp: safe_add_def int64_range_def int64_max_def int64_min_def split: if_splits)

lemma safe_sub_Inr_iff [result_simps]:
  assumes "int64_range a" "int64_range b"
  shows "safe_sub a b = Inr c \<longleftrightarrow> c = a - b \<and> int64_range (a - b)"
  using assms
  by (auto simp: safe_sub_def int64_range_def int64_max_def int64_min_def split: if_splits)

lemma safe_add_InrD: "safe_add a b = Inr c \<Longrightarrow> c = a + b"
  by (auto simp: safe_add_def split: if_splits)

lemma safe_sub_InrD: "safe_sub a b = Inr c \<Longrightarrow> c = a - b"
  by (auto simp: safe_sub_def split: if_splits)

lemma safe_neg_Inr_iff [result_simps]: "safe_neg a = Inr c \<longleftrightarrow> a \<noteq> int64_min \<and> c = - a"
  by (auto simp: safe_neg_def)

lemma safe_add_range:
  assumes "int64_range a" "safe_add a b = Inr c"
  shows "int64_range c"
  using assms
  by (auto simp: safe_add_def int64_range_def int64_max_def int64_min_def split: if_splits)

lemma trunc_div_nonneg: "0 \<le> a \<Longrightarrow> 0 < b \<Longrightarrow> trunc_div a b = a div b"
  by (cases "a = 0") (auto simp: trunc_div_def)

lemma trunc_mod_nonneg: "0 \<le> a \<Longrightarrow> 0 < b \<Longrightarrow> trunc_mod a b = a mod b"
  by (simp add: trunc_mod_def trunc_div_nonneg minus_div_mult_eq_mod)

section \<open>Times\<close>

text \<open>
  \<^verbatim>\<open>fc::time_point_sec\<close> holds a \<^verbatim>\<open>uint32_t\<close> of seconds. Adding a span goes through
  64 bit microseconds and is cut back to 32 bits when it is stored.
\<close>

type_synonym time_point_sec = nat

definition time_add :: "time_point_sec \<Rightarrow> nat \<Rightarrow> time_point_sec" where
  "time_add t s = (t + s) mod 2 ^ 32"

definition days_sec :: "nat \<Rightarrow> nat" where
  "days_sec n = n * 86400"

section \<open>Keyed tables\<close>

text \<open>
  A multi-index container is the list of its objects in the order of their ids.
  \<open>modify_where\<close> is \<^verbatim>\<open>modify\<close>, \<open>remove_where\<close> is \<^verbatim>\<open>remove\<close> and
  \<open>index_begin\<close> is \<^verbatim>\<open>begin()\<close> of the ordered index with the given key.
\<close>

definition modify_where :: "('a \<Rightarrow> bool) \<Rightarrow> ('a \<Rightarrow> 'a) \<Rightarrow> 'a list \<Rightarrow> 'a list" where
  "modify_where P f xs = map (\<lambda>x. if P x then f x else x) xs"

definition remove_where :: "('a \<Rightarrow> bool) \<Rightarrow> 'a list \<Rightarrow> 'a list" where
  "remove_where P xs = filter (\<lambda>x. \<not> P x) xs"

fun index_begin :: "('a \<Rightarrow> 'k::linorder) \<Rightarrow> 'a list \<Rightarrow> 'a option" where
  "index_begin key [] = None"
| "index_begin key (x # xs) =
     (case index_begin key xs of
        None \<Rightarrow> Some x
      | Some y \<Rightarrow> (if key x \<le> key y then Some x else Some y))"

lemma modify_where_Nil [simp]: "modify_where P f [] = []"
  by (simp add: modify_where_def)

lemma modify_where_Cons [simp]:
  "modify_where P f (x # xs) = (if P x then f x else x) # modify_where P f xs"
  by (simp add: modify_where_def)

lemma length_modify_where [simp]: "length (modify_where P f xs) = length xs"
  by (simp add: modify_where_def)

lemma set_modify_where:
  "set (modify_where P f xs) = (\<lambda>x. if P x then f x else x) ` set xs"
  by (simp add: modify_where_def)

lemma map_modify_where [table_simps]:
  assumes "\<And>x. g (f x) = g x"
  shows "map g (modify_where P f xs) = map g xs"
  using assms by (simp add: modify_where_def)

lemma remove_where_Nil [simp]: "remove_where P [] = []"
  by (simp add: remove_where_def)

lemma set_remove_where [simp]: "set (remove_where P xs) = {x \<in> set xs. \<not> P x}"
  by (auto simp: remove_where_def)

lemma distinct_map_remove_where: "distinct (map g xs) \<Longrightarrow> distinct (map g (remove_where P xs))"
  by (simp add: remove_where_def distinct_map_filter)

lemma find_modify_where_key [table_simps]:
  assumes "\<And>x. key (f x) = key x"
  shows "find (\<lambda>x. key x = k) (modify_where P f xs)
       = map_option (\<lambda>x. if P x then f x else x) (find (\<lambda>x. key x = k) xs)"
  using assms by (induction xs) auto

lemma find_Some_mem: "find P xs = Some x \<Longrightarrow> x \<in> set xs \<and> P x"
  by (induction xs) (auto split: if_splits)

lemma find_key_unique:
  assumes "distinct (map key xs)" "x \<in> set xs"
  shows "find (\<lambda>y. key y = key x) xs = Some x"
  using assms by (induction xs) (auto simp: image_iff)

text \<open>The sum of a quantity over a table after one object of it changed.\<close>

lemma sum_list_modify_where_id:
  fixes g :: "'a \<Rightarrow> int"
  assumes "distinct (map key xs)" "x \<in> set xs"
  shows "sum_list (map g (modify_where (\<lambda>y. key y = key x) f xs))
       = sum_list (map g xs) - g x + g (f x)"
  using assms
proof (induction xs)
  case Nil
  then show ?case by simp
next
  case (Cons a xs)
  show ?case
  proof (cases "a = x")
    case True
    have "modify_where (\<lambda>y. key y = key x) f xs = xs"
      unfolding modify_where_def using Cons.prems True
      by (intro map_idI) (auto simp: image_iff)
    with True show ?thesis by simp
  next
    case False
    with Cons.prems have "x \<in> set xs" "key a \<noteq> key x" by auto
    with Cons show ?thesis by simp
  qed
qed

lemma sum_list_remove_where_id:
  fixes g :: "'a \<Rightarrow> int"
  assumes "distinct (map key xs)" "x \<in> set xs"
  shows "sum_list (map g (remove_where (\<lambda>y. key y = key x) xs)) = sum_list (map g xs) - g x"
  using assms
proof (induction xs)
  case Nil
  then show ?case by simp
next
  case (Cons a xs)
  show ?case
  proof (cases "a = x")
    case True
    have "filter (\<lambda>y. key y \<noteq> key x) xs = xs"
      using Cons.prems True by (auto simp: filter_id_conv image_iff)
    with True show ?thesis by (simp add: remove_where_def)
  next
    case False
    with Cons.prems have "x \<in> set xs" "key a \<noteq> key x" by auto
    with Cons show ?thesis by (simp add: remove_where_def)
  qed
qed

lemma length_remove_where_mem:
  "x \<in> set xs \<Longrightarrow> P x \<Longrightarrow> length (remove_where P xs) < length xs"
  by (induction xs) (auto simp: remove_where_def le_imp_less_Suc)

lemma index_begin_None [simp]: "index_begin key xs = None \<longleftrightarrow> xs = []"
  by (cases xs) (auto split: option.splits if_splits)

lemma index_begin_mem: "index_begin key xs = Some x \<Longrightarrow> x \<in> set xs"
  by (induction xs arbitrary: x) (auto split: option.splits if_splits)

lemma index_begin_least:
  "index_begin key xs = Some x \<Longrightarrow> y \<in> set xs \<Longrightarrow> key x \<le> key y"
proof (induction xs arbitrary: x y)
  case Nil
  then show ?case by simp
next
  case (Cons a xs)
  show ?case
  proof (cases "index_begin key xs")
    case None
    with Cons.prems show ?thesis by simp
  next
    case (Some z)
    with Cons.IH have "\<And>y. y \<in> set xs \<Longrightarrow> key z \<le> key y" by blast
    with Cons.prems Some show ?thesis
      by (auto split: if_splits intro: order_trans)
  qed
qed

section \<open>Flat containers\<close>

text \<open>
  \<^verbatim>\<open>boost::container::flat_map\<close> and \<^verbatim>\<open>flat_set\<close> are lists sorted by key; an insertion
  into a map overwrites the value of a present key (\<^verbatim>\<open>operator[]\<close>), an insertion into a
  set keeps a present element.
\<close>

fun flat_map_put :: "'k::linorder \<Rightarrow> 'v \<Rightarrow> ('k \<times> 'v) list \<Rightarrow> ('k \<times> 'v) list" where
  "flat_map_put k v [] = [(k, v)]"
| "flat_map_put k v ((k', v') # m) =
     (if k < k' then (k, v) # (k', v') # m
      else if k = k' then (k, v) # m
      else (k', v') # flat_map_put k v m)"

definition flat_set_insert :: "'a::linorder \<Rightarrow> 'a list \<Rightarrow> 'a list" where
  "flat_set_insert x xs = (if x \<in> set xs then xs else insort x xs)"

definition flat_map_erase :: "'k \<Rightarrow> ('k \<times> 'v) list \<Rightarrow> ('k \<times> 'v) list" where
  "flat_map_erase k m = filter (\<lambda>x. fst x \<noteq> k) m"

definition flat_set_erase :: "'a \<Rightarrow> 'a list \<Rightarrow> 'a list" where
  "flat_set_erase x xs = filter (\<lambda>y. y \<noteq> x) xs"

definition flat_map_emplace :: "'k::linorder \<Rightarrow> 'v \<Rightarrow> ('k \<times> 'v) list \<Rightarrow> ('k \<times> 'v) list" where
  "flat_map_emplace k v m = (if map_of m k = None then flat_map_put k v m else m)"

definition wf_flat :: "'a::linorder list \<Rightarrow> bool" where
  "wf_flat xs \<longleftrightarrow> sorted xs \<and> distinct xs"

lemma map_of_flat_map_erase [table_simps]: "map_of (flat_map_erase k m) = (map_of m)(k := None)"
  by (induction m) (auto simp: flat_map_erase_def fun_eq_iff)

lemma wf_flat_erase:
  "wf_flat (map fst m) \<Longrightarrow> wf_flat (map fst (flat_map_erase k m))"
  "wf_flat xs \<Longrightarrow> wf_flat (flat_set_erase x xs)"
  by (simp_all add: wf_flat_def flat_map_erase_def flat_set_erase_def sorted_wrt_filter
      distinct_map_filter sorted_wrt_map)

lemma set_flat_set_erase [simp]: "set (flat_set_erase x xs) = set xs - {x}"
  by (auto simp: flat_set_erase_def)

lemma map_of_flat_map_put [table_simps]: "map_of (flat_map_put k v m) = (map_of m)(k \<mapsto> v)"
  by (induction k v m rule: flat_map_put.induct) (auto simp: fun_eq_iff)

lemma dom_flat_map_put: "fst ` set (flat_map_put k v m) = insert k (fst ` set m)"
  by (induction k v m rule: flat_map_put.induct) auto

lemma sorted_flat_map_put:
  "sorted (map fst m) \<Longrightarrow> distinct (map fst m) \<Longrightarrow>
     sorted (map fst (flat_map_put k v m)) \<and> distinct (map fst (flat_map_put k v m))"
proof (induction k v m rule: flat_map_put.induct)
  case (2 k v k' v' m)
  then show ?case
    using dom_flat_map_put [of k v m] by (auto simp: image_iff less_le)
qed auto

lemma set_flat_set_insert [simp]: "set (flat_set_insert x xs) = insert x (set xs)"
  by (auto simp: flat_set_insert_def set_insort_key)

lemma flat_set_insert_wf:
  "sorted xs \<Longrightarrow> distinct xs \<Longrightarrow> sorted (flat_set_insert x xs) \<and> distinct (flat_set_insert x xs)"
  by (auto simp: flat_set_insert_def sorted_insort distinct_insort)

lemma wf_flat_put:
  "wf_flat (map fst m) \<Longrightarrow> wf_flat (map fst (flat_map_put k v m))"
  "wf_flat xs \<Longrightarrow> wf_flat (flat_set_insert x xs)"
  by (simp_all add: wf_flat_def sorted_flat_map_put flat_set_insert_wf)

lemma map_of_flat_map_emplace [table_simps]:
  "map_of (flat_map_emplace k v m) = (if map_of m k = None then (map_of m)(k \<mapsto> v) else map_of m)"
  by (simp add: flat_map_emplace_def map_of_flat_map_put)

lemma wf_flat_emplace:
  "wf_flat (map fst m) \<Longrightarrow> wf_flat (map fst (flat_map_emplace k v m))"
  by (simp add: flat_map_emplace_def wf_flat_put)

section \<open>Strings of fixed size\<close>

text \<open>
  Where the source compares with \<^verbatim>\<open>strcmp\<close>, a string counts up to its first NUL.
\<close>

definition c_str :: "string \<Rightarrow> string" where
  "c_str s = takeWhile (\<lambda>c. c \<noteq> CHR 0x00) s"

text \<open>
  A \<^verbatim>\<open>fixed_string\<close> of \<open>n\<close> bytes is the list of its bytes without the zeros at its end.
  It is made from the first \<open>n\<close> bytes of a string, whatever they are, and two of them are equal
  when all their bytes are; only the conversion back to \<^verbatim>\<open>std::string\<close> and \<^verbatim>\<open>size()\<close>
  stop at the first zero, and only when the last byte is zero.
\<close>

definition strip_zeros :: "string \<Rightarrow> string" where
  "strip_zeros s = rev (dropWhile (\<lambda>c. c = CHR 0x00) (rev s))"

definition fixed_string :: "nat \<Rightarrow> string \<Rightarrow> string" where
  "fixed_string n s = strip_zeros (take n s)"

definition fixed_to_string :: "nat \<Rightarrow> string \<Rightarrow> string" where
  "fixed_to_string n s = (if length s = n then s else c_str s)"

lemma c_str_plain: "CHR 0x00 \<notin> set s \<Longrightarrow> c_str s = s"
  by (auto simp: c_str_def takeWhile_eq_all_conv)

lemma c_str_length: "length (c_str s) \<le> length s"
  by (simp add: c_str_def length_takeWhile_le)

lemma c_str_no_zero: "CHR 0x00 \<notin> set (c_str s)"
  by (auto simp: c_str_def dest: set_takeWhileD)

lemma strip_zeros_length: "length (strip_zeros s) \<le> length s"
  using length_dropWhile_le [of _ "rev s"] by (simp add: strip_zeros_def)

lemma strip_zeros_idem [simp]: "strip_zeros (strip_zeros s) = strip_zeros s"
  by (simp add: strip_zeros_def dropWhile_idem)

lemma strip_zeros_plain: "CHR 0x00 \<notin> set s \<Longrightarrow> strip_zeros s = s"
  by (cases s rule: rev_cases) (auto simp: strip_zeros_def)

lemma set_strip_zeros: "set (strip_zeros s) \<subseteq> set s"
  by (auto simp: strip_zeros_def dest: set_dropWhileD)

lemma fixed_string_length: "length (fixed_string n s) \<le> length s" "length (fixed_string n s) \<le> n"
  using strip_zeros_length [of "take n s"] by (simp_all add: fixed_string_def)

lemma fixed_string_plain: "CHR 0x00 \<notin> set s \<Longrightarrow> length s \<le> n \<Longrightarrow> fixed_string n s = s"
  by (simp add: fixed_string_def strip_zeros_plain)

lemma fixed_string_idem [simp]: "fixed_string n (fixed_string n s) = fixed_string n s"
  using fixed_string_length(2) [of n s] by (simp add: fixed_string_def)

lemma fixed_string_no_zero:
  assumes "CHR 0x00 \<notin> set (fixed_string n s)"
  shows "fixed_string n s = c_str (take n s)"
proof -
  let ?z = "rev (takeWhile (\<lambda>c. c = CHR 0x00) (rev (take n s)))"
  have "rev (rev (take n s)) = strip_zeros (take n s) @ ?z"
    unfolding strip_zeros_def rev_append [symmetric] takeWhile_dropWhile_id by simp
  then have t: "take n s = fixed_string n s @ ?z" by (simp add: fixed_string_def)
  have "\<forall>c \<in> set ?z. c = CHR 0x00" by (auto dest: set_takeWhileD)
  then have "c_str ?z = []" by (cases ?z) (simp_all add: c_str_def)
  then have "c_str (fixed_string n s @ ?z) = fixed_string n s"
    using assms by (simp add: c_str_def takeWhile_append takeWhile_eq_all_conv)
  with t show ?thesis by simp
qed

lemma fixed_to_string_plain: "CHR 0x00 \<notin> set s \<Longrightarrow> fixed_to_string n s = s"
  by (simp add: fixed_to_string_def c_str_plain)

lemma fixed_to_string_length: "length (fixed_to_string n s) \<le> length s"
  by (simp add: fixed_to_string_def c_str_length)

end
