(* ===== verification/Asset.thy ===== *)
theory Asset
  imports Text_Format
begin

text \<open>
  Amounts and prices, from \<^verbatim>\<open>libraries/protocol/asset.cpp\<close> and
  \<^verbatim>\<open>asset.hpp\<close>. A symbol is the 64 bit number whose lowest byte is the count of
  decimals and whose bytes 1 to 6 spell the name, so it is kept as a number and
  read through its bytes, as the code does by casting its address.
\<close>

section \<open>Symbols as bytes\<close>

type_synonym asset_symbol_type = nat

fun to_bytes :: "nat \<Rightarrow> nat \<Rightarrow> nat list" where
  "to_bytes 0 n = []"
| "to_bytes (Suc k) n = n mod 256 # to_bytes k (n div 256)"

fun of_bytes :: "nat list \<Rightarrow> nat" where
  "of_bytes [] = 0"
| "of_bytes (b # bs) = b + 256 * of_bytes bs"

lemma length_to_bytes [simp]: "length (to_bytes k n) = k"
  by (induction k arbitrary: n) auto

lemma to_bytes_of_bytes: "list_all (\<lambda>b. b < 256) bs \<Longrightarrow> to_bytes (length bs) (of_bytes bs) = bs"
  by (induction bs) auto

lemma of_bytes_to_bytes: "n < 256 ^ k \<Longrightarrow> of_bytes (to_bytes k n) = n"
proof (induction k arbitrary: n)
  case 0
  then show ?case by simp
next
  case (Suc k)
  then have "n div 256 < 256 ^ k" by (simp add: less_mult_imp_div_less mult.commute)
  with Suc.IH show ?case by simp
qed

lemma to_bytes_zero: "to_bytes k 0 = replicate k 0"
  by (induction k) auto

lemma to_bytes_8: "to_bytes 8 n = n mod 256 # to_bytes 7 (n div 256)"
proof -
  have "(8 :: nat) = Suc 7" by simp
  then show ?thesis by (simp only: to_bytes.simps)
qed

lemma to_bytes_bound: "list_all (\<lambda>b. b < 256) (to_bytes k n)"
  by (induction k arbitrary: n) auto

lemma of_bytes_append_zeros [simp]: "of_bytes (bs @ replicate k 0) = of_bytes bs"
proof (induction bs)
  case Nil
  show ?case by (induction k) auto
qed simp

section \<open>Assets\<close>

record asset =
  amount :: share_type
  symbol :: asset_symbol_type

definition SGT_SYMBOL :: asset_symbol_type where
  "SGT_SYMBOL = of_bytes [6, 84, 78, 67]"

definition SGT :: "share_type \<Rightarrow> asset" where
  "SGT a = \<lparr>amount = a, symbol = SGT_SYMBOL\<rparr>"

definition decimals :: "asset \<Rightarrow> nat result" where
  "decimals a = (let r = to_bytes 8 (symbol a) ! 0 in fc_assert (r < 15) Decimals_too_big (Inr r))"

definition set_decimals :: "nat \<Rightarrow> asset \<Rightarrow> asset result" where
  "set_decimals d a =
     fc_assert (d < 15) Decimals_too_big
       (Inr (a\<lparr>symbol := of_bytes ((to_bytes 8 (symbol a))[0 := d])\<rparr>))"

definition precision_table :: "int list" where
  "precision_table =
     [1, 10, 100, 1000, 10000, 100000, 1000000, 10000000, 100000000, 1000000000,
      10000000000, 100000000000, 1000000000000, 10000000000000, 100000000000000]"

definition precision :: "asset \<Rightarrow> int result" where
  "precision a = bindR (decimals a) (\<lambda>d. Inr (precision_table ! d))"

definition change_fraction_size :: "nat \<Rightarrow> asset \<Rightarrow> asset result" where
  "change_fraction_size sz a =
     bindR (precision a) (\<lambda>old_precision.
     bindR (set_decimals sz a) (\<lambda>a'.
     bindR (precision a') (\<lambda>new_precision.
     if new_precision > old_precision then
       bindR (safe_div new_precision old_precision) (\<lambda>multiply_rate.
       bindR (safe_mul (amount a') multiply_rate) (\<lambda>v. Inr (a'\<lparr>amount := v\<rparr>)))
     else
       bindR (safe_div old_precision new_precision) (\<lambda>divide_rate.
       bindR (safe_div (amount a') divide_rate) (\<lambda>v. Inr (a'\<lparr>amount := v\<rparr>))))))"

definition c_string :: "nat list \<Rightarrow> string" where
  "c_string bs = map char_of (takeWhile (\<lambda>b. b \<noteq> 0) bs)"

definition symbol_name :: "asset \<Rightarrow> string result" where
  "symbol_name a =
     (let bs = to_bytes 8 (symbol a)
      in fc_assert (bs ! 7 = 0) Bad_symbol_encoding (Inr (c_string (tl bs))))"

definition asset_to_string :: "asset \<Rightarrow> string result" where
  "asset_to_string a =
     bindR (precision a) (\<lambda>prec.
     let whole = int_to_string (trunc_div (amount a) prec);
         result = (if prec > 1
                   then whole @ ''.'' @ drop 1 (int_to_string (prec + trunc_mod (amount a) prec))
                   else whole)
     in bindR (symbol_name a) (\<lambda>name. Inr (result @ '' '' @ name)))"

text \<open>
  \<^verbatim>\<open>asset::from_string\<close> computes on the raw \<^verbatim>\<open>int64_t\<close> inside the checked type,
  so its arithmetic wraps, and the fraction's length is cut to a \<^verbatim>\<open>uint8_t\<close>.
\<close>

definition wrap64 :: "int \<Rightarrow> int" where
  "wrap64 x = (x + 2 ^ 63) mod 2 ^ 64 - 2 ^ 63"

definition symbol_bytes :: "nat \<Rightarrow> string \<Rightarrow> nat list" where
  "symbol_bytes d name = d # map of_char name"

definition asset_from_string :: "string \<Rightarrow> asset result" where
  "asset_from_string from =
     (let s = trim from;
          zero = \<lparr>amount = 0, symbol = 0\<rparr>
      in case find_char (CHR '' '') s of
           None \<Rightarrow> Inl (Assert_exception Bad_asset_string)
         | Some space_pos \<Rightarrow>
             bindR
               (case find_char (CHR ''.'') s of
                  Some dot_pos \<Rightarrow>
                    fc_assert (space_pos > dot_pos) Bad_asset_string
                     (let intpart = take dot_pos s;
                          fractpart = CHR ''1'' # take (space_pos - dot_pos - 1) (drop (dot_pos + 1) s)
                      in bindR (set_decimals ((length fractpart - 1) mod 256) zero) (\<lambda>r.
                         bindR (to_int64 intpart) (\<lambda>i.
                         bindR (precision r) (\<lambda>prec.
                         bindR (to_int64 fractpart) (\<lambda>f.
                         Inr (r\<lparr>amount := wrap64 (wrap64 (wrap64 (i * prec) + f) - prec)\<rparr>))))))
                | None \<Rightarrow>
                    bindR (to_int64 (take space_pos s)) (\<lambda>i.
                    set_decimals 0 (zero\<lparr>amount := i\<rparr>)))
               (\<lambda>r. let name = drop (space_pos + 1) s
                     in if length name > 0
                        then fc_assert (length name \<le> 6) Bad_asset_string
                               (Inr (r\<lparr>symbol := of_bytes (symbol_bytes (to_bytes 8 (symbol r) ! 0) name)\<rparr>))
                        else Inr r))"

definition asset_add :: "asset \<Rightarrow> asset \<Rightarrow> asset result" where
  "asset_add a b =
     fc_assert (symbol a = symbol b) Symbol_mismatch
       (bindR (safe_add (amount a) (amount b)) (\<lambda>v. Inr (a\<lparr>amount := v\<rparr>)))"

definition asset_sub :: "asset \<Rightarrow> asset \<Rightarrow> asset result" where
  "asset_sub a b =
     fc_assert (symbol a = symbol b) Symbol_mismatch
       (bindR (safe_sub (amount a) (amount b)) (\<lambda>v. Inr (a\<lparr>amount := v\<rparr>)))"

definition asset_neg :: "asset \<Rightarrow> asset result" where
  "asset_neg a = bindR (safe_neg (amount a)) (\<lambda>v. Inr (a\<lparr>amount := v\<rparr>))"

definition asset_lt :: "asset \<Rightarrow> asset \<Rightarrow> bool result" where
  "asset_lt a b =
     fc_assert (symbol a = symbol b) Symbol_mismatch
       (Inr ((amount a, symbol a) < (amount b, symbol b)))"

definition asset_le :: "asset \<Rightarrow> asset \<Rightarrow> bool result" where
  "asset_le a b = (if a = b then Inr True else asset_lt a b)"

definition asset_ge :: "asset \<Rightarrow> asset \<Rightarrow> bool result" where
  "asset_ge a b = bindR (asset_lt a b) (\<lambda>l. Inr (\<not> l))"

definition asset_gt :: "asset \<Rightarrow> asset \<Rightarrow> bool result" where
  "asset_gt a b = bindR (asset_le a b) (\<lambda>l. Inr (\<not> l))"

lemma asset_add_Inr_iff [result_simps]:
  "asset_add a b = Inr c \<longleftrightarrow>
     symbol a = symbol b \<and> (\<exists>v. safe_add (amount a) (amount b) = Inr v \<and> c = a\<lparr>amount := v\<rparr>)"
  by (auto simp: asset_add_def result_simps)

lemma asset_sub_Inr_iff [result_simps]:
  "asset_sub a b = Inr c \<longleftrightarrow>
     symbol a = symbol b \<and> (\<exists>v. safe_sub (amount a) (amount b) = Inr v \<and> c = a\<lparr>amount := v\<rparr>)"
  by (auto simp: asset_sub_def result_simps)

lemma asset_neg_Inr_iff [result_simps]:
  "asset_neg a = Inr c \<longleftrightarrow> amount a \<noteq> int64_min \<and> c = a\<lparr>amount := - amount a\<rparr>"
  by (auto simp: asset_neg_def result_simps)

lemma asset_ge_Inr_iff [result_simps]:
  "asset_ge a b = Inr c \<longleftrightarrow> symbol a = symbol b \<and> c = (amount b \<le> amount a)"
  by (auto simp: asset_ge_def asset_lt_def result_simps less_prod_def')

lemma asset_lt_Inr_iff [result_simps]:
  "asset_lt a b = Inr c \<longleftrightarrow> symbol a = symbol b \<and> c = (amount a < amount b)"
  by (auto simp: asset_lt_def result_simps less_prod_def')

lemma SGT_simps [simp]: "amount (SGT a) = a" "symbol (SGT a) = SGT_SYMBOL"
  by (simp_all add: SGT_def)

section \<open>Prices\<close>

record price =
  base :: asset
  quote :: asset

definition u128 :: "int \<Rightarrow> nat" where
  "u128 i = nat (i mod 2 ^ 128)"

definition u128_mul :: "nat \<Rightarrow> nat \<Rightarrow> nat" where
  "u128_mul a b = (a * b) mod 2 ^ 128"

definition price_eq :: "price \<Rightarrow> price \<Rightarrow> bool" where
  "price_eq a b =
     (if (symbol (base a), symbol (quote a)) \<noteq> (symbol (base b), symbol (quote b)) then False
      else u128_mul (u128 (amount (quote b))) (u128 (amount (base a)))
         = u128_mul (u128 (amount (quote a))) (u128 (amount (base b))))"

definition price_lt :: "price \<Rightarrow> price \<Rightarrow> bool" where
  "price_lt a b =
     (if symbol (base a) < symbol (base b) then True
      else if symbol (base a) > symbol (base b) then False
      else if symbol (quote a) < symbol (quote b) then True
      else if symbol (quote a) > symbol (quote b) then False
      else u128_mul (u128 (amount (quote b))) (u128 (amount (base a)))
         < u128_mul (u128 (amount (quote a))) (u128 (amount (base b))))"

definition price_le :: "price \<Rightarrow> price \<Rightarrow> bool" where
  "price_le a b \<longleftrightarrow> price_eq a b \<or> price_lt a b"

definition price_gt :: "price \<Rightarrow> price \<Rightarrow> bool" where
  "price_gt a b \<longleftrightarrow> \<not> price_le a b"

definition price_ge :: "price \<Rightarrow> price \<Rightarrow> bool" where
  "price_ge a b \<longleftrightarrow> \<not> price_lt a b"

definition asset_mul_price :: "asset \<Rightarrow> price \<Rightarrow> asset result" where
  "asset_mul_price a b =
     bindR (symbol_name a) (\<lambda>an.
     bindR (symbol_name (base b)) (\<lambda>bn.
     if an = bn then
       fc_assert (amount (base b) > 0) Unnamed_assertion
        (let r = u128_mul (u128 (amount a)) (u128 (amount (quote b))) div u128 (amount (base b))
         in fc_assert (r < 2 ^ 64) Unnamed_assertion
              (Inr \<lparr>amount = wrap64 (int r), symbol = symbol (quote b)\<rparr>))
     else
       bindR (symbol_name (quote b)) (\<lambda>qn.
       if an = qn then
         fc_assert (amount (quote b) > 0) Unnamed_assertion
          (let r = u128_mul (u128 (amount a)) (u128 (amount (base b))) div u128 (amount (quote b))
           in fc_assert (r < 2 ^ 64) Unnamed_assertion
                (Inr \<lparr>amount = wrap64 (int r), symbol = symbol (base b)\<rparr>))
       else Inl (Assert_exception Symbol_mismatch))))"

definition asset_div :: "asset \<Rightarrow> asset \<Rightarrow> price result" where
  "asset_div bs qt =
     bindR (symbol_name bs) (\<lambda>bn.
     bindR (symbol_name qt) (\<lambda>qn.
     fc_assert (bn \<noteq> qn) Symbol_mismatch (Inr \<lparr>base = bs, quote = qt\<rparr>)))"

definition SIGMAENGINE_MAX_SHARE_SUPPLY :: int where
  "SIGMAENGINE_MAX_SHARE_SUPPLY = 1000000000000000"

definition price_max :: "asset_symbol_type \<Rightarrow> asset_symbol_type \<Rightarrow> price result" where
  "price_max b q =
     asset_div \<lparr>amount = SIGMAENGINE_MAX_SHARE_SUPPLY, symbol = b\<rparr> \<lparr>amount = 1, symbol = q\<rparr>"

definition price_min :: "asset_symbol_type \<Rightarrow> asset_symbol_type \<Rightarrow> price result" where
  "price_min b q =
     asset_div \<lparr>amount = 1, symbol = b\<rparr> \<lparr>amount = SIGMAENGINE_MAX_SHARE_SUPPLY, symbol = q\<rparr>"

definition price_is_null :: "price \<Rightarrow> bool" where
  "price_is_null p = price_eq p \<lparr>base = SGT 0, quote = SGT 0\<rparr>"

definition price_validate :: "price \<Rightarrow> unit result" where
  "price_validate p =
     fc_assert (amount (base p) > 0) Non_positive_amount
    (fc_assert (amount (quote p) > 0) Non_positive_amount
    (bindR (symbol_name (base p)) (\<lambda>bn.
     bindR (symbol_name (quote p)) (\<lambda>qn.
     fc_assert (bn \<noteq> qn) Symbol_mismatch (Inr ())))))"


section \<open>Printing and parsing agree\<close>

lemma wrap64_id: "int64_range x \<Longrightarrow> wrap64 x = x"
  by (simp add: wrap64_def int64_range_def int64_min_def int64_max_def)

lemma wrap64_add_left: "wrap64 (wrap64 x + y) = wrap64 (x + y)"
proof -
  have "((x + 2 ^ 63) mod 2 ^ 64 - 2 ^ 63 + y + 2 ^ 63) mod 2 ^ 64
      = ((x + 2 ^ 63) mod 2 ^ 64 + y) mod (2 ^ 64 :: int)"
    by (simp add: algebra_simps)
  also have "\<dots> = (x + y + 2 ^ 63) mod 2 ^ 64"
    by (subst mod_add_left_eq) (simp add: algebra_simps)
  finally show ?thesis by (simp add: wrap64_def)
qed

lemma wrap64_diff_left: "wrap64 (wrap64 x - y) = wrap64 (x - y)"
  using wrap64_add_left [of x "- y"] by simp

lemma precision_table_nth: "d < 15 \<Longrightarrow> precision_table ! d = 10 ^ d"
proof -
  assume "d < 15"
  then have "d \<in> set [0..<15]" by simp
  then show ?thesis by (auto simp: precision_table_def upt_rec numeral_eq_Suc)
qed

definition symbol_char :: "char \<Rightarrow> bool" where
  "symbol_char c \<longleftrightarrow> of_char c \<noteq> (0 :: nat) \<and> \<not> is_space c \<and> c \<noteq> CHR ''.''"

definition valid_symbol :: "nat \<Rightarrow> string \<Rightarrow> bool" where
  "valid_symbol d name \<longleftrightarrow>
     d < 15 \<and> name \<noteq> [] \<and> length name \<le> 6 \<and> list_all symbol_char name"

lemma to_bytes_symbol:
  assumes "valid_symbol d name"
  shows "to_bytes 8 (of_bytes (symbol_bytes d name))
       = symbol_bytes d name @ replicate (7 - length name) 0"
proof -
  let ?bs = "symbol_bytes d name @ replicate (7 - length name) 0"
  have len: "length ?bs = 8" and small: "list_all (\<lambda>b. b < 256) ?bs"
    using assms by (auto simp: symbol_bytes_def valid_symbol_def list_all_iff)
  have "to_bytes (length ?bs) (of_bytes ?bs) = ?bs"
    by (rule to_bytes_of_bytes [OF small])
  with len show ?thesis by simp
qed

lemma symbol_readers:
  assumes "valid_symbol d name" "symbol a = of_bytes (symbol_bytes d name)"
  shows "decimals a = Inr d" "precision a = Inr (10 ^ d)" "symbol_name a = Inr name"
proof -
  have bytes: "to_bytes 8 (symbol a) = symbol_bytes d name @ replicate (7 - length name) 0"
    using to_bytes_symbol [OF assms(1)] assms(2) by simp
  show d: "decimals a = Inr d"
    using assms(1) by (simp add: decimals_def bytes Let_def symbol_bytes_def valid_symbol_def)
  show "precision a = Inr (10 ^ d)"
    using d assms(1) by (simp add: precision_def precision_table_nth valid_symbol_def)
  have last: "(symbol_bytes d name @ replicate (7 - length name) 0) ! 7 = 0"
    using assms(1) by (auto simp: symbol_bytes_def valid_symbol_def nth_append nth_Cons')
  have "takeWhile (\<lambda>b. b \<noteq> 0) (map of_char name @ replicate (7 - length name) (0 :: nat))
      = map of_char name"
    using assms(1)
    by (auto simp: takeWhile_append valid_symbol_def list_all_iff symbol_char_def)
  then show "symbol_name a = Inr name"
    using last by (simp add: symbol_name_def bytes Let_def symbol_bytes_def c_string_def o_def)
qed

text \<open>The printed amount splits into a whole part and a fraction of fixed width.\<close>

lemma fraction_text:
  assumes "0 \<le> v" "0 < d"
  defines "f \<equiv> trunc_mod v (10 ^ d)"
  obtains ds where "int_to_string (10 ^ d + f) = CHR ''1'' # ds" "length ds = d"
    "list_all is_digit ds"
proof -
  define n where "n = nat (10 ^ d + f)"
  have f: "0 \<le> f" "f < 10 ^ d"
    using assms(1) by (auto simp: f_def trunc_mod_nonneg)
  then have n: "10 ^ d \<le> n" "n < 2 * 10 ^ d"
    by (simp_all add: n_def nat_less_iff le_nat_iff)
  then have len: "length (nat_to_string n) = Suc d"
    by (intro length_nat_to_string) auto
  then obtain c ds where s: "nat_to_string n = c # ds" "length ds = d"
    by (cases "nat_to_string n") auto
  have dig: "list_all is_digit (c # ds)"
    using nat_to_string_digits [of n] s by simp
  have "digits_val (c # ds) = n"
    using digits_val_nat_to_string [of n] s by simp
  then have val: "n = digit_val c * 10 ^ d + digits_val ds"
    using digits_val_append [of "[c]" ds] s by (simp add: digits_val_def)
  have "digits_val ds < 10 ^ length ds"
    using dig by (induction ds rule: rev_induct)
      (auto simp: digits_val_snoc digits_val_def digit_val_def is_digit_def)
  then have "digit_val c = 1"
  proof -
    assume lt: "digits_val ds < 10 ^ length ds"
    have "digit_val c \<noteq> 0" using val n lt s by (intro notI) simp
    moreover have "\<not> 2 \<le> digit_val c"
    proof
      assume "2 \<le> digit_val c"
      then have "2 * 10 ^ d \<le> digit_val c * 10 ^ d" by (rule mult_le_mono1)
      with val n show False by linarith
    qed
    ultimately show ?thesis by linarith
  qed
  then have "(of_char c :: nat) = 49"
    using dig by (simp add: digit_val_def is_digit_def)
  then have "c = CHR ''1''"
    using of_char_eq_iff [of c "CHR ''1''", where ?'a = nat] by simp
  then show thesis
    using that [of ds] s dig f by (simp add: int_to_string_def n_def)
qed

lemma of_bytes_decimals_update: "of_bytes ((to_bytes 8 0)[0 := d]) = d"
  using of_bytes_append_zeros [of "[d]" 7] unfolding to_bytes_8 by (simp add: to_bytes_zero)

lemma name_separators:
  assumes "valid_symbol d name"
  shows "CHR '' '' \<notin> set name" "CHR ''.'' \<notin> set name" "\<not> is_space (last name)"
proof -
  have sp: "is_space (CHR '' '')" by (simp add: is_space_def)
  have all: "\<forall>c \<in> set name. \<not> is_space c \<and> c \<noteq> CHR ''.''" "name \<noteq> []"
    using assms by (simp_all add: valid_symbol_def list_all_iff symbol_char_def)
  then show "CHR '' '' \<notin> set name" "CHR ''.'' \<notin> set name" using sp by blast+
  show "\<not> is_space (last name)" using all by simp
qed

lemma digits_separators:
  "list_all is_digit s \<Longrightarrow> CHR '' '' \<notin> set s \<and> CHR ''.'' \<notin> set s"
  by (auto simp: list_all_iff is_digit_def)

lemma trim_asset_text:
  assumes "valid_symbol d name" "list_all is_digit w" "w \<noteq> []"
  shows "trim (w @ m @ '' '' @ name) = w @ m @ '' '' @ name"
proof (rule trim_id)
  show "\<not> is_space (hd (w @ m @ '' '' @ name))"
    using assms digit_not_space by (cases w) auto
  show "\<not> is_space (last (w @ m @ '' '' @ name))"
    using assms name_separators(3) [OF assms(1)] by (auto simp: valid_symbol_def)
qed (use assms in simp)

lemma from_string_whole:
  assumes "valid_symbol 0 name" "list_all is_digit w" "w \<noteq> []" "int (digits_val w) \<le> int64_max"
  shows "asset_from_string (w @ '' '' @ name)
       = Inr \<lparr>amount = int (digits_val w), symbol = of_bytes (symbol_bytes 0 name)\<rparr>"
proof -
  let ?s = "w @ '' '' @ name"
  have tr: "trim ?s = ?s" using trim_asset_text [OF assms(1-3), of "[]"] by simp
  have sp: "find_char (CHR '' '') ?s = Some (length w)"
    using digits_separators [OF assms(2)] find_char_append [of "CHR '' ''" w name] by simp
  have dt: "find_char (CHR ''.'') ?s = None"
    using digits_separators [OF assms(2)] name_separators [OF assms(1)]
    by (intro find_char_None) auto
  have iw: "to_int64 w = Inr (int (digits_val w))"
    using assms by (intro to_int64_digits) auto
  have ip: "take (length w) ?s = w" and nm: "drop (length w + 1) ?s = name" by simp_all
  have dec: "set_decimals 0 \<lparr>amount = i, symbol = 0\<rparr> = Inr \<lparr>amount = i, symbol = 0\<rparr>" for i
    by (simp add: set_decimals_def of_bytes_decimals_update)
  have byte0: "to_bytes 8 0 ! 0 = 0" by (simp add: to_bytes_8)
  show ?thesis
    unfolding asset_from_string_def Let_def tr sp dt option.case ip nm
    using assms(1) by (simp add: iw dec byte0 valid_symbol_def)
qed

lemma from_string_fraction:
  assumes "valid_symbol d name" "0 < d" "list_all is_digit w" "w \<noteq> []"
    and "list_all is_digit ds" "length ds = d"
    and "int (digits_val w) \<le> int64_max"
  shows "asset_from_string (w @ ''.'' @ ds @ '' '' @ name)
       = Inr \<lparr>amount = wrap64 (int (digits_val w) * 10 ^ d + int (digits_val ds)),
              symbol = of_bytes (symbol_bytes d name)\<rparr>"
proof -
  let ?s = "w @ ''.'' @ ds @ '' '' @ name"
  note seps = digits_separators [OF assms(3)] digits_separators [OF assms(5)]
  have d15: "d < 15" using assms(1) by (simp add: valid_symbol_def)
  have tr: "trim ?s = ?s" using trim_asset_text [OF assms(1,3,4), of "''.'' @ ds"] by simp
  have sp: "find_char (CHR '' '') ?s = Some (length w + 1 + d)"
    using seps assms(6) find_char_append [of "CHR '' ''" "w @ ''.'' @ ds" name] by simp
  have dt: "find_char (CHR ''.'') ?s = Some (length w)"
    using seps find_char_append [of "CHR ''.''" w "ds @ '' '' @ name"] by simp
  have iw: "to_int64 w = Inr (int (digits_val w))"
    using assms by (intro to_int64_digits) auto
  have dv: "digits_val (CHR ''1'' # ds) = 10 ^ d + digits_val ds"
    using digits_val_append [of "''1''" ds] assms(6)
    by (simp add: digits_val_def digit_val_def)
  have small: "digits_val ds < 10 ^ length ds"
    using assms(5) by (induction ds rule: rev_induct)
      (auto simp: digits_val_snoc digits_val_def digit_val_def is_digit_def)
  have "(10 :: nat) ^ d \<le> 10 ^ 14" using d15 by (intro power_increasing) auto
  then have "digits_val (CHR ''1'' # ds) < 2 * 10 ^ 14"
    using small assms(6) dv by simp
  then have i1: "to_int64 (CHR ''1'' # ds) = Inr (int (digits_val (CHR ''1'' # ds)))"
    using assms(5) by (intro to_int64_digits) (auto simp: is_digit_def int64_max_def)
  have dec: "set_decimals d \<lparr>amount = 0, symbol = 0\<rparr> = Inr \<lparr>amount = 0, symbol = d\<rparr>"
    using d15 by (simp add: set_decimals_def of_bytes_decimals_update)
  have byte0: "to_bytes 8 d ! 0 = d"
    using d15 by (simp add: to_bytes_8)
  have prec: "precision \<lparr>amount = 0, symbol = d\<rparr> = Inr (10 ^ d)"
    using d15 by (simp add: precision_def decimals_def byte0 precision_table_nth)
  have val: "wrap64 (wrap64 (wrap64 (int (digits_val w) * 10 ^ d) + (10 ^ d + int (digits_val ds))) - 10 ^ d)
           = wrap64 (int (digits_val w) * 10 ^ d + int (digits_val ds))"
    using wrap64_diff_left [of "wrap64 (int (digits_val w) * 10 ^ d) + (10 ^ d + int (digits_val ds))" "10 ^ d"]
      wrap64_add_left [of "int (digits_val w) * 10 ^ d" "int (digits_val ds)"]
    by (simp add: add.assoc)
  have fr: "take (length w + 1 + d - length w - 1) (drop (length w + 1) ?s) = ds"
    using assms(6) by simp
  have ip: "take (length w) ?s = w" by simp
  have nm: "drop (length w + 1 + d + 1) ?s = name" using assms(6) by simp
  show ?thesis
    unfolding asset_from_string_def Let_def tr sp dt option.case fr ip nm
    using assms(1,6) d15
    by (simp add: dec prec iw i1 dv val byte0 valid_symbol_def)
qed

text \<open>
  C29: Printing an asset and parsing the text gives the asset back: for every
  non-negative 64 bit amount, every count of decimals below 15 and every name of one to
  six characters without spaces, dots or NULs, \<^verbatim>\<open>from_string(to_string(a)) == a\<close>.
\<close>

theorem asset_string_roundtrip:
  assumes "valid_symbol d name" "0 \<le> v" "v \<le> int64_max"
  shows "bindR (asset_to_string \<lparr>amount = v, symbol = of_bytes (symbol_bytes d name)\<rparr>) asset_from_string
       = Inr \<lparr>amount = v, symbol = of_bytes (symbol_bytes d name)\<rparr>"
proof -
  let ?a = "\<lparr>amount = v, symbol = of_bytes (symbol_bytes d name)\<rparr>"
  have rd: "precision ?a = Inr (10 ^ d)" "symbol_name ?a = Inr name"
    using symbol_readers [OF assms(1), of ?a] by simp_all
  define w where "w = nat_to_string (nat (v div 10 ^ d))"
  have whole: "int_to_string (trunc_div v (10 ^ d)) = w"
    using assms(2) by (simp add: w_def int_to_string_def trunc_div_nonneg div_int_pos_iff not_less)
  have w: "list_all is_digit w" "w \<noteq> []" "int (digits_val w) = v div 10 ^ d"
    using assms(2) by (auto simp: w_def nat_to_string_digits pos_imp_zdiv_nonneg_iff)
  have "v div 10 ^ d \<le> v" using assms(2) zdiv_mono2 [of v 1 "10 ^ d"] by simp
  with w(3) assms(3) have wm: "int (digits_val w) \<le> int64_max" by simp
  show ?thesis
  proof (cases "d = 0")
    case True
    have "asset_to_string ?a = Inr (w @ '' '' @ name)"
      using rd whole True by (simp add: asset_to_string_def)
    moreover have "asset_from_string (w @ '' '' @ name) = Inr ?a"
      using from_string_whole [of name w] assms w wm True by simp
    ultimately show ?thesis by simp
  next
    case False
    then obtain ds where ds: "int_to_string (10 ^ d + trunc_mod v (10 ^ d)) = CHR ''1'' # ds"
      "length ds = d" "list_all is_digit ds"
      using fraction_text [OF assms(2)] by blast
    have "asset_to_string ?a = Inr (w @ ''.'' @ ds @ '' '' @ name)"
      using rd whole False ds by (simp add: asset_to_string_def)
    moreover have dsv: "int (digits_val ds) = v mod 10 ^ d"
    proof -
      have "0 \<le> trunc_mod v (10 ^ d)" using assms(2) by (simp add: trunc_mod_nonneg)
      then have nn: "0 \<le> 10 ^ d + trunc_mod v (10 ^ d)" by (simp add: add_nonneg_nonneg)
      then have eq: "CHR ''1'' # ds = nat_to_string (nat (10 ^ d + trunc_mod v (10 ^ d)))"
        using ds(1) by (simp add: int_to_string_def split: if_splits)
      have "digits_val (CHR ''1'' # ds) = 10 ^ d + digits_val ds"
        using digits_val_append [of "''1''" ds] ds(2) by (simp add: digits_val_def digit_val_def)
      moreover have "digits_val (CHR ''1'' # ds) = nat (10 ^ d + trunc_mod v (10 ^ d))"
        unfolding eq by simp
      ultimately have "int (nat (10 ^ d + trunc_mod v (10 ^ d))) = int (10 ^ d + digits_val ds)"
        by simp
      then have "10 ^ d + trunc_mod v (10 ^ d) = 10 ^ d + int (digits_val ds)"
        unfolding int_nat_eq using nn by simp
      then show ?thesis using assms(2) by (simp add: trunc_mod_nonneg)
    qed
    moreover have "int64_range v"
      using assms by (simp add: int64_range_def int64_min_def)
    ultimately show ?thesis
      using from_string_fraction [OF assms(1) _ w(1,2) ds(3,2) wm] False w(3)
      by (simp add: div_mult_mod_eq wrap64_id)
  qed
qed

theorem asset_string_roundtrip_witness:
  "valid_symbol 6 ''TNC'' \<and>
   bindR (asset_to_string \<lparr>amount = 7005000, symbol = of_bytes (symbol_bytes 6 ''TNC'')\<rparr>) asset_from_string
     = Inr \<lparr>amount = 7005000, symbol = of_bytes (symbol_bytes 6 ''TNC'')\<rparr>"
proof -
  have v: "valid_symbol 6 ''TNC''"
    by (simp add: valid_symbol_def symbol_char_def is_space_def)
  show ?thesis
    using v asset_string_roundtrip [OF v, of 7005000] by (simp add: int64_max_def)
qed

text \<open>
  \<^verbatim>\<open>asset::to_string\<close> is wrong below zero: the sign of the remainder is added to
  the precision, so \<open>-7.005000 TNC\<close> prints with a five digit fraction that reads back as
  another amount of another precision.
\<close>

theorem asset_to_string_negative:
  "asset_to_string (SGT (- 7005000)) = Inr ''-7.95000 TNC''"
proof -
  have sym: "SGT_SYMBOL = of_bytes (symbol_bytes 6 ''TNC'')"
    by (simp add: SGT_SYMBOL_def symbol_bytes_def)
  have v: "valid_symbol 6 ''TNC''"
    by (simp add: valid_symbol_def symbol_char_def is_space_def)
  have rd: "precision (SGT (- 7005000)) = Inr (10 ^ 6)" "symbol_name (SGT (- 7005000)) = Inr ''TNC''"
    using symbol_readers [OF v, of "SGT (- 7005000)"] sym by simp_all
  have "trunc_div (- 7005000) (10 ^ 6) = - 7" "trunc_mod (- 7005000) (10 ^ 6) = - 5000"
    by (simp_all add: trunc_mod_def trunc_div_def)
  moreover have "int_to_string (- 7) = ''-7''" "int_to_string 995000 = ''995000''"
    by (simp_all add: int_to_string_def nat_to_string.simps digit_char_def char_of_def bit_0)
  ultimately show ?thesis using rd by (simp add: asset_to_string_def)
qed

section \<open>Comparing prices\<close>

text \<open>Products of two 64 bit amounts fit into 128 bits, so the comparison never wraps.\<close>

lemma u128_mul_exact:
  assumes "0 \<le> a" "a \<le> int64_max" "0 \<le> b" "b \<le> int64_max"
  shows "int (u128_mul (u128 a) (u128 b)) = a * b"
proof -
  have u: "u128 a = nat a" "u128 b = nat b"
    using assms by (simp_all add: u128_def int64_max_def)
  have "a * b \<le> int64_max * int64_max" using assms by (intro mult_mono) auto
  then have "a * b < 2 ^ 128" by (simp add: int64_max_def)
  then have "nat a * nat b < 2 ^ 128"
    using assms by (simp add: nat_mult_distrib [symmetric] nat_less_iff)
  then show ?thesis using assms by (simp add: u u128_mul_def)
qed

definition price_positive :: "price \<Rightarrow> bool" where
  "price_positive p \<longleftrightarrow> 0 < amount (base p) \<and> amount (base p) \<le> int64_max
     \<and> 0 < amount (quote p) \<and> amount (quote p) \<le> int64_max"

text \<open>
  On positive amounts the price order is the order of the rational numbers: for
  two prices of the same pair of symbols \<open>price_lt\<close> and \<open>price_eq\<close> compare
  \<open>base / quote\<close> exactly, whatever the 64 bit amounts are.
\<close>

theorem price_order_exact:
  assumes "price_positive a" "price_positive b"
    and "symbol (base a) = symbol (base b)" "symbol (quote a) = symbol (quote b)"
  shows "(price_lt a b \<longleftrightarrow> amount (base a) * amount (quote b) < amount (base b) * amount (quote a))
       \<and> (price_eq a b \<longleftrightarrow> amount (base a) * amount (quote b) = amount (base b) * amount (quote a))"
proof -
  let ?ab = "u128_mul (u128 (amount (quote b))) (u128 (amount (base a)))"
  let ?ba = "u128_mul (u128 (amount (quote a))) (u128 (amount (base b)))"
  have l: "int ?ab = amount (quote b) * amount (base a)"
    and r: "int ?ba = amount (quote a) * amount (base b)"
    using assms by (auto simp: price_positive_def intro!: u128_mul_exact)
  have "price_lt a b \<longleftrightarrow> int ?ab < int ?ba" "price_eq a b \<longleftrightarrow> int ?ab = int ?ba"
    using assms by (simp_all add: price_lt_def price_eq_def)
  then show ?thesis unfolding l r by (simp add: mult.commute)
qed

theorem price_order_exact_witness:
  "price_lt \<lparr>base = SGT 2, quote = SGT 3\<rparr> \<lparr>base = SGT 3, quote = SGT 4\<rparr>"
  using price_order_exact
    [of "\<lparr>base = SGT 2, quote = SGT 3\<rparr>" "\<lparr>base = SGT 3, quote = SGT 4\<rparr>"]
  by (simp add: price_positive_def int64_max_def)

end
