(* ===== verification/Version.thy ===== *)
theory Version
  imports Text_Format
begin

unbundle bit_operations_syntax

text \<open>
  Version numbers, from \<^verbatim>\<open>libraries/protocol/version.cpp\<close> and \<^verbatim>\<open>version.hpp\<close>:
  a version packs major, hardfork and release into 32 bits, a hardfork version
  keeps the upper half, and the comparison of versions is that of the numbers.
\<close>

section \<open>Versions\<close>

type_synonym version = "32 word"
type_synonym hardfork_version = "32 word"

definition mk_version :: "8 word \<Rightarrow> 8 word \<Rightarrow> 16 word \<Rightarrow> version" where
  "mk_version m h r =
     (let v1 = push_bit 8 (0 OR ucast m :: 32 word);
          v2 = push_bit 16 (v1 OR ucast h)
      in v2 OR ucast r)"

definition version_to_string :: "version \<Rightarrow> string" where
  "version_to_string v =
     nat_to_string (unat (drop_bit 24 v AND 0xFF)) @ ''.'' @
     nat_to_string (unat (drop_bit 16 v AND 0xFF)) @ ''.'' @
     nat_to_string (unat (v AND 0xFFFF))"

definition hardfork_version_of :: "version \<Rightarrow> hardfork_version" where
  "hardfork_version_of v = v AND 0xFFFF0000"

definition hardfork_eq_version :: "hardfork_version \<Rightarrow> version \<Rightarrow> bool" where
  "hardfork_eq_version h v \<longleftrightarrow> h = (v AND 0xFFFF0000)"

definition hardfork_lt_version :: "hardfork_version \<Rightarrow> version \<Rightarrow> bool" where
  "hardfork_lt_version h v \<longleftrightarrow> h < (v AND 0xFFFF0000)"

definition hardfork_le_version :: "hardfork_version \<Rightarrow> version \<Rightarrow> bool" where
  "hardfork_le_version h v \<longleftrightarrow> h \<le> (v AND 0xFFFF0000)"

record hardfork_version_vote =
  hf_version :: hardfork_version
  hf_time :: time_point_sec

text \<open>
  \<^verbatim>\<open>from_variant\<close> reads \<^verbatim>\<open>s >> major >> dot_a >> hardfork >> dot_b >> revision\<close> from a
  \<^verbatim>\<open>std::stringstream\<close>. The stream is its unread text and its \<^verbatim>\<open>failbit\<close> and
  \<^verbatim>\<open>eofbit\<close>. A read on a stream that is not good fails and leaves its target, zero
  here, alone; a \<^verbatim>\<open>uint32_t\<close> takes an optional sign and the longest run of digits, is
  saturated (and the stream failed) when out of range, and negated modulo \<open>2 ^ 32\<close>
  after a minus; reaching the end while scanning digits sets the end-of-file flag.
\<close>

record stream =
  unread :: string
  failbit :: bool
  eofbit :: bool

definition stream_good :: "stream \<Rightarrow> bool" where
  "stream_good st \<longleftrightarrow> \<not> failbit st \<and> \<not> eofbit st"

definition scan_number :: "bool \<Rightarrow> stream \<Rightarrow> string \<Rightarrow> nat \<times> stream" where
  "scan_number neg st t =
     (let ds = takeWhile is_digit t; rest = dropWhile is_digit t;
          st' = st\<lparr>unread := rest, eofbit := (rest = [])\<rparr>
      in if ds = [] then (0, st'\<lparr>failbit := True\<rparr>)
         else if digits_val ds \<ge> 2 ^ 32 then (2 ^ 32 - 1, st'\<lparr>failbit := True\<rparr>)
         else ((if neg then (2 ^ 32 - digits_val ds) mod 2 ^ 32 else digits_val ds), st'))"

definition read_number :: "stream \<Rightarrow> nat \<times> stream" where
  "read_number st =
     (if \<not> stream_good st then (0, st\<lparr>failbit := True\<rparr>)
      else case dropWhile is_space (unread st) of
             [] \<Rightarrow> (0, st\<lparr>unread := [], failbit := True, eofbit := True\<rparr>)
           | c # cs \<Rightarrow>
               if c = CHR ''-'' then scan_number True st cs
               else if c = CHR ''+'' then scan_number False st cs
               else scan_number False st (c # cs))"

definition read_char :: "stream \<Rightarrow> char \<times> stream" where
  "read_char st =
     (if \<not> stream_good st then (char_of (0 :: nat), st\<lparr>failbit := True\<rparr>)
      else case dropWhile is_space (unread st) of
             [] \<Rightarrow> (char_of (0 :: nat), st\<lparr>unread := [], failbit := True, eofbit := True\<rparr>)
           | c # cs \<Rightarrow> (c, st\<lparr>unread := cs\<rparr>))"

definition version_from_string :: "string \<Rightarrow> version result" where
  "version_from_string s =
     (let (major, s1) = read_number \<lparr>unread = s, failbit = False, eofbit = False\<rparr>;
          (dot_a, s2) = read_char s1;
          (hardfork, s3) = read_number s2;
          (dot_b, s4) = read_char s3;
          (revision, s5) = read_number s4
      in fc_assert ((dot_a = CHR ''.'' \<or> dot_a = CHR ''_'') \<and> dot_a = dot_b) Bad_version_string
        (fc_assert (major \<le> 0xFF) Bad_version_string
        (fc_assert (hardfork \<le> 0xFF) Bad_version_string
        (fc_assert (revision \<le> 0xFFFF) Bad_version_string
        (fc_assert (eofbit s5) Bad_version_string
          (Inr (push_bit 24 (of_nat major) OR push_bit 16 (of_nat hardfork) OR of_nat revision)))))))"

definition hardfork_version_from_string :: "string \<Rightarrow> hardfork_version result" where
  "hardfork_version_from_string s = bindR (version_from_string s) (\<lambda>v. Inr (v AND 0xFFFF0000))"

section \<open>Properties\<close>

lemma read_number_print:
  assumes "n < 2 ^ 32" "rest = [] \<or> \<not> is_digit (hd rest)"
  shows "read_number \<lparr>unread = nat_to_string n @ rest, failbit = False, eofbit = False\<rparr>
       = (n, \<lparr>unread = rest, failbit = False, eofbit = (rest = [])\<rparr>)"
proof -
  let ?d = "nat_to_string n"
  have dig: "\<forall>c \<in> set ?d. is_digit c" using nat_to_string_digits [of n] by (simp add: list_all_iff)
  obtain c cs where d: "?d = c # cs" by (cases ?d) auto
  have sgn: "c \<noteq> CHR ''-''" "c \<noteq> CHR ''+''" "\<not> is_space c"
    using d dig digit_not_sign digit_not_space by auto
  have tk: "takeWhile is_digit (?d @ rest) = ?d" "dropWhile is_digit (?d @ rest) = rest"
    using dig assms(2) by (cases rest; auto simp: takeWhile_append2 dropWhile_append2)+
  have "read_number \<lparr>unread = ?d @ rest, failbit = False, eofbit = False\<rparr>
      = scan_number False \<lparr>unread = ?d @ rest, failbit = False, eofbit = False\<rparr> (?d @ rest)"
    using d sgn by (simp add: read_number_def stream_good_def)
  also have "\<dots> = (n, \<lparr>unread = rest, failbit = False, eofbit = (rest = [])\<rparr>)"
    unfolding scan_number_def tk using assms(1) by (simp add: not_le)
  finally show ?thesis .
qed

lemma read_char_dot:
  "read_char \<lparr>unread = CHR ''.'' # s, failbit = False, eofbit = False\<rparr>
     = (CHR ''.'', \<lparr>unread = s, failbit = False, eofbit = False\<rparr>)"
  by (simp add: read_char_def stream_good_def is_space_def)

lemma dot_not_digit: "\<not> is_digit (CHR ''.'')"
  by (simp add: is_digit_def)

lemma version_parts:
  "push_bit 24 (drop_bit 24 v AND 0xFF) OR push_bit 16 (drop_bit 16 v AND 0xFF) OR (v AND 0xFFFF)
     = (v :: version)"
proof (rule bit_word_eqI)
  fix n assume n: "n < LENGTH(32)"
  have masks: "(0xFF :: 32 word) = mask 8" "(0xFFFF :: 32 word) = mask 16"
    by (simp_all add: mask_eq_exp_minus_1)
  consider "n < 16" | "16 \<le> n" "n < 24" | "24 \<le> n" by linarith
  then show "bit (push_bit 24 (drop_bit 24 v AND 0xFF) OR push_bit 16 (drop_bit 16 v AND 0xFF)
      OR (v AND 0xFFFF)) n = bit v n"
    unfolding masks using n by cases (auto simp: bit_simps)
qed

lemma unat_byte_le: "unat ((w :: version) AND 0xFF) \<le> 0xFF" "unat (w AND 0xFFFF) \<le> 0xFFFF"
proof -
  have "w AND 0xFF \<le> 0xFF" "w AND 0xFFFF \<le> 0xFFFF" by (rule word_and_le1)+
  then show "unat (w AND 0xFF) \<le> 0xFF" "unat (w AND 0xFFFF) \<le> 0xFFFF"
    by (simp_all add: word_le_nat_alt)
qed

text \<open>
  Reading back the printed form of a version gives the version, for all
  \<open>2 ^ 32\<close> of them.
\<close>

theorem version_string_roundtrip: "version_from_string (version_to_string v) = Inr v"
proof -
  let ?a = "unat (drop_bit 24 v AND 0xFF)" and ?b = "unat (drop_bit 16 v AND 0xFF)"
  let ?c = "unat (v AND 0xFFFF)"
  have le: "?a \<le> 0xFF" "?b \<le> 0xFF" "?c \<le> 0xFFFF" by (rule unat_byte_le)+
  have "read_number \<lparr>unread = version_to_string v, failbit = False, eofbit = False\<rparr>
      = (?a, \<lparr>unread = ''.'' @ nat_to_string ?b @ ''.'' @ nat_to_string ?c, failbit = False, eofbit = False\<rparr>)"
    using le read_number_print [of ?a "''.'' @ nat_to_string ?b @ ''.'' @ nat_to_string ?c"]
    by (simp add: version_to_string_def dot_not_digit)
  moreover have "read_number \<lparr>unread = nat_to_string ?b @ ''.'' @ nat_to_string ?c, failbit = False, eofbit = False\<rparr>
      = (?b, \<lparr>unread = ''.'' @ nat_to_string ?c, failbit = False, eofbit = False\<rparr>)"
    using le read_number_print [of ?b "''.'' @ nat_to_string ?c"] by (simp add: dot_not_digit)
  moreover have "read_number \<lparr>unread = nat_to_string ?c, failbit = False, eofbit = False\<rparr>
      = (?c, \<lparr>unread = [], failbit = False, eofbit = True\<rparr>)"
    using le read_number_print [of ?c "[]"] by simp
  ultimately show ?thesis
    using le version_parts [of v] by (simp add: version_from_string_def read_char_dot or.assoc)
qed

lemma unat_mk_version: "unat (mk_version m h r) = unat m * 2 ^ 24 + unat h * 2 ^ 16 + unat r"
proof -
  have "mk_version m h r = push_bit 24 (ucast m) OR push_bit 16 (ucast h) OR ucast r"
    by (rule bit_word_eqI) (auto simp: mk_version_def Let_def bit_simps)
  also have "\<dots> = push_bit 24 (ucast m) + push_bit 16 (ucast h) + ucast r"
  proof -
    have d1: "push_bit 16 (ucast h :: 32 word) AND ucast r = 0"
      by (rule bit_word_eqI) (auto simp: bit_simps dest: bit_imp_le_length)
    have d2: "push_bit 24 (ucast m :: 32 word) AND (push_bit 16 (ucast h) OR ucast r) = 0"
      by (rule bit_word_eqI) (auto simp: bit_simps dest: bit_imp_le_length)
    show ?thesis using d1 d2 by (simp add: disjunctive_add_eq_or add.assoc or.assoc)
  qed
  also have "unat \<dots> = unat m * 2 ^ 24 + unat h * 2 ^ 16 + unat r"
  proof -
    have b: "unat m < 256" "unat h < 256" "unat r < 65536"
      using unsigned_less [of m] unsigned_less [of h]
        unsigned_less [of r] by simp_all
    have "push_bit 24 (ucast m) + push_bit 16 (ucast h) + ucast r
        = (of_nat (unat m * 2 ^ 24 + unat h * 2 ^ 16 + unat r) :: 32 word)"
      by (simp add: push_bit_eq_mult)
    moreover have "unat (of_nat (unat m * 2 ^ 24 + unat h * 2 ^ 16 + unat r) :: 32 word)
        = unat m * 2 ^ 24 + unat h * 2 ^ 16 + unat r"
      unfolding unat_of_nat by (rule mod_less) (use b in simp)
    ultimately show ?thesis by (simp only:)
  qed
  finally show ?thesis .
qed

text \<open>
  The packed numbers are ordered like the triples: comparing two versions
  compares major, then hardfork, then release.
\<close>

theorem version_order:
  "mk_version m h r < mk_version m' h' r' \<longleftrightarrow>
     (unat m, unat h, unat r) < (unat m', unat h', unat r')"
proof -
  have b: "unat h < 256" "unat r < 65536" "unat h' < 256" "unat r' < 65536"
    using unsigned_less [of h] unsigned_less [of r]
      unsigned_less [of h'] unsigned_less [of r'] by simp_all
  have "mk_version m h r < mk_version m' h' r' \<longleftrightarrow>
      unat m * 2 ^ 24 + unat h * 2 ^ 16 + unat r < unat m' * 2 ^ 24 + unat h' * 2 ^ 16 + unat r'"
    by (simp only: word_less_nat_alt unat_mk_version)
  also have "\<dots> \<longleftrightarrow> (unat m, unat h, unat r) < (unat m', unat h', unat r')"
    using b by (auto simp: less_prod_def')
  finally show ?thesis .
qed

end
