(* ===== verification/Chainbase.thy ===== *)
theory Chainbase
  imports Prelude
begin

text \<open>
  The object store with undo sessions, from \<^verbatim>\<open>libraries/chainbase\<close>: a \<^verbatim>\<open>generic_index\<close>
  holds the objects of one type and a stack of undo states, each a difference to the state
  before a session. The theory shows that this difference log implements a stack of full
  snapshots: an undo goes back to the state in which the session was started, whatever was
  created, modified and removed in it, and a squash forgets one snapshot.

  The unique keys of an index are a parameter \<open>clash\<close> that says when two objects agree on
  one of them. Allocation, locking and the memory mapped file are not modelled.
\<close>

section \<open>State\<close>

record 'v undo_state =
  old_values :: "(nat \<times> 'v) list"
  removed_values :: "(nat \<times> 'v) list"
  new_ids :: "nat list"
  old_next_id :: nat
  undo_revision :: int

text \<open>The deque of undo states is a list whose head is \<^verbatim>\<open>_stack.back()\<close>.\<close>

record 'v generic_index =
  ix_stack :: "'v undo_state list"
  ix_revision :: int
  ix_next_id :: nat
  ix_indices :: "(nat \<times> 'v) list"

definition empty_index :: "'v generic_index" where
  "empty_index = \<lparr>ix_stack = [], ix_revision = 0, ix_next_id = 0, ix_indices = []\<rparr>"

definition no_clash :: "('v \<Rightarrow> 'v \<Rightarrow> bool) \<Rightarrow> 'v \<Rightarrow> (nat \<times> 'v) list \<Rightarrow> bool" where
  "no_clash clash v m = list_all (\<lambda>(_, w). \<not> clash v w) m"

section \<open>Recording changes\<close>

definition on_modify :: "nat \<Rightarrow> 'v \<Rightarrow> 'v undo_state \<Rightarrow> 'v undo_state" where
  "on_modify i v head =
     (if i \<in> set (new_ids head) then head
      else if map_of (old_values head) i \<noteq> None then head
      else head\<lparr>old_values := flat_map_emplace i v (old_values head)\<rparr>)"

definition on_remove :: "nat \<Rightarrow> 'v \<Rightarrow> 'v undo_state \<Rightarrow> 'v undo_state" where
  "on_remove i v head =
     (if i \<in> set (new_ids head) then head\<lparr>new_ids := flat_set_erase i (new_ids head)\<rparr>
      else
        (case map_of (old_values head) i of
           Some old \<Rightarrow>
             head\<lparr>removed_values := flat_map_emplace i old (removed_values head),
                  old_values := flat_map_erase i (old_values head)\<rparr>
         | None \<Rightarrow>
             (if map_of (removed_values head) i \<noteq> None then head
              else head\<lparr>removed_values := flat_map_emplace i v (removed_values head)\<rparr>)))"

definition on_create :: "nat \<Rightarrow> 'v undo_state \<Rightarrow> 'v undo_state" where
  "on_create i head = head\<lparr>new_ids := flat_set_insert i (new_ids head)\<rparr>"

definition on_head :: "('v undo_state \<Rightarrow> 'v undo_state) \<Rightarrow> 'v undo_state list \<Rightarrow> 'v undo_state list" where
  "on_head f st = (case st of [] \<Rightarrow> [] | head # rest \<Rightarrow> f head # rest)"

section \<open>Operations of an index\<close>

text \<open>
  \<open>emplace\<close> returns the id of the new object. A reference to an object is its id; the
  reference of a removed object is the error \<open>Unknown_key\<close>.
\<close>

definition emplace :: "('v \<Rightarrow> 'v \<Rightarrow> bool) \<Rightarrow> (nat \<Rightarrow> 'v) \<Rightarrow> 'v generic_index \<Rightarrow> (nat \<times> 'v generic_index) result" where
  "emplace clash c ix =
     (let new_id = ix_next_id ix; v = c new_id in
      guardR (no_clash clash v (ix_indices ix)) Uniqueness_violated (
      Inr (new_id, ix\<lparr>ix_indices := flat_map_put new_id v (ix_indices ix),
                      ix_next_id := new_id + 1,
                      ix_stack := on_head (on_create new_id) (ix_stack ix)\<rparr>)))"

definition modify :: "('v \<Rightarrow> 'v \<Rightarrow> bool) \<Rightarrow> nat \<Rightarrow> ('v \<Rightarrow> 'v) \<Rightarrow> 'v generic_index \<Rightarrow> 'v generic_index result" where
  "modify clash i f ix =
     bindR (of_option Unknown_key (map_of (ix_indices ix) i)) (\<lambda>v.
     guardR (no_clash clash (f v) (flat_map_erase i (ix_indices ix))) Uniqueness_violated (
     Inr (ix\<lparr>ix_stack := on_head (on_modify i v) (ix_stack ix),
             ix_indices := flat_map_put i (f v) (ix_indices ix)\<rparr>)))"

definition remove :: "nat \<Rightarrow> 'v generic_index \<Rightarrow> 'v generic_index result" where
  "remove i ix =
     bindR (of_option Unknown_key (map_of (ix_indices ix) i)) (\<lambda>v.
     Inr (ix\<lparr>ix_stack := on_head (on_remove i v) (ix_stack ix),
             ix_indices := flat_map_erase i (ix_indices ix)\<rparr>))"

definition start_undo_session :: "bool \<Rightarrow> 'v generic_index \<Rightarrow> 'v generic_index" where
  "start_undo_session enabled ix =
     (if enabled then
        ix\<lparr>ix_stack := \<lparr>old_values = [], removed_values = [], new_ids = [], old_next_id = ix_next_id ix,
                        undo_revision = ix_revision ix + 1\<rparr> # ix_stack ix,
           ix_revision := ix_revision ix + 1\<rparr>
      else ix)"

definition restore_old :: "('v \<Rightarrow> 'v \<Rightarrow> bool) \<Rightarrow> (nat \<times> 'v) list \<Rightarrow> nat \<times> 'v \<Rightarrow> (nat \<times> 'v) list result" where
  "restore_old clash m item =
     guardR (map_of m (fst item) \<noteq> None) Unknown_key (
     guardR (no_clash clash (snd item) (flat_map_erase (fst item) m)) Uniqueness_violated (
     Inr (flat_map_put (fst item) (snd item) m)))"

definition restore_removed :: "('v \<Rightarrow> 'v \<Rightarrow> bool) \<Rightarrow> (nat \<times> 'v) list \<Rightarrow> nat \<times> 'v \<Rightarrow> (nat \<times> 'v) list result" where
  "restore_removed clash m item =
     guardR (map_of m (fst item) = None \<and> no_clash clash (snd item) m) Uniqueness_violated (
     Inr (flat_map_put (fst item) (snd item) m))"

definition undo :: "('v \<Rightarrow> 'v \<Rightarrow> bool) \<Rightarrow> 'v generic_index \<Rightarrow> 'v generic_index result" where
  "undo clash ix =
     (case ix_stack ix of
        [] \<Rightarrow> Inr ix
      | head # rest \<Rightarrow>
          bindR (foldR (restore_old clash) (ix_indices ix) (old_values head)) (\<lambda>m.
          bindR (foldR (restore_removed clash) (foldl (\<lambda>m i. flat_map_erase i m) m (new_ids head))
                   (removed_values head)) (\<lambda>m.
          Inr (ix\<lparr>ix_indices := m, ix_next_id := old_next_id head, ix_stack := rest,
                  ix_revision := ix_revision ix - 1\<rparr>))))"

text \<open>The three loops of \<^verbatim>\<open>squash\<close>, each on the state before the one being merged.\<close>

definition squash_old :: "'v undo_state \<Rightarrow> nat \<times> 'v \<Rightarrow> 'v undo_state" where
  "squash_old prev item =
     (if fst item \<in> set (new_ids prev) then prev
      else if map_of (old_values prev) (fst item) \<noteq> None then prev
      else prev\<lparr>old_values := flat_map_emplace (fst item) (snd item) (old_values prev)\<rparr>)"

definition squash_removed :: "'v undo_state \<Rightarrow> nat \<times> 'v \<Rightarrow> 'v undo_state" where
  "squash_removed prev item =
     (if fst item \<in> set (new_ids prev) then prev\<lparr>new_ids := flat_set_erase (fst item) (new_ids prev)\<rparr>
      else
        (case map_of (old_values prev) (fst item) of
           Some old \<Rightarrow>
             prev\<lparr>removed_values := flat_map_emplace (fst item) old (removed_values prev),
                  old_values := flat_map_erase (fst item) (old_values prev)\<rparr>
         | None \<Rightarrow> prev\<lparr>removed_values := flat_map_emplace (fst item) (snd item) (removed_values prev)\<rparr>))"

definition squash_states :: "'v undo_state \<Rightarrow> 'v undo_state \<Rightarrow> 'v undo_state" where
  "squash_states state prev =
     (let p1 = foldl squash_old prev (old_values state);
          p2 = foldl (\<lambda>p i. p\<lparr>new_ids := flat_set_insert i (new_ids p)\<rparr>) p1 (new_ids state)
      in foldl squash_removed p2 (removed_values state))"

definition squash :: "'v generic_index \<Rightarrow> 'v generic_index" where
  "squash ix =
     (case ix_stack ix of
        [] \<Rightarrow> ix
      | [_] \<Rightarrow> ix\<lparr>ix_stack := []\<rparr>
      | state # prev # rest \<Rightarrow>
          ix\<lparr>ix_stack := squash_states state prev # rest, ix_revision := ix_revision ix - 1\<rparr>)"

definition commit :: "int \<Rightarrow> 'v generic_index \<Rightarrow> 'v generic_index" where
  "commit rev' ix =
     ix\<lparr>ix_stack := rev (dropWhile (\<lambda>s. undo_revision s \<le> rev') (rev (ix_stack ix)))\<rparr>"

fun undo_times :: "('v \<Rightarrow> 'v \<Rightarrow> bool) \<Rightarrow> nat \<Rightarrow> 'v generic_index \<Rightarrow> 'v generic_index result" where
  "undo_times clash 0 ix = Inr ix"
| "undo_times clash (Suc n) ix = bindR (undo clash ix) (undo_times clash n)"

text \<open>\<^verbatim>\<open>while( enabled() ) undo();\<close>: each undo pops one state, so the stack size bounds the loop.\<close>

definition undo_all :: "('v \<Rightarrow> 'v \<Rightarrow> bool) \<Rightarrow> 'v generic_index \<Rightarrow> 'v generic_index result" where
  "undo_all clash ix = undo_times clash (length (ix_stack ix)) ix"

definition set_revision :: "int \<Rightarrow> 'v generic_index \<Rightarrow> 'v generic_index result" where
  "set_revision r ix = guardR (ix_stack ix = []) Undo_database_exception (Inr (ix\<lparr>ix_revision := r\<rparr>))"

definition remove_object :: "nat \<Rightarrow> 'v generic_index \<Rightarrow> 'v generic_index result" where
  "remove_object i ix = remove i ix"

section \<open>What an undo state stands for\<close>

text \<open>
  The relation of an object to an undo state: whether it is new, its old value if it was
  updated, its old value if it was removed. \<open>roll_back\<close> is the value before the session.
\<close>

type_synonym 'v view = "bool \<times> 'v option \<times> 'v option"

definition view :: "'v undo_state \<Rightarrow> nat \<Rightarrow> 'v view" where
  "view u i = (i \<in> set (new_ids u), map_of (old_values u) i, map_of (removed_values u) i)"

fun roll_back :: "'v view \<Rightarrow> 'v option \<Rightarrow> 'v option" where
  "roll_back (True, _, _) x = None"
| "roll_back (False, Some v, _) x = Some v"
| "roll_back (False, None, Some v) x = Some v"
| "roll_back (False, None, None) x = x"

definition same_key :: "('v \<Rightarrow> 'v \<Rightarrow> bool) \<Rightarrow> 'v \<Rightarrow> 'v \<Rightarrow> bool" where
  "same_key clash v w \<longleftrightarrow> (\<forall>x. clash v x = clash w x \<and> clash x v = clash x w)"

fun wf_view :: "('v \<Rightarrow> 'v \<Rightarrow> bool) \<Rightarrow> nat \<Rightarrow> nat \<Rightarrow> 'v view \<Rightarrow> 'v option \<Rightarrow> bool" where
  "wf_view clash old_next i (True, old, rem) x \<longleftrightarrow> old = None \<and> rem = None \<and> x \<noteq> None \<and> old_next \<le> i"
| "wf_view clash old_next i (False, Some v, rem) x \<longleftrightarrow>
     rem = None \<and> i < old_next \<and> (\<exists>w. x = Some w \<and> same_key clash v w)"
| "wf_view clash old_next i (False, None, Some v) x \<longleftrightarrow> x = None \<and> i < old_next"
| "wf_view clash old_next i (False, None, None) x \<longleftrightarrow> (x \<noteq> None \<longrightarrow> i < old_next)"

definition wf_undo :: "('v \<Rightarrow> 'v \<Rightarrow> bool) \<Rightarrow> 'v undo_state \<Rightarrow> (nat \<rightharpoonup> 'v) \<Rightarrow> bool" where
  "wf_undo clash u m \<longleftrightarrow>
     wf_flat (map fst (old_values u)) \<and> wf_flat (map fst (removed_values u)) \<and> wf_flat (new_ids u)
     \<and> (\<forall>i. wf_view clash (old_next_id u) i (view u i) (m i))"

definition clash_free :: "('v \<Rightarrow> 'v \<Rightarrow> bool) \<Rightarrow> (nat \<rightharpoonup> 'v) \<Rightarrow> bool" where
  "clash_free clash m \<longleftrightarrow> (\<forall>i j v w. m i = Some v \<longrightarrow> m j = Some w \<longrightarrow> i \<noteq> j \<longrightarrow> \<not> clash v w)"

definition before :: "'v undo_state \<Rightarrow> (nat \<rightharpoonup> 'v) \<Rightarrow> (nat \<rightharpoonup> 'v)" where
  "before u m = (\<lambda>i. roll_back (view u i) (m i))"

fun wf_stack :: "('v \<Rightarrow> 'v \<Rightarrow> bool) \<Rightarrow> (nat \<rightharpoonup> 'v) \<Rightarrow> nat \<Rightarrow> 'v undo_state list \<Rightarrow> bool" where
  "wf_stack clash m n [] \<longleftrightarrow> clash_free clash m \<and> (\<forall>i. m i \<noteq> None \<longrightarrow> i < n)"
| "wf_stack clash m n (u # us) \<longleftrightarrow> clash_free clash m \<and> (\<forall>i. m i \<noteq> None \<longrightarrow> i < n)
     \<and> wf_undo clash u m \<and> old_next_id u \<le> n \<and> wf_stack clash (before u m) (old_next_id u) us"

definition wf_index :: "('v \<Rightarrow> 'v \<Rightarrow> bool) \<Rightarrow> 'v generic_index \<Rightarrow> bool" where
  "wf_index clash ix \<longleftrightarrow> wf_flat (map fst (ix_indices ix))
     \<and> wf_stack clash (map_of (ix_indices ix)) (ix_next_id ix) (ix_stack ix)"

text \<open>
  The abstraction: the objects and the next id now, and the same pair for every session
  that is open, the newest first.
\<close>

type_synonym 'v snapshot = "(nat \<rightharpoonup> 'v) \<times> nat"

definition contents :: "'v generic_index \<Rightarrow> 'v snapshot" where
  "contents ix = (map_of (ix_indices ix), ix_next_id ix)"

fun snapshots :: "(nat \<rightharpoonup> 'v) \<Rightarrow> 'v undo_state list \<Rightarrow> 'v snapshot list" where
  "snapshots m [] = []"
| "snapshots m (u # us) = (before u m, old_next_id u) # snapshots (before u m) us"

definition history :: "'v generic_index \<Rightarrow> 'v snapshot list" where
  "history ix = snapshots (map_of (ix_indices ix)) (ix_stack ix)"

section \<open>Every change keeps the snapshots\<close>

lemma view_on_create: "view (on_create i u) j = (if j = i then (True, snd (view u i)) else view u j)"
  by (auto simp: view_def on_create_def)

lemma view_on_modify:
  "view (on_modify i v u) j =
     (if j \<noteq> i then view u j
      else case view u i of (False, None, r) \<Rightarrow> (False, Some v, r) | w \<Rightarrow> w)"
  by (auto simp: view_def on_modify_def table_simps split: option.splits)

lemma view_on_remove:
  "view (on_remove i v u) j =
     (if j \<noteq> i then view u j
      else case view u i of
        (True, r) \<Rightarrow> (False, r)
      | (False, Some old, None) \<Rightarrow> (False, None, Some old)
      | (False, Some old, Some r) \<Rightarrow> (False, None, Some r)
      | (False, None, None) \<Rightarrow> (False, None, Some v)
      | w \<Rightarrow> w)"
  by (auto simp: view_def on_remove_def table_simps split: option.splits)

lemma wf_on_changes:
  assumes "wf_flat (map fst (old_values u))" "wf_flat (map fst (removed_values u))" "wf_flat (new_ids u)"
  shows "wf_flat (map fst (old_values (on_create i u)))" "wf_flat (map fst (removed_values (on_create i u)))"
    "wf_flat (new_ids (on_create i u))"
    "wf_flat (map fst (old_values (on_modify i v u)))" "wf_flat (map fst (removed_values (on_modify i v u)))"
    "wf_flat (new_ids (on_modify i v u))"
    "wf_flat (map fst (old_values (on_remove i v u)))" "wf_flat (map fst (removed_values (on_remove i v u)))"
    "wf_flat (new_ids (on_remove i v u))"
  using assms
  by (auto simp: on_create_def on_modify_def on_remove_def wf_flat_put wf_flat_emplace wf_flat_erase
      split: option.splits)

lemma on_changes_next [simp]:
  "old_next_id (on_create i u) = old_next_id u"
  "old_next_id (on_modify i v u) = old_next_id u"
  "old_next_id (on_remove i v u) = old_next_id u"
  by (auto simp: on_create_def on_modify_def on_remove_def split: option.splits)

lemma same_key_refl [simp]: "same_key clash v v"
  by (simp add: same_key_def)

lemma same_key_trans: "same_key clash u v \<Longrightarrow> same_key clash v w \<Longrightarrow> same_key clash u w"
  by (simp add: same_key_def)

text \<open>One object at a time: each change keeps the view well formed and the rolled back value.\<close>

lemma create_pointwise:
  assumes "wf_view clash o' i w None" "o' \<le> i"
  shows "wf_view clash o' i (True, snd w) (Some v) \<and> roll_back (True, snd w) (Some v) = roll_back w None"
  using assms by (cases "(clash, o', i, w, None :: 'a option)" rule: wf_view.cases) auto

lemma modify_pointwise:
  assumes "wf_view clash o' i w (Some v)" "same_key clash v v'"
  defines "w' \<equiv> (case w of (False, None, r) \<Rightarrow> (False, Some v, r) | w \<Rightarrow> w)"
  shows "wf_view clash o' i w' (Some v') \<and> roll_back w' (Some v') = roll_back w (Some v)"
  using assms by (cases "(clash, o', i, w, Some v)" rule: wf_view.cases) (auto intro: same_key_trans)

lemma remove_pointwise:
  assumes "wf_view clash o' i w (Some v)"
  defines "w' \<equiv> (case w of
        (True, r) \<Rightarrow> (False, r)
      | (False, Some old, None) \<Rightarrow> (False, None, Some old)
      | (False, Some old, Some r) \<Rightarrow> (False, None, Some r)
      | (False, None, None) \<Rightarrow> (False, None, Some v)
      | w \<Rightarrow> w)"
  shows "wf_view clash o' i w' None \<and> roll_back w' None = roll_back w (Some v)"
  using assms by (cases "(clash, o', i, w, Some v)" rule: wf_view.cases) auto

lemma wf_stack_base: "wf_stack clash m n us \<Longrightarrow> clash_free clash m \<and> (\<forall>i. m i \<noteq> None \<longrightarrow> i < n)"
  by (cases us) auto

lemma clash_free_upd:
  assumes "clash_free clash m" "symp clash"
    and "\<And>j w. m j = Some w \<Longrightarrow> j \<noteq> i \<Longrightarrow> \<not> clash v w"
  shows "clash_free clash (m(i \<mapsto> v))"
  using assms by (auto simp: clash_free_def dest: sympD)

text \<open>
  A change at one id that is recorded in the newest undo state keeps the stack well
  formed and every snapshot.
\<close>

lemma wf_stack_change:
  assumes "wf_stack clash m n us" "clash_free clash m'" "\<forall>i. m' i \<noteq> None \<longrightarrow> i < n'" "n \<le> n'"
    and flat: "\<And>u. wf_flat (map fst (old_values u)) \<Longrightarrow> wf_flat (map fst (removed_values u)) \<Longrightarrow>
        wf_flat (new_ids u) \<Longrightarrow> wf_flat (map fst (old_values (f u))) \<and> wf_flat (map fst (removed_values (f u)))
        \<and> wf_flat (new_ids (f u))"
    and next': "\<And>u. old_next_id (f u) = old_next_id u"
    and point: "\<And>u us' j. us = u # us' \<Longrightarrow> wf_view clash (old_next_id u) j (view u j) (m j) \<Longrightarrow>
        wf_view clash (old_next_id u) j (view (f u) j) (m' j) \<and>
        roll_back (view (f u) j) (m' j) = roll_back (view u j) (m j)"
  shows "wf_stack clash m' n' (on_head f us) \<and> snapshots m' (on_head f us) = snapshots m us"
proof (cases us)
  case Nil
  with assms(2,3) show ?thesis by (simp add: on_head_def)
next
  case (Cons u us')
  with assms(1) have u: "wf_undo clash u m" "old_next_id u \<le> n" "wf_stack clash (before u m) (old_next_id u) us'"
    by simp_all
  have pt: "\<And>j. wf_view clash (old_next_id u) j (view (f u) j) (m' j) \<and>
        roll_back (view (f u) j) (m' j) = roll_back (view u j) (m j)"
    using point [OF Cons] u(1) by (simp add: wf_undo_def)
  then have bf: "before (f u) m' = before u m" by (simp add: before_def)
  have "wf_undo clash (f u) m'"
    using u(1) flat [of u] pt by (simp add: wf_undo_def next')
  with Cons u bf assms(2,3,4) show ?thesis by (simp add: on_head_def next')
qed

lemma no_clash_iff: "wf_flat (map fst m) \<Longrightarrow> no_clash clash v m \<longleftrightarrow> (\<forall>i w. map_of m i = Some w \<longrightarrow> \<not> clash v w)"
  by (auto simp: no_clash_def list_all_iff wf_flat_def dest: map_of_SomeD map_of_is_SomeI)

lemma no_clash_erase_iff:
  "wf_flat (map fst m) \<Longrightarrow> no_clash clash v (flat_map_erase i m) \<longleftrightarrow>
     (\<forall>j w. j \<noteq> i \<longrightarrow> map_of m j = Some w \<longrightarrow> \<not> clash v w)"
  by (auto simp: no_clash_iff wf_flat_erase map_of_flat_map_erase split: if_splits)

lemma map_add_put: "map_of xs i = None \<Longrightarrow> m(i \<mapsto> v) ++ map_of xs = m ++ map_of ((i, v) # xs)"
  by (auto simp: map_add_def fun_eq_iff split: option.splits)

lemma emplace_refines:
  assumes "wf_index clash ix" "symp clash" "emplace clash c ix = Inr (i, ix')"
  shows "wf_index clash ix' \<and> history ix' = history ix
     \<and> i = snd (contents ix) \<and> contents ix' = ((fst (contents ix))(i \<mapsto> c i), i + 1)"
proof -
  let ?m = "map_of (ix_indices ix)" and ?n = "ix_next_id ix"
  from assms(3) have i: "i = ?n" and nc: "no_clash clash (c ?n) (ix_indices ix)"
    and ix': "ix' = ix\<lparr>ix_indices := flat_map_put ?n (c ?n) (ix_indices ix), ix_next_id := ?n + 1,
                 ix_stack := on_head (on_create ?n) (ix_stack ix)\<rparr>"
    by (auto simp: emplace_def Let_def result_simps)
  have w: "wf_flat (map fst (ix_indices ix))" "wf_stack clash ?m ?n (ix_stack ix)"
    using assms(1) by (simp_all add: wf_index_def)
  have fresh: "?m ?n = None" using wf_stack_base [OF w(2)] by blast
  have "wf_stack clash (?m(?n \<mapsto> c ?n)) (?n + 1) (on_head (on_create ?n) (ix_stack ix))
      \<and> snapshots (?m(?n \<mapsto> c ?n)) (on_head (on_create ?n) (ix_stack ix)) = snapshots ?m (ix_stack ix)"
  proof (rule wf_stack_change [OF w(2)])
    show "clash_free clash (?m(?n \<mapsto> c ?n))"
      using wf_stack_base [OF w(2)] assms(2) nc w(1) by (intro clash_free_upd) (auto simp: no_clash_iff)
    show "\<forall>i. (?m(?n \<mapsto> c ?n)) i \<noteq> None \<longrightarrow> i < ?n + 1"
      using wf_stack_base [OF w(2)] by (auto simp: less_SucI)
    fix u us' j
    assume us: "ix_stack ix = u # us'" and v: "wf_view clash (old_next_id u) j (view u j) (?m j)"
    show "wf_view clash (old_next_id u) j (view (on_create ?n u) j) ((?m(?n \<mapsto> c ?n)) j) \<and>
        roll_back (view (on_create ?n u) j) ((?m(?n \<mapsto> c ?n)) j) = roll_back (view u j) (?m j)"
      using v us w(2) fresh create_pointwise [of clash "old_next_id u" ?n "view u ?n" "c ?n"]
      by (cases "j = ?n") (auto simp: view_on_create)
  qed (simp_all add: wf_on_changes)
  then show ?thesis using w(1) i
    by (simp add: ix' wf_index_def history_def contents_def wf_flat_put map_of_flat_map_put)
qed

lemma modify_refines:
  assumes "wf_index clash ix" "symp clash" "modify clash i f ix = Inr ix'"
    and key: "\<And>v. same_key clash v (f v)"
  shows "wf_index clash ix' \<and> history ix' = history ix
     \<and> (\<exists>v. fst (contents ix) i = Some v \<and> contents ix' = ((fst (contents ix))(i \<mapsto> f v), snd (contents ix)))"
proof -
  let ?m = "map_of (ix_indices ix)" and ?n = "ix_next_id ix"
  from assms(3) obtain v where v: "?m i = Some v"
    and nc: "no_clash clash (f v) (flat_map_erase i (ix_indices ix))"
    and ix': "ix' = ix\<lparr>ix_stack := on_head (on_modify i v) (ix_stack ix),
                 ix_indices := flat_map_put i (f v) (ix_indices ix)\<rparr>"
    by (auto simp: modify_def result_simps)
  have w: "wf_flat (map fst (ix_indices ix))" "wf_stack clash ?m ?n (ix_stack ix)"
    using assms(1) by (simp_all add: wf_index_def)
  have "wf_stack clash (?m(i \<mapsto> f v)) ?n (on_head (on_modify i v) (ix_stack ix))
      \<and> snapshots (?m(i \<mapsto> f v)) (on_head (on_modify i v) (ix_stack ix)) = snapshots ?m (ix_stack ix)"
  proof (rule wf_stack_change [OF w(2)])
    show "clash_free clash (?m(i \<mapsto> f v))"
      using wf_stack_base [OF w(2)] assms(2) nc w(1)
      by (intro clash_free_upd) (auto simp: no_clash_erase_iff)
    show "\<forall>j. (?m(i \<mapsto> f v)) j \<noteq> None \<longrightarrow> j < ?n"
      using wf_stack_base [OF w(2)] v by auto
    fix u us' j
    assume us: "ix_stack ix = u # us'" and vj: "wf_view clash (old_next_id u) j (view u j) (?m j)"
    show "wf_view clash (old_next_id u) j (view (on_modify i v u) j) ((?m(i \<mapsto> f v)) j) \<and>
        roll_back (view (on_modify i v u) j) ((?m(i \<mapsto> f v)) j) = roll_back (view u j) (?m j)"
      using vj v modify_pointwise [of clash "old_next_id u" i "view u i" v "f v"] key [of v]
      by (cases "j = i") (simp_all add: view_on_modify)
  qed (simp_all add: wf_on_changes)
  then show ?thesis using w(1) v
    by (simp add: ix' wf_index_def history_def contents_def wf_flat_put map_of_flat_map_put)
qed

lemma remove_refines:
  assumes "wf_index clash ix" "remove i ix = Inr ix'"
  shows "wf_index clash ix' \<and> history ix' = history ix
     \<and> fst (contents ix) i \<noteq> None \<and> contents ix' = ((fst (contents ix))(i := None), snd (contents ix))"
proof -
  let ?m = "map_of (ix_indices ix)" and ?n = "ix_next_id ix"
  from assms(2) obtain v where v: "?m i = Some v"
    and ix': "ix' = ix\<lparr>ix_stack := on_head (on_remove i v) (ix_stack ix),
                 ix_indices := flat_map_erase i (ix_indices ix)\<rparr>"
    by (auto simp: remove_def result_simps)
  have w: "wf_flat (map fst (ix_indices ix))" "wf_stack clash ?m ?n (ix_stack ix)"
    using assms(1) by (simp_all add: wf_index_def)
  have "wf_stack clash (?m(i := None)) ?n (on_head (on_remove i v) (ix_stack ix))
      \<and> snapshots (?m(i := None)) (on_head (on_remove i v) (ix_stack ix)) = snapshots ?m (ix_stack ix)"
  proof (rule wf_stack_change [OF w(2)])
    show "clash_free clash (?m(i := None))" "\<forall>j. (?m(i := None)) j \<noteq> None \<longrightarrow> j < ?n"
      using wf_stack_base [OF w(2)] by (auto simp: clash_free_def)
    fix u us' j
    assume us: "ix_stack ix = u # us'" and vj: "wf_view clash (old_next_id u) j (view u j) (?m j)"
    show "wf_view clash (old_next_id u) j (view (on_remove i v u) j) ((?m(i := None)) j) \<and>
        roll_back (view (on_remove i v u) j) ((?m(i := None)) j) = roll_back (view u j) (?m j)"
      using vj v remove_pointwise [of clash "old_next_id u" i "view u i" v]
      by (cases "j = i") (simp_all add: view_on_remove)
  qed (simp_all add: wf_on_changes)
  then show ?thesis using w(1) v
    by (simp add: ix' wf_index_def history_def contents_def wf_flat_erase map_of_flat_map_erase)
qed

lemma start_refines:
  assumes "wf_index clash ix"
  shows "wf_index clash (start_undo_session True ix) \<and> contents (start_undo_session True ix) = contents ix
     \<and> history (start_undo_session True ix) = contents ix # history ix"
proof -
  let ?u = "\<lparr>old_values = [], removed_values = [], new_ids = [], old_next_id = ix_next_id ix,
      undo_revision = ix_revision ix + 1\<rparr> :: 'a undo_state"
  have w: "wf_flat (map fst (ix_indices ix))" "wf_stack clash (map_of (ix_indices ix)) (ix_next_id ix) (ix_stack ix)"
    using assms by (simp_all add: wf_index_def)
  have b: "before ?u m = m" for m by (simp add: before_def view_def)
  have "wf_undo clash ?u (map_of (ix_indices ix))"
    using wf_stack_base [OF w(2)] by (simp add: wf_undo_def view_def wf_flat_def)
  with w b wf_stack_base [OF w(2)] show ?thesis
    by (simp add: start_undo_session_def wf_index_def contents_def history_def)
qed

section \<open>Undo goes back to the snapshot\<close>

text \<open>Restoring the updated objects: the keys have not changed, so no restored object clashes.\<close>

lemma restore_old_loop:
  assumes "wf_flat (map fst m)" "distinct (map fst olds)" "clash_free clash (map_of m)" "symp clash"
    and "\<And>i v. (i, v) \<in> set olds \<Longrightarrow> \<exists>w. map_of m i = Some w \<and> same_key clash v w"
  shows "\<exists>m'. foldR (restore_old clash) m olds = Inr m' \<and> wf_flat (map fst m')
     \<and> map_of m' = map_of m ++ map_of olds"
  using assms
proof (induction olds arbitrary: m)
  case Nil
  then show ?case by simp
next
  case (Cons item olds)
  obtain i v where it: "item = (i, v)" by fastforce
  obtain w where w: "map_of m i = Some w" "same_key clash v w"
    using Cons.prems(5) [of i v] it by auto
  have nc: "no_clash clash v (flat_map_erase i m)"
    using Cons.prems(1,3) w by (auto simp: no_clash_erase_iff clash_free_def same_key_def)
  let ?m = "flat_map_put i v m"
  have st: "restore_old clash m item = Inr ?m" using w nc by (simp add: restore_old_def it)
  have "\<exists>m'. foldR (restore_old clash) ?m olds = Inr m' \<and> wf_flat (map fst m') \<and> map_of m' = map_of ?m ++ map_of olds"
  proof (rule Cons.IH)
    show "clash_free clash (map_of ?m)"
      unfolding map_of_flat_map_put using Cons.prems(3,4) w
      by (intro clash_free_upd) (auto simp: clash_free_def same_key_def)
    fix j x assume j: "(j, x) \<in> set olds"
    then have "j \<noteq> i" using Cons.prems(2) it by force
    with Cons.prems(5) [of j x] j show "\<exists>w. map_of ?m j = Some w \<and> same_key clash x w"
      by (simp add: map_of_flat_map_put)
  qed (use Cons.prems in \<open>simp_all add: wf_flat_put\<close>)
  moreover have "map_of olds i = None" using Cons.prems(2) it by (simp add: map_of_eq_None_iff)
  ultimately show ?case using st by (simp only: it foldR.simps bindR_simps map_of_flat_map_put map_add_put)
qed

lemma erase_new_loop:
  "wf_flat (map fst m) \<Longrightarrow> wf_flat (map fst (foldl (\<lambda>m i. flat_map_erase i m) m is))
     \<and> map_of (foldl (\<lambda>m i. flat_map_erase i m) m is) = (\<lambda>i. if i \<in> set is then None else map_of m i)"
  by (induction "is" arbitrary: m) (auto simp: wf_flat_erase map_of_flat_map_erase fun_eq_iff)

text \<open>Restoring the removed objects: they are part of a state that was free of clashes.\<close>

lemma restore_removed_loop:
  assumes "wf_flat (map fst m)" "distinct (map fst rems)" "clash_free clash s"
    and "\<And>i v. map_of m i = Some v \<Longrightarrow> s i = Some v \<and> i \<notin> fst ` set rems"
    and "\<And>i v. (i, v) \<in> set rems \<Longrightarrow> s i = Some v"
  shows "\<exists>m'. foldR (restore_removed clash) m rems = Inr m' \<and> wf_flat (map fst m')
     \<and> map_of m' = map_of m ++ map_of rems"
  using assms
proof (induction rems arbitrary: m)
  case Nil
  then show ?case by simp
next
  case (Cons item rems)
  obtain i v where it: "item = (i, v)" by fastforce
  have i: "map_of m i = None" using Cons.prems(4) it by (cases "map_of m i") auto
  have "no_clash clash v m"
    using Cons.prems(1,3,4,5) i it by (fastforce simp: no_clash_iff clash_free_def)
  with i have st: "restore_removed clash m item = Inr (flat_map_put i v m)"
    by (simp add: restore_removed_def it)
  have "\<exists>m'. foldR (restore_removed clash) (flat_map_put i v m) rems = Inr m' \<and> wf_flat (map fst m')
     \<and> map_of m' = map_of (flat_map_put i v m) ++ map_of rems"
  proof (rule Cons.IH)
    fix j x assume "map_of (flat_map_put i v m) j = Some x"
    with Cons.prems(2) Cons.prems(4) [of j x] Cons.prems(5) [of i v] it
    show "s j = Some x \<and> j \<notin> fst ` set rems"
      by (cases "j = i") (simp_all add: map_of_flat_map_put)
  qed (use Cons.prems in \<open>simp_all add: wf_flat_put\<close>)
  moreover have "map_of rems i = None" using Cons.prems(2) it by (simp add: map_of_eq_None_iff)
  ultimately show ?case using st by (simp only: it foldR.simps bindR_simps map_of_flat_map_put map_add_put)
qed

lemma before_eq_restore:
  assumes "wf_undo clash u m"
  shows "(\<lambda>i. if i \<in> set (new_ids u) then None else (m ++ map_of (old_values u)) i) ++ map_of (removed_values u)
     = before u m"
proof
  fix i
  have "wf_view clash (old_next_id u) i (view u i) (m i)" using assms by (simp add: wf_undo_def)
  then show "((\<lambda>i. if i \<in> set (new_ids u) then None else (m ++ map_of (old_values u)) i)
      ++ map_of (removed_values u)) i = before u m i"
    by (cases "i \<in> set (new_ids u)"; cases "map_of (old_values u) i"; cases "map_of (removed_values u) i")
      (simp_all add: view_def before_def map_add_def)
qed

lemma undo_refines:
  assumes "wf_index clash ix" "symp clash" "history ix = c # h"
  shows "\<exists>ix'. undo clash ix = Inr ix' \<and> wf_index clash ix' \<and> contents ix' = c \<and> history ix' = h"
proof -
  let ?m = "map_of (ix_indices ix)"
  obtain u us where st: "ix_stack ix = u # us"
    using assms(3) by (cases "ix_stack ix") (simp_all add: history_def)
  from assms(1) st have w: "wf_flat (map fst (ix_indices ix))" "clash_free clash ?m" "wf_undo clash u ?m"
    "wf_stack clash (before u ?m) (old_next_id u) us" by (simp_all add: wf_index_def)
  have wv: "\<And>i. wf_view clash (old_next_id u) i (view u i) (?m i)"
    and fl: "distinct (map fst (old_values u))" "distinct (map fst (removed_values u))"
    using w(3) by (simp_all add: wf_undo_def wf_flat_def)
  have olds: "\<exists>x. ?m i = Some x \<and> same_key clash v x" if "(i, v) \<in> set (old_values u)" for i v
    using wv [of i] map_of_is_SomeI [OF fl(1) that]
    by (cases "i \<in> set (new_ids u)") (simp_all add: view_def)
  obtain m1 where m1: "foldR (restore_old clash) (ix_indices ix) (old_values u) = Inr m1"
    "wf_flat (map fst m1)" "map_of m1 = ?m ++ map_of (old_values u)"
    using restore_old_loop [OF w(1) fl(1) w(2) assms(2) olds] by blast
  let ?m2 = "foldl (\<lambda>m i. flat_map_erase i m) m1 (new_ids u)"
  have m2: "wf_flat (map fst ?m2)"
    "map_of ?m2 = (\<lambda>i. if i \<in> set (new_ids u) then None else (?m ++ map_of (old_values u)) i)"
    using erase_new_loop [OF m1(2), of "new_ids u"] m1(3) by auto
  have bf: "map_of ?m2 ++ map_of (removed_values u) = before u ?m"
    using before_eq_restore [OF w(3)] m2(2) by simp
  have "\<exists>m3. foldR (restore_removed clash) ?m2 (removed_values u) = Inr m3 \<and> wf_flat (map fst m3)
     \<and> map_of m3 = map_of ?m2 ++ map_of (removed_values u)"
  proof (rule restore_removed_loop [OF m2(1) fl(2)])
    show "clash_free clash (before u ?m)" using wf_stack_base [OF w(4)] by blast
    show "before u ?m i = Some v" if "(i, v) \<in> set (removed_values u)" for i v
      unfolding bf [symmetric] using map_of_is_SomeI [OF fl(2) that] by simp
    show "before u ?m i = Some v \<and> i \<notin> fst ` set (removed_values u)" if "map_of ?m2 i = Some v" for i v
    proof -
      have "map_of (removed_values u) i = None"
        using that wv [of i] unfolding m2(2)
        by (cases "i \<in> set (new_ids u)"; cases "map_of (old_values u) i"; cases "map_of (removed_values u) i")
          (simp_all add: view_def map_add_def)
      with that have "(map_of ?m2 ++ map_of (removed_values u)) i = Some v" by (simp add: map_add_def)
      moreover have "i \<notin> fst ` set (removed_values u)"
        using \<open>map_of (removed_values u) i = None\<close> by (simp add: map_of_eq_None_iff)
      ultimately show ?thesis by (simp add: bf)
    qed
  qed
  then obtain m3 where m3: "foldR (restore_removed clash) ?m2 (removed_values u) = Inr m3"
    "wf_flat (map fst m3)" "map_of m3 = before u ?m" using bf by auto
  have "undo clash ix = Inr (ix\<lparr>ix_indices := m3, ix_next_id := old_next_id u, ix_stack := us,
      ix_revision := ix_revision ix - 1\<rparr>)"
    using st m1(1) m3(1) by (simp add: undo_def)
  with m3 w(4) assms(3) st show ?thesis by (simp add: wf_index_def contents_def history_def)
qed

section \<open>Squash and commit forget snapshots\<close>

fun view_squash_old :: "'v \<Rightarrow> 'v view \<Rightarrow> 'v view" where
  "view_squash_old v (False, None, r) = (False, Some v, r)"
| "view_squash_old v w = w"

fun view_squash_removed :: "'v \<Rightarrow> 'v view \<Rightarrow> 'v view" where
  "view_squash_removed v (True, old, r) = (False, old, r)"
| "view_squash_removed v (False, Some old, None) = (False, None, Some old)"
| "view_squash_removed v (False, Some old, Some r) = (False, None, Some r)"
| "view_squash_removed v (False, None, None) = (False, None, Some v)"
| "view_squash_removed v (False, None, Some r) = (False, None, Some r)"

lemma view_squash_steps:
  "view (squash_old p (i, v)) j = (if j = i then view_squash_old v (view p i) else view p j)"
  "view (squash_removed p (i, v)) j = (if j = i then view_squash_removed v (view p i) else view p j)"
  by (auto simp: view_def squash_old_def squash_removed_def table_simps split: option.splits)

lemma foldl_pointwise:
  assumes "\<And>p i v j. view (f p (i, v)) j = (if j = i then e v (view p i) else view p j)"
    and "distinct (map fst xs)"
  shows "view (foldl f p xs) j = (case map_of xs j of None \<Rightarrow> view p j | Some v \<Rightarrow> e v (view p j))"
  using assms(2)
proof (induction xs arbitrary: p)
  case (Cons x xs)
  obtain i v where x: "x = (i, v)" by fastforce
  show ?case
  proof (cases "j = i")
    case True
    then have "map_of xs j = None" using Cons.prems x by (simp add: map_of_eq_None_iff)
    with Cons x True show ?thesis by (simp add: assms(1))
  next
    case False
    with Cons x show ?thesis by (simp add: assms(1) split: option.splits)
  qed
qed simp

lemma view_insert_new:
  "view (foldl (\<lambda>p i. p\<lparr>new_ids := flat_set_insert i (new_ids p)\<rparr>) p ids) j
   = (fst (view p j) \<or> j \<in> set ids, snd (view p j))"
  by (induction ids arbitrary: p) (auto simp: view_def)

definition merge_view :: "'v view \<Rightarrow> 'v view \<Rightarrow> 'v view" where
  "merge_view w p =
     (case w of (new, old, rem) \<Rightarrow>
        let p1 = (case old of None \<Rightarrow> p | Some v \<Rightarrow> view_squash_old v p);
            p2 = (fst p1 \<or> new, snd p1)
        in case rem of None \<Rightarrow> p2 | Some v \<Rightarrow> view_squash_removed v p2)"

lemma view_squash_states:
  assumes "distinct (map fst (old_values u))" "distinct (map fst (removed_values u))"
  shows "view (squash_states u p) i = merge_view (view u i) (view p i)"
  unfolding squash_states_def Let_def merge_view_def
  by (simp add: foldl_pointwise [OF view_squash_steps(2) assms(2)] view_insert_new
      foldl_pointwise [OF view_squash_steps(1) assms(1)] view_def [of u] split: option.splits)

lemma merge_view_correct:
  assumes "wf_view clash n i w x" "wf_view clash n' i p (roll_back w x)" "n' \<le> n"
  shows "wf_view clash n' i (merge_view w p) x \<and> roll_back (merge_view w p) x = roll_back p (roll_back w x)"
proof -
  obtain b old rem where w: "w = (b, old, rem)" using prod_cases3 by blast
  obtain b' old' rem' where p: "p = (b', old', rem')" using prod_cases3 by blast
  show ?thesis using assms unfolding w p merge_view_def
    by (cases b; cases old; cases rem; cases b'; cases old'; cases rem')
      (auto intro: same_key_trans)
qed

lemma squash_states_flat:
  assumes "wf_flat (map fst (old_values p))" "wf_flat (map fst (removed_values p))" "wf_flat (new_ids p)"
  shows "wf_flat (map fst (old_values (squash_states u p))) \<and> wf_flat (map fst (removed_values (squash_states u p)))
     \<and> wf_flat (new_ids (squash_states u p)) \<and> old_next_id (squash_states u p) = old_next_id p"
proof -
  let ?P = "\<lambda>q. wf_flat (map fst (old_values q)) \<and> wf_flat (map fst (removed_values q))
     \<and> wf_flat (new_ids q) \<and> old_next_id q = old_next_id p"
  have fold: "?P q \<Longrightarrow> (\<And>q x. ?P q \<Longrightarrow> ?P (f q x)) \<Longrightarrow> ?P (foldl f q xs)"
    for q and f :: "'a undo_state \<Rightarrow> nat \<times> 'a \<Rightarrow> 'a undo_state" and xs
    by (induction xs arbitrary: q) simp_all
  have fold': "?P q \<Longrightarrow> ?P (foldl (\<lambda>p i. p\<lparr>new_ids := flat_set_insert i (new_ids p)\<rparr>) q ids)" for q ids
    by (induction ids arbitrary: q) (simp_all add: wf_flat_put)
  have old: "?P (foldl squash_old p xs)" for xs
    using assms by (intro fold) (auto simp: squash_old_def wf_flat_emplace)
  have rem: "?P q \<Longrightarrow> ?P (foldl squash_removed q xs)" for q :: "'a undo_state" and xs
    by (rule fold, assumption) (auto simp: squash_removed_def wf_flat_emplace wf_flat_erase split: option.splits)
  show ?thesis unfolding squash_states_def Let_def by (rule rem, rule fold', rule old)
qed

lemma squash_refines:
  assumes "wf_index clash ix" "history ix = c # h"
  shows "wf_index clash (squash ix) \<and> contents (squash ix) = contents ix \<and> history (squash ix) = h"
proof -
  let ?m = "map_of (ix_indices ix)" and ?n = "ix_next_id ix"
  obtain u us where st: "ix_stack ix = u # us"
    using assms(2) by (cases "ix_stack ix") (simp_all add: history_def)
  have w: "wf_flat (map fst (ix_indices ix))" "wf_stack clash ?m ?n (u # us)"
    using assms(1) st by (simp_all add: wf_index_def)
  show ?thesis
  proof (cases us)
    case Nil
    with st w wf_stack_base [OF w(2)] assms(2) show ?thesis
      by (simp add: squash_def wf_index_def contents_def history_def)
  next
    case (Cons p rest)
    let ?q = "squash_states u p"
    have u: "wf_undo clash u ?m" "old_next_id u \<le> ?n" and p: "wf_undo clash p (before u ?m)"
      "old_next_id p \<le> old_next_id u" "wf_stack clash (before p (before u ?m)) (old_next_id p) rest"
      using w(2) Cons by simp_all
    have fl: "distinct (map fst (old_values u))" "distinct (map fst (removed_values u))"
      using u(1) by (simp_all add: wf_undo_def wf_flat_def)
    note q = squash_states_flat [of p u]
    have mv: "wf_view clash (old_next_id p) i (view ?q i) (?m i)
        \<and> roll_back (view ?q i) (?m i) = before p (before u ?m) i" for i
      using merge_view_correct [of clash "old_next_id u" i "view u i" "?m i" "old_next_id p" "view p i"] u(1) p(1,2)
      by (simp add: view_squash_states [OF fl] wf_undo_def before_def)
    have wq: "wf_undo clash ?q ?m" using mv q p(1) by (simp add: wf_undo_def)
    have bq: "before ?q ?m = before p (before u ?m)" using mv by (simp add: before_def [of ?q])
    have nq: "old_next_id ?q = old_next_id p" using q p(1) by (simp add: wf_undo_def)
    have "squash ix = ix\<lparr>ix_stack := ?q # rest, ix_revision := ix_revision ix - 1\<rparr>"
      using st Cons by (simp add: squash_def)
    with w(1) wf_stack_base [OF w(2)] wq bq nq u(2) p assms(2) st Cons show ?thesis
      by (simp add: wf_index_def contents_def history_def)
  qed
qed

lemma snapshots_append: "\<exists>m'. snapshots m (us @ vs) = snapshots m us @ snapshots m' vs"
  by (induction us arbitrary: m) auto

lemma wf_stack_append: "wf_stack clash m n (us @ vs) \<Longrightarrow> wf_stack clash m n us"
proof (induction us arbitrary: m n)
  case Nil
  then show ?case using wf_stack_base by simp
qed simp

lemma length_snapshots [simp]: "length (snapshots m us) = length us"
  by (induction us arbitrary: m) simp_all

section \<open>Sessions as a client sees them\<close>

text \<open>
  The interface of a store with undo sessions. A client changes the store in steps that
  keep the history of snapshots, opens sessions, and undoes or squashes them. A path
  carries the number of sessions that are open above the one it started in.
\<close>

locale undo_store =
  fixes wf :: "'s \<Rightarrow> bool"
    and now :: "'s \<Rightarrow> 'c"
    and past :: "'s \<Rightarrow> 'c list"
    and step :: "'s \<Rightarrow> 's \<Rightarrow> bool"
    and start :: "'s \<Rightarrow> 's"
    and revert :: "'s \<Rightarrow> 's result"
    and merge :: "'s \<Rightarrow> 's"
  assumes step_keeps: "wf s \<Longrightarrow> step s s' \<Longrightarrow> wf s' \<and> past s' = past s"
    and start_pushes: "wf s \<Longrightarrow> wf (start s) \<and> now (start s) = now s \<and> past (start s) = now s # past s"
    and revert_pops: "wf s \<Longrightarrow> past s = c # h \<Longrightarrow> \<exists>s'. revert s = Inr s' \<and> wf s' \<and> now s' = c \<and> past s' = h"
    and merge_drops: "wf s \<Longrightarrow> past s = c # h \<Longrightarrow> wf (merge s) \<and> now (merge s) = now s \<and> past (merge s) = h"
begin

inductive path :: "nat \<times> 's \<Rightarrow> nat \<times> 's \<Rightarrow> bool" where
  path_refl: "path x x"
| path_step: "step s t \<Longrightarrow> path (k, t) x \<Longrightarrow> path (k, s) x"
| path_start: "path (Suc k, start s) x \<Longrightarrow> path (k, s) x"
| path_revert: "revert s = Inr t \<Longrightarrow> path (k, t) x \<Longrightarrow> path (Suc k, s) x"
| path_merge: "path (k, merge s) x \<Longrightarrow> path (Suc k, s) x"

lemma path_keeps:
  "path (k, s) (k', s') \<Longrightarrow> wf s \<Longrightarrow> k \<le> length (past s) \<Longrightarrow>
     wf s' \<and> k' \<le> length (past s') \<and> drop k' (past s') = drop k (past s)"
proof (induction "(k, s)" "(k', s')" arbitrary: k s rule: path.induct)
  case path_refl
  then show ?case by simp
next
  case (path_step s t k)
  then show ?case using step_keeps by metis
next
  case (path_start k s)
  then show ?case using start_pushes by simp
next
  case (path_revert s t k)
  then obtain c h where "past s = c # h" by (cases "past s") auto
  with path_revert revert_pops show ?case by fastforce
next
  case (path_merge k s)
  then obtain c h where "past s = c # h" by (cases "past s") auto
  with path_merge merge_drops show ?case by fastforce
qed

lemma session_undone:
  assumes "wf s" "path (0, start s) (0, t)"
  shows "\<exists>t'. revert t = Inr t' \<and> wf t' \<and> now t' = now s \<and> past t' = past s"
  using path_keeps [OF assms(2)] start_pushes [OF assms(1)] revert_pops by simp

lemma session_squashed:
  assumes "wf s" "path (0, start s) (0, t)"
  shows "wf (merge t) \<and> now (merge t) = now t \<and> past (merge t) = past s"
  using path_keeps [OF assms(2)] start_pushes [OF assms(1)] merge_drops by simp

end

text \<open>
  An index whose uniqueness relation is symmetric is such a store; its steps create,
  modify and remove objects, where a modification keeps the unique keys.
\<close>

inductive index_step :: "('v \<Rightarrow> 'v \<Rightarrow> bool) \<Rightarrow> 'v generic_index \<Rightarrow> 'v generic_index \<Rightarrow> bool" for clash where
  step_create: "emplace clash c ix = Inr (i, ix') \<Longrightarrow> index_step clash ix ix'"
| step_modify: "(\<And>v. same_key clash v (f v)) \<Longrightarrow> modify clash i f ix = Inr ix' \<Longrightarrow> index_step clash ix ix'"
| step_remove: "remove i ix = Inr ix' \<Longrightarrow> index_step clash ix ix'"

inductive_cases index_stepE: "index_step clash ix ix'"

locale index_keys =
  fixes clash :: "'v \<Rightarrow> 'v \<Rightarrow> bool"
  assumes clash_sym: "symp clash"
begin

lemma index_step_keeps:
  "wf_index clash ix \<Longrightarrow> index_step clash ix ix' \<Longrightarrow> wf_index clash ix' \<and> history ix' = history ix"
  by (erule index_stepE) (use emplace_refines [OF _ clash_sym] modify_refines [OF _ clash_sym] remove_refines in blast)+

end

sublocale index_keys \<subseteq> store: undo_store "wf_index clash" contents history "index_step clash"
    "start_undo_session True" "undo clash" squash
  by unfold_locales
    (use index_step_keeps start_refines undo_refines [OF _ clash_sym] squash_refines in blast)+

text \<open>A sequence of actions on an index, as the sessions of a block interleave them.\<close>

datatype 'v action =
    Create "nat \<Rightarrow> 'v"
  | Modify nat "'v \<Rightarrow> 'v"
  | Remove nat
  | Start_session
  | Undo_session
  | Squash_session

fun act :: "('v \<Rightarrow> 'v \<Rightarrow> bool) \<Rightarrow> 'v action \<Rightarrow> 'v generic_index \<Rightarrow> 'v generic_index result" where
  "act clash (Create c) ix = bindR (emplace clash c ix) (\<lambda>(_, ix'). Inr ix')"
| "act clash (Modify i f) ix = modify clash i f ix"
| "act clash (Remove i) ix = remove i ix"
| "act clash Start_session ix = Inr (start_undo_session True ix)"
| "act clash Undo_session ix = undo clash ix"
| "act clash Squash_session ix = Inr (squash ix)"

text \<open>The sessions of the sequence are matched: none outside it is closed, none in it stays open.\<close>

fun matched :: "nat \<Rightarrow> 'v action list \<Rightarrow> bool" where
  "matched k [] = (k = 0)"
| "matched k (Start_session # as) = matched (Suc k) as"
| "matched k (Undo_session # as) = (case k of 0 \<Rightarrow> False | Suc k' \<Rightarrow> matched k' as)"
| "matched k (Squash_session # as) = (case k of 0 \<Rightarrow> False | Suc k' \<Rightarrow> matched k' as)"
| "matched k (Create c # as) = matched k as"
| "matched k (Modify i f # as) = matched k as"
| "matched k (Remove i # as) = matched k as"

definition keys_kept :: "('v \<Rightarrow> 'v \<Rightarrow> bool) \<Rightarrow> 'v action list \<Rightarrow> bool" where
  "keys_kept clash as \<longleftrightarrow> (\<forall>i f v. Modify i f \<in> set as \<longrightarrow> same_key clash v (f v))"

context index_keys
begin

lemma run_path:
  "foldR (\<lambda>ix a. act clash a ix) ix as = Inr ix' \<Longrightarrow> matched k as \<Longrightarrow> keys_kept clash as \<Longrightarrow>
     store.path (k, ix) (0, ix')"
proof (induction k as arbitrary: ix rule: matched.induct)
  case (1 k)
  then show ?case by (simp add: store.path_refl)
next
  case (2 k as)
  then show ?case by (auto simp: keys_kept_def intro: store.path_start)
next
  case (3 k as)
  then show ?case by (cases k) (auto simp: keys_kept_def result_simps intro: store.path_revert)
next
  case (4 k as)
  then show ?case by (cases k) (auto simp: keys_kept_def intro: store.path_merge)
next
  case (5 k c as)
  then obtain i t where t: "emplace clash c ix = Inr (i, t)" "foldR (\<lambda>ix a. act clash a ix) t as = Inr ix'"
    by (auto simp: result_simps)
  moreover have "keys_kept clash as" "matched k as" using "5.prems" by (simp_all add: keys_kept_def)
  ultimately show ?case using "5.IH" by (metis store.path_step index_step.step_create)
next
  case (6 k i f as)
  then obtain t where t: "modify clash i f ix = Inr t" "foldR (\<lambda>ix a. act clash a ix) t as = Inr ix'"
    by (auto simp: result_simps)
  moreover have "keys_kept clash as" "matched k as" "\<And>v. same_key clash v (f v)"
    using "6.prems" by (simp_all add: keys_kept_def)
  ultimately show ?case using "6.IH" by (metis store.path_step index_step.step_modify)
next
  case (7 k i as)
  then obtain t where t: "remove i ix = Inr t" "foldR (\<lambda>ix a. act clash a ix) t as = Inr ix'"
    by (auto simp: result_simps)
  moreover have "keys_kept clash as" "matched k as" using "7.prems" by (simp_all add: keys_kept_def)
  ultimately show ?case using "7.IH" by (metis store.path_step index_step.step_remove)
qed

lemma run_undone:
  assumes "wf_index clash ix" "matched 0 as" "keys_kept clash as"
    "foldR (\<lambda>ix a. act clash a ix) (start_undo_session True ix) as = Inr ix'"
  shows "\<exists>ix''. undo clash ix' = Inr ix'' \<and> wf_index clash ix'' \<and> contents ix'' = contents ix
     \<and> history ix'' = history ix"
  using store.session_undone [OF assms(1) run_path [OF assms(4,2,3)]] .

lemma run_squashed:
  assumes "wf_index clash ix" "matched 0 as" "keys_kept clash as"
    "foldR (\<lambda>ix a. act clash a ix) (start_undo_session True ix) as = Inr ix'"
  shows "wf_index clash (squash ix') \<and> contents (squash ix') = contents ix' \<and> history (squash ix') = history ix"
  using store.session_squashed [OF assms(1) run_path [OF assms(4,2,3)]] .

end

text \<open>
  C12: Undoing a session restores the state in which it was started. Whatever sequence of
  creations, removals, key-preserving modifications and complete inner sessions ran since
  the start of a session, the undo succeeds, and afterwards the objects, the next id and
  every older snapshot are those before the session.
\<close>

theorem undo_restores_session_start:
  assumes "symp clash" "wf_index clash ix" "matched 0 as" "keys_kept clash as"
    and "foldR (\<lambda>ix a. act clash a ix) (start_undo_session True ix) as = Inr ix'"
  shows "\<exists>ix''. undo clash ix' = Inr ix'' \<and> wf_index clash ix'' \<and> contents ix'' = contents ix
     \<and> history ix'' = history ix"
  using index_keys.run_undone [OF index_keys.intro [OF assms(1)] assms(2-5)] .

text \<open>
  C19: Squashing a session keeps what it did and forgets where it started: after the same
  kind of sequence the objects and the next id are unchanged by the squash, and the
  history is that before the session, so a later undo of the enclosing session reverts
  both.
\<close>

theorem squash_joins_sessions:
  assumes "symp clash" "wf_index clash ix" "matched 0 as" "keys_kept clash as"
    and "foldR (\<lambda>ix a. act clash a ix) (start_undo_session True ix) as = Inr ix'"
  shows "wf_index clash (squash ix') \<and> contents (squash ix') = contents ix' \<and> history (squash ix') = history ix"
  using index_keys.run_squashed [OF index_keys.intro [OF assms(1)] assms(2-5)] .

text \<open>
  Committing a revision keeps the state and the newest snapshots: the objects and the
  next id do not change, and the snapshots left are the newest ones, as many as undo
  states remain.
\<close>

theorem commit_keeps_newest:
  assumes "wf_index clash ix"
  shows "wf_index clash (commit r ix) \<and> contents (commit r ix) = contents ix
     \<and> history (commit r ix) = take (length (ix_stack (commit r ix))) (history ix)"
proof -
  let ?keep = "rev (dropWhile (\<lambda>s. undo_revision s \<le> r) (rev (ix_stack ix)))"
  let ?drop = "rev (takeWhile (\<lambda>s. undo_revision s \<le> r) (rev (ix_stack ix)))"
  have split: "ix_stack ix = ?keep @ ?drop"
    by (metis rev_append rev_rev_ident takeWhile_dropWhile_id)
  obtain m' where "snapshots (map_of (ix_indices ix)) (?keep @ ?drop)
      = snapshots (map_of (ix_indices ix)) ?keep @ snapshots m' ?drop" using snapshots_append by blast
  with split have hist: "history ix = snapshots (map_of (ix_indices ix)) ?keep @ snapshots m' ?drop"
    by (simp add: history_def)
  have "wf_stack clash (map_of (ix_indices ix)) (ix_next_id ix) ?keep"
    using assms split wf_stack_append [of clash _ _ ?keep ?drop] by (simp add: wf_index_def)
  with assms hist show ?thesis
    by (simp add: commit_def wf_index_def contents_def history_def)
qed

text \<open>Two objects of the examples clash when they agree on the first component.\<close>

definition example_clash :: "nat \<times> nat \<Rightarrow> nat \<times> nat \<Rightarrow> bool" where
  "example_clash v w \<longleftrightarrow> fst v = fst w"

definition example_index :: "(nat \<times> nat) generic_index" where
  "example_index = \<lparr>ix_stack = [], ix_revision = 4, ix_next_id = 2, ix_indices = [(0, (7, 1)), (1, (8, 1))]\<rparr>"

definition example_actions :: "(nat \<times> nat) action list" where
  "example_actions =
     [Create (\<lambda>i. (9, i)), Modify 0 (\<lambda>v. (fst v, 5)), Start_session, Remove 1, Modify 0 (\<lambda>v. (fst v, 6)),
      Squash_session, Remove 2]"

lemma example_index_wf: "symp example_clash \<and> wf_index example_clash example_index"
  by (auto simp: symp_def example_clash_def wf_index_def example_index_def wf_flat_def clash_free_def)

lemma example_actions_ok: "matched 0 example_actions \<and> keys_kept example_clash example_actions"
  by (auto simp: example_actions_def keys_kept_def same_key_def example_clash_def)

lemmas index_eval = example_index_def example_actions_def example_clash_def start_undo_session_def emplace_def
  modify_def remove_def squash_def squash_states_def squash_old_def squash_removed_def on_head_def on_create_def
  on_modify_def on_remove_def no_clash_def flat_map_erase_def flat_map_emplace_def flat_set_insert_def
  flat_set_erase_def

theorem undo_restores_session_start_witness:
  "\<exists>ix' ix''. foldR (\<lambda>ix a. act example_clash a ix) (start_undo_session True example_index) example_actions = Inr ix'
     \<and> contents ix' \<noteq> contents example_index \<and> undo example_clash ix' = Inr ix'' \<and> contents ix'' = contents example_index"
proof -
  obtain ix' where ix': "foldR (\<lambda>ix a. act example_clash a ix) (start_undo_session True example_index) example_actions = Inr ix'"
    "contents ix' \<noteq> contents example_index"
    by (simp add: index_eval contents_def)
  with undo_restores_session_start [OF _ _ _ _ ix'(1)] example_index_wf example_actions_ok show ?thesis by blast
qed

theorem squash_joins_sessions_witness:
  "\<exists>ix'. foldR (\<lambda>ix a. act example_clash a ix) (start_undo_session True example_index) example_actions = Inr ix'
     \<and> contents (squash ix') = contents ix' \<and> history (squash ix') = history example_index"
proof -
  obtain ix' where ix': "foldR (\<lambda>ix a. act example_clash a ix) (start_undo_session True example_index) example_actions = Inr ix'"
    by (simp add: index_eval)
  with squash_joins_sessions [OF _ _ _ _ ix'] example_index_wf example_actions_ok show ?thesis by blast
qed

theorem commit_keeps_newest_witness:
  "contents (commit 5 (start_undo_session True example_index)) = contents (start_undo_session True example_index)"
  using commit_keeps_newest [of example_clash "start_undo_session True example_index" 5]
    start_refines [of example_clash example_index] example_index_wf by blast

text \<open>
  The premise on keys is needed: when a session renames an object and gives the old
  name to a new one, every action succeeds but the undo of the session throws, because the
  old values are restored before the new objects are erased.
\<close>

theorem undo_fails_after_rename:
  "\<exists>ix'. wf_index example_clash example_index
     \<and> foldR (\<lambda>ix a. act example_clash a ix) (start_undo_session True example_index)
         [Modify 0 (\<lambda>v. (5, snd v)), Create (\<lambda>i. (7, 3))] = Inr ix'
     \<and> undo example_clash ix' = Inl Uniqueness_violated"
  using example_index_wf by (simp add: index_eval undo_def restore_old_def)

end
