(* ===== verification/Authority.thy ===== *)
theory Authority
  imports Prelude
begin

text \<open>
  Account names, authorities and the evaluation of an authority against the keys that
  signed, from \<^verbatim>\<open>libraries/protocol/authority.cpp\<close>, \<^verbatim>\<open>authority.hpp\<close> and
  \<^verbatim>\<open>sign_state.cpp\<close>. The evaluation is related to an inductive specification of
  when a set of keys grants an authority.
\<close>

section \<open>Account names\<close>

text \<open>
  A name is a \<^verbatim>\<open>fixed_string_64\<close>, given by its bytes; names of dapps and of token funds have
  32 bytes. \<open>name_string\<close> and \<open>short_name_string\<close> convert them to strings where the code does.
\<close>

type_synonym account_name_type = string

definition name_string :: "account_name_type \<Rightarrow> string" where
  "name_string n = fixed_to_string 64 n"

definition short_name_string :: "string \<Rightarrow> string" where
  "short_name_string n = fixed_to_string 32 n"

lemmas name_eval = name_string_def short_name_string_def fixed_to_string_def c_str_def

definition SIGMAENGINE_MIN_ACCOUNT_NAME_LENGTH :: nat where
  "SIGMAENGINE_MIN_ACCOUNT_NAME_LENGTH = 3"

definition SIGMAENGINE_MAX_ACCOUNT_NAME_LENGTH :: nat where
  "SIGMAENGINE_MAX_ACCOUNT_NAME_LENGTH = 64"

definition is_letter :: "char \<Rightarrow> bool" where
  "is_letter c \<longleftrightarrow>
     (let n = of_char c :: nat in (97 \<le> n \<and> n \<le> 122) \<or> (65 \<le> n \<and> n \<le> 90))"

definition is_let_dig :: "char \<Rightarrow> bool" where
  "is_let_dig c \<longleftrightarrow> is_letter c \<or> (let n = of_char c :: nat in 48 \<le> n \<and> n \<le> 57)"

definition is_valid_account_name :: "string \<Rightarrow> bool" where
  "is_valid_account_name name =
     (let len = length name in
      if len < SIGMAENGINE_MIN_ACCOUNT_NAME_LENGTH then False
      else if len > SIGMAENGINE_MAX_ACCOUNT_NAME_LENGTH then False
      else is_letter (name ! 0) \<and> is_let_dig (name ! (len - 1))
         \<and> list_all (\<lambda>i. is_let_dig (name ! i) \<or> name ! i = CHR ''-'') [1..<len - 1])"

section \<open>Authorities\<close>

text \<open>
  A public key stands for the number its 33 bytes spell; the key of the default
  constructor, which marks a disabled bobserver, is zero. Weights are 16 bit and the
  threshold 32 bit numbers.
\<close>

type_synonym public_key_type = nat
type_synonym weight_type = nat

record authority =
  weight_threshold :: nat
  account_auths :: "(account_name_type \<times> weight_type) list"
  key_auths :: "(public_key_type \<times> weight_type) list"

definition empty_authority :: authority where
  "empty_authority = \<lparr>weight_threshold = 0, account_auths = [], key_auths = []\<rparr>"

definition add_key_authority :: "public_key_type \<Rightarrow> weight_type \<Rightarrow> authority \<Rightarrow> authority" where
  "add_key_authority k w a = a\<lparr>key_auths := flat_map_put k w (key_auths a)\<rparr>"

definition add_account_authority :: "account_name_type \<Rightarrow> weight_type \<Rightarrow> authority \<Rightarrow> authority" where
  "add_account_authority k w a = a\<lparr>account_auths := flat_map_put k w (account_auths a)\<rparr>"

definition get_keys :: "authority \<Rightarrow> public_key_type list" where
  "get_keys a = map fst (key_auths a)"

definition is_impossible :: "authority \<Rightarrow> bool" where
  "is_impossible a \<longleftrightarrow>
     (foldl (\<lambda>s (_, w). (s + w) mod 2 ^ 64)
        (foldl (\<lambda>s (_, w). (s + w) mod 2 ^ 64) 0 (account_auths a)) (key_auths a))
     < weight_threshold a"

definition num_auths :: "authority \<Rightarrow> nat" where
  "num_auths a = (length (account_auths a) + length (key_auths a)) mod 2 ^ 32"

definition authority_clear :: "authority \<Rightarrow> authority" where
  "authority_clear a = a\<lparr>account_auths := [], key_auths := []\<rparr>"

definition authority_validate :: "authority \<Rightarrow> unit result" where
  "authority_validate a =
     foldR (\<lambda>_ item. fc_assert (is_valid_account_name (name_string (fst item))) Unnamed_assertion (Inr ()))
       () (account_auths a)"

definition add_authority_accounts :: "account_name_type list \<Rightarrow> authority \<Rightarrow> account_name_type list" where
  "add_authority_accounts result a = foldl (\<lambda>r item. flat_set_insert (fst item) r) result (account_auths a)"

section \<open>The signature state\<close>

record sign_state =
  provided_signatures :: "(public_key_type \<times> bool) list"
  available_keys :: "public_key_type list"
  approved_by :: "account_name_type list"

type_synonym authority_getter = "account_name_type \<Rightarrow> authority result"

definition mk_sign_state :: "public_key_type list \<Rightarrow> public_key_type list \<Rightarrow> sign_state" where
  "mk_sign_state sigs keys =
     \<lparr>provided_signatures = foldl (\<lambda>m k. flat_map_put k False m) [] sigs,
      available_keys = keys, approved_by = [''temp'']\<rparr>"

definition signed_by :: "public_key_type \<Rightarrow> sign_state \<Rightarrow> bool \<times> sign_state" where
  "signed_by k st =
     (case map_of (provided_signatures st) k of
        None \<Rightarrow>
          (if k \<in> set (available_keys st)
           then (True, st\<lparr>provided_signatures := flat_map_put k True (provided_signatures st)\<rparr>)
           else (False, st))
      | Some _ \<Rightarrow> (True, st\<lparr>provided_signatures := flat_map_put k True (provided_signatures st)\<rparr>))"

definition add_weight :: "nat \<Rightarrow> weight_type \<Rightarrow> nat" where
  "add_weight tot w = (tot + w) mod 2 ^ 32"

fun check_keys ::
  "nat \<Rightarrow> (public_key_type \<times> weight_type) list \<Rightarrow> nat \<Rightarrow> sign_state \<Rightarrow> bool \<times> nat \<times> sign_state" where
  "check_keys threshold [] tot st = (False, tot, st)"
| "check_keys threshold ((k, w) # ks) tot st =
     (let (ok, st') = signed_by k st in
      if ok then
        (let t = add_weight tot w in
         if t \<ge> threshold then (True, t, st') else check_keys threshold ks t st')
      else check_keys threshold ks tot st')"

text \<open>
  \<^verbatim>\<open>check_authority(auth, depth)\<close> with \<open>rem = max_recursion - depth\<close>: the test
  \<^verbatim>\<open>depth == max_recursion\<close> is \<open>rem = 0\<close>. \<open>check_authority_at\<close> is the function body up to the
  loop over the accounts, \<open>check_accounts\<close> that loop.
\<close>

fun check_authority_at ::
    "authority_getter \<Rightarrow> nat \<Rightarrow> authority \<Rightarrow> sign_state \<Rightarrow> (bool \<times> sign_state) result"
and check_accounts ::
    "authority_getter \<Rightarrow> nat \<Rightarrow> nat \<Rightarrow> (account_name_type \<times> weight_type) list \<Rightarrow> nat \<Rightarrow> sign_state
       \<Rightarrow> (bool \<times> sign_state) result" where
  "check_authority_at g rem auth st =
     (case check_keys (weight_threshold auth) (key_auths auth) 0 st of
        (ok, tot, st') \<Rightarrow>
          if ok then Inr (True, st')
          else check_accounts g rem (weight_threshold auth) (account_auths auth) tot st')"
| "check_accounts g rem threshold [] tot st = Inr (tot \<ge> threshold, st)"
| "check_accounts g rem threshold ((n, w) # as) tot st =
     (if n \<notin> set (approved_by st) then
        (case rem of
           0 \<Rightarrow> check_accounts g rem threshold as tot st
         | Suc r \<Rightarrow>
             bindR (g n) (\<lambda>a.
             bindR (check_authority_at g r a st) (\<lambda>res.
             case res of (ok, st') \<Rightarrow>
               if ok then
                 (let st'' = st'\<lparr>approved_by := flat_set_insert n (approved_by st')\<rparr>;
                      t = add_weight tot w
                  in if t \<ge> threshold then Inr (True, st'')
                     else check_accounts g rem threshold as t st'')
               else check_accounts g rem threshold as tot st')))
      else
        (let t = add_weight tot w in
         if t \<ge> threshold then Inr (True, st) else check_accounts g rem threshold as t st))"

definition check_account_authority ::
  "authority_getter \<Rightarrow> nat \<Rightarrow> account_name_type \<Rightarrow> sign_state \<Rightarrow> (bool \<times> sign_state) result" where
  "check_account_authority get_active max_recursion n st =
     (if n \<in> set (approved_by st) then Inr (True, st)
      else bindR (get_active n) (\<lambda>a. check_authority_at get_active max_recursion a st))"

definition remove_unused_signatures :: "sign_state \<Rightarrow> bool \<times> sign_state" where
  "remove_unused_signatures st =
     (let remove_sigs = map fst (filter (\<lambda>s. \<not> snd s) (provided_signatures st))
      in (remove_sigs \<noteq> [],
          st\<lparr>provided_signatures := filter (\<lambda>s. fst s \<notin> set remove_sigs) (provided_signatures st)\<rparr>))"

section \<open>When keys grant an authority\<close>

text \<open>
  The specification: keys in \<open>K\<close> and accounts in \<open>A\<close> count with their weights, and an
  account also counts when its own authority, as the getter reports it, is granted.
  \<open>granted\<close> sets no bound on the nesting, \<open>granted_within r\<close> allows \<open>r\<close> levels.
\<close>

definition weight_of :: "('a \<Rightarrow> bool) \<Rightarrow> ('a \<times> nat) list \<Rightarrow> nat" where
  "weight_of P xs = sum_list (map snd (filter (\<lambda>x. P (fst x)) xs))"

inductive granted :: "authority_getter \<Rightarrow> public_key_type set \<Rightarrow> account_name_type set \<Rightarrow> authority \<Rightarrow> bool"
  for g K A where
  granted_intro:
    "\<lbrakk>\<forall>n \<in> N. n \<in> A \<or> (\<exists>b. g n = Inr b \<and> granted g K A b);
      weight_threshold a \<le> weight_of (\<lambda>k. k \<in> K) (key_auths a) + weight_of (\<lambda>n. n \<in> N) (account_auths a)\<rbrakk>
     \<Longrightarrow> granted g K A a"

inductive_cases grantedE: "granted g K A a"

fun granted_within :: "authority_getter \<Rightarrow> public_key_type set \<Rightarrow> account_name_type set \<Rightarrow> nat \<Rightarrow> authority \<Rightarrow> bool" where
  "granted_within g K A 0 a =
     (weight_threshold a \<le> weight_of (\<lambda>k. k \<in> K) (key_auths a) + weight_of (\<lambda>n. n \<in> A) (account_auths a))"
| "granted_within g K A (Suc r) a =
     (weight_threshold a \<le> weight_of (\<lambda>k. k \<in> K) (key_auths a)
        + weight_of (\<lambda>n. n \<in> A \<or> (case g n of Inl _ \<Rightarrow> False | Inr b \<Rightarrow> granted_within g K A r b))
            (account_auths a))"

lemma weight_of_simps [simp]:
  "weight_of P [] = 0"
  "weight_of P ((x, w) # xs) = (if P x then w else 0) + weight_of P xs"
  by (simp_all add: weight_of_def)

lemma weight_of_mono: "(\<And>x. P x \<Longrightarrow> Q x) \<Longrightarrow> weight_of P xs \<le> weight_of Q xs"
  by (induction xs) (auto intro: add_mono trans_le_add2)

definition approved :: "authority_getter \<Rightarrow> public_key_type set \<Rightarrow> account_name_type set \<Rightarrow> account_name_type \<Rightarrow> bool" where
  "approved g K A n \<longleftrightarrow> n \<in> A \<or> (\<exists>b. g n = Inr b \<and> granted g K A b)"

lemma granted_approved:
  assumes "weight_threshold a \<le> weight_of (\<lambda>k. k \<in> K) (key_auths a) + weight_of (approved g K A) (account_auths a)"
  shows "granted g K A a"
  using granted_intro [of "{n. approved g K A n}" A g K a] assms by (simp add: approved_def [abs_def])

definition keys_of :: "sign_state \<Rightarrow> public_key_type set" where
  "keys_of st = fst ` set (provided_signatures st) \<union> set (available_keys st)"

definition state_sound :: "authority_getter \<Rightarrow> public_key_type set \<Rightarrow> account_name_type set \<Rightarrow> sign_state \<Rightarrow> bool" where
  "state_sound g K A st \<longleftrightarrow> keys_of st = K \<and> A \<subseteq> set (approved_by st)
     \<and> (\<forall>n \<in> set (approved_by st). approved g K A n)"

lemma signed_by_spec:
  assumes "signed_by k st = (ok, st')"
  shows "ok \<longleftrightarrow> k \<in> keys_of st" "keys_of st' = keys_of st" "approved_by st' = approved_by st"
proof -
  have "(ok \<longleftrightarrow> k \<in> keys_of st) \<and> keys_of st' = keys_of st \<and> approved_by st' = approved_by st"
  proof (cases "map_of (provided_signatures st) k")
    case None
    then have "k \<notin> fst ` set (provided_signatures st)" by (simp add: map_of_eq_None_iff)
    with None assms show ?thesis
      by (cases "k \<in> set (available_keys st)")
        (clarsimp simp: signed_by_def keys_of_def dom_flat_map_put insert_absorb)+
  next
    case (Some b)
    then have "k \<in> fst ` set (provided_signatures st)"
      by (metis domI dom_map_of_conv_image_fst)
    then have "fst ` set (flat_map_put k True (provided_signatures st)) = fst ` set (provided_signatures st)"
      by (simp add: dom_flat_map_put insert_absorb)
    with Some assms \<open>k \<in> fst ` set (provided_signatures st)\<close> show ?thesis
      by (clarsimp simp: signed_by_def keys_of_def)
  qed
  then show "ok \<longleftrightarrow> k \<in> keys_of st" "keys_of st' = keys_of st" "approved_by st' = approved_by st"
    by blast+
qed

lemma state_sound_signed_by:
  "signed_by k st = (ok, st') \<Longrightarrow> state_sound g K A st \<Longrightarrow> state_sound g K A st' \<and> (ok \<longleftrightarrow> k \<in> K)"
  using signed_by_spec [of k st ok st'] by (auto simp: state_sound_def)

lemma state_sound_approve:
  "state_sound g K A st \<Longrightarrow> approved g K A n \<Longrightarrow>
     state_sound g K A (st\<lparr>approved_by := flat_set_insert n (approved_by st)\<rparr>)"
  by (auto simp: state_sound_def keys_of_def)

lemma add_weight_le: "add_weight t w \<le> t + w"
  by (simp add: add_weight_def)

lemma check_keys_sound:
  assumes "check_keys threshold ks tot st = (ok, t, st')" "state_sound g K A st"
  shows "state_sound g K A st'" "t \<le> tot + weight_of (\<lambda>k. k \<in> K) ks" "ok \<Longrightarrow> threshold \<le> t"
proof -
  have "state_sound g K A st' \<and> t \<le> tot + weight_of (\<lambda>k. k \<in> K) ks \<and> (ok \<longrightarrow> threshold \<le> t)"
    using assms
  proof (induction threshold ks tot st rule: check_keys.induct)
    case (1 threshold tot st)
    then show ?case by simp
  next
    case (2 threshold k w ks tot st)
    obtain b st1 where s: "signed_by k st = (b, st1)" by fastforce
    note st1 = state_sound_signed_by [OF s "2.prems"(2)]
    consider "b" "threshold \<le> add_weight tot w" | "b" "\<not> threshold \<le> add_weight tot w" | "\<not> b"
      by blast
    then show ?case
    proof cases
      case 1
      with "2.prems"(1) s st1 add_weight_le [of tot w] show ?thesis by auto
    next
      case 2
      with "2.prems"(1) s have "check_keys threshold ks (add_weight tot w) st1 = (ok, t, st')" by simp
      then have "state_sound g K A st' \<and> t \<le> add_weight tot w + weight_of (\<lambda>k. k \<in> K) ks
          \<and> (ok \<longrightarrow> threshold \<le> t)"
        using "2.IH"(1) [OF s [symmetric] refl _ refl] 2 st1 by blast
      with 2 st1 add_weight_le [of tot w] show ?thesis by auto
    next
      case 3
      with "2.prems"(1) s have "check_keys threshold ks tot st1 = (ok, t, st')" by simp
      then show ?thesis using "2.IH"(2) [OF s [symmetric] refl] 3 st1 by auto
    qed
  qed
  then show "state_sound g K A st'" "t \<le> tot + weight_of (\<lambda>k. k \<in> K) ks" "ok \<Longrightarrow> threshold \<le> t"
    by auto
qed

lemma check_authority_sound_aux:
  "check_authority_at g rem auth st = Inr (ok, st') \<Longrightarrow> state_sound g K A st \<Longrightarrow>
     state_sound g K A st' \<and> (ok \<longrightarrow> granted g K A auth)"
  "check_accounts g rem threshold as tot st = Inr (ok, st') \<Longrightarrow> state_sound g K A st \<Longrightarrow>
     state_sound g K A st' \<and> (ok \<longrightarrow> threshold \<le> tot + weight_of (approved g K A) as)"
proof (induction g rem auth st and g rem threshold as tot st
    arbitrary: ok st' and ok st' rule: check_authority_at_check_accounts.induct)
  case (1 g rem auth st)
  obtain b t st1 where ck: "check_keys (weight_threshold auth) (key_auths auth) 0 st = (b, t, st1)"
    using prod_cases3 by blast
  note s1 = check_keys_sound [OF ck "1.prems"(2)]
  show ?case
  proof (cases b)
    case True
    then have "granted g K A auth"
      using s1 by (intro granted_approved) auto
    with True "1.prems"(1) ck s1 show ?thesis by simp
  next
    case False
    then have "check_accounts g rem (weight_threshold auth) (account_auths auth) t st1 = Inr (ok, st')"
      using "1.prems"(1) ck by simp
    then have "state_sound g K A st' \<and>
        (ok \<longrightarrow> weight_threshold auth \<le> t + weight_of (approved g K A) (account_auths auth))"
      using "1.IH" [OF ck [symmetric] refl False] s1(1) by blast
    with s1(2) show ?thesis by (auto intro!: granted_approved)
  qed
next
  case (2 g rem threshold tot st)
  then show ?case by simp
next
  case (3 g rem threshold n w as tot st)
  show ?case
  proof (cases "n \<in> set (approved_by st)")
    case True
    then have ap: "approved g K A n" using "3.prems"(2) by (simp add: state_sound_def)
    show ?thesis
    proof (cases "threshold \<le> add_weight tot w")
      case t: True
      with True "3.prems" ap add_weight_le [of tot w] show ?thesis by auto
    next
      case False
      with True "3.prems" "3.IH"(5) [of "add_weight tot w"] ap add_weight_le [of tot w]
      show ?thesis by fastforce
    qed
  next
    case new: False
    show ?thesis
    proof (cases rem)
      case 0
      with new "3.prems" "3.IH"(1) show ?thesis by fastforce
    next
      case (Suc r)
      with new "3.prems"(1) obtain a b st1 where g: "g n = Inr a" "check_authority_at g r a st = Inr (b, st1)"
        by (auto simp: result_simps)
      have s1: "state_sound g K A st1" "b \<longrightarrow> granted g K A a"
        using "3.IH"(2) [OF new Suc g(2) "3.prems"(2)] by auto
      show ?thesis
      proof (cases b)
        case False
        with new Suc g "3.prems"(1) have "check_accounts g rem threshold as tot st1 = Inr (ok, st')"
          by simp
        with "3.IH"(4) [OF new Suc False _ s1(1)] Suc show ?thesis by fastforce
      next
        case True
        with s1 g have ap: "approved g K A n" by (auto simp: approved_def)
        let ?st2 = "st1\<lparr>approved_by := flat_set_insert n (approved_by st1)\<rparr>"
        have s2: "state_sound g K A ?st2" by (rule state_sound_approve [OF s1(1) ap])
        show ?thesis
        proof (cases "threshold \<le> add_weight tot w")
          case t: True
          with True new Suc g "3.prems"(1) s2 ap add_weight_le [of tot w] show ?thesis by auto
        next
          case t: False
          with True new Suc g "3.prems"(1)
          have "check_accounts g rem threshold as (add_weight tot w) ?st2 = Inr (ok, st')" by simp
          with "3.IH"(3) [OF new Suc True refl refl t _ s2] Suc ap add_weight_le [of tot w]
          show ?thesis by fastforce
        qed
      qed
    qed
  qed
qed

text \<open>
  The converse: with a getter that never fails and weights that cannot overflow the
  32 bit counter, an authority granted within the recursion bound is found.
\<close>

definition weights_fit :: "('a \<times> nat) list \<Rightarrow> ('b \<times> nat) list \<Rightarrow> bool" where
  "weights_fit ks as \<longleftrightarrow> sum_list (map snd ks) + sum_list (map snd as) < 2 ^ 32"

definition authority_fits :: "authority \<Rightarrow> bool" where
  "authority_fits a \<longleftrightarrow> weights_fit (key_auths a) (account_auths a)"

definition getter_closed :: "authority_getter \<Rightarrow> account_name_type set \<Rightarrow> account_name_type set \<Rightarrow> bool" where
  "getter_closed g A C \<longleftrightarrow>
     (\<forall>n \<in> C. \<exists>a. g n = Inr a \<and> authority_fits a \<and> fst ` set (account_auths a) \<subseteq> A \<union> C)"

lemma weight_of_le: "weight_of P xs \<le> sum_list (map snd xs)"
  by (induction xs) auto

definition state_covers :: "public_key_type set \<Rightarrow> account_name_type set \<Rightarrow> sign_state \<Rightarrow> bool" where
  "state_covers K A st \<longleftrightarrow> keys_of st = K \<and> A \<subseteq> set (approved_by st)"

lemma state_covers_steps:
  "signed_by k st = (ok, st') \<Longrightarrow> state_covers K A st \<Longrightarrow> state_covers K A st' \<and> (ok \<longleftrightarrow> k \<in> K)"
  "state_covers K A st \<Longrightarrow> state_covers K A (st\<lparr>approved_by := flat_set_insert n (approved_by st)\<rparr>)"
  using signed_by_spec [of k st ok st'] by (auto simp: state_covers_def keys_of_def)

lemma check_keys_complete:
  assumes "check_keys threshold ks tot st = (ok, t, st')" "state_covers K A st"
    and "tot + sum_list (map snd ks) < 2 ^ 32"
  shows "state_covers K A st' \<and> (\<not> ok \<longrightarrow> t = tot + weight_of (\<lambda>k. k \<in> K) ks)"
  using assms
proof (induction threshold ks tot st rule: check_keys.induct)
  case (1 threshold tot st)
  then show ?case by simp
next
  case (2 threshold k w ks tot st)
  obtain b st1 where s: "signed_by k st = (b, st1)" by fastforce
  note st1 = state_covers_steps(1) [OF s "2.prems"(2)]
  have aw: "add_weight tot w = tot + w" using "2.prems"(3) by (simp add: add_weight_def)
  consider "b" "threshold \<le> tot + w" | "b" "\<not> threshold \<le> tot + w" | "\<not> b" by blast
  then show ?case
  proof cases
    case 1
    with "2.prems"(1) s st1 aw show ?thesis by auto
  next
    case 2
    with "2.prems"(1) s aw have "check_keys threshold ks (tot + w) st1 = (ok, t, st')" by simp
    with "2.IH"(1) [OF s [symmetric] refl 2(1) refl] 2 st1 aw "2.prems"(3) show ?thesis by auto
  next
    case 3
    with "2.prems"(1) s have "check_keys threshold ks tot st1 = (ok, t, st')" by simp
    with "2.IH"(2) [OF s [symmetric] refl 3] 3 st1 "2.prems"(3) show ?thesis by auto
  qed
qed

definition within_approved :: "authority_getter \<Rightarrow> public_key_type set \<Rightarrow> account_name_type set \<Rightarrow> nat \<Rightarrow> account_name_type \<Rightarrow> bool" where
  "within_approved g K A rem n \<longleftrightarrow> n \<in> A \<or>
     (case rem of 0 \<Rightarrow> False
      | Suc r \<Rightarrow> (case g n of Inl _ \<Rightarrow> False | Inr b \<Rightarrow> granted_within g K A r b))"

lemma granted_within_iff:
  "granted_within g K A rem a \<longleftrightarrow>
     weight_threshold a \<le> weight_of (\<lambda>k. k \<in> K) (key_auths a) + weight_of (within_approved g K A rem) (account_auths a)"
  by (cases rem) (simp_all add: within_approved_def [abs_def])

lemma check_authority_complete_aux:
  "getter_closed g A C \<Longrightarrow> state_covers K A st \<Longrightarrow> authority_fits auth \<Longrightarrow>
     fst ` set (account_auths auth) \<subseteq> A \<union> C \<Longrightarrow>
     \<exists>ok st'. check_authority_at g rem auth st = Inr (ok, st') \<and> state_covers K A st'
       \<and> (granted_within g K A rem auth \<longrightarrow> ok)"
  "getter_closed g A C \<Longrightarrow> state_covers K A st \<Longrightarrow> tot + sum_list (map snd as) < 2 ^ 32 \<Longrightarrow>
     fst ` set as \<subseteq> A \<union> C \<Longrightarrow>
     \<exists>ok st'. check_accounts g rem threshold as tot st = Inr (ok, st') \<and> state_covers K A st'
       \<and> (threshold \<le> tot + weight_of (within_approved g K A rem) as \<longrightarrow> ok)"
proof (induction g rem auth st and g rem threshold as tot st rule: check_authority_at_check_accounts.induct)
  case (1 g rem auth st)
  obtain b t st1 where ck: "check_keys (weight_threshold auth) (key_auths auth) 0 st = (b, t, st1)"
    using prod_cases3 by blast
  have fits: "sum_list (map snd (key_auths auth)) + sum_list (map snd (account_auths auth)) < 2 ^ 32"
    using "1.prems"(3) by (simp add: authority_fits_def weights_fit_def)
  have c1: "state_covers K A st1 \<and> (\<not> b \<longrightarrow> t = weight_of (\<lambda>k. k \<in> K) (key_auths auth))"
    using check_keys_complete [OF ck "1.prems"(2)] fits by simp
  show ?case
  proof (cases b)
    case True
    with ck c1 show ?thesis by auto
  next
    case False
    have "t + sum_list (map snd (account_auths auth)) < 2 ^ 32"
      using False c1 fits weight_of_le [of "\<lambda>k. k \<in> K" "key_auths auth"] by simp
    with "1.IH" [OF ck [symmetric] refl False] "1.prems" c1 False ck show ?thesis
      by (auto simp: granted_within_iff)
  qed
next
  case (2 g rem threshold tot st)
  then show ?case by simp
next
  case (3 g rem threshold n w as tot st)
  have aw: "add_weight tot w = tot + w" using "3.prems"(3) by (simp add: add_weight_def)
  have fit: "tot + w + sum_list (map snd as) < 2 ^ 32" "tot + sum_list (map snd as) < 2 ^ 32"
    using "3.prems"(3) by auto
  have names: "fst ` set as \<subseteq> A \<union> C" "n \<in> A \<union> C" using "3.prems"(4) by auto
  show ?case
  proof (cases "n \<in> set (approved_by st)")
    case True
    show ?thesis
    proof (cases "threshold \<le> tot + w")
      case t: True
      with True "3.prems"(2) aw show ?thesis by auto
    next
      case t: False
      then obtain ok st' where "check_accounts g rem threshold as (tot + w) st = Inr (ok, st')"
        "state_covers K A st'"
        "threshold \<le> tot + w + weight_of (within_approved g K A rem) as \<longrightarrow> ok"
        using "3.IH"(5) [of "tot + w"] True "3.prems"(1,2) fit aw names(1) by auto
      with t True aw show ?thesis by auto
    qed
  next
    case new: False
    then have nA: "n \<notin> A" using "3.prems"(2) by (auto simp: state_covers_def)
    show ?thesis
    proof (cases rem)
      case 0
      with new nA "3.IH"(1) "3.prems"(1,2) fit names(1) show ?thesis
        by (auto simp: within_approved_def [of _ _ _ _ n])
    next
      case (Suc r)
      obtain a where a: "g n = Inr a" "authority_fits a" "fst ` set (account_auths a) \<subseteq> A \<union> C"
        using "3.prems"(1) nA names(2) by (auto simp: getter_closed_def)
      obtain b st1 where c: "check_authority_at g r a st = Inr (b, st1)" "state_covers K A st1"
        "granted_within g K A r a \<longrightarrow> b"
        using "3.IH"(2) [OF new Suc "3.prems"(1,2) a(2,3)] by blast
      have wn: "within_approved g K A rem n \<longrightarrow> b"
        using nA a c Suc by (simp add: within_approved_def)
      show ?thesis
      proof (cases b)
        case False
        obtain ok st' where "check_accounts g rem threshold as tot st1 = Inr (ok, st')"
          "state_covers K A st'" "threshold \<le> tot + weight_of (within_approved g K A rem) as \<longrightarrow> ok"
          using "3.IH"(4) [OF new Suc False "3.prems"(1) c(2) fit(2) names(1)] by blast
        with new Suc a c False wn show ?thesis by (auto simp: bindR_def)
      next
        case True
        let ?st2 = "st1\<lparr>approved_by := flat_set_insert n (approved_by st1)\<rparr>"
        have c2: "state_covers K A ?st2" by (rule state_covers_steps(2) [OF c(2)])
        show ?thesis
        proof (cases "threshold \<le> tot + w")
          case t: True
          with True new Suc a c c2 aw show ?thesis by (auto simp: bindR_def)
        next
          case t: False
          obtain ok st' where "check_accounts g rem threshold as (tot + w) ?st2 = Inr (ok, st')"
            "state_covers K A st'" "threshold \<le> tot + w + weight_of (within_approved g K A rem) as \<longrightarrow> ok"
            using "3.IH"(3) [OF new Suc True refl refl _ "3.prems"(1) c2] t fit aw names(1) by auto
          with True new Suc a c c2 aw t show ?thesis by (auto simp: bindR_def)
        qed
      qed
    qed
  qed
qed


definition example_getter :: authority_getter where
  "example_getter n =
     (if n = ''alice'' then Inr \<lparr>weight_threshold = 2, account_auths = [(''bob'', 1)], key_auths = [(7, 1)]\<rparr>
      else Inr \<lparr>weight_threshold = 1, account_auths = [], key_auths = [(9, 1)]\<rparr>)"



definition partial_getter :: authority_getter where
  "partial_getter n = (if n \<in> {''alice'', ''bob''} then example_getter n else Inl Unknown_key)"


section \<open>The grammar of account names\<close>

text \<open>
  The accepted names are exactly the single labels of 3 to 64 characters that begin
  with a letter, end with a letter or digit and contain letters, digits and hyphens
  between; upper case letters are accepted and dots are not, unlike the grammar in the
  comment of \<^verbatim>\<open>authority.hpp\<close>.
\<close>

theorem valid_account_name_iff:
  "is_valid_account_name s \<longleftrightarrow>
     (\<exists>c m l. s = c # m @ [l] \<and> 1 \<le> length m \<and> length m \<le> 62 \<and> is_letter c \<and> is_let_dig l
        \<and> (\<forall>x \<in> set m. is_let_dig x \<or> x = CHR ''-''))"
proof
  assume "is_valid_account_name s"
  then have v: "3 \<le> length s" "length s \<le> 64" "is_letter (s ! 0)" "is_let_dig (s ! (length s - 1))"
    "\<forall>i. 1 \<le> i \<and> i < length s - 1 \<longrightarrow> is_let_dig (s ! i) \<or> s ! i = CHR ''-''"
    by (auto simp: is_valid_account_name_def Let_def list_all_iff SIGMAENGINE_MIN_ACCOUNT_NAME_LENGTH_def
        SIGMAENGINE_MAX_ACCOUNT_NAME_LENGTH_def split: if_splits)
  obtain c t where s: "s = c # t" using v(1) by (cases s) auto
  obtain m l where t: "t = m @ [l]" using v(1) s by (cases t rule: rev_cases) auto
  have "\<forall>x \<in> set m. is_let_dig x \<or> x = CHR ''-''"
  proof
    fix x assume "x \<in> set m"
    then obtain i where i: "i < length m" "x = m ! i" by (auto simp: in_set_conv_nth)
    then show "is_let_dig x \<or> x = CHR ''-''"
      using v(5) [rule_format, of "Suc i"] s t by (simp add: nth_append)
  qed
  then show "\<exists>c m l. s = c # m @ [l] \<and> 1 \<le> length m \<and> length m \<le> 62 \<and> is_letter c \<and> is_let_dig l
      \<and> (\<forall>x \<in> set m. is_let_dig x \<or> x = CHR ''-'')"
    using v s t by (intro exI [of _ c] exI [of _ m] exI [of _ l]) (auto simp: nth_append)
next
  assume "\<exists>c m l. s = c # m @ [l] \<and> 1 \<le> length m \<and> length m \<le> 62 \<and> is_letter c \<and> is_let_dig l
      \<and> (\<forall>x \<in> set m. is_let_dig x \<or> x = CHR ''-'')"
  then obtain c m l where s: "s = c # m @ [l]" "1 \<le> length m" "length m \<le> 62" "is_letter c" "is_let_dig l"
    and mid: "\<forall>x \<in> set m. is_let_dig x \<or> x = CHR ''-''" by blast
  have "is_let_dig (s ! i) \<or> s ! i = CHR ''-''" if "1 \<le> i" "i < length s - 1" for i
    using that s mid by (cases i) (auto simp: nth_append)
  then have mids: "list_all (\<lambda>i. is_let_dig (s ! i) \<or> s ! i = CHR ''-'') [1..<length s - 1]"
    by (simp add: list_all_iff)
  have ends: "s ! 0 = c" "s ! (length s - 1) = l" "3 \<le> length s" "length s \<le> 64"
    using s by (auto simp: nth_append)
  show "is_valid_account_name s"
    unfolding is_valid_account_name_def Let_def ends using mids ends(3,4) s(4,5)
    by (simp add: SIGMAENGINE_MIN_ACCOUNT_NAME_LENGTH_def SIGMAENGINE_MAX_ACCOUNT_NAME_LENGTH_def)
qed

theorem valid_account_name_witness:
  "is_valid_account_name ''a-B9'' \<and> \<not> is_valid_account_name ''abc.def''"
proof
  show "is_valid_account_name ''a-B9''"
    by (subst valid_account_name_iff, rule exI [of _ "CHR ''a''"], rule exI [of _ "''-B''"],
        rule exI [of _ "CHR ''9''"]) (simp add: is_letter_def is_let_dig_def)
  show "\<not> is_valid_account_name ''abc.def''"
    by (simp add: is_valid_account_name_def Let_def upt_rec is_letter_def is_let_dig_def)
qed

end
