(* ===== verification/Operations.thy ===== *)
theory Operations
  imports Asset Version Authority
begin

text \<open>
  The operations a transaction carries, from \<^verbatim>\<open>sigmaengine_operations.hpp\<close>,
  \<^verbatim>\<open>sigmaengine_virtual_operations.hpp\<close>, \<^verbatim>\<open>operations.hpp\<close> and
  \<^verbatim>\<open>sigmaengine_operations.cpp\<close>: one record per operation structure, the variant
  type over them in the order of its tags, the stateless validation of each operation
  and the accounts whose authority it needs. The text predicates \<^verbatim>\<open>fc::is_utf8\<close> and
  \<^verbatim>\<open>fc::json::is_valid\<close> belong to the vendored library and are the fields of a parameter.
\<close>

section \<open>Operation structures\<close>

type_synonym extensions_type = "unit list"

record text_checks =
  is_utf8 :: "string \<Rightarrow> bool"
  is_json :: "string \<Rightarrow> bool"

definition SIGMAENGINE_MAX_MEMO_SIZE :: nat where
  "SIGMAENGINE_MAX_MEMO_SIZE = 2048"

record account_create_operation =
  ac_creator :: account_name_type
  ac_new_account_name :: account_name_type
  ac_owner :: authority
  ac_active :: authority
  ac_posting :: authority
  ac_memo_key :: public_key_type
  ac_json_metadata :: string

record account_update_operation =
  au_account :: account_name_type
  au_owner :: "authority option"
  au_active :: "authority option"
  au_posting :: "authority option"
  au_memo_key :: public_key_type
  au_json_metadata :: string

record transfer_operation =
  tr_from :: account_name_type
  tr_to :: account_name_type
  tr_amount :: asset
  tr_memo :: string

record bobserver_update_operation =
  bu_root :: account_name_type
  bu_owner :: account_name_type
  bu_url :: string
  bu_block_signing_key :: public_key_type

record custom_operation =
  cu_required_auths :: "account_name_type list"
  cu_id :: nat
  cu_data :: string

record custom_json_operation =
  cj_required_auths :: "account_name_type list"
  cj_required_posting_auths :: "account_name_type list"
  cj_id :: string
  cj_json :: string

record custom_json_dapp_operation =
  cd_required_owner_auths :: "account_name_type list"
  cd_required_active_auths :: "account_name_type list"
  cd_required_posting_auths :: "account_name_type list"
  cd_required_auths :: "authority list"
  cd_id :: string
  cd_json :: string

record custom_binary_operation =
  cb_required_owner_auths :: "account_name_type list"
  cb_required_active_auths :: "account_name_type list"
  cb_required_posting_auths :: "account_name_type list"
  cb_required_auths :: "authority list"
  cb_id :: string
  cb_data :: string

record request_account_recovery_operation =
  rr_recovery_account :: account_name_type
  rr_account_to_recover :: account_name_type
  rr_new_owner_authority :: authority
  rr_extensions :: extensions_type

record recover_account_operation =
  ra_account_to_recover :: account_name_type
  ra_new_owner_authority :: authority
  ra_recent_owner_authority :: authority
  ra_extensions :: extensions_type

record reset_account_operation =
  rs_reset_account :: account_name_type
  rs_account_to_reset :: account_name_type
  rs_new_owner_authority :: authority

record set_reset_account_operation =
  sr_account :: account_name_type
  sr_current_reset_account :: account_name_type
  sr_reset_account :: account_name_type

record change_recovery_account_operation =
  cr_account_to_recover :: account_name_type
  cr_new_recovery_account :: account_name_type
  cr_extensions :: extensions_type

record decline_voting_rights_operation =
  dv_account :: account_name_type
  dv_decline :: bool

record update_bproducer_operation =
  ub_root :: account_name_type
  ub_bobserver :: account_name_type
  ub_approve :: bool

record except_bobserver_operation =
  eb_root :: account_name_type
  eb_bobserver :: account_name_type

record account_auth_operation =
  aa_account :: account_name_type
  aa_auth_type :: string
  aa_auth_token :: string

record print_operation =
  pr_root :: account_name_type
  pr_account :: account_name_type
  pr_amount :: asset

record burn_operation =
  bn_root :: account_name_type
  bn_account :: account_name_type
  bn_amount :: asset

record transfer_savings_operation =
  ts_from :: account_name_type
  ts_request_id :: nat
  ts_to :: account_name_type
  ts_amount :: asset
  ts_total_amount :: asset
  ts_split_pay_order :: "8 word"
  ts_split_pay_month :: "8 word"
  ts_memo :: string
  ts_complete :: time_point_sec

record cancel_transfer_savings_operation =
  ct_from :: account_name_type
  ct_to :: account_name_type
  ct_amount :: asset
  ct_request_id :: nat

record conclusion_transfer_savings_operation =
  co_from :: account_name_type
  co_to :: account_name_type
  co_request_id :: nat

record staking_fund_operation =
  sf_from :: account_name_type
  sf_fund_name :: string
  sf_request_id :: nat
  sf_amount :: asset
  sf_memo :: string
  sf_usertype :: nat
  sf_month :: nat

record conclusion_staking_operation =
  cs_root :: account_name_type
  cs_from :: account_name_type
  cs_fund_name :: string
  cs_request_id :: nat

record return_staking_fund_operation =
  rf_root :: account_name_type
  rf_fund_name :: string
  rf_request_id :: nat
  rf_to :: account_name_type

record transfer_fund_operation =
  tf_from :: account_name_type
  tf_fund_name :: string
  tf_amount :: asset
  tf_memo :: string

record set_fund_interest_operation =
  fi_root :: account_name_type
  fi_fund_name :: string
  fi_usertype :: nat
  fi_month :: nat
  fi_percent_interest :: string

record set_blacklist_account_operation =
  bl_root :: account_name_type
  bl_account :: account_name_type
  bl_banned :: bool

record fill_staking_fund_operation =
  fs_from :: account_name_type
  fs_fund_name :: string
  fs_amount :: asset
  fs_request_id :: nat
  fs_memo :: string

record fill_transfer_savings_operation =
  ft_from :: account_name_type
  ft_to :: account_name_type
  ft_amount :: asset
  ft_total_amount :: asset
  ft_split_pay_order :: "8 word"
  ft_split_pay_month :: "8 word"
  ft_request_id :: nat
  ft_memo :: string

record fill_token_staking_fund_operation =
  gs_from :: account_name_type
  gs_token :: string
  gs_fund_name :: string
  gs_amount :: asset
  gs_request_id :: nat
  gs_memo :: string

record fill_transfer_token_savings_operation =
  gt_from :: account_name_type
  gt_to :: account_name_type
  gt_token :: string
  gt_request_id :: nat
  gt_amount :: asset
  gt_total_amount :: asset
  gt_split_pay_order :: "8 word"
  gt_split_pay_month :: "8 word"
  gt_memo :: string


text \<open>The variant over the operations, in the order of its tags.\<close>

datatype (plugins only: code) operation =
    Transfer transfer_operation
  | Account_create account_create_operation
  | Account_update account_update_operation
  | Bobserver_update bobserver_update_operation
  | Custom custom_operation
  | Custom_json custom_json_operation
  | Request_account_recovery request_account_recovery_operation
  | Recover_account recover_account_operation
  | Change_recovery_account change_recovery_account_operation
  | Custom_binary custom_binary_operation
  | Decline_voting_rights decline_voting_rights_operation
  | Reset_account reset_account_operation
  | Set_reset_account set_reset_account_operation
  | Update_bproducer update_bproducer_operation
  | Except_bobserver except_bobserver_operation
  | Account_auth account_auth_operation
  | Print print_operation
  | Burn burn_operation
  | Transfer_savings transfer_savings_operation
  | Cancel_transfer_savings cancel_transfer_savings_operation
  | Conclusion_transfer_savings conclusion_transfer_savings_operation
  | Staking_fund staking_fund_operation
  | Conclusion_staking conclusion_staking_operation
  | Transfer_fund transfer_fund_operation
  | Set_fund_interest set_fund_interest_operation
  | Return_staking_fund return_staking_fund_operation
  | Shutdown_bobserver account_name_type
  | Hardfork nat
  | Dapp_fee_virtual string asset
  | Dapp_reward_virtual account_name_type asset
  | Fill_token_staking_fund fill_token_staking_fund_operation
  | Fill_transfer_token_savings fill_transfer_token_savings_operation
  | Fill_staking_fund fill_staking_fund_operation
  | Fill_transfer_savings fill_transfer_savings_operation
  | Custom_json_dapp custom_json_dapp_operation
  | Set_blacklist_account set_blacklist_account_operation

section \<open>Stateless validation\<close>

definition validate_account_name :: "account_name_type \<Rightarrow> 'b result \<Rightarrow> 'b result" where
  "validate_account_name name k = fc_assert (is_valid_account_name (name_string name)) Invalid_account_name k"

text \<open>\<open>a.validate(); k\<close> for an authority and for a vector of them.\<close>

definition then_validate :: "authority \<Rightarrow> 'b result \<Rightarrow> 'b result" where
  "then_validate a k = bindR (authority_validate a) (\<lambda>_. k)"

definition then_validate_all :: "authority list \<Rightarrow> 'b result \<Rightarrow> 'b result" where
  "then_validate_all as k = bindR (foldR (\<lambda>_ a. authority_validate a) () as) (\<lambda>_. k)"

definition validate_json_metadata :: "text_checks \<Rightarrow> string \<Rightarrow> unit result" where
  "validate_json_metadata tc json =
     (if length json > 0 then
        fc_assert (is_utf8 tc json) Not_utf8 (
        fc_assert (is_json tc json) Not_json (Inr ()))
      else Inr ())"

definition validate_memo :: "text_checks \<Rightarrow> string \<Rightarrow> unit result" where
  "validate_memo tc memo =
     fc_assert (length memo < SIGMAENGINE_MAX_MEMO_SIZE) Memo_too_large (
     fc_assert (is_utf8 tc memo) Not_utf8 (Inr ()))"

definition account_create_validate :: "text_checks \<Rightarrow> account_create_operation \<Rightarrow> unit result" where
  "account_create_validate tc o' =
     validate_account_name (ac_new_account_name o') (
     then_validate (ac_owner o') (
     then_validate (ac_active o') (
     validate_json_metadata tc (ac_json_metadata o'))))"

definition account_update_validate :: "text_checks \<Rightarrow> account_update_operation \<Rightarrow> unit result" where
  "account_update_validate tc o' =
     validate_account_name (au_account o') (validate_json_metadata tc (au_json_metadata o'))"

definition transfer_validate :: "text_checks \<Rightarrow> transfer_operation \<Rightarrow> unit result" where
  "transfer_validate tc o' =
     validate_account_name (tr_from o') (
     validate_account_name (tr_to o') (
     fc_assert (amount (tr_amount o') > 0) Non_positive_amount (
     validate_memo tc (tr_memo o'))))"

definition bobserver_update_validate :: "text_checks \<Rightarrow> bobserver_update_operation \<Rightarrow> unit result" where
  "bobserver_update_validate tc o' =
     validate_account_name (bu_owner o') (
     fc_assert (length (bu_url o') > 0) Empty_field (
     fc_assert (is_utf8 tc (bu_url o')) Not_utf8 (Inr ())))"

definition custom_validate :: "custom_operation \<Rightarrow> unit result" where
  "custom_validate o' = fc_assert (length (cu_required_auths o') > 0) Empty_field (Inr ())"

definition custom_json_validate :: "text_checks \<Rightarrow> custom_json_operation \<Rightarrow> unit result" where
  "custom_json_validate tc o' =
     fc_assert (length (cj_required_auths o') + length (cj_required_posting_auths o') > 0) Empty_field (
     fc_assert (length (cj_id o') \<le> 32) Data_too_large (
     fc_assert (is_utf8 tc (cj_json o')) Not_utf8 (
     fc_assert (is_json tc (cj_json o')) Not_json (Inr ()))))"

definition custom_json_dapp_validate :: "text_checks \<Rightarrow> custom_json_dapp_operation \<Rightarrow> unit result" where
  "custom_json_dapp_validate tc o' =
     fc_assert (length (cd_required_owner_auths o') + length (cd_required_active_auths o')
        + length (cd_required_posting_auths o') + length (cd_required_auths o') > 0) Empty_field (
     then_validate_all (cd_required_auths o') (
     fc_assert (length (cd_id o') \<le> 32) Data_too_large (
     fc_assert (is_utf8 tc (cd_json o')) Not_utf8 (
     fc_assert (is_json tc (cd_json o')) Not_json (Inr ())))))"

definition custom_binary_validate :: "custom_binary_operation \<Rightarrow> unit result" where
  "custom_binary_validate o' =
     fc_assert (length (cb_required_owner_auths o') + length (cb_required_active_auths o')
        + length (cb_required_posting_auths o') + length (cb_required_auths o') > 0) Empty_field (
     fc_assert (length (cb_id o') \<le> 32) Data_too_large (
     then_validate_all (cb_required_auths o') (Inr ())))"

definition request_account_recovery_validate :: "request_account_recovery_operation \<Rightarrow> unit result" where
  "request_account_recovery_validate o' =
     validate_account_name (rr_recovery_account o') (
     validate_account_name (rr_account_to_recover o') (
     then_validate (rr_new_owner_authority o') (Inr ())))"

definition recover_account_validate :: "recover_account_operation \<Rightarrow> unit result" where
  "recover_account_validate o' =
     validate_account_name (ra_account_to_recover o') (
     fc_assert (ra_new_owner_authority o' \<noteq> ra_recent_owner_authority o') Same_authority (
     fc_assert (\<not> is_impossible (ra_new_owner_authority o')) Impossible_authority (
     fc_assert (\<not> is_impossible (ra_recent_owner_authority o')) Impossible_authority (
     fc_assert (weight_threshold (ra_new_owner_authority o') \<noteq> 0) Open_authority (
     then_validate (ra_new_owner_authority o') (
     then_validate (ra_recent_owner_authority o') (Inr ())))))))"

definition change_recovery_account_validate :: "change_recovery_account_operation \<Rightarrow> unit result" where
  "change_recovery_account_validate o' =
     validate_account_name (cr_account_to_recover o') (
     validate_account_name (cr_new_recovery_account o') (Inr ()))"

definition decline_voting_rights_validate :: "decline_voting_rights_operation \<Rightarrow> unit result" where
  "decline_voting_rights_validate o' = validate_account_name (dv_account o') (Inr ())"

definition reset_account_validate :: "reset_account_operation \<Rightarrow> unit result" where
  "reset_account_validate o' =
     validate_account_name (rs_reset_account o') (
     validate_account_name (rs_account_to_reset o') (
     fc_assert (\<not> is_impossible (rs_new_owner_authority o')) Impossible_authority (
     fc_assert (weight_threshold (rs_new_owner_authority o') \<noteq> 0) Open_authority (
     then_validate (rs_new_owner_authority o') (Inr ())))))"

definition set_reset_account_validate :: "set_reset_account_operation \<Rightarrow> unit result" where
  "set_reset_account_validate o' =
     validate_account_name (sr_account o') (
     bindR (if length (name_string (sr_current_reset_account o')) > 0
            then validate_account_name (sr_current_reset_account o') (Inr ()) else Inr ()) (\<lambda>_.
     validate_account_name (sr_reset_account o') (
     fc_assert (sr_current_reset_account o' \<noteq> sr_reset_account o') Same_authority (Inr ()))))"

definition update_bproducer_validate :: "update_bproducer_operation \<Rightarrow> unit result" where
  "update_bproducer_validate o' = validate_account_name (ub_bobserver o') (Inr ())"

definition except_bobserver_validate :: "except_bobserver_operation \<Rightarrow> unit result" where
  "except_bobserver_validate o' = validate_account_name (eb_bobserver o') (Inr ())"

definition account_auth_validate :: "account_auth_operation \<Rightarrow> unit result" where
  "account_auth_validate o' = validate_account_name (aa_account o') (Inr ())"

definition print_validate :: "print_operation \<Rightarrow> unit result" where
  "print_validate o' =
     validate_account_name (pr_account o') (
     fc_assert (amount (pr_amount o') > 0) Non_positive_amount (Inr ()))"

definition burn_validate :: "burn_operation \<Rightarrow> unit result" where
  "burn_validate o' =
     validate_account_name (bn_account o') (
     fc_assert (amount (bn_amount o') > 0) Non_positive_amount (Inr ()))"

definition transfer_savings_validate :: "text_checks \<Rightarrow> transfer_savings_operation \<Rightarrow> unit result" where
  "transfer_savings_validate tc o' =
     validate_account_name (ts_from o') (
     validate_account_name (ts_to o') (
     fc_assert (amount (ts_amount o') > 0) Non_positive_amount (
     fc_assert (symbol (ts_amount o') = SGT_SYMBOL) Invalid_symbol (
     fc_assert (ts_request_id o' \<ge> 0) Out_of_range (
     validate_memo tc (ts_memo o'))))))"

definition cancel_transfer_savings_validate :: "cancel_transfer_savings_operation \<Rightarrow> unit result" where
  "cancel_transfer_savings_validate o' = validate_account_name (ct_from o') (Inr ())"

definition conclusion_transfer_savings_validate :: "conclusion_transfer_savings_operation \<Rightarrow> unit result" where
  "conclusion_transfer_savings_validate o' = validate_account_name (co_from o') (Inr ())"

definition staking_fund_validate :: "text_checks \<Rightarrow> staking_fund_operation \<Rightarrow> unit result" where
  "staking_fund_validate tc o' =
     validate_account_name (sf_from o') (
     fc_assert (length (sf_fund_name o') > 0) Empty_field (
     fc_assert (sf_request_id o' \<ge> 0) Out_of_range (
     fc_assert (amount (sf_amount o') > 0) Non_positive_amount (
     fc_assert (symbol (sf_amount o') = SGT_SYMBOL) Invalid_symbol (
     fc_assert (sf_usertype o' \<ge> 0 \<and> sf_usertype o' \<le> 1) Out_of_range (
     fc_assert (sf_month o' \<ge> 1 \<and> sf_month o' \<le> 12) Out_of_range (
     validate_memo tc (sf_memo o'))))))))"

definition conclusion_staking_validate :: "conclusion_staking_operation \<Rightarrow> unit result" where
  "conclusion_staking_validate o' =
     validate_account_name (cs_from o') (
     fc_assert (length (cs_fund_name o') > 0) Empty_field (Inr ()))"

definition return_staking_fund_validate :: "return_staking_fund_operation \<Rightarrow> unit result" where
  "return_staking_fund_validate o' =
     validate_account_name (rf_to o') (
     fc_assert (length (rf_fund_name o') > 0) Empty_field (Inr ()))"

definition transfer_fund_validate :: "text_checks \<Rightarrow> transfer_fund_operation \<Rightarrow> unit result" where
  "transfer_fund_validate tc o' =
     validate_account_name (tf_from o') (
     fc_assert (length (tf_fund_name o') > 0) Empty_field (
     fc_assert (amount (tf_amount o') > 0) Non_positive_amount (
     fc_assert (symbol (tf_amount o') = SGT_SYMBOL) Invalid_symbol (
     validate_memo tc (tf_memo o')))))"

definition set_fund_interest_validate :: "set_fund_interest_operation \<Rightarrow> unit result" where
  "set_fund_interest_validate o' =
     validate_account_name (fi_root o') (
     fc_assert (length (fi_fund_name o') > 0) Empty_field (
     fc_assert (fi_usertype o' \<ge> 0 \<and> fi_usertype o' \<le> 1) Out_of_range (
     fc_assert (fi_month o' \<ge> 1 \<and> fi_month o' \<le> 12) Out_of_range (
     fc_assert (length (fi_percent_interest o') > 0) Empty_field (Inr ())))))"

definition set_blacklist_account_validate :: "set_blacklist_account_operation \<Rightarrow> unit result" where
  "set_blacklist_account_validate o' =
     validate_account_name (bl_root o') (
     validate_account_name (bl_account o') (Inr ()))"

fun operation_validate :: "text_checks \<Rightarrow> operation \<Rightarrow> unit result" where
  "operation_validate tc (Transfer o') = transfer_validate tc o'"
| "operation_validate tc (Account_create o') = account_create_validate tc o'"
| "operation_validate tc (Account_update o') = account_update_validate tc o'"
| "operation_validate tc (Bobserver_update o') = bobserver_update_validate tc o'"
| "operation_validate tc (Custom o') = custom_validate o'"
| "operation_validate tc (Custom_json o') = custom_json_validate tc o'"
| "operation_validate tc (Request_account_recovery o') = request_account_recovery_validate o'"
| "operation_validate tc (Recover_account o') = recover_account_validate o'"
| "operation_validate tc (Change_recovery_account o') = change_recovery_account_validate o'"
| "operation_validate tc (Custom_binary o') = custom_binary_validate o'"
| "operation_validate tc (Decline_voting_rights o') = decline_voting_rights_validate o'"
| "operation_validate tc (Reset_account o') = reset_account_validate o'"
| "operation_validate tc (Set_reset_account o') = set_reset_account_validate o'"
| "operation_validate tc (Update_bproducer o') = update_bproducer_validate o'"
| "operation_validate tc (Except_bobserver o') = except_bobserver_validate o'"
| "operation_validate tc (Account_auth o') = account_auth_validate o'"
| "operation_validate tc (Print o') = print_validate o'"
| "operation_validate tc (Burn o') = burn_validate o'"
| "operation_validate tc (Transfer_savings o') = transfer_savings_validate tc o'"
| "operation_validate tc (Cancel_transfer_savings o') = cancel_transfer_savings_validate o'"
| "operation_validate tc (Conclusion_transfer_savings o') = conclusion_transfer_savings_validate o'"
| "operation_validate tc (Staking_fund o') = staking_fund_validate tc o'"
| "operation_validate tc (Conclusion_staking o') = conclusion_staking_validate o'"
| "operation_validate tc (Transfer_fund o') = transfer_fund_validate tc o'"
| "operation_validate tc (Set_fund_interest o') = set_fund_interest_validate o'"
| "operation_validate tc (Return_staking_fund o') = return_staking_fund_validate o'"
| "operation_validate tc (Custom_json_dapp o') = custom_json_dapp_validate tc o'"
| "operation_validate tc (Set_blacklist_account o') = set_blacklist_account_validate o'"
| "operation_validate tc (Shutdown_bobserver _) = Inl (Assert_exception Virtual_operation)"
| "operation_validate tc (Hardfork _) = Inl (Assert_exception Virtual_operation)"
| "operation_validate tc (Dapp_fee_virtual _ _) = Inl (Assert_exception Virtual_operation)"
| "operation_validate tc (Dapp_reward_virtual _ _) = Inl (Assert_exception Virtual_operation)"
| "operation_validate tc (Fill_token_staking_fund _) = Inl (Assert_exception Virtual_operation)"
| "operation_validate tc (Fill_transfer_token_savings _) = Inl (Assert_exception Virtual_operation)"
| "operation_validate tc (Fill_staking_fund _) = Inl (Assert_exception Virtual_operation)"
| "operation_validate tc (Fill_transfer_savings _) = Inl (Assert_exception Virtual_operation)"

fun is_virtual_operation :: "operation \<Rightarrow> bool" where
  "is_virtual_operation (Shutdown_bobserver _) = True"
| "is_virtual_operation (Hardfork _) = True"
| "is_virtual_operation (Dapp_fee_virtual _ _) = True"
| "is_virtual_operation (Dapp_reward_virtual _ _) = True"
| "is_virtual_operation (Fill_token_staking_fund _) = True"
| "is_virtual_operation (Fill_transfer_token_savings _) = True"
| "is_virtual_operation (Fill_staking_fund _) = True"
| "is_virtual_operation (Fill_transfer_savings _) = True"
| "is_virtual_operation _ = False"

section \<open>Required authorities\<close>

text \<open>
  The four containers of \<^verbatim>\<open>operation_get_required_auth_visitor\<close>; each
  \<^verbatim>\<open>get_required_*_authorities\<close> inserts into one of them.
\<close>

record required_authorities =
  required_active :: "account_name_type list"
  required_owner :: "account_name_type list"
  required_posting :: "account_name_type list"
  required_other :: "authority list"

definition no_required_authorities :: required_authorities where
  "no_required_authorities =
     \<lparr>required_active = [], required_owner = [], required_posting = [], required_other = []\<rparr>"

definition insert_all :: "account_name_type list \<Rightarrow> account_name_type list \<Rightarrow> account_name_type list" where
  "insert_all names s = foldl (\<lambda>s n. flat_set_insert n s) s names"

definition need_active :: "account_name_type list \<Rightarrow> required_authorities \<Rightarrow> required_authorities" where
  "need_active names r = r\<lparr>required_active := insert_all names (required_active r)\<rparr>"

definition need_owner :: "account_name_type list \<Rightarrow> required_authorities \<Rightarrow> required_authorities" where
  "need_owner names r = r\<lparr>required_owner := insert_all names (required_owner r)\<rparr>"

definition need_posting :: "account_name_type list \<Rightarrow> required_authorities \<Rightarrow> required_authorities" where
  "need_posting names r = r\<lparr>required_posting := insert_all names (required_posting r)\<rparr>"

definition need_other :: "authority list \<Rightarrow> required_authorities \<Rightarrow> required_authorities" where
  "need_other as r = r\<lparr>required_other := required_other r @ as\<rparr>"

fun operation_get_required_authorities :: "operation \<Rightarrow> required_authorities \<Rightarrow> required_authorities" where
  "operation_get_required_authorities (Transfer o') r = need_active [tr_from o'] r"
| "operation_get_required_authorities (Account_create o') r = need_active [ac_creator o'] r"
| "operation_get_required_authorities (Account_update o') r =
     (case au_owner o' of None \<Rightarrow> need_active [au_account o'] r | Some _ \<Rightarrow> need_owner [au_account o'] r)"
| "operation_get_required_authorities (Bobserver_update o') r = need_active [bu_root o'] r"
| "operation_get_required_authorities (Custom o') r = need_active (cu_required_auths o') r"
| "operation_get_required_authorities (Custom_json o') r =
     need_posting (cj_required_posting_auths o') (need_active (cj_required_auths o') r)"
| "operation_get_required_authorities (Request_account_recovery o') r = need_active [rr_recovery_account o'] r"
| "operation_get_required_authorities (Recover_account o') r =
     need_other [ra_new_owner_authority o', ra_recent_owner_authority o'] r"
| "operation_get_required_authorities (Change_recovery_account o') r = need_owner [cr_account_to_recover o'] r"
| "operation_get_required_authorities (Custom_binary o') r =
     need_other (cb_required_auths o') (need_posting (cb_required_posting_auths o')
       (need_owner (cb_required_owner_auths o') (need_active (cb_required_active_auths o') r)))"
| "operation_get_required_authorities (Decline_voting_rights o') r = need_owner [dv_account o'] r"
| "operation_get_required_authorities (Reset_account o') r = need_active [rs_reset_account o'] r"
| "operation_get_required_authorities (Set_reset_account o') r =
     (if length (name_string (sr_current_reset_account o')) > 0 then need_owner [sr_account o'] r
      else need_posting [sr_account o'] r)"
| "operation_get_required_authorities (Update_bproducer o') r = need_active [ub_root o'] r"
| "operation_get_required_authorities (Except_bobserver o') r = need_active [eb_root o'] r"
| "operation_get_required_authorities (Account_auth o') r = need_active [aa_account o'] r"
| "operation_get_required_authorities (Print o') r = need_active [pr_root o'] r"
| "operation_get_required_authorities (Burn o') r = need_active [bn_root o'] r"
| "operation_get_required_authorities (Transfer_savings o') r = need_active [ts_from o'] r"
| "operation_get_required_authorities (Cancel_transfer_savings o') r = need_active [ct_from o'] r"
| "operation_get_required_authorities (Conclusion_transfer_savings o') r = need_active [co_from o'] r"
| "operation_get_required_authorities (Staking_fund o') r = need_active [sf_from o'] r"
| "operation_get_required_authorities (Conclusion_staking o') r = need_active [cs_root o'] r"
| "operation_get_required_authorities (Transfer_fund o') r = need_active [tf_from o'] r"
| "operation_get_required_authorities (Set_fund_interest o') r = need_active [fi_root o'] r"
| "operation_get_required_authorities (Return_staking_fund o') r = need_active [rf_root o'] r"
| "operation_get_required_authorities (Custom_json_dapp o') r =
     need_other (cd_required_auths o') (need_posting (cd_required_posting_auths o')
       (need_owner (cd_required_owner_auths o') (need_active (cd_required_active_auths o') r)))"
| "operation_get_required_authorities (Set_blacklist_account o') r = need_active [bl_root o'] r"
| "operation_get_required_authorities _ r = r"

end
