(* ===== verification/Transaction.thy ===== *)
theory Transaction
  imports Operations
begin

text \<open>
  Transactions and blocks as the protocol library has them: \<^verbatim>\<open>transaction.cpp\<close>,
  \<^verbatim>\<open>block.cpp\<close>, \<^verbatim>\<open>transaction.hpp\<close>, \<^verbatim>\<open>block_header.hpp\<close> and \<^verbatim>\<open>block.hpp\<close>. The
  serialiser, the hash functions and the recovery of a key from a signature belong to the
  vendored library and are the fields of a parameter record. The theorems relate
  \<^verbatim>\<open>verify_authority\<close> to the specification of granted authorities, the in-place Merkle
  loop to its recursive reading, and block ids to block numbers.
\<close>

unbundle bit_operations_syntax

declare check_authority_at.simps [simp del]

section \<open>Transactions\<close>

type_synonym hash_words = "32 word list"
type_synonym digest_type = hash_words
type_synonym block_id_type = hash_words
type_synonym transaction_id_type = hash_words
type_synonym checksum_type = hash_words
type_synonym chain_id_type = hash_words
type_synonym signature_type = string

definition SIGMAENGINE_MAX_SIG_CHECK_DEPTH :: nat where
  "SIGMAENGINE_MAX_SIG_CHECK_DEPTH = 2"

record transaction =
  ref_block_num :: "16 word"
  ref_block_prefix :: "32 word"
  expiration :: time_point_sec
  operations :: "operation list"
  trx_extensions :: extensions_type

record signed_transaction = transaction +
  signatures :: "signature_type list"

text \<open>
  The functions of the vendored library a transaction uses: the digest of the packed
  transaction, with and without its signatures or the chain id in front, and the key
  recovered from a compact signature.
\<close>

record trx_crypto =
  pack_digest :: "transaction \<Rightarrow> digest_type"
  pack_sig_digest :: "chain_id_type \<Rightarrow> transaction \<Rightarrow> digest_type"
  pack_merkle_digest :: "signed_transaction \<Rightarrow> digest_type"
  recover_key :: "signature_type \<Rightarrow> digest_type \<Rightarrow> public_key_type result"

definition transaction_id :: "trx_crypto \<Rightarrow> transaction \<Rightarrow> transaction_id_type" where
  "transaction_id cr trx = take 5 (pack_digest cr trx)"

definition transaction_validate :: "text_checks \<Rightarrow> operation list \<Rightarrow> unit result" where
  "transaction_validate tc ops =
     fc_assert (length ops > 0) Empty_transaction (foldR (\<lambda>_ op. operation_validate tc op) () ops)"

definition endian_reverse_u32 :: "32 word \<Rightarrow> 32 word" where
  "endian_reverse_u32 x =
     (drop_bit 24 x AND 0xFF) OR push_bit 8 (drop_bit 16 x AND 0xFF)
     OR push_bit 16 (drop_bit 8 x AND 0xFF) OR push_bit 24 (x AND 0xFF)"

definition num_from_id :: "block_id_type \<Rightarrow> 32 word" where
  "num_from_id bid = endian_reverse_u32 (bid ! 0)"

definition set_reference_block :: "block_id_type \<Rightarrow> transaction \<Rightarrow> transaction" where
  "set_reference_block reference_block trx =
     trx\<lparr>ref_block_num := ucast (endian_reverse_u32 (reference_block ! 0)),
         ref_block_prefix := reference_block ! 1\<rparr>"

definition get_required_authorities :: "operation list \<Rightarrow> required_authorities" where
  "get_required_authorities ops =
     foldl (\<lambda>r op. operation_get_required_authorities op r) no_required_authorities ops"

section \<open>Verification of the authorities of a transaction\<close>

text \<open>The short-circuit \<^verbatim>\<open>||\<close> of two checks that update the signature state.\<close>

definition or_check ::
  "(bool \<times> sign_state) result \<Rightarrow> (sign_state \<Rightarrow> (bool \<times> sign_state) result) \<Rightarrow> (bool \<times> sign_state) result" where
  "or_check m k = bindR m (\<lambda>(ok, st). if ok then Inr (True, st) else k st)"

definition check_got_authority ::
  "authority_getter \<Rightarrow> nat \<Rightarrow> authority_getter \<Rightarrow> account_name_type \<Rightarrow> sign_state \<Rightarrow> (bool \<times> sign_state) result" where
  "check_got_authority g depth get n st = bindR (get n) (\<lambda>a. check_authority_at g depth a st)"

definition require_check :: "fc_error \<Rightarrow> (bool \<times> sign_state) result \<Rightarrow> sign_state result" where
  "require_check e m = bindR m (\<lambda>(ok, st). guardR ok e (Inr st))"

definition approve_all :: "account_name_type list \<Rightarrow> sign_state \<Rightarrow> sign_state" where
  "approve_all names st = st\<lparr>approved_by := insert_all names (approved_by st)\<rparr>"

definition require_no_unused :: "sign_state \<Rightarrow> unit result" where
  "require_no_unused st = guardR (\<not> fst (remove_unused_signatures st)) Tx_irrelevant_sig (Inr ())"

definition verify_posting ::
  "public_key_type list \<Rightarrow> authority_getter \<Rightarrow> authority_getter \<Rightarrow> authority_getter \<Rightarrow> nat
     \<Rightarrow> account_name_type list \<Rightarrow> account_name_type list \<Rightarrow> unit result" where
  "verify_posting sigs get_active get_owner get_posting depth posting_approvals names =
     bindR (foldR (\<lambda>st n.
         require_check Tx_missing_posting_auth
           (or_check (check_account_authority get_posting depth n st) (\<lambda>st.
            or_check (check_got_authority get_posting depth get_active n st) (\<lambda>st.
            check_got_authority get_posting depth get_owner n st))))
       (approve_all posting_approvals (mk_sign_state sigs [])) names)
     require_no_unused"

definition verify_active_owner ::
  "public_key_type list \<Rightarrow> authority_getter \<Rightarrow> authority_getter \<Rightarrow> nat
     \<Rightarrow> account_name_type list \<Rightarrow> account_name_type list \<Rightarrow> required_authorities \<Rightarrow> unit result" where
  "verify_active_owner sigs get_active get_owner depth active_approvals owner_approvals r =
     bindR (foldR (\<lambda>st a. require_check Tx_missing_other_auth (check_authority_at get_active depth a st))
       (approve_all owner_approvals (approve_all active_approvals (mk_sign_state sigs [])))
       (required_other r)) (\<lambda>st.
     bindR (foldR (\<lambda>st n.
         require_check Tx_missing_active_auth
           (or_check (check_account_authority get_active depth n st) (\<lambda>st.
            check_got_authority get_active depth get_owner n st)))
       st (required_active r)) (\<lambda>st.
     bindR (foldR (\<lambda>st n.
         require_check Tx_missing_owner_auth
           (if n \<in> set owner_approvals then Inr (True, st)
            else check_got_authority get_active depth get_owner n st))
       st (required_owner r))
     require_no_unused))"

definition verify_authority ::
  "operation list \<Rightarrow> public_key_type list \<Rightarrow> authority_getter \<Rightarrow> authority_getter \<Rightarrow> authority_getter \<Rightarrow> nat
     \<Rightarrow> account_name_type list \<Rightarrow> account_name_type list \<Rightarrow> account_name_type list \<Rightarrow> unit result" where
  "verify_authority ops sigs get_active get_owner get_posting depth
       active_approvals owner_approvals posting_approvals =
     (let r = get_required_authorities ops in
      if length (required_posting r) > 0 then
        fc_assert (length (required_active r) = 0) Unnamed_assertion (
        fc_assert (length (required_owner r) = 0) Unnamed_assertion (
        fc_assert (length (required_other r) = 0) Unnamed_assertion (
        verify_posting sigs get_active get_owner get_posting depth posting_approvals (required_posting r))))
      else
        verify_active_owner sigs get_active get_owner depth active_approvals owner_approvals r)"

definition get_signature_keys ::
  "trx_crypto \<Rightarrow> chain_id_type \<Rightarrow> signed_transaction \<Rightarrow> public_key_type list result" where
  "get_signature_keys cr chain_id trx =
     (let d = pack_sig_digest cr chain_id (transaction.truncate trx) in
      foldR (\<lambda>keys sig.
          bindR (recover_key cr sig d) (\<lambda>k.
          guardR (k \<notin> set keys) Tx_duplicate_sig (Inr (flat_set_insert k keys))))
        [] (signatures trx))"

definition trx_verify_authority ::
  "trx_crypto \<Rightarrow> chain_id_type \<Rightarrow> signed_transaction \<Rightarrow> authority_getter \<Rightarrow> authority_getter \<Rightarrow> authority_getter
     \<Rightarrow> nat \<Rightarrow> unit result" where
  "trx_verify_authority cr chain_id trx get_active get_owner get_posting max_recursion =
     bindR (get_signature_keys cr chain_id trx) (\<lambda>sigs.
       verify_authority (operations trx) sigs get_active get_owner get_posting max_recursion [] [] [])"

section \<open>The signatures a transaction needs\<close>

definition ignore_check :: "(bool \<times> sign_state) result \<Rightarrow> sign_state result" where
  "ignore_check m = bindR m (\<lambda>(_, st). Inr st)"

definition used_available :: "public_key_type list \<Rightarrow> sign_state \<Rightarrow> public_key_type list" where
  "used_available avail st =
     foldl (\<lambda>res k. if k \<in> set avail then flat_set_insert k res else res) []
       (map fst (provided_signatures (snd (remove_unused_signatures st))))"

definition get_required_signatures ::
  "trx_crypto \<Rightarrow> chain_id_type \<Rightarrow> signed_transaction \<Rightarrow> public_key_type list \<Rightarrow> authority_getter
     \<Rightarrow> authority_getter \<Rightarrow> authority_getter \<Rightarrow> nat \<Rightarrow> public_key_type list result" where
  "get_required_signatures cr chain_id trx avail get_active get_owner get_posting depth =
     (let r = get_required_authorities (operations trx) in
      bindR (get_signature_keys cr chain_id trx) (\<lambda>sigs.
      let st = mk_sign_state sigs avail in
      if length (required_posting r) > 0 then
        fc_assert (length (required_owner r) = 0) Unnamed_assertion (
        fc_assert (length (required_active r) = 0) Unnamed_assertion (
        bindR (foldR (\<lambda>st n. ignore_check (check_account_authority get_posting depth n st))
                 st (required_posting r)) (\<lambda>st.
        Inr (used_available avail st))))
      else
        bindR (foldR (\<lambda>st a. ignore_check (check_authority_at get_active depth a st)) st (required_other r)) (\<lambda>st.
        bindR (foldR (\<lambda>st n. ignore_check (check_got_authority get_active depth get_owner n st))
                 st (required_owner r)) (\<lambda>st.
        bindR (foldR (\<lambda>st n. ignore_check (check_account_authority get_active depth n st))
                 st (required_active r)) (\<lambda>st.
        Inr (used_available avail st))))))"

definition is_missing_auth :: "fc_error \<Rightarrow> bool" where
  "is_missing_auth e \<longleftrightarrow> e \<in> {Tx_missing_owner_auth, Tx_missing_active_auth, Tx_missing_posting_auth,
     Tx_missing_other_auth}"

definition try_without ::
  "(public_key_type list \<Rightarrow> unit result) \<Rightarrow> public_key_type list \<Rightarrow> public_key_type \<Rightarrow> public_key_type list result" where
  "try_without verify res k =
     (case verify (filter (\<lambda>x. x \<noteq> k) res) of
        Inr _ \<Rightarrow> Inr (filter (\<lambda>x. x \<noteq> k) res)
      | Inl e \<Rightarrow> if is_missing_auth e then Inr (flat_set_insert k (filter (\<lambda>x. x \<noteq> k) res)) else Inl e)"

definition minimize_required_signatures ::
  "trx_crypto \<Rightarrow> chain_id_type \<Rightarrow> signed_transaction \<Rightarrow> public_key_type list \<Rightarrow> authority_getter
     \<Rightarrow> authority_getter \<Rightarrow> authority_getter \<Rightarrow> nat \<Rightarrow> public_key_type list result" where
  "minimize_required_signatures cr chain_id trx avail get_active get_owner get_posting max_recursion =
     bindR (get_required_signatures cr chain_id trx avail get_active get_owner get_posting max_recursion) (\<lambda>s.
     foldR (try_without (\<lambda>keys.
         verify_authority (operations trx) keys get_active get_owner get_posting max_recursion [] [] []))
       s s)"

section \<open>Blocks\<close>

datatype header_extension =
    Void_extension
  | Version_extension version
  | Hardfork_vote_extension hardfork_version_vote

record block_header =
  previous :: block_id_type
  timestamp :: time_point_sec
  bobserver :: account_name_type
  transaction_merkle_root :: checksum_type
  extensions :: "header_extension list"

record signed_block_header = block_header +
  bobserver_signature :: signature_type

record signed_block = signed_block_header +
  transactions :: "signed_transaction list"

record block_crypto =
  header_digest :: "block_header \<Rightarrow> digest_type"
  header_sha224 :: "signed_block_header \<Rightarrow> hash_words"
  recover_signee :: "signature_type \<Rightarrow> digest_type \<Rightarrow> public_key_type result"
  pair_hash :: "digest_type \<Rightarrow> digest_type \<Rightarrow> digest_type"
  checksum_hash :: "digest_type \<Rightarrow> checksum_type"

definition block_num :: "'a block_header_scheme \<Rightarrow> 32 word" where
  "block_num b = num_from_id (previous b) + 1"

definition block_id :: "block_crypto \<Rightarrow> 'a signed_block_header_scheme \<Rightarrow> block_id_type" where
  "block_id bc b = take 5 ((header_sha224 bc (signed_block_header.truncate b))[0 := endian_reverse_u32 (block_num b)])"

definition signee :: "block_crypto \<Rightarrow> 'a signed_block_header_scheme \<Rightarrow> public_key_type result" where
  "signee bc b = recover_signee bc (bobserver_signature b) (header_digest bc (block_header.truncate b))"

definition validate_signee :: "block_crypto \<Rightarrow> 'a signed_block_header_scheme \<Rightarrow> public_key_type \<Rightarrow> bool result" where
  "validate_signee bc b expected = bindR (signee bc b) (\<lambda>k. Inr (k = expected))"

text \<open>
  The Merkle loop works in place on the vector of ids: \<open>merkle_inner\<close> is the \<^verbatim>\<open>for\<close> loop of
  one level and \<open>merkle_loop\<close> the \<^verbatim>\<open>while\<close> loop over the levels. The 32 bit loop counters of
  the source do not wrap: a block has fewer than \<open>2 ^ 32\<close> transactions.
\<close>

function merkle_inner ::
  "(digest_type \<Rightarrow> digest_type \<Rightarrow> digest_type) \<Rightarrow> nat \<Rightarrow> nat \<Rightarrow> nat \<Rightarrow> digest_type list \<Rightarrow> nat \<times> digest_type list" where
  "merkle_inner h i k i_max ids =
     (if i < i_max then merkle_inner h (i + 2) (k + 1) i_max (ids[k := h (ids ! i) (ids ! (i + 1))])
      else (k, ids))"
  by pat_completeness auto
termination by (relation "measure (\<lambda>(h, i, k, i_max, ids). i_max - i)") auto

declare merkle_inner.simps [simp del]

lemma merkle_inner_count:
  "i \<le> i_max \<Longrightarrow> even (i_max - i) \<Longrightarrow> fst (merkle_inner h i k i_max ids) = k + (i_max - i) div 2"
proof (induction h i k i_max ids rule: merkle_inner.induct)
  case (1 h i k i_max ids)
  show ?case
  proof (cases "i < i_max")
    case True
    with 1(3) have le: "i + 2 \<le> i_max" by presburger
    then have "(i_max - i) div 2 = Suc ((i_max - (i + 2)) div 2)" by presburger
    with 1 True le show ?thesis by (simp add: merkle_inner.simps [of h i])
  next
    case False
    with 1(2) show ?thesis by (simp add: merkle_inner.simps [of h _ k])
  qed
qed

lemma merkle_level_count:
  "fst (merkle_inner h 0 0 (n - n mod 2) ids) = n div 2"
proof -
  have "even (n - n mod 2)" "(n - n mod 2) div 2 = n div 2" by presburger+
  then show ?thesis by (simp add: merkle_inner_count)
qed

function merkle_loop ::
  "(digest_type \<Rightarrow> digest_type \<Rightarrow> digest_type) \<Rightarrow> nat \<Rightarrow> digest_type list \<Rightarrow> digest_type list" where
  "merkle_loop h n ids =
     (if n > 1 then
        (let i_max = n - n mod 2;
             level = merkle_inner h 0 0 i_max ids;
             k = fst level; ids' = snd level
         in if n mod 2 = 1 then merkle_loop h (k + 1) (ids'[k := ids' ! i_max])
            else merkle_loop h k ids')
      else ids)"
  by pat_completeness auto
termination
proof (relation "measure (\<lambda>(h, n, ids). n)", goal_cases)
  case (2 h n ids i_max level k ids')
  have "k = n div 2" by (simp only: 2(2-4) merkle_level_count)
  with 2 have "Suc k < n" by presburger
  then show ?case by simp
next
  case (3 h n ids i_max level k ids')
  have "k = n div 2" by (simp only: 3(2-4) merkle_level_count)
  with 3(1) have "k < n" by presburger
  then show ?case by simp
qed simp

declare merkle_loop.simps [simp del]

definition calculate_merkle_root :: "trx_crypto \<Rightarrow> block_crypto \<Rightarrow> signed_transaction list \<Rightarrow> checksum_type" where
  "calculate_merkle_root cr bc txs =
     (if length txs = 0 then replicate 5 0
      else let ids = map (pack_merkle_digest cr) txs
           in checksum_hash bc (merkle_loop (pair_hash bc) (length ids) ids ! 0))"

section \<open>The Merkle loop and its recursive reading\<close>

fun pair_up :: "('a \<Rightarrow> 'a \<Rightarrow> 'a) \<Rightarrow> 'a list \<Rightarrow> 'a list" where
  "pair_up h (a # b # xs) = h a b # pair_up h xs"
| "pair_up h xs = xs"

lemma length_pair_up [simp]: "length (pair_up h xs) = (length xs + 1) div 2"
  by (induction h xs rule: pair_up.induct) auto

lemma pair_up_Nil_iff [simp]: "pair_up h xs = [] \<longleftrightarrow> xs = []"
  by (cases "(h, xs)" rule: pair_up.cases) auto

lemma nth_pair_up: "j < length xs div 2 \<Longrightarrow> pair_up h xs ! j = h (xs ! (2 * j)) (xs ! (2 * j + 1))"
proof (induction h xs arbitrary: j rule: pair_up.induct)
  case (1 h a b xs)
  then show ?case by (cases j) auto
qed auto

lemma nth_pair_up_last: "odd (length xs) \<Longrightarrow> pair_up h xs ! (length xs div 2) = xs ! (length xs - 1)"
proof (induction h xs rule: pair_up.induct)
  case (1 h a b xs)
  then show ?case by (cases xs) auto
qed auto

function merkle_ref :: "('a \<Rightarrow> 'a \<Rightarrow> 'a) \<Rightarrow> 'a list \<Rightarrow> 'a" where
  "merkle_ref h xs = (if length xs > 1 then merkle_ref h (pair_up h xs) else hd xs)"
  by pat_completeness auto
termination by (relation "measure (\<lambda>(h, xs). length xs)") auto

declare merkle_ref.simps [simp del]

lemma merkle_inner_spec:
  assumes "even i" "even i_max" "i \<le> i_max" "i_max \<le> length ids"
  shows "length (snd (merkle_inner h i (i div 2) i_max ids)) = length ids
     \<and> (\<forall>j. snd (merkle_inner h i (i div 2) i_max ids) ! j =
          (if i div 2 \<le> j \<and> j < i_max div 2 then h (ids ! (2 * j)) (ids ! (2 * j + 1)) else ids ! j))"
  using assms
proof (induction "i_max - i" arbitrary: i ids rule: less_induct)
  case less
  show ?case
  proof (cases "i < i_max")
    case False
    with less.prems have "i = i_max" by simp
    then show ?thesis by (auto simp: merkle_inner.simps [of h i_max])
  next
    case True
    let ?ids = "ids[i div 2 := h (ids ! i) (ids ! (i + 1))]"
    have le: "i + 2 \<le> i_max" using True less.prems by presburger
    have ih: "length (snd (merkle_inner h (i + 2) ((i + 2) div 2) i_max ?ids)) = length ?ids
     \<and> (\<forall>j. snd (merkle_inner h (i + 2) ((i + 2) div 2) i_max ?ids) ! j =
          (if (i + 2) div 2 \<le> j \<and> j < i_max div 2 then h (?ids ! (2 * j)) (?ids ! (2 * j + 1)) else ?ids ! j))"
      by (rule less.hyps) (use le less.prems in auto)
    have st: "merkle_inner h i (i div 2) i_max ids = merkle_inner h (i + 2) ((i + 2) div 2) i_max ?ids"
      using True by (simp add: merkle_inner.simps [of h i])
    have "2 * (i div 2) = i" "i div 2 < length ids" using less.prems(1,4) True by auto
    with ih le show ?thesis unfolding st by (auto simp: nth_list_update)
  qed
qed

lemma merkle_level_spec:
  fixes h :: "digest_type \<Rightarrow> digest_type \<Rightarrow> digest_type"
  assumes "1 < n" "n \<le> length ids"
  defines "ids' \<equiv> snd (merkle_inner h 0 0 (n - n mod 2) ids)"
  defines "ids'' \<equiv> (if n mod 2 = 1 then ids'[n div 2 := ids' ! (n - n mod 2)] else ids')"
  shows "length ids'' = length ids" "take ((n + 1) div 2) ids'' = pair_up h (take n ids)"
proof -
  have ev: "even (n - n mod 2)" "n - n mod 2 \<le> length ids" "(n - n mod 2) div 2 = n div 2"
    using assms(2) by presburger+
  have sp: "length ids' = length ids" "\<And>j. ids' ! j =
      (if j < n div 2 then h (ids ! (2 * j)) (ids ! (2 * j + 1)) else ids ! j)"
    using merkle_inner_spec [of 0 "n - n mod 2" ids h] ev by (auto simp: ids'_def)
  show len: "length ids'' = length ids" using sp(1) by (simp add: ids''_def)
  show "take ((n + 1) div 2) ids'' = pair_up h (take n ids)"
  proof (rule nth_equalityI)
    show "length (take ((n + 1) div 2) ids'') = length (pair_up h (take n ids))"
      using assms(2) len by simp
  next
    fix j assume "j < length (take ((n + 1) div 2) ids'')"
    then have j: "j < (n + 1) div 2" by simp
    show "take ((n + 1) div 2) ids'' ! j = pair_up h (take n ids) ! j"
    proof (cases "j < n div 2")
      case True
      with assms(2) sp j show ?thesis by (simp add: nth_pair_up ids''_def)
    next
      case False
      with j have odd: "odd n" "j = n div 2" "n mod 2 = 1" by presburger+
      then have "n div 2 \<le> n - 1" "n div 2 < length ids'" using assms(1,2) sp(1) by auto
      with odd assms(1,2) sp nth_pair_up_last [of "take n ids" h] show ?thesis
        by (simp add: ids''_def)
    qed
  qed
qed

lemma merkle_loop_ref:
  "0 < n \<Longrightarrow> n \<le> length ids \<Longrightarrow> merkle_loop h n ids ! 0 = merkle_ref h (take n ids)"
proof (induction n arbitrary: ids rule: less_induct)
  case (less n)
  show ?case
  proof (cases "1 < n")
    case False
    with less.prems have "n = 1" "ids \<noteq> []" by auto
    then show ?thesis by (cases ids) (simp_all add: merkle_loop.simps [of h] merkle_ref.simps)
  next
    case True
    let ?ids' = "snd (merkle_inner h 0 0 (n - n mod 2) ids)"
    let ?ids'' = "if n mod 2 = 1 then ?ids'[n div 2 := ?ids' ! (n - n mod 2)] else ?ids'"
    have k: "(n + 1) div 2 = (if n mod 2 = 1 then n div 2 + 1 else n div 2)" by presburger
    have "merkle_loop h n ids = merkle_loop h ((n + 1) div 2) ?ids''"
      using True by (subst merkle_loop.simps) (simp only: Let_def merkle_level_count k if_True split: if_split, simp)
    moreover note merkle_level_spec [OF True less.prems(2), of h]
    moreover have "(n + 1) div 2 < n" "0 < (n + 1) div 2" using True by presburger+
    ultimately have "merkle_loop h n ids ! 0 = merkle_ref h (pair_up h (take n ids))"
      using less.IH [of "(n + 1) div 2" ?ids''] less.prems by (simp del: take_eq_Nil)
    also have "\<dots> = merkle_ref h (take n ids)"
      using True less.prems by (subst (2) merkle_ref.simps) simp
    finally show ?thesis .
  qed
qed

text \<open>
  The pairs hashed on the way to the root; a Merkle root pins down the digests below it
  when no two of those pairs collide.
\<close>

fun level_inputs :: "'a list \<Rightarrow> ('a \<times> 'a) list" where
  "level_inputs (a # b # xs) = (a, b) # level_inputs xs"
| "level_inputs xs = []"

function merkle_inputs :: "('a \<Rightarrow> 'a \<Rightarrow> 'a) \<Rightarrow> 'a list \<Rightarrow> ('a \<times> 'a) list" where
  "merkle_inputs h xs =
     (if length xs > 1 then level_inputs xs @ merkle_inputs h (pair_up h xs) else [])"
  by pat_completeness auto
termination by (relation "measure (\<lambda>(h, xs). length xs)") auto

declare merkle_inputs.simps [simp del]

lemma pair_up_inject:
  "length xs = length ys \<Longrightarrow> pair_up h xs = pair_up h ys \<Longrightarrow>
     inj_on (\<lambda>(a, b). h a b) (set (level_inputs xs) \<union> set (level_inputs ys)) \<Longrightarrow> xs = ys"
proof (induction h xs arbitrary: ys rule: pair_up.induct)
  case (1 h a b xs)
  then obtain c d zs where ys: "ys = c # d # zs"
    by (metis length_0_conv length_Suc_conv)
  have "(a, b) = (c, d)"
    using 1(4) by (rule inj_onD) (use 1(3) ys in auto)
  moreover have "xs = zs"
    using 1(2-4) ys by (intro 1(1)) (auto intro: inj_on_subset)
  ultimately show ?case using ys by simp
qed (auto simp: length_Suc_conv dest!: sym [of "Suc 0"])

lemma merkle_ref_inject:
  "length xs = length ys \<Longrightarrow> xs \<noteq> [] \<Longrightarrow> merkle_ref h xs = merkle_ref h ys \<Longrightarrow>
     inj_on (\<lambda>(a, b). h a b) (set (merkle_inputs h xs) \<union> set (merkle_inputs h ys)) \<Longrightarrow> xs = ys"
proof (induction h xs arbitrary: ys rule: merkle_ref.induct)
  case (1 h xs)
  show ?case
  proof (cases "length xs > 1")
    case False
    with 1(2,3) obtain x y where "xs = [x]" "ys = [y]"
      by (cases xs; cases ys) auto
    with 1(4) show ?thesis by (simp add: merkle_ref.simps)
  next
    case True
    note u = merkle_ref.simps [of h] merkle_inputs.simps [of h xs] merkle_inputs.simps [of h ys]
    have "pair_up h xs = pair_up h ys"
    proof (rule 1(1) [OF True])
      show "length (pair_up h xs) = length (pair_up h ys)" using 1(2) by simp
      show "pair_up h xs \<noteq> []" using 1(3) by simp
      show "merkle_ref h (pair_up h xs) = merkle_ref h (pair_up h ys)"
        using 1(2,4) True by (metis merkle_ref.simps)
      show "inj_on (\<lambda>(a, b). h a b)
          (set (merkle_inputs h (pair_up h xs)) \<union> set (merkle_inputs h (pair_up h ys)))"
        using 1(5) by (rule inj_on_subset) (use True 1(2) u in auto)
    qed
    moreover have "inj_on (\<lambda>(a, b). h a b) (set (level_inputs xs) \<union> set (level_inputs ys))"
      using 1(5) by (rule inj_on_subset) (use True 1(2) u in auto)
    ultimately show ?thesis using pair_up_inject 1(2) by blast
  qed
qed

lemma merkle_root_nonempty:
  "txs \<noteq> [] \<Longrightarrow> calculate_merkle_root cr bc txs =
     checksum_hash bc (merkle_ref (pair_hash bc) (map (pack_merkle_digest cr) txs))"
  using merkle_loop_ref [of "length txs" "map (pack_merkle_digest cr) txs" "pair_hash bc"]
  by (simp add: calculate_merkle_root_def Let_def)

text \<open>
  C26: The in-place loop of \<^verbatim>\<open>calculate_merkle_root\<close> computes the recursive Merkle root:
  the checksum of the value obtained by hashing neighbours level by level and carrying an
  odd last element up, and the zero checksum for a block without transactions.
\<close>

theorem merkle_root_reference:
  "calculate_merkle_root cr bc txs =
     (if txs = [] then replicate 5 0
      else checksum_hash bc (merkle_ref (pair_hash bc) (map (pack_merkle_digest cr) txs)))"
  using merkle_root_nonempty [of txs cr bc] by (simp add: calculate_merkle_root_def)

text \<open>
  The Merkle root of a block binds the digests of its transactions: two non-empty transaction lists
  of the same length with the same root have the same digests in the same order, as long
  as no two of the values hashed for the two roots collide.
\<close>

lemma merkle_root_binds:
  assumes "length txs = length txs'" "txs \<noteq> []"
    and "calculate_merkle_root cr bc txs = calculate_merkle_root cr bc txs'"
    and "inj_on (\<lambda>(a, b). pair_hash bc a b)
          (set (merkle_inputs (pair_hash bc) (map (pack_merkle_digest cr) txs))
           \<union> set (merkle_inputs (pair_hash bc) (map (pack_merkle_digest cr) txs')))"
    and "inj_on (checksum_hash bc)
          {merkle_ref (pair_hash bc) (map (pack_merkle_digest cr) txs),
           merkle_ref (pair_hash bc) (map (pack_merkle_digest cr) txs')}"
  shows "map (pack_merkle_digest cr) txs = map (pack_merkle_digest cr) txs'"
proof (rule merkle_ref_inject)
  have "txs' \<noteq> []" using assms(1,2) by auto
  note ne = assms(2) this
  show "merkle_ref (pair_hash bc) (map (pack_merkle_digest cr) txs)
      = merkle_ref (pair_hash bc) (map (pack_merkle_digest cr) txs')"
  proof (rule inj_onD [OF assms(5)])
    show "checksum_hash bc (merkle_ref (pair_hash bc) (map (pack_merkle_digest cr) txs))
        = checksum_hash bc (merkle_ref (pair_hash bc) (map (pack_merkle_digest cr) txs'))"
      using assms(3) by (simp only: merkle_root_nonempty ne not_False_eq_True)
  qed simp_all
qed (use assms in auto)

definition example_block_crypto :: block_crypto where
  "example_block_crypto =
     \<lparr>header_digest = (\<lambda>_. replicate 8 0), header_sha224 = (\<lambda>_. replicate 7 5),
      recover_signee = (\<lambda>_ _. Inr 1),
      pair_hash = (\<lambda>a b. replicate (length a) 1 @ 0 # a @ b), checksum_hash = (\<lambda>d. d)\<rparr>"

definition example_trx_crypto :: trx_crypto where
  "example_trx_crypto =
     \<lparr>pack_digest = (\<lambda>t. replicate 8 (ref_block_prefix t)), pack_sig_digest = (\<lambda>c t. replicate 8 (ref_block_prefix t)),
      pack_merkle_digest = (\<lambda>t. replicate 8 (ref_block_prefix t)), recover_key = (\<lambda>s d. Inr (length s))\<rparr>"

definition example_trx :: "32 word \<Rightarrow> signed_transaction" where
  "example_trx n =
     \<lparr>ref_block_num = 0, ref_block_prefix = n, expiration = 60, operations = [], trx_extensions = [],
      signatures = [''s'']\<rparr>"

section \<open>Block ids and numbers\<close>

lemma and_ff: "x AND 0xFF = take_bit 8 (x :: 32 word)"
  by (simp add: take_bit_eq_mask mask_eq_exp_minus_1)

lemma bit_endian_reverse:
  "bit (endian_reverse_u32 x) n \<longleftrightarrow>
     (if n < 8 then bit x (n + 24) else if n < 16 then bit x (n + 8)
      else if n < 24 then bit x (n - 8) else n < 32 \<and> bit x (n - 24))"
  unfolding endian_reverse_u32_def and_ff
  by (auto simp: bit_or_iff bit_push_bit_iff bit_drop_bit_eq bit_take_bit_iff add.commute
      dest: bit_imp_le_length)

lemma endian_reverse_involution [simp]: "endian_reverse_u32 (endian_reverse_u32 x) = x"
proof (rule bit_word_eqI)
  fix n assume "n < LENGTH(32)"
  then consider "n < 8" | "8 \<le> n" "n < 16" | "16 \<le> n" "n < 24" | "24 \<le> n" "n < 32" by force
  then show "bit (endian_reverse_u32 (endian_reverse_u32 x)) n = bit x n"
  proof cases
    case 3
    then have "n - 8 < 16" "\<not> n - 8 < 8" by simp_all
    with 3 show ?thesis by (simp add: bit_endian_reverse)
  next
    case 4
    then have "n - 24 < 8" by simp
    with 4 show ?thesis by (simp add: bit_endian_reverse)
  qed (simp_all add: bit_endian_reverse)
qed

text \<open>
  The id of a block carries its number: whatever the hash function returns for the
  header, as long as it returns words at all, reading the number back from the id gives the
  successor of the number in the id of the previous block.
\<close>

theorem num_from_block_id:
  assumes "header_sha224 bc (signed_block_header.truncate b) \<noteq> []"
  shows "num_from_id (block_id bc b) = num_from_id (previous b) + 1"
  using assms by (cases "header_sha224 bc (signed_block_header.truncate b)")
    (simp_all add: num_from_id_def block_id_def block_num_def)

definition example_header :: signed_block_header where
  "example_header =
     \<lparr>previous = [0x01000000, 2, 3, 4, 5], timestamp = 30, bobserver = ''alice'',
      transaction_merkle_root = replicate 5 0, extensions = [], bobserver_signature = []\<rparr>"

theorem num_from_block_id_witness:
  "num_from_id (block_id example_block_crypto example_header) = num_from_id (previous example_header) + 1"
  by (rule num_from_block_id) (simp add: example_block_crypto_def)

section \<open>What a verified transaction has been granted\<close>

lemma set_insert_all [simp]: "set (insert_all names s) = set names \<union> set s"
  by (induction names arbitrary: s) (simp_all add: insert_all_def)

lemma insert_all_Nil_iff [simp]: "insert_all names s = [] \<longleftrightarrow> names = [] \<and> s = []"
  by (metis set_insert_all set_empty Un_empty)

lemma operation_required_sets:
  "set (required_active (operation_get_required_authorities op r)) =
     set (required_active (operation_get_required_authorities op no_required_authorities)) \<union> set (required_active r)"
  "set (required_owner (operation_get_required_authorities op r)) =
     set (required_owner (operation_get_required_authorities op no_required_authorities)) \<union> set (required_owner r)"
  "set (required_posting (operation_get_required_authorities op r)) =
     set (required_posting (operation_get_required_authorities op no_required_authorities)) \<union> set (required_posting r)"
  "set (required_other (operation_get_required_authorities op r)) =
     set (required_other (operation_get_required_authorities op no_required_authorities)) \<union> set (required_other r)"
  by (cases op; auto simp: need_active_def need_owner_def need_posting_def need_other_def
      no_required_authorities_def split: option.splits)+

definition op_requires :: "(required_authorities \<Rightarrow> 'a list) \<Rightarrow> operation \<Rightarrow> 'a set" where
  "op_requires sel op = set (sel (operation_get_required_authorities op no_required_authorities))"

lemma required_of_all:
  assumes "\<And>op r. set (sel (operation_get_required_authorities op r)) = op_requires sel op \<union> set (sel r)"
    and "set (sel no_required_authorities) = {}"
  shows "set (sel (get_required_authorities ops)) = (\<Union>op \<in> set ops. op_requires sel op)"
proof -
  have "set (sel (foldl (\<lambda>r op. operation_get_required_authorities op r) r ops))
      = (\<Union>op \<in> set ops. op_requires sel op) \<union> set (sel r)" for r
    by (induction ops arbitrary: r) (auto simp: assms(1))
  then show ?thesis by (simp add: get_required_authorities_def assms(2))
qed

lemma get_required_sets:
  "set (required_active (get_required_authorities ops)) = (\<Union>op \<in> set ops. op_requires required_active op)"
  "set (required_owner (get_required_authorities ops)) = (\<Union>op \<in> set ops. op_requires required_owner op)"
  "set (required_posting (get_required_authorities ops)) = (\<Union>op \<in> set ops. op_requires required_posting op)"
  "set (required_other (get_required_authorities ops)) = (\<Union>op \<in> set ops. op_requires required_other op)"
  by (rule required_of_all, rule operation_required_sets [folded op_requires_def],
      simp add: no_required_authorities_def)+

definition granted_via :: "authority_getter \<Rightarrow> authority_getter \<Rightarrow> public_key_type set \<Rightarrow> account_name_type set
    \<Rightarrow> account_name_type \<Rightarrow> bool" where
  "granted_via g get K A n \<longleftrightarrow> (\<exists>a. get n = Inr a \<and> granted g K A a)"

text \<open>Each check keeps the signature state sound, and a loop that requires checks proves them all.\<close>

lemma check_account_authority_sound:
  "check_account_authority g d n st = Inr (ok, st') \<Longrightarrow> state_sound g K A st \<Longrightarrow>
     state_sound g K A st' \<and> (ok \<longrightarrow> approved g K A n)"
proof (cases "n \<in> set (approved_by st)")
  case True
  assume "check_account_authority g d n st = Inr (ok, st')" "state_sound g K A st"
  with True show ?thesis by (auto simp: check_account_authority_def state_sound_def)
next
  case False
  assume "check_account_authority g d n st = Inr (ok, st')" and st: "state_sound g K A st"
  with False obtain a where "g n = Inr a" "check_authority_at g d a st = Inr (ok, st')"
    by (auto simp: check_account_authority_def result_simps)
  with check_authority_sound_aux(1) [OF _ st] show ?thesis by (auto simp: approved_def)
qed

lemma check_got_authority_sound:
  "state_sound g K A st \<Longrightarrow> check_got_authority g d get n st = Inr (ok, st') \<Longrightarrow>
     state_sound g K A st' \<and> (ok \<longrightarrow> granted_via g get K A n)"
  by (auto simp: granted_via_def check_got_authority_def result_simps dest!: check_authority_sound_aux(1) [where K = K and A = A])

lemma or_check_sound:
  assumes "or_check m k = Inr (ok, st')"
    and "\<And>b st1. m = Inr (b, st1) \<Longrightarrow> state_sound g K A st1 \<and> (b \<longrightarrow> P)"
    and "\<And>b st1 st2. state_sound g K A st1 \<Longrightarrow> k st1 = Inr (b, st2) \<Longrightarrow> state_sound g K A st2 \<and> (b \<longrightarrow> Q)"
  shows "state_sound g K A st' \<and> (ok \<longrightarrow> P \<or> Q)"
proof -
  from assms(1) obtain b st1 where m: "m = Inr (b, st1)"
    and rest: "(if b then Inr (True, st1) else k st1) = Inr (ok, st')"
    by (auto simp: or_check_def result_simps)
  show ?thesis using assms(2) [OF m] assms(3) [of st1 ok st'] rest by (cases b) auto
qed

lemma foldR_require_sound:
  assumes "foldR (\<lambda>st x. require_check e (chk st x)) st xs = Inr st'" "state_sound g K A st"
    and "\<And>x st b st1. chk st x = Inr (b, st1) \<Longrightarrow> state_sound g K A st \<Longrightarrow> state_sound g K A st1 \<and> (b \<longrightarrow> P x)"
  shows "state_sound g K A st' \<and> (\<forall>x \<in> set xs. P x)"
  using assms(1,2)
proof (induction xs arbitrary: st)
  case Nil
  then show ?case by simp
next
  case (Cons x xs)
  from Cons.prems(1) obtain st1 where c: "chk st x = Inr (True, st1)"
    "foldR (\<lambda>st x. require_check e (chk st x)) st1 xs = Inr st'"
    by (auto simp: require_check_def result_simps split: prod.splits)
  with assms(3) [OF c(1) Cons.prems(2)] Cons.IH [of st1] show ?case by auto
qed

lemma state_sound_initial:
  "state_sound g (set sigs) (set names \<union> {''temp''}) (approve_all names (mk_sign_state sigs []))"
proof -
  have "fst ` set (foldl (\<lambda>m k. flat_map_put k False m) m sigs) = fst ` set m \<union> set sigs" for m
    by (induction sigs arbitrary: m) (simp_all add: dom_flat_map_put)
  then show ?thesis
    by (simp add: state_sound_def mk_sign_state_def keys_of_def approved_def approve_all_def)
qed

lemma verify_posting_sound:
  assumes "verify_posting sigs ga go gp d appr names = Inr ()"
  shows "\<forall>n \<in> set names. approved gp (set sigs) (set appr \<union> {''temp''}) n
     \<or> granted_via gp ga (set sigs) (set appr \<union> {''temp''}) n
     \<or> granted_via gp go (set sigs) (set appr \<union> {''temp''}) n"
proof -
  let ?K = "set sigs" and ?A = "set appr \<union> {''temp''}"
  from assms obtain st' where run: "foldR (\<lambda>st n. require_check Tx_missing_posting_auth
           (or_check (check_account_authority gp d n st) (\<lambda>st.
            or_check (check_got_authority gp d ga n st) (\<lambda>st.
            check_got_authority gp d go n st))))
       (approve_all appr (mk_sign_state sigs [])) names = Inr st'"
    by (auto simp: verify_posting_def result_simps)
  have step: "state_sound gp ?K ?A st1 \<and> (b \<longrightarrow> approved gp ?K ?A n \<or> granted_via gp ga ?K ?A n \<or> granted_via gp go ?K ?A n)"
    if "or_check (check_account_authority gp d n st) (\<lambda>st. or_check (check_got_authority gp d ga n st)
          (\<lambda>st. check_got_authority gp d go n st)) = Inr (b, st1)" "state_sound gp ?K ?A st" for n st b st1
    using that(1)
  proof (rule or_check_sound)
    show "state_sound gp ?K ?A st1 \<and> (b \<longrightarrow> approved gp ?K ?A n)"
      if "check_account_authority gp d n st = Inr (b, st1)" for b st1
      using check_account_authority_sound [OF that \<open>state_sound gp ?K ?A st\<close>] .
    show "state_sound gp ?K ?A st2 \<and> (b \<longrightarrow> granted_via gp ga ?K ?A n \<or> granted_via gp go ?K ?A n)"
      if st1: "state_sound gp ?K ?A st1" and
        oc: "or_check (check_got_authority gp d ga n st1) (check_got_authority gp d go n) = Inr (b, st2)"
      for b st1 st2
      using oc by (rule or_check_sound) (erule check_got_authority_sound [OF st1], erule (1) check_got_authority_sound)
  qed
  have "state_sound gp ?K ?A st' \<and> (\<forall>n \<in> set names. approved gp ?K ?A n \<or> granted_via gp ga ?K ?A n
      \<or> granted_via gp go ?K ?A n)"
    using run state_sound_initial by (rule foldR_require_sound) (rule step)
  then show ?thesis ..
qed

lemma verify_active_owner_sound:
  assumes "verify_active_owner sigs ga go d aa oa r = Inr ()"
  defines "K \<equiv> set sigs" and "A \<equiv> set oa \<union> (set aa \<union> {''temp''})"
  shows "(\<forall>a \<in> set (required_other r). granted ga K A a)
     \<and> (\<forall>n \<in> set (required_active r). approved ga K A n \<or> granted_via ga go K A n)
     \<and> (\<forall>n \<in> set (required_owner r). n \<in> set oa \<or> granted_via ga go K A n)"
proof -
  let ?S = "state_sound ga K A"
  have start: "?S (approve_all oa (approve_all aa (mk_sign_state sigs [])))"
    using state_sound_initial [of ga sigs "oa @ aa"]
    by (simp add: state_sound_def approve_all_def keys_of_def K_def A_def Un_assoc)
  from assms(1) obtain st1 st2 st3 where
    oth: "foldR (\<lambda>st a. require_check Tx_missing_other_auth (check_authority_at ga d a st))
       (approve_all oa (approve_all aa (mk_sign_state sigs []))) (required_other r) = Inr st1" and
    act: "foldR (\<lambda>st n. require_check Tx_missing_active_auth
           (or_check (check_account_authority ga d n st) (\<lambda>st. check_got_authority ga d go n st)))
       st1 (required_active r) = Inr st2" and
    own: "foldR (\<lambda>st n. require_check Tx_missing_owner_auth
           (if n \<in> set oa then Inr (True, st) else check_got_authority ga d go n st))
       st2 (required_owner r) = Inr st3"
    by (auto simp: verify_active_owner_def result_simps)
  have 1: "?S st1 \<and> (\<forall>a \<in> set (required_other r). granted ga K A a)"
    using oth start by (rule foldR_require_sound) (rule check_authority_sound_aux(1))
  have active: "?S st' \<and> (b \<longrightarrow> approved ga K A n \<or> granted_via ga go K A n)"
    if oc: "or_check (check_account_authority ga d n st) (\<lambda>st. check_got_authority ga d go n st) = Inr (b, st')"
      and st: "?S st" for n st b st'
    using oc by (rule or_check_sound)
      (erule check_account_authority_sound [OF _ st], erule (1) check_got_authority_sound)
  have 2: "?S st2 \<and> (\<forall>n \<in> set (required_active r). approved ga K A n \<or> granted_via ga go K A n)"
    using act conjunct1 [OF 1] by (rule foldR_require_sound) (rule active)
  have owner: "?S st' \<and> (b \<longrightarrow> n \<in> set oa \<or> granted_via ga go K A n)"
    if "(if n \<in> set oa then Inr (True, st) else check_got_authority ga d go n st) = Inr (b, st')"
      and "?S st" for n st b st'
    using that check_got_authority_sound [OF that(2), of d go n b st'] by (cases "n \<in> set oa") auto
  have "?S st3 \<and> (\<forall>n \<in> set (required_owner r). n \<in> set oa \<or> granted_via ga go K A n)"
    using own conjunct1 [OF 2] by (rule foldR_require_sound) (rule owner)
  with 1 2 show ?thesis by blast
qed


definition example_transfer :: transfer_operation where
  "example_transfer = \<lparr>tr_from = ''alice'', tr_to = ''bob'', tr_amount = \<lparr>amount = 5, symbol = SGT_SYMBOL\<rparr>, tr_memo = []\<rparr>"

lemmas verify_eval = verify_authority_def get_required_authorities_def example_transfer_def need_active_def
  no_required_authorities_def insert_all_def flat_set_insert_def verify_active_owner_def
  require_check_def or_check_def check_account_authority_def approve_all_def mk_sign_state_def
  check_authority_at.simps example_getter_def signed_by_def add_weight_def require_no_unused_def
  remove_unused_signatures_def check_got_authority_def


text \<open>
  No operation is free: an operation that passes its stateless validation is not
  virtual and needs the authority of at least one account or an authority it lists.
\<close>

theorem validated_operation_needs_authority:
  assumes "operation_validate tc op = Inr ()"
  shows "\<not> is_virtual_operation op \<and>
    (op_requires required_active op \<noteq> {} \<or> op_requires required_owner op \<noteq> {}
     \<or> op_requires required_posting op \<noteq> {} \<or> op_requires required_other op \<noteq> {})"
proof -
  note need = op_requires_def need_active_def need_owner_def need_posting_def need_other_def
    no_required_authorities_def
  show ?thesis
  proof (cases op)
    case (Account_update o')
    then show ?thesis by (cases "au_owner o'") (simp_all add: need)
  next
    case (Set_reset_account o')
    then show ?thesis by (cases "sr_current_reset_account o'") (simp_all add: need)
  next
    case (Custom o')
    with assms show ?thesis by (simp add: need custom_validate_def result_simps)
  next
    case (Custom_json o')
    with assms show ?thesis by (auto simp: need custom_json_validate_def result_simps)
  next
    case (Custom_binary o')
    with assms show ?thesis by (auto simp: need custom_binary_validate_def result_simps)
  next
    case (Custom_json_dapp o')
    with assms show ?thesis by (auto simp: need custom_json_dapp_validate_def result_simps)
  qed (use assms in \<open>simp_all add: need\<close>)
qed

theorem validated_operation_needs_authority_witness:
  "is_virtual_operation (Transfer example_transfer) = False \<and> (\<exists>n. n \<in> op_requires required_active (Transfer example_transfer))"
proof -
  have "operation_validate \<lparr>is_utf8 = (\<lambda>_. True), is_json = (\<lambda>_. True)\<rparr> (Transfer example_transfer) = Inr ()"
    by (simp add: transfer_validate_def validate_account_name_def name_eval example_transfer_def is_valid_account_name_def
        Let_def upt_rec is_letter_def is_let_dig_def validate_memo_def SIGMAENGINE_MIN_ACCOUNT_NAME_LENGTH_def
        SIGMAENGINE_MAX_ACCOUNT_NAME_LENGTH_def SIGMAENGINE_MAX_MEMO_SIZE_def)
  from validated_operation_needs_authority [OF this]
  show ?thesis by (auto simp: op_requires_def need_active_def no_required_authorities_def)
qed

lemma used_available_wf: "sorted (used_available avail st) \<and> distinct (used_available avail st)"
proof -
  have "sorted res \<Longrightarrow> distinct res \<Longrightarrow>
      sorted (foldl (\<lambda>res k. if k \<in> set avail then flat_set_insert k res else res) res ks)
      \<and> distinct (foldl (\<lambda>res k. if k \<in> set avail then flat_set_insert k res else res) res ks)" for res ks
    by (induction ks arbitrary: res) (simp_all add: flat_set_insert_wf)
  then show ?thesis by (simp add: used_available_def)
qed

lemma try_without_step:
  assumes "sorted res" "distinct res" "verify res = Inr ()" "try_without verify res k = Inr res'"
  shows "sorted res'" "distinct res'" "verify res' = Inr ()" "set res' \<subseteq> set res"
proof -
  let ?less = "filter (\<lambda>x. x \<noteq> k) res"
  consider "verify ?less = Inr ()" "res' = ?less" | e where "verify ?less = Inl e" "res' = flat_set_insert k ?less"
    using assms(4) by (auto simp: try_without_def split: sum.splits if_splits)
  then have "res' = ?less \<and> verify res' = Inr () \<or> res' = res"
  proof cases
    case 2
    then have "k \<in> set res" using assms(3) by (metis (mono_tags, lifting) filter_True Inl_Inr_False)
    then have "set (flat_set_insert k ?less) = set res" by auto
    with flat_set_insert_wf [of ?less k] assms(1,2) 2 show ?thesis
      by (metis sorted_wrt_filter sorted_distinct_set_unique distinct_filter)
  qed simp
  with assms show "sorted res'" "distinct res'" "verify res' = Inr ()" "set res' \<subseteq> set res"
    by (auto simp: sorted_wrt_filter)
qed

lemma get_required_signatures_wf:
  "get_required_signatures cr chain_id trx avail ga go gp d = Inr s \<Longrightarrow> sorted s \<and> distinct s"
  using used_available_wf [of avail]
  by (auto simp: get_required_signatures_def Let_def result_simps split: if_splits)

text \<open>
  Minimising the signatures of a transaction keeps them sufficient: when the keys
  found by \<^verbatim>\<open>get_required_signatures\<close> satisfy the transaction, so does every set of keys
  that \<^verbatim>\<open>minimize_required_signatures\<close> returns, and it is a subset of them.
\<close>

theorem minimize_required_signatures_sufficient:
  assumes "get_required_signatures cr chain_id trx avail ga go gp d = Inr s"
    and "verify_authority (operations trx) s ga go gp d [] [] [] = Inr ()"
    and "minimize_required_signatures cr chain_id trx avail ga go gp d = Inr s'"
  shows "verify_authority (operations trx) s' ga go gp d [] [] [] = Inr () \<and> set s' \<subseteq> set s"
proof -
  let ?verify = "\<lambda>keys. verify_authority (operations trx) keys ga go gp d [] [] []"
  let ?I = "\<lambda>res. sorted res \<and> distinct res \<and> ?verify res = Inr () \<and> set res \<subseteq> set s"
  have start: "?I s" using get_required_signatures_wf [OF assms(1)] assms(2) by simp
  have run: "foldR (try_without ?verify) s s = Inr s'"
    using assms(1,3) by (simp add: minimize_required_signatures_def)
  have step: "?I res'" if "?I res" "try_without ?verify res k = Inr res'" for k res res'
    using that try_without_step [of res ?verify k res'] by (simp only: subset_trans simp_thms) (meson subset_trans)
  have "?I s'" using step start run by (rule foldR_invariant [where I = ?I])
  then show ?thesis by simp
qed

theorem minimize_required_signatures_sufficient_witness:
  "\<exists>s'. verify_authority [Transfer example_transfer] s' example_getter example_getter example_getter (Suc 1) [] [] []
       = Inr () \<and> set s' \<subseteq> {7, 9}"
proof -
  let ?trx = "(example_trx 1)\<lparr>operations := [Transfer example_transfer], signatures := []\<rparr>"
  have req: "get_required_signatures example_trx_crypto [] ?trx [7, 9] example_getter example_getter example_getter
      (Suc 1) = Inr [7, 9]"
    by (simp add: get_required_signatures_def get_signature_keys_def ignore_check_def used_available_def verify_eval, auto)
  have ops: "operations ?trx = [Transfer example_transfer]" by simp
  have all: "verify_authority (operations ?trx) [7, 9] example_getter example_getter example_getter (Suc 1) [] [] [] = Inr ()"
    unfolding ops by (simp add: verify_eval)
  have some: "verify_authority (operations ?trx) [9] example_getter example_getter example_getter (Suc 1) [] [] []
        = Inl Tx_missing_active_auth"
    "verify_authority (operations ?trx) [7] example_getter example_getter example_getter (Suc 1) [] [] []
        = Inl Tx_missing_active_auth"
    unfolding ops by (simp_all add: verify_eval)
  have "minimize_required_signatures example_trx_crypto [] ?trx [7, 9] example_getter example_getter example_getter
      (Suc 1) = Inr [7, 9]"
    using some by (simp add: minimize_required_signatures_def req [simplified] try_without_def is_missing_auth_def flat_set_insert_def)
  from minimize_required_signatures_sufficient [OF req all this] ops show ?thesis by auto
qed

end
