(* ===== verification/Tables.thy ===== *)
theory Tables
  imports Transaction Chainbase
begin

text \<open>
  Tables: what a chainbase index shows of its objects. The operations on tables are what creating, modifying and
  removing objects in an index do to its content, and the lemmas say how sums over a table and its
  well-formedness move with them.

  A table lists its objects in the order of ids; a reference to an object is its id.
\<close>

section \<open>Tables\<close>

record 'a table =
  tb_next :: nat
  tb_rows :: "'a list"

definition empty_table :: "'a table" where
  "empty_table = \<lparr>tb_next = 0, tb_rows = []\<rparr>"

definition table_create :: "('a \<Rightarrow> 'a \<Rightarrow> bool) \<Rightarrow> (nat \<Rightarrow> 'a) \<Rightarrow> 'a table \<Rightarrow> 'a table result" where
  "table_create clash c t =
     (let v = c (tb_next t) in
      guardR (list_all (\<lambda>w. \<not> clash v w) (tb_rows t)) Uniqueness_violated (
      Inr \<lparr>tb_next = tb_next t + 1, tb_rows = tb_rows t @ [v]\<rparr>))"

definition table_modify :: "('a \<Rightarrow> nat) \<Rightarrow> nat \<Rightarrow> ('a \<Rightarrow> 'a) \<Rightarrow> 'a table \<Rightarrow> 'a table" where
  "table_modify idf i f t = t\<lparr>tb_rows := modify_where (\<lambda>r. idf r = i) f (tb_rows t)\<rparr>"

definition table_remove :: "('a \<Rightarrow> nat) \<Rightarrow> nat \<Rightarrow> 'a table \<Rightarrow> 'a table" where
  "table_remove idf i t = t\<lparr>tb_rows := remove_where (\<lambda>r. idf r = i) (tb_rows t)\<rparr>"

definition table_find :: "('a \<Rightarrow> bool) \<Rightarrow> 'a table \<Rightarrow> 'a option" where
  "table_find P t = find P (tb_rows t)"

definition table_get :: "('a \<Rightarrow> bool) \<Rightarrow> 'a table \<Rightarrow> 'a result" where
  "table_get P t = of_option Unknown_key (table_find P t)"

definition no_unique_key :: "'a \<Rightarrow> 'a \<Rightarrow> bool" where
  "no_unique_key a b = False"

text \<open>A \<^verbatim>\<open>double\<close> is the number its 64 bits spell; its arithmetic is a parameter.\<close>

type_synonym double = nat

section \<open>Tables and chainbase indexes\<close>

text \<open>
  A table is what an index shows: creating, modifying and removing in an index does to its
  table what the table operations do, so the undo theorems of the index apply to the
  tables of the database.
\<close>

definition table_of :: "'a generic_index \<Rightarrow> 'a table" where
  "table_of ix = \<lparr>tb_next = ix_next_id ix, tb_rows = map snd (ix_indices ix)\<rparr>"

definition ids_match :: "('a \<Rightarrow> nat) \<Rightarrow> 'a generic_index \<Rightarrow> bool" where
  "ids_match idf ix \<longleftrightarrow> (\<forall>(i, v) \<in> set (ix_indices ix). idf v = i \<and> i < ix_next_id ix)
     \<and> wf_flat (map fst (ix_indices ix))"

lemma flat_map_put_last: "(\<And>j. j \<in> fst ` set m \<Longrightarrow> j < k) \<Longrightarrow> flat_map_put k v m = m @ [(k, v)]"
proof (induction k v m rule: flat_map_put.induct)
  case (2 k v k' v' m)
  then have "k' < k" by auto
  then have "k \<noteq> k'" "\<not> k < k'" by auto
  with 2 show ?case by auto
qed simp

lemma table_of_emplace:
  assumes "ids_match idf ix" "emplace clash c ix = Inr (i, ix')"
  shows "table_create clash c (table_of ix) = Inr (table_of ix')"
proof -
  have "flat_map_put (ix_next_id ix) v (ix_indices ix) = ix_indices ix @ [(ix_next_id ix, v)]" for v
    using assms(1) by (intro flat_map_put_last) (auto simp: ids_match_def)
  with assms(2) show ?thesis
    by (auto simp: emplace_def Let_def result_simps table_create_def table_of_def no_clash_def list_all_iff)
qed

lemma flat_map_put_present:
  "wf_flat (map fst m) \<Longrightarrow> map_of m k = Some w \<Longrightarrow>
     flat_map_put k v m = map (\<lambda>x. if fst x = k then (k, v) else x) m"
proof (induction k v m rule: flat_map_put.induct)
  case (2 k v k' v' m)
  show ?case
  proof (cases "k = k'")
    case True
    then have "k \<notin> fst ` set m" using 2(2) by (auto simp: wf_flat_def)
    then have "map (\<lambda>x. if fst x = k then (k, v) else x) m = m" by (intro map_idI) auto
    with True show ?thesis by simp
  next
    case False
    then have "map_of m k = Some w" using 2(3) by simp
    then have "k \<in> fst ` set m" by (metis domI dom_map_of_conv_image_fst)
    then have "\<not> k < k'" using 2(2) by (auto simp: wf_flat_def)
    with False 2 \<open>map_of m k = Some w\<close> show ?thesis by (auto simp: wf_flat_def)
  qed
qed auto

lemma table_of_modify:
  assumes "ids_match idf ix" "modify clash i f ix = Inr ix'"
  shows "table_modify idf i f (table_of ix) = table_of ix'"
proof -
  from assms(2) obtain w where w: "map_of (ix_indices ix) i = Some w"
    and ix': "ix_indices ix' = flat_map_put i (f w) (ix_indices ix)" "ix_next_id ix' = ix_next_id ix"
    by (auto simp: modify_def result_simps)
  have d: "distinct (map fst (ix_indices ix))" using assms(1) by (simp add: ids_match_def wf_flat_def)
  have "map (\<lambda>x. if fst x = i then (i, f w) else x) (ix_indices ix)
      = map (\<lambda>x. if fst x = i then (i, f (snd x)) else x) (ix_indices ix)"
  proof (rule map_cong [OF refl])
    fix x assume "x \<in> set (ix_indices ix)"
    then have "map_of (ix_indices ix) (fst x) = Some (snd x)" using map_of_is_SomeI [OF d] by simp
    then have "fst x = i \<Longrightarrow> snd x = w" using w by simp
    then show "(if fst x = i then (i, f w) else x) = (if fst x = i then (i, f (snd x)) else x)" by simp
  qed
  then have rows: "ix_indices ix' = map (\<lambda>x. if fst x = i then (i, f (snd x)) else x) (ix_indices ix)"
    using ix'(1) flat_map_put_present [OF _ w] assms(1) by (simp add: ids_match_def)
  have "map snd (ix_indices ix') = modify_where (\<lambda>r. idf r = i) f (map snd (ix_indices ix))"
    unfolding rows modify_where_def map_map
    by (rule map_cong [OF refl]) (use assms(1) in \<open>auto simp: ids_match_def\<close>)
  then show ?thesis by (simp add: table_modify_def table_of_def ix'(2))
qed

lemma table_of_remove:
  assumes "ids_match idf ix" "remove i ix = Inr ix'"
  shows "table_remove idf i (table_of ix) = table_of ix'"
proof -
  have "map snd (filter (\<lambda>x. fst x \<noteq> i) xs) = filter (\<lambda>r. idf r \<noteq> i) (map snd xs)"
    if "\<forall>(j, v) \<in> set xs. idf v = j" for xs
    using that by (induction xs) auto
  moreover have "\<forall>(j, v) \<in> set (ix_indices ix). idf v = j" using assms(1) by (auto simp: ids_match_def)
  ultimately show ?thesis using assms(2)
    by (auto simp: remove_def result_simps table_remove_def table_of_def flat_map_erase_def remove_where_def)
qed

section \<open>Well-formed tables\<close>

definition wf_table :: "('a \<Rightarrow> nat) \<Rightarrow> 'a table \<Rightarrow> bool" where
  "wf_table idf t \<longleftrightarrow> distinct (map idf (tb_rows t)) \<and> (\<forall>i \<in> set (map idf (tb_rows t)). i < tb_next t)"

lemma table_get_mem: "table_get P t = Inr r \<Longrightarrow> r \<in> set (tb_rows t) \<and> P r"
  by (auto simp: table_get_def table_find_def result_simps dest: find_Some_mem)

lemma wf_table_modify:
  "(\<And>r. idf (f r) = idf r) \<Longrightarrow> wf_table idf (table_modify idf i f t) \<longleftrightarrow> wf_table idf t"
  by (simp add: wf_table_def table_modify_def map_modify_where del: set_map)

lemma wf_table_create:
  assumes "wf_table idf t" "table_create clash c t = Inr t'" "\<And>i. idf (c i) = i"
  shows "wf_table idf t' \<and> tb_rows t' = tb_rows t @ [c (tb_next t)] \<and> (\<forall>w \<in> set (tb_rows t). \<not> clash (c (tb_next t)) w)"
proof -
  have fresh: "tb_next t \<notin> idf ` set (tb_rows t)" using assms(1) by (force simp: wf_table_def)
  have t': "t' = \<lparr>tb_next = tb_next t + 1, tb_rows = tb_rows t @ [c (tb_next t)]\<rparr>"
    "\<forall>w \<in> set (tb_rows t). \<not> clash (c (tb_next t)) w"
    using assms(2) by (auto simp: table_create_def Let_def result_simps list_all_iff)
  have "wf_table idf t'" using assms(1,3) fresh by (simp add: wf_table_def t'(1) less_SucI)
  with t' show ?thesis by simp
qed

lemma wf_table_remove: "wf_table idf t \<Longrightarrow> wf_table idf (table_remove idf i t)"
  by (simp add: wf_table_def table_remove_def distinct_map_remove_where)

lemma table_modify_sum:
  fixes g :: "'a \<Rightarrow> int"
  assumes "wf_table idf t" "r \<in> set (tb_rows t)" "idf r = i"
  shows "sum_list (map g (tb_rows (table_modify idf i f t))) = sum_list (map g (tb_rows t)) - g r + g (f r)"
  using sum_list_modify_where_id [of idf "tb_rows t" r g f] assms
  by (simp add: wf_table_def table_modify_def)

lemma table_remove_sum:
  fixes g :: "'a \<Rightarrow> int"
  assumes "wf_table idf t" "r \<in> set (tb_rows t)" "idf r = i"
  shows "sum_list (map g (tb_rows (table_remove idf i t))) = sum_list (map g (tb_rows t)) - g r"
  using sum_list_remove_where_id [of idf "tb_rows t" r g] assms
  by (simp add: wf_table_def table_remove_def)

lemma table_modify_map:
  "(\<And>r. g (f r) = g r) \<Longrightarrow> map g (tb_rows (table_modify idf i f t)) = map g (tb_rows t)"
  by (simp add: table_modify_def map_modify_where)

end
