(* ===== verification/Plugin_Objects.thy ===== *)
theory Plugin_Objects
  imports Tables
begin

text \<open>
  The objects that the dapp, token and bobserver plugins keep in indexes of their own beside the consensus
  state, from \<^verbatim>\<open>dapp_objects.hpp\<close>, \<^verbatim>\<open>token_objects.hpp\<close> and \<^verbatim>\<open>bobserver_objects.hpp\<close>, with their unique keys,
  and the tables that hold them. The memos and comment texts are kept, as in a build without \<^verbatim>\<open>IS_LOW_MEM\<close>.
\<close>

section \<open>Dapps\<close>

type_synonym dapp_state_type = "8 word"

definition PENDING :: dapp_state_type where "PENDING = 101"
definition APPROVAL :: dapp_state_type where "APPROVAL = 102"
definition REJECTION :: dapp_state_type where "REJECTION = 103"

type_synonym comment_vote_type = "16 word"

definition LIKE :: comment_vote_type where "LIKE = 11"
definition DISLIKE :: comment_vote_type where "DISLIKE = 12"

record dapp_object =
  dap_id :: nat
  dap_name :: string
  dap_owner :: account_name_type
  dap_key :: public_key_type
  dap_state :: dapp_state_type
  dap_created :: time_point_sec
  dap_last_updated :: time_point_sec

record dapp_comment_object =
  com_id :: nat
  com_dapp_name :: string
  com_category :: string
  com_parent_author :: account_name_type
  com_parent_permlink :: string
  com_author :: account_name_type
  com_permlink :: string
  com_title :: string
  com_body :: string
  com_json_metadata :: string
  com_last_update :: time_point_sec
  com_created :: time_point_sec
  com_active :: time_point_sec
  com_depth :: "16 word"
  com_children :: "32 word"
  com_like_count :: "32 word"
  com_dislike_count :: "32 word"
  com_view_count :: "64 word"
  com_root_comment :: nat
  com_allow_replies :: bool
  com_allow_votes :: bool

definition new_comment :: "nat \<Rightarrow> dapp_comment_object" where
  "new_comment i =
     \<lparr>com_id = i, com_dapp_name = [], com_category = [], com_parent_author = [], com_parent_permlink = [], com_author = [],
      com_permlink = [], com_title = [], com_body = [], com_json_metadata = [], com_last_update = 0, com_created = 0,
      com_active = 0, com_depth = 0, com_children = 0, com_like_count = 0, com_dislike_count = 0, com_view_count = 0,
      com_root_comment = 0, com_allow_replies = True, com_allow_votes = True\<rparr>"

record dapp_comment_vote_object =
  cvo_id :: nat
  cvo_dapp_name :: string
  cvo_voter :: nat
  cvo_comment :: nat
  cvo_vote_type :: comment_vote_type
  cvo_last_update :: time_point_sec

record dapp_user_object =
  usr_id :: nat
  usr_dapp_id :: nat
  usr_dapp_name :: string
  usr_account_id :: nat
  usr_account_name :: account_name_type
  usr_join_date_time :: time_point_sec

record dapp_vote_object =
  dvt_id :: nat
  dvt_dapp_name :: string
  dvt_voter :: account_name_type
  dvt_vote :: dapp_state_type
  dvt_last_update :: time_point_sec

record dapp_trx_fee_vote_object =
  dfv_id :: nat
  dfv_voter :: account_name_type
  dfv_trx_fee :: asset
  dfv_last_update :: time_point_sec

section \<open>Tokens\<close>

record token_object =
  tkn_id :: nat
  tkn_name :: string
  tkn_symbol :: asset_symbol_type
  tkn_publisher :: account_name_type
  tkn_dapp_name :: string
  tkn_init_supply :: asset
  tkn_total_balance :: asset
  tkn_created :: time_point_sec
  tkn_last_updated :: time_point_sec

record token_balance_object =
  tbl_id :: nat
  tbl_account :: account_name_type
  tbl_token :: string
  tbl_balance :: asset
  tbl_savings_balance :: asset
  tbl_last_updated :: time_point_sec

record token_fund_object =
  tfn_id :: nat
  tfn_token :: string
  tfn_fund_name :: string
  tfn_balance :: asset
  tfn_withdraw_balance :: asset
  tfn_created :: time_point_sec
  tfn_last_updated :: time_point_sec

record token_staking_interest_object =
  tsi_id :: nat
  tsi_token :: string
  tsi_month :: "8 word"
  tsi_percent_interest_rate :: "64 word"
  tsi_created :: time_point_sec
  tsi_last_updated :: time_point_sec

record token_fund_withdraw_object =
  tfw_id :: nat
  tfw_from :: account_name_type
  tfw_token :: string
  tfw_fund_name :: string
  tfw_memo :: string
  tfw_request_id :: nat
  tfw_amount :: asset
  tfw_complete :: time_point_sec
  tfw_created :: time_point_sec

record token_savings_withdraw_object =
  tsw_id :: nat
  tsw_from :: account_name_type
  tsw_to :: account_name_type
  tsw_token :: string
  tsw_request_id :: nat
  tsw_amount :: asset
  tsw_total_amount :: asset
  tsw_memo :: string
  tsw_split_pay_order :: "8 word"
  tsw_split_pay_month :: "8 word"
  tsw_next_date :: time_point_sec
  tsw_created :: time_point_sec
  tsw_last_updated :: time_point_sec

section \<open>The bobserver plugin\<close>

record content_edit_lock_object =
  cel_id :: nat
  cel_account :: account_name_type
  cel_lock_time :: time_point_sec

text \<open>The averages are signed integers of 32 and 64 bits.\<close>

record reserve_ratio_object =
  rro_average_block_size :: int
  rro_current_reserve_ratio :: int

section \<open>Unique keys\<close>

definition dapp_clash :: "dapp_object \<Rightarrow> dapp_object \<Rightarrow> bool" where
  "dapp_clash a b \<longleftrightarrow> dap_name a = dap_name b"

definition comment_clash :: "dapp_comment_object \<Rightarrow> dapp_comment_object \<Rightarrow> bool" where
  "comment_clash a b \<longleftrightarrow> com_dapp_name a = com_dapp_name b \<and> com_author a = com_author b
     \<and> c_str (com_permlink a) = c_str (com_permlink b)"

text \<open>
  \<^verbatim>\<open>by_comment_voter\<close>, \<^verbatim>\<open>by_voter_comment\<close> and \<^verbatim>\<open>by_vote_type\<close> are unique in the comment, the voter, the kind and the time of
  a vote; \<^verbatim>\<open>by_voter_last_update\<close> is unique in the dapp, the voter, the time and the comment.
\<close>

definition comment_vote_clash :: "dapp_comment_vote_object \<Rightarrow> dapp_comment_vote_object \<Rightarrow> bool" where
  "comment_vote_clash a b \<longleftrightarrow> cvo_voter a = cvo_voter b \<and> cvo_comment a = cvo_comment b \<and> cvo_last_update a = cvo_last_update b
     \<and> (cvo_vote_type a = cvo_vote_type b \<or> cvo_dapp_name a = cvo_dapp_name b)"

definition user_clash :: "dapp_user_object \<Rightarrow> dapp_user_object \<Rightarrow> bool" where
  "user_clash a b \<longleftrightarrow> usr_dapp_name a = usr_dapp_name b \<and> usr_account_name a = usr_account_name b
     \<and> usr_join_date_time a = usr_join_date_time b"

definition dapp_vote_clash :: "dapp_vote_object \<Rightarrow> dapp_vote_object \<Rightarrow> bool" where
  "dapp_vote_clash a b \<longleftrightarrow> dvt_dapp_name a = dvt_dapp_name b \<and> dvt_voter a = dvt_voter b"

definition fee_vote_clash :: "dapp_trx_fee_vote_object \<Rightarrow> dapp_trx_fee_vote_object \<Rightarrow> bool" where
  "fee_vote_clash a b \<longleftrightarrow> dfv_voter a = dfv_voter b"

definition token_clash :: "token_object \<Rightarrow> token_object \<Rightarrow> bool" where
  "token_clash a b \<longleftrightarrow> tkn_name a = tkn_name b \<or> tkn_symbol a = tkn_symbol b"

definition token_balance_clash :: "token_balance_object \<Rightarrow> token_balance_object \<Rightarrow> bool" where
  "token_balance_clash a b \<longleftrightarrow> tbl_account a = tbl_account b \<and> tbl_token a = tbl_token b"

definition token_fund_clash :: "token_fund_object \<Rightarrow> token_fund_object \<Rightarrow> bool" where
  "token_fund_clash a b \<longleftrightarrow> tfn_token a = tfn_token b \<and> tfn_fund_name a = tfn_fund_name b"

definition token_interest_clash :: "token_staking_interest_object \<Rightarrow> token_staking_interest_object \<Rightarrow> bool" where
  "token_interest_clash a b \<longleftrightarrow> tsi_token a = tsi_token b \<and> tsi_month a = tsi_month b"

definition token_fund_withdraw_clash :: "token_fund_withdraw_object \<Rightarrow> token_fund_withdraw_object \<Rightarrow> bool" where
  "token_fund_withdraw_clash a b \<longleftrightarrow> tfw_from a = tfw_from b \<and> tfw_token a = tfw_token b \<and> tfw_fund_name a = tfw_fund_name b
     \<and> tfw_request_id a = tfw_request_id b"

definition token_savings_clash :: "token_savings_withdraw_object \<Rightarrow> token_savings_withdraw_object \<Rightarrow> bool" where
  "token_savings_clash a b \<longleftrightarrow> tsw_token a = tsw_token b \<and> tsw_from a = tsw_from b \<and> tsw_to a = tsw_to b
     \<and> tsw_request_id a = tsw_request_id b"

definition edit_lock_clash :: "content_edit_lock_object \<Rightarrow> content_edit_lock_object \<Rightarrow> bool" where
  "edit_lock_clash a b \<longleftrightarrow> cel_account a = cel_account b"

section \<open>The tables\<close>

text \<open>
  \<open>pl_savings_order\<close> is the index \<^verbatim>\<open>by_savings_next_date\<close>, the ids in its order: among equal dates it keeps
  the order of insertion, which a request that has been moved to a later date takes part in anew.
  \<open>pl_reserve_ratio\<close> is the object with id 0 of its index, the only one.
\<close>

record plugin_db =
  pl_dapps :: "dapp_object table"
  pl_comments :: "dapp_comment_object table"
  pl_comment_votes :: "dapp_comment_vote_object table"
  pl_users :: "dapp_user_object table"
  pl_dapp_votes :: "dapp_vote_object table"
  pl_fee_votes :: "dapp_trx_fee_vote_object table"
  pl_tokens :: "token_object table"
  pl_balances :: "token_balance_object table"
  pl_funds :: "token_fund_object table"
  pl_interests :: "token_staking_interest_object table"
  pl_fund_withdraws :: "token_fund_withdraw_object table"
  pl_savings :: "token_savings_withdraw_object table"
  pl_savings_order :: "nat list"
  pl_edit_locks :: "content_edit_lock_object table"
  pl_reserve_ratio :: "reserve_ratio_object option"

definition empty_plugin_db :: plugin_db where
  "empty_plugin_db = \<lparr>pl_dapps = empty_table, pl_comments = empty_table, pl_comment_votes = empty_table, pl_users = empty_table,
     pl_dapp_votes = empty_table, pl_fee_votes = empty_table, pl_tokens = empty_table, pl_balances = empty_table,
     pl_funds = empty_table, pl_interests = empty_table, pl_fund_withdraws = empty_table, pl_savings = empty_table,
     pl_savings_order = [], pl_edit_locks = empty_table, pl_reserve_ratio = None\<rparr>"

text \<open>The unique keys are symmetric, so these indexes support undo as well.\<close>

interpretation dapp_ix: index_keys dapp_clash
  by unfold_locales (simp add: symp_def dapp_clash_def)

interpretation comment_ix: index_keys comment_clash
  by unfold_locales (simp add: symp_def comment_clash_def)

interpretation comment_vote_ix: index_keys comment_vote_clash
  by unfold_locales (auto simp: symp_def comment_vote_clash_def)

interpretation token_ix: index_keys token_clash
  by unfold_locales (auto simp: symp_def token_clash_def)

interpretation token_balance_ix: index_keys token_balance_clash
  by unfold_locales (simp add: symp_def token_balance_clash_def)

interpretation token_savings_ix: index_keys token_savings_clash
  by unfold_locales (simp add: symp_def token_savings_clash_def)

end
