(* ===== verification/Chain_State.thy ===== *)
theory Chain_State
  imports Plugin_Objects
begin

text \<open>
  The consensus state: the objects of \<^verbatim>\<open>account_object.hpp\<close>, \<^verbatim>\<open>sigmaengine_objects.hpp\<close>,
  \<^verbatim>\<open>bobserver_objects.hpp\<close>, \<^verbatim>\<open>global_property_object.hpp\<close>, \<^verbatim>\<open>hardfork_property_object.hpp\<close>,
  \<^verbatim>\<open>transaction_object.hpp\<close> and \<^verbatim>\<open>block_summary_object.hpp\<close>, the database that holds them, and
  the accessors and balance adjustments of \<^verbatim>\<open>database.cpp\<close>.

  A \<^verbatim>\<open>throw\<close> drops the state, as the undo session around every
  transaction and block does.
\<close>

section \<open>Objects\<close>

definition SIGMAENGINE_MINER_ACCOUNT :: account_name_type where "SIGMAENGINE_MINER_ACCOUNT = ''miners''"
definition SIGMAENGINE_NULL_ACCOUNT :: account_name_type where "SIGMAENGINE_NULL_ACCOUNT = ''null''"
definition SIGMAENGINE_TEMP_ACCOUNT :: account_name_type where "SIGMAENGINE_TEMP_ACCOUNT = ''temp''"
definition SIGMAENGINE_ROOT_ACCOUNT :: account_name_type where "SIGMAENGINE_ROOT_ACCOUNT = ''root''"
definition SIGMAENGINE_INIT_MINER_NAME :: account_name_type where "SIGMAENGINE_INIT_MINER_NAME = ''chainmaker''"
definition SIGMAENGINE_DEPOSIT_FUND_NAME :: string where "SIGMAENGINE_DEPOSIT_FUND_NAME = ''deposit''"
definition SIGMAENGINE_GENESIS_TIME :: time_point_sec where "SIGMAENGINE_GENESIS_TIME = 1571116444"
definition SIGMAENGINE_NUM_BOBSERVERS :: nat where "SIGMAENGINE_NUM_BOBSERVERS = 21"
definition SIGMAENGINE_MAX_VOTED_BOBSERVERS_HF0 :: nat where "SIGMAENGINE_MAX_VOTED_BOBSERVERS_HF0 = 17"
definition SIGMAENGINE_HARDFORK_REQUIRED_BOBSERVERS :: nat where "SIGMAENGINE_HARDFORK_REQUIRED_BOBSERVERS = 17"
definition SIGMAENGINE_MAX_USER_TYPE :: nat where "SIGMAENGINE_MAX_USER_TYPE = 2"
definition SIGMAENGINE_MAX_STAKING_MONTH :: nat where "SIGMAENGINE_MAX_STAKING_MONTH = 12"
definition SIGMAENGINE_BLOCK_INTERVAL :: nat where "SIGMAENGINE_BLOCK_INTERVAL = 3"

record account_object =
  acc_id :: nat
  acc_name :: account_name_type
  acc_memo_key :: public_key_type
  acc_json_metadata :: string
  acc_last_account_update :: time_point_sec
  acc_created :: time_point_sec
  acc_mined :: bool
  acc_recovery_account :: account_name_type
  acc_reset_account :: account_name_type
  acc_last_account_recovery :: time_point_sec
  acc_balance :: asset
  acc_savings_balance :: asset
  acc_banned :: bool
  acc_post_count :: nat
  acc_last_post :: time_point_sec
  acc_last_root_post :: time_point_sec

text \<open>The object before its constructor function runs: the defaults of the class.\<close>

definition new_account :: "nat \<Rightarrow> account_object" where
  "new_account i =
     \<lparr>acc_id = i, acc_name = [], acc_memo_key = 0, acc_json_metadata = [], acc_last_account_update = 0,
      acc_created = 0, acc_mined = True, acc_recovery_account = [], acc_reset_account = SIGMAENGINE_NULL_ACCOUNT,
      acc_last_account_recovery = 0, acc_balance = SGT 0, acc_savings_balance = SGT 0, acc_banned = False,
      acc_post_count = 0, acc_last_post = 0, acc_last_root_post = 0\<rparr>"

record account_authority_object =
  aut_id :: nat
  aut_account :: account_name_type
  aut_owner :: authority
  aut_active :: authority
  aut_posting :: authority
  aut_last_owner_update :: time_point_sec

record owner_authority_history_object =
  hst_id :: nat
  hst_account :: account_name_type
  hst_previous_owner_authority :: authority
  hst_last_valid_time :: time_point_sec

record account_recovery_request_object =
  rrq_id :: nat
  rrq_account_to_recover :: account_name_type
  rrq_new_owner_authority :: authority
  rrq_expires :: time_point_sec

record change_recovery_account_request_object =
  crq_id :: nat
  crq_account_to_recover :: account_name_type
  crq_recovery_account :: account_name_type
  crq_effective_on :: time_point_sec

record savings_withdraw_object =
  svw_id :: nat
  svw_from :: account_name_type
  svw_to :: account_name_type
  svw_memo :: string
  svw_request_id :: nat
  svw_amount :: asset
  svw_total_amount :: asset
  svw_split_pay_order :: "8 word"
  svw_split_pay_month :: "8 word"
  svw_complete :: time_point_sec

record fund_withdraw_object =
  fdw_id :: nat
  fdw_from :: account_name_type
  fdw_fund_name :: string
  fdw_memo :: string
  fdw_request_id :: nat
  fdw_amount :: asset
  fdw_complete :: time_point_sec

record decline_voting_rights_request_object =
  dvq_id :: nat
  dvq_account :: nat
  dvq_effective_date :: time_point_sec

record account_auth_object =
  tok_id :: nat
  tok_account :: account_name_type
  tok_auth_type :: string
  tok_auth_token :: string
  tok_reg_date :: time_point_sec

record common_fund_object =
  cfo_id :: nat
  cfo_name :: string
  cfo_fund_balance :: asset
  cfo_fund_withdraw_ready :: asset
  cfo_percent_interest :: "double list list"
  cfo_last_update :: time_point_sec

record dapp_reward_fund_object =
  drf_id :: nat
  drf_fund_balance :: asset
  drf_last_update :: time_point_sec

record bobserver_object =
  bo_id :: nat
  bo_account :: account_name_type
  bo_created :: time_point_sec
  bo_url :: string
  bo_total_missed :: nat
  bo_last_aslot :: nat
  bo_last_confirmed_block_num :: nat
  bo_signing_key :: public_key_type
  bo_votes :: share_type
  bo_running_version :: version
  bo_hardfork_version_vote :: version
  bo_hardfork_time_vote :: time_point_sec
  bo_is_bproducer :: bool
  bo_is_excepted :: bool
  bo_bp_owner :: account_name_type

definition new_bobserver :: "nat \<Rightarrow> bobserver_object" where
  "new_bobserver i =
     \<lparr>bo_id = i, bo_account = [], bo_created = 0, bo_url = [], bo_total_missed = 0, bo_last_aslot = 0,
      bo_last_confirmed_block_num = 0, bo_signing_key = 0, bo_votes = 0, bo_running_version = 0,
      bo_hardfork_version_vote = 0, bo_hardfork_time_vote = SIGMAENGINE_GENESIS_TIME,
      bo_is_bproducer = False, bo_is_excepted = False, bo_bp_owner = []\<rparr>"

record bobserver_vote_object =
  bvo_id :: nat
  bvo_bobserver :: nat
  bvo_account :: nat

record bobserver_schedule_object =
  wso_next_shuffle_block_num :: nat
  wso_current_shuffled_bobservers :: "account_name_type list"
  wso_num_scheduled_bobservers :: nat
  wso_majority_version :: version
  wso_max_voted_bobservers :: nat
  wso_max_miner_bobservers :: nat
  wso_max_runner_bobservers :: nat
  wso_hardfork_required_bobservers :: nat

record dynamic_global_property_object =
  dgp_head_block_number :: nat
  dgp_head_block_id :: block_id_type
  dgp_time :: time_point_sec
  dgp_current_bobserver :: account_name_type
  dgp_current_supply :: asset
  dgp_maximum_block_size :: nat
  dgp_current_aslot :: nat
  dgp_recent_slots_filled :: "128 word"
  dgp_participation_count :: "8 word"
  dgp_dapp_transaction_fee :: asset
  dgp_last_irreversible_block_num :: nat
  dgp_current_bproducer_count :: nat
  dgp_next_update_bproducer_owner_time :: time_point_sec
  dgp_last_dapp_voting_aggregation_time :: time_point_sec
  dgp_total_transfer :: nat

record hardfork_property_object =
  hpo_processed_hardforks :: "time_point_sec list"
  hpo_last_hardfork :: nat
  hpo_current_hardfork_version :: version
  hpo_next_hardfork :: version
  hpo_next_hardfork_time :: time_point_sec

record transaction_object =
  txo_id :: nat
  txo_trx :: signed_transaction
  txo_trx_id :: transaction_id_type
  txo_expiration :: time_point_sec

section \<open>Unique keys\<close>

text \<open>
  Two objects clash when they agree on a unique key other than the id. Keys that contain
  the id, such as \<^verbatim>\<open>by_account\<close> of the authorities, never clash. Where the source
  compares with \<^verbatim>\<open>strcmp_less\<close>, a string counts up to its first NUL.
\<close>

definition account_clash :: "account_object \<Rightarrow> account_object \<Rightarrow> bool" where
  "account_clash a b \<longleftrightarrow> acc_name a = acc_name b"

definition savings_clash :: "savings_withdraw_object \<Rightarrow> savings_withdraw_object \<Rightarrow> bool" where
  "savings_clash a b \<longleftrightarrow> svw_from a = svw_from b \<and> svw_request_id a = svw_request_id b"

definition fund_withdraw_clash :: "fund_withdraw_object \<Rightarrow> fund_withdraw_object \<Rightarrow> bool" where
  "fund_withdraw_clash a b \<longleftrightarrow> fdw_from a = fdw_from b \<and> c_str (fdw_fund_name a) = c_str (fdw_fund_name b)
     \<and> fdw_request_id a = fdw_request_id b"

definition decline_clash :: "decline_voting_rights_request_object \<Rightarrow> decline_voting_rights_request_object \<Rightarrow> bool" where
  "decline_clash a b \<longleftrightarrow> dvq_account a = dvq_account b"

definition auth_token_clash :: "account_auth_object \<Rightarrow> account_auth_object \<Rightarrow> bool" where
  "auth_token_clash a b \<longleftrightarrow> tok_account a = tok_account b \<and> c_str (tok_auth_type a) = c_str (tok_auth_type b)"

definition bobserver_clash :: "bobserver_object \<Rightarrow> bobserver_object \<Rightarrow> bool" where
  "bobserver_clash a b \<longleftrightarrow> bo_account a = bo_account b"

definition transaction_clash :: "transaction_object \<Rightarrow> transaction_object \<Rightarrow> bool" where
  "transaction_clash a b \<longleftrightarrow> txo_trx_id a = txo_trx_id b"

section \<open>The database\<close>

text \<open>
  Objects of which there is only one, and which are never removed, are fields of their own.
  The block summaries are the \<open>2 ^ 16\<close> objects genesis creates. \<open>db_virtual_ops\<close> records the
  operations handed to \<^verbatim>\<open>push_virtual_operation\<close>, the newest first.
\<close>

record chain_db =
  db_accounts :: "account_object table"
  db_authorities :: "account_authority_object table"
  db_histories :: "owner_authority_history_object table"
  db_recovery_requests :: "account_recovery_request_object table"
  db_change_requests :: "change_recovery_account_request_object table"
  db_decline_requests :: "decline_voting_rights_request_object table"
  db_auth_tokens :: "account_auth_object table"
  db_savings :: "savings_withdraw_object table"
  db_fund_withdraws :: "fund_withdraw_object table"
  db_funds :: "common_fund_object table"
  db_dapp_fund :: dapp_reward_fund_object
  db_bobservers :: "bobserver_object table"
  db_votes :: "bobserver_vote_object table"
  db_schedule :: bobserver_schedule_object
  db_dgp :: dynamic_global_property_object
  db_hardfork :: hardfork_property_object
  db_summaries :: "16 word \<Rightarrow> block_id_type"
  db_transactions :: "transaction_object table"
  db_virtual_ops :: "operation list"
  db_plugins :: plugin_db

section \<open>Accessors\<close>

definition head_block_time :: "chain_db \<Rightarrow> time_point_sec" where
  "head_block_time db = dgp_time (db_dgp db)"

definition head_block_num :: "chain_db \<Rightarrow> nat" where
  "head_block_num db = dgp_head_block_number (db_dgp db)"

definition head_block_id :: "chain_db \<Rightarrow> block_id_type" where
  "head_block_id db = dgp_head_block_id (db_dgp db)"

definition find_account :: "account_name_type \<Rightarrow> chain_db \<Rightarrow> account_object option" where
  "find_account name db = table_find (\<lambda>a. acc_name a = name) (db_accounts db)"

definition get_account :: "account_name_type \<Rightarrow> chain_db \<Rightarrow> account_object result" where
  "get_account name db = of_option Unknown_key (find_account name db)"

definition get_account_authority :: "account_name_type \<Rightarrow> chain_db \<Rightarrow> account_authority_object result" where
  "get_account_authority name db = table_get (\<lambda>a. aut_account a = name) (db_authorities db)"

definition find_bobserver :: "account_name_type \<Rightarrow> chain_db \<Rightarrow> bobserver_object option" where
  "find_bobserver name db = table_find (\<lambda>b. bo_account b = name) (db_bobservers db)"

definition get_bobserver :: "account_name_type \<Rightarrow> chain_db \<Rightarrow> bobserver_object result" where
  "get_bobserver name db = of_option Unknown_key (find_bobserver name db)"

definition get_savings_withdraw :: "account_name_type \<Rightarrow> nat \<Rightarrow> chain_db \<Rightarrow> savings_withdraw_object result" where
  "get_savings_withdraw owner request_id db =
     table_get (\<lambda>s. svw_from s = owner \<and> svw_request_id s = request_id) (db_savings db)"

definition get_fund_withdraw :: "account_name_type \<Rightarrow> string \<Rightarrow> nat \<Rightarrow> chain_db \<Rightarrow> fund_withdraw_object result" where
  "get_fund_withdraw owner fund_name request_id db =
     table_get (\<lambda>s. fdw_from s = owner \<and> c_str (fdw_fund_name s) = c_str fund_name
        \<and> fdw_request_id s = request_id) (db_fund_withdraws db)"

text \<open>
  A fund name is a \<^verbatim>\<open>fixed_string_16\<close>: looking one up cuts the argument to 16 bytes and
  compares all of them. Funds are made by the genesis only, under a name without a zero byte, so
  an argument with a zero byte inside names no fund.
\<close>

definition fixed_string_16 :: "string \<Rightarrow> string" where
  "fixed_string_16 s = fixed_string 16 s"

definition get_common_fund :: "string \<Rightarrow> chain_db \<Rightarrow> common_fund_object result" where
  "get_common_fund name db =
     guardR (CHR 0x00 \<notin> set (fixed_string_16 name)) Unknown_key
       (table_get (\<lambda>f. cfo_name f = fixed_string_16 name) (db_funds db))"

definition is_blacklist :: "account_name_type list \<Rightarrow> account_name_type \<Rightarrow> bool" where
  "is_blacklist black_list account = list_ex (\<lambda>b. b = account) black_list"

definition has_hardfork :: "nat \<Rightarrow> chain_db \<Rightarrow> bool" where
  "has_hardfork hardfork db \<longleftrightarrow> length (hpo_processed_hardforks (db_hardfork db)) > hardfork"

definition push_virtual_operation :: "operation \<Rightarrow> chain_db \<Rightarrow> chain_db result" where
  "push_virtual_operation op db =
     fc_assert (is_virtual_operation op) Unnamed_assertion (Inr (db\<lparr>db_virtual_ops := op # db_virtual_ops db\<rparr>))"

section \<open>Balances\<close>

definition get_balance :: "account_object \<Rightarrow> asset_symbol_type \<Rightarrow> asset result" where
  "get_balance a sy = (if sy = SGT_SYMBOL then Inr (acc_balance a) else Inl (Assert_exception Invalid_symbol))"

definition get_savings_balance :: "account_object \<Rightarrow> asset_symbol_type \<Rightarrow> asset result" where
  "get_savings_balance a sy =
     (if sy = SGT_SYMBOL then Inr (acc_savings_balance a) else Inl (Assert_exception Invalid_symbol))"

text \<open>\<^verbatim>\<open>x += delta\<close> under the switch on the symbol of \<^verbatim>\<open>delta\<close> that all adjustments share.\<close>

definition add_delta :: "asset \<Rightarrow> asset \<Rightarrow> asset result" where
  "add_delta x delta =
     (if symbol delta = SGT_SYMBOL then asset_add x delta else Inl (Assert_exception Invalid_symbol))"

definition modify_account :: "nat \<Rightarrow> (account_object \<Rightarrow> account_object) \<Rightarrow> chain_db \<Rightarrow> chain_db" where
  "modify_account a f db = db\<lparr>db_accounts := table_modify acc_id a f (db_accounts db)\<rparr>"

definition modify_fund :: "nat \<Rightarrow> (common_fund_object \<Rightarrow> common_fund_object) \<Rightarrow> chain_db \<Rightarrow> chain_db" where
  "modify_fund a f db = db\<lparr>db_funds := table_modify cfo_id a f (db_funds db)\<rparr>"

definition modify_bobserver :: "nat \<Rightarrow> (bobserver_object \<Rightarrow> bobserver_object) \<Rightarrow> chain_db \<Rightarrow> chain_db" where
  "modify_bobserver a f db = db\<lparr>db_bobservers := table_modify bo_id a f (db_bobservers db)\<rparr>"

definition modify_dgp :: "(dynamic_global_property_object \<Rightarrow> dynamic_global_property_object) \<Rightarrow> chain_db \<Rightarrow> chain_db" where
  "modify_dgp f db = db\<lparr>db_dgp := f (db_dgp db)\<rparr>"

definition adjust_balance :: "nat \<Rightarrow> asset \<Rightarrow> chain_db \<Rightarrow> chain_db result" where
  "adjust_balance a delta db =
     bindR (table_get (\<lambda>r. acc_id r = a) (db_accounts db)) (\<lambda>r.
     bindR (add_delta (acc_balance r) delta) (\<lambda>b.
     Inr (modify_account a (\<lambda>acnt. acnt\<lparr>acc_balance := b\<rparr>) db)))"

definition adjust_savings_balance :: "nat \<Rightarrow> asset \<Rightarrow> chain_db \<Rightarrow> chain_db result" where
  "adjust_savings_balance a delta db =
     bindR (table_get (\<lambda>r. acc_id r = a) (db_accounts db)) (\<lambda>r.
     bindR (add_delta (acc_savings_balance r) delta) (\<lambda>b.
     Inr (modify_account a (\<lambda>acnt. acnt\<lparr>acc_savings_balance := b\<rparr>) db)))"

definition adjust_fund_balance :: "string \<Rightarrow> asset \<Rightarrow> chain_db \<Rightarrow> chain_db result" where
  "adjust_fund_balance name delta db =
     bindR (get_common_fund name db) (\<lambda>r.
     bindR (add_delta (cfo_fund_balance r) delta) (\<lambda>b.
     Inr (modify_fund (cfo_id r) (\<lambda>cfo. cfo\<lparr>cfo_fund_balance := b\<rparr>) db)))"

definition adjust_fund_withdraw_balance :: "string \<Rightarrow> asset \<Rightarrow> chain_db \<Rightarrow> chain_db result" where
  "adjust_fund_withdraw_balance name delta db =
     bindR (get_common_fund name db) (\<lambda>r.
     bindR (add_delta (cfo_fund_withdraw_ready r) delta) (\<lambda>b.
     Inr (modify_fund (cfo_id r) (\<lambda>cfo. cfo\<lparr>cfo_fund_withdraw_ready := b\<rparr>) db)))"

definition adjust_dapp_reward_fund_balance :: "asset \<Rightarrow> chain_db \<Rightarrow> chain_db result" where
  "adjust_dapp_reward_fund_balance delta db =
     bindR (add_delta (drf_fund_balance (db_dapp_fund db)) delta) (\<lambda>b.
     Inr (db\<lparr>db_dapp_fund := (db_dapp_fund db)\<lparr>drf_fund_balance := b, drf_last_update := head_block_time db\<rparr>\<rparr>))"

text \<open>The \<^verbatim>\<open>assert\<close> on the new supply is absent from a release build.\<close>

definition adjust_supply :: "asset \<Rightarrow> chain_db \<Rightarrow> chain_db result" where
  "adjust_supply delta db =
     bindR (add_delta (dgp_current_supply (db_dgp db)) delta) (\<lambda>b.
     Inr (modify_dgp (\<lambda>p. p\<lparr>dgp_current_supply := b\<rparr>) db))"

definition update_owner_authority :: "account_name_type \<Rightarrow> authority \<Rightarrow> chain_db \<Rightarrow> chain_db result" where
  "update_owner_authority name owner_authority db =
     bindR (get_account_authority name db) (\<lambda>aut.
     bindR (if head_block_num db \<ge> 0 then
              table_create no_unique_key (\<lambda>i. \<lparr>hst_id = i, hst_account = name,
                 hst_previous_owner_authority = aut_owner aut, hst_last_valid_time = head_block_time db\<rparr>)
                (db_histories db)
            else Inr (db_histories db)) (\<lambda>hs.
     Inr (db\<lparr>db_histories := hs,
             db_authorities := table_modify aut_id (aut_id aut)
               (\<lambda>auth. auth\<lparr>aut_owner := owner_authority, aut_last_owner_update := head_block_time db\<rparr>)
               (db_authorities db)\<rparr>)))"

section \<open>The supply check\<close>

definition get_total_supply :: "chain_db \<Rightarrow> asset result" where
  "get_total_supply db =
     bindR (foldR (\<lambda>s a. bindR (asset_add s (acc_balance a)) (\<lambda>s. asset_add s (acc_savings_balance a)))
              (SGT 0) (sort_key acc_name (tb_rows (db_accounts db)))) (\<lambda>s.
     foldR (\<lambda>s f. asset_add s (cfo_fund_balance f)) s (tb_rows (db_funds db)))"

definition validate_invariants :: "chain_db \<Rightarrow> unit result" where
  "validate_invariants db =
     bindR (get_total_supply db) (\<lambda>total.
     fc_assert (dgp_current_supply (db_dgp db) = total) Unnamed_assertion (Inr ()))"

text \<open>The unique keys of the tables are symmetric, so each index of the database supports undo.\<close>

interpretation account_ix: index_keys account_clash
  by unfold_locales (simp add: symp_def account_clash_def)

interpretation savings_ix: index_keys savings_clash
  by unfold_locales (simp add: symp_def savings_clash_def)

interpretation fund_withdraw_ix: index_keys fund_withdraw_clash
  by unfold_locales (simp add: symp_def fund_withdraw_clash_def)

interpretation bobserver_ix: index_keys bobserver_clash
  by unfold_locales (simp add: symp_def bobserver_clash_def)

interpretation transaction_ix: index_keys transaction_clash
  by unfold_locales (simp add: symp_def transaction_clash_def)

lemma add_delta_Inr: "add_delta x d = Inr b \<Longrightarrow> amount b = amount x + amount d \<and> symbol b = symbol x
    \<and> symbol d = SGT_SYMBOL \<and> symbol x = SGT_SYMBOL"
  by (auto simp: add_delta_def asset_add_def result_simps split: if_splits dest: safe_add_InrD)

end
