(* ===== verification/Ledger.thy ===== *)
theory Ledger
  imports Chain_State
begin

text \<open>
  The books of the chain: the value that all balances hold beyond the recorded supply, the
  savings of each account against the pending requests that pay from them, and the reserve of
  each fund against its pending staking requests. Every state change of the program moves
  these by known amounts; the relation \<open>moves\<close> records them and composes, and the locale
  \<open>balanced\<close> is the contract of the steps that leave the books unchanged.
\<close>

section \<open>The books\<close>

definition money_accounts :: "chain_db \<Rightarrow> int" where
  "money_accounts db = (\<Sum>a \<leftarrow> tb_rows (db_accounts db). amount (acc_balance a) + amount (acc_savings_balance a))"

definition money_funds :: "chain_db \<Rightarrow> int" where
  "money_funds db = (\<Sum>f \<leftarrow> tb_rows (db_funds db). amount (cfo_fund_balance f))"

definition money_dapp :: "chain_db \<Rightarrow> int" where
  "money_dapp db = amount (drf_fund_balance (db_dapp_fund db))"

text \<open>
  \<open>unaccounted\<close> is the difference between all balances, those of accounts, funds and the dapp
  reward fund, and the supply the chain records.
\<close>

definition unaccounted :: "chain_db \<Rightarrow> int" where
  "unaccounted db = money_accounts db + money_funds db + money_dapp db - amount (dgp_current_supply (db_dgp db))"

definition pending_savings :: "account_name_type \<Rightarrow> chain_db \<Rightarrow> int" where
  "pending_savings n db = (\<Sum>s \<leftarrow> tb_rows (db_savings db). if svw_to s = n then amount (svw_amount s) else 0)"

definition savings_gap :: "account_name_type \<Rightarrow> chain_db \<Rightarrow> int" where
  "savings_gap n db =
     (\<Sum>a \<leftarrow> tb_rows (db_accounts db). if acc_name a = n then amount (acc_savings_balance a) else 0) - pending_savings n db"

text \<open>
  The stakes of a fund are found by \<^verbatim>\<open>strcmp\<close> on the name they were made under, its first 16
  bytes name the fund.
\<close>

definition fund_key :: "string \<Rightarrow> string" where
  "fund_key s = c_str (take 16 s)"

lemma get_common_fund_mem:
  assumes "get_common_fund n db = Inr r"
  shows "r \<in> set (tb_rows (db_funds db))" and "cfo_name r = fund_key n"
  using assms fixed_string_no_zero [of 16 n]
  by (auto simp: get_common_fund_def fixed_string_16_def fund_key_def result_simps dest!: table_get_mem)

definition pending_staking :: "string \<Rightarrow> chain_db \<Rightarrow> int" where
  "pending_staking n db =
     (\<Sum>w \<leftarrow> tb_rows (db_fund_withdraws db). if fund_key (fdw_fund_name w) = n then amount (fdw_amount w) else 0)"

definition staking_gap :: "string \<Rightarrow> chain_db \<Rightarrow> int" where
  "staking_gap n db =
     (\<Sum>f \<leftarrow> tb_rows (db_funds db). if cfo_name f = n then amount (cfo_fund_withdraw_ready f) else 0) - pending_staking n db"

definition wf_db :: "chain_db \<Rightarrow> bool" where
  "wf_db db \<longleftrightarrow> wf_table acc_id (db_accounts db) \<and> wf_table cfo_id (db_funds db)
     \<and> wf_table svw_id (db_savings db) \<and> wf_table fdw_id (db_fund_withdraws db)
     \<and> distinct (map acc_name (tb_rows (db_accounts db)))"

text \<open>
  \<open>moves db db' u s r\<close>: the step from \<open>db\<close> to \<open>db'\<close> keeps the tables well-formed and moves
  the unaccounted value by \<open>u\<close>, the savings gaps by \<open>s\<close> and the staking gaps by \<open>r\<close>.
\<close>

definition moves :: "chain_db \<Rightarrow> chain_db \<Rightarrow> int \<Rightarrow> (account_name_type \<Rightarrow> int) \<Rightarrow> (string \<Rightarrow> int) \<Rightarrow> bool" where
  "moves db db' u s r \<longleftrightarrow> wf_db db' \<and> unaccounted db' = unaccounted db + u
     \<and> (\<forall>n. savings_gap n db' = savings_gap n db + s n) \<and> (\<forall>n. staking_gap n db' = staking_gap n db + r n)"

abbreviation nothing :: "'n \<Rightarrow> int" where
  "nothing \<equiv> (\<lambda>_. 0)"

definition at :: "'n \<Rightarrow> int \<Rightarrow> 'n \<Rightarrow> int" where
  "at n x = (\<lambda>m. if m = n then x else 0)"

lemmas books_defs = unaccounted_def money_accounts_def money_funds_def money_dapp_def savings_gap_def
  pending_savings_def staking_gap_def pending_staking_def

lemma moves_refl: "wf_db db \<Longrightarrow> moves db db 0 nothing nothing"
  by (simp add: moves_def)

lemma moves_wf: "moves db db' u s r \<Longrightarrow> wf_db db'"
  by (simp add: moves_def)

lemma moves_trans:
  assumes "moves db1 db2 u s r" "moves db2 db3 u' s' r'"
  shows "moves db1 db3 (u + u') (\<lambda>n. s n + s' n) (\<lambda>n. r n + r' n)"
  using assms by (simp add: moves_def)

lemma moves_cong:
  "moves db db' u s r \<Longrightarrow> u = u' \<Longrightarrow> (\<And>n. s n = s' n) \<Longrightarrow> (\<And>n. r n = r' n) \<Longrightarrow> moves db db' u' s' r'"
  by (simp add: moves_def)

text \<open>A step that touches none of the tables the books read.\<close>

lemma moves_frame:
  assumes "wf_db db" "db_accounts db' = db_accounts db" "db_funds db' = db_funds db"
    "db_dapp_fund db' = db_dapp_fund db" "dgp_current_supply (db_dgp db') = dgp_current_supply (db_dgp db)"
    "db_savings db' = db_savings db" "db_fund_withdraws db' = db_fund_withdraws db"
  shows "moves db db' 0 nothing nothing"
  using assms by (simp add: moves_def books_defs wf_db_def)

section \<open>What each state change moves\<close>

lemma modify_account_moves:
  assumes "wf_db db" "a \<in> set (tb_rows (db_accounts db))" "acc_id a = i"
    and f: "\<And>a. acc_id (f a) = acc_id a" "\<And>a. acc_name (f a) = acc_name a"
  shows "moves db (modify_account i f db)
     (amount (acc_balance (f a)) + amount (acc_savings_balance (f a))
        - amount (acc_balance a) - amount (acc_savings_balance a))
     (at (acc_name a) (amount (acc_savings_balance (f a)) - amount (acc_savings_balance a))) nothing"
proof -
  have w: "wf_table acc_id (db_accounts db)" using assms(1) by (simp add: wf_db_def)
  have "wf_db (modify_account i f db)"
    using assms(1) f by (simp add: wf_db_def modify_account_def wf_table_modify table_modify_map)
  moreover have "money_accounts (modify_account i f db) = money_accounts db
      - (amount (acc_balance a) + amount (acc_savings_balance a))
      + (amount (acc_balance (f a)) + amount (acc_savings_balance (f a)))"
    unfolding money_accounts_def modify_account_def
    using table_modify_sum [OF w assms(2,3), where g = "\<lambda>a. amount (acc_balance a) + amount (acc_savings_balance a)"]
    by simp
  moreover have "savings_gap n (modify_account i f db)
      = savings_gap n db + at (acc_name a) (amount (acc_savings_balance (f a)) - amount (acc_savings_balance a)) n" for n
    unfolding savings_gap_def pending_savings_def modify_account_def
    using table_modify_sum [OF w assms(2,3), where g = "\<lambda>a. if acc_name a = n then amount (acc_savings_balance a) else 0"] f
    by (auto simp: at_def)
  ultimately show ?thesis
    by (simp add: moves_def unaccounted_def money_funds_def money_dapp_def staking_gap_def pending_staking_def)
      (simp add: modify_account_def)
qed

lemma account_meta_moves:
  assumes "wf_db db" and f: "\<And>a. acc_id (f a) = acc_id a" "\<And>a. acc_name (f a) = acc_name a"
    "\<And>a. acc_balance (f a) = acc_balance a" "\<And>a. acc_savings_balance (f a) = acc_savings_balance a"
  shows "moves db (modify_account i f db) 0 nothing nothing"
  using assms by (simp add: moves_def books_defs wf_db_def modify_account_def wf_table_modify table_modify_map)

lemma modify_fund_moves:
  assumes "wf_db db" "x \<in> set (tb_rows (db_funds db))" "cfo_id x = i"
    and f: "\<And>x. cfo_id (f x) = cfo_id x" "\<And>x. cfo_name (f x) = cfo_name x"
  shows "moves db (modify_fund i f db) (amount (cfo_fund_balance (f x)) - amount (cfo_fund_balance x)) nothing
     (at (cfo_name x) (amount (cfo_fund_withdraw_ready (f x)) - amount (cfo_fund_withdraw_ready x)))"
proof -
  have w: "wf_table cfo_id (db_funds db)" using assms(1) by (simp add: wf_db_def)
  have "wf_db (modify_fund i f db)"
    using assms(1) f by (simp add: wf_db_def modify_fund_def wf_table_modify)
  moreover have "money_funds (modify_fund i f db)
      = money_funds db - amount (cfo_fund_balance x) + amount (cfo_fund_balance (f x))"
    unfolding money_funds_def modify_fund_def
    using table_modify_sum [OF w assms(2,3), where g = "\<lambda>x. amount (cfo_fund_balance x)"] by simp
  moreover have "staking_gap n (modify_fund i f db)
      = staking_gap n db + at (cfo_name x) (amount (cfo_fund_withdraw_ready (f x)) - amount (cfo_fund_withdraw_ready x)) n" for n
    unfolding staking_gap_def pending_staking_def modify_fund_def
    using table_modify_sum [OF w assms(2,3), where g = "\<lambda>x. if cfo_name x = n then amount (cfo_fund_withdraw_ready x) else 0"] f
    by (auto simp: at_def)
  ultimately show ?thesis
    by (simp add: moves_def unaccounted_def money_accounts_def money_dapp_def savings_gap_def pending_savings_def)
      (simp add: modify_fund_def)
qed

lemma adjust_balance_moves:
  assumes "wf_db db" "adjust_balance a d db = Inr db'"
  shows "moves db db' (amount d) nothing nothing"
proof -
  from assms(2) obtain r b where r: "r \<in> set (tb_rows (db_accounts db))" "acc_id r = a"
    "add_delta (acc_balance r) d = Inr b" and db': "db' = modify_account a (\<lambda>acnt. acnt\<lparr>acc_balance := b\<rparr>) db"
    by (auto simp: adjust_balance_def result_simps dest: table_get_mem)
  show ?thesis unfolding db'
    using modify_account_moves [OF assms(1) r(1,2), of "\<lambda>acnt. acnt\<lparr>acc_balance := b\<rparr>"] add_delta_Inr [OF r(3)]
    by (auto elim!: moves_cong simp: at_def)
qed

text \<open>An account is addressed by its id; \<open>account_keys\<close> says which name that is.\<close>

definition account_keys :: "chain_db \<Rightarrow> (nat \<times> account_name_type) set" where
  "account_keys db = set (map (\<lambda>a. (acc_id a, acc_name a)) (tb_rows (db_accounts db)))"

lemma get_account_key: "get_account n db = Inr a \<Longrightarrow> (acc_id a, n) \<in> account_keys db"
  by (auto simp: get_account_def find_account_def table_find_def account_keys_def result_simps dest!: find_Some_mem)

lemma get_account_mem: "get_account n db = Inr a \<Longrightarrow> a \<in> set (tb_rows (db_accounts db)) \<and> acc_name a = n"
  by (auto simp: get_account_def find_account_def table_find_def result_simps dest!: find_Some_mem)

lemma adjust_balance_frame:
  "adjust_balance a d db = Inr db' \<Longrightarrow> account_keys db' = account_keys db \<and> db_savings db' = db_savings db
     \<and> db_fund_withdraws db' = db_fund_withdraws db"
  by (auto simp: adjust_balance_def result_simps modify_account_def account_keys_def table_modify_map simp del: set_map)

lemma adjust_savings_balance_frame:
  "adjust_savings_balance a d db = Inr db' \<Longrightarrow> account_keys db' = account_keys db \<and> db_savings db' = db_savings db"
  by (auto simp: adjust_savings_balance_def result_simps modify_account_def account_keys_def table_modify_map simp del: set_map)

lemma adjust_savings_balance_moves:
  assumes "wf_db db" "adjust_savings_balance i d db = Inr db'" "(i, n) \<in> account_keys db"
  shows "moves db db' (amount d) (at n (amount d)) nothing"
proof -
  from assms(2) obtain r b where r: "r \<in> set (tb_rows (db_accounts db))" "acc_id r = i"
    "add_delta (acc_savings_balance r) d = Inr b"
    and db': "db' = modify_account i (\<lambda>acnt. acnt\<lparr>acc_savings_balance := b\<rparr>) db"
    by (auto simp: adjust_savings_balance_def result_simps dest: table_get_mem)
  have "acc_name r = n"
    using assms(1,3) r(1,2) by (auto simp: account_keys_def wf_db_def wf_table_def distinct_map dest: inj_onD)
  then show ?thesis unfolding db'
    using modify_account_moves [OF assms(1) r(1,2), of "\<lambda>acnt. acnt\<lparr>acc_savings_balance := b\<rparr>"] add_delta_Inr [OF r(3)]
    by (auto elim!: moves_cong simp: at_def)
qed

lemma adjust_fund_balance_moves:
  assumes "wf_db db" "adjust_fund_balance n d db = Inr db'"
  shows "moves db db' (amount d) nothing nothing"
proof -
  from assms(2) obtain r b where r: "r \<in> set (tb_rows (db_funds db))"
    "add_delta (cfo_fund_balance r) d = Inr b"
    and db': "db' = modify_fund (cfo_id r) (\<lambda>cfo. cfo\<lparr>cfo_fund_balance := b\<rparr>) db"
    by (auto simp: adjust_fund_balance_def result_simps dest: get_common_fund_mem)
  show ?thesis unfolding db'
    using modify_fund_moves [OF assms(1) r(1) refl, of "\<lambda>cfo. cfo\<lparr>cfo_fund_balance := b\<rparr>"] add_delta_Inr [OF r(2)]
    by (auto elim!: moves_cong simp: at_def)
qed

lemma adjust_fund_withdraw_balance_moves:
  assumes "wf_db db" "adjust_fund_withdraw_balance n d db = Inr db'"
  shows "moves db db' 0 nothing (at (fund_key n) (amount d))"
proof -
  from assms(2) obtain r b where r: "r \<in> set (tb_rows (db_funds db))" "cfo_name r = fund_key n"
    "add_delta (cfo_fund_withdraw_ready r) d = Inr b"
    and db': "db' = modify_fund (cfo_id r) (\<lambda>cfo. cfo\<lparr>cfo_fund_withdraw_ready := b\<rparr>) db"
    by (auto simp: adjust_fund_withdraw_balance_def result_simps dest: get_common_fund_mem)
  show ?thesis unfolding db'
    using modify_fund_moves [OF assms(1) r(1) refl, of "\<lambda>cfo. cfo\<lparr>cfo_fund_withdraw_ready := b\<rparr>"] add_delta_Inr [OF r(3)] r(2)
    by (auto elim!: moves_cong simp: at_def)
qed

lemma adjust_supply_moves:
  assumes "wf_db db" "adjust_supply d db = Inr db'"
  shows "moves db db' (- amount d) nothing nothing"
proof -
  from assms(2) obtain b where b: "add_delta (dgp_current_supply (db_dgp db)) d = Inr b"
    and db': "db' = modify_dgp (\<lambda>p. p\<lparr>dgp_current_supply := b\<rparr>) db"
    by (auto simp: adjust_supply_def result_simps)
  then show ?thesis using assms(1) add_delta_Inr [OF b]
    by (simp add: moves_def books_defs wf_db_def modify_dgp_def)
qed

lemma adjust_dapp_moves:
  assumes "wf_db db" "adjust_dapp_reward_fund_balance d db = Inr db'"
  shows "moves db db' (amount d) nothing nothing"
proof -
  from assms(2) obtain b where b: "add_delta (drf_fund_balance (db_dapp_fund db)) d = Inr b"
    and db': "db' = db\<lparr>db_dapp_fund := (db_dapp_fund db)\<lparr>drf_fund_balance := b, drf_last_update := head_block_time db\<rparr>\<rparr>"
    by (auto simp: adjust_dapp_reward_fund_balance_def result_simps)
  then show ?thesis using assms(1) add_delta_Inr [OF b] by (simp add: moves_def books_defs wf_db_def)
qed

lemma create_savings_moves:
  assumes "wf_db db" "table_create clash c (db_savings db) = Inr t" "\<And>i. svw_id (c i) = i"
    and c: "\<And>i. svw_to (c i) = n" "\<And>i. amount (svw_amount (c i)) = v"
  shows "moves db (db\<lparr>db_savings := t\<rparr>) 0 (at n (- v)) nothing"
proof -
  have "wf_table svw_id (db_savings db)" using assms(1) by (simp add: wf_db_def)
  from wf_table_create [OF this assms(2,3)] assms(1) c show ?thesis
    by (simp add: moves_def books_defs wf_db_def at_def)
qed

lemma remove_savings_moves:
  assumes "wf_db db" "s \<in> set (tb_rows (db_savings db))"
  shows "moves db (db\<lparr>db_savings := table_remove svw_id (svw_id s) (db_savings db)\<rparr>) 0
     (at (svw_to s) (amount (svw_amount s))) nothing"
proof -
  have w: "wf_table svw_id (db_savings db)" using assms(1) by (simp add: wf_db_def)
  show ?thesis using assms(1) wf_table_remove [OF w] table_remove_sum [OF w assms(2) refl]
    by (simp add: moves_def books_defs wf_db_def at_def)
qed

lemma modify_savings_moves:
  assumes "wf_db db" "s \<in> set (tb_rows (db_savings db))"
    and f: "\<And>s. svw_id (f s) = svw_id s" "\<And>s. svw_to (f s) = svw_to s"
  shows "moves db (db\<lparr>db_savings := table_modify svw_id (svw_id s) f (db_savings db)\<rparr>) 0
     (at (svw_to s) (amount (svw_amount s) - amount (svw_amount (f s)))) nothing"
proof -
  have w: "wf_table svw_id (db_savings db)" using assms(1) by (simp add: wf_db_def)
  show ?thesis using assms(1) wf_table_modify [of svw_id f, OF f(1)] table_modify_sum [OF w assms(2) refl, where f = f] f
    by (simp add: moves_def books_defs wf_db_def at_def)
qed

lemma create_staking_moves:
  assumes "wf_db db" "table_create clash c (db_fund_withdraws db) = Inr t" "\<And>i. fdw_id (c i) = i"
    and c: "\<And>i. fdw_fund_name (c i) = n" "\<And>i. amount (fdw_amount (c i)) = v"
  shows "moves db (db\<lparr>db_fund_withdraws := t\<rparr>) 0 nothing (at (fund_key n) (- v))"
proof -
  have "wf_table fdw_id (db_fund_withdraws db)" using assms(1) by (simp add: wf_db_def)
  from wf_table_create [OF this assms(2,3)] assms(1) c show ?thesis
    by (simp add: moves_def books_defs wf_db_def at_def)
qed

lemma remove_staking_moves:
  assumes "wf_db db" "w \<in> set (tb_rows (db_fund_withdraws db))"
  shows "moves db (db\<lparr>db_fund_withdraws := table_remove fdw_id (fdw_id w) (db_fund_withdraws db)\<rparr>) 0 nothing
     (at (fund_key (fdw_fund_name w)) (amount (fdw_amount w)))"
proof -
  have w: "wf_table fdw_id (db_fund_withdraws db)" using assms(1) by (simp add: wf_db_def)
  show ?thesis using assms(1) wf_table_remove [OF w] table_remove_sum [OF w assms(2) refl]
    by (simp add: moves_def books_defs wf_db_def at_def)
qed

lemma push_virtual_operation_moves:
  "wf_db db \<Longrightarrow> push_virtual_operation op db = Inr db' \<Longrightarrow> moves db db' 0 nothing nothing"
  by (auto simp: push_virtual_operation_def result_simps intro!: moves_frame)

lemma update_owner_authority_moves:
  "wf_db db \<Longrightarrow> update_owner_authority n a db = Inr db' \<Longrightarrow> moves db db' 0 nothing nothing"
  by (auto simp: update_owner_authority_def result_simps intro!: moves_frame)

lemma create_account_moves:
  assumes "wf_db db" "table_create account_clash c (db_accounts db) = Inr t" "\<And>i. acc_id (c i) = i"
    and c: "\<And>i. amount (acc_balance (c i)) = 0" "\<And>i. amount (acc_savings_balance (c i)) = 0"
  shows "moves db (db\<lparr>db_accounts := t\<rparr>) 0 nothing nothing"
proof -
  have "wf_table acc_id (db_accounts db)" using assms(1) by (simp add: wf_db_def)
  from wf_table_create [OF this assms(2,3)] have "wf_table acc_id t"
    "tb_rows t = tb_rows (db_accounts db) @ [c (tb_next (db_accounts db))]"
    "acc_name (c (tb_next (db_accounts db))) \<notin> acc_name ` set (tb_rows (db_accounts db))"
    by (auto simp: account_clash_def)
  with assms(1) c show ?thesis by (simp add: moves_def books_defs wf_db_def)
qed

lemma adjust_fund_balance_frame:
  "adjust_fund_balance n d db = Inr db' \<Longrightarrow> db_fund_withdraws db' = db_fund_withdraws db"
  by (auto simp: adjust_fund_balance_def result_simps modify_fund_def)

lemma adjust_fund_withdraw_balance_frame:
  "adjust_fund_withdraw_balance n d db = Inr db' \<Longrightarrow> db_fund_withdraws db' = db_fund_withdraws db"
  by (auto simp: adjust_fund_withdraw_balance_def result_simps modify_fund_def)

lemma push_virtual_operation_frame:
  "push_virtual_operation op db = Inr db' \<Longrightarrow> db' = db\<lparr>db_virtual_ops := op # db_virtual_ops db\<rparr>"
  by (auto simp: push_virtual_operation_def result_simps)

lemma asset_neg_Inr: "asset_neg a = Inr m \<Longrightarrow> amount m = - amount a \<and> symbol m = symbol a"
  by (auto simp: asset_neg_def safe_neg_def result_simps split: if_splits)

section \<open>Solvency\<close>

text \<open>No balance and no pending payment is negative.\<close>

definition solvent :: "chain_db \<Rightarrow> bool" where
  "solvent db \<longleftrightarrow>
     (\<forall>a \<in> set (tb_rows (db_accounts db)). 0 \<le> amount (acc_balance a) \<and> 0 \<le> amount (acc_savings_balance a))
     \<and> (\<forall>f \<in> set (tb_rows (db_funds db)). 0 \<le> amount (cfo_fund_balance f))
     \<and> (\<forall>s \<in> set (tb_rows (db_savings db)). 0 \<le> amount (svw_amount s))
     \<and> (\<forall>w \<in> set (tb_rows (db_fund_withdraws db)). 0 \<le> amount (fdw_amount w))"

lemma solvent_frame:
  assumes "solvent db" "db_accounts db' = db_accounts db" "db_funds db' = db_funds db"
    "db_savings db' = db_savings db" "db_fund_withdraws db' = db_fund_withdraws db"
  shows "solvent db'"
  using assms by (simp add: solvent_def)

lemma solvent_account:
  assumes "solvent db"
    "\<And>a. a \<in> set (tb_rows (db_accounts db)) \<Longrightarrow> acc_id a = i \<Longrightarrow>
       0 \<le> amount (acc_balance (f a)) \<and> 0 \<le> amount (acc_savings_balance (f a))"
  shows "solvent (modify_account i f db)"
  using assms by (auto simp: solvent_def modify_account_def table_modify_def set_modify_where)

lemma solvent_fund:
  assumes "solvent db" "\<And>x. x \<in> set (tb_rows (db_funds db)) \<Longrightarrow> cfo_id x = i \<Longrightarrow> 0 \<le> amount (cfo_fund_balance (f x))"
  shows "solvent (modify_fund i f db)"
  using assms by (auto simp: solvent_def modify_fund_def table_modify_def set_modify_where)

lemma adjust_balance_solvent:
  assumes "solvent db" "adjust_balance i d db = Inr db'" "wf_db db"
    and "\<And>a. a \<in> set (tb_rows (db_accounts db)) \<Longrightarrow> acc_id a = i \<Longrightarrow> 0 \<le> amount (acc_balance a) + amount d"
  shows "solvent db'"
proof -
  from assms(2) obtain r b where r: "r \<in> set (tb_rows (db_accounts db))" "acc_id r = i"
    "add_delta (acc_balance r) d = Inr b" and db': "db' = modify_account i (\<lambda>acnt. acnt\<lparr>acc_balance := b\<rparr>) db"
    by (auto simp: adjust_balance_def result_simps dest: table_get_mem)
  show ?thesis unfolding db'
    by (rule solvent_account [OF assms(1)])
      (use assms(1) assms(4) [OF r(1,2)] add_delta_Inr [OF r(3)] in \<open>auto simp: solvent_def\<close>)
qed

lemma credit_solvent:
  "solvent db \<Longrightarrow> adjust_balance i d db = Inr db' \<Longrightarrow> wf_db db \<Longrightarrow> 0 \<le> amount d \<Longrightarrow> solvent db'"
  by (rule adjust_balance_solvent) (auto simp: solvent_def)

lemma debit_solvent:
  assumes "solvent db" "adjust_balance (acc_id a) d db = Inr db'" "wf_db db" "a \<in> set (tb_rows (db_accounts db))"
    "0 \<le> amount (acc_balance a) + amount d"
  shows "solvent db'"
  using assms(1-3)
proof (rule adjust_balance_solvent)
  fix r assume "r \<in> set (tb_rows (db_accounts db))" "acc_id r = acc_id a"
  then have "r = a" using assms(3,4) by (auto simp: wf_db_def wf_table_def distinct_map dest: inj_onD)
  with assms(5) show "0 \<le> amount (acc_balance r) + amount d" by simp
qed

lemma adjust_savings_balance_solvent:
  assumes "solvent db" "adjust_savings_balance i d db = Inr db'"
    and "\<And>a. a \<in> set (tb_rows (db_accounts db)) \<Longrightarrow> acc_id a = i \<Longrightarrow> 0 \<le> amount (acc_savings_balance a) + amount d"
  shows "solvent db'"
proof -
  from assms(2) obtain r b where r: "r \<in> set (tb_rows (db_accounts db))" "acc_id r = i"
    "add_delta (acc_savings_balance r) d = Inr b"
    and db': "db' = modify_account i (\<lambda>acnt. acnt\<lparr>acc_savings_balance := b\<rparr>) db"
    by (auto simp: adjust_savings_balance_def result_simps dest: table_get_mem)
  show ?thesis unfolding db'
    by (rule solvent_account [OF assms(1)])
      (use assms(1) assms(3) [OF r(1,2)] add_delta_Inr [OF r(3)] in \<open>auto simp: solvent_def\<close>)
qed

lemma credit_savings_solvent:
  "solvent db \<Longrightarrow> adjust_savings_balance i d db = Inr db' \<Longrightarrow> 0 \<le> amount d \<Longrightarrow> solvent db'"
  by (rule adjust_savings_balance_solvent) (auto simp: solvent_def)

text \<open>A savings balance is debited after the same account was credited; the credit does not touch its savings.\<close>

lemma credit_debit_savings_solvent:
  assumes "solvent db" "wf_db db" "adjust_balance j c db = Inr d1" "0 \<le> amount c"
    "adjust_savings_balance (acc_id a) d d1 = Inr d2" "a \<in> set (tb_rows (db_accounts db))"
    "0 \<le> amount (acc_savings_balance a) + amount d"
  shows "solvent d2"
proof (rule adjust_savings_balance_solvent [OF credit_solvent [OF assms(1,3,2,4)] assms(5)])
  fix r assume r: "r \<in> set (tb_rows (db_accounts d1))" "acc_id r = acc_id a"
  have "map (\<lambda>a. (acc_id a, acc_savings_balance a)) (tb_rows (db_accounts d1))
      = map (\<lambda>a. (acc_id a, acc_savings_balance a)) (tb_rows (db_accounts db))"
    using assms(3) by (auto simp: adjust_balance_def modify_account_def result_simps table_modify_map simp del: set_map)
  then have "(acc_id r, acc_savings_balance r) \<in> (\<lambda>a. (acc_id a, acc_savings_balance a)) ` set (tb_rows (db_accounts db))"
    using r(1) by (metis (no_types, lifting) image_eqI list.set_map)
  then obtain q where "q \<in> set (tb_rows (db_accounts db))" "acc_id q = acc_id a" "acc_savings_balance q = acc_savings_balance r"
    using r(2) by auto
  moreover from this have "q = a" using assms(2,6) by (auto simp: wf_db_def wf_table_def distinct_map dest: inj_onD)
  ultimately show "0 \<le> amount (acc_savings_balance r) + amount d" using assms(7) by simp
qed

lemma adjust_fund_solvent:
  assumes "solvent db" "adjust_fund_balance n d db = Inr db'"
    and "\<And>x. get_common_fund n db = Inr x \<Longrightarrow> 0 \<le> amount (cfo_fund_balance x) + amount d"
  shows "solvent db'"
proof -
  from assms(2) obtain r b where r: "get_common_fund n db = Inr r" "add_delta (cfo_fund_balance r) d = Inr b"
    and db': "db' = modify_fund (cfo_id r) (\<lambda>cfo. cfo\<lparr>cfo_fund_balance := b\<rparr>) db"
    by (auto simp: adjust_fund_balance_def result_simps)
  show ?thesis unfolding db'
    by (rule solvent_fund [OF assms(1)]) (use assms(3) [OF r(1)] add_delta_Inr [OF r(2)] in auto)
qed

lemma credit_fund_solvent:
  "solvent db \<Longrightarrow> adjust_fund_balance n d db = Inr db' \<Longrightarrow> 0 \<le> amount d \<Longrightarrow> solvent db'"
  by (rule adjust_fund_solvent) (auto simp: solvent_def dest: get_common_fund_mem)

lemma adjust_fund_withdraw_solvent:
  "solvent db \<Longrightarrow> adjust_fund_withdraw_balance n d db = Inr db' \<Longrightarrow> solvent db'"
  by (auto simp: adjust_fund_withdraw_balance_def result_simps solvent_def dest: get_common_fund_mem
      intro!: solvent_fund [unfolded solvent_def])

section \<open>The contract of a balanced step\<close>

text \<open>
  \<open>good\<close> is what a step needs of the node it runs on, and is \<open>True\<close> for the steps that do not
  call out of the chain.
\<close>

locale balanced =
  fixes good :: "'e \<Rightarrow> bool" and run :: "'e \<Rightarrow> 'o \<Rightarrow> chain_db \<Rightarrow> chain_db result"
  assumes balanced: "good env \<Longrightarrow> wf_db db \<Longrightarrow> run env x db = Inr db' \<Longrightarrow> moves db db' 0 nothing nothing"
begin

lemma keeps_books:
  assumes "good env" "wf_db db" "run env x db = Inr db'"
  shows "wf_db db' \<and> unaccounted db' = unaccounted db \<and> savings_gap n db' = savings_gap n db
     \<and> staking_gap m db' = staking_gap m db"
  using balanced [OF assms] by (simp add: moves_def)

lemma balanced_fold:
  assumes "good env" "wf_db db" "foldR (\<lambda>db x. run env x db) db xs = Inr db'"
  shows "moves db db' 0 nothing nothing"
proof (rule foldR_invariant [where I = "\<lambda>d. moves db d 0 nothing nothing" and xs = xs])
  show "moves db s' 0 nothing nothing" if "moves db s 0 nothing nothing" "run env x s = Inr s'" for s x s'
    using moves_trans [OF that(1) balanced [OF assms(1) moves_wf [OF that(1)] that(2)]] by simp
qed (use assms moves_refl in auto)

lemma fold_keeps_books:
  assumes "good env" "wf_db db" "foldR (\<lambda>db x. run env x db) db xs = Inr db'"
  shows "wf_db db' \<and> unaccounted db' = unaccounted db \<and> savings_gap n db' = savings_gap n db
     \<and> staking_gap m db' = staking_gap m db"
  using balanced_fold [OF assms] by (simp add: moves_def)

end

end
