(* ===== verification/Evaluators.thy ===== *)
theory Evaluators
  imports Ledger
begin

text \<open>
  The effect of every operation on the chain state, from \<^verbatim>\<open>sigmaengine_evaluator.cpp\<close> and the
  dispatch of \<^verbatim>\<open>database::apply_operation\<close>: one definition per \<^verbatim>\<open>do_apply\<close>, with its guards in
  the order of the source. The theorems: no operation creates or destroys value except
  \<^verbatim>\<open>print\<close> and \<^verbatim>\<open>burn\<close>, which move the recorded supply by the same amount; pending savings and
  staking requests stay backed by the balances that pay them; what a transfer does and when
  it fails; who may run the privileged operations.
\<close>

section \<open>The node\<close>

text \<open>
  What an evaluator reads besides the chain state: whether the node is producing a block, the
  accounts its operator black-listed, the arithmetic on \<^verbatim>\<open>double\<close>, which the model does not
  interpret (\<open>dbl_interest\<close> is the interest \<^verbatim>\<open>( amount * percent ) / 100.0\<close> as a 64 bit integer; the
  conversion of a double outside that range is undefined, the value \<open>None\<close>), and what plugins register: the custom operation interpreters and the handlers of
  \<^verbatim>\<open>applied_block\<close>. An interpreter undoes its own session when it throws; the
  exceptions of a handler are logged and dropped, and what it has done by then stays.
\<close>

record double_ops =
  dbl_minus_one :: double
  dbl_above_minus_one :: "double \<Rightarrow> bool"
  dbl_interest :: "int \<Rightarrow> double \<Rightarrow> int option"
  dbl_parse :: "string \<Rightarrow> double option"

datatype (plugins only: code) custom_outcome =
    Applied chain_db
  | Fc_exception fc_error
  | Other_exception

record node_env =
  env_producing :: bool
  env_black_list :: "account_name_type list"
  env_doubles :: double_ops
  env_interpreters :: "string \<Rightarrow> (operation \<Rightarrow> chain_db \<Rightarrow> custom_outcome) option"
  env_on_applied_block :: "signed_block \<Rightarrow> chain_db \<Rightarrow> chain_db"

definition SIGMAENGINE_HARDFORK_0_1 :: nat where "SIGMAENGINE_HARDFORK_0_1 = 1"
definition SIGMAENGINE_OWNER_UPDATE_LIMIT :: int where "SIGMAENGINE_OWNER_UPDATE_LIMIT = 5"
definition SIGMAENGINE_OWNER_AUTH_RECOVERY_PERIOD :: nat where "SIGMAENGINE_OWNER_AUTH_RECOVERY_PERIOD = days_sec 30"
definition SIGMAENGINE_ACCOUNT_RECOVERY_REQUEST_EXPIRATION_PERIOD :: nat where
  "SIGMAENGINE_ACCOUNT_RECOVERY_REQUEST_EXPIRATION_PERIOD = days_sec 1"
definition SIGMAENGINE_MAX_BOBSERVER_URL_LENGTH :: nat where "SIGMAENGINE_MAX_BOBSERVER_URL_LENGTH = 2048"

section \<open>Guards the evaluators share\<close>

text \<open>The accounts an authority names must exist.\<close>

definition accounts_exist :: "authority \<Rightarrow> chain_db \<Rightarrow> unit result" where
  "accounts_exist a db = foldR (\<lambda>_ x. bindR (get_account (fst x) db) (\<lambda>_. Inr ())) () (account_auths a)"

definition accounts_exist_opt :: "authority option \<Rightarrow> chain_db \<Rightarrow> unit result" where
  "accounts_exist_opt a db = (case a of None \<Rightarrow> Inr () | Some a \<Rightarrow> accounts_exist a db)"

definition require_root_name :: "account_name_type \<Rightarrow> chain_db \<Rightarrow> unit result" where
  "require_root_name root db =
     bindR (get_account SIGMAENGINE_ROOT_ACCOUNT db) (\<lambda>origin.
     bindR (get_account root db) (\<lambda>bypass.
     fc_assert (acc_name origin = acc_name bypass) Not_root (Inr ())))"

definition require_root :: "account_name_type \<Rightarrow> chain_db \<Rightarrow> unit result" where
  "require_root root db =
     bindR (get_account SIGMAENGINE_ROOT_ACCOUNT db) (\<lambda>origin.
     bindR (get_account root db) (\<lambda>bypass.
     fc_assert (acc_name origin = acc_name bypass) Not_root (
     fc_assert (acc_memo_key origin = acc_memo_key bypass) Not_root (Inr ()))))"

text \<open>\<^verbatim>\<open>FC_ASSERT( balance >= amount )\<close>: comparing assets of different symbols throws.\<close>

definition require_ge :: "asset \<Rightarrow> asset \<Rightarrow> unit result" where
  "require_ge a b = bindR (asset_ge a b) (\<lambda>c. fc_assert c Insufficient_funds (Inr ()))"

definition require_balance :: "account_object \<Rightarrow> asset \<Rightarrow> unit result" where
  "require_balance a am = bindR (get_balance a (symbol am)) (\<lambda>b. require_ge b am)"

section \<open>Accounts and authorities\<close>

definition account_create_apply :: "account_create_operation \<Rightarrow> chain_db \<Rightarrow> chain_db result" where
  "account_create_apply o' db =
     bindR (accounts_exist (ac_owner o') db) (\<lambda>_.
     bindR (accounts_exist (ac_active o') db) (\<lambda>_.
     bindR (accounts_exist (ac_posting o') db) (\<lambda>_.
     bindR (table_create account_clash (\<lambda>i. (new_account i)
              \<lparr>acc_name := ac_new_account_name o', acc_memo_key := ac_memo_key o', acc_created := head_block_time db,
               acc_mined := False, acc_recovery_account := ac_creator o', acc_json_metadata := ac_json_metadata o'\<rparr>)
              (db_accounts db)) (\<lambda>accounts.
     bindR (table_create no_unique_key (\<lambda>i. \<lparr>aut_id = i, aut_account = ac_new_account_name o', aut_owner = ac_owner o',
              aut_active = ac_active o', aut_posting = ac_posting o', aut_last_owner_update = 0\<rparr>)
              (db_authorities db)) (\<lambda>authorities.
     Inr (db\<lparr>db_accounts := accounts, db_authorities := authorities\<rparr>))))))"

definition update_account_object :: "account_update_operation \<Rightarrow> time_point_sec \<Rightarrow> account_object \<Rightarrow> account_object" where
  "update_account_object o' now acc =
     (let acc = (if au_memo_key o' \<noteq> 0 then acc\<lparr>acc_memo_key := au_memo_key o'\<rparr> else acc);
          acc = acc\<lparr>acc_last_account_update := now\<rparr>
      in if length (au_json_metadata o') > 0 then acc\<lparr>acc_json_metadata := au_json_metadata o'\<rparr> else acc)"

definition update_account_auth :: "account_update_operation \<Rightarrow> account_authority_object \<Rightarrow> account_authority_object" where
  "update_account_auth o' auth =
     (let auth = (case au_active o' of None \<Rightarrow> auth | Some a \<Rightarrow> auth\<lparr>aut_active := a\<rparr>)
      in case au_posting o' of None \<Rightarrow> auth | Some a \<Rightarrow> auth\<lparr>aut_posting := a\<rparr>)"

definition update_owner ::
  "account_update_operation \<Rightarrow> account_object \<Rightarrow> account_authority_object \<Rightarrow> chain_db \<Rightarrow> chain_db result" where
  "update_owner o' account account_auth db =
     (case au_owner o' of
        None \<Rightarrow> Inr db
      | Some owner \<Rightarrow>
          fc_assert (int (head_block_time db) - int (aut_last_owner_update account_auth) > SIGMAENGINE_OWNER_UPDATE_LIMIT)
            Owner_update_too_soon (
          bindR (accounts_exist owner db) (\<lambda>_.
          update_owner_authority (acc_name account) owner db)))"

definition account_update_apply :: "account_update_operation \<Rightarrow> chain_db \<Rightarrow> chain_db result" where
  "account_update_apply o' db =
     fc_assert (has_hardfork SIGMAENGINE_HARDFORK_0_1 db \<longrightarrow> au_account o' \<noteq> SIGMAENGINE_TEMP_ACCOUNT) Temp_account (
     bindR (case au_posting o' of None \<Rightarrow> Inr () | Some a \<Rightarrow> authority_validate a) (\<lambda>_.
     bindR (get_account (au_account o') db) (\<lambda>account.
     bindR (get_account_authority (au_account o') db) (\<lambda>account_auth.
     bindR (update_owner o' account account_auth db) (\<lambda>db.
     bindR (accounts_exist_opt (au_active o') db) (\<lambda>_.
     bindR (accounts_exist_opt (au_posting o') db) (\<lambda>_.
     let db = modify_account (acc_id account) (update_account_object o' (head_block_time db)) db in
     Inr (if au_active o' \<noteq> None \<or> au_posting o' \<noteq> None
          then db\<lparr>db_authorities := table_modify aut_id (aut_id account_auth) (update_account_auth o') (db_authorities db)\<rparr>
          else db))))))))"

definition account_auth_apply :: "account_auth_operation \<Rightarrow> chain_db \<Rightarrow> chain_db result" where
  "account_auth_apply o' db =
     bindR (get_account (aa_account o') db) (\<lambda>_.
     case table_find (\<lambda>a. tok_account a = aa_account o' \<and> c_str (tok_auth_type a) = c_str (aa_auth_type o')) (db_auth_tokens db) of
       None \<Rightarrow>
         bindR (table_create auth_token_clash (\<lambda>i. \<lparr>tok_id = i, tok_account = aa_account o', tok_auth_type = aa_auth_type o',
             tok_auth_token = aa_auth_token o', tok_reg_date = time_add (head_block_time db) (9 * 3600)\<rparr>) (db_auth_tokens db)) (\<lambda>t.
         Inr (db\<lparr>db_auth_tokens := t\<rparr>))
     | Some itr \<Rightarrow>
         Inr (db\<lparr>db_auth_tokens := table_modify tok_id (tok_id itr) (\<lambda>a. a\<lparr>tok_auth_token := aa_auth_token o',
           tok_reg_date := time_add (head_block_time db) (9 * 3600)\<rparr>) (db_auth_tokens db)\<rparr>))"

definition set_blacklist_account_apply :: "set_blacklist_account_operation \<Rightarrow> chain_db \<Rightarrow> chain_db result" where
  "set_blacklist_account_apply o' db =
     bindR (require_root (bl_root o') db) (\<lambda>_.
     bindR (get_account (bl_account o') db) (\<lambda>account.
     Inr (if acc_banned account \<noteq> bl_banned o'
          then modify_account (acc_id account) (\<lambda>b. b\<lparr>acc_banned := bl_banned o'\<rparr>) db else db)))"

section \<open>Account recovery\<close>

text \<open>
  The first bobserver of \<^verbatim>\<open>by_vote_name\<close>: the most votes, then the least name. On an empty
  index the source would dereference the end iterator; genesis creates one bobserver and none
  is ever removed, and the model stops with an error of its own there.
\<close>

definition top_bobserver :: "chain_db \<Rightarrow> bobserver_object result" where
  "top_bobserver db =
     of_option (Assert_exception Out_of_range) (index_begin (\<lambda>b. (- bo_votes b, bo_account b)) (tb_rows (db_bobservers db)))"

definition request_account_recovery_apply :: "request_account_recovery_operation \<Rightarrow> chain_db \<Rightarrow> chain_db result" where
  "request_account_recovery_apply o' db =
     bindR (get_account (rr_account_to_recover o') db) (\<lambda>account_to_recover.
     bindR (if length (name_string (acc_recovery_account account_to_recover)) > 0
            then fc_assert (acc_recovery_account account_to_recover = rr_recovery_account o') Wrong_recovery_partner (Inr ())
            else bindR (top_bobserver db) (\<lambda>b.
              fc_assert (bo_account b = rr_recovery_account o') Wrong_recovery_partner (Inr ()))) (\<lambda>_.
     let a = rr_new_owner_authority o';
         expires = time_add (head_block_time db) SIGMAENGINE_ACCOUNT_RECOVERY_REQUEST_EXPIRATION_PERIOD
     in case table_find (\<lambda>r. rrq_account_to_recover r = rr_account_to_recover o') (db_recovery_requests db) of
          None \<Rightarrow>
            fc_assert (\<not> is_impossible a) Impossible_authority (
            fc_assert (weight_threshold a \<noteq> 0) Open_authority (
            bindR (accounts_exist a db) (\<lambda>_.
            bindR (table_create no_unique_key (\<lambda>i. \<lparr>rrq_id = i, rrq_account_to_recover = rr_account_to_recover o',
                rrq_new_owner_authority = a, rrq_expires = expires\<rparr>) (db_recovery_requests db)) (\<lambda>t.
            Inr (db\<lparr>db_recovery_requests := t\<rparr>)))))
        | Some request \<Rightarrow>
            (if weight_threshold a = 0 then
               Inr (db\<lparr>db_recovery_requests := table_remove rrq_id (rrq_id request) (db_recovery_requests db)\<rparr>)
             else
               fc_assert (\<not> is_impossible a) Impossible_authority (
               bindR (accounts_exist a db) (\<lambda>_.
               Inr (db\<lparr>db_recovery_requests := table_modify rrq_id (rrq_id request)
                 (\<lambda>req. req\<lparr>rrq_new_owner_authority := a, rrq_expires := expires\<rparr>) (db_recovery_requests db)\<rparr>))))))"

definition recover_account_apply :: "recover_account_operation \<Rightarrow> chain_db \<Rightarrow> chain_db result" where
  "recover_account_apply o' db =
     bindR (get_account (ra_account_to_recover o') db) (\<lambda>account.
     fc_assert (int (head_block_time db) - int (acc_last_account_recovery account) > SIGMAENGINE_OWNER_UPDATE_LIMIT)
       Owner_update_too_soon (
     bindR (of_option (Assert_exception No_recovery_request)
              (table_find (\<lambda>r. rrq_account_to_recover r = ra_account_to_recover o') (db_recovery_requests db))) (\<lambda>request.
     fc_assert (rrq_new_owner_authority request = ra_new_owner_authority o') Authority_mismatch (
     fc_assert (list_ex (\<lambda>h. hst_account h = ra_account_to_recover o'
                  \<and> hst_previous_owner_authority h = ra_recent_owner_authority o') (tb_rows (db_histories db)))
       No_recent_authority (
     bindR (update_owner_authority (acc_name account) (ra_new_owner_authority o')
              (db\<lparr>db_recovery_requests := table_remove rrq_id (rrq_id request) (db_recovery_requests db)\<rparr>)) (\<lambda>db.
     Inr (modify_account (acc_id account) (\<lambda>a. a\<lparr>acc_last_account_recovery := head_block_time db\<rparr>) db)))))))"

definition change_recovery_account_apply :: "change_recovery_account_operation \<Rightarrow> chain_db \<Rightarrow> chain_db result" where
  "change_recovery_account_apply o' db =
     bindR (get_account (cr_new_recovery_account o') db) (\<lambda>_.
     bindR (get_account (cr_account_to_recover o') db) (\<lambda>account_to_recover.
     let effective = time_add (head_block_time db) SIGMAENGINE_OWNER_AUTH_RECOVERY_PERIOD
     in case table_find (\<lambda>r. crq_account_to_recover r = cr_account_to_recover o') (db_change_requests db) of
          None \<Rightarrow>
            bindR (table_create no_unique_key (\<lambda>i. \<lparr>crq_id = i, crq_account_to_recover = cr_account_to_recover o',
                crq_recovery_account = cr_new_recovery_account o', crq_effective_on = effective\<rparr>) (db_change_requests db)) (\<lambda>t.
            Inr (db\<lparr>db_change_requests := t\<rparr>))
        | Some request \<Rightarrow>
            Inr (if acc_recovery_account account_to_recover \<noteq> cr_new_recovery_account o'
                 then db\<lparr>db_change_requests := table_modify crq_id (crq_id request)
                   (\<lambda>req. req\<lparr>crq_recovery_account := cr_new_recovery_account o', crq_effective_on := effective\<rparr>)
                   (db_change_requests db)\<rparr>
                 else db\<lparr>db_change_requests := table_remove crq_id (crq_id request) (db_change_requests db)\<rparr>)))"

definition decline_voting_rights_apply :: "decline_voting_rights_operation \<Rightarrow> chain_db \<Rightarrow> chain_db result" where
  "decline_voting_rights_apply o' db =
     bindR (get_account (dv_account o') db) (\<lambda>account.
     case table_find (\<lambda>r. dvq_account r = acc_id account) (db_decline_requests db) of
       None \<Rightarrow>
         fc_assert (dv_decline o') Request_missing (
         bindR (table_create decline_clash (\<lambda>i. \<lparr>dvq_id = i, dvq_account = acc_id account,
             dvq_effective_date = time_add (head_block_time db) SIGMAENGINE_OWNER_AUTH_RECOVERY_PERIOD\<rparr>)
             (db_decline_requests db)) (\<lambda>t.
         Inr (db\<lparr>db_decline_requests := t\<rparr>)))
     | Some itr \<Rightarrow>
         fc_assert (\<not> dv_decline o') Request_exists (
         Inr (db\<lparr>db_decline_requests := table_remove dvq_id (dvq_id itr) (db_decline_requests db)\<rparr>)))"

definition reset_account_apply :: "reset_account_operation \<Rightarrow> chain_db \<Rightarrow> chain_db result" where
  "reset_account_apply o' db = fc_assert False Disabled_operation (Inr db)"

definition set_reset_account_apply :: "set_reset_account_operation \<Rightarrow> chain_db \<Rightarrow> chain_db result" where
  "set_reset_account_apply o' db = fc_assert False Disabled_operation (Inr db)"

section \<open>Block observers and producers\<close>

definition bobserver_update_apply :: "bobserver_update_operation \<Rightarrow> chain_db \<Rightarrow> chain_db result" where
  "bobserver_update_apply o' db =
     bindR (require_root_name (bu_root o') db) (\<lambda>_.
     bindR (get_account (bu_owner o') db) (\<lambda>_.
     fc_assert (length (bu_url o') \<le> SIGMAENGINE_MAX_BOBSERVER_URL_LENGTH) Url_too_long (
     case find_bobserver (bu_owner o') db of
       Some itr \<Rightarrow>
         Inr (modify_bobserver (bo_id itr) (\<lambda>bo. bo\<lparr>bo_url := bu_url o', bo_signing_key := bu_block_signing_key o',
           bo_is_excepted := False\<rparr>) db)
     | None \<Rightarrow>
         bindR (table_create bobserver_clash (\<lambda>i. (new_bobserver i)\<lparr>bo_account := bu_owner o', bo_bp_owner := bu_owner o',
             bo_url := bu_url o', bo_signing_key := bu_block_signing_key o', bo_created := head_block_time db,
             bo_is_excepted := False\<rparr>) (db_bobservers db)) (\<lambda>t.
         Inr (db\<lparr>db_bobservers := t\<rparr>)))))"

text \<open>The count is a \<^verbatim>\<open>uint32_t\<close> and wraps below zero.\<close>

definition update_bproducer_apply :: "update_bproducer_operation \<Rightarrow> chain_db \<Rightarrow> chain_db result" where
  "update_bproducer_apply o' db =
     bindR (require_root_name (ub_root o') db) (\<lambda>_.
     bindR (get_bobserver (ub_bobserver o') db) (\<lambda>bobserver.
     fc_assert (\<not> bo_is_excepted bobserver) Excepted_bobserver (
     fc_assert (ub_approve o' \<longrightarrow> SIGMAENGINE_MAX_VOTED_BOBSERVERS_HF0 > dgp_current_bproducer_count (db_dgp db)) Producer_limit (
     Inr (if ub_approve o' \<noteq> bo_is_bproducer bobserver
          then modify_dgp (\<lambda>dgp. dgp\<lparr>dgp_current_bproducer_count :=
                   (if ub_approve o' then (dgp_current_bproducer_count dgp + 1) mod 2 ^ 32
                    else (dgp_current_bproducer_count dgp + (2 ^ 32 - 1)) mod 2 ^ 32)\<rparr>)
                 (modify_bobserver (bo_id bobserver) (\<lambda>b. b\<lparr>bo_is_bproducer := ub_approve o'\<rparr>) db)
          else db)))))"

definition except_bobserver_apply :: "except_bobserver_operation \<Rightarrow> chain_db \<Rightarrow> chain_db result" where
  "except_bobserver_apply o' db =
     bindR (require_root_name (eb_root o') db) (\<lambda>_.
     bindR (get_bobserver (eb_bobserver o') db) (\<lambda>bobserver.
     fc_assert (\<not> bo_is_bproducer bobserver) Still_producer (
     Inr (modify_bobserver (bo_id bobserver) (\<lambda>b. b\<lparr>bo_is_excepted := True\<rparr>) db))))"

section \<open>Custom operations\<close>

definition custom_apply :: "node_env \<Rightarrow> custom_operation \<Rightarrow> chain_db \<Rightarrow> chain_db result" where
  "custom_apply env o' db = fc_assert (env_producing env \<longrightarrow> length (cu_data o') \<le> 8192) Data_too_large (Inr db)"

text \<open>The part the three interpreted operations share: find the interpreter, run it, and keep its errors only when producing.\<close>

definition run_interpreter :: "node_env \<Rightarrow> string \<Rightarrow> operation \<Rightarrow> chain_db \<Rightarrow> chain_db result" where
  "run_interpreter env i op db =
     (case env_interpreters env i of
        None \<Rightarrow> Inr db
      | Some eval \<Rightarrow>
          (case eval op db of
             Applied db' \<Rightarrow> Inr db'
           | Fc_exception e \<Rightarrow> (if env_producing env then Inl e else Inr db)
           | Other_exception \<Rightarrow> Inr db))"

definition custom_json_apply :: "node_env \<Rightarrow> custom_json_operation \<Rightarrow> chain_db \<Rightarrow> chain_db result" where
  "custom_json_apply env o' db =
     fc_assert (env_producing env \<longrightarrow> length (cj_json o') \<le> 8192) Data_too_large (
     run_interpreter env (cj_id o') (Custom_json o') db)"

definition custom_json_dapp_apply :: "node_env \<Rightarrow> custom_json_dapp_operation \<Rightarrow> chain_db \<Rightarrow> chain_db result" where
  "custom_json_dapp_apply env o' db =
     fc_assert (env_producing env \<longrightarrow> length (cd_json o') \<le> 8192) Data_too_large (
     run_interpreter env (cd_id o') (Custom_json_dapp o') db)"

definition custom_binary_apply :: "node_env \<Rightarrow> custom_binary_operation \<Rightarrow> chain_db \<Rightarrow> chain_db result" where
  "custom_binary_apply env o' db =
     fc_assert (env_producing env \<longrightarrow> length (cb_data o') \<le> 8192) Data_too_large (
     run_interpreter env (cb_id o') (Custom_binary o') db)"

section \<open>Transfers, issue and destruction\<close>

definition transfer_apply :: "node_env \<Rightarrow> transfer_operation \<Rightarrow> chain_db \<Rightarrow> chain_db result" where
  "transfer_apply env o' db =
     bindR (get_account (tr_from o') db) (\<lambda>from_account.
     bindR (get_account (tr_to o') db) (\<lambda>to_account.
     bindR (require_balance from_account (tr_amount o')) (\<lambda>_.
     fc_assert (\<not> acc_banned from_account) Account_banned (
     fc_assert (\<not> is_blacklist (env_black_list env) (tr_from o')) Account_banned (
     bindR (asset_neg (tr_amount o')) (\<lambda>minus.
     bindR (adjust_balance (acc_id from_account) minus db) (\<lambda>db.
     adjust_balance (acc_id to_account) (tr_amount o') db)))))))"

definition print_apply :: "print_operation \<Rightarrow> chain_db \<Rightarrow> chain_db result" where
  "print_apply o' db =
     bindR (require_root (pr_root o') db) (\<lambda>_.
     bindR (get_account (pr_account o') db) (\<lambda>account.
     bindR (adjust_balance (acc_id account) (pr_amount o') db) (\<lambda>db.
     adjust_supply (pr_amount o') db)))"

definition burn_apply :: "burn_operation \<Rightarrow> chain_db \<Rightarrow> chain_db result" where
  "burn_apply o' db =
     bindR (require_root (bn_root o') db) (\<lambda>_.
     bindR (get_account (bn_account o') db) (\<lambda>account.
     bindR (asset_neg (bn_amount o')) (\<lambda>minus.
     bindR (adjust_balance (acc_id account) minus db) (\<lambda>db.
     adjust_supply minus db))))"

section \<open>Savings\<close>

definition transfer_savings_apply :: "node_env \<Rightarrow> transfer_savings_operation \<Rightarrow> chain_db \<Rightarrow> chain_db result" where
  "transfer_savings_apply env op db =
     bindR (get_account (ts_from op) db) (\<lambda>from.
     bindR (get_account (ts_to op) db) (\<lambda>to.
     bindR (require_balance from (ts_amount op)) (\<lambda>_.
     fc_assert (ts_complete op > head_block_time db) Unnamed_assertion (
     fc_assert (ts_request_id op \<ge> 0) Unnamed_assertion (
     fc_assert (\<not> acc_banned from) Account_banned (
     fc_assert (\<not> is_blacklist (env_black_list env) (ts_from op)) Account_banned (
     bindR (asset_neg (ts_amount op)) (\<lambda>minus.
     bindR (adjust_balance (acc_id from) minus db) (\<lambda>db.
     bindR (adjust_savings_balance (acc_id to) (ts_amount op) db) (\<lambda>db.
     bindR (table_create savings_clash (\<lambda>i. \<lparr>svw_id = i, svw_from = ts_from op, svw_to = ts_to op, svw_memo = ts_memo op,
              svw_request_id = ts_request_id op, svw_amount = ts_amount op, svw_total_amount = ts_amount op,
              svw_split_pay_order = ts_split_pay_order op, svw_split_pay_month = ts_split_pay_month op,
              svw_complete = ts_complete op\<rparr>) (db_savings db)) (\<lambda>t.
     Inr (db\<lparr>db_savings := t\<rparr>))))))))))))"

definition cancel_transfer_savings_apply :: "cancel_transfer_savings_operation \<Rightarrow> chain_db \<Rightarrow> chain_db result" where
  "cancel_transfer_savings_apply op db =
     bindR (get_savings_withdraw (ct_from op) (ct_request_id op) db) (\<lambda>swo.
     fc_assert (svw_to swo = ct_to op) Unnamed_assertion (
     bindR (require_ge (ct_amount op) (svw_amount swo)) (\<lambda>_.
     bindR (get_account (svw_to swo) db) (\<lambda>to.
     bindR (get_savings_balance to (symbol (svw_amount swo))) (\<lambda>savings_balance.
     bindR (require_ge savings_balance (svw_amount swo)) (\<lambda>_.
     bindR (get_account (svw_from swo) db) (\<lambda>from.
     bindR (adjust_balance (acc_id from) (svw_amount swo) db) (\<lambda>db.
     bindR (asset_neg (svw_amount swo)) (\<lambda>minus.
     bindR (adjust_savings_balance (acc_id to) minus db) (\<lambda>db.
     Inr (db\<lparr>db_savings := table_remove svw_id (svw_id swo) (db_savings db)\<rparr>)))))))))))"

definition fill_savings :: "savings_withdraw_object \<Rightarrow> operation" where
  "fill_savings swo =
     Fill_transfer_savings \<lparr>ft_from = svw_from swo, ft_to = svw_to swo, ft_amount = svw_amount swo,
       ft_total_amount = svw_total_amount swo, ft_split_pay_order = svw_split_pay_order swo,
       ft_split_pay_month = svw_split_pay_month swo, ft_request_id = svw_request_id swo, ft_memo = svw_memo swo\<rparr>"

definition conclusion_transfer_savings_apply :: "conclusion_transfer_savings_operation \<Rightarrow> chain_db \<Rightarrow> chain_db result" where
  "conclusion_transfer_savings_apply op db =
     bindR (get_savings_withdraw (co_from op) (co_request_id op) db) (\<lambda>swo.
     fc_assert (svw_to swo = co_to op) Unnamed_assertion (
     bindR (get_account (svw_to swo) db) (\<lambda>to.
     bindR (get_savings_balance to (symbol (svw_amount swo))) (\<lambda>savings_balance.
     bindR (require_ge savings_balance (svw_amount swo)) (\<lambda>_.
     bindR (adjust_balance (acc_id to) (svw_amount swo) db) (\<lambda>db.
     bindR (asset_neg (svw_amount swo)) (\<lambda>minus.
     bindR (adjust_savings_balance (acc_id to) minus db) (\<lambda>db.
     bindR (push_virtual_operation (fill_savings swo) db) (\<lambda>db.
     Inr (db\<lparr>db_savings := table_remove svw_id (svw_id swo) (db_savings db)\<rparr>))))))))))"

section \<open>Staking funds\<close>

text \<open>
  Indexing \<^verbatim>\<open>percent_interest\<close> outside the \<open>2 \<times> 12\<close> array is undefined in the source; validation
  excludes it and the model stops there.
\<close>

definition interest_at :: "common_fund_object \<Rightarrow> nat \<Rightarrow> nat \<Rightarrow> double result" where
  "interest_at f usertype month =
     (if usertype < length (cfo_percent_interest f) \<and> month < length (cfo_percent_interest f ! usertype)
      then Inr (cfo_percent_interest f ! usertype ! month) else Inl (Assert_exception Out_of_range))"

definition staking_fund_apply :: "node_env \<Rightarrow> staking_fund_operation \<Rightarrow> chain_db \<Rightarrow> chain_db result" where
  "staking_fund_apply env op db =
     bindR (get_account (sf_from op) db) (\<lambda>from.
     let month = (sf_month op + 255) mod 256 in
     bindR (require_balance from (sf_amount op)) (\<lambda>_.
     fc_assert (sf_request_id op \<ge> 0) Unnamed_assertion (
     bindR (get_common_fund (sf_fund_name op) db) (\<lambda>fund.
     bindR (interest_at fund (sf_usertype op) month) (\<lambda>percent_interest.
     fc_assert (dbl_above_minus_one (env_doubles env) percent_interest) Interest_not_set (
     bindR (asset_neg (sf_amount op)) (\<lambda>minus.
     bindR (adjust_balance (acc_id from) minus db) (\<lambda>db.
     bindR (adjust_fund_balance (sf_fund_name op) (sf_amount op) db) (\<lambda>db.
     bindR (of_option Undefined_behaviour (dbl_interest (env_doubles env) (amount (sf_amount op)) percent_interest)) (\<lambda>interest.
     bindR (asset_add (sf_amount op) (SGT interest)) (\<lambda>total.
     bindR (adjust_fund_withdraw_balance (sf_fund_name op) total db) (\<lambda>db.
     bindR (table_create fund_withdraw_clash (\<lambda>i. \<lparr>fdw_id = i, fdw_from = sf_from op, fdw_fund_name = sf_fund_name op,
              fdw_memo = sf_memo op, fdw_request_id = sf_request_id op, fdw_amount = total,
              fdw_complete = time_add (head_block_time db) (days_sec (30 * sf_month op))\<rparr>) (db_fund_withdraws db)) (\<lambda>t.
     Inr (db\<lparr>db_fund_withdraws := t\<rparr>))))))))))))))"

definition fill_staking :: "account_name_type \<Rightarrow> string \<Rightarrow> fund_withdraw_object \<Rightarrow> operation" where
  "fill_staking to fund_name dwo =
     Fill_staking_fund \<lparr>fs_from = to, fs_fund_name = fund_name, fs_amount = fdw_amount dwo,
       fs_request_id = fdw_request_id dwo, fs_memo = fdw_memo dwo\<rparr>"

text \<open>
  Paying out a staking request: the steps \<^verbatim>\<open>conclusion_staking\<close> and \<^verbatim>\<open>return_staking_fund\<close> share
  from the lookup of the request on. The two name the same account, the \<^verbatim>\<open>from\<close> of the request.
\<close>

definition pay_staking :: "account_name_type \<Rightarrow> string \<Rightarrow> nat \<Rightarrow> chain_db \<Rightarrow> chain_db result" where
  "pay_staking to fund_name request_id db =
     bindR (get_fund_withdraw to fund_name request_id db) (\<lambda>dwo.
     bindR (get_common_fund fund_name db) (\<lambda>fund.
     bindR (require_ge (cfo_fund_balance fund) (fdw_amount dwo)) (\<lambda>_.
     bindR (get_account (fdw_from dwo) db) (\<lambda>account.
     bindR (adjust_balance (acc_id account) (fdw_amount dwo) db) (\<lambda>db.
     bindR (asset_neg (fdw_amount dwo)) (\<lambda>minus.
     bindR (adjust_fund_balance fund_name minus db) (\<lambda>db.
     bindR (adjust_fund_withdraw_balance fund_name minus db) (\<lambda>db.
     bindR (push_virtual_operation (fill_staking (fdw_from dwo) fund_name dwo) db) (\<lambda>db.
     Inr (db\<lparr>db_fund_withdraws := table_remove fdw_id (fdw_id dwo) (db_fund_withdraws db)\<rparr>))))))))))"

definition conclusion_staking_apply :: "conclusion_staking_operation \<Rightarrow> chain_db \<Rightarrow> chain_db result" where
  "conclusion_staking_apply op db =
     bindR (require_root (cs_root op) db) (\<lambda>_. pay_staking (cs_from op) (cs_fund_name op) (cs_request_id op) db)"

definition return_staking_fund_apply :: "return_staking_fund_operation \<Rightarrow> chain_db \<Rightarrow> chain_db result" where
  "return_staking_fund_apply op db =
     bindR (require_root (rf_root op) db) (\<lambda>_. pay_staking (rf_to op) (rf_fund_name op) (rf_request_id op) db)"

definition transfer_fund_apply :: "transfer_fund_operation \<Rightarrow> chain_db \<Rightarrow> chain_db result" where
  "transfer_fund_apply o' db =
     bindR (get_account (tf_from o') db) (\<lambda>from_account.
     bindR (require_balance from_account (tf_amount o')) (\<lambda>_.
     bindR (adjust_fund_balance (tf_fund_name o') (tf_amount o') db) (\<lambda>db.
     bindR (asset_neg (tf_amount o')) (\<lambda>minus.
     adjust_balance (acc_id from_account) minus db))))"

text \<open>\<open>month\<close> is the \<^verbatim>\<open>int\<close> \<^verbatim>\<open>o.month-1\<close>, out of range for month zero.\<close>

definition set_fund_interest_apply :: "node_env \<Rightarrow> set_fund_interest_operation \<Rightarrow> chain_db \<Rightarrow> chain_db result" where
  "set_fund_interest_apply env o' db =
     bindR (require_root (fi_root o') db) (\<lambda>_.
     bindR (get_common_fund (fi_fund_name o') db) (\<lambda>fund.
     fc_assert (fi_month o' \<ge> 1) Out_of_range (
     bindR (interest_at fund (fi_usertype o') (fi_month o' - 1)) (\<lambda>_.
     bindR (of_option Parse_error_exception (dbl_parse (env_doubles env) (fi_percent_interest o'))) (\<lambda>percent.
     Inr (modify_fund (cfo_id fund) (\<lambda>cfo. cfo\<lparr>cfo_percent_interest := (cfo_percent_interest cfo)
              [fi_usertype o' := (cfo_percent_interest cfo ! fi_usertype o')[fi_month o' - 1 := percent]],
            cfo_last_update := head_block_time db\<rparr>) db))))))"

section \<open>Dispatch\<close>

text \<open>
  \<^verbatim>\<open>get_evaluator\<close> finds the evaluator of the operation's tag. Virtual operations have none;
  validation rejects them before an evaluator is looked up.
\<close>

fun run_evaluator :: "node_env \<Rightarrow> operation \<Rightarrow> chain_db \<Rightarrow> chain_db result" where
  "run_evaluator env (Transfer o') db = transfer_apply env o' db"
| "run_evaluator env (Account_create o') db = account_create_apply o' db"
| "run_evaluator env (Account_update o') db = account_update_apply o' db"
| "run_evaluator env (Bobserver_update o') db = bobserver_update_apply o' db"
| "run_evaluator env (Custom o') db = custom_apply env o' db"
| "run_evaluator env (Custom_json o') db = custom_json_apply env o' db"
| "run_evaluator env (Request_account_recovery o') db = request_account_recovery_apply o' db"
| "run_evaluator env (Recover_account o') db = recover_account_apply o' db"
| "run_evaluator env (Change_recovery_account o') db = change_recovery_account_apply o' db"
| "run_evaluator env (Custom_binary o') db = custom_binary_apply env o' db"
| "run_evaluator env (Decline_voting_rights o') db = decline_voting_rights_apply o' db"
| "run_evaluator env (Reset_account o') db = reset_account_apply o' db"
| "run_evaluator env (Set_reset_account o') db = set_reset_account_apply o' db"
| "run_evaluator env (Update_bproducer o') db = update_bproducer_apply o' db"
| "run_evaluator env (Except_bobserver o') db = except_bobserver_apply o' db"
| "run_evaluator env (Account_auth o') db = account_auth_apply o' db"
| "run_evaluator env (Print o') db = print_apply o' db"
| "run_evaluator env (Burn o') db = burn_apply o' db"
| "run_evaluator env (Transfer_savings o') db = transfer_savings_apply env o' db"
| "run_evaluator env (Cancel_transfer_savings o') db = cancel_transfer_savings_apply o' db"
| "run_evaluator env (Conclusion_transfer_savings o') db = conclusion_transfer_savings_apply o' db"
| "run_evaluator env (Staking_fund o') db = staking_fund_apply env o' db"
| "run_evaluator env (Conclusion_staking o') db = conclusion_staking_apply o' db"
| "run_evaluator env (Transfer_fund o') db = transfer_fund_apply o' db"
| "run_evaluator env (Set_fund_interest o') db = set_fund_interest_apply env o' db"
| "run_evaluator env (Return_staking_fund o') db = return_staking_fund_apply o' db"
| "run_evaluator env (Custom_json_dapp o') db = custom_json_dapp_apply env o' db"
| "run_evaluator env (Set_blacklist_account o') db = set_blacklist_account_apply o' db"
| "run_evaluator env _ db = Inl (Assert_exception Virtual_operation)"

text \<open>
  The notifications around an evaluator go to plugins. They do not touch the chain state, apart from a count of transfers that the chain
  does not read; the plugins' theories model them.
\<close>

definition apply_operation :: "node_env \<Rightarrow> operation \<Rightarrow> chain_db \<Rightarrow> chain_db result" where
  "apply_operation env op db = run_evaluator env op db"

section \<open>The books under the operations\<close>

lemma transfer_moves:
  assumes "wf_db db" "transfer_apply env o' db = Inr db'"
  shows "moves db db' 0 nothing nothing"
proof -
  from assms(2) obtain i j m d1 where m: "asset_neg (tr_amount o') = Inr m"
    and a: "adjust_balance i m db = Inr d1" "adjust_balance j (tr_amount o') d1 = Inr db'"
    by (auto simp: transfer_apply_def result_simps)
  note m1 = adjust_balance_moves [OF assms(1) a(1)]
  note m2 = adjust_balance_moves [OF moves_wf [OF m1] a(2)]
  show ?thesis using moves_trans [OF m1 m2] asset_neg_Inr [OF m] by simp
qed

lemma print_moves:
  assumes "wf_db db" "print_apply o' db = Inr db'"
  shows "moves db db' 0 nothing nothing"
proof -
  from assms(2) obtain i d1 where a: "adjust_balance i (pr_amount o') db = Inr d1" "adjust_supply (pr_amount o') d1 = Inr db'"
    by (auto simp: print_apply_def result_simps)
  note m1 = adjust_balance_moves [OF assms(1) a(1)]
  show ?thesis using moves_trans [OF m1 adjust_supply_moves [OF moves_wf [OF m1] a(2)]] by simp
qed

lemma burn_moves:
  assumes "wf_db db" "burn_apply o' db = Inr db'"
  shows "moves db db' 0 nothing nothing"
proof -
  from assms(2) obtain i m d1 where a: "adjust_balance i m db = Inr d1" "adjust_supply m d1 = Inr db'"
    by (auto simp: burn_apply_def result_simps)
  note m1 = adjust_balance_moves [OF assms(1) a(1)]
  show ?thesis using moves_trans [OF m1 adjust_supply_moves [OF moves_wf [OF m1] a(2)]] by simp
qed

lemma transfer_savings_moves:
  assumes "wf_db db" "transfer_savings_apply env op db = Inr db'"
  shows "moves db db' 0 nothing nothing"
proof -
  from assms(2) obtain i to m d1 d2 t where m: "asset_neg (ts_amount op) = Inr m"
    and to: "get_account (ts_to op) db = Inr to"
    and a: "adjust_balance i m db = Inr d1" "adjust_savings_balance (acc_id to) (ts_amount op) d1 = Inr d2"
    and t: "table_create savings_clash (\<lambda>i. \<lparr>svw_id = i, svw_from = ts_from op, svw_to = ts_to op, svw_memo = ts_memo op,
              svw_request_id = ts_request_id op, svw_amount = ts_amount op, svw_total_amount = ts_amount op,
              svw_split_pay_order = ts_split_pay_order op, svw_split_pay_month = ts_split_pay_month op,
              svw_complete = ts_complete op\<rparr>) (db_savings d2) = Inr t" "db' = d2\<lparr>db_savings := t\<rparr>"
    by (auto simp: transfer_savings_apply_def result_simps)
  note m1 = adjust_balance_moves [OF assms(1) a(1)]
  have "(acc_id to, ts_to op) \<in> account_keys d1"
    using get_account_key [OF to] adjust_balance_frame [OF a(1)] by simp
  note m2 = moves_trans [OF m1 adjust_savings_balance_moves [OF moves_wf [OF m1] a(2) this]]
  have "moves d2 db' 0 (at (ts_to op) (- amount (ts_amount op))) nothing"
    unfolding t(2) by (rule create_savings_moves [OF moves_wf [OF m2] t(1)]) simp_all
  from moves_trans [OF m2 this] asset_neg_Inr [OF m] show ?thesis by (auto elim!: moves_cong simp: at_def)
qed

lemma get_savings_withdraw_mem: "get_savings_withdraw n i db = Inr s \<Longrightarrow> s \<in> set (tb_rows (db_savings db))"
  by (auto simp: get_savings_withdraw_def dest: table_get_mem)

lemma cancel_transfer_savings_moves:
  assumes "wf_db db" "cancel_transfer_savings_apply op db = Inr db'"
  shows "moves db db' 0 nothing nothing"
proof -
  from assms(2) obtain s to i m d1 d2 where s: "get_savings_withdraw (ct_from op) (ct_request_id op) db = Inr s"
    and to: "get_account (svw_to s) db = Inr to" and m: "asset_neg (svw_amount s) = Inr m"
    and a: "adjust_balance i (svw_amount s) db = Inr d1" "adjust_savings_balance (acc_id to) m d1 = Inr d2"
    and t: "db' = d2\<lparr>db_savings := table_remove svw_id (svw_id s) (db_savings d2)\<rparr>"
    by (auto simp: cancel_transfer_savings_apply_def result_simps)
  note m1 = adjust_balance_moves [OF assms(1) a(1)]
  have "(acc_id to, svw_to s) \<in> account_keys d1"
    using get_account_key [OF to] adjust_balance_frame [OF a(1)] by simp
  note m2 = moves_trans [OF m1 adjust_savings_balance_moves [OF moves_wf [OF m1] a(2) this]]
  have "s \<in> set (tb_rows (db_savings d2))"
    using get_savings_withdraw_mem [OF s] adjust_balance_frame [OF a(1)] adjust_savings_balance_frame [OF a(2)] by simp
  from moves_trans [OF m2 remove_savings_moves [OF moves_wf [OF m2] this]] asset_neg_Inr [OF m]
  show ?thesis unfolding t by (auto elim!: moves_cong simp: at_def)
qed

lemma conclusion_transfer_savings_moves:
  assumes "wf_db db" "conclusion_transfer_savings_apply op db = Inr db'"
  shows "moves db db' 0 nothing nothing"
proof -
  from assms(2) obtain s to m d1 d2 d3 where s: "get_savings_withdraw (co_from op) (co_request_id op) db = Inr s"
    and to: "get_account (svw_to s) db = Inr to" and m: "asset_neg (svw_amount s) = Inr m"
    and a: "adjust_balance (acc_id to) (svw_amount s) db = Inr d1" "adjust_savings_balance (acc_id to) m d1 = Inr d2"
    and v: "push_virtual_operation (fill_savings s) d2 = Inr d3"
    and t: "db' = d3\<lparr>db_savings := table_remove svw_id (svw_id s) (db_savings d3)\<rparr>"
    by (auto simp: conclusion_transfer_savings_apply_def result_simps)
  note m1 = adjust_balance_moves [OF assms(1) a(1)]
  have "(acc_id to, svw_to s) \<in> account_keys d1"
    using get_account_key [OF to] adjust_balance_frame [OF a(1)] by simp
  note m2 = moves_trans [OF m1 adjust_savings_balance_moves [OF moves_wf [OF m1] a(2) this]]
  note m3 = moves_trans [OF m2 push_virtual_operation_moves [OF moves_wf [OF m2] v]]
  have "s \<in> set (tb_rows (db_savings d3))"
    using get_savings_withdraw_mem [OF s] adjust_balance_frame [OF a(1)] adjust_savings_balance_frame [OF a(2)]
      push_virtual_operation_frame [OF v] by simp
  from moves_trans [OF m3 remove_savings_moves [OF moves_wf [OF m3] this]] asset_neg_Inr [OF m]
  show ?thesis unfolding t by (auto elim!: moves_cong simp: at_def)
qed

lemma transfer_fund_moves:
  assumes "wf_db db" "transfer_fund_apply o' db = Inr db'"
  shows "moves db db' 0 nothing nothing"
proof -
  from assms(2) obtain i m d1 where m: "asset_neg (tf_amount o') = Inr m"
    and a: "adjust_fund_balance (tf_fund_name o') (tf_amount o') db = Inr d1" "adjust_balance i m d1 = Inr db'"
    by (auto simp: transfer_fund_apply_def result_simps)
  note m1 = adjust_fund_balance_moves [OF assms(1) a(1)]
  show ?thesis using moves_trans [OF m1 adjust_balance_moves [OF moves_wf [OF m1] a(2)]] asset_neg_Inr [OF m] by simp
qed

lemma staking_fund_moves:
  assumes "wf_db db" "staking_fund_apply env op db = Inr db'"
  shows "moves db db' 0 nothing nothing"
proof -
  from assms(2) obtain i m d1 d2 d3 total t where m: "asset_neg (sf_amount op) = Inr m"
    and a: "adjust_balance i m db = Inr d1" "adjust_fund_balance (sf_fund_name op) (sf_amount op) d1 = Inr d2"
      "adjust_fund_withdraw_balance (sf_fund_name op) total d2 = Inr d3"
    and t: "table_create fund_withdraw_clash (\<lambda>i. \<lparr>fdw_id = i, fdw_from = sf_from op, fdw_fund_name = sf_fund_name op,
              fdw_memo = sf_memo op, fdw_request_id = sf_request_id op, fdw_amount = total,
              fdw_complete = time_add (head_block_time d3) (days_sec (30 * sf_month op))\<rparr>) (db_fund_withdraws d3) = Inr t"
      "db' = d3\<lparr>db_fund_withdraws := t\<rparr>"
    by (auto simp: staking_fund_apply_def Let_def result_simps)
  note m1 = adjust_balance_moves [OF assms(1) a(1)]
  note m2 = moves_trans [OF m1 adjust_fund_balance_moves [OF moves_wf [OF m1] a(2)]]
  note m3 = moves_trans [OF m2 adjust_fund_withdraw_balance_moves [OF moves_wf [OF m2] a(3)]]
  have "moves d3 db' 0 nothing (at (fund_key (sf_fund_name op)) (- amount total))"
    unfolding t(2) by (rule create_staking_moves [OF moves_wf [OF m3] t(1)]) simp_all
  from moves_trans [OF m3 this] asset_neg_Inr [OF m] show ?thesis by (auto elim!: moves_cong simp: at_def)
qed

lemma c_str_take: "c_str (take n s) = take n (c_str s)"
  by (induction s arbitrary: n) (auto simp: c_str_def take_Cons split: nat.splits)

lemma fund_key_c_str: "c_str s = c_str t \<Longrightarrow> fund_key s = fund_key t"
  by (simp add: fund_key_def c_str_take)

lemma pay_staking_moves:
  assumes "wf_db db" "pay_staking n fund i db = Inr db'"
  shows "moves db db' 0 nothing nothing"
proof -
  from assms(2) obtain w j m d1 d2 d3 d4 where w: "get_fund_withdraw n fund i db = Inr w"
    and m: "asset_neg (fdw_amount w) = Inr m"
    and a: "adjust_balance j (fdw_amount w) db = Inr d1" "adjust_fund_balance fund m d1 = Inr d2"
      "adjust_fund_withdraw_balance fund m d2 = Inr d3"
    and v: "push_virtual_operation (fill_staking (fdw_from w) fund w) d3 = Inr d4"
    and t: "db' = d4\<lparr>db_fund_withdraws := table_remove fdw_id (fdw_id w) (db_fund_withdraws d4)\<rparr>"
    by (auto simp: pay_staking_def result_simps)
  have w': "w \<in> set (tb_rows (db_fund_withdraws db))" "fund_key (fdw_fund_name w) = fund_key fund"
    using w by (auto simp: get_fund_withdraw_def dest!: table_get_mem intro: fund_key_c_str)
  note m1 = adjust_balance_moves [OF assms(1) a(1)]
  note m2 = moves_trans [OF m1 adjust_fund_balance_moves [OF moves_wf [OF m1] a(2)]]
  note m3 = moves_trans [OF m2 adjust_fund_withdraw_balance_moves [OF moves_wf [OF m2] a(3)]]
  note m4 = moves_trans [OF m3 push_virtual_operation_moves [OF moves_wf [OF m3] v]]
  have "w \<in> set (tb_rows (db_fund_withdraws d4))"
    using w'(1) adjust_balance_frame [OF a(1)] adjust_fund_balance_frame [OF a(2)]
      adjust_fund_withdraw_balance_frame [OF a(3)] push_virtual_operation_frame [OF v] by simp
  from moves_trans [OF m4 remove_staking_moves [OF moves_wf [OF m4] this]] asset_neg_Inr [OF m] w'(2)
  show ?thesis unfolding t by (auto elim!: moves_cong simp: at_def)
qed

lemma account_create_moves:
  assumes "wf_db db" "account_create_apply o' db = Inr db'"
  shows "moves db db' 0 nothing nothing"
proof -
  from assms(2) obtain c t u where t: "table_create account_clash (\<lambda>i. (new_account i)
              \<lparr>acc_name := ac_new_account_name o', acc_memo_key := ac_memo_key o', acc_created := head_block_time db,
               acc_mined := False, acc_recovery_account := ac_creator o', acc_json_metadata := ac_json_metadata o'\<rparr>)
              (db_accounts db) = Inr t" and db': "db' = db\<lparr>db_accounts := t, db_authorities := u\<rparr>"
    by (auto simp: account_create_apply_def result_simps)
  have m1: "moves db (db\<lparr>db_accounts := t\<rparr>) 0 nothing nothing"
    by (rule create_account_moves [OF assms(1) t]) (simp_all add: new_account_def SGT_def)
  have "moves (db\<lparr>db_accounts := t\<rparr>) db' 0 nothing nothing"
    by (rule moves_frame [OF moves_wf [OF m1]]) (simp_all add: db')
  from moves_trans [OF m1 this] show ?thesis by simp
qed

lemma update_account_object_meta:
  "acc_id (update_account_object o' now a) = acc_id a" "acc_name (update_account_object o' now a) = acc_name a"
  "acc_balance (update_account_object o' now a) = acc_balance a"
  "acc_savings_balance (update_account_object o' now a) = acc_savings_balance a"
  by (simp_all add: update_account_object_def Let_def)

lemma account_update_moves:
  assumes "wf_db db" "account_update_apply o' db = Inr db'"
  shows "moves db db' 0 nothing nothing"
proof -
  from assms(2) obtain account :: account_object and aa aut d1 where d1: "update_owner o' account aa db = Inr d1"
    and db': "db' = (let d = modify_account (acc_id account) (update_account_object o' (head_block_time d1)) d1
       in if au_active o' \<noteq> None \<or> au_posting o' \<noteq> None
          then d\<lparr>db_authorities := table_modify aut_id aut (update_account_auth o') (db_authorities d)\<rparr> else d)"
    unfolding account_update_apply_def Let_def result_simps by blast
  have m1: "moves db d1 0 nothing nothing" using d1 moves_refl [OF assms(1)] update_owner_authority_moves [OF assms(1)]
    by (auto simp: update_owner_def result_simps split: option.splits)
  define d2 where "d2 = modify_account (acc_id account) (update_account_object o' (head_block_time d1)) d1"
  have "moves d1 d2 0 nothing nothing"
    unfolding d2_def by (rule account_meta_moves [OF moves_wf [OF m1]]) (simp_all add: update_account_object_meta)
  note m2 = moves_trans [OF m1 this]
  have "moves d2 db' 0 nothing nothing"
    by (rule moves_frame [OF moves_wf [OF m2]]) (simp_all add: db' Let_def d2_def [symmetric])
  from moves_trans [OF m2 this] show ?thesis by simp
qed

lemma recover_account_moves:
  assumes "wf_db db" "recover_account_apply o' db = Inr db'"
  shows "moves db db' 0 nothing nothing"
proof -
  from assms(2) obtain n a i t d1 where u: "update_owner_authority n a (db\<lparr>db_recovery_requests := t\<rparr>) = Inr d1"
    and db': "db' = modify_account i (\<lambda>a. a\<lparr>acc_last_account_recovery := head_block_time d1\<rparr>) d1"
    by (auto simp: recover_account_apply_def result_simps)
  have m1: "moves db (db\<lparr>db_recovery_requests := t\<rparr>) 0 nothing nothing"
    by (rule moves_frame [OF assms(1)]) simp_all
  note m2 = moves_trans [OF m1 update_owner_authority_moves [OF moves_wf [OF m1] u]]
  have "moves d1 db' 0 nothing nothing"
    unfolding db' by (rule account_meta_moves [OF moves_wf [OF m2]]) simp_all
  from moves_trans [OF m2 this] show ?thesis by simp
qed

lemma set_blacklist_account_moves:
  "wf_db db \<Longrightarrow> set_blacklist_account_apply o' db = Inr db' \<Longrightarrow> moves db db' 0 nothing nothing"
  by (auto simp: set_blacklist_account_apply_def result_simps intro!: account_meta_moves moves_refl)

lemma set_fund_interest_moves:
  assumes "wf_db db" "set_fund_interest_apply env o' db = Inr db'"
  shows "moves db db' 0 nothing nothing"
proof -
  from assms(2) obtain fund p where fund: "fund \<in> set (tb_rows (db_funds db))"
    and db': "db' = modify_fund (cfo_id fund) (\<lambda>cfo. cfo\<lparr>cfo_percent_interest := (cfo_percent_interest cfo)
              [fi_usertype o' := (cfo_percent_interest cfo ! fi_usertype o')[fi_month o' - 1 := p]],
            cfo_last_update := head_block_time db\<rparr>) db"
    by (auto simp: set_fund_interest_apply_def result_simps dest: get_common_fund_mem)
  show ?thesis unfolding db' using modify_fund_moves [OF assms(1) fund refl, of "\<lambda>cfo. cfo\<lparr>cfo_percent_interest := (cfo_percent_interest cfo)
              [fi_usertype o' := (cfo_percent_interest cfo ! fi_usertype o')[fi_month o' - 1 := p]],
            cfo_last_update := head_block_time db\<rparr>"]
    by (auto elim!: moves_cong simp: at_def)
qed

lemma bobserver_update_moves:
  "wf_db db \<Longrightarrow> bobserver_update_apply o' db = Inr db' \<Longrightarrow> moves db db' 0 nothing nothing"
  by (auto simp: bobserver_update_apply_def modify_bobserver_def result_simps intro!: moves_frame split: option.splits)

lemma update_bproducer_moves:
  "wf_db db \<Longrightarrow> update_bproducer_apply o' db = Inr db' \<Longrightarrow> moves db db' 0 nothing nothing"
  by (auto simp: update_bproducer_apply_def modify_bobserver_def modify_dgp_def result_simps intro!: moves_frame)

lemma except_bobserver_moves:
  "wf_db db \<Longrightarrow> except_bobserver_apply o' db = Inr db' \<Longrightarrow> moves db db' 0 nothing nothing"
  by (auto simp: except_bobserver_apply_def modify_bobserver_def result_simps intro!: moves_frame)

lemma account_auth_moves:
  "wf_db db \<Longrightarrow> account_auth_apply o' db = Inr db' \<Longrightarrow> moves db db' 0 nothing nothing"
  by (auto simp: account_auth_apply_def result_simps intro!: moves_frame split: option.splits)

lemma request_account_recovery_moves:
  "wf_db db \<Longrightarrow> request_account_recovery_apply o' db = Inr db' \<Longrightarrow> moves db db' 0 nothing nothing"
  by (auto simp: request_account_recovery_apply_def Let_def result_simps intro!: moves_frame split: option.splits if_splits)

lemma change_recovery_account_moves:
  "wf_db db \<Longrightarrow> change_recovery_account_apply o' db = Inr db' \<Longrightarrow> moves db db' 0 nothing nothing"
  by (auto simp: change_recovery_account_apply_def Let_def result_simps intro!: moves_frame split: option.splits if_splits)

lemma decline_voting_rights_moves:
  "wf_db db \<Longrightarrow> decline_voting_rights_apply o' db = Inr db' \<Longrightarrow> moves db db' 0 nothing nothing"
  by (auto simp: decline_voting_rights_apply_def result_simps intro!: moves_frame split: option.splits)

text \<open>
  What the chain relies on of a plugin: when its interpreter applies an operation, and when its handler has
  seen a block, the books are as before.
\<close>

definition plugins_balanced :: "node_env \<Rightarrow> bool" where
  "plugins_balanced env \<longleftrightarrow>
     (\<forall>i eval op db db'. env_interpreters env i = Some eval \<longrightarrow> wf_db db \<longrightarrow> eval op db = Applied db'
        \<longrightarrow> moves db db' 0 nothing nothing)
     \<and> (\<forall>b db. wf_db db \<longrightarrow> moves db (env_on_applied_block env b db) 0 nothing nothing)"

lemma run_interpreter_moves:
  "plugins_balanced env \<Longrightarrow> wf_db db \<Longrightarrow> run_interpreter env i op db = Inr db' \<Longrightarrow> moves db db' 0 nothing nothing"
  by (auto simp: run_interpreter_def plugins_balanced_def intro: moves_refl
      split: option.splits custom_outcome.splits if_splits)

lemma custom_moves:
  assumes "plugins_balanced env" "wf_db db"
  shows "custom_apply env c db = Inr db' \<Longrightarrow> moves db db' 0 nothing nothing"
    and "custom_json_apply env j db = Inr db' \<Longrightarrow> moves db db' 0 nothing nothing"
    and "custom_json_dapp_apply env d db = Inr db' \<Longrightarrow> moves db db' 0 nothing nothing"
    and "custom_binary_apply env b db = Inr db' \<Longrightarrow> moves db db' 0 nothing nothing"
  using assms by (auto simp: custom_apply_def custom_json_apply_def custom_json_dapp_apply_def custom_binary_apply_def
      result_simps intro: moves_refl run_interpreter_moves)

lemmas evaluator_moves = transfer_moves print_moves burn_moves transfer_savings_moves cancel_transfer_savings_moves
  conclusion_transfer_savings_moves transfer_fund_moves staking_fund_moves pay_staking_moves account_create_moves
  account_update_moves recover_account_moves set_blacklist_account_moves set_fund_interest_moves bobserver_update_moves
  update_bproducer_moves except_bobserver_moves account_auth_moves request_account_recovery_moves
  change_recovery_account_moves decline_voting_rights_moves

lemma apply_operation_moves:
  assumes "plugins_balanced env" "wf_db db" "apply_operation env op db = Inr db'"
  shows "moves db db' 0 nothing nothing"
  using assms(3)
proof (cases op)
qed (auto simp: apply_operation_def reset_account_apply_def set_reset_account_apply_def conclusion_staking_apply_def
    return_staking_fund_apply_def result_simps intro: evaluator_moves [OF assms(2)] custom_moves [OF assms(1,2)])

end
