(* ===== verification/Economy.thy ===== *)
theory Economy
  imports Evaluators "HOL-Library.Multiset"
begin

text \<open>
  What the operations do to value, as theorems: the books stay balanced over any sequence of
  operations, no balance becomes negative except through \<^verbatim>\<open>burn\<close>, what exactly a transfer does,
  and who may run the operations that act on other accounts.
\<close>

section \<open>Balanced operations\<close>

interpretation transfer_step: balanced "\<lambda>_. True" transfer_apply
  by unfold_locales (rule transfer_moves)

interpretation savings_step: balanced "\<lambda>_. True" transfer_savings_apply
  by unfold_locales (rule transfer_savings_moves)

interpretation staking_step: balanced "\<lambda>_. True" staking_fund_apply
  by unfold_locales (rule staking_fund_moves)

interpretation operation_step: balanced plugins_balanced apply_operation
  by unfold_locales (rule apply_operation_moves)

section \<open>Solvency under the operations\<close>

lemma require_balance_Inr:
  "require_balance a am = Inr u \<longleftrightarrow> symbol am = SGT_SYMBOL \<and> symbol (acc_balance a) = SGT_SYMBOL \<and> amount am \<le> amount (acc_balance a)"
  by (cases u) (auto simp: require_balance_def get_balance_def require_ge_def result_simps)

lemma require_ge_Inr: "require_ge a b = Inr u \<longleftrightarrow> symbol a = symbol b \<and> amount b \<le> amount a"
  by (cases u) (auto simp: require_ge_def result_simps)

lemma transfer_solvent:
  assumes "solvent db" "wf_db db" "transfer_apply env o' db = Inr db'" "0 \<le> amount (tr_amount o')"
  shows "solvent db'"
proof -
  from assms(3) obtain a j m d1 where a: "get_account (tr_from o') db = Inr a" "require_balance a (tr_amount o') = Inr ()"
    and m: "asset_neg (tr_amount o') = Inr m"
    and d: "adjust_balance (acc_id a) m db = Inr d1" "adjust_balance j (tr_amount o') d1 = Inr db'"
    by (auto simp: transfer_apply_def result_simps)
  have "solvent d1" using debit_solvent [OF assms(1) d(1) assms(2)] get_account_mem [OF a(1)] a(2) asset_neg_Inr [OF m]
    by (simp add: require_balance_Inr)
  from credit_solvent [OF this d(2) _ assms(4)] show ?thesis using moves_wf [OF adjust_balance_moves [OF assms(2) d(1)]] by simp
qed

lemma print_solvent:
  assumes "solvent db" "wf_db db" "print_apply o' db = Inr db'" "0 \<le> amount (pr_amount o')"
  shows "solvent db'"
proof -
  from assms(3) obtain i d1 where a: "adjust_balance i (pr_amount o') db = Inr d1" "adjust_supply (pr_amount o') d1 = Inr db'"
    by (auto simp: print_apply_def result_simps)
  have "solvent d1" by (rule credit_solvent [OF assms(1) a(1) assms(2,4)])
  with a(2) show ?thesis by (auto simp: adjust_supply_def modify_dgp_def result_simps elim!: solvent_frame)
qed

lemma transfer_savings_solvent:
  assumes "solvent db" "wf_db db" "transfer_savings_apply env op db = Inr db'" "0 \<le> amount (ts_amount op)"
  shows "solvent db'"
proof -
  from assms(3) obtain a j m d1 d2 t where a: "get_account (ts_from op) db = Inr a" "require_balance a (ts_amount op) = Inr ()"
    and m: "asset_neg (ts_amount op) = Inr m"
    and d: "adjust_balance (acc_id a) m db = Inr d1" "adjust_savings_balance j (ts_amount op) d1 = Inr d2"
    and t: "table_create savings_clash (\<lambda>i. \<lparr>svw_id = i, svw_from = ts_from op, svw_to = ts_to op, svw_memo = ts_memo op,
              svw_request_id = ts_request_id op, svw_amount = ts_amount op, svw_total_amount = ts_amount op,
              svw_split_pay_order = ts_split_pay_order op, svw_split_pay_month = ts_split_pay_month op,
              svw_complete = ts_complete op\<rparr>) (db_savings d2) = Inr t" "db' = d2\<lparr>db_savings := t\<rparr>"
    by (auto simp: transfer_savings_apply_def result_simps)
  have "solvent d1" using debit_solvent [OF assms(1) d(1) assms(2)] get_account_mem [OF a(1)] a(2) asset_neg_Inr [OF m]
    by (simp add: require_balance_Inr)
  from credit_savings_solvent [OF this d(2) assms(4)] t assms(4) show ?thesis
    by (auto simp: solvent_def table_create_def Let_def result_simps)
qed

lemma get_savings_balance_Inr: "get_savings_balance a sy = Inr b \<longleftrightarrow> sy = SGT_SYMBOL \<and> b = acc_savings_balance a"
  by (auto simp: get_savings_balance_def)

lemma savings_amount_nonneg:
  "solvent db \<Longrightarrow> get_savings_withdraw n i db = Inr s \<Longrightarrow> 0 \<le> amount (svw_amount s)"
  using get_savings_withdraw_mem by (auto simp: solvent_def)

lemma solvent_remove_savings: "solvent db \<Longrightarrow> solvent (db\<lparr>db_savings := table_remove svw_id i (db_savings db)\<rparr>)"
  by (simp add: solvent_def table_remove_def)

lemma cancel_transfer_savings_solvent:
  assumes "solvent db" "wf_db db" "cancel_transfer_savings_apply op db = Inr db'"
  shows "solvent db'"
proof -
  from assms(3) obtain s to i m b d1 d2 where s: "get_savings_withdraw (ct_from op) (ct_request_id op) db = Inr s"
    and to: "get_account (svw_to s) db = Inr to" "get_savings_balance to (symbol (svw_amount s)) = Inr b" "require_ge b (svw_amount s) = Inr ()"
    and m: "asset_neg (svw_amount s) = Inr m"
    and a: "adjust_balance i (svw_amount s) db = Inr d1" "adjust_savings_balance (acc_id to) m d1 = Inr d2"
    and t: "db' = d2\<lparr>db_savings := table_remove svw_id (svw_id s) (db_savings d2)\<rparr>"
    by (auto simp: cancel_transfer_savings_apply_def result_simps)
  have "solvent d2"
    using credit_debit_savings_solvent [OF assms(1,2) a(1) savings_amount_nonneg [OF assms(1) s] a(2)] get_account_mem [OF to(1)]
      to(2,3) asset_neg_Inr [OF m] by (simp add: require_ge_Inr get_savings_balance_Inr)
  then show ?thesis unfolding t by (rule solvent_remove_savings)
qed

lemma conclusion_transfer_savings_solvent:
  assumes "solvent db" "wf_db db" "conclusion_transfer_savings_apply op db = Inr db'"
  shows "solvent db'"
proof -
  from assms(3) obtain s to m b d1 d2 d3 where s: "get_savings_withdraw (co_from op) (co_request_id op) db = Inr s"
    and to: "get_account (svw_to s) db = Inr to" "get_savings_balance to (symbol (svw_amount s)) = Inr b" "require_ge b (svw_amount s) = Inr ()"
    and m: "asset_neg (svw_amount s) = Inr m"
    and a: "adjust_balance (acc_id to) (svw_amount s) db = Inr d1" "adjust_savings_balance (acc_id to) m d1 = Inr d2"
    and v: "push_virtual_operation (fill_savings s) d2 = Inr d3"
    and t: "db' = d3\<lparr>db_savings := table_remove svw_id (svw_id s) (db_savings d3)\<rparr>"
    by (auto simp: conclusion_transfer_savings_apply_def result_simps)
  have "solvent d2"
    using credit_debit_savings_solvent [OF assms(1,2) a(1) savings_amount_nonneg [OF assms(1) s] a(2)] get_account_mem [OF to(1)]
      to(2,3) asset_neg_Inr [OF m] by (simp add: require_ge_Inr get_savings_balance_Inr)
  then have "solvent d3" using push_virtual_operation_frame [OF v] by (auto elim!: solvent_frame)
  then show ?thesis unfolding t by (rule solvent_remove_savings)
qed

lemma transfer_fund_solvent:
  assumes "solvent db" "wf_db db" "transfer_fund_apply o' db = Inr db'" "0 \<le> amount (tf_amount o')"
  shows "solvent db'"
proof -
  from assms(3) obtain a m d1 where a: "get_account (tf_from o') db = Inr a" "require_balance a (tf_amount o') = Inr ()"
    and m: "asset_neg (tf_amount o') = Inr m"
    and d: "adjust_fund_balance (tf_fund_name o') (tf_amount o') db = Inr d1" "adjust_balance (acc_id a) m d1 = Inr db'"
    by (auto simp: transfer_fund_apply_def result_simps)
  have "db_accounts d1 = db_accounts db" using d(1) by (auto simp: adjust_fund_balance_def modify_fund_def result_simps)
  then show ?thesis
    using debit_solvent [OF credit_fund_solvent [OF assms(1) d(1) assms(4)] d(2) moves_wf [OF adjust_fund_balance_moves [OF assms(2) d(1)]]]
      get_account_mem [OF a(1)] a(2) asset_neg_Inr [OF m] by (simp add: require_balance_Inr)
qed

text \<open>
  What \<^verbatim>\<open>double\<close> arithmetic promises of the interest on a stake \<open>v\<close> at more than minus one percent:
  rounding is monotone, so where the conversion to an integer is defined, the result is at least \<open>- v\<close>.
\<close>

definition interest_bounded :: "double_ops \<Rightarrow> bool" where
  "interest_bounded dbl \<longleftrightarrow> 
     (\<forall>v p i. 0 \<le> v \<longrightarrow> dbl_above_minus_one dbl p \<longrightarrow> dbl_interest dbl v p = Some i \<longrightarrow> - v \<le> i)"

lemma staking_fund_solvent:
  assumes "solvent db" "wf_db db" "staking_fund_apply env op db = Inr db'" "0 \<le> amount (sf_amount op)"
    "interest_bounded (env_doubles env)"
  shows "solvent db'"
proof -
  from assms(3) obtain a p i m d1 d2 d3 total t where a: "get_account (sf_from op) db = Inr a" "require_balance a (sf_amount op) = Inr ()"
    and p: "dbl_above_minus_one (env_doubles env) p"
      "dbl_interest (env_doubles env) (amount (sf_amount op)) p = Some i" "asset_add (sf_amount op) (SGT i) = Inr total"
    and m: "asset_neg (sf_amount op) = Inr m"
    and d: "adjust_balance (acc_id a) m db = Inr d1" "adjust_fund_balance (sf_fund_name op) (sf_amount op) d1 = Inr d2"
      "adjust_fund_withdraw_balance (sf_fund_name op) total d2 = Inr d3"
    and t: "table_create fund_withdraw_clash (\<lambda>i. \<lparr>fdw_id = i, fdw_from = sf_from op, fdw_fund_name = sf_fund_name op,
              fdw_memo = sf_memo op, fdw_request_id = sf_request_id op, fdw_amount = total,
              fdw_complete = time_add (head_block_time d3) (days_sec (30 * sf_month op))\<rparr>) (db_fund_withdraws d3) = Inr t"
      "db' = d3\<lparr>db_fund_withdraws := t\<rparr>"
    by (auto simp: staking_fund_apply_def Let_def result_simps)
  have "solvent d1" using debit_solvent [OF assms(1) d(1) assms(2)] get_account_mem [OF a(1)] a(2) asset_neg_Inr [OF m]
    by (simp add: require_balance_Inr)
  then have "solvent d3"
    using credit_fund_solvent [OF _ d(2) assms(4)] adjust_fund_withdraw_solvent [OF _ d(3)] by blast
  moreover have "0 \<le> amount total" using p assms(4,5) by (fastforce simp: interest_bounded_def result_simps SGT_def dest!: safe_add_InrD)
  ultimately show ?thesis using t by (auto simp: solvent_def table_create_def Let_def result_simps)
qed

lemma pay_staking_solvent:
  assumes "solvent db" "wf_db db" "pay_staking n fund i db = Inr db'"
  shows "solvent db'"
proof -
  from assms(3) obtain w f j m d1 d2 d3 d4 where w: "get_fund_withdraw n fund i db = Inr w"
    and f: "get_common_fund fund db = Inr f" "require_ge (cfo_fund_balance f) (fdw_amount w) = Inr ()"
    and m: "asset_neg (fdw_amount w) = Inr m"
    and a: "adjust_balance j (fdw_amount w) db = Inr d1" "adjust_fund_balance fund m d1 = Inr d2"
      "adjust_fund_withdraw_balance fund m d2 = Inr d3"
    and v: "push_virtual_operation (fill_staking (fdw_from w) fund w) d3 = Inr d4"
    and t: "db' = d4\<lparr>db_fund_withdraws := table_remove fdw_id (fdw_id w) (db_fund_withdraws d4)\<rparr>"
    by (auto simp: pay_staking_def result_simps)
  have w': "0 \<le> amount (fdw_amount w)" using w assms(1) by (auto simp: get_fund_withdraw_def solvent_def dest!: table_get_mem)
  have "db_funds d1 = db_funds db" using a(1) by (auto simp: adjust_balance_def modify_account_def result_simps)
  then have "get_common_fund fund d1 = Inr f" using f(1) by (simp add: get_common_fund_def)
  then have "solvent d2" using adjust_fund_solvent [OF credit_solvent [OF assms(1) a(1) assms(2) w'] a(2)] f(2) asset_neg_Inr [OF m]
    by (simp add: require_ge_Inr)
  then have "solvent d3" using adjust_fund_withdraw_solvent [OF _ a(3)] by blast
  then have "solvent d4" using push_virtual_operation_frame [OF v] by (auto elim!: solvent_frame)
  then show ?thesis unfolding t by (simp add: solvent_def table_remove_def)
qed

lemma account_create_solvent:
  "solvent db \<Longrightarrow> account_create_apply o' db = Inr db' \<Longrightarrow> solvent db'"
  by (auto simp: account_create_apply_def solvent_def table_create_def Let_def result_simps new_account_def SGT_def)

lemma solvent_account_meta:
  "solvent db \<Longrightarrow> (\<And>a. acc_balance (f a) = acc_balance a) \<Longrightarrow> (\<And>a. acc_savings_balance (f a) = acc_savings_balance a)
     \<Longrightarrow> solvent (modify_account i f db)"
  by (rule solvent_account) (auto simp: solvent_def)

lemma update_owner_authority_solvent: "solvent db \<Longrightarrow> update_owner_authority n a db = Inr db' \<Longrightarrow> solvent db'"
  by (auto simp: update_owner_authority_def result_simps elim!: solvent_frame)

lemma account_update_solvent:
  assumes "solvent db" "account_update_apply o' db = Inr db'"
  shows "solvent db'"
proof -
  from assms(2) obtain account :: account_object and aa aut d1 where d1: "update_owner o' account aa db = Inr d1"
    and db': "db' = (let d = modify_account (acc_id account) (update_account_object o' (head_block_time d1)) d1
       in if au_active o' \<noteq> None \<or> au_posting o' \<noteq> None
          then d\<lparr>db_authorities := table_modify aut_id aut (update_account_auth o') (db_authorities d)\<rparr> else d)"
    unfolding account_update_apply_def Let_def result_simps by blast
  have "solvent d1" using d1 assms(1) update_owner_authority_solvent
    by (auto simp: update_owner_def result_simps split: option.splits)
  then have "solvent (modify_account (acc_id account) (update_account_object o' (head_block_time d1)) d1)"
    by (rule solvent_account_meta) (simp_all add: update_account_object_meta)
  then show ?thesis unfolding db' Let_def by (auto elim!: solvent_frame)
qed

lemma recover_account_solvent:
  assumes "solvent db" "recover_account_apply o' db = Inr db'"
  shows "solvent db'"
proof -
  from assms(2) obtain n a i t d1 where u: "update_owner_authority n a (db\<lparr>db_recovery_requests := t\<rparr>) = Inr d1"
    and db': "db' = modify_account i (\<lambda>a. a\<lparr>acc_last_account_recovery := head_block_time d1\<rparr>) d1"
    by (auto simp: recover_account_apply_def result_simps)
  have "solvent (db\<lparr>db_recovery_requests := t\<rparr>)" using assms(1) by (auto elim!: solvent_frame)
  from update_owner_authority_solvent [OF this u] show ?thesis unfolding db' by (rule solvent_account_meta) simp_all
qed

lemma set_blacklist_account_solvent: "solvent db \<Longrightarrow> set_blacklist_account_apply o' db = Inr db' \<Longrightarrow> solvent db'"
  by (auto simp: set_blacklist_account_apply_def result_simps intro!: solvent_account_meta)

lemma set_fund_interest_solvent: "solvent db \<Longrightarrow> set_fund_interest_apply env o' db = Inr db' \<Longrightarrow> solvent db'"
  by (auto simp: set_fund_interest_apply_def result_simps intro!: solvent_fund) (auto simp: solvent_def)

lemma bobserver_update_solvent: "solvent db \<Longrightarrow> bobserver_update_apply o' db = Inr db' \<Longrightarrow> solvent db'"
  by (auto simp: bobserver_update_apply_def modify_bobserver_def modify_dgp_def Let_def result_simps intro!: solvent_frame [of db]
      split: option.splits if_splits)

lemma update_bproducer_solvent: "solvent db \<Longrightarrow> update_bproducer_apply o' db = Inr db' \<Longrightarrow> solvent db'"
  by (auto simp: update_bproducer_apply_def modify_bobserver_def modify_dgp_def result_simps intro!: solvent_frame [of db])

lemma except_bobserver_solvent: "solvent db \<Longrightarrow> except_bobserver_apply o' db = Inr db' \<Longrightarrow> solvent db'"
  by (auto simp: except_bobserver_apply_def modify_bobserver_def modify_dgp_def Let_def result_simps intro!: solvent_frame [of db]
      split: option.splits if_splits)

lemma account_auth_solvent: "solvent db \<Longrightarrow> account_auth_apply o' db = Inr db' \<Longrightarrow> solvent db'"
  by (auto simp: account_auth_apply_def modify_bobserver_def modify_dgp_def Let_def result_simps intro!: solvent_frame [of db]
      split: option.splits if_splits)

lemma request_account_recovery_solvent: "solvent db \<Longrightarrow> request_account_recovery_apply o' db = Inr db' \<Longrightarrow> solvent db'"
  by (auto simp: request_account_recovery_apply_def modify_bobserver_def modify_dgp_def Let_def result_simps intro!: solvent_frame [of db]
      split: option.splits if_splits)

lemma change_recovery_account_solvent: "solvent db \<Longrightarrow> change_recovery_account_apply o' db = Inr db' \<Longrightarrow> solvent db'"
  by (auto simp: change_recovery_account_apply_def modify_bobserver_def modify_dgp_def Let_def result_simps intro!: solvent_frame [of db]
      split: option.splits if_splits)

lemma decline_voting_rights_solvent: "solvent db \<Longrightarrow> decline_voting_rights_apply o' db = Inr db' \<Longrightarrow> solvent db'"
  by (auto simp: decline_voting_rights_apply_def modify_bobserver_def modify_dgp_def Let_def result_simps intro!: solvent_frame [of db]
      split: option.splits if_splits)

definition plugins_solvent :: "node_env \<Rightarrow> bool" where
  "plugins_solvent env \<longleftrightarrow>
     (\<forall>i eval op db db'. env_interpreters env i = Some eval \<longrightarrow> wf_db db \<longrightarrow> solvent db \<longrightarrow> eval op db = Applied db'
        \<longrightarrow> solvent db')
     \<and> (\<forall>b db. wf_db db \<longrightarrow> solvent db \<longrightarrow> solvent (env_on_applied_block env b db))"

lemma custom_solvent:
  assumes "plugins_solvent env" "wf_db db" "solvent db"
  shows "custom_apply env c db = Inr db' \<Longrightarrow> solvent db'"
    and "custom_json_apply env j db = Inr db' \<Longrightarrow> solvent db'"
    and "custom_json_dapp_apply env d db = Inr db' \<Longrightarrow> solvent db'"
    and "custom_binary_apply env b db = Inr db' \<Longrightarrow> solvent db'"
  using assms by (auto simp: custom_apply_def custom_json_apply_def custom_json_dapp_apply_def custom_binary_apply_def
      run_interpreter_def plugins_solvent_def result_simps split: option.splits custom_outcome.splits if_splits)

lemma validated_amount:
  "transfer_validate tc t = Inr () \<Longrightarrow> 0 \<le> amount (tr_amount t)"
  "print_validate p = Inr () \<Longrightarrow> 0 \<le> amount (pr_amount p)"
  "transfer_savings_validate tc v = Inr () \<Longrightarrow> 0 \<le> amount (ts_amount v)"
  "transfer_fund_validate tc f = Inr () \<Longrightarrow> 0 \<le> amount (tf_amount f)"
  "staking_fund_validate tc k = Inr () \<Longrightarrow> 0 \<le> amount (sf_amount k)"
  by (auto simp: transfer_validate_def print_validate_def transfer_savings_validate_def transfer_fund_validate_def
      staking_fund_validate_def validate_account_name_def result_simps)

text \<open>
  C7: A validated operation other than \<^verbatim>\<open>burn\<close> keeps every account balance, savings balance,
  fund balance and pending payment non-negative, whatever state it starts from, provided the
  registered interpreters do and the arithmetic on \<^verbatim>\<open>double\<close> is monotone where it is defined:
  the interest on a stake at more than minus one percent takes no more than the stake.
\<close>

theorem operations_stay_solvent:
  assumes "wf_db db" "solvent db" "operation_validate tc op = Inr ()" "\<And>o'. op \<noteq> Burn o'"
    "interest_bounded (env_doubles env)" "plugins_solvent env" "apply_operation env op db = Inr db'"
  shows "solvent db'"
  using assms(3,4,7)
proof (cases op)
  case (Burn o')
  then show ?thesis using assms(4) by simp
qed (auto simp: apply_operation_def reset_account_apply_def set_reset_account_apply_def conclusion_staking_apply_def
    return_staking_fund_apply_def result_simps
    intro: transfer_solvent [OF assms(2,1)] print_solvent [OF assms(2,1)] transfer_savings_solvent [OF assms(2,1)]
      cancel_transfer_savings_solvent [OF assms(2,1)] conclusion_transfer_savings_solvent [OF assms(2,1)]
      transfer_fund_solvent [OF assms(2,1)] staking_fund_solvent [OF assms(2,1) _ _ assms(5)] pay_staking_solvent [OF assms(2,1)]
      account_create_solvent [OF assms(2)] account_update_solvent [OF assms(2)] recover_account_solvent [OF assms(2)]
      set_blacklist_account_solvent [OF assms(2)] set_fund_interest_solvent [OF assms(2)] 
      bobserver_update_solvent [OF assms(2)] update_bproducer_solvent [OF assms(2)] except_bobserver_solvent [OF assms(2)] account_auth_solvent [OF assms(2)]
      request_account_recovery_solvent [OF assms(2)] change_recovery_account_solvent [OF assms(2)] decline_voting_rights_solvent [OF assms(2)]
      custom_solvent [OF assms(6,1,2)]
    dest: validated_amount)

section \<open>What a transfer does\<close>

lemma table_get_id: "wf_table idf t \<Longrightarrow> r \<in> set (tb_rows t) \<Longrightarrow> table_get (\<lambda>x. idf x = idf r) t = Inr r"
proof -
  assume "wf_table idf t" "r \<in> set (tb_rows t)"
  then obtain q where q: "find (\<lambda>x. idf x = idf r) (tb_rows t) = Some q"
    by (cases "find (\<lambda>x. idf x = idf r) (tb_rows t)") (auto simp: find_None_iff)
  then have "q \<in> set (tb_rows t)" "idf q = idf r" by (auto dest: find_Some_mem)
  then have "q = r" using \<open>wf_table idf t\<close> \<open>r \<in> set (tb_rows t)\<close> by (auto simp: wf_table_def distinct_map dest: inj_onD)
  with q show ?thesis by (simp add: table_get_def table_find_def)
qed

lemma find_account_modify:
  assumes "\<And>a. acc_name (f a) = acc_name a"
  shows "find_account n (modify_account i f db) = map_option (\<lambda>a. if acc_id a = i then f a else a) (find_account n db)"
  using find_modify_where_key [of acc_name f n "\<lambda>r. acc_id r = i" "tb_rows (db_accounts db)"] assms
  by (simp add: find_account_def table_find_def modify_account_def table_modify_def)

lemma find_account_mem: "find_account n db = Some a \<Longrightarrow> a \<in> set (tb_rows (db_accounts db)) \<and> acc_name a = n"
  by (auto simp: find_account_def table_find_def dest: find_Some_mem)

lemma adjust_balance_ok:
  assumes "wf_db db" "a \<in> set (tb_rows (db_accounts db))" "symbol (acc_balance a) = SGT_SYMBOL" "symbol d = SGT_SYMBOL"
    "int64_min \<le> amount (acc_balance a) + amount d" "amount (acc_balance a) + amount d \<le> int64_max"
  shows "adjust_balance (acc_id a) d db
     = Inr (modify_account (acc_id a) (\<lambda>x. x\<lparr>acc_balance := (acc_balance a)\<lparr>amount := amount (acc_balance a) + amount d\<rparr>\<rparr>) db)"
  using assms table_get_id [of acc_id "db_accounts db" a]
  by (simp add: adjust_balance_def wf_db_def add_delta_def asset_add_def safe_add_def)

definition credited :: "int \<Rightarrow> account_object \<Rightarrow> account_object" where
  "credited d a = a\<lparr>acc_balance := (acc_balance a)\<lparr>amount := amount (acc_balance a) + d\<rparr>\<rparr>"

lemma adjust_balance_credited:
  assumes wf: "wf_db db" and a: "find_account n db = Some a" and sy: "symbol (acc_balance a) = SGT_SYMBOL" "symbol d = SGT_SYMBOL"
    and range: "int64_min \<le> amount (acc_balance a) + amount d" "amount (acc_balance a) + amount d \<le> int64_max"
  shows "\<exists>db'. adjust_balance (acc_id a) d db = Inr db' \<and> wf_db db' \<and> db' = db\<lparr>db_accounts := db_accounts db'\<rparr>
     \<and> (\<forall>k. find_account k db' = map_option (credited (if k = n then amount d else 0)) (find_account k db))"
proof -
  let ?f = "\<lambda>x. x\<lparr>acc_balance := (acc_balance a)\<lparr>amount := amount (acc_balance a) + amount d\<rparr>\<rparr>"
  have run: "adjust_balance (acc_id a) d db = Inr (modify_account (acc_id a) ?f db)"
    using adjust_balance_ok [OF wf _ sy range] find_account_mem [OF a] by simp
  have same: "acc_id c = acc_id a \<longleftrightarrow> k = n" if "find_account k db = Some c" for k c
  proof -
    have mem: "c \<in> set (tb_rows (db_accounts db))" "a \<in> set (tb_rows (db_accounts db))" "acc_name c = k" "acc_name a = n"
      using find_account_mem [OF that] find_account_mem [OF a] by auto
    have "inj_on acc_id (set (tb_rows (db_accounts db)))" using wf by (simp add: wf_db_def wf_table_def distinct_map)
    then have "acc_id c = acc_id a \<longleftrightarrow> c = a" using mem(1,2) by (auto dest: inj_onD)
    moreover have "k = n \<Longrightarrow> c = a" using that a by simp
    ultimately show ?thesis using mem(3,4) by auto
  qed
  have "find_account k (modify_account (acc_id a) ?f db) = map_option (credited (if k = n then amount d else 0)) (find_account k db)" for k
    unfolding find_account_modify [of ?f, simplified]
    using same a by (cases "find_account k db") (auto simp: credited_def)
  moreover have "modify_account (acc_id a) ?f db = db\<lparr>db_accounts := db_accounts (modify_account (acc_id a) ?f db)\<rparr>"
    by (simp add: modify_account_def)
  ultimately show ?thesis using run moves_wf [OF adjust_balance_moves [OF wf run]] by blast
qed

text \<open>
  C8: A transfer between existing accounts, of a positive amount of the core symbol that the
  sender holds, by a sender neither banned nor black-listed, succeeds unless the receiver's
  balance would overflow. The sender has that much less, the receiver that much more, and
  nothing else of the state changes; a transfer to oneself changes nothing.
\<close>

theorem transfer_exact:
  assumes wf: "wf_db db" and ab: "find_account (tr_from o') db = Some a" "find_account (tr_to o') db = Some b"
    and sy: "symbol (tr_amount o') = SGT_SYMBOL" "symbol (acc_balance a) = SGT_SYMBOL" "symbol (acc_balance b) = SGT_SYMBOL"
    and x: "0 < amount (tr_amount o')" "amount (tr_amount o') \<le> amount (acc_balance a)" "int64_range (amount (acc_balance a))"
    and ok: "\<not> acc_banned a" "tr_from o' \<notin> set (env_black_list env)"
    and room: "0 \<le> amount (acc_balance b)" "amount (acc_balance b) + amount (tr_amount o') \<le> int64_max"
  shows "\<exists>db'. transfer_apply env o' db = Inr db' \<and> db' = db\<lparr>db_accounts := db_accounts db'\<rparr>
     \<and> (\<forall>n. find_account n db' = map_option (credited ((if n = tr_to o' then amount (tr_amount o') else 0)
                                            - (if n = tr_from o' then amount (tr_amount o') else 0))) (find_account n db))"
proof -
  let ?x = "amount (tr_amount o')"
  define m where "m = (tr_amount o')\<lparr>amount := - ?x\<rparr>"
  have m: "asset_neg (tr_amount o') = Inr m"
    using x by (simp add: m_def asset_neg_def safe_neg_def int64_min_def)
  have "int64_min \<le> amount (acc_balance a) + amount m" "amount (acc_balance a) + amount m \<le> int64_max"
    using x by (simp_all add: m_def int64_range_def int64_min_def)
  with adjust_balance_credited [OF wf ab(1) sy(2), of m] sy(1) obtain d1
    where d1: "adjust_balance (acc_id a) m db = Inr d1" "wf_db d1" "d1 = db\<lparr>db_accounts := db_accounts d1\<rparr>"
      and f1: "\<And>n. find_account n d1 = map_option (credited (if n = tr_from o' then - ?x else 0)) (find_account n db)"
    by (auto simp: m_def)
  define b' where "b' = credited (if tr_to o' = tr_from o' then - ?x else 0) b"
  have b': "find_account (tr_to o') d1 = Some b'" using ab(2) by (simp add: f1 b'_def)
  have "symbol (acc_balance b') = SGT_SYMBOL" "acc_id b' = acc_id b"
    "int64_min \<le> amount (acc_balance b') + ?x" "amount (acc_balance b') + ?x \<le> int64_max"
    using sy(3) x room by (simp_all add: b'_def credited_def int64_min_def)
  with adjust_balance_credited [OF d1(2) b' _ sy(1)] obtain db'
    where d2: "adjust_balance (acc_id b) (tr_amount o') d1 = Inr db'" "db' = d1\<lparr>db_accounts := db_accounts db'\<rparr>"
      and f2: "\<And>n. find_account n db' = map_option (credited (if n = tr_to o' then ?x else 0)) (find_account n d1)"
    by auto
  have "transfer_apply env o' db = Inr db'"
    using ab sy x ok m d1(1) d2(1)
    by (simp add: transfer_apply_def get_account_def require_balance_def get_balance_def require_ge_def asset_ge_def
        asset_lt_def is_blacklist_def list_ex_iff)
  moreover have "db' = db\<lparr>db_accounts := db_accounts db'\<rparr>" using d1(3) d2(2) by (metis chain_db.surjective chain_db.update_convs(1))
  ultimately show ?thesis
    by (auto simp: f2 f1 option.map_comp credited_def comp_def intro!: exI [of _ db'] option.map_cong)
qed

section \<open>The books over a sequence of operations\<close>

text \<open>
  C6: Over any sequence of operations the books stay as they were: the difference between the
  value in all balances and the recorded supply, the difference between each account's savings
  and the requests that will pay from them, and the difference between each fund's reserve and
  its pending staking requests. Printing and burning move the supply with the balance.
\<close>

theorem operations_keep_books:
  assumes "plugins_balanced env" "wf_db db" "foldR (\<lambda>db op. apply_operation env op db) db ops = Inr db'"
  shows "wf_db db' \<and> unaccounted db' = unaccounted db \<and> (\<forall>n. savings_gap n db' = savings_gap n db)
     \<and> (\<forall>n. staking_gap n db' = staking_gap n db)"
  using operation_step.fold_keeps_books [OF assms] by blast

section \<open>Privileged operations\<close>

text \<open>The operations that act on accounts, funds or producers in the name of the root account, with the account they name.\<close>

fun privileged_by :: "operation \<Rightarrow> account_name_type option" where
  "privileged_by (Bobserver_update o') = Some (bu_root o')"
| "privileged_by (Update_bproducer o') = Some (ub_root o')"
| "privileged_by (Except_bobserver o') = Some (eb_root o')"
| "privileged_by (Print o') = Some (pr_root o')"
| "privileged_by (Burn o') = Some (bn_root o')"
| "privileged_by (Conclusion_staking o') = Some (cs_root o')"
| "privileged_by (Return_staking_fund o') = Some (rf_root o')"
| "privileged_by (Set_fund_interest o') = Some (fi_root o')"
| "privileged_by (Set_blacklist_account o') = Some (bl_root o')"
| "privileged_by _ = None"

lemma get_account_name: "get_account n db = Inr a \<Longrightarrow> acc_name a = n"
  using get_account_mem by blast

lemma require_root_name_Inr: "require_root_name r db = Inr u \<Longrightarrow> r = SIGMAENGINE_ROOT_ACCOUNT"
  by (auto simp: require_root_name_def result_simps dest!: get_account_name)

lemma require_root_Inr: "require_root r db = Inr u \<Longrightarrow> r = SIGMAENGINE_ROOT_ACCOUNT"
  by (auto simp: require_root_def result_simps dest!: get_account_name)

text \<open>
  C28: A privileged operation takes effect only when the account it names is the root account,
  and the active authority of that account is then the authority the operation requires.
\<close>

theorem privileged_needs_root:
  assumes "privileged_by op = Some r" "apply_operation env op db = Inr db'"
  shows "r = SIGMAENGINE_ROOT_ACCOUNT
     \<and> required_active (operation_get_required_authorities op no_required_authorities) = [SIGMAENGINE_ROOT_ACCOUNT]"
proof -
  have "r = SIGMAENGINE_ROOT_ACCOUNT" using assms
    by (cases op)
      (auto simp: apply_operation_def bobserver_update_apply_def update_bproducer_apply_def except_bobserver_apply_def
        print_apply_def burn_apply_def conclusion_staking_apply_def return_staking_fund_apply_def set_fund_interest_apply_def
        set_blacklist_account_apply_def result_simps dest: require_root_name_Inr require_root_Inr)
  moreover have "required_active (operation_get_required_authorities op no_required_authorities) = [r]"
    using assms(1)
    by (cases op) (auto simp: need_active_def no_required_authorities_def insert_all_def flat_set_insert_def)
  ultimately show ?thesis by simp
qed

section \<open>The supply check\<close>

lemma foldR_sum:
  fixes h :: "'a \<Rightarrow> int"
  assumes "\<And>s x. x \<in> set xs \<Longrightarrow> symbol s = SGT_SYMBOL \<Longrightarrow> 0 \<le> amount s \<Longrightarrow> amount s + h x \<le> int64_max \<Longrightarrow>
      f s x = Inr (s\<lparr>amount := amount s + h x\<rparr>)"
    and "\<And>x. x \<in> set xs \<Longrightarrow> 0 \<le> h x" "symbol s = SGT_SYMBOL" "0 \<le> amount s" "amount s + sum_list (map h xs) \<le> int64_max"
  shows "foldR f s xs = Inr (s\<lparr>amount := amount s + sum_list (map h xs)\<rparr>)"
  using assms
proof (induction xs arbitrary: s)
  case Nil
  then show ?case by simp
next
  case (Cons x xs)
  have nn: "0 \<le> sum_list (map h xs)" using Cons.prems(2) by (intro sum_list_nonneg) auto
  then have fx: "f s x = Inr (s\<lparr>amount := amount s + h x\<rparr>)" using Cons.prems by simp
  have "foldR f (s\<lparr>amount := amount s + h x\<rparr>) xs
      = Inr ((s\<lparr>amount := amount s + h x\<rparr>)\<lparr>amount := amount (s\<lparr>amount := amount s + h x\<rparr>) + sum_list (map h xs)\<rparr>)"
    using Cons.prems(3,4,5) Cons.prems(2) [of x] by (intro Cons.IH) (auto intro: Cons.prems(1,2))
  with fx show ?case by (simp add: add.assoc)
qed

lemma get_total_supply_sum:
  assumes "solvent db" "money_accounts db + money_funds db \<le> int64_max"
    and a: "\<And>a. a \<in> set (tb_rows (db_accounts db)) \<Longrightarrow> symbol (acc_balance a) = SGT_SYMBOL \<and> symbol (acc_savings_balance a) = SGT_SYMBOL"
    and f: "\<And>f. f \<in> set (tb_rows (db_funds db)) \<Longrightarrow> symbol (cfo_fund_balance f) = SGT_SYMBOL"
  shows "get_total_supply db = Inr (SGT (money_accounts db + money_funds db))"
proof -
  let ?as = "sort_key acc_name (tb_rows (db_accounts db))"
  let ?h = "\<lambda>a. amount (acc_balance a) + amount (acc_savings_balance a)"
  have "sum_list (map ?h ?as) = sum_mset (image_mset ?h (mset ?as))"
    by (simp flip: sum_mset_sum_list)
  then have sum: "sum_list (map ?h ?as) = money_accounts db"
    by (simp add: money_accounts_def flip: sum_mset_sum_list)
  have nf: "0 \<le> money_funds db" using assms(1) by (auto simp: money_funds_def solvent_def intro!: sum_list_nonneg)
  have na: "0 \<le> money_accounts db" using assms(1) by (auto simp: money_accounts_def solvent_def intro!: sum_list_nonneg)
  have "foldR (\<lambda>s a. bindR (asset_add s (acc_balance a)) (\<lambda>s. asset_add s (acc_savings_balance a))) (SGT 0) ?as
      = Inr ((SGT 0)\<lparr>amount := amount (SGT 0) + sum_list (map ?h ?as)\<rparr>)"
    by (rule foldR_sum)
      (use assms(1,2) a nf sum in \<open>auto simp: solvent_def asset_add_def safe_add_def SGT_def int64_min_def add.assoc\<close>)
  then have 1: "foldR (\<lambda>s a. bindR (asset_add s (acc_balance a)) (\<lambda>s. asset_add s (acc_savings_balance a))) (SGT 0) ?as
      = Inr (SGT (money_accounts db))" by (simp add: sum SGT_def)
  have "foldR (\<lambda>s f. asset_add s (cfo_fund_balance f)) (SGT (money_accounts db)) (tb_rows (db_funds db))
      = Inr ((SGT (money_accounts db))\<lparr>amount := amount (SGT (money_accounts db))
          + sum_list (map (\<lambda>f. amount (cfo_fund_balance f)) (tb_rows (db_funds db)))\<rparr>)"
    by (rule foldR_sum)
      (use assms(1,2) f na in \<open>auto simp: solvent_def asset_add_def safe_add_def SGT_def int64_min_def money_funds_def\<close>)
  then show ?thesis unfolding get_total_supply_def 1 by (simp add: SGT_def money_funds_def)
qed

text \<open>
  On a solvent state whose balances are in the core symbol and sum below the 64 bit limit,
  the chain's own invariant check passes exactly when the value that is unaccounted for equals
  the dapp reward fund: the check leaves that fund out of its sum. A chain whose books are
  balanced passes it only while the dapp reward fund is empty.
\<close>

theorem validate_invariants_iff:
  assumes "solvent db" "money_accounts db + money_funds db \<le> int64_max" "symbol (dgp_current_supply (db_dgp db)) = SGT_SYMBOL"
    and "\<And>a. a \<in> set (tb_rows (db_accounts db)) \<Longrightarrow> symbol (acc_balance a) = SGT_SYMBOL \<and> symbol (acc_savings_balance a) = SGT_SYMBOL"
    and "\<And>f. f \<in> set (tb_rows (db_funds db)) \<Longrightarrow> symbol (cfo_fund_balance f) = SGT_SYMBOL"
  shows "validate_invariants db = Inr () \<longleftrightarrow> unaccounted db = money_dapp db"
  using get_total_supply_sum [OF assms(1,2,4,5)] assms(3)
  by (cases "dgp_current_supply (db_dgp db)") (auto simp: validate_invariants_def unaccounted_def fc_assert_def SGT_def)

section \<open>A small chain\<close>

definition example_account :: "nat \<Rightarrow> string \<Rightarrow> int \<Rightarrow> account_object" where
  "example_account i n b = (new_account i)\<lparr>acc_name := n, acc_memo_key := 7, acc_balance := SGT b\<rparr>"

definition example_dgp :: dynamic_global_property_object where
  "example_dgp = \<lparr>dgp_head_block_number = 10, dgp_head_block_id = [0, 0, 0, 0, 0], dgp_time = 1600000000,
     dgp_current_bobserver = SIGMAENGINE_INIT_MINER_NAME, dgp_current_supply = SGT 100, dgp_maximum_block_size = 65536,
     dgp_current_aslot = 10, dgp_recent_slots_filled = 0, dgp_participation_count = 128, dgp_dapp_transaction_fee = SGT 1,
     dgp_last_irreversible_block_num = 5, dgp_current_bproducer_count = 1, dgp_next_update_bproducer_owner_time = 0,
     dgp_last_dapp_voting_aggregation_time = 0, dgp_total_transfer = 0\<rparr>"

definition example_fund :: common_fund_object where
  "example_fund = \<lparr>cfo_id = 0, cfo_name = SIGMAENGINE_DEPOSIT_FUND_NAME, cfo_fund_balance = SGT 0, cfo_fund_withdraw_ready = SGT 0,
     cfo_percent_interest = replicate 2 (replicate 12 3), cfo_last_update = 0\<rparr>"

definition example_db :: chain_db where
  "example_db = \<lparr>
     db_accounts = \<lparr>tb_next = 3, tb_rows = [example_account 0 SIGMAENGINE_ROOT_ACCOUNT 0, example_account 1 ''alice'' 100,
        example_account 2 ''bob'' 0]\<rparr>,
     db_authorities = empty_table, db_histories = empty_table, db_recovery_requests = empty_table,
     db_change_requests = empty_table, db_decline_requests = empty_table, db_auth_tokens = empty_table,
     db_savings = empty_table, db_fund_withdraws = empty_table, db_funds = \<lparr>tb_next = 1, tb_rows = [example_fund]\<rparr>,
     db_dapp_fund = \<lparr>drf_id = 0, drf_fund_balance = SGT 0, drf_last_update = 0\<rparr>,
     db_bobservers = empty_table, db_votes = empty_table,
     db_schedule = \<lparr>wso_next_shuffle_block_num = 1, wso_current_shuffled_bobservers = SIGMAENGINE_INIT_MINER_NAME # replicate 20 [],
        wso_num_scheduled_bobservers = 1, wso_majority_version = 0, wso_max_voted_bobservers = 17, wso_max_miner_bobservers = 4,
        wso_max_runner_bobservers = 10, wso_hardfork_required_bobservers = 17\<rparr>,
     db_dgp = example_dgp,
     db_hardfork = \<lparr>hpo_processed_hardforks = [SIGMAENGINE_GENESIS_TIME], hpo_last_hardfork = 0, hpo_current_hardfork_version = 0,
        hpo_next_hardfork = 0, hpo_next_hardfork_time = 0\<rparr>,
     db_summaries = (\<lambda>_. []), db_transactions = empty_table, db_virtual_ops = [], db_plugins = empty_plugin_db\<rparr>"

text \<open>Interest in whole percent; a node without plugins.\<close>

definition example_env :: node_env where
  "example_env = \<lparr>env_producing = False, env_black_list = [],
     env_doubles = \<lparr>dbl_minus_one = 0, dbl_above_minus_one = (\<lambda>p. 0 < p), dbl_interest = (\<lambda>v p. if v * int p div 100 \<le> int64_max then Some (v * int p div 100) else None), dbl_parse = parse_nat\<rparr>,
     env_interpreters = (\<lambda>_. None), env_on_applied_block = (\<lambda>_ db. db)\<rparr>"

definition alice_pays_bob :: transfer_operation where
  "alice_pays_bob = \<lparr>tr_from = ''alice'', tr_to = ''bob'', tr_amount = SGT 30, tr_memo = []\<rparr>"

definition bob_saves :: transfer_savings_operation where
  "bob_saves = \<lparr>ts_from = ''bob'', ts_request_id = 1, ts_to = ''alice'', ts_amount = SGT 10, ts_total_amount = SGT 10,
     ts_split_pay_order = 1, ts_split_pay_month = 1, ts_memo = [], ts_complete = 1600000100\<rparr>"

definition alice_stakes :: staking_fund_operation where
  "alice_stakes = \<lparr>sf_from = ''alice'', sf_fund_name = SIGMAENGINE_DEPOSIT_FUND_NAME, sf_request_id = 1, sf_amount = SGT 50,
     sf_memo = [], sf_usertype = 0, sf_month = 1\<rparr>"

definition example_ops :: "operation list" where
  "example_ops = [Transfer alice_pays_bob, Transfer_savings bob_saves, Staking_fund alice_stakes]"

definition accept_text :: text_checks where
  "accept_text = \<lparr>is_utf8 = (\<lambda>_. True), is_json = (\<lambda>_. True)\<rparr>"

lemmas example_eval = example_db_def example_account_def new_account_def example_fund_def example_dgp_def example_env_def
  SGT_def empty_table_def SIGMAENGINE_ROOT_ACCOUNT_def SIGMAENGINE_DEPOSIT_FUND_NAME_def
  int64_max_def int64_min_def alice_pays_bob_def bob_saves_def alice_stakes_def
lemmas table_eval = table_create_def table_modify_def table_remove_def table_find_def table_get_def modify_where_def
  get_account_def find_account_def get_common_fund_def fixed_string_16_def fixed_string_def strip_zeros_def c_str_def head_block_time_def
  adjust_balance_def adjust_savings_balance_def adjust_fund_balance_def adjust_fund_withdraw_balance_def adjust_supply_def
  modify_account_def modify_fund_def modify_dgp_def add_delta_def asset_add_def asset_neg_def asset_ge_def asset_lt_def
  safe_add_def safe_neg_def get_balance_def get_savings_balance_def
lemmas evaluator_eval = apply_operation_def transfer_apply_def transfer_savings_apply_def staking_fund_apply_def print_apply_def burn_apply_def
  require_balance_def require_ge_def require_root_def is_blacklist_def interest_at_def account_clash_def savings_clash_def fund_withdraw_clash_def

lemmas economy_eval = evaluator_eval table_eval example_eval Let_def

lemma example_env_good: "plugins_balanced example_env" "plugins_solvent example_env" "interest_bounded (env_doubles example_env)"
proof -
  show "plugins_balanced example_env" "plugins_solvent example_env"
    by (simp_all add: plugins_balanced_def plugins_solvent_def example_env_def moves_refl)
  have "- v \<le> v * int p div 100" if "0 \<le> v" for v p
    using that pos_imp_zdiv_nonneg_iff [of 100 "v * int p"] by (simp add: order_trans [of "- v" 0])
  then show "interest_bounded (env_doubles example_env)" by (simp add: interest_bounded_def example_env_def)
qed

lemma example_db_good: "wf_db example_db" "solvent example_db"
  by (simp_all add: example_eval wf_db_def wf_table_def solvent_def)

theorem operations_keep_books_witness:
  "\<exists>db'. foldR (\<lambda>db op. apply_operation example_env op db) example_db example_ops = Inr db'
     \<and> unaccounted db' = 0 \<and> savings_gap ''alice'' db' = 0 \<and> staking_gap ''deposit'' db' = 0"
proof -
  have "is_ok (foldR (\<lambda>db op. apply_operation example_env op db) example_db example_ops)"
    by (simp add: example_ops_def economy_eval)
  then obtain db' where db': "foldR (\<lambda>db op. apply_operation example_env op db) example_db example_ops = Inr db'"
    by (auto simp: is_ok_iff)
  have "unaccounted example_db = 0" "savings_gap ''alice'' example_db = 0" "staking_gap ''deposit'' example_db = 0"
    by (simp_all add: books_defs example_eval)
  with operations_keep_books [OF example_env_good(1) example_db_good(1) db'] db' show ?thesis by metis
qed

theorem operations_stay_solvent_witness:
  "\<exists>db'. apply_operation example_env (Staking_fund alice_stakes) example_db = Inr db' \<and> solvent db'"
proof -
  have "is_ok (apply_operation example_env (Staking_fund alice_stakes) example_db)" by (simp add: economy_eval)
  then obtain db' where db': "apply_operation example_env (Staking_fund alice_stakes) example_db = Inr db'"
    by (auto simp: is_ok_iff)
  have "operation_validate accept_text (Staking_fund alice_stakes) = Inr ()"
    by (simp add: staking_fund_validate_def validate_account_name_def name_eval is_valid_account_name_def is_letter_def is_let_dig_def
        validate_memo_def accept_text_def alice_stakes_def SGT_def SIGMAENGINE_DEPOSIT_FUND_NAME_def
        SIGMAENGINE_MIN_ACCOUNT_NAME_LENGTH_def SIGMAENGINE_MAX_ACCOUNT_NAME_LENGTH_def SIGMAENGINE_MAX_MEMO_SIZE_def upt_rec)
  with operations_stay_solvent [OF example_db_good _ _ example_env_good(3,2) db'] db' show ?thesis by blast
qed

theorem transfer_exact_witness:
  "\<exists>db'. transfer_apply example_env alice_pays_bob example_db = Inr db'
     \<and> map_option (\<lambda>a. amount (acc_balance a)) (find_account ''alice'' db') = Some 70
     \<and> map_option (\<lambda>a. amount (acc_balance a)) (find_account ''bob'' db') = Some 30"
proof -
  have ab: "find_account (tr_from alice_pays_bob) example_db = Some (example_account 1 ''alice'' 100)"
    "find_account (tr_to alice_pays_bob) example_db = Some (example_account 2 ''bob'' 0)"
    by (simp_all add: find_account_def table_find_def example_eval)
  have "\<exists>db'. transfer_apply example_env alice_pays_bob example_db = Inr db' \<and> db' = example_db\<lparr>db_accounts := db_accounts db'\<rparr>
     \<and> (\<forall>n. find_account n db' = map_option (credited ((if n = tr_to alice_pays_bob then amount (tr_amount alice_pays_bob) else 0)
          - (if n = tr_from alice_pays_bob then amount (tr_amount alice_pays_bob) else 0))) (find_account n example_db))"
    by (rule transfer_exact [OF example_db_good(1) ab])
      (simp_all add: alice_pays_bob_def example_account_def new_account_def example_env_def SGT_def int64_range_def int64_max_def int64_min_def)
  then obtain db' where db': "transfer_apply example_env alice_pays_bob example_db = Inr db'"
    and f: "\<And>n. find_account n db' = map_option (credited ((if n = ''bob'' then 30 else 0) - (if n = ''alice'' then 30 else 0))) (find_account n example_db)"
    by (auto simp: alice_pays_bob_def SGT_def)
  have "find_account ''alice'' example_db = Some (example_account 1 ''alice'' 100)"
    "find_account ''bob'' example_db = Some (example_account 2 ''bob'' 0)"
    using ab by (simp_all add: alice_pays_bob_def)
  then show ?thesis using db' by (intro exI [of _ db']) (simp add: f credited_def example_account_def SGT_def)
qed

theorem privileged_needs_root_witness:
  "SIGMAENGINE_ROOT_ACCOUNT = ''root'' \<and>
   (\<exists>db'. apply_operation example_env (Print \<lparr>pr_root = ''root'', pr_account = ''bob'', pr_amount = SGT 5\<rparr>) example_db = Inr db')"
proof -
  have "is_ok (apply_operation example_env (Print \<lparr>pr_root = ''root'', pr_account = ''bob'', pr_amount = SGT 5\<rparr>) example_db)"
    by (simp add: economy_eval)
  then obtain db' where db': "apply_operation example_env (Print \<lparr>pr_root = ''root'', pr_account = ''bob'', pr_amount = SGT 5\<rparr>) example_db = Inr db'"
    by (auto simp: is_ok_iff)
  from privileged_needs_root [OF _ db', of "''root''"] db' show ?thesis by simp
qed

theorem validate_invariants_iff_witness: "validate_invariants example_db = Inr ()"
proof -
  have "unaccounted example_db = money_dapp example_db" "money_accounts example_db + money_funds example_db \<le> int64_max"
    "symbol (dgp_current_supply (db_dgp example_db)) = SGT_SYMBOL"
    "\<forall>a \<in> set (tb_rows (db_accounts example_db)). symbol (acc_balance a) = SGT_SYMBOL \<and> symbol (acc_savings_balance a) = SGT_SYMBOL"
    "\<forall>f \<in> set (tb_rows (db_funds example_db)). symbol (cfo_fund_balance f) = SGT_SYMBOL"
    by (simp_all add: books_defs example_eval)
  with validate_invariants_iff [OF example_db_good(2)] show ?thesis by blast
qed

text \<open>
  \<^verbatim>\<open>burn\<close> does not compare the amount with the balance. Burning five from an account that
  holds nothing passes validation, succeeds, and leaves the account with a balance of minus five.
\<close>

theorem burn_goes_negative:
  "burn_validate \<lparr>bn_root = ''root'', bn_account = ''bob'', bn_amount = SGT 5\<rparr> = Inr ()
   \<and> (case burn_apply \<lparr>bn_root = ''root'', bn_account = ''bob'', bn_amount = SGT 5\<rparr> example_db of
        Inl _ \<Rightarrow> False
      | Inr db' \<Rightarrow> map_option (\<lambda>a. amount (acc_balance a)) (find_account ''bob'' db') = Some (-5))"
  by (simp add: economy_eval burn_validate_def validate_account_name_def name_eval is_valid_account_name_def is_letter_def is_let_dig_def
      SIGMAENGINE_MIN_ACCOUNT_NAME_LENGTH_def SIGMAENGINE_MAX_ACCOUNT_NAME_LENGTH_def upt_rec)

end
