(* ===== verification/Processing.thy ===== *)
theory Processing
  imports Economy
begin

text \<open>
  What every block does to the state besides its transactions, from \<^verbatim>\<open>database.cpp\<close>: emptying the
  null account, paying the producer from the dapp reward fund, paying due savings and staking
  requests, account recovery, and dropping expired transactions. The
  lemmas: the payment loops terminate, and each step leaves the books balanced.
\<close>

definition SIGMAENGINE_TRANSFER_SAVINGS_CYCLE :: nat where
  "SIGMAENGINE_TRANSFER_SAVINGS_CYCLE = days_sec 30"

section \<open>The null account and the producer reward\<close>

text \<open>The account is read again after each adjustment, as the source does through its reference.\<close>

definition clear_balance :: "account_object \<Rightarrow> asset \<Rightarrow> chain_db \<Rightarrow> (asset \<times> chain_db) result" where
  "clear_balance a pia db =
     (if amount (acc_balance a) > 0 then
        bindR (asset_add pia (acc_balance a)) (\<lambda>pia.
        bindR (asset_neg (acc_balance a)) (\<lambda>minus.
        bindR (adjust_balance (acc_id a) minus db) (\<lambda>db.
        Inr (pia, db))))
      else Inr (pia, db))"

definition clear_savings :: "account_object \<Rightarrow> asset \<Rightarrow> chain_db \<Rightarrow> (asset \<times> chain_db) result" where
  "clear_savings a pia db =
     (if amount (acc_savings_balance a) > 0 then
        bindR (asset_add pia (acc_savings_balance a)) (\<lambda>pia.
        bindR (asset_neg (acc_savings_balance a)) (\<lambda>minus.
        bindR (adjust_savings_balance (acc_id a) minus db) (\<lambda>db.
        Inr (pia, db))))
      else Inr (pia, db))"

definition clear_null_account_balance :: "chain_db \<Rightarrow> chain_db result" where
  "clear_null_account_balance db =
     bindR (get_account SIGMAENGINE_NULL_ACCOUNT db) (\<lambda>null_account.
     bindR (clear_balance null_account (SGT 0) db) (\<lambda>(total_pia, db).
     bindR (clear_savings null_account total_pia db) (\<lambda>(total_pia, db).
     if amount total_pia > 0
     then bindR (asset_neg total_pia) (\<lambda>minus. adjust_supply minus db)
     else Inr db)))"

definition reward_account :: "bobserver_object \<Rightarrow> account_name_type" where
  "reward_account b =
     (if length (name_string (bo_bp_owner b)) = 0 then bo_account b
      else if bo_is_bproducer b then bo_bp_owner b else bo_account b)"

definition process_funds :: "chain_db \<Rightarrow> chain_db result" where
  "process_funds db =
     bindR (get_bobserver (dgp_current_bobserver (db_dgp db)) db) (\<lambda>bobserver.
     bindR (get_account (reward_account bobserver) db) (\<lambda>bobserver_account.
     let reward = drf_fund_balance (db_dapp_fund db) in
     if amount reward > 0 then
       bindR (asset_neg reward) (\<lambda>minus.
       bindR (adjust_dapp_reward_fund_balance minus db) (\<lambda>db.
       bindR (adjust_balance (acc_id bobserver_account) reward db) (\<lambda>db.
       push_virtual_operation (Dapp_reward_virtual (acc_name bobserver_account) reward) db)))
     else Inr db))"

declare bindR_cong [fundef_cong]

section \<open>Due savings requests\<close>

text \<open>
  The index \<^verbatim>\<open>by_complete_from_rid\<close>; an iterator is the id of the object it points to, or \<open>None\<close>
  at the end.
\<close>

definition savings_begin :: "chain_db \<Rightarrow> nat option" where
  "savings_begin db =
     map_option svw_id (index_begin (\<lambda>s. (svw_complete s, svw_from s, svw_request_id s)) (tb_rows (db_savings db)))"

definition remove_savings :: "savings_withdraw_object \<Rightarrow> chain_db \<Rightarrow> chain_db" where
  "remove_savings s db = db\<lparr>db_savings := table_remove svw_id (svw_id s) (db_savings db)\<rparr>"

definition pay_savings :: "savings_withdraw_object \<Rightarrow> asset \<Rightarrow> chain_db \<Rightarrow> chain_db result" where
  "pay_savings s am db =
     bindR (get_account (svw_to s) db) (\<lambda>to.
     bindR (adjust_balance (acc_id to) am db) (\<lambda>db.
     bindR (asset_neg am) (\<lambda>minus.
     bindR (adjust_savings_balance (acc_id to) minus db) (\<lambda>db.
     push_virtual_operation (fill_savings (s\<lparr>svw_amount := am\<rparr>)) db))))"

text \<open>The last payment of a request: all that is left.\<close>

definition pay_final :: "savings_withdraw_object \<Rightarrow> chain_db \<Rightarrow> (nat option \<times> chain_db) result" where
  "pay_final s db =
     bindR (get_account (svw_to s) db) (\<lambda>to.
     bindR (get_savings_balance to (symbol (svw_amount s))) (\<lambda>savings_balance.
     bindR (require_ge savings_balance (svw_amount s)) (\<lambda>_.
     bindR (pay_savings s (svw_amount s) db) (\<lambda>db.
     let db = remove_savings s db in Inr (savings_begin db, db)))))"

text \<open>
  A payment before the last: the iterator is reset before the rest of the request is created
  anew, so the new object is not seen before the next pass.
\<close>

definition rest_of_request :: "savings_withdraw_object \<Rightarrow> asset \<Rightarrow> nat \<Rightarrow> savings_withdraw_object" where
  "rest_of_request s rest i =
     \<lparr>svw_id = i, svw_from = svw_from s, svw_to = svw_to s, svw_memo = svw_memo s, svw_request_id = svw_request_id s,
      svw_amount = rest, svw_total_amount = svw_total_amount s, svw_split_pay_order = svw_split_pay_order s + 1,
      svw_split_pay_month = svw_split_pay_month s,
      svw_complete = time_add (svw_complete s) SIGMAENGINE_TRANSFER_SAVINGS_CYCLE\<rparr>"

definition pay_part :: "savings_withdraw_object \<Rightarrow> chain_db \<Rightarrow> (nat option \<times> chain_db) result" where
  "pay_part s db =
     bindR (get_account (svw_to s) db) (\<lambda>to.
     bindR (get_savings_balance to (symbol (svw_total_amount s))) (\<lambda>savings_balance.
     bindR (safe_div (amount (svw_total_amount s)) (uint (svw_split_pay_month s))) (\<lambda>v.
     let monthly_amount = (svw_total_amount s)\<lparr>amount := v\<rparr> in
     bindR (require_ge savings_balance monthly_amount) (\<lambda>_.
     bindR (pay_savings s monthly_amount db) (\<lambda>db.
     let db = remove_savings s db; itr = savings_begin db in
     bindR (asset_sub (svw_amount s) monthly_amount) (\<lambda>rest.
     bindR (table_create savings_clash (rest_of_request s rest) (db_savings db)) (\<lambda>t.
     Inr (itr, db\<lparr>db_savings := t\<rparr>))))))))"

definition pay_request :: "savings_withdraw_object \<Rightarrow> chain_db \<Rightarrow> (nat option \<times> chain_db) result" where
  "pay_request s db = (if svw_split_pay_order s = svw_split_pay_month s then pay_final s db else pay_part s db)"

text \<open>
  Every pass of the loop removes a request or moves it one payment closer to its last, counting
  payments modulo 256 as the 8 bit counters do; the sum over the requests bounds the loop.
\<close>

definition payments_left :: "savings_withdraw_object \<Rightarrow> nat" where
  "payments_left s = Suc (unat (svw_split_pay_month s - svw_split_pay_order s))"

definition savings_measure :: "chain_db \<Rightarrow> nat" where
  "savings_measure db = (\<Sum>s \<leftarrow> tb_rows (db_savings db). payments_left s)"

lemma pay_savings_frame: "pay_savings s am db = Inr db' \<Longrightarrow> db_savings db' = db_savings db"
  by (auto simp: pay_savings_def result_simps dest!: adjust_balance_frame adjust_savings_balance_frame push_virtual_operation_frame)

lemma remove_savings_measure:
  "s \<in> set (tb_rows (db_savings db)) \<Longrightarrow> payments_left s + savings_measure (remove_savings s db) \<le> savings_measure db"
proof -
  have "s \<in> set rows \<Longrightarrow> payments_left s + (\<Sum>s \<leftarrow> filter (\<lambda>r. svw_id r \<noteq> svw_id s) rows. payments_left s)
      \<le> (\<Sum>s \<leftarrow> rows. payments_left s)" for rows
  proof (induction rows)
    case (Cons r rows)
    have "(\<Sum>s \<leftarrow> filter (\<lambda>r. svw_id r \<noteq> svw_id s) rows. payments_left s) \<le> (\<Sum>s \<leftarrow> rows. payments_left s)"
      by (induction rows) auto
    with Cons show ?case by auto
  qed simp
  then show "s \<in> set (tb_rows (db_savings db)) \<Longrightarrow> payments_left s + savings_measure (remove_savings s db) \<le> savings_measure db"
    by (simp add: savings_measure_def remove_savings_def table_remove_def remove_where_def)
qed

lemma payments_left_rest:
  assumes "svw_split_pay_order s \<noteq> svw_split_pay_month s"
  shows "payments_left (rest_of_request s rest i) < payments_left s"
proof -
  have "svw_split_pay_month s - svw_split_pay_order s \<noteq> 0" using assms by simp
  then have "unat (svw_split_pay_month s - svw_split_pay_order s - 1) < unat (svw_split_pay_month s - svw_split_pay_order s)"
    by (metis unat_minus_one diff_less unat_eq_zero zero_less_one gr0I)
  then show ?thesis by (simp add: payments_left_def rest_of_request_def diff_diff_eq)
qed

lemma pay_request_measure:
  assumes "pay_request s db = Inr (itr, db')" "s \<in> set (tb_rows (db_savings db))"
  shows "savings_measure db' < savings_measure db"
proof (cases "svw_split_pay_order s = svw_split_pay_month s")
  case True
  with assms(1) obtain d where "db_savings d = db_savings db" "db' = remove_savings s d"
    by (auto simp: pay_request_def pay_final_def Let_def result_simps dest!: pay_savings_frame)
  with remove_savings_measure [of s d] assms(2) show ?thesis by (simp add: savings_measure_def payments_left_def)
next
  case False
  with assms(1) obtain d rest t where d: "db_savings d = db_savings db"
    and t: "table_create savings_clash (rest_of_request s rest) (db_savings (remove_savings s d)) = Inr t"
      "db' = (remove_savings s d)\<lparr>db_savings := t\<rparr>"
    by (auto simp: pay_request_def pay_part_def Let_def result_simps dest!: pay_savings_frame)
  have "savings_measure db' = savings_measure (remove_savings s d)
      + payments_left (rest_of_request s rest (tb_next (db_savings (remove_savings s d))))"
    using t by (auto simp: savings_measure_def table_create_def Let_def result_simps)
  also have "\<dots> < savings_measure (remove_savings s d) + payments_left s" using payments_left_rest [OF False] by simp
  also have "\<dots> \<le> savings_measure db" using remove_savings_measure [of s d] assms(2) d by (simp add: savings_measure_def)
  finally show ?thesis .
qed

function savings_loop :: "nat option \<Rightarrow> chain_db \<Rightarrow> chain_db result" where
  "savings_loop itr db =
     (case itr of
        None \<Rightarrow> Inr db
      | Some i \<Rightarrow>
          bindR (table_get (\<lambda>s. svw_id s = i) (db_savings db)) (\<lambda>s.
          if svw_complete s > head_block_time db then Inr db
          else bindR (pay_request s db) (\<lambda>r. savings_loop (fst r) (snd r))))"
  by pat_completeness auto
termination
  by (relation "measure (\<lambda>(itr, db). savings_measure db)") (auto dest!: table_get_mem intro!: pay_request_measure)

declare savings_loop.simps [simp del]

definition process_savings_withdraws :: "chain_db \<Rightarrow> chain_db result" where
  "process_savings_withdraws db = savings_loop (savings_begin db) db"

section \<open>Due staking requests\<close>

definition staking_begin :: "chain_db \<Rightarrow> fund_withdraw_object option" where
  "staking_begin db =
     index_begin (\<lambda>w. (fdw_complete w, fdw_from w, fdw_fund_name w, fdw_id w)) (tb_rows (db_fund_withdraws db))"

definition pay_due_staking :: "fund_withdraw_object \<Rightarrow> chain_db \<Rightarrow> chain_db result" where
  "pay_due_staking w db =
     bindR (get_account (fdw_from w) db) (\<lambda>account.
     bindR (adjust_balance (acc_id account) (fdw_amount w) db) (\<lambda>db.
     bindR (asset_neg (fdw_amount w)) (\<lambda>minus.
     bindR (adjust_fund_balance (fdw_fund_name w) minus db) (\<lambda>db.
     bindR (adjust_fund_withdraw_balance (fdw_fund_name w) minus db) (\<lambda>db.
     bindR (push_virtual_operation (fill_staking (fdw_from w) (fdw_fund_name w) w) db) (\<lambda>db.
     Inr (db\<lparr>db_fund_withdraws := table_remove fdw_id (fdw_id w) (db_fund_withdraws db)\<rparr>)))))))"

lemma pay_due_staking_rows:
  assumes "pay_due_staking w db = Inr db'" "w \<in> set (tb_rows (db_fund_withdraws db))"
  shows "length (tb_rows (db_fund_withdraws db')) < length (tb_rows (db_fund_withdraws db))"
  using assms by (auto simp: pay_due_staking_def table_remove_def result_simps intro!: length_remove_where_mem
      dest!: adjust_balance_frame adjust_fund_balance_frame adjust_fund_withdraw_balance_frame push_virtual_operation_frame)

text \<open>A fund that cannot pay the first due request ends the loop, also for the requests on other funds behind it.\<close>

function process_fund_withdraws :: "chain_db \<Rightarrow> chain_db result" where
  "process_fund_withdraws db =
     (case staking_begin db of
        None \<Rightarrow> Inr db
      | Some w \<Rightarrow>
          if fdw_complete w > head_block_time db then Inr db
          else
            bindR (get_common_fund (fdw_fund_name w) db) (\<lambda>fund.
            bindR (asset_lt (cfo_fund_balance fund) (fdw_amount w)) (\<lambda>lack.
            if lack then Inr db else bindR (pay_due_staking w db) (\<lambda>db. process_fund_withdraws db))))"
  by pat_completeness auto
termination
  by (relation "measure (\<lambda>db. length (tb_rows (db_fund_withdraws db)))")
    (auto simp: staking_begin_def intro!: pay_due_staking_rows dest: index_begin_mem)

declare process_fund_withdraws.simps [simp del]

section \<open>Account recovery and expired transactions\<close>

text \<open>
  \<open>drop_while_first\<close> is the loop that removes the first object of an index as long as it
  satisfies a condition.
\<close>

function drop_while_first :: "('a \<Rightarrow> nat) \<Rightarrow> ('a \<Rightarrow> 'k::linorder) \<Rightarrow> ('a \<Rightarrow> bool) \<Rightarrow> 'a list \<Rightarrow> 'a list" where
  "drop_while_first idf key P rows =
     (case index_begin key rows of
        None \<Rightarrow> rows
      | Some r \<Rightarrow> if P r then drop_while_first idf key P (remove_where (\<lambda>x. idf x = idf r) rows) else rows)"
  by pat_completeness auto
termination
  by (relation "measure (\<lambda>(idf, key, P, rows). length rows)") (auto intro!: length_remove_where_mem dest: index_begin_mem)

declare drop_while_first.simps [simp del]

definition clear_recovery_requests :: "chain_db \<Rightarrow> chain_db" where
  "clear_recovery_requests db =
     db\<lparr>db_recovery_requests := (db_recovery_requests db)\<lparr>tb_rows :=
       drop_while_first rrq_id (\<lambda>r. (rrq_expires r, rrq_id r)) (\<lambda>r. rrq_expires r \<le> head_block_time db) (tb_rows (db_recovery_requests db))\<rparr>\<rparr>"

definition clear_histories :: "chain_db \<Rightarrow> chain_db" where
  "clear_histories db =
     db\<lparr>db_histories := (db_histories db)\<lparr>tb_rows :=
       drop_while_first hst_id hst_id
         (\<lambda>h. time_add (hst_last_valid_time h) SIGMAENGINE_OWNER_AUTH_RECOVERY_PERIOD < head_block_time db) (tb_rows (db_histories db))\<rparr>\<rparr>"

function apply_change_requests :: "chain_db \<Rightarrow> chain_db result" where
  "apply_change_requests db =
     (case index_begin (\<lambda>r. (crq_effective_on r, crq_id r)) (tb_rows (db_change_requests db)) of
        None \<Rightarrow> Inr db
      | Some r \<Rightarrow>
          if crq_effective_on r \<le> head_block_time db then
            bindR (get_account (crq_account_to_recover r) db) (\<lambda>account.
            let db = modify_account (acc_id account) (\<lambda>a. a\<lparr>acc_recovery_account := crq_recovery_account r\<rparr>) db in
            apply_change_requests (db\<lparr>db_change_requests := table_remove crq_id (crq_id r) (db_change_requests db)\<rparr>))
          else Inr db)"
  by pat_completeness auto
termination
  by (relation "measure (\<lambda>db. length (tb_rows (db_change_requests db)))")
    (auto simp: modify_account_def table_remove_def intro!: length_remove_where_mem dest: index_begin_mem)

declare apply_change_requests.simps [simp del]

definition account_recovery_processing :: "chain_db \<Rightarrow> chain_db result" where
  "account_recovery_processing db = apply_change_requests (clear_histories (clear_recovery_requests db))"

definition clear_expired_transactions :: "chain_db \<Rightarrow> chain_db" where
  "clear_expired_transactions db =
     db\<lparr>db_transactions := (db_transactions db)\<lparr>tb_rows :=
       drop_while_first txo_id txo_expiration (\<lambda>t. head_block_time db > txo_expiration t) (tb_rows (db_transactions db))\<rparr>\<rparr>"

section \<open>The books under block processing\<close>

lemma clear_balance_moves:
  assumes "wf_db db" "clear_balance a pia db = Inr (pia', db')"
  shows "moves db db' (amount pia - amount pia') nothing nothing \<and> account_keys db' = account_keys db"
proof (cases "amount (acc_balance a) > 0")
  case True
  with assms(2) obtain m where m: "asset_neg (acc_balance a) = Inr m" "asset_add pia (acc_balance a) = Inr pia'"
    and d: "adjust_balance (acc_id a) m db = Inr db'"
    by (auto simp: clear_balance_def bindR_Inr_iff)
  have "amount pia' = amount pia + amount (acc_balance a)" using m(2) by (auto simp: asset_add_def result_simps dest: safe_add_InrD)
  with adjust_balance_moves [OF assms(1) d] adjust_balance_frame [OF d] asset_neg_Inr [OF m(1)] show ?thesis
    by (auto elim!: moves_cong)
qed (use assms in \<open>auto simp: clear_balance_def intro: moves_refl\<close>)

lemma clear_savings_moves:
  assumes "wf_db db" "clear_savings a pia db = Inr (pia', db')" "(acc_id a, n) \<in> account_keys db"
  shows "moves db db' (amount pia - amount pia') (at n (amount pia - amount pia')) nothing \<and> amount pia \<le> amount pia'"
proof (cases "amount (acc_savings_balance a) > 0")
  case True
  with assms(2) obtain m where m: "asset_neg (acc_savings_balance a) = Inr m" "asset_add pia (acc_savings_balance a) = Inr pia'"
    and d: "adjust_savings_balance (acc_id a) m db = Inr db'"
    by (auto simp: clear_savings_def bindR_Inr_iff)
  have "amount pia' = amount pia + amount (acc_savings_balance a)"
    using m(2) by (auto simp: asset_add_def result_simps dest: safe_add_InrD)
  with adjust_savings_balance_moves [OF assms(1) d assms(3)] asset_neg_Inr [OF m(1)] True show ?thesis
    by (auto elim!: moves_cong simp: at_def)
qed (use assms in \<open>auto simp: clear_savings_def at_def intro: moves_refl\<close>)

lemma clear_null_account_balance_moves:
  assumes "wf_db db" "clear_null_account_balance db = Inr db'"
  shows "\<exists>v \<ge> 0. moves db db' 0 (at SIGMAENGINE_NULL_ACCOUNT (- v)) nothing"
proof -
  from assms(2) obtain a p1 d1 p2 d2 where a: "get_account SIGMAENGINE_NULL_ACCOUNT db = Inr a"
    and c1: "clear_balance a (SGT 0) db = Inr (p1, d1)" and c2: "clear_savings a p1 d1 = Inr (p2, d2)"
    and fin: "(if amount p2 > 0 then bindR (asset_neg p2) (\<lambda>minus. adjust_supply minus d2) else Inr d2) = Inr db'"
    by (auto simp: clear_null_account_balance_def bindR_Inr_iff)
  note m1 = clear_balance_moves [OF assms(1) c1]
  have "(acc_id a, SIGMAENGINE_NULL_ACCOUNT) \<in> account_keys d1" using get_account_key [OF a] m1 by simp
  note m2 = clear_savings_moves [OF moves_wf [OF conjunct1 [OF m1]] c2 this]
  note m12 = moves_trans [OF conjunct1 [OF m1] conjunct1 [OF m2]]
  have "0 \<le> amount p1" using c1 by (auto simp: clear_balance_def bindR_Inr_iff asset_add_def result_simps SGT_def split: if_splits dest!: safe_add_InrD)
  then have p2: "0 \<le> amount p2" using m2 by simp
  have "moves d2 db' (amount p2) nothing nothing"
  proof (cases "amount p2 > 0")
    case True
    with fin obtain m where "asset_neg p2 = Inr m" "adjust_supply m d2 = Inr db'" by (auto simp: bindR_Inr_iff)
    with adjust_supply_moves [OF moves_wf [OF m12]] asset_neg_Inr show ?thesis by fastforce
  next
    case False
    with fin p2 moves_refl [OF moves_wf [OF m12]] show ?thesis by auto
  qed
  from moves_trans [OF m12 this] have "moves db db' 0 (at SIGMAENGINE_NULL_ACCOUNT (amount p1 - amount p2)) nothing"
    by (auto elim!: moves_cong simp: SGT_def at_def)
  then show ?thesis using m2 by (intro exI [of _ "amount p2 - amount p1"]) simp
qed

lemma process_funds_moves:
  assumes "wf_db db" "process_funds db = Inr db'"
  shows "moves db db' 0 nothing nothing"
proof (cases "amount (drf_fund_balance (db_dapp_fund db)) > 0")
  case True
  with assms(2) obtain i m d1 d2 op where m: "asset_neg (drf_fund_balance (db_dapp_fund db)) = Inr m"
    and d: "adjust_dapp_reward_fund_balance m db = Inr d1" "adjust_balance i (drf_fund_balance (db_dapp_fund db)) d1 = Inr d2"
      "push_virtual_operation op d2 = Inr db'"
    by (auto simp: process_funds_def Let_def bindR_Inr_iff)
  note m1 = adjust_dapp_moves [OF assms(1) d(1)]
  note m2 = moves_trans [OF m1 adjust_balance_moves [OF moves_wf [OF m1] d(2)]]
  from moves_trans [OF m2 push_virtual_operation_moves [OF moves_wf [OF m2] d(3)]] asset_neg_Inr [OF m]
  show ?thesis by simp
qed (use assms in \<open>auto simp: process_funds_def Let_def bindR_Inr_iff intro: moves_refl\<close>)

lemma pay_savings_moves:
  assumes "wf_db db" "pay_savings s am db = Inr db'"
  shows "moves db db' 0 (at (svw_to s) (- amount am)) nothing"
proof -
  from assms(2) obtain to m d1 d2 op where to: "get_account (svw_to s) db = Inr to" and m: "asset_neg am = Inr m"
    and d: "adjust_balance (acc_id to) am db = Inr d1" "adjust_savings_balance (acc_id to) m d1 = Inr d2"
      "push_virtual_operation op d2 = Inr db'"
    by (auto simp: pay_savings_def bindR_Inr_iff)
  note m1 = adjust_balance_moves [OF assms(1) d(1)]
  have "(acc_id to, svw_to s) \<in> account_keys d1" using get_account_key [OF to] adjust_balance_frame [OF d(1)] by simp
  note m2 = moves_trans [OF m1 adjust_savings_balance_moves [OF moves_wf [OF m1] d(2) this]]
  from moves_trans [OF m2 push_virtual_operation_moves [OF moves_wf [OF m2] d(3)]] asset_neg_Inr [OF m]
  show ?thesis by (auto elim!: moves_cong simp: at_def)
qed

lemma pay_request_moves:
  assumes "wf_db db" "pay_request s db = Inr (itr, db')" "s \<in> set (tb_rows (db_savings db))"
  shows "moves db db' 0 nothing nothing"
proof -
  obtain am d where d: "pay_savings s am db = Inr d" and
    cases: "(am = svw_amount s \<and> db' = remove_savings s d) \<or>
      (\<exists>rest t. asset_sub (svw_amount s) am = Inr rest
         \<and> table_create savings_clash (rest_of_request s rest) (db_savings (remove_savings s d)) = Inr t
         \<and> db' = (remove_savings s d)\<lparr>db_savings := t\<rparr>)"
    using assms(2) by (auto simp: pay_request_def pay_final_def pay_part_def Let_def bindR_Inr_iff split: if_splits)
  note m1 = pay_savings_moves [OF assms(1) d]
  have "s \<in> set (tb_rows (db_savings d))" using pay_savings_frame [OF d] assms(3) by simp
  note m2 = moves_trans [OF m1 remove_savings_moves [OF moves_wf [OF m1] this, folded remove_savings_def]]
  from cases show ?thesis
  proof (elim disjE conjE exE)
    assume "am = svw_amount s" "db' = remove_savings s d"
    with m2 show ?thesis by (auto elim!: moves_cong simp: at_def)
  next
    fix rest t
    assume rest: "asset_sub (svw_amount s) am = Inr rest" and db': "db' = (remove_savings s d)\<lparr>db_savings := t\<rparr>"
      and t: "table_create savings_clash (rest_of_request s rest) (db_savings (remove_savings s d)) = Inr t"
    have "moves (remove_savings s d) db' 0 (at (svw_to s) (- amount rest)) nothing"
      unfolding db' by (rule create_savings_moves [OF moves_wf [OF m2] t]) (simp_all add: rest_of_request_def)
    moreover have "amount rest = amount (svw_amount s) - amount am"
      using rest by (auto simp: asset_sub_def result_simps dest: safe_sub_InrD)
    ultimately show ?thesis using moves_trans [OF m2] by (fastforce elim!: moves_cong simp: at_def)
  qed
qed

lemma savings_loop_moves:
  "wf_db db \<Longrightarrow> savings_loop itr db = Inr db' \<Longrightarrow> moves db db' 0 nothing nothing"
proof (induction itr db rule: savings_loop.induct)
  case (1 itr db)
  show ?case
  proof (cases itr)
    case None
    with 1(2,3) show ?thesis by (simp add: savings_loop.simps moves_refl)
  next
    case (Some i)
    with 1(3) obtain s where s: "table_get (\<lambda>s. svw_id s = i) (db_savings db) = Inr s"
      and run: "(if svw_complete s > head_block_time db then Inr db
          else bindR (pay_request s db) (\<lambda>r. savings_loop (fst r) (snd r))) = Inr db'"
      by (auto simp: savings_loop.simps [of "Some i" db] bindR_Inr_iff)
    show ?thesis
    proof (cases "svw_complete s > head_block_time db")
      case True
      with run 1(2) show ?thesis by (simp add: moves_refl)
    next
      case False
      with run obtain j d where r: "pay_request s db = Inr (j, d)" "savings_loop j d = Inr db'" by (auto simp: bindR_Inr_iff)
      note m = pay_request_moves [OF 1(2) r(1) conjunct1 [OF table_get_mem [OF s]]]
      from 1(1) [OF Some s False r(1)] moves_wf [OF m] r(2) have "moves d db' 0 nothing nothing" by simp
      from moves_trans [OF m this] show ?thesis by simp
    qed
  qed
qed

lemma pay_due_staking_moves:
  assumes "wf_db db" "pay_due_staking w db = Inr db'" "w \<in> set (tb_rows (db_fund_withdraws db))"
  shows "moves db db' 0 nothing nothing"
proof -
  from assms(2) obtain j m d1 d2 d3 d4 op where m: "asset_neg (fdw_amount w) = Inr m"
    and a: "adjust_balance j (fdw_amount w) db = Inr d1" "adjust_fund_balance (fdw_fund_name w) m d1 = Inr d2"
      "adjust_fund_withdraw_balance (fdw_fund_name w) m d2 = Inr d3" "push_virtual_operation op d3 = Inr d4"
    and t: "db' = d4\<lparr>db_fund_withdraws := table_remove fdw_id (fdw_id w) (db_fund_withdraws d4)\<rparr>"
    by (auto simp: pay_due_staking_def bindR_Inr_iff)
  note m1 = adjust_balance_moves [OF assms(1) a(1)]
  note m2 = moves_trans [OF m1 adjust_fund_balance_moves [OF moves_wf [OF m1] a(2)]]
  note m3 = moves_trans [OF m2 adjust_fund_withdraw_balance_moves [OF moves_wf [OF m2] a(3)]]
  note m4 = moves_trans [OF m3 push_virtual_operation_moves [OF moves_wf [OF m3] a(4)]]
  have "w \<in> set (tb_rows (db_fund_withdraws d4))"
    using assms(3) adjust_balance_frame [OF a(1)] adjust_fund_balance_frame [OF a(2)]
      adjust_fund_withdraw_balance_frame [OF a(3)] push_virtual_operation_frame [OF a(4)] by simp
  from moves_trans [OF m4 remove_staking_moves [OF moves_wf [OF m4] this]] asset_neg_Inr [OF m]
  show ?thesis unfolding t by (auto elim!: moves_cong simp: at_def)
qed

text \<open>One pass of the staking loop, to argue by the induction of the loop.\<close>

lemma process_fund_withdraws_cases:
  assumes "process_fund_withdraws db = Inr db'"
  obtains "db' = db"
  | w fund d where "staking_begin db = Some w" "\<not> fdw_complete w > head_block_time db" "get_common_fund (fdw_fund_name w) db = Inr fund"
      "asset_lt (cfo_fund_balance fund) (fdw_amount w) = Inr False" "pay_due_staking w db = Inr d" "process_fund_withdraws d = Inr db'"
  using assms by (auto simp: process_fund_withdraws.simps [of db] bindR_Inr_iff split: option.splits if_splits)

lemma process_fund_withdraws_moves:
  "wf_db db \<Longrightarrow> process_fund_withdraws db = Inr db' \<Longrightarrow> moves db db' 0 nothing nothing"
proof (induction db rule: process_fund_withdraws.induct)
  case (1 db)
  from 1(3) show ?case
  proof (cases rule: process_fund_withdraws_cases)
    case 1
    then show ?thesis using \<open>wf_db db\<close> moves_refl by simp
  next
    case (2 w fund d)
    have "w \<in> set (tb_rows (db_fund_withdraws db))" using 2(1) by (auto simp: staking_begin_def dest: index_begin_mem)
    note m = pay_due_staking_moves [OF 1(2) 2(5) this]
    from 1(1) [OF 2(1-4) _ 2(5) moves_wf [OF m] 2(6)] have "moves d db' 0 nothing nothing" by simp
    from moves_trans [OF m this] show ?thesis by simp
  qed
qed

lemma apply_change_requests_moves:
  "wf_db db \<Longrightarrow> apply_change_requests db = Inr db' \<Longrightarrow> moves db db' 0 nothing nothing"
proof (induction db rule: apply_change_requests.induct)
  case (1 db)
  show ?case
  proof (cases "index_begin (\<lambda>r. (crq_effective_on r, crq_id r)) (tb_rows (db_change_requests db))")
    case None
    with 1(2,3) show ?thesis by (simp add: apply_change_requests.simps moves_refl)
  next
    case (Some r)
    show ?thesis
    proof (cases "crq_effective_on r \<le> head_block_time db")
      case False
      with Some 1(2,3) show ?thesis by (simp add: apply_change_requests.simps [of db] moves_refl)
    next
      case True
      with Some 1(3) obtain account where acc: "get_account (crq_account_to_recover r) db = Inr account"
        and run: "apply_change_requests ((modify_account (acc_id account) (\<lambda>a. a\<lparr>acc_recovery_account := crq_recovery_account r\<rparr>) db)
            \<lparr>db_change_requests := table_remove crq_id (crq_id r) (db_change_requests
               (modify_account (acc_id account) (\<lambda>a. a\<lparr>acc_recovery_account := crq_recovery_account r\<rparr>) db))\<rparr>) = Inr db'"
        by (auto simp: apply_change_requests.simps [of db] Let_def bindR_Inr_iff)
      let ?d1 = "modify_account (acc_id account) (\<lambda>a. a\<lparr>acc_recovery_account := crq_recovery_account r\<rparr>) db"
      have m1: "moves db ?d1 0 nothing nothing" using 1(2) by (rule account_meta_moves) simp_all
      have "moves ?d1 (?d1\<lparr>db_change_requests := table_remove crq_id (crq_id r) (db_change_requests ?d1)\<rparr>) 0 nothing nothing"
        by (rule moves_frame [OF moves_wf [OF m1]]) simp_all
      note m2 = moves_trans [OF m1 this]
      from moves_trans [OF m2 1(1) [OF Some True acc refl moves_wf [OF m2] run]] show ?thesis by simp
    qed
  qed
qed

lemma account_recovery_processing_moves:
  assumes "wf_db db" "account_recovery_processing db = Inr db'"
  shows "moves db db' 0 nothing nothing"
proof -
  have m: "moves db (clear_histories (clear_recovery_requests db)) 0 nothing nothing"
    by (rule moves_frame [OF assms(1)]) (simp_all add: clear_histories_def clear_recovery_requests_def)
  from moves_trans [OF m apply_change_requests_moves [OF moves_wf [OF m]]] assms(2) show ?thesis
    by (simp add: account_recovery_processing_def)
qed

end
