(* ===== verification/Payments.thy ===== *)
theory Payments
  imports Processing
begin

text \<open>
  The payments every block makes: the savings step always succeeds and leaves nothing due as
  long as the pending requests are regular; a request with zero payments is accepted and makes it fail
  once it is due, and two more accepted requests that stop it on an example chain.
\<close>

section \<open>The savings step cannot fail\<close>

text \<open>
  A regular request has a payment number between one and the number of payments, and what is
  left of it is what the earlier payments left. A payable state has only regular requests to
  existing accounts, savings that cover them, and balances that cannot overflow when savings
  become available.
\<close>

definition regular_request :: "savings_withdraw_object \<Rightarrow> bool" where
  "regular_request s \<longleftrightarrow> symbol (svw_amount s) = SGT_SYMBOL \<and> symbol (svw_total_amount s) = SGT_SYMBOL
     \<and> 0 < svw_split_pay_order s \<and> svw_split_pay_order s \<le> svw_split_pay_month s
     \<and> 0 \<le> amount (svw_total_amount s) \<and> amount (svw_total_amount s) \<le> int64_max
     \<and> amount (svw_amount s) = amount (svw_total_amount s)
         - (uint (svw_split_pay_order s) - 1) * (amount (svw_total_amount s) div uint (svw_split_pay_month s))"

definition account_ok :: "account_object \<Rightarrow> bool" where
  "account_ok a \<longleftrightarrow> symbol (acc_balance a) = SGT_SYMBOL \<and> symbol (acc_savings_balance a) = SGT_SYMBOL
     \<and> 0 \<le> amount (acc_balance a) \<and> 0 \<le> amount (acc_savings_balance a)
     \<and> amount (acc_balance a) + amount (acc_savings_balance a) \<le> int64_max"

definition payable :: "chain_db \<Rightarrow> bool" where
  "payable db \<longleftrightarrow> wf_db db \<and> (\<forall>n. savings_gap n db = 0) \<and> (\<forall>a \<in> set (tb_rows (db_accounts db)). account_ok a)
     \<and> (\<forall>s \<in> set (tb_rows (db_savings db)). regular_request s \<and> svw_to s \<in> snd ` account_keys db)
     \<and> distinct (map (\<lambda>s. (svw_from s, svw_request_id s)) (tb_rows (db_savings db)))"

lemma regular_amount:
  assumes "regular_request s"
  defines "q \<equiv> amount (svw_total_amount s) div uint (svw_split_pay_month s)"
  shows "0 \<le> q" "q \<le> amount (svw_amount s)" "amount (svw_amount s) \<le> amount (svw_total_amount s)" "0 < uint (svw_split_pay_month s)"
proof -
  let ?t = "amount (svw_total_amount s)" and ?o = "uint (svw_split_pay_order s)" and ?m = "uint (svw_split_pay_month s)"
  have o: "1 \<le> ?o" "?o \<le> ?m" using assms(1) by (simp_all add: regular_request_def word_less_def word_le_def)
  then show m: "0 < ?m" by simp
  show q: "0 \<le> q" using assms(1) m by (simp add: q_def regular_request_def pos_imp_zdiv_nonneg_iff)
  have am: "amount (svw_amount s) = ?t - (?o - 1) * q" using assms(1) by (simp add: regular_request_def q_def)
  have "?m * q \<le> ?t" unfolding q_def using mult_div_mod_eq [of ?m ?t] pos_mod_sign [OF m, of ?t] by linarith
  moreover have "?o * q \<le> ?m * q" using o q by (intro mult_right_mono) auto
  ultimately show "q \<le> amount (svw_amount s)" unfolding am by (simp add: algebra_simps)
  show "amount (svw_amount s) \<le> ?t" unfolding am using o q by simp
qed

lemma sum_list_ge_member:
  fixes h :: "'a \<Rightarrow> int"
  shows "x \<in> set xs \<Longrightarrow> (\<And>y. y \<in> set xs \<Longrightarrow> 0 \<le> h y) \<Longrightarrow> h x \<le> sum_list (map h xs)"
proof (induction xs)
  case (Cons y ys)
  have "0 \<le> sum_list (map h ys)" using Cons.prems(2) by (intro sum_list_nonneg) auto
  with Cons show ?case by fastforce
qed simp

lemma sum_list_unique_name:
  fixes h :: "'a \<Rightarrow> int"
  assumes "distinct (map nm xs)" "x \<in> set xs"
  shows "(\<Sum>y \<leftarrow> xs. if nm y = nm x then h y else 0) = h x"
  using assms
proof (induction xs)
  case (Cons y ys)
  have zero: "(\<Sum>z \<leftarrow> ys. if nm z = c then h z else 0) = 0" if "c \<notin> nm ` set ys" for c
    using that by (induction ys) auto
  show ?case
  proof (cases "y = x")
    case True
    with Cons.prems zero [of "nm x"] show ?thesis by simp
  next
    case False
    with Cons show ?thesis by force
  qed
qed simp

lemma payable_covers:
  assumes "payable db" "s \<in> set (tb_rows (db_savings db))"
  obtains to where "get_account (svw_to s) db = Inr to" "to \<in> set (tb_rows (db_accounts db))" "account_ok to"
    "amount (svw_amount s) \<le> amount (acc_savings_balance to)"
proof -
  from assms obtain a where a: "a \<in> set (tb_rows (db_accounts db))" "acc_name a = svw_to s"
    by (auto simp: payable_def account_keys_def)
  then obtain to where f: "find (\<lambda>x. acc_name x = svw_to s) (tb_rows (db_accounts db)) = Some to"
    by (cases "find (\<lambda>x. acc_name x = svw_to s) (tb_rows (db_accounts db))") (auto simp: find_None_iff)
  then have to: "to \<in> set (tb_rows (db_accounts db))" "acc_name to = svw_to s" by (auto dest: find_Some_mem)
  have reg: "\<forall>r \<in> set (tb_rows (db_savings db)). 0 \<le> amount (svw_amount r)"
    using assms(1) regular_amount(1,2) by (force simp: payable_def)
  have "amount (svw_amount s) \<le> pending_savings (svw_to s) db"
    using sum_list_ge_member [of s "tb_rows (db_savings db)" "\<lambda>r. if svw_to r = svw_to s then amount (svw_amount r) else 0"] assms(2) reg
    by (simp add: pending_savings_def)
  moreover have "savings_gap (svw_to s) db = amount (acc_savings_balance to) - pending_savings (svw_to s) db"
    using sum_list_unique_name [of acc_name "tb_rows (db_accounts db)" to "\<lambda>a. amount (acc_savings_balance a)"] assms(1) to
    by (simp add: savings_gap_def payable_def wf_db_def)
  ultimately show ?thesis
    using that [of to] f to assms(1) by (simp add: payable_def get_account_def find_account_def table_find_def)
qed

lemma adjust_savings_balance_ok:
  assumes "wf_db db" "a \<in> set (tb_rows (db_accounts db))" "symbol (acc_savings_balance a) = SGT_SYMBOL" "symbol d = SGT_SYMBOL"
    "int64_min \<le> amount (acc_savings_balance a) + amount d" "amount (acc_savings_balance a) + amount d \<le> int64_max"
  shows "adjust_savings_balance (acc_id a) d db = Inr (modify_account (acc_id a)
       (\<lambda>x. x\<lparr>acc_savings_balance := (acc_savings_balance a)\<lparr>amount := amount (acc_savings_balance a) + amount d\<rparr>\<rparr>) db)"
  using assms table_get_id [of acc_id "db_accounts db" a]
  by (simp add: adjust_savings_balance_def wf_db_def add_delta_def asset_add_def safe_add_def)

lemma pay_savings_ok:
  assumes wf: "wf_db db" and ok: "\<forall>a \<in> set (tb_rows (db_accounts db)). account_ok a"
    and to: "get_account (svw_to s) db = Inr to"
    and am: "symbol am = SGT_SYMBOL" "0 \<le> amount am" "amount am \<le> amount (acc_savings_balance to)"
  shows "\<exists>d. pay_savings s am db = Inr d \<and> (\<forall>a \<in> set (tb_rows (db_accounts d)). account_ok a) \<and> account_keys d = account_keys db
     \<and> db_dgp d = db_dgp db"
proof -
  have mem: "to \<in> set (tb_rows (db_accounts db))" using get_account_mem [OF to] by simp
  then have "account_ok to" using ok by simp
  note tok = this [unfolded account_ok_def]
  let ?f = "\<lambda>x. x\<lparr>acc_balance := (acc_balance to)\<lparr>amount := amount (acc_balance to) + amount am\<rparr>\<rparr>"
  let ?to = "?f to"
  define d1 where "d1 = modify_account (acc_id to) ?f db"
  have d1: "adjust_balance (acc_id to) am db = Inr d1"
    unfolding d1_def by (rule adjust_balance_ok [OF wf mem]) (use tok am in \<open>auto simp: int64_min_def\<close>)
  note wf1 = moves_wf [OF adjust_balance_moves [OF wf d1]]
  define m where "m = am\<lparr>amount := - amount am\<rparr>"
  have m: "asset_neg am = Inr m" using am(2) by (simp add: asset_neg_def safe_neg_def m_def int64_min_def)
  let ?g = "\<lambda>x. x\<lparr>acc_savings_balance := (acc_savings_balance ?to)\<lparr>amount := amount (acc_savings_balance ?to) + amount m\<rparr>\<rparr>"
  have "?to \<in> set (tb_rows (db_accounts d1))"
    using mem by (auto simp: d1_def modify_account_def table_modify_def set_modify_where)
  then have d2: "adjust_savings_balance (acc_id ?to) m d1 = Inr (modify_account (acc_id ?to) ?g d1)"
    by (rule adjust_savings_balance_ok [OF wf1]) (use tok am in \<open>auto simp: m_def int64_min_def int64_max_def\<close>)
  have inj: "inj_on acc_id (set (tb_rows (db_accounts db)))" using wf by (simp add: wf_db_def wf_table_def distinct_map)
  have "account_ok a" if "a \<in> set (tb_rows (db_accounts (modify_account (acc_id ?to) ?g d1)))" for a
  proof -
    from that obtain x where x: "x \<in> set (tb_rows (db_accounts db))" "a = (if acc_id x = acc_id to then ?g (?f x) else x)"
      by (auto simp: d1_def modify_account_def table_modify_def set_modify_where split: if_splits)
    with inj_onD [OF inj _ x(1) mem] ok tok am show ?thesis by (auto simp: account_ok_def m_def)
  qed
  moreover have "account_keys (modify_account (acc_id ?to) ?g d1) = account_keys db"
    using adjust_balance_frame [OF d1] adjust_savings_balance_frame [OF d2] by simp
  ultimately show ?thesis
    using to d1 d2 m by (simp add: pay_savings_def push_virtual_operation_def fill_savings_def account_keys_def)
      (simp add: d1_def modify_account_def)
qed

lemma payable_after_removal:
  assumes "payable db" "s \<in> set (tb_rows (db_savings db))" "pay_savings s am db = Inr d"
    "\<forall>a \<in> set (tb_rows (db_accounts d)). account_ok a" "account_keys d = account_keys db"
  shows "distinct (map (\<lambda>s. (svw_from s, svw_request_id s)) (tb_rows (db_savings (remove_savings s d))))"
    "\<forall>r \<in> set (tb_rows (db_savings (remove_savings s d))). regular_request r \<and> svw_to r \<in> snd ` account_keys (remove_savings s d)"
    "\<forall>r \<in> set (tb_rows (db_savings (remove_savings s d))). (svw_from r, svw_request_id r) \<noteq> (svw_from s, svw_request_id s)"
    "\<forall>a \<in> set (tb_rows (db_accounts (remove_savings s d))). account_ok a"
proof -
  have rows: "tb_rows (db_savings (remove_savings s d)) = filter (\<lambda>r. svw_id r \<noteq> svw_id s) (tb_rows (db_savings db))"
    using pay_savings_frame [OF assms(3)] by (simp add: remove_savings_def table_remove_def remove_where_def)
  have keys: "account_keys (remove_savings s d) = account_keys db" using assms(5) by (simp add: remove_savings_def account_keys_def)
  have dist: "distinct (map (\<lambda>s. (svw_from s, svw_request_id s)) (tb_rows (db_savings db)))" using assms(1) by (simp add: payable_def)
  then show "distinct (map (\<lambda>s. (svw_from s, svw_request_id s)) (tb_rows (db_savings (remove_savings s d))))"
    unfolding rows by (rule distinct_map_filter)
  show "\<forall>r \<in> set (tb_rows (db_savings (remove_savings s d))). regular_request r \<and> svw_to r \<in> snd ` account_keys (remove_savings s d)"
    using assms(1) by (auto simp: rows keys payable_def)
  show "\<forall>r \<in> set (tb_rows (db_savings (remove_savings s d))). (svw_from r, svw_request_id r) \<noteq> (svw_from s, svw_request_id s)"
    using dist assms(2) by (auto simp: rows distinct_map dest: inj_onD)
  show "\<forall>a \<in> set (tb_rows (db_accounts (remove_savings s d))). account_ok a" using assms(4) by (simp add: remove_savings_def)
qed

lemma pay_final_ok:
  assumes "payable db" "s \<in> set (tb_rows (db_savings db))" "svw_split_pay_order s = svw_split_pay_month s"
  shows "\<exists>db'. pay_request s db = Inr (savings_begin db', db') \<and> payable db' \<and> db_dgp db' = db_dgp db
     \<and> set (tb_rows (db_savings db')) = {r \<in> set (tb_rows (db_savings db)). svw_id r \<noteq> svw_id s}"
proof -
  have reg: "regular_request s" and wf: "wf_db db" and ok: "\<forall>a \<in> set (tb_rows (db_accounts db)). account_ok a"
    using assms(1,2) by (auto simp: payable_def)
  from payable_covers [OF assms(1,2)] obtain to where to: "get_account (svw_to s) db = Inr to" "account_ok to"
    "amount (svw_amount s) \<le> amount (acc_savings_balance to)" by blast
  have am: "symbol (svw_amount s) = SGT_SYMBOL" "0 \<le> amount (svw_amount s)"
    using reg regular_amount(1,2) [OF reg] by (auto simp: regular_request_def)
  from pay_savings_ok [OF wf ok to(1) am to(3)] obtain d where d: "pay_savings s (svw_amount s) db = Inr d"
    "\<forall>a \<in> set (tb_rows (db_accounts d)). account_ok a" "account_keys d = account_keys db" "db_dgp d = db_dgp db" by blast
  have run: "pay_request s db = Inr (savings_begin (remove_savings s d), remove_savings s d)"
    using assms(3) to d(1) am(1)
    by (simp add: pay_request_def pay_final_def get_savings_balance_def require_ge_def asset_ge_def asset_lt_def account_ok_def Let_def)
  have "payable (remove_savings s d)"
    using payable_after_removal [OF assms(1,2) d(1,2,3)] pay_request_moves [OF wf run assms(2)] assms(1)
    unfolding payable_def moves_def by auto
  then show ?thesis using run d(4) pay_savings_frame [OF d(1)]
    by (intro exI [of _ "remove_savings s d"]) (simp add: remove_savings_def table_remove_def)
qed

lemma regular_rest:
  assumes "regular_request s" "svw_split_pay_order s \<noteq> svw_split_pay_month s"
    "rest = (svw_amount s)\<lparr>amount := amount (svw_amount s) - amount (svw_total_amount s) div uint (svw_split_pay_month s)\<rparr>"
  shows "regular_request (rest_of_request s rest i)"
proof -
  have lt: "svw_split_pay_order s < svw_split_pay_month s" using assms(1,2) by (auto simp: regular_request_def)
  then have ou: "uint (svw_split_pay_order s) < uint (svw_split_pay_month s)" by (simp add: word_less_def)
  have "uint (svw_split_pay_order s) + 1 < 2 ^ 8" using ou uint_bounded [of "svw_split_pay_month s"] by simp
  then have inc: "uint (svw_split_pay_order s + 1) = uint (svw_split_pay_order s) + 1"
    by (simp add: uint_word_ariths)
  have "svw_split_pay_order s + 1 \<le> svw_split_pay_month s" using ou by (simp add: word_le_def inc)
  moreover have "0 < svw_split_pay_order s + 1" using inc by (simp add: word_less_def)
  ultimately show ?thesis
    using assms(1) by (simp add: regular_request_def rest_of_request_def assms(3) inc left_diff_distrib)
qed

lemma pay_part_ok:
  assumes "payable db" "s \<in> set (tb_rows (db_savings db))" "svw_split_pay_order s \<noteq> svw_split_pay_month s"
  shows "\<exists>itr db' i rest. pay_request s db = Inr (itr, db') \<and> payable db' \<and> db_dgp db' = db_dgp db
     \<and> set (tb_rows (db_savings db')) = insert (rest_of_request s rest i) {r \<in> set (tb_rows (db_savings db)). svw_id r \<noteq> svw_id s}
     \<and> itr = map_option svw_id (index_begin (\<lambda>s. (svw_complete s, svw_from s, svw_request_id s))
         (filter (\<lambda>r. svw_id r \<noteq> svw_id s) (tb_rows (db_savings db))))"
proof -
  have reg: "regular_request s" and wf: "wf_db db" and ok: "\<forall>a \<in> set (tb_rows (db_accounts db)). account_ok a"
    using assms(1,2) by (auto simp: payable_def)
  note q = regular_amount [OF reg]
  let ?q = "amount (svw_total_amount s) div uint (svw_split_pay_month s)"
  let ?am = "(svw_total_amount s)\<lparr>amount := ?q\<rparr>"
  from payable_covers [OF assms(1,2)] obtain to where to: "get_account (svw_to s) db = Inr to" "account_ok to"
    "amount (svw_amount s) \<le> amount (acc_savings_balance to)" by blast
  have am: "symbol ?am = SGT_SYMBOL" "0 \<le> amount ?am" "amount ?am \<le> amount (acc_savings_balance to)"
    using reg q to(3) by (simp_all add: regular_request_def)
  from pay_savings_ok [OF wf ok to(1) am] obtain d where d: "pay_savings s ?am db = Inr d"
    "\<forall>a \<in> set (tb_rows (db_accounts d)). account_ok a" "account_keys d = account_keys db" "db_dgp d = db_dgp db" by blast
  note rem = payable_after_removal [OF assms(1,2) d(1,2,3)]
  define rest where "rest = (svw_amount s)\<lparr>amount := amount (svw_amount s) - ?q\<rparr>"
  have div: "safe_div (amount (svw_total_amount s)) (uint (svw_split_pay_month s)) = Inr ?q"
    using q(4) reg by (simp add: safe_div_def regular_request_def trunc_div_nonneg)
  have sub: "asset_sub (svw_amount s) ?am = Inr rest"
    using reg q by (simp add: asset_sub_def safe_sub_def rest_def regular_request_def int64_min_def)
  define i where "i = tb_next (db_savings (remove_savings s d))"
  define t where "t = \<lparr>tb_next = i + 1, tb_rows = tb_rows (db_savings (remove_savings s d)) @ [rest_of_request s rest i]\<rparr>"
  have create: "table_create savings_clash (rest_of_request s rest) (db_savings (remove_savings s d)) = Inr t"
    using rem(3) by (auto simp: table_create_def Let_def t_def i_def list_all_iff savings_clash_def rest_of_request_def guardR_def)
  have run: "pay_request s db = Inr (savings_begin (remove_savings s d), (remove_savings s d)\<lparr>db_savings := t\<rparr>)"
    using assms(3) to d(1) am div sub create reg
    by (simp add: pay_request_def pay_part_def get_savings_balance_def require_ge_def asset_ge_def asset_lt_def account_ok_def
        regular_request_def Let_def)
  have rows: "tb_rows (db_savings (remove_savings s d)) = filter (\<lambda>r. svw_id r \<noteq> svw_id s) (tb_rows (db_savings db))"
    using pay_savings_frame [OF d(1)] by (simp add: remove_savings_def table_remove_def remove_where_def)
  have keys: "account_keys ((remove_savings s d)\<lparr>db_savings := t\<rparr>) = account_keys db" using d(3) by (simp add: remove_savings_def account_keys_def)
  have new: "set (tb_rows t) = insert (rest_of_request s rest i) (set (tb_rows (db_savings (remove_savings s d))))" by (simp add: t_def)
  have dist: "distinct (map (\<lambda>s. (svw_from s, svw_request_id s)) (tb_rows t))"
    using rem(1,3) by (auto simp: t_def rest_of_request_def)
  have "svw_to s \<in> snd ` account_keys db" using assms(1,2) by (simp add: payable_def)
  then have reqs: "\<forall>r \<in> set (tb_rows t). regular_request r \<and> svw_to r \<in> snd ` account_keys db"
    using assms(1) regular_rest [OF reg assms(3) rest_def, of i] by (auto simp: new rows payable_def rest_of_request_def)
  have "payable ((remove_savings s d)\<lparr>db_savings := t\<rparr>)"
    using rem(4) pay_request_moves [OF wf run assms(2)] assms(1) dist reqs
    unfolding payable_def moves_def keys by simp
  moreover have "db_dgp (remove_savings s d) = db_dgp db" using d(4) by (simp add: remove_savings_def)
  moreover have "set (tb_rows t) = insert (rest_of_request s rest i) {r \<in> set (tb_rows (db_savings db)). svw_id r \<noteq> svw_id s}"
    by (auto simp: new rows)
  ultimately show ?thesis using run
    by (intro exI [of _ "savings_begin (remove_savings s d)"] exI [of _ "(remove_savings s d)\<lparr>db_savings := t\<rparr>"] exI [of _ i] exI [of _ rest])
      (simp add: rows savings_begin_def)
qed

text \<open>
  The iterator points to a request, and to one that is due no later than any other due request:
  a request the loop has split is due again only in a later block when blocks are not a cycle apart.
\<close>

definition points :: "nat option \<Rightarrow> chain_db \<Rightarrow> bool" where
  "points itr db \<longleftrightarrow> (\<forall>i. itr = Some i \<longrightarrow> i \<in> svw_id ` set (tb_rows (db_savings db)))"

definition first_due :: "nat option \<Rightarrow> chain_db \<Rightarrow> bool" where
  "first_due itr db \<longleftrightarrow> (\<forall>r \<in> set (tb_rows (db_savings db)). svw_complete r \<le> head_block_time db
     \<longrightarrow> (\<exists>s \<in> set (tb_rows (db_savings db)). itr = Some (svw_id s) \<and> svw_complete s \<le> svw_complete r))"

definition timely :: "chain_db \<Rightarrow> bool" where
  "timely db \<longleftrightarrow> (\<forall>s \<in> set (tb_rows (db_savings db)). svw_complete s \<le> head_block_time db
     \<longrightarrow> head_block_time db < time_add (svw_complete s) SIGMAENGINE_TRANSFER_SAVINGS_CYCLE)"

lemma begin_points:
  assumes "itr = map_option svw_id (index_begin (\<lambda>s. (svw_complete s, svw_from s, svw_request_id s)) rows)"
    "set rows \<subseteq> set (tb_rows (db_savings db))"
    "\<forall>r \<in> set (tb_rows (db_savings db)). r \<in> set rows \<or> head_block_time db < svw_complete r"
  shows "points itr db" "first_due itr db"
proof -
  show "points itr db" using assms(1,2) by (auto simp: points_def dest: index_begin_mem)
  show "first_due itr db" unfolding first_due_def
  proof (intro ballI impI)
    fix r assume r: "r \<in> set (tb_rows (db_savings db))" "svw_complete r \<le> head_block_time db"
    with assms(3) have mem: "r \<in> set rows" by force
    then obtain s where s: "index_begin (\<lambda>s. (svw_complete s, svw_from s, svw_request_id s)) rows = Some s"
      by (cases "index_begin (\<lambda>s. (svw_complete s, svw_from s, svw_request_id s)) rows") auto
    with index_begin_least [OF s mem] index_begin_mem [OF s] assms(1,2)
    show "\<exists>s \<in> set (tb_rows (db_savings db)). itr = Some (svw_id s) \<and> svw_complete s \<le> svw_complete r"
      by (auto simp: less_eq_prod_def intro!: bexI [of _ s])
  qed
qed

lemma begin_points_weak:
  assumes "itr = map_option svw_id (index_begin (\<lambda>s. (svw_complete s, svw_from s, svw_request_id s)) rows)"
    "set rows \<subseteq> set (tb_rows (db_savings db))"
  shows "points itr db"
  using assms by (auto simp: points_def dest: index_begin_mem)

lemma pay_request_ok:
  assumes "payable db" "s \<in> set (tb_rows (db_savings db))" "svw_complete s \<le> head_block_time db"
  shows "\<exists>itr db'. pay_request s db = Inr (itr, db') \<and> payable db' \<and> db_dgp db' = db_dgp db \<and> points itr db'
     \<and> (timely db \<longrightarrow> timely db' \<and> first_due itr db')"
proof (cases "svw_split_pay_order s = svw_split_pay_month s")
  case True
  from pay_final_ok [OF assms(1,2) True] obtain db' where d: "pay_request s db = Inr (savings_begin db', db')" "payable db'"
    "db_dgp db' = db_dgp db" "set (tb_rows (db_savings db')) = {r \<in> set (tb_rows (db_savings db)). svw_id r \<noteq> svw_id s}" by blast
  have "points (savings_begin db') db'" "first_due (savings_begin db') db'"
    by (rule begin_points [OF savings_begin_def]; simp)+
  with d show ?thesis by (auto simp: timely_def head_block_time_def)
next
  case False
  from pay_part_ok [OF assms(1,2) False] obtain itr db' i rest where d: "pay_request s db = Inr (itr, db')" "payable db'"
    "db_dgp db' = db_dgp db"
    and rows: "set (tb_rows (db_savings db')) = insert (rest_of_request s rest i) {r \<in> set (tb_rows (db_savings db)). svw_id r \<noteq> svw_id s}"
    and itr: "itr = map_option svw_id (index_begin (\<lambda>s. (svw_complete s, svw_from s, svw_request_id s))
         (filter (\<lambda>r. svw_id r \<noteq> svw_id s) (tb_rows (db_savings db))))" by blast
  have "points itr db'" by (rule begin_points_weak [OF itr]) (auto simp: rows)
  moreover have "timely db' \<and> first_due itr db'" if "timely db"
  proof
    have later: "head_block_time db < svw_complete (rest_of_request s rest i)"
      using that assms(2,3) by (simp add: timely_def rest_of_request_def)
    show "timely db'" using that later d(3) by (auto simp: timely_def rows head_block_time_def)
    show "first_due itr db'" using later d(3) by (intro begin_points(2) [OF itr]) (auto simp: rows head_block_time_def)
  qed
  ultimately show ?thesis using d by blast
qed

lemma savings_loop_ok:
  "payable db \<Longrightarrow> points itr db \<Longrightarrow>
     \<exists>db'. savings_loop itr db = Inr db' \<and> payable db' \<and> db_dgp db' = db_dgp db
       \<and> (timely db \<and> first_due itr db \<longrightarrow> (\<forall>s \<in> set (tb_rows (db_savings db')). head_block_time db < svw_complete s))"
proof (induction itr db rule: savings_loop.induct)
  case (1 itr db)
  show ?case
  proof (cases itr)
    case None
    with 1(2) show ?thesis by (force simp: savings_loop.simps first_due_def)
  next
    case (Some i)
    with 1(3) obtain s where s: "s \<in> set (tb_rows (db_savings db))" "svw_id s = i" by (auto simp: points_def)
    have wf: "wf_table svw_id (db_savings db)" using 1(2) by (simp add: payable_def wf_db_def)
    have get: "table_get (\<lambda>s. svw_id s = i) (db_savings db) = Inr s" using table_get_id [OF wf s(1)] s(2) by simp
    show ?thesis
    proof (cases "svw_complete s > head_block_time db")
      case True
      have "r = s" if "r \<in> set (tb_rows (db_savings db))" "svw_id r = i" for r
        using wf s that by (auto simp: wf_table_def distinct_map dest: inj_onD)
      with True Some get 1(2) show ?thesis by (force simp: savings_loop.simps first_due_def)
    next
      case False
      then have due: "svw_complete s \<le> head_block_time db" by simp
      from pay_request_ok [OF 1(2) s(1) due] obtain j d where d: "pay_request s db = Inr (j, d)" "payable d" "db_dgp d = db_dgp db"
        "points j d" "timely db \<longrightarrow> timely d \<and> first_due j d" by blast
      from 1(1) [OF Some get False d(1)] d(2,4) obtain db' where "savings_loop j d = Inr db'" "payable db'" "db_dgp db' = db_dgp d"
        "timely d \<and> first_due j d \<longrightarrow> (\<forall>s \<in> set (tb_rows (db_savings db')). head_block_time d < svw_complete s)" by auto
      with Some get False d show ?thesis by (simp add: savings_loop.simps [of "Some i" db] head_block_time_def)
    qed
  qed
qed

text \<open>
  C30: Paying the due savings requests never fails on a payable state and leaves a payable state;
  and when every due request is due again only after this block's time, no request is left due.
\<close>

theorem savings_always_paid:
  assumes "payable db"
  shows "\<exists>db'. process_savings_withdraws db = Inr db' \<and> payable db' \<and> head_block_time db' = head_block_time db
     \<and> (timely db \<longrightarrow> (\<forall>s \<in> set (tb_rows (db_savings db')). head_block_time db < svw_complete s))"
proof -
  have "points (savings_begin db) db" "first_due (savings_begin db) db" by (rule begin_points [OF savings_begin_def]; simp)+
  with savings_loop_ok [OF assms, of "savings_begin db"] show ?thesis
    by (auto simp: process_savings_withdraws_def head_block_time_def)
qed

section \<open>Requests that stop the chain\<close>

text \<open>
  The loop reaches every due request unless it fails before: paying one request leaves the others, and the
  iterator then points to one that is due no later than any of them.
\<close>

lemma pay_request_others:
  assumes "pay_request r db = Inr (itr, db')"
  obtains rows where "itr = map_option svw_id (index_begin (\<lambda>s. (svw_complete s, svw_from s, svw_request_id s)) rows)"
    "set rows = {x \<in> set (tb_rows (db_savings db)). svw_id x \<noteq> svw_id r}" "set rows \<subseteq> set (tb_rows (db_savings db'))"
    "head_block_time db' = head_block_time db"
proof -
  have frame: "db_savings d = db_savings db \<and> db_dgp d = db_dgp db" if "pay_savings r am db = Inr d" for am d
    using pay_savings_frame [OF that] that
    by (auto simp: pay_savings_def adjust_balance_def adjust_savings_balance_def modify_account_def result_simps
        dest!: push_virtual_operation_frame)
  have rows: "set (tb_rows (db_savings (remove_savings r d))) = {x \<in> set (tb_rows (db_savings d)). svw_id x \<noteq> svw_id r}" for d
    by (auto simp: remove_savings_def table_remove_def remove_where_def)
  obtain am d where d: "pay_savings r am db = Inr d" "itr = savings_begin (remove_savings r d)"
    "set (tb_rows (db_savings (remove_savings r d))) \<subseteq> set (tb_rows (db_savings db'))" "db_dgp db' = db_dgp d"
  proof (cases "svw_split_pay_order r = svw_split_pay_month r")
    case True
    with assms obtain d where "pay_savings r (svw_amount r) db = Inr d" "itr = savings_begin db'" "db' = remove_savings r d"
      by (auto simp: pay_request_def pay_final_def Let_def result_simps)
    then show ?thesis using that by (simp add: remove_savings_def)
  next
    case False
    with assms obtain am d rest t where "pay_savings r am db = Inr d" "itr = savings_begin (remove_savings r d)"
      and t: "table_create savings_clash (rest_of_request r rest) (db_savings (remove_savings r d)) = Inr t"
        "db' = (remove_savings r d)\<lparr>db_savings := t\<rparr>"
      by (auto simp: pay_request_def pay_part_def Let_def result_simps)
    moreover have "set (tb_rows (db_savings (remove_savings r d))) \<subseteq> set (tb_rows t)"
      using t(1) by (auto simp: table_create_def Let_def result_simps)
    ultimately show ?thesis using that by (simp add: remove_savings_def)
  qed
  then show ?thesis using that [of "tb_rows (db_savings (remove_savings r d))"] frame [OF d(1)]
    by (simp add: savings_begin_def rows head_block_time_def)
qed

definition reaches :: "nat option \<Rightarrow> savings_withdraw_object \<Rightarrow> chain_db \<Rightarrow> bool" where
  "reaches itr s db \<longleftrightarrow> s \<in> set (tb_rows (db_savings db))
     \<and> (\<exists>r \<in> set (tb_rows (db_savings db)). itr = Some (svw_id r) \<and> svw_complete r \<le> svw_complete s)"

lemma begin_reaches:
  assumes "itr = map_option svw_id (index_begin (\<lambda>s. (svw_complete s, svw_from s, svw_request_id s)) rows)"
    "set rows \<subseteq> set (tb_rows (db_savings db))" "s \<in> set rows"
  shows "reaches itr s db"
proof -
  obtain r where r: "index_begin (\<lambda>s. (svw_complete s, svw_from s, svw_request_id s)) rows = Some r"
    using assms(3) by (cases "index_begin (\<lambda>s. (svw_complete s, svw_from s, svw_request_id s)) rows") auto
  then show ?thesis using index_begin_least [OF r assms(3)] index_begin_mem [OF r] assms
    by (auto simp: reaches_def less_eq_prod_def intro!: bexI [of _ r])
qed

lemma savings_loop_stuck:
  assumes "\<And>d. \<not> is_ok (pay_request s d)"
  shows "wf_db db \<Longrightarrow> reaches itr s db \<Longrightarrow> svw_complete s \<le> head_block_time db \<Longrightarrow> \<not> is_ok (savings_loop itr db)"
proof (induction itr db rule: savings_loop.induct)
  case (1 itr db)
  from 1(3) obtain r where r: "r \<in> set (tb_rows (db_savings db))" "itr = Some (svw_id r)" "svw_complete r \<le> svw_complete s"
    by (auto simp: reaches_def)
  have wf: "wf_table svw_id (db_savings db)" using 1(2) by (simp add: wf_db_def)
  have get: "table_get (\<lambda>s. svw_id s = svw_id r) (db_savings db) = Inr r" by (rule table_get_id [OF wf r(1)])
  have due: "\<not> svw_complete r > head_block_time db" using r(3) 1(4) by simp
  show ?case
  proof (cases "pay_request r db")
    case (Inl e)
    then show ?thesis using r(2) get due by (simp add: savings_loop.simps is_ok_def)
  next
    case (Inr q)
    then obtain j d where d: "pay_request r db = Inr (j, d)" by (cases q) auto
    then have "r \<noteq> s" using assms [of db] by (auto simp: is_ok_def)
    moreover have "s \<in> set (tb_rows (db_savings db))" using 1(3) by (simp add: reaches_def)
    ultimately have "svw_id s \<noteq> svw_id r" using wf r(1) by (auto simp: wf_table_def distinct_map dest: inj_onD)
    moreover from pay_request_others [OF d] obtain rows where rows:
      "j = map_option svw_id (index_begin (\<lambda>s. (svw_complete s, svw_from s, svw_request_id s)) rows)"
      "set rows = {x \<in> set (tb_rows (db_savings db)). svw_id x \<noteq> svw_id r}" "set rows \<subseteq> set (tb_rows (db_savings d))"
      "head_block_time d = head_block_time db" by blast
    moreover have "s \<in> set (tb_rows (db_savings db))" using 1(3) by (simp add: reaches_def)
    ultimately have "reaches j s d" by (intro begin_reaches [OF rows(1,3)]) simp
    with 1(1) [OF r(2) get due d] pay_request_moves [OF 1(2) d r(1)] 1(4) rows(4) have "\<not> is_ok (savings_loop j d)" by (simp add: moves_def)
    then show ?thesis using r(2) get due d by (simp add: savings_loop.simps [of "Some (svw_id r)" db])
  qed
qed

lemma zero_payments_unpayable:
  "svw_split_pay_month s = 0 \<Longrightarrow> svw_split_pay_order s \<noteq> 0 \<Longrightarrow> \<not> is_ok (pay_request s db)"
  by (auto simp: pay_request_def pay_part_def is_ok_def safe_div_def bindR_def split: sum.splits)

text \<open>
  C34: A savings request to be paid in zero months, with any payment number but zero, is accepted like any other, and
  stops the chain: in every well-formed state where it is still pending and its time has come, the savings step, which
  every block runs, fails, whatever other requests there are.
\<close>

theorem zero_payments_stop_chain:
  assumes "transfer_savings_apply env op db = Inr db1" "ts_split_pay_month op = 0" "ts_split_pay_order op \<noteq> 0"
    and "s = last (tb_rows (db_savings db1))"
    and "wf_db db2" "s \<in> set (tb_rows (db_savings db2))" "ts_complete op \<le> head_block_time db2"
  shows "svw_from s = ts_from op \<and> svw_to s = ts_to op \<and> svw_request_id s = ts_request_id op \<and> svw_complete s = ts_complete op
    \<and> \<not> is_ok (process_savings_withdraws db2)"
proof -
  from assms(1,4) have s: "svw_from s = ts_from op" "svw_to s = ts_to op" "svw_request_id s = ts_request_id op"
    "svw_complete s = ts_complete op" "svw_split_pay_month s = ts_split_pay_month op" "svw_split_pay_order s = ts_split_pay_order op"
    by (auto simp: transfer_savings_apply_def result_simps table_create_def Let_def)
  have "reaches (savings_begin db2) s db2" by (rule begin_reaches [OF savings_begin_def]) (use assms(6) in auto)
  with savings_loop_stuck [OF zero_payments_unpayable assms(5)] s assms(2,3,7) show ?thesis
    by (simp add: process_savings_withdraws_def)
qed

definition at_time :: "time_point_sec \<Rightarrow> chain_db \<Rightarrow> chain_db" where
  "at_time now db = db\<lparr>db_dgp := (db_dgp db)\<lparr>dgp_time := now\<rparr>\<rparr>"

definition savings_request :: "account_name_type \<Rightarrow> int \<Rightarrow> 8 word \<Rightarrow> 8 word \<Rightarrow> transfer_savings_operation" where
  "savings_request to v ord month = \<lparr>ts_from = ''alice'', ts_request_id = 1, ts_to = to, ts_amount = SGT v, ts_total_amount = SGT v,
     ts_split_pay_order = ord, ts_split_pay_month = month, ts_memo = [], ts_complete = 1600000100\<rparr>"

definition saved :: "account_name_type \<Rightarrow> int \<Rightarrow> 8 word \<Rightarrow> 8 word \<Rightarrow> chain_db \<Rightarrow> chain_db result" where
  "saved to v ord month db = bindR (transfer_savings_apply example_env (savings_request to v ord month) db) (\<lambda>db. Inr (at_time 1600000100 db))"

definition example_null_db :: chain_db where
  "example_null_db = example_db\<lparr>db_accounts := \<lparr>tb_next = 4,
     tb_rows = tb_rows (db_accounts example_db) @ [example_account 3 SIGMAENGINE_NULL_ACCOUNT 0]\<rparr>\<rparr>"

lemmas payment_eval = economy_eval remove_where_def guardR_def list_all_iff saved_def savings_request_def at_time_def example_null_db_def SIGMAENGINE_NULL_ACCOUNT_def
  process_savings_withdraws_def savings_loop.simps savings_begin_def pay_request_def pay_final_def pay_part_def pay_savings_def
  remove_savings_def push_virtual_operation_def clear_null_account_balance_def clear_balance_def clear_savings_def
  safe_div_def trunc_div_def rest_of_request_def fill_savings_def asset_sub_def safe_sub_def
  time_add_def SIGMAENGINE_TRANSFER_SAVINGS_CYCLE_def days_sec_def

text \<open>
  Three requests on the example chain. Validation and the evaluator accept a savings request to be paid in zero months, or one
  whose payment number is above the number of payments. The first makes the savings step divide
  by zero when it is due, so every block from then on fails. The second is paid in full when it
  is due and asks for the full amount again one cycle later, which then fails, or takes the savings
  that other requests have set aside for the same account. A request to the null account stops the
  chain too: its savings are taken out of the supply by the block that accepts it, the request
  stays, and when it is due the savings step of every block fails.
\<close>

theorem accepted_savings_stop_chain:
  "transfer_savings_validate accept_text (savings_request ''bob'' 10 1 0) = Inr ()
   \<and> is_ok (saved ''bob'' 10 1 0 example_db)
   \<and> bindR (saved ''bob'' 10 1 0 example_db) process_savings_withdraws = Inl Divide_by_zero_exception
   \<and> transfer_savings_validate accept_text (savings_request ''bob'' 10 2 1) = Inr ()
   \<and> is_ok (bindR (saved ''bob'' 10 2 1 example_db) process_savings_withdraws)
   \<and> bindR (bindR (saved ''bob'' 10 2 1 example_db) process_savings_withdraws)
       (\<lambda>db. process_savings_withdraws (at_time (1600000100 + SIGMAENGINE_TRANSFER_SAVINGS_CYCLE) db))
     = Inl (Assert_exception Insufficient_funds)
   \<and> transfer_savings_validate accept_text (savings_request SIGMAENGINE_NULL_ACCOUNT 10 1 1) = Inr ()
   \<and> is_ok (bindR (saved SIGMAENGINE_NULL_ACCOUNT 10 1 1 example_null_db) clear_null_account_balance)
   \<and> bindR (saved SIGMAENGINE_NULL_ACCOUNT 10 1 1 example_null_db)
       (\<lambda>db. bindR (clear_null_account_balance db) process_savings_withdraws) = Inl (Assert_exception Insufficient_funds)"
  by (simp add: payment_eval transfer_savings_validate_def validate_memo_def SIGMAENGINE_MAX_MEMO_SIZE_def accept_text_def validate_account_name_def name_eval is_valid_account_name_def is_letter_def is_let_dig_def SIGMAENGINE_MIN_ACCOUNT_NAME_LENGTH_def SIGMAENGINE_MAX_ACCOUNT_NAME_LENGTH_def upt_rec)

theorem zero_payments_stop_chain_witness:
  "\<exists>db1. transfer_savings_apply example_env (savings_request ''bob'' 10 1 0) example_db = Inr db1
     \<and> \<not> is_ok (process_savings_withdraws (at_time 1600000100 db1))"
proof -
  obtain db1 where db1: "transfer_savings_apply example_env (savings_request ''bob'' 10 1 0) example_db = Inr db1"
    and rows: "\<exists>s. tb_rows (db_savings db1) = [s]"
    by (simp add: payment_eval)
  have "wf_db db1" using transfer_savings_moves [OF example_db_good(1) db1] by (simp add: moves_def)
  then have "wf_db (at_time 1600000100 db1)" by (simp add: wf_db_def at_time_def)
  moreover have "last (tb_rows (db_savings db1)) \<in> set (tb_rows (db_savings (at_time 1600000100 db1)))"
    using rows by (auto simp: at_time_def)
  ultimately show ?thesis
    using zero_payments_stop_chain [OF db1 _ _ refl, of "at_time 1600000100 db1"] db1
    by (simp add: savings_request_def at_time_def head_block_time_def)
qed

text \<open>A request of two payments: the first is made, the second is due thirty days later.\<close>

definition example_savings_db :: chain_db where
  "example_savings_db = (case saved ''bob'' 10 1 2 example_db of Inl _ \<Rightarrow> example_db | Inr db \<Rightarrow> db)"

lemma example_savings_payable: "payable example_savings_db" "timely example_savings_db"
  "map svw_split_pay_order (tb_rows (db_savings example_savings_db)) = [1]"
  by (simp_all add: example_savings_db_def payment_eval payable_def wf_db_def wf_table_def savings_gap_def pending_savings_def
      account_ok_def regular_request_def account_keys_def timely_def)

lemma example_savings_step:
  "bindR (process_savings_withdraws example_savings_db) (\<lambda>db. Inr (map svw_split_pay_order (tb_rows (db_savings db)))) = Inr [2]"
  by (simp add: example_savings_db_def payment_eval)

theorem savings_always_paid_witness:
  "\<exists>db'. process_savings_withdraws example_savings_db = Inr db' \<and> payable db'
     \<and> map svw_split_pay_order (tb_rows (db_savings db')) = [2]"
proof -
  from savings_always_paid [OF example_savings_payable(1)] obtain db' where
    "process_savings_withdraws example_savings_db = Inr db'" "payable db'" by blast
  moreover from this(1) have "map svw_split_pay_order (tb_rows (db_savings db')) = [2]"
    using example_savings_step by simp
  ultimately show ?thesis by (intro exI conjI)
qed

end
