(* ===== verification/Slots.thy ===== *)
theory Slots
  imports Economy
begin

unbundle bit_operations_syntax

text \<open>
  Slots, block headers and the chain's global data, from \<^verbatim>\<open>database.cpp\<close>: the slot a time falls
  in and who may produce in it, the header check, the header extensions, the participation
  counters, the last irreversible block and the hardforks. The theorems: times and slots
  are inverse to each other, the participation counter is the number of ones in the window of
  the last 128 slots, the irreversible block is the newest one that three quarters of the
  schedule have confirmed, and what a hardfork vote can do.
\<close>

definition SIGMAENGINE_100_PERCENT :: nat where "SIGMAENGINE_100_PERCENT = 10000"
definition SIGMAENGINE_IRREVERSIBLE_THRESHOLD :: nat where "SIGMAENGINE_IRREVERSIBLE_THRESHOLD = 75 * (SIGMAENGINE_100_PERCENT div 100)"
definition SIGMAENGINE_MAX_UNDO_HISTORY :: nat where "SIGMAENGINE_MAX_UNDO_HISTORY = 10000"
definition SIGMAENGINE_BLOCKS_PER_DAY :: nat where "SIGMAENGINE_BLOCKS_PER_DAY = 24 * 60 * 60 div SIGMAENGINE_BLOCK_INTERVAL"
definition SIGMAENGINE_START_MINER_VOTING_BLOCK :: nat where "SIGMAENGINE_START_MINER_VOTING_BLOCK = SIGMAENGINE_BLOCKS_PER_DAY * 30"
definition SIGMAENGINE_NUM_HARDFORKS :: nat where "SIGMAENGINE_NUM_HARDFORKS = 1"
definition SIGMAENGINE_HARDFORK_0_1_TIME :: time_point_sec where "SIGMAENGINE_HARDFORK_0_1_TIME = 1522644600"

section \<open>The validation steps a caller may skip\<close>

definition skip_bobserver_signature :: "32 word" where "skip_bobserver_signature = push_bit 0 1"
definition skip_transaction_signatures :: "32 word" where "skip_transaction_signatures = push_bit 1 1"
definition skip_transaction_dupe_check :: "32 word" where "skip_transaction_dupe_check = push_bit 2 1"
definition skip_fork_db :: "32 word" where "skip_fork_db = push_bit 3 1"
definition skip_block_size_check :: "32 word" where "skip_block_size_check = push_bit 4 1"
definition skip_tapos_check :: "32 word" where "skip_tapos_check = push_bit 5 1"
definition skip_authority_check :: "32 word" where "skip_authority_check = push_bit 6 1"
definition skip_merkle_check :: "32 word" where "skip_merkle_check = push_bit 7 1"
definition skip_undo_history_check :: "32 word" where "skip_undo_history_check = push_bit 8 1"
definition skip_bobserver_schedule_check :: "32 word" where "skip_bobserver_schedule_check = push_bit 9 1"
definition skip_validate :: "32 word" where "skip_validate = push_bit 10 1"
definition skip_validate_invariants :: "32 word" where "skip_validate_invariants = push_bit 11 1"
definition skip_undo_block :: "32 word" where "skip_undo_block = push_bit 12 1"
definition skip_block_log :: "32 word" where "skip_block_log = push_bit 13 1"

definition skips :: "32 word \<Rightarrow> 32 word \<Rightarrow> bool" where
  "skips skip flag \<longleftrightarrow> skip AND flag \<noteq> 0"

section \<open>Slots\<close>

text \<open>
  The array of the schedule has a name for each of its 21 places and at least one is in use
  (\<open>schedule_wf\<close>), so the index is in range. A slot number is a \<^verbatim>\<open>uint32_t\<close>, the absolute slot a
  \<^verbatim>\<open>uint64_t\<close>.
\<close>

definition schedule_wf :: "bobserver_schedule_object \<Rightarrow> bool" where
  "schedule_wf wso \<longleftrightarrow> length (wso_current_shuffled_bobservers wso) = SIGMAENGINE_NUM_BOBSERVERS
     \<and> 0 < wso_num_scheduled_bobservers wso \<and> wso_num_scheduled_bobservers wso \<le> SIGMAENGINE_NUM_BOBSERVERS"

definition get_scheduled_bobserver :: "nat \<Rightarrow> chain_db \<Rightarrow> account_name_type" where
  "get_scheduled_bobserver slot_num db =
     (let current_aslot = (dgp_current_aslot (db_dgp db) + slot_num) mod 2 ^ 64
      in wso_current_shuffled_bobservers (db_schedule db) ! (current_aslot mod wso_num_scheduled_bobservers (db_schedule db)))"

definition get_slot_time :: "nat \<Rightarrow> chain_db \<Rightarrow> time_point_sec" where
  "get_slot_time slot_num db =
     (if slot_num = 0 then 0
      else if head_block_num db = 0 then time_add (head_block_time db) (slot_num * SIGMAENGINE_BLOCK_INTERVAL)
      else
        let head_block_abs_slot = head_block_time db div SIGMAENGINE_BLOCK_INTERVAL;
            head_slot_time = head_block_abs_slot * SIGMAENGINE_BLOCK_INTERVAL
        in time_add head_slot_time (slot_num * SIGMAENGINE_BLOCK_INTERVAL))"

definition get_slot_at_time :: "time_point_sec \<Rightarrow> chain_db \<Rightarrow> nat" where
  "get_slot_at_time when db =
     (let first_slot_time = get_slot_time 1 db in
      if when < first_slot_time then 0
      else (when - first_slot_time) div SIGMAENGINE_BLOCK_INTERVAL + 1)"

section \<open>Block headers\<close>

definition validate_block_header :: "block_crypto \<Rightarrow> 32 word \<Rightarrow> signed_block \<Rightarrow> chain_db \<Rightarrow> bobserver_object result" where
  "validate_block_header bc skip next_block db =
     fc_assert (head_block_id db = previous next_block) Wrong_previous (
     fc_assert (head_block_time db < timestamp next_block) Wrong_timestamp (
     bindR (get_bobserver (bobserver next_block) db) (\<lambda>bobserver'.
     bindR (if skips skip skip_bobserver_signature then Inr ()
            else bindR (validate_signee bc next_block (bo_signing_key bobserver')) (\<lambda>ok. fc_assert ok Wrong_signee (Inr ()))) (\<lambda>_.
     bindR (if skips skip skip_bobserver_schedule_check then Inr ()
            else
              let slot_num = get_slot_at_time (timestamp next_block) db in
              fc_assert (slot_num > 0) Wrong_slot (
              fc_assert (bo_account bobserver' = get_scheduled_bobserver slot_num db) Wrong_slot (Inr ()))) (\<lambda>_.
     Inr bobserver')))))"

definition create_block_summary :: "block_crypto \<Rightarrow> signed_block \<Rightarrow> chain_db \<Rightarrow> chain_db" where
  "create_block_summary bc next_block db =
     db\<lparr>db_summaries := (db_summaries db)(ucast (block_num next_block AND 0xFFFF) := block_id bc next_block)\<rparr>"

definition process_header_extension :: "account_name_type \<Rightarrow> chain_db \<Rightarrow> header_extension \<Rightarrow> chain_db result" where
  "process_header_extension name db e =
     (case e of
        Void_extension \<Rightarrow> Inr db
      | Version_extension reported_version \<Rightarrow>
          bindR (get_bobserver name db) (\<lambda>signing_bobserver.
          if reported_version \<noteq> bo_running_version signing_bobserver
          then Inr (modify_bobserver (bo_id signing_bobserver) (\<lambda>wo. wo\<lparr>bo_running_version := reported_version\<rparr>) db)
          else Inr db)
      | Hardfork_vote_extension hfv \<Rightarrow>
          bindR (get_bobserver name db) (\<lambda>signing_bobserver.
          if hf_version hfv \<noteq> bo_hardfork_version_vote signing_bobserver \<or> hf_time hfv \<noteq> bo_hardfork_time_vote signing_bobserver
          then Inr (modify_bobserver (bo_id signing_bobserver)
                 (\<lambda>wo. wo\<lparr>bo_hardfork_version_vote := hf_version hfv, bo_hardfork_time_vote := hf_time hfv\<rparr>) db)
          else Inr db))"

definition process_header_extensions :: "signed_block \<Rightarrow> chain_db \<Rightarrow> chain_db result" where
  "process_header_extensions next_block db = foldR (process_header_extension (bobserver next_block)) db (extensions next_block)"

section \<open>Participation\<close>

text \<open>
  The \<^verbatim>\<open>assert\<close> that the slot is not zero is absent from a release build, where the decrement
  wraps. \<^verbatim>\<open>missed_blocks\<close> and \<^verbatim>\<open>missed_blocks + 1\<close> are 32 bit values.
\<close>

definition missed_blocks :: "signed_block \<Rightarrow> chain_db \<Rightarrow> nat" where
  "missed_blocks b db =
     (if head_block_time db \<noteq> 0 then (get_slot_at_time (timestamp b) db + 2 ^ 32 - 1) mod 2 ^ 32 else 0)"

definition count_missed :: "signed_block \<Rightarrow> chain_db \<Rightarrow> nat \<Rightarrow> chain_db result" where
  "count_missed b db i =
     bindR (get_bobserver (get_scheduled_bobserver (i + 1) db) db) (\<lambda>bobserver_missed.
     if bo_account bobserver_missed \<noteq> bobserver b
     then Inr (modify_bobserver (bo_id bobserver_missed) (\<lambda>w. w\<lparr>bo_total_missed := (bo_total_missed w + 1) mod 2 ^ 32\<rparr>) db)
     else Inr db)"

definition fill_slot :: "128 word \<times> 8 word \<Rightarrow> nat \<Rightarrow> 128 word \<times> 8 word" where
  "fill_slot rc i =
     (let count = snd rc - (if bit (fst rc) 127 then 1 else 0);
          recent = push_bit 1 (fst rc) + (if i = 0 then 1 else 0);
          count = count + (if i = 0 then 1 else 0)
      in (recent, count))"

definition fill_slots :: "nat \<Rightarrow> 128 word \<times> 8 word \<Rightarrow> 128 word \<times> 8 word" where
  "fill_slots n rc = foldl fill_slot rc [0..<n]"

definition advance_dgp :: "block_crypto \<Rightarrow> signed_block \<Rightarrow> nat \<Rightarrow> dynamic_global_property_object \<Rightarrow> dynamic_global_property_object" where
  "advance_dgp bc b missed dgp =
     (let new_slots = (missed + 1) mod 2 ^ 32;
          filled = fill_slots new_slots (dgp_recent_slots_filled dgp, dgp_participation_count dgp)
      in dgp\<lparr>dgp_recent_slots_filled := fst filled, dgp_participation_count := snd filled,
             dgp_head_block_number := unat (block_num b), dgp_head_block_id := block_id bc b, dgp_time := timestamp b,
             dgp_current_aslot := (dgp_current_aslot dgp + new_slots) mod 2 ^ 64\<rparr>)"

definition update_global_dynamic_data :: "block_crypto \<Rightarrow> 32 word \<Rightarrow> signed_block \<Rightarrow> chain_db \<Rightarrow> chain_db result" where
  "update_global_dynamic_data bc skip b db =
     (let missed = missed_blocks b db in
      bindR (if head_block_time db \<noteq> 0 then foldR (count_missed b) db [0..<missed] else Inr db) (\<lambda>db.
      let db = modify_dgp (advance_dgp bc b missed) db
      in if skips skip skip_undo_history_check then Inr db
         else guardR ((dgp_head_block_number (db_dgp db) + 2 ^ 32 - dgp_last_irreversible_block_num (db_dgp db)) mod 2 ^ 32
                < SIGMAENGINE_MAX_UNDO_HISTORY) Undo_database_exception (Inr db)))"

definition update_signing_bobserver :: "bobserver_object \<Rightarrow> signed_block \<Rightarrow> chain_db \<Rightarrow> chain_db" where
  "update_signing_bobserver signing_bobserver new_block db =
     (let new_block_aslot = (dgp_current_aslot (db_dgp db) + get_slot_at_time (timestamp new_block) db) mod 2 ^ 64
      in modify_bobserver (bo_id signing_bobserver)
           (\<lambda>w. w\<lparr>bo_last_aslot := new_block_aslot, bo_last_confirmed_block_num := unat (block_num new_block)\<rparr>) db)"

section \<open>The last irreversible block\<close>

text \<open>
  \<^verbatim>\<open>std::nth_element\<close> puts at the offset the element that sorting would put there.
\<close>

definition confirmed_blocks :: "chain_db \<Rightarrow> nat list result" where
  "confirmed_blocks db =
     foldR (\<lambda>ns name. bindR (get_bobserver name db) (\<lambda>w. Inr (ns @ [bo_last_confirmed_block_num w]))) []
       (map (\<lambda>i. wso_current_shuffled_bobservers (db_schedule db) ! i) [0..<wso_num_scheduled_bobservers (db_schedule db)])"

definition irreversible_offset :: "nat \<Rightarrow> nat" where
  "irreversible_offset n = (SIGMAENGINE_100_PERCENT - SIGMAENGINE_IRREVERSIBLE_THRESHOLD) * n div SIGMAENGINE_100_PERCENT"

definition next_irreversible :: "chain_db \<Rightarrow> nat result" where
  "next_irreversible db =
     (let dpo = db_dgp db in
      if head_block_num db < SIGMAENGINE_START_MINER_VOTING_BLOCK
      then Inr (if head_block_num db > SIGMAENGINE_NUM_BOBSERVERS then head_block_num db - SIGMAENGINE_NUM_BOBSERVERS
                else dgp_last_irreversible_block_num dpo)
      else bindR (confirmed_blocks db) (\<lambda>ns.
           let new_num = sort ns ! irreversible_offset (length ns) in
           Inr (if new_num > dgp_last_irreversible_block_num dpo then new_num else dgp_last_irreversible_block_num dpo)))"

definition set_irreversible :: "chain_db \<Rightarrow> chain_db result" where
  "set_irreversible db =
     bindR (next_irreversible db) (\<lambda>n. Inr (modify_dgp (\<lambda>p. p\<lparr>dgp_last_irreversible_block_num := n\<rparr>) db))"

section \<open>Hardforks\<close>

definition hardfork_times :: "time_point_sec list" where
  "hardfork_times = [SIGMAENGINE_GENESIS_TIME, SIGMAENGINE_HARDFORK_0_1_TIME]"

definition hardfork_versions :: "hardfork_version list" where
  "hardfork_versions = [hardfork_version_of (mk_version 0 0 0), hardfork_version_of (mk_version 0 1 0)]"

definition apply_hardfork :: "nat \<Rightarrow> chain_db \<Rightarrow> chain_db result" where
  "apply_hardfork hardfork db =
     (let hfp = db_hardfork db in
      fc_assert (hardfork = hpo_last_hardfork hfp + 1) Hardfork_out_of_order (
      fc_assert (length (hpo_processed_hardforks hfp) = hardfork) Hardfork_out_of_order (
      let hfp = hfp\<lparr>hpo_processed_hardforks := hpo_processed_hardforks hfp @ [hardfork_times ! hardfork],
                    hpo_last_hardfork := hardfork, hpo_current_hardfork_version := hardfork_versions ! hardfork\<rparr>
      in fc_assert (hpo_processed_hardforks hfp ! hpo_last_hardfork hfp = hardfork_times ! hpo_last_hardfork hfp) Hardfork_out_of_order (
         push_virtual_operation (Hardfork hardfork) (db\<lparr>db_hardfork := hfp\<rparr>)))))"

lemma apply_hardfork_last:
  "apply_hardfork h db = Inr db' \<Longrightarrow> h = hpo_last_hardfork (db_hardfork db) + 1 \<and> hpo_last_hardfork (db_hardfork db') = h"
  by (auto simp: apply_hardfork_def Let_def push_virtual_operation_def result_simps)

declare bindR_cong [fundef_cong]

function voted_hardforks :: "chain_db \<Rightarrow> chain_db result" where
  "voted_hardforks db =
     (let hardforks = db_hardfork db in
      if hardfork_versions ! hpo_last_hardfork hardforks < hpo_next_hardfork hardforks
         \<and> hpo_next_hardfork_time hardforks \<le> head_block_time db
      then if hpo_last_hardfork hardforks < SIGMAENGINE_NUM_HARDFORKS
           then bindR (apply_hardfork (hpo_last_hardfork hardforks + 1) db) (\<lambda>db. voted_hardforks db)
           else Inl Unknown_hardfork_exception
      else Inr db)"
  by pat_completeness auto
termination
  by (relation "measure (\<lambda>db. SIGMAENGINE_NUM_HARDFORKS - hpo_last_hardfork (db_hardfork db))") (auto dest!: apply_hardfork_last)

function timed_hardforks :: "chain_db \<Rightarrow> chain_db result" where
  "timed_hardforks db =
     (let hardforks = db_hardfork db in
      if hpo_last_hardfork hardforks < SIGMAENGINE_NUM_HARDFORKS
         \<and> hardfork_times ! (hpo_last_hardfork hardforks + 1) \<le> head_block_time db
         \<and> hpo_last_hardfork hardforks < SIGMAENGINE_HARDFORK_0_1
      then bindR (apply_hardfork (hpo_last_hardfork hardforks + 1) db) (\<lambda>db. timed_hardforks db)
      else Inr db)"
  by pat_completeness auto
termination
  by (relation "measure (\<lambda>db. SIGMAENGINE_NUM_HARDFORKS - hpo_last_hardfork (db_hardfork db))") (auto dest!: apply_hardfork_last)

declare voted_hardforks.simps [simp del] timed_hardforks.simps [simp del]

definition process_hardforks :: "chain_db \<Rightarrow> chain_db result" where
  "process_hardforks db = (if has_hardfork SIGMAENGINE_HARDFORK_0_1 db then voted_hardforks db else timed_hardforks db)"

definition set_hardfork_step :: "bool \<Rightarrow> chain_db \<Rightarrow> nat \<Rightarrow> chain_db result" where
  "set_hardfork_step apply_now db i =
     (let db = db\<lparr>db_hardfork := (db_hardfork db)\<lparr>hpo_next_hardfork := hardfork_versions ! i, hpo_next_hardfork_time := head_block_time db\<rparr>\<rparr>
      in if apply_now then apply_hardfork i db else Inr db)"

definition set_hardfork :: "nat \<Rightarrow> bool \<Rightarrow> chain_db \<Rightarrow> chain_db result" where
  "set_hardfork hardfork apply_now db =
     foldR (set_hardfork_step apply_now) db [hpo_last_hardfork (db_hardfork db) + 1 ..< min hardfork SIGMAENGINE_NUM_HARDFORKS + 1]"

section \<open>Slots and times\<close>

lemma slot_time:
  assumes "0 < n" "head_block_time db + 3 * n < 2 ^ 32"
  shows "get_slot_time n db = (if head_block_num db = 0 then head_block_time db else 3 * (head_block_time db div 3)) + 3 * n"
proof -
  have "3 * (head_block_time db div 3) \<le> head_block_time db" by (rule times_div_less_eq_dividend)
  with assms show ?thesis by (simp add: get_slot_time_def time_add_def SIGMAENGINE_BLOCK_INTERVAL_def Let_def mult.commute)
qed

text \<open>
  Slot \<open>n\<close> is the half open interval from its time to the time of slot \<open>n + 1\<close>: a time is in
  slot \<open>n\<close> exactly when it lies in that interval, as long as times stay below the 32 bit limit.
\<close>

theorem slot_at_time_iff:
  assumes "0 < n" "head_block_time db + 3 * (n + 1) < 2 ^ 32"
  shows "get_slot_at_time when db = n \<longleftrightarrow> get_slot_time n db \<le> when \<and> when < get_slot_time (n + 1) db"
proof -
  define base where "base = (if head_block_num db = 0 then head_block_time db else 3 * (head_block_time db div 3))"
  have t: "get_slot_time 1 db = base + 3" "get_slot_time n db = base + 3 * n" "get_slot_time (n + 1) db = base + 3 * (n + 1)"
    using assms by (simp_all add: slot_time base_def)
  show ?thesis
  proof (cases "when < base + 3")
    case True
    then show ?thesis using assms(1) unfolding get_slot_at_time_def t by (simp add: Let_def)
  next
    case False
    have "(when - (base + 3)) div 3 + 1 = n \<longleftrightarrow> base + 3 * n \<le> when \<and> when < base + 3 * (n + 1)"
      using False assms(1) by presburger
    then show ?thesis using False unfolding get_slot_at_time_def t by (simp add: Let_def SIGMAENGINE_BLOCK_INTERVAL_def)
  qed
qed

section \<open>The participation counter\<close>

definition participation_ok :: "128 word \<times> 8 word \<Rightarrow> bool" where
  "participation_ok rc \<longleftrightarrow> unat (snd rc) = card {k. bit (fst rc) k}"

lemma bits_finite: "finite {k. bit (w :: 128 word) k}" "card {k. bit (w :: 128 word) k} \<le> 128"
proof -
  have sub: "{k. bit w k} \<subseteq> {..<128}" using bit_imp_le_length [of w] by auto
  then show "finite {k. bit w k}" by (rule finite_subset) simp
  from card_mono [OF _ sub] show "card {k. bit w k} \<le> 128" by simp
qed

lemma bit_shift: "bit (push_bit 1 (r :: 128 word)) k \<longleftrightarrow> 0 < k \<and> k < 128 \<and> bit r (k - 1)"
  by (subst bit_push_bit_iff) (auto simp: possible_bit_word)

lemma fill_slot_bits:
  "bit (fst (fill_slot rc i)) k \<longleftrightarrow> k < 128 \<and> (if k = 0 then i = 0 else bit (fst rc) (k - 1))"
proof -
  have "push_bit 1 r + 1 = push_bit 1 r OR 1" for r :: "128 word"
    by (rule disjunctive_add) (auto simp only: bit_shift bit_1_iff)
  then show ?thesis by (auto simp only: fill_slot_def Let_def fst_conv bit_or_iff bit_shift bit_1_iff add_0_right possible_bit_word split: if_splits)
qed

lemma fill_slot_ok:
  assumes "participation_ok rc"
  shows "participation_ok (fill_slot rc i)"
proof -
  let ?B = "{k. bit (fst rc) k}" and ?top = "if bit (fst rc) 127 then 1 else 0 :: nat" and ?new = "if i = 0 then 1 else 0 :: nat"
  have new: "{k. bit (fst (fill_slot rc i)) k} = Suc ` (?B - {127}) \<union> (if i = 0 then {0} else {})"
  proof (rule set_eqI)
    fix k
    have lt: "m < 128" if "bit (fst rc) m" for m using bit_imp_le_length [OF that] by simp
    show "k \<in> {k. bit (fst (fill_slot rc i)) k} \<longleftrightarrow> k \<in> Suc ` (?B - {127}) \<union> (if i = 0 then {0} else {})"
      using lt [of "k - 1"] by (cases k) (auto simp: fill_slot_bits)
  qed
  have "card (Suc ` (?B - {127})) = card ?B - ?top"
    by (simp add: card_image bits_finite card_Diff_singleton_if)
  moreover have "?top \<le> card ?B" using bits_finite(1) [of "fst rc"] by (auto simp: Suc_le_eq card_gt_0_iff)
  ultimately have card: "card {k. bit (fst (fill_slot rc i)) k} + ?top = card ?B + ?new"
    unfolding new using bits_finite by (simp add: card_insert_if)
  have "unat (snd rc - of_nat ?top) = card ?B - ?top"
    using assms \<open>?top \<le> card ?B\<close> by (auto simp: participation_ok_def unat_sub word_le_nat_alt)
  then have "unat (snd rc - of_nat ?top + of_nat ?new) = card ?B - ?top + ?new"
    using bits_finite(2) [of "fst rc"] by (auto simp: unat_word_ariths)
  then have "unat (snd rc - of_nat ?top + of_nat ?new) = card {k. bit (fst (fill_slot rc i)) k}"
    using card \<open>?top \<le> card ?B\<close> by linarith
  moreover have "snd (fill_slot rc i) = snd rc - of_nat ?top + of_nat ?new" by (simp add: fill_slot_def Let_def)
  ultimately show ?thesis by (simp only: participation_ok_def)
qed

lemma fill_slots_ok: "participation_ok rc \<Longrightarrow> participation_ok (fill_slots n rc)"
  by (induction n) (simp_all add: fill_slots_def fill_slot_ok)

lemma fill_slots_bits:
  "bit (fst (fill_slots (Suc m) rc)) k \<longleftrightarrow> k < 128 \<and> (k = m \<or> m < k \<and> bit (fst rc) (k - m - 1))"
proof (induction m arbitrary: k)
  case 0
  show ?case by (auto simp: fill_slots_def fill_slot_bits)
next
  case (Suc m)
  have "fill_slots (Suc (Suc m)) rc = fill_slot (fill_slots (Suc m) rc) (Suc m)" by (simp add: fill_slots_def)
  then have "bit (fst (fill_slots (Suc (Suc m)) rc)) k \<longleftrightarrow> k < 128 \<and> 0 < k \<and> bit (fst (fill_slots (Suc m) rc)) (k - 1)"
    by (simp add: fill_slot_bits)
  then show ?case by (cases k) (auto simp only: Suc.IH diff_Suc_1 diff_Suc_Suc)
qed

lemma count_missed_frame:
  "count_missed b db i = Inr db' \<Longrightarrow> \<exists>t. db' = db\<lparr>db_bobservers := t\<rparr>"
  by (auto simp: count_missed_def modify_bobserver_def bindR_Inr_iff split: if_splits intro: exI [of _ "db_bobservers db"])

lemma count_all_missed_frame:
  "foldR (count_missed b) db ks = Inr db' \<Longrightarrow> \<exists>t. db' = db\<lparr>db_bobservers := t\<rparr>"
proof (induction ks arbitrary: db)
  case Nil
  then show ?case by (auto intro: exI [of _ "db_bobservers db"])
next
  case (Cons k ks)
  then obtain d where d: "count_missed b db k = Inr d" "foldR (count_missed b) d ks = Inr db'" by (auto simp: bindR_Inr_iff)
  from Cons.IH [OF d(2)] count_missed_frame [OF d(1)] show ?case by auto
qed

lemma update_global_dynamic_data_Inr:
  assumes "update_global_dynamic_data bc skip b db = Inr db'"
  obtains t where "db' = db\<lparr>db_bobservers := t, db_dgp := advance_dgp bc b (missed_blocks b db) (db_dgp db)\<rparr>"
proof -
  let ?count = "if head_block_time db \<noteq> 0 then foldR (count_missed b) db [0..<missed_blocks b db] else Inr db"
  obtain d where d: "?count = Inr d" and db': "db' = modify_dgp (advance_dgp bc b (missed_blocks b db)) d"
  proof (cases ?count)
    case (Inr d)
    with assms have "db' = modify_dgp (advance_dgp bc b (missed_blocks b db)) d"
      unfolding update_global_dynamic_data_def Let_def by (simp only: bindR_simps guardR_def sum.inject Inl_Inr_False split: if_splits)
    with Inr that show ?thesis by blast
  qed (use assms in \<open>simp add: update_global_dynamic_data_def Let_def split: if_splits\<close>)
  have "\<exists>t. d = db\<lparr>db_bobservers := t\<rparr>"
    using d count_all_missed_frame [of b db "[0..<missed_blocks b db]" d] by (cases "head_block_time db = 0") (auto intro: exI [of _ "db_bobservers db"])
  then show ?thesis using db' that by (auto simp: modify_dgp_def)
qed

text \<open>
  C33: Applying a block's header data keeps the participation counter equal to the number of
  filled slots among the last 128, never wrapping its 8 bits, and advances the absolute slot by the
  missed slots and the block's own. Of the new slots the oldest is marked as filled, although the
  block was produced in the newest.
\<close>

theorem participation_counts_slots:
  assumes "participation_ok (dgp_recent_slots_filled (db_dgp db), dgp_participation_count (db_dgp db))"
    and "update_global_dynamic_data bc skip b db = Inr db'"
    and "missed_blocks b db + 1 < 2 ^ 32"
  shows "participation_ok (dgp_recent_slots_filled (db_dgp db'), dgp_participation_count (db_dgp db'))
     \<and> (bit (dgp_recent_slots_filled (db_dgp db')) k \<longleftrightarrow>
           k < 128 \<and> (k = missed_blocks b db
             \<or> missed_blocks b db < k \<and> bit (dgp_recent_slots_filled (db_dgp db)) (k - missed_blocks b db - 1)))
     \<and> dgp_current_aslot (db_dgp db') = (dgp_current_aslot (db_dgp db) + missed_blocks b db + 1) mod 2 ^ 64"
proof (intro conjI)
  let ?old = "(dgp_recent_slots_filled (db_dgp db), dgp_participation_count (db_dgp db))"
  let ?m = "missed_blocks b db"
  have "(?m + 1) mod 2 ^ 32 = Suc ?m" using assms(3) by simp
  moreover obtain t where "db' = db\<lparr>db_bobservers := t, db_dgp := advance_dgp bc b ?m (db_dgp db)\<rparr>"
    using update_global_dynamic_data_Inr [OF assms(2)] .
  ultimately have new: "(dgp_recent_slots_filled (db_dgp db'), dgp_participation_count (db_dgp db')) = fill_slots (Suc ?m) ?old"
    "dgp_current_aslot (db_dgp db') = (dgp_current_aslot (db_dgp db) + ?m + 1) mod 2 ^ 64"
    by (simp_all add: advance_dgp_def Let_def)
  show "participation_ok (dgp_recent_slots_filled (db_dgp db'), dgp_participation_count (db_dgp db'))"
    unfolding new by (rule fill_slots_ok [OF assms(1)])
  show "bit (dgp_recent_slots_filled (db_dgp db')) k \<longleftrightarrow> k < 128 \<and> (k = ?m \<or> ?m < k \<and> bit (dgp_recent_slots_filled (db_dgp db)) (k - ?m - 1))"
    using fill_slots_bits [of ?m ?old k] new(1) [symmetric] by simp
  show "dgp_current_aslot (db_dgp db') = (dgp_current_aslot (db_dgp db) + ?m + 1) mod 2 ^ 64" by (rule new(2))
qed

section \<open>Irreversible blocks\<close>

lemma irreversible_offset: "irreversible_offset n = n div 4"
  by (simp add: irreversible_offset_def SIGMAENGINE_100_PERCENT_def SIGMAENGINE_IRREVERSIBLE_THRESHOLD_def)

lemma length_filter_sort: "length (filter P (sort xs)) = length (filter P (xs :: nat list))"
  by (metis mset_filter mset_sort size_mset)

text \<open>How many elements of a sorted list reach the one at a given place, or a larger bound.\<close>

lemma sorted_count:
  fixes xs :: "nat list"
  assumes "sorted xs" "j < length xs"
  shows "length xs - j \<le> length (filter (\<lambda>x. xs ! j \<le> x) xs)"
    and "xs ! j < w \<Longrightarrow> length (filter (\<lambda>x. w \<le> x) xs) < length xs - j"
proof -
  have split: "filter P xs = filter P (take j xs) @ filter P (drop j xs)" for P
    by (metis append_take_drop_id filter_append)
  have "filter (\<lambda>x. xs ! j \<le> x) (drop j xs) = drop j xs"
    using assms by (auto intro!: filter_True simp: in_set_conv_nth sorted_iff_nth_mono)
  then show "length xs - j \<le> length (filter (\<lambda>x. xs ! j \<le> x) xs)" unfolding split by simp
  assume w: "xs ! j < w"
  have "x < w" if "x \<in> set (take (Suc j) xs)" for x
  proof -
    from that obtain i where "i < Suc j" "x = xs ! i" by (auto simp: in_set_conv_nth)
    with sorted_nth_mono [OF assms(1), of i j] assms(2) w show ?thesis by simp
  qed
  then have "filter (\<lambda>x. w \<le> x) (take (Suc j) xs) = []" by (auto simp: filter_empty_conv not_le)
  moreover have "filter (\<lambda>x. w \<le> x) xs = filter (\<lambda>x. w \<le> x) (take (Suc j) xs) @ filter (\<lambda>x. w \<le> x) (drop (Suc j) xs)"
    by (metis append_take_drop_id filter_append)
  ultimately have "length (filter (\<lambda>x. w \<le> x) xs) \<le> length xs - Suc j"
    using length_filter_le [of "\<lambda>x. w \<le> x" "drop (Suc j) xs"] by simp
  with assms(2) show "length (filter (\<lambda>x. w \<le> x) xs) < length xs - j" by linarith
qed

definition confirmations :: "nat \<Rightarrow> nat list \<Rightarrow> nat" where
  "confirmations n ns = length (filter (\<lambda>x. n \<le> x) ns)"

lemma confirmed_blocks_length:
  assumes "confirmed_blocks db = Inr ns"
  shows "length ns = wso_num_scheduled_bobservers (db_schedule db)"
proof -
  have "foldR (\<lambda>ns name. bindR (get_bobserver name db) (\<lambda>w. Inr (ns @ [bo_last_confirmed_block_num w]))) acc names = Inr ns
    \<Longrightarrow> length ns = length acc + length names" for acc names
    by (induction names arbitrary: acc) (auto simp: bindR_Inr_iff)
  from this [of "[]"] assms show ?thesis by (fastforce simp: confirmed_blocks_def)
qed

text \<open>
  C32: Before voting starts, the last irreversible block trails the head by the number of bobservers, whatever was
  confirmed, once there are that many blocks. Once voting has started, it never moves back, and when it moves, it
  moves to the newest block that at least three quarters of the schedule (all but a quarter,
  rounded down) have confirmed: that many producers have confirmed it or a later block, and fewer
  have confirmed any later block.
\<close>

theorem irreversible_needs_three_quarters:
  assumes "schedule_wf (db_schedule db)" "set_irreversible db = Inr db'"
  defines "old \<equiv> dgp_last_irreversible_block_num (db_dgp db)" and "new \<equiv> dgp_last_irreversible_block_num (db_dgp db')"
    and "n \<equiv> wso_num_scheduled_bobservers (db_schedule db)"
  shows "if head_block_num db < SIGMAENGINE_START_MINER_VOTING_BLOCK
     then new = (if SIGMAENGINE_NUM_BOBSERVERS < head_block_num db then head_block_num db - SIGMAENGINE_NUM_BOBSERVERS else old)
     else \<exists>ns. confirmed_blocks db = Inr ns \<and> length ns = n \<and> old \<le> new
       \<and> (old < new \<longrightarrow> n - n div 4 \<le> confirmations new ns) \<and> (\<forall>w > new. confirmations w ns < n - n div 4)"
proof (cases "head_block_num db < SIGMAENGINE_START_MINER_VOTING_BLOCK")
  case True
  with assms(2) show ?thesis
    by (auto simp: set_irreversible_def next_irreversible_def Let_def bindR_Inr_iff modify_dgp_def old_def new_def)
next
  case False
  with assms(2) obtain ns where ns: "confirmed_blocks db = Inr ns"
    and new: "new = (if sort ns ! irreversible_offset (length ns) > old then sort ns ! irreversible_offset (length ns) else old)"
    by (auto simp: set_irreversible_def next_irreversible_def Let_def bindR_Inr_iff modify_dgp_def old_def new_def)
  have len: "length ns = n" using confirmed_blocks_length [OF ns] by (simp add: n_def)
  have "0 < n" using assms(1) by (simp add: schedule_wf_def n_def)
  then have lt: "n div 4 < length (sort ns)" using len by simp
  let ?v = "sort ns ! (n div 4)"
  note count = sorted_count [OF sorted_sort lt, unfolded length_sort length_filter_sort len, folded confirmations_def]
  have "new = max ?v old" unfolding new len irreversible_offset by simp
  then have "\<exists>ns. confirmed_blocks db = Inr ns \<and> length ns = n \<and> old \<le> new
       \<and> (old < new \<longrightarrow> n - n div 4 \<le> confirmations new ns) \<and> (\<forall>w > new. confirmations w ns < n - n div 4)"
    using ns len count by (intro exI [of _ ns]) auto
  with False show ?thesis by simp
qed

section \<open>The hardfork rules\<close>

definition hardfork_wf :: "hardfork_property_object \<Rightarrow> bool" where
  "hardfork_wf h \<longleftrightarrow> hpo_last_hardfork h \<le> SIGMAENGINE_NUM_HARDFORKS
     \<and> hpo_processed_hardforks h = take (hpo_last_hardfork h + 1) hardfork_times
     \<and> hpo_current_hardfork_version h = hardfork_versions ! hpo_last_hardfork h"

lemmas hardfork_consts = SIGMAENGINE_NUM_HARDFORKS_def SIGMAENGINE_HARDFORK_0_1_def SIGMAENGINE_HARDFORK_0_1_TIME_def

lemma apply_hardfork_wf:
  assumes "hardfork_wf (db_hardfork db)" "hpo_last_hardfork (db_hardfork db) < SIGMAENGINE_NUM_HARDFORKS"
  shows "\<exists>db'. apply_hardfork (hpo_last_hardfork (db_hardfork db) + 1) db = Inr db' \<and> hardfork_wf (db_hardfork db')
     \<and> hpo_next_hardfork (db_hardfork db') = hpo_next_hardfork (db_hardfork db)
     \<and> hpo_next_hardfork_time (db_hardfork db') = hpo_next_hardfork_time (db_hardfork db)
     \<and> hpo_last_hardfork (db_hardfork db') = hpo_last_hardfork (db_hardfork db) + 1
     \<and> db' = db\<lparr>db_hardfork := db_hardfork db', db_virtual_ops := db_virtual_ops db'\<rparr>"
  using assms by (auto simp: apply_hardfork_def hardfork_wf_def Let_def push_virtual_operation_def hardfork_consts hardfork_times_def)

text \<open>
  On a chain whose hardfork record is consistent, processing hardforks keeps it consistent.
  Before hardfork 0.1 its fixed time decides; afterwards a version the producers voted for that the
  node does not know stops the node with an exception when its time comes, and nothing else changes the state.
\<close>

theorem hardfork_rules:
  assumes "hardfork_wf (db_hardfork db)"
  shows "if hpo_last_hardfork (db_hardfork db) = 0
     then (if SIGMAENGINE_HARDFORK_0_1_TIME \<le> head_block_time db
           then \<exists>db'. process_hardforks db = Inr db' \<and> hardfork_wf (db_hardfork db') \<and> hpo_last_hardfork (db_hardfork db') = 1
           else process_hardforks db = Inr db)
     else process_hardforks db =
       (if hardfork_versions ! 1 < hpo_next_hardfork (db_hardfork db) \<and> hpo_next_hardfork_time (db_hardfork db) \<le> head_block_time db
        then Inl Unknown_hardfork_exception else Inr db)"
proof (cases "hpo_last_hardfork (db_hardfork db) = 0")
  case True
  then have no: "\<not> has_hardfork SIGMAENGINE_HARDFORK_0_1 db"
    using assms by (simp add: has_hardfork_def hardfork_wf_def hardfork_consts hardfork_times_def)
  from apply_hardfork_wf [OF assms] True obtain d where d: "apply_hardfork 1 db = Inr d" "hardfork_wf (db_hardfork d)"
    "hpo_last_hardfork (db_hardfork d) = 1" by (auto simp: hardfork_consts)
  then have "timed_hardforks d = Inr d" by (simp add: timed_hardforks.simps hardfork_consts)
  with True no d show ?thesis
    by (simp add: process_hardforks_def timed_hardforks.simps [of db] hardfork_times_def hardfork_consts)
next
  case False
  then have "hpo_last_hardfork (db_hardfork db) = 1" using assms by (simp add: hardfork_wf_def hardfork_consts)
  with assms show ?thesis
    by (simp add: process_hardforks_def has_hardfork_def voted_hardforks.simps [of db] hardfork_wf_def hardfork_consts hardfork_times_def Let_def)
qed

section \<open>Examples\<close>

text \<open>A chain of one producer that has confirmed block 900000, at its head; the next slot is missed.\<close>

definition example_observer :: bobserver_object where
  "example_observer = (new_bobserver 0)\<lparr>bo_account := SIGMAENGINE_INIT_MINER_NAME, bo_signing_key := 7, bo_last_confirmed_block_num := 900000,
     bo_is_bproducer := True\<rparr>"

definition example_late_db :: chain_db where
  "example_late_db = example_db\<lparr>db_bobservers := \<lparr>tb_next = 1, tb_rows = [example_observer]\<rparr>,
     db_dgp := example_dgp\<lparr>dgp_head_block_number := 900000, dgp_participation_count := 0\<rparr>\<rparr>"

definition example_slot_block :: signed_block where
  "example_slot_block = \<lparr>previous = [0, 0, 0, 0, 0], timestamp = 1600000006, bobserver = SIGMAENGINE_INIT_MINER_NAME,
     transaction_merkle_root = [], extensions = [], bobserver_signature = [], transactions = []\<rparr>"

lemmas slot_eval = example_late_db_def example_observer_def example_slot_block_def new_bobserver_def SIGMAENGINE_INIT_MINER_NAME_def
  head_block_num_def get_slot_at_time_def get_slot_time_def time_add_def SIGMAENGINE_BLOCK_INTERVAL_def SIGMAENGINE_NUM_BOBSERVERS_def
  SIGMAENGINE_START_MINER_VOTING_BLOCK_def SIGMAENGINE_BLOCKS_PER_DAY_def schedule_wf_def get_bobserver_def find_bobserver_def

theorem slot_at_time_iff_witness: "get_slot_at_time 1600000006 example_late_db = 2"
proof -
  have "0 < (2 :: nat)" "head_block_time example_late_db + 3 * (2 + 1) < 2 ^ 32"
    and t: "get_slot_time 2 example_late_db \<le> 1600000006 \<and> 1600000006 < get_slot_time (2 + 1) example_late_db"
    by (simp_all add: slot_eval economy_eval)
  from slot_at_time_iff [OF this(1,2)] t show ?thesis by blast
qed

lemma example_missed: "missed_blocks example_slot_block example_late_db = 1"
  by (simp add: missed_blocks_def slot_eval economy_eval)

theorem participation_counts_slots_witness:
  "\<exists>db'. update_global_dynamic_data example_block_crypto skip_undo_history_check example_slot_block example_late_db = Inr db'
     \<and> unat (dgp_participation_count (db_dgp db')) = card {k. bit (dgp_recent_slots_filled (db_dgp db')) k}
     \<and> bit (dgp_recent_slots_filled (db_dgp db')) 1"
proof -
  have "is_ok (update_global_dynamic_data example_block_crypto skip_undo_history_check example_slot_block example_late_db)"
    unfolding update_global_dynamic_data_def Let_def example_missed
    by (simp add: count_missed_def get_scheduled_bobserver_def skips_def skip_undo_history_check_def slot_eval economy_eval)
  then obtain db' where db': "update_global_dynamic_data example_block_crypto skip_undo_history_check example_slot_block example_late_db = Inr db'"
    by (auto simp: is_ok_def split: sum.splits)
  have ok: "participation_ok (dgp_recent_slots_filled (db_dgp example_late_db), dgp_participation_count (db_dgp example_late_db))"
    by (simp add: participation_ok_def example_late_db_def example_dgp_def)
  have "missed_blocks example_slot_block example_late_db + 1 < 2 ^ 32" by (simp add: example_missed)
  from participation_counts_slots [OF ok db' this, of 1] db' show ?thesis by (simp add: example_missed participation_ok_def)
qed

theorem irreversible_needs_three_quarters_witness:
  "\<exists>db'. set_irreversible example_late_db = Inr db' \<and> dgp_last_irreversible_block_num (db_dgp db') = 900000"
proof -
  have wf: "schedule_wf (db_schedule example_late_db)" "SIGMAENGINE_START_MINER_VOTING_BLOCK \<le> head_block_num example_late_db"
    and ns: "confirmed_blocks example_late_db = Inr [900000]"
    by (simp_all add: confirmed_blocks_def slot_eval economy_eval)
  then obtain db' where db': "set_irreversible example_late_db = Inr db'"
    by (auto simp: set_irreversible_def next_irreversible_def Let_def)
  have n: "wso_num_scheduled_bobservers (db_schedule example_late_db) = 1"
    and old: "dgp_last_irreversible_block_num (db_dgp example_late_db) = 5"
    by (simp_all add: slot_eval economy_eval)
  from irreversible_needs_three_quarters [OF wf(1) db'] wf(2) ns
  have "5 \<le> dgp_last_irreversible_block_num (db_dgp db')"
    "\<forall>w > dgp_last_irreversible_block_num (db_dgp db'). confirmations w [900000] < 1"
    "5 < dgp_last_irreversible_block_num (db_dgp db') \<longrightarrow> 1 \<le> confirmations (dgp_last_irreversible_block_num (db_dgp db')) [900000]"
    unfolding n old by auto
  then have "dgp_last_irreversible_block_num (db_dgp db') = 900000"
    by (auto simp: confirmations_def split: if_splits)
  with db' show ?thesis by blast
qed

theorem hardfork_rules_witness:
  "\<exists>db'. process_hardforks example_late_db = Inr db' \<and> hpo_last_hardfork (db_hardfork db') = 1"
proof -
  have "hardfork_wf (db_hardfork example_late_db)" "hpo_last_hardfork (db_hardfork example_late_db) = 0"
    "SIGMAENGINE_HARDFORK_0_1_TIME \<le> head_block_time example_late_db"
    by (simp_all add: hardfork_wf_def hardfork_times_def hardfork_versions_def hardfork_version_of_def mk_version_def hardfork_consts slot_eval economy_eval)
  with hardfork_rules [OF this(1)] show ?thesis by auto
qed

end
