(* ===== verification/Schedule.thy ===== *)
theory Schedule
  imports Slots
begin

text \<open>
  The producer schedule of \<^verbatim>\<open>bobserver_schedule.cpp\<close>: every 21 blocks the observers that were excepted
  lose their key, up to 17 producers and then other observers with a key are selected, the votes on
  versions and hardforks are counted, and the schedule is written and shuffled. The theorems: the
  schedule has a place for each selected observer and no other, nobody is scheduled twice,
  everybody scheduled has a key, and a hardfork is voted exactly by its majority.
\<close>

section \<open>The shuffle\<close>

definition xorshift_factor :: "64 word" where "xorshift_factor = 2685821657736338717"

definition shuffle_hash :: "64 word \<Rightarrow> nat \<Rightarrow> 64 word" where
  "shuffle_hash now_hi i =
     (let k = now_hi + of_nat i * xorshift_factor;
          k = k XOR drop_bit 12 k;
          k = k XOR push_bit 25 k;
          k = k XOR drop_bit 27 k
      in k * xorshift_factor)"

definition now_hi :: "chain_db \<Rightarrow> 64 word" where
  "now_hi db = push_bit 32 (of_nat (head_block_time db))"

definition swap_at :: "nat \<Rightarrow> nat \<Rightarrow> 'a list \<Rightarrow> 'a list" where
  "swap_at i j xs = xs[i := xs ! j, j := xs ! i]"

definition shuffle_step :: "64 word \<Rightarrow> nat \<Rightarrow> 'a list \<Rightarrow> nat \<Rightarrow> 'a list" where
  "shuffle_step hi n xs i =
     (let jmax = n - i;
          j = i + unat (shuffle_hash hi i) mod jmax
      in swap_at i j xs)"

definition shuffle :: "64 word \<Rightarrow> nat \<Rightarrow> 'a list \<Rightarrow> 'a list" where
  "shuffle hi n xs = foldl (shuffle_step hi n) xs [0..<n]"

section \<open>Selecting the producers\<close>

text \<open>The index \<^verbatim>\<open>by_is_bp\<close>: producers first, each group in the order of names; and \<^verbatim>\<open>by_name\<close>.\<close>

definition by_is_bp :: "chain_db \<Rightarrow> bobserver_object list" where
  "by_is_bp db = sort_key (\<lambda>b. (\<not> bo_is_bproducer b, bo_account b)) (tb_rows (db_bobservers db))"

definition by_bobserver_name :: "chain_db \<Rightarrow> bobserver_object list" where
  "by_bobserver_name db = sort_key bo_account (tb_rows (db_bobservers db))"

definition shut_down :: "chain_db \<Rightarrow> bobserver_object \<Rightarrow> chain_db result" where
  "shut_down db b =
     (if bo_is_excepted b \<and> bo_signing_key b \<noteq> 0
      then push_virtual_operation (Shutdown_bobserver (bo_account b)) (modify_bobserver (bo_id b) (\<lambda>o'. o'\<lparr>bo_signing_key := 0\<rparr>) db)
      else Inr db)"

definition shut_down_excepted :: "chain_db \<Rightarrow> chain_db result" where
  "shut_down_excepted db = foldR shut_down db (by_is_bp db)"

fun select_bp :: "nat \<Rightarrow> bobserver_object list \<Rightarrow> bobserver_object list \<Rightarrow> bobserver_object list" where
  "select_bp max_voted selected [] = selected"
| "select_bp max_voted selected (b # bs) =
     (if length selected < max_voted
      then if bo_signing_key b = 0 \<or> \<not> bo_is_bproducer b then select_bp max_voted selected bs
           else select_bp max_voted (selected @ [b]) bs
      else selected)"

definition available_bobservers :: "bobserver_object list \<Rightarrow> chain_db \<Rightarrow> account_name_type list" where
  "available_bobservers selected db =
     map bo_account (filter (\<lambda>b. bo_signing_key b \<noteq> 0 \<and> bo_id b \<notin> bo_id ` set selected) (by_bobserver_name db))"

text \<open>
  The walk to position \<^verbatim>\<open>temp_index[index]\<close> of the available names, and the check that the observer
  found there has not been selected before.
\<close>

definition pick ::
  "chain_db \<Rightarrow> account_name_type list \<Rightarrow> nat list \<Rightarrow> account_name_type list \<times> nat list \<Rightarrow> nat
     \<Rightarrow> (account_name_type list \<times> nat list) result" where
  "pick db available temp_index am index =
     (let j = temp_index ! index in
      if j < length available then
        bindR (get_bobserver (available ! j) db) (\<lambda>itr.
        if bo_id itr \<in> set (snd am) then Inr am
        else Inr (fst am @ [bo_account itr], snd am @ [bo_id itr]))
      else Inr am)"

definition select_active :: "chain_db \<Rightarrow> account_name_type list result" where
  "select_active db =
     (let selected = select_bp (wso_max_voted_bobservers (db_schedule db)) [] (by_is_bp db);
          active = map bo_account selected;
          available = available_bobservers selected db;
          sigma_num = length available;
          max_num = min ((SIGMAENGINE_NUM_BOBSERVERS + 2 ^ 32 - length active) mod 2 ^ 32) sigma_num
      in if sigma_num > 0
         then bindR (foldR (pick db available (shuffle (now_hi db) sigma_num [0..<sigma_num])) (active, []) [0..<max_num]) (\<lambda>am.
              Inr (fst am))
         else Inr active)"

section \<open>Counting the votes\<close>

definition count_vote :: "'k::linorder \<Rightarrow> ('k \<times> nat) list \<Rightarrow> ('k \<times> nat) list" where
  "count_vote v m = flat_map_put v (case map_of m v of None \<Rightarrow> 1 | Some c \<Rightarrow> c + 1) m"

definition scheduled_bobservers :: "chain_db \<Rightarrow> bobserver_object list result" where
  "scheduled_bobservers db =
     foldR (\<lambda>bs i. bindR (get_bobserver (wso_current_shuffled_bobservers (db_schedule db) ! i) db) (\<lambda>b. Inr (bs @ [b]))) []
       [0..<wso_num_scheduled_bobservers (db_schedule db)]"

definition version_votes :: "bobserver_object list \<Rightarrow> (version \<times> nat) list" where
  "version_votes bs = foldl (\<lambda>m b. count_vote (bo_running_version b) m) [] bs"

definition hardfork_votes :: "bobserver_object list \<Rightarrow> ((hardfork_version \<times> time_point_sec) \<times> nat) list" where
  "hardfork_votes bs = foldl (\<lambda>m b. count_vote (bo_hardfork_version_vote b, bo_hardfork_time_vote b) m) [] bs"

text \<open>The map of versions is ordered by \<^verbatim>\<open>std::greater\<close>: it is walked from the highest version down.\<close>

fun majority_of :: "nat \<Rightarrow> version \<Rightarrow> nat \<Rightarrow> (version \<times> nat) list \<Rightarrow> version" where
  "majority_of required old on_version [] = old"
| "majority_of required old on_version ((v, c) # m) =
     (if on_version + c \<ge> required then v else majority_of required old (on_version + c) m)"

definition vote_hardfork :: "bobserver_object list \<Rightarrow> chain_db \<Rightarrow> chain_db" where
  "vote_hardfork bs db =
     (case find (\<lambda>(v, c). c \<ge> wso_hardfork_required_bobservers (db_schedule db)) (hardfork_votes bs) of
        Some ((v, t), c) \<Rightarrow>
          (if hpo_next_hardfork (db_hardfork db) \<noteq> v \<or> hpo_next_hardfork_time (db_hardfork db) \<noteq> t
           then db\<lparr>db_hardfork := (db_hardfork db)\<lparr>hpo_next_hardfork := v, hpo_next_hardfork_time := t\<rparr>\<rparr>
           else db)
      | None \<Rightarrow> db\<lparr>db_hardfork := (db_hardfork db)\<lparr>hpo_next_hardfork := hpo_current_hardfork_version (db_hardfork db)\<rparr>\<rparr>)"

section \<open>Writing the schedule\<close>

definition write_schedule :: "account_name_type list \<Rightarrow> version \<Rightarrow> chain_db \<Rightarrow> chain_db" where
  "write_schedule active majority_version db =
     (let shuffled = active @ replicate (SIGMAENGINE_NUM_BOBSERVERS - length active) [];
          num = max (length active mod 2 ^ 8) 1
      in db\<lparr>db_schedule := (db_schedule db)\<lparr>
           wso_current_shuffled_bobservers := shuffle (now_hi db) num shuffled,
           wso_num_scheduled_bobservers := num,
           wso_next_shuffle_block_num := (head_block_num db + num) mod 2 ^ 32,
           wso_majority_version := majority_version\<rparr>\<rparr>)"

definition update_bobserver_schedule4 :: "chain_db \<Rightarrow> chain_db result" where
  "update_bobserver_schedule4 db =
     bindR (shut_down_excepted db) (\<lambda>db.
     bindR (select_active db) (\<lambda>active.
     bindR (scheduled_bobservers db) (\<lambda>bs.
     let majority = majority_of (wso_hardfork_required_bobservers (db_schedule db)) (wso_majority_version (db_schedule db)) 0
                      (rev (version_votes bs))
     in Inr (write_schedule active majority (vote_hardfork bs db)))))"

definition update_bobserver_schedule :: "chain_db \<Rightarrow> chain_db result" where
  "update_bobserver_schedule db =
     (if head_block_num db mod SIGMAENGINE_NUM_BOBSERVERS = 0 then update_bobserver_schedule4 db else Inr db)"

section \<open>Shuffling permutes\<close>

lemma shuffle_perm_length:
  "m \<le> n \<Longrightarrow> n \<le> length xs \<Longrightarrow>
     length (foldl (shuffle_step hi n) xs [0..<m]) = length xs
     \<and> mset (take n (foldl (shuffle_step hi n) xs [0..<m])) = mset (take n xs)
     \<and> drop n (foldl (shuffle_step hi n) xs [0..<m]) = drop n xs"
proof (induction m)
  case (Suc m)
  let ?ys = "foldl (shuffle_step hi n) xs [0..<m]"
  let ?j = "m + unat (shuffle_hash hi m) mod (n - m)"
  have IH: "length ?ys = length xs" "mset (take n ?ys) = mset (take n xs)" "drop n ?ys = drop n xs" using Suc by auto
  have "unat (shuffle_hash hi m) mod (n - m) < n - m" using Suc.prems by simp
  then have j: "m < n" "?j < n" using Suc.prems by linarith+
  then have len: "m < length (take n ?ys)" "?j < length (take n ?ys)" using IH Suc.prems by auto
  have "take n (swap_at m ?j ?ys) = (take n ?ys)[m := take n ?ys ! ?j, ?j := take n ?ys ! m]"
    using j by (simp add: swap_at_def take_update_swap)
  with mset_swap [OF len(2,1)] have "mset (take n (swap_at m ?j ?ys)) = mset (take n ?ys)" by simp
  moreover have "drop n (swap_at m ?j ?ys) = drop n ?ys" using j by (simp add: swap_at_def)
  moreover have "length (swap_at m ?j ?ys) = length ?ys" by (simp add: swap_at_def)
  moreover have "foldl (shuffle_step hi n) xs [0..<Suc m] = shuffle_step hi n ?ys m" by simp
  moreover have "shuffle_step hi n ?ys m = swap_at m ?j ?ys" by (simp only: shuffle_step_def Let_def)
  ultimately show ?case using IH by simp
qed simp

lemma shuffle_perm:
  assumes "n \<le> length xs"
  shows "length (shuffle hi n xs) = length xs" "mset (take n (shuffle hi n xs)) = mset (take n xs)" "drop n (shuffle hi n xs) = drop n xs"
  using shuffle_perm_length [OF le_refl assms] by (simp_all add: shuffle_def)

lemma shuffle_indices: "mset (shuffle hi n [0..<n]) = mset [0..<n]"
  using shuffle_perm(1,2) [of n "[0..<n]" hi] by simp

section \<open>Who is selected\<close>

definition observers_wf :: "chain_db \<Rightarrow> bool" where
  "observers_wf db \<longleftrightarrow> distinct (map bo_id (tb_rows (db_bobservers db))) \<and> distinct (map bo_account (tb_rows (db_bobservers db)))"

definition silence :: "bobserver_object \<Rightarrow> bobserver_object" where
  "silence b = (if bo_is_excepted b then b\<lparr>bo_signing_key := 0\<rparr> else b)"

lemma silence_simps [simp]: "bo_id (silence b) = bo_id b" "bo_account (silence b) = bo_account b"
  "bo_is_bproducer (silence b) = bo_is_bproducer b"
  "bo_signing_key (silence b) = (if bo_is_excepted b then 0 else bo_signing_key b)"
  by (simp_all add: silence_def)

definition silenced_by :: "bobserver_object list \<Rightarrow> bobserver_object \<Rightarrow> bobserver_object" where
  "silenced_by bs r = (if \<exists>b \<in> set bs. bo_id b = bo_id r \<and> bo_is_excepted b \<and> bo_signing_key b \<noteq> 0 then r\<lparr>bo_signing_key := 0\<rparr> else r)"

lemma silenced_by_Cons:
  "silenced_by (b # bs) r = silenced_by bs
     (if bo_id r = bo_id b \<and> bo_is_excepted b \<and> bo_signing_key b \<noteq> 0 then r\<lparr>bo_signing_key := 0\<rparr> else r)"
  by (auto simp: silenced_by_def)

lemma shut_down_fold:
  "\<exists>t vo. foldR shut_down db bs = Inr (db\<lparr>db_bobservers := t, db_virtual_ops := vo\<rparr>)
     \<and> tb_next t = tb_next (db_bobservers db) \<and> tb_rows t = map (silenced_by bs) (tb_rows (db_bobservers db))"
proof (induction bs arbitrary: db)
  case Nil
  have "db = db\<lparr>db_bobservers := db_bobservers db, db_virtual_ops := db_virtual_ops db\<rparr>" by simp
  then show ?case by (intro exI [of _ "db_bobservers db"] exI [of _ "db_virtual_ops db"]) (simp add: silenced_by_def)
next
  case (Cons b bs)
  show ?case
  proof (cases "bo_is_excepted b \<and> bo_signing_key b \<noteq> 0")
    case True
    let ?d = "(modify_bobserver (bo_id b) (\<lambda>o'. o'\<lparr>bo_signing_key := 0\<rparr>) db)\<lparr>db_virtual_ops := Shutdown_bobserver (bo_account b) # db_virtual_ops db\<rparr>"
    have step: "shut_down db b = Inr ?d" using True by (simp add: shut_down_def push_virtual_operation_def modify_bobserver_def)
    from Cons [of ?d] obtain t vo where t: "foldR shut_down ?d bs = Inr (?d\<lparr>db_bobservers := t, db_virtual_ops := vo\<rparr>)"
      "tb_next t = tb_next (db_bobservers ?d)" "tb_rows t = map (silenced_by bs) (tb_rows (db_bobservers ?d))" by blast
    have "?d\<lparr>db_bobservers := t, db_virtual_ops := vo\<rparr> = db\<lparr>db_bobservers := t, db_virtual_ops := vo\<rparr>" by (simp add: modify_bobserver_def)
    moreover have "tb_rows t = map (silenced_by (b # bs)) (tb_rows (db_bobservers db))"
      using True by (simp add: t(3) modify_bobserver_def table_modify_def modify_where_def silenced_by_Cons)
    moreover have "tb_next t = tb_next (db_bobservers db)" using t(2) by (simp add: modify_bobserver_def table_modify_def)
    ultimately show ?thesis using step t(1) by (intro exI [of _ t] exI [of _ vo]) simp
  next
    case False
    then have "shut_down db b = Inr db" "silenced_by (b # bs) = silenced_by bs" by (auto simp: shut_down_def silenced_by_Cons fun_eq_iff)
    with Cons [of db] show ?thesis by simp
  qed
qed

lemma shut_down_excepted_ok:
  assumes "observers_wf db"
  shows "\<exists>t vo. shut_down_excepted db = Inr (db\<lparr>db_bobservers := t, db_virtual_ops := vo\<rparr>)
     \<and> tb_next t = tb_next (db_bobservers db) \<and> tb_rows t = map silence (tb_rows (db_bobservers db))"
proof -
  let ?R = "tb_rows (db_bobservers db)"
  have "silenced_by (by_is_bp db) r = silence r" if "r \<in> set ?R" for r
  proof -
    have "b = r" if "b \<in> set ?R" "bo_id b = bo_id r" for b
      using assms that \<open>r \<in> set ?R\<close> by (auto simp: observers_wf_def distinct_map dest: inj_onD)
    with that have "(\<exists>b \<in> set (by_is_bp db). bo_id b = bo_id r \<and> bo_is_excepted b \<and> bo_signing_key b \<noteq> 0) \<longleftrightarrow> bo_is_excepted r \<and> bo_signing_key r \<noteq> 0"
      by (auto simp: by_is_bp_def)
    then show ?thesis by (cases "bo_signing_key r = 0") (simp_all add: silence_def silenced_by_def)
  qed
  then have "map (silenced_by (by_is_bp db)) ?R = map silence ?R" by simp
  with shut_down_fold [of db "by_is_bp db"] show ?thesis by (simp add: shut_down_excepted_def)
qed

definition eligible :: "bobserver_object \<Rightarrow> bool" where
  "eligible b \<longleftrightarrow> bo_signing_key b \<noteq> 0 \<and> bo_is_bproducer b"

lemma select_bp_take:
  "length sel \<le> mv \<Longrightarrow> select_bp mv sel bs = sel @ take (mv - length sel) (filter eligible bs)"
proof (induction bs arbitrary: sel)
  case (Cons b bs)
  show ?case
  proof (cases "length sel < mv")
    case True
    then have "mv - length sel = Suc (mv - Suc (length sel))" by simp
    with Cons True show ?thesis by (auto simp: eligible_def)
  next
    case False
    with Cons.prems show ?thesis by simp
  qed
qed simp

lemma get_bobserver_row:
  assumes "observers_wf db" "b \<in> set (tb_rows (db_bobservers db))"
  shows "get_bobserver (bo_account b) db = Inr b"
proof -
  obtain c where c: "find (\<lambda>x. bo_account x = bo_account b) (tb_rows (db_bobservers db)) = Some c"
    using assms(2) by (cases "find (\<lambda>x. bo_account x = bo_account b) (tb_rows (db_bobservers db))") (auto simp: find_None_iff)
  then have "c \<in> set (tb_rows (db_bobservers db))" "bo_account c = bo_account b" by (auto dest: find_Some_mem)
  then have "c = b" using assms by (auto simp: observers_wf_def distinct_map dest: inj_onD)
  with c show ?thesis by (simp add: get_bobserver_def find_bobserver_def table_find_def of_option_def)
qed

lemma pick_fold:
  assumes wf: "observers_wf db" and bs: "set bs \<subseteq> set (tb_rows (db_bobservers db))" "distinct bs"
    and t: "distinct t" "\<forall>j \<in> set t. j < length bs" "m \<le> length t"
  shows "foldR (pick db (map bo_account bs) t) (active, []) [0..<m]
     = Inr (active @ map (\<lambda>i. bo_account (bs ! (t ! i))) [0..<m], map (\<lambda>i. bo_id (bs ! (t ! i))) [0..<m])"
  using t(3)
proof (induction m)
  case (Suc m)
  let ?am = "(active @ map (\<lambda>i. bo_account (bs ! (t ! i))) [0..<m], map (\<lambda>i. bo_id (bs ! (t ! i))) [0..<m])"
  have run: "foldR (pick db (map bo_account bs) t) (active, []) [0..<m] = Inr ?am" using Suc by simp
  have j: "t ! m < length bs" using Suc.prems t(2) by simp
  have mem: "bs ! (t ! m) \<in> set (tb_rows (db_bobservers db))" using j bs(1) by (meson nth_mem subsetD)
  have fresh: "bo_id (bs ! (t ! m)) \<noteq> bo_id (bs ! (t ! i))" if "i < m" for i
  proof
    assume eq: "bo_id (bs ! (t ! m)) = bo_id (bs ! (t ! i))"
    have i: "t ! i < length bs" using that Suc.prems t(2) by simp
    then have "bs ! (t ! i) \<in> set (tb_rows (db_bobservers db))" using bs(1) by (meson nth_mem subsetD)
    with eq mem wf have "bs ! (t ! m) = bs ! (t ! i)" by (auto simp: observers_wf_def distinct_map dest: inj_onD)
    then have "t ! m = t ! i" using i j bs(2) by (simp add: nth_eq_iff_index_eq)
    with that Suc.prems t(1) show False by (simp add: nth_eq_iff_index_eq)
  qed
  have "pick db (map bo_account bs) t ?am m
      = Inr (fst ?am @ [bo_account (bs ! (t ! m))], snd ?am @ [bo_id (bs ! (t ! m))])"
    using j get_bobserver_row [OF wf mem] by (auto simp: pick_def Let_def dest: fresh)
  then show ?case using run by (simp add: foldR_append)
qed simp

definition keyed :: "bobserver_object \<Rightarrow> bool" where
  "keyed b \<longleftrightarrow> bo_signing_key b \<noteq> 0"

lemma select_active_ok:
  assumes wf: "observers_wf db" and mv: "wso_max_voted_bobservers (db_schedule db) \<le> SIGMAENGINE_NUM_BOBSERVERS"
  defines "R \<equiv> tb_rows (db_bobservers db)"
  shows "\<exists>sel. select_active db = Inr (map bo_account sel) \<and> distinct sel \<and> set sel \<subseteq> {b \<in> set R. keyed b}
     \<and> length sel = min SIGMAENGINE_NUM_BOBSERVERS (length (filter keyed R))
     \<and> set (take (wso_max_voted_bobservers (db_schedule db)) (filter eligible (by_is_bp db))) \<subseteq> set sel"
proof -
  define chosen where "chosen = take (wso_max_voted_bobservers (db_schedule db)) (filter eligible (by_is_bp db))"
  define bs where "bs = filter (\<lambda>b. bo_signing_key b \<noteq> 0 \<and> bo_id b \<notin> bo_id ` set chosen) (by_bobserver_name db)"
  define t where "t = shuffle (now_hi db) (length bs) [0..<length bs]"
  define m where "m = min (SIGMAENGINE_NUM_BOBSERVERS - length chosen) (length bs)"
  have R: "distinct R" using wf by (simp add: observers_wf_def R_def distinct_map)
  have inj: "x = y" if "x \<in> set R" "y \<in> set R" "bo_id x = bo_id y" for x y
    using wf that by (auto simp: observers_wf_def R_def distinct_map dest: inj_onD)
  have cs: "select_bp (wso_max_voted_bobservers (db_schedule db)) [] (by_is_bp db) = chosen"
    by (simp add: select_bp_take chosen_def)
  have ch: "distinct chosen" "set chosen \<subseteq> {b \<in> set R. keyed b}"
    using R by (auto simp: chosen_def by_is_bp_def R_def keyed_def eligible_def dest!: in_set_takeD)
  have bs: "distinct bs" "set bs = {b \<in> set R. keyed b} - set chosen"
    using R ch(2) inj by (auto simp: bs_def by_bobserver_name_def R_def keyed_def)
  have perm: "mset t = mset [0..<length bs]" unfolding t_def by (rule shuffle_indices)
  have t: "distinct t" "set t = {0..<length bs}" "length t = length bs"
    using perm mset_eq_imp_distinct_iff [OF perm] mset_eq_setD [OF perm] mset_eq_length [OF perm] by simp_all
  have "length chosen \<le> SIGMAENGINE_NUM_BOBSERVERS" using mv by (simp add: chosen_def)
  then have m: "min ((SIGMAENGINE_NUM_BOBSERVERS + 2 ^ 32 - length chosen) mod 2 ^ 32) (length bs) = m"
    by (simp add: m_def SIGMAENGINE_NUM_BOBSERVERS_def mod_if)
  define sel where "sel = chosen @ map (\<lambda>i. bs ! (t ! i)) [0..<m]"
  have "foldR (pick db (map bo_account bs) t) (map bo_account chosen, []) [0..<m]
     = Inr (map bo_account chosen @ map (\<lambda>i. bo_account (bs ! (t ! i))) [0..<m], map (\<lambda>i. bo_id (bs ! (t ! i))) [0..<m])"
    by (rule pick_fold [OF wf]) (use bs t in \<open>auto simp: R_def m_def\<close>)
  then have run: "select_active db = Inr (map bo_account sel)"
    unfolding select_active_def Let_def cs available_bobservers_def bs_def [symmetric] length_map t_def [symmetric] m
    by (simp add: sel_def m_def comp_def)
  have nth: "t ! i < length bs" if "i < m" for i using that t nth_mem [of i t] by (simp add: m_def)
  have dist: "distinct (map (\<lambda>i. bs ! (t ! i)) [0..<m])"
    using nth t bs(1) by (auto simp: distinct_map inj_on_def nth_eq_iff_index_eq m_def)
  have sub: "set (map (\<lambda>i. bs ! (t ! i)) [0..<m]) \<subseteq> set bs" using nth by auto
  have "length (filter keyed R) = length chosen + length bs"
  proof -
    have "length (filter keyed R) = card {b \<in> set R. keyed b}" using R by (metis distinct_card distinct_filter set_filter)
    also have "\<dots> = card (set chosen \<union> set bs)" using ch(2) bs(2) by (intro arg_cong [of _ _ card]) auto
    also have "\<dots> = card (set chosen) + card (set bs)" using bs(2) by (intro card_Un_disjoint) auto
    finally show ?thesis using ch(1) bs(1) by (simp add: distinct_card)
  qed
  then have len: "length sel = min SIGMAENGINE_NUM_BOBSERVERS (length (filter keyed R))"
    using \<open>length chosen \<le> SIGMAENGINE_NUM_BOBSERVERS\<close> by (simp add: sel_def m_def)
  have "distinct sel" using ch(1) dist sub bs(2) by (auto simp: sel_def)
  moreover have "set sel \<subseteq> {b \<in> set R. keyed b}" using ch(2) sub bs(2) by (auto simp: sel_def)
  ultimately show ?thesis using run len by (intro exI [of _ sel]) (auto simp: sel_def chosen_def)
qed

section \<open>The new schedule\<close>

definition schedule_ok :: "chain_db \<Rightarrow> bool" where
  "schedule_ok db \<longleftrightarrow> schedule_wf (db_schedule db)
     \<and> (\<forall>name \<in> set (take (wso_num_scheduled_bobservers (db_schedule db)) (wso_current_shuffled_bobservers (db_schedule db))).
          name \<in> bo_account ` set (tb_rows (db_bobservers db)))"

lemma scheduled_bobservers_ok:
  assumes "observers_wf db" "schedule_ok db"
  shows "\<exists>bs. scheduled_bobservers db = Inr bs
     \<and> map bo_account bs = take (wso_num_scheduled_bobservers (db_schedule db)) (wso_current_shuffled_bobservers (db_schedule db))
     \<and> set bs \<subseteq> set (tb_rows (db_bobservers db))"
proof -
  let ?A = "wso_current_shuffled_bobservers (db_schedule db)" and ?n = "wso_num_scheduled_bobservers (db_schedule db)"
  have n: "?n \<le> length ?A" using assms(2) by (simp add: schedule_ok_def schedule_wf_def)
  have "\<exists>bs. foldR (\<lambda>bs i. bindR (get_bobserver (?A ! i) db) (\<lambda>b. Inr (bs @ [b]))) [] [0..<m] = Inr bs
     \<and> map bo_account bs = take m ?A \<and> set bs \<subseteq> set (tb_rows (db_bobservers db))" if "m \<le> ?n" for m
    using that
  proof (induction m)
    case (Suc m)
    then obtain bs where bs: "foldR (\<lambda>bs i. bindR (get_bobserver (?A ! i) db) (\<lambda>b. Inr (bs @ [b]))) [] [0..<m] = Inr bs"
      "map bo_account bs = take m ?A" "set bs \<subseteq> set (tb_rows (db_bobservers db))" by auto
    have "?A ! m \<in> set (take ?n ?A)" using nth_mem [of m "take ?n ?A"] Suc.prems n by simp
    with assms(2) obtain b where b: "b \<in> set (tb_rows (db_bobservers db))" "bo_account b = ?A ! m" by (auto simp: schedule_ok_def)
    with bs get_bobserver_row [OF assms(1) b(1)] Suc.prems n show ?case
      by (intro exI [of _ "bs @ [b]"]) (simp add: foldR_append take_Suc_conv_app_nth)
  qed simp
  then show ?thesis by (simp add: scheduled_bobservers_def)
qed

lemma vote_hardfork_frame: "\<exists>h. vote_hardfork bs db = db\<lparr>db_hardfork := h\<rparr>"
proof -
  have same: "db\<lparr>db_hardfork := db_hardfork db\<rparr> = db" by simp
  show ?thesis
  proof (cases "find (\<lambda>(v, c). c \<ge> wso_hardfork_required_bobservers (db_schedule db)) (hardfork_votes bs)")
    case None
    then show ?thesis by (simp add: vote_hardfork_def) blast
  next
    case (Some vc)
    obtain v t c where "vc = ((v, t), c)" by (metis surj_pair)
    with Some same show ?thesis unfolding vote_hardfork_def by (simp only: option.case prod.case) metis
  qed
qed

lemma write_schedule_places:
  assumes "length active \<le> SIGMAENGINE_NUM_BOBSERVERS" "db' = write_schedule active v db"
  defines "num \<equiv> wso_num_scheduled_bobservers (db_schedule db')"
  shows "schedule_wf (db_schedule db')" "num = max 1 (length active)"
    "active \<noteq> [] \<Longrightarrow> mset (take num (wso_current_shuffled_bobservers (db_schedule db'))) = mset active"
proof -
  have small: "length active mod 256 = length active" using assms(1) by (simp add: SIGMAENGINE_NUM_BOBSERVERS_def)
  show num: "num = max 1 (length active)"
    by (simp add: num_def assms(2) write_schedule_def Let_def small max.commute)
  let ?A = "active @ replicate (SIGMAENGINE_NUM_BOBSERVERS - length active) []"
  have A: "wso_current_shuffled_bobservers (db_schedule db') = shuffle (now_hi db) num ?A"
    by (simp add: num_def assms(2) write_schedule_def Let_def)
  have le: "num \<le> length ?A" using assms(1) by (simp add: num SIGMAENGINE_NUM_BOBSERVERS_def)
  show "schedule_wf (db_schedule db')"
    using shuffle_perm(1) [OF le] assms(1) by (simp add: schedule_wf_def A num_def [symmetric] num SIGMAENGINE_NUM_BOBSERVERS_def)
  assume "active \<noteq> []"
  then have "take num ?A = active" by (simp add: num max_def Suc_le_eq)
  then show "mset (take num (wso_current_shuffled_bobservers (db_schedule db'))) = mset active"
    using shuffle_perm(2) [OF le] by (simp add: A)
qed

lemma keyed_silence: "filter keyed (map silence bs) = filter (\<lambda>b. bo_signing_key b \<noteq> 0 \<and> \<not> bo_is_excepted b) bs"
  by (induction bs) (auto simp: keyed_def silence_def)

lemma eligible_silence: "filter eligible (map silence bs) = filter bo_is_bproducer (filter keyed (map silence bs))"
  by (induction bs) (auto simp: keyed_def eligible_def)

text \<open>
  C31: As long as some observer has a key and is not excepted, computing the schedule succeeds and gives
  a schedule of \<open>min 21 k\<close> places, \<open>k\<close> being the number of such observers, in which nobody has two
  places and everybody is such an observer; every such producer has a place when there are no more
  producers than the limit. The next computation finds every scheduled observer again.
\<close>

theorem schedule_places:
  assumes "observers_wf db" "schedule_ok db" "wso_max_voted_bobservers (db_schedule db) \<le> SIGMAENGINE_NUM_BOBSERVERS"
  defines "able \<equiv> filter (\<lambda>b. bo_signing_key b \<noteq> 0 \<and> \<not> bo_is_excepted b) (tb_rows (db_bobservers db))"
  assumes "able \<noteq> []"
  shows "\<exists>db' names. update_bobserver_schedule4 db = Inr db' \<and> observers_wf db' \<and> schedule_ok db'
     \<and> names = take (wso_num_scheduled_bobservers (db_schedule db')) (wso_current_shuffled_bobservers (db_schedule db'))
     \<and> length names = min SIGMAENGINE_NUM_BOBSERVERS (length able) \<and> distinct names
     \<and> set names \<subseteq> bo_account ` set able
     \<and> (length (filter bo_is_bproducer able) \<le> wso_max_voted_bobservers (db_schedule db)
        \<longrightarrow> bo_account ` set (filter bo_is_bproducer able) \<subseteq> set names)"
proof -
  let ?R = "tb_rows (db_bobservers db)" and ?mv = "wso_max_voted_bobservers (db_schedule db)"
  from shut_down_excepted_ok [OF assms(1)] obtain t vo where
    d: "shut_down_excepted db = Inr (db\<lparr>db_bobservers := t, db_virtual_ops := vo\<rparr>)" and t: "tb_rows t = map silence ?R" by blast
  define d1 where "d1 = db\<lparr>db_bobservers := t, db_virtual_ops := vo\<rparr>"
  have d1: "tb_rows (db_bobservers d1) = map silence ?R" "db_schedule d1 = db_schedule db" by (simp_all add: d1_def t)
  have wf1: "observers_wf d1" using assms(1) by (simp add: observers_wf_def d1 comp_def)
  have ok1: "schedule_ok d1" using assms(2) by (auto simp: schedule_ok_def d1 image_image)
  have keyed: "filter keyed (map silence ?R) = able" unfolding able_def by (rule keyed_silence)
  from select_active_ok [OF wf1] assms(3) obtain sel where sel: "select_active d1 = Inr (map bo_account sel)" "distinct sel"
    "set sel \<subseteq> set able" "length sel = min SIGMAENGINE_NUM_BOBSERVERS (length able)"
    "set (take ?mv (filter eligible (by_is_bp d1))) \<subseteq> set sel"
    unfolding d1 keyed by (auto simp: keyed [symmetric])
  from scheduled_bobservers_ok [OF wf1 ok1] obtain bs where bs: "scheduled_bobservers d1 = Inr bs" by blast
  define v where "v = majority_of (wso_hardfork_required_bobservers (db_schedule d1)) (wso_majority_version (db_schedule d1)) 0 (rev (version_votes bs))"
  define db' where "db' = write_schedule (map bo_account sel) v (vote_hardfork bs d1)"
  have run: "update_bobserver_schedule4 db = Inr db'"
    using d sel(1) bs by (simp add: update_bobserver_schedule4_def d1_def [symmetric] Let_def v_def db'_def)
  obtain h where h: "vote_hardfork bs d1 = d1\<lparr>db_hardfork := h\<rparr>" using vote_hardfork_frame by blast
  have obs: "db_bobservers db' = db_bobservers d1" by (simp add: db'_def h write_schedule_def Let_def)
  define names where "names = take (wso_num_scheduled_bobservers (db_schedule db')) (wso_current_shuffled_bobservers (db_schedule db'))"
  have "sel \<noteq> []" using sel(4) assms(5) by (cases able) (auto simp: SIGMAENGINE_NUM_BOBSERVERS_def)
  note places = write_schedule_places [OF _ db'_def]
  have le: "length (map bo_account sel) \<le> SIGMAENGINE_NUM_BOBSERVERS" using sel(4) by simp
  have perm: "mset names = mset (map bo_account sel)" unfolding names_def by (rule places(3) [OF le]) (simp add: \<open>sel \<noteq> []\<close>)
  have sub: "set able \<subseteq> set ?R" by (auto simp: able_def)
  have "inj_on bo_account (set sel)"
    using assms(1) subset_trans [OF sel(3) sub] by (auto simp: observers_wf_def distinct_map intro: inj_on_subset)
  then have dist: "distinct names" using sel(2) mset_eq_imp_distinct_iff [OF perm] by (simp add: distinct_map)
  have set: "set names = bo_account ` set sel" using mset_eq_setD [OF perm] by simp
  have len: "length names = length sel" using mset_eq_length [OF perm] by simp
  have "set names \<subseteq> bo_account ` set (tb_rows (db_bobservers db'))"
    unfolding set obs d1 set_map image_image silence_simps using sel(3) sub by blast
  then have "schedule_ok db'" using places(1) [OF le] by (auto simp: schedule_ok_def names_def)
  moreover have "observers_wf db'" using wf1 by (simp add: observers_wf_def obs)
  moreover have "bo_account ` set (filter bo_is_bproducer able) \<subseteq> set names" if "length (filter bo_is_bproducer able) \<le> ?mv"
  proof -
    have el: "filter eligible (map silence ?R) = filter bo_is_bproducer able" by (simp only: eligible_silence keyed)
    have "mset (filter eligible (by_is_bp d1)) = mset (filter eligible (map silence ?R))"
      unfolding by_is_bp_def d1 mset_filter mset_sort ..
    then have "length (filter eligible (by_is_bp d1)) = length (filter bo_is_bproducer able)"
      "set (filter eligible (by_is_bp d1)) = set (filter bo_is_bproducer able)"
      unfolding el by (rule mset_eq_length, rule mset_eq_setD)
    then show ?thesis using sel(5) that by (auto simp: set)
  qed
  moreover have "set names \<subseteq> bo_account ` set able" using sel(3) by (auto simp: set)
  ultimately show ?thesis using run dist len sel(4)
    by (intro exI [of _ db'] exI [of _ names]) (simp add: names_def [symmetric])
qed

section \<open>The votes\<close>

definition tally :: "('a \<Rightarrow> 'k) \<Rightarrow> 'k \<Rightarrow> 'a list \<Rightarrow> nat" where
  "tally f v bs = length (filter (\<lambda>b. f b = v) bs)"

definition counted :: "('k \<times> nat) list \<Rightarrow> 'k \<Rightarrow> nat" where
  "counted m v = (case map_of m v of None \<Rightarrow> 0 | Some c \<Rightarrow> c)"

lemma wf_count_vote:
  assumes "sorted (map fst m)" "distinct (map fst m)"
  shows "sorted (map fst (count_vote v m))" "distinct (map fst (count_vote v m))" "counted (count_vote v m) w = counted m w + (if w = v then 1 else 0)"
  using sorted_flat_map_put [of m v] assms
  by (auto simp: count_vote_def counted_def map_of_flat_map_put split: option.splits)

lemma votes_counted:
  assumes "sorted (map fst m)" "distinct (map fst m)"
  shows "counted (foldl (\<lambda>m b. count_vote (f b) m) m bs) v = counted m v + tally f v bs
     \<and> distinct (map fst (foldl (\<lambda>m b. count_vote (f b) m) m bs))"
  using assms
proof (induction bs arbitrary: m)
  case (Cons b bs)
  note wf = wf_count_vote [OF Cons.prems]
  from Cons.IH [OF wf(1,2)] wf(3) show ?case by (auto simp: tally_def)
qed (simp add: tally_def)

lemma tally_le: "tally f v bs + (if w \<noteq> v then tally f w bs else 0) \<le> length bs"
  by (induction bs) (auto simp: tally_def split: if_splits)

definition hardfork_vote :: "bobserver_object \<Rightarrow> hardfork_version \<times> time_point_sec" where
  "hardfork_vote b = (bo_hardfork_version_vote b, bo_hardfork_time_vote b)"

lemma hardfork_votes_found:
  assumes "0 < req"
  shows "case find (\<lambda>(v, c). req \<le> c) (hardfork_votes bs) of
       Some (v, c) \<Rightarrow> req \<le> tally hardfork_vote v bs
     | None \<Rightarrow> (\<forall>v. tally hardfork_vote v bs < req)"
proof -
  have votes: "counted (hardfork_votes bs) v = tally hardfork_vote v bs \<and> distinct (map fst (hardfork_votes bs))" for v
    using votes_counted [of "[]" hardfork_vote bs v] by (simp add: hardfork_votes_def hardfork_vote_def [abs_def] counted_def)
  show ?thesis
  proof (cases "find (\<lambda>(v, c). req \<le> c) (hardfork_votes bs)")
    case None
    then have small: "c < req" if "(v, c) \<in> set (hardfork_votes bs)" for v c using that unfolding find_None_iff split_beta not_le [symmetric] by (metis snd_conv)
    have "tally hardfork_vote v bs < req" for v
      using votes [of v] small [of v] assms by (auto simp: counted_def split: option.splits dest: map_of_SomeD)
    then show ?thesis using None by simp
  next
    case (Some vc)
    then have "vc \<in> set (hardfork_votes bs)" "req \<le> snd vc" by (auto dest: find_Some_mem)
    then have "map_of (hardfork_votes bs) (fst vc) = Some (snd vc)" using votes by simp
    then have "counted (hardfork_votes bs) (fst vc) = snd vc" by (simp only: counted_def option.case)
    then have "tally hardfork_vote (fst vc) bs = snd vc" using votes [of "fst vc"] by (simp only:)
    with Some \<open>req \<le> snd vc\<close> show ?thesis by (simp add: split_beta)
  qed
qed

text \<open>
  When the number of votes a hardfork needs is more than half the schedule, the vote is decided
  by it: the version and time that this many scheduled observers ask for become the next hardfork,
  and when no pair reaches the number, the next hardfork is the one that is already applied.
\<close>

theorem hardfork_vote_majority:
  assumes "length bs < 2 * wso_hardfork_required_bobservers (db_schedule db)"
  defines "req \<equiv> wso_hardfork_required_bobservers (db_schedule db)" and "h \<equiv> db_hardfork (vote_hardfork bs db)"
  shows "if \<exists>v. req \<le> tally hardfork_vote v bs
     then (\<forall>v. req \<le> tally hardfork_vote v bs \<longleftrightarrow> v = (hpo_next_hardfork h, hpo_next_hardfork_time h))
     else hpo_next_hardfork h = hpo_current_hardfork_version (db_hardfork db)
       \<and> hpo_next_hardfork_time h = hpo_next_hardfork_time (db_hardfork db)"
proof (cases "find (\<lambda>(v, c). req \<le> c) (hardfork_votes bs)")
  case None
  have pos: "0 < req" using assms(1) by (simp add: req_def)
  have "\<not> (\<exists>v. req \<le> tally hardfork_vote v bs)" using hardfork_votes_found [OF pos, of bs] None by (simp add: not_le)
  then show ?thesis using None by (simp add: h_def vote_hardfork_def req_def)
next
  case (Some vc)
  have pos: "0 < req" using assms(1) by (simp add: req_def)
  obtain v t c where vc: "vc = ((v, t), c)" by (metis surj_pair)
  have vote: "req \<le> tally hardfork_vote (v, t) bs" using hardfork_votes_found [OF pos, of bs] Some vc by simp
  have "(hpo_next_hardfork h, hpo_next_hardfork_time h) = (v, t)"
    using Some vc by (auto simp: h_def vote_hardfork_def req_def)
  moreover have "w = (v, t)" if "req \<le> tally hardfork_vote w bs" for w
    using tally_le [of hardfork_vote "(v, t)" bs w] vote that assms(1) by (auto simp: req_def split: if_splits)
  ultimately show ?thesis using vote by metis
qed

section \<open>Examples\<close>

text \<open>Two observers, of which one is excepted: the other has the only place.\<close>

definition example_schedule_db :: chain_db where
  "example_schedule_db = example_late_db\<lparr>db_bobservers := \<lparr>tb_next = 2, tb_rows = [example_observer,
     (new_bobserver 1)\<lparr>bo_account := ''bob'', bo_signing_key := 9, bo_is_excepted := True\<rparr>]\<rparr>\<rparr>"

theorem schedule_places_witness:
  "\<exists>db'. update_bobserver_schedule4 example_schedule_db = Inr db'
     \<and> take (wso_num_scheduled_bobservers (db_schedule db')) (wso_current_shuffled_bobservers (db_schedule db')) = [''chainmaker'']"
proof -
  have wf: "observers_wf example_schedule_db" "schedule_ok example_schedule_db"
    "wso_max_voted_bobservers (db_schedule example_schedule_db) \<le> SIGMAENGINE_NUM_BOBSERVERS"
    by (simp_all add: observers_wf_def schedule_ok_def example_schedule_db_def slot_eval economy_eval)
  have able: "filter (\<lambda>b. bo_signing_key b \<noteq> 0 \<and> \<not> bo_is_excepted b) (tb_rows (db_bobservers example_schedule_db)) = [example_observer]"
    by (simp add: example_schedule_db_def slot_eval economy_eval)
  have name: "bo_account example_observer = ''chainmaker''" by (simp add: slot_eval)
  from schedule_places [OF wf, unfolded able] obtain db' names where db': "update_bobserver_schedule4 example_schedule_db = Inr db'"
    "names = take (wso_num_scheduled_bobservers (db_schedule db')) (wso_current_shuffled_bobservers (db_schedule db'))"
    "length names = min SIGMAENGINE_NUM_BOBSERVERS (length [example_observer])" "set names \<subseteq> bo_account ` set [example_observer]"
    by blast
  from db'(3,4) have "names = [''chainmaker'']" by (cases names) (auto simp: SIGMAENGINE_NUM_BOBSERVERS_def name)
  with db'(1,2) show ?thesis by metis
qed

theorem hardfork_vote_majority_witness:
  "hpo_next_hardfork (db_hardfork (vote_hardfork [example_observer] example_late_db)) = 0"
proof -
  have req: "wso_hardfork_required_bobservers (db_schedule example_late_db) = 17" by (simp add: slot_eval economy_eval)
  then have "length [example_observer] < 2 * wso_hardfork_required_bobservers (db_schedule example_late_db)" by simp
  note hardfork_vote_majority [OF this, unfolded req]
  moreover have "\<not> (\<exists>v. 17 \<le> tally hardfork_vote v [example_observer])" by (simp add: tally_def)
  moreover have "hpo_current_hardfork_version (db_hardfork example_late_db) = 0" by (simp add: slot_eval economy_eval)
  ultimately show ?thesis by simp
qed

end
