(* ===== verification/Block_Apply.thy ===== *)
theory Block_Apply
  imports Payments Schedule
begin

text \<open>
  Applying transactions and blocks to the chain state, from \<^verbatim>\<open>database.cpp\<close>: \<^verbatim>\<open>_apply_transaction\<close>,
  \<^verbatim>\<open>_apply_block\<close> and the checkpoints of \<^verbatim>\<open>apply_block\<close>. The theorems: a block keeps the books, an accepted
  block extends the head in a slot of the schedule and is signed by the producer of that slot, and
  no transaction is ever applied twice. What the plugins do when they are notified of a block is a field of
  the environment, which \<^verbatim>\<open>Plugins\<close> fills in.
\<close>

text \<open>
  What a node brings besides its state: hashing and key recovery, the text checks, the chain id,
  the packed sizes of transactions and blocks, and the environment of the evaluators.
\<close>

record chain_params =
  cp_trx :: trx_crypto
  cp_block :: block_crypto
  cp_text :: text_checks
  cp_chain_id :: chain_id_type
  cp_trx_size :: "signed_transaction \<Rightarrow> nat"
  cp_block_size :: "signed_block \<Rightarrow> nat"
  cp_env :: node_env

definition SIGMAENGINE_MAX_TIME_UNTIL_EXPIRATION :: nat where "SIGMAENGINE_MAX_TIME_UNTIL_EXPIRATION = 60 * 60"

section \<open>Transactions\<close>

definition get_active :: "chain_db \<Rightarrow> authority_getter" where
  "get_active db name = bindR (get_account_authority name db) (\<lambda>a. Inr (aut_active a))"

definition get_owner :: "chain_db \<Rightarrow> authority_getter" where
  "get_owner db name = bindR (get_account_authority name db) (\<lambda>a. Inr (aut_owner a))"

definition get_posting :: "chain_db \<Rightarrow> authority_getter" where
  "get_posting db name = bindR (get_account_authority name db) (\<lambda>a. Inr (aut_posting a))"

definition signed_transaction_id :: "chain_params \<Rightarrow> signed_transaction \<Rightarrow> transaction_id_type" where
  "signed_transaction_id cp trx = transaction_id (cp_trx cp) (transaction.truncate trx)"

definition check_tapos :: "32 word \<Rightarrow> signed_transaction \<Rightarrow> chain_db \<Rightarrow> unit result" where
  "check_tapos skip trx db =
     (if head_block_num db > 0 then
        bindR (if skips skip skip_tapos_check then Inr ()
               else guardR (ref_block_prefix trx = db_summaries db (ref_block_num trx) ! 1) Transaction_tapos_exception (Inr ())) (\<lambda>_.
        let now = head_block_time db in
        guardR (expiration trx \<le> now + SIGMAENGINE_MAX_TIME_UNTIL_EXPIRATION) Transaction_expiration_exception (
        guardR (now < expiration trx) Transaction_expiration_exception (
        guardR (now \<le> expiration trx) Transaction_expiration_exception (Inr ()))))
      else Inr ())"

definition remember_transaction :: "chain_params \<Rightarrow> 32 word \<Rightarrow> signed_transaction \<Rightarrow> chain_db \<Rightarrow> chain_db result" where
  "remember_transaction cp skip trx db =
     (if skips skip skip_transaction_dupe_check then Inr db
      else bindR (table_create transaction_clash (\<lambda>i. \<lparr>txo_id = i, txo_trx = trx, txo_trx_id = signed_transaction_id cp trx,
                    txo_expiration = expiration trx\<rparr>) (db_transactions db)) (\<lambda>t.
           Inr (db\<lparr>db_transactions := t\<rparr>)))"

definition apply_operations :: "chain_params \<Rightarrow> operation list \<Rightarrow> chain_db \<Rightarrow> chain_db result" where
  "apply_operations cp ops db = foldR (\<lambda>db op. apply_operation (cp_env cp) op db) db ops"

definition apply_transaction :: "chain_params \<Rightarrow> 32 word \<Rightarrow> signed_transaction \<Rightarrow> chain_db \<Rightarrow> chain_db result" where
  "apply_transaction cp skip trx db =
     bindR (if skips skip skip_validate then Inr () else transaction_validate (cp_text cp) (operations trx)) (\<lambda>_.
     let trx_id = signed_transaction_id cp trx in
     fc_assert (skips skip skip_transaction_dupe_check \<or> table_find (\<lambda>t. txo_trx_id t = trx_id) (db_transactions db) = None)
       Duplicate_transaction (
     bindR (if skips skip (skip_transaction_signatures OR skip_authority_check) then Inr ()
            else trx_verify_authority (cp_trx cp) (cp_chain_id cp) trx (get_active db) (get_owner db) (get_posting db)
                   SIGMAENGINE_MAX_SIG_CHECK_DEPTH) (\<lambda>_.
     bindR (check_tapos skip trx db) (\<lambda>_.
     bindR (remember_transaction cp skip trx db) (\<lambda>db.
     apply_operations cp (operations trx) db)))))"

section \<open>Blocks\<close>

text \<open>
  \<^verbatim>\<open>_apply_block\<close> in two parts: up to the new last irreversible block, and after the block log and the fork
  database have been told of it, which is outside the chain state.
\<close>

definition check_merkle :: "chain_params \<Rightarrow> 32 word \<Rightarrow> signed_block \<Rightarrow> unit result" where
  "check_merkle cp skip next_block =
     (if skips skip skip_merkle_check then Inr ()
      else fc_assert (transaction_merkle_root next_block = calculate_merkle_root (cp_trx cp) (cp_block cp) (transactions next_block))
             Merkle_mismatch (Inr ()))"

definition begin_block :: "chain_params \<Rightarrow> 32 word \<Rightarrow> signed_block \<Rightarrow> chain_db \<Rightarrow> chain_db result" where
  "begin_block cp skip next_block db =
     bindR (check_merkle cp skip next_block) (\<lambda>_.
     bindR (validate_block_header (cp_block cp) skip next_block db) (\<lambda>signing_bobserver.
     fc_assert (cp_block_size cp next_block \<le> dgp_maximum_block_size (db_dgp db)) Block_too_big (
     let db = modify_dgp (\<lambda>dgp. dgp\<lparr>dgp_current_bobserver := bobserver next_block\<rparr>) db in
     bindR (process_header_extensions next_block db) (\<lambda>db.
     bindR (foldR (\<lambda>db trx. apply_transaction cp skip trx db) db (transactions next_block)) (\<lambda>db.
     bindR (update_global_dynamic_data (cp_block cp) skip next_block db) (\<lambda>db.
     set_irreversible (update_signing_bobserver signing_bobserver next_block db)))))))"

definition finish_block :: "chain_params \<Rightarrow> signed_block \<Rightarrow> chain_db \<Rightarrow> chain_db result" where
  "finish_block cp next_block db =
     (let db = clear_expired_transactions (create_block_summary (cp_block cp) next_block db) in
      bindR (update_bobserver_schedule db) (\<lambda>db.
      bindR (clear_null_account_balance db) (\<lambda>db.
      bindR (process_funds db) (\<lambda>db.
      bindR (process_savings_withdraws db) (\<lambda>db.
      bindR (process_fund_withdraws db) (\<lambda>db.
      bindR (account_recovery_processing db) (\<lambda>db.
      bindR (process_hardforks db) (\<lambda>db.
      Inr (env_on_applied_block (cp_env cp) next_block db)))))))))"

definition apply_block_state :: "chain_params \<Rightarrow> 32 word \<Rightarrow> signed_block \<Rightarrow> chain_db \<Rightarrow> chain_db result" where
  "apply_block_state cp skip next_block db = bindR (begin_block cp skip next_block db) (finish_block cp next_block)"

text \<open>The checkpoints are a \<^verbatim>\<open>flat_map\<close> from block numbers to ids: a list sorted by number.\<close>

definition checkpoint_skip :: "32 word" where
  "checkpoint_skip = skip_bobserver_signature OR skip_transaction_signatures OR skip_transaction_dupe_check OR skip_fork_db
     OR skip_block_size_check OR skip_tapos_check OR skip_authority_check OR skip_undo_history_check
     OR skip_bobserver_schedule_check OR skip_validate OR skip_validate_invariants"

definition check_checkpoints :: "(nat \<times> block_id_type) list \<Rightarrow> chain_params \<Rightarrow> signed_block \<Rightarrow> 32 word \<Rightarrow> (32 word) result" where
  "check_checkpoints checkpoints cp next_block skip =
     (if checkpoints \<noteq> [] \<and> snd (last checkpoints) \<noteq> replicate 5 0 then
        fc_assert (case map_of checkpoints (unat (block_num next_block)) of
                     None \<Rightarrow> True | Some bid \<Rightarrow> block_id (cp_block cp) next_block = bid) Checkpoint_mismatch (
        Inr (if fst (last checkpoints) \<ge> unat (block_num next_block) then checkpoint_skip else skip))
      else Inr skip)"

section \<open>The books\<close>

lemma foldR_moves:
  assumes "\<And>d d' x. x \<in> set xs \<Longrightarrow> wf_db d \<Longrightarrow> f d x = Inr d' \<Longrightarrow> moves d d' 0 nothing nothing"
    and "wf_db db" "foldR f db xs = Inr db'"
  shows "moves db db' 0 nothing nothing"
  using assms
proof (induction xs arbitrary: db)
  case Nil
  then show ?case by (simp add: moves_refl)
next
  case (Cons x xs)
  from Cons.prems(3) obtain d where d: "f db x = Inr d" "foldR f d xs = Inr db'" by (auto simp: bindR_Inr_iff)
  note m = Cons.prems(1) [OF _ Cons.prems(2) d(1)]
  have "moves d db' 0 nothing nothing" by (rule Cons.IH) (use Cons.prems(1) d(2) m moves_wf in auto)
  from moves_trans [OF _ this] m show ?case by fastforce
qed

lemma apply_transaction_moves:
  assumes "plugins_balanced (cp_env cp)" "wf_db db" "apply_transaction cp skip trx db = Inr db'"
  shows "moves db db' 0 nothing nothing"
proof -
  from assms(3) obtain d where d: "remember_transaction cp skip trx db = Inr d" "apply_operations cp (operations trx) d = Inr db'"
    by (auto simp: apply_transaction_def Let_def bindR_Inr_iff fc_assert_Inr_iff)
  have m: "moves db d 0 nothing nothing"
    using d(1) by (intro moves_frame [OF assms(2)]) (auto simp: remember_transaction_def bindR_Inr_iff split: if_splits)
  have "moves d db' 0 nothing nothing"
    by (rule foldR_moves [OF _ moves_wf [OF m] d(2) [unfolded apply_operations_def]]) (rule apply_operation_moves [OF assms(1)])
  from moves_trans [OF m this] show ?thesis by simp
qed

lemma process_header_extensions_frame:
  "process_header_extensions b db = Inr db' \<Longrightarrow> \<exists>t. db' = db\<lparr>db_bobservers := t\<rparr>"
proof -
  have "foldR (process_header_extension name) db es = Inr db' \<Longrightarrow> \<exists>t. db' = db\<lparr>db_bobservers := t\<rparr>" for name es
  proof (induction es arbitrary: db)
    case Nil
    then show ?case by (auto intro: exI [of _ "db_bobservers db"])
  next
    case (Cons e es)
    then obtain d where d: "process_header_extension name db e = Inr d" "foldR (process_header_extension name) d es = Inr db'"
      by (auto simp: bindR_Inr_iff)
    have "\<exists>t. d = db\<lparr>db_bobservers := t\<rparr>"
      using d(1) by (auto simp: process_header_extension_def modify_bobserver_def bindR_Inr_iff intro: exI [of _ "db_bobservers db"]
          split: header_extension.splits if_splits)
    with Cons.IH [OF d(2)] show ?case by auto
  qed
  then show "process_header_extensions b db = Inr db' \<Longrightarrow> \<exists>t. db' = db\<lparr>db_bobservers := t\<rparr>"
    by (simp add: process_header_extensions_def)
qed

lemma begin_blockE:
  assumes "begin_block cp skip b db = Inr db'"
  obtains signing d1 d2 d3 n where "check_merkle cp skip b = Inr ()" "validate_block_header (cp_block cp) skip b db = Inr signing"
    "cp_block_size cp b \<le> dgp_maximum_block_size (db_dgp db)"
    "process_header_extensions b (modify_dgp (\<lambda>dgp. dgp\<lparr>dgp_current_bobserver := bobserver b\<rparr>) db) = Inr d1"
    "foldR (\<lambda>db trx. apply_transaction cp skip trx db) d1 (transactions b) = Inr d2"
    "update_global_dynamic_data (cp_block cp) skip b d2 = Inr d3"
    "next_irreversible (update_signing_bobserver signing b d3) = Inr n"
    "db' = modify_dgp (\<lambda>p. p\<lparr>dgp_last_irreversible_block_num := n\<rparr>) (update_signing_bobserver signing b d3)"
  using assms by (auto simp: begin_block_def Let_def bindR_Inr_iff fc_assert_Inr_iff set_irreversible_def)

lemma begin_block_moves:
  assumes "plugins_balanced (cp_env cp)" "wf_db db" "begin_block cp skip b db = Inr db'"
  shows "moves db db' 0 nothing nothing"
proof -
  from assms(3) obtain signing d1 d2 d3 n where
    d1: "process_header_extensions b (modify_dgp (\<lambda>dgp. dgp\<lparr>dgp_current_bobserver := bobserver b\<rparr>) db) = Inr d1"
    and d2: "foldR (\<lambda>db trx. apply_transaction cp skip trx db) d1 (transactions b) = Inr d2"
    and d3: "update_global_dynamic_data (cp_block cp) skip b d2 = Inr d3"
    and db': "db' = modify_dgp (\<lambda>p. p\<lparr>dgp_last_irreversible_block_num := n\<rparr>) (update_signing_bobserver signing b d3)"
    by (rule begin_blockE)
  obtain t where "d1 = (modify_dgp (\<lambda>dgp. dgp\<lparr>dgp_current_bobserver := bobserver b\<rparr>) db)\<lparr>db_bobservers := t\<rparr>"
    using process_header_extensions_frame [OF d1] by blast
  then have m1: "moves db d1 0 nothing nothing" by (intro moves_frame [OF assms(2)]) (simp_all add: modify_dgp_def)
  have m2: "moves d1 d2 0 nothing nothing"
    by (rule foldR_moves [OF _ moves_wf [OF m1] d2]) (rule apply_transaction_moves [OF assms(1)])
  obtain t' where "d3 = d2\<lparr>db_bobservers := t', db_dgp := advance_dgp (cp_block cp) b (missed_blocks b d2) (db_dgp d2)\<rparr>"
    using update_global_dynamic_data_Inr [OF d3] .
  then have "moves d2 db' 0 nothing nothing"
    unfolding db' by (intro moves_frame [OF moves_wf [OF m2]])
      (simp_all add: modify_dgp_def update_signing_bobserver_def modify_bobserver_def advance_dgp_def Let_def)
  from moves_trans [OF moves_trans [OF m1 m2] this] show ?thesis by simp
qed

lemma update_bobserver_schedule_frame:
  assumes "update_bobserver_schedule db = Inr db'"
  shows "\<exists>t vo h w. db' = db\<lparr>db_bobservers := t, db_virtual_ops := vo, db_hardfork := h, db_schedule := w\<rparr>"
proof (cases "head_block_num db mod SIGMAENGINE_NUM_BOBSERVERS = 0")
  case True
  obtain t vo where d: "shut_down_excepted db = Inr (db\<lparr>db_bobservers := t, db_virtual_ops := vo\<rparr>)"
    using shut_down_fold [of db "by_is_bp db"] by (auto simp: shut_down_excepted_def)
  obtain active bs v where "db' = write_schedule active v (vote_hardfork bs (db\<lparr>db_bobservers := t, db_virtual_ops := vo\<rparr>))"
    using assms True by (auto simp: update_bobserver_schedule_def update_bobserver_schedule4_def d bindR_Inr_iff Let_def)
  moreover obtain h where "vote_hardfork bs (db\<lparr>db_bobservers := t, db_virtual_ops := vo\<rparr>) = db\<lparr>db_bobservers := t, db_virtual_ops := vo, db_hardfork := h\<rparr>"
    using vote_hardfork_frame [of bs "db\<lparr>db_bobservers := t, db_virtual_ops := vo\<rparr>"] by auto
  ultimately show ?thesis by (auto simp: write_schedule_def Let_def)
next
  case False
  with assms have "db' = db\<lparr>db_bobservers := db_bobservers db, db_virtual_ops := db_virtual_ops db, db_hardfork := db_hardfork db, db_schedule := db_schedule db\<rparr>"
    by (simp add: update_bobserver_schedule_def)
  then show ?thesis by blast
qed

lemma apply_hardfork_frame: "apply_hardfork n db = Inr db' \<Longrightarrow> \<exists>h vo. db' = db\<lparr>db_hardfork := h, db_virtual_ops := vo\<rparr>"
  by (auto simp: apply_hardfork_def Let_def push_virtual_operation_def fc_assert_Inr_iff)

lemma process_hardforks_frame:
  assumes "process_hardforks db = Inr db'"
  shows "\<exists>h vo. db' = db\<lparr>db_hardfork := h, db_virtual_ops := vo\<rparr>"
proof -
  have same: "\<exists>h vo. db = db\<lparr>db_hardfork := h, db_virtual_ops := vo\<rparr>" for db
    by (rule exI [of _ "db_hardfork db"], rule exI [of _ "db_virtual_ops db"]) simp
  have "voted_hardforks db = Inr db' \<Longrightarrow> \<exists>h vo. db' = db\<lparr>db_hardfork := h, db_virtual_ops := vo\<rparr>" for db
  proof (induction db rule: voted_hardforks.induct)
    case (1 db)
    from 1(2) consider "db' = db"
      | d where "apply_hardfork (hpo_last_hardfork (db_hardfork db) + 1) db = Inr d" "voted_hardforks d = Inr db'"
          "hardfork_versions ! hpo_last_hardfork (db_hardfork db) < hpo_next_hardfork (db_hardfork db)
            \<and> hpo_next_hardfork_time (db_hardfork db) \<le> head_block_time db" "hpo_last_hardfork (db_hardfork db) < SIGMAENGINE_NUM_HARDFORKS"
      by (auto simp: voted_hardforks.simps [of db] Let_def bindR_Inr_iff split: if_splits)
    then show ?case
    proof cases
      case (2 d)
      from 1(1) [OF refl 2(3,4) 2(1,2)] obtain h vo where "db' = d\<lparr>db_hardfork := h, db_virtual_ops := vo\<rparr>" by blast
      moreover obtain h' vo' where "d = db\<lparr>db_hardfork := h', db_virtual_ops := vo'\<rparr>" using apply_hardfork_frame [OF 2(1)] by blast
      ultimately have "db' = db\<lparr>db_hardfork := h, db_virtual_ops := vo\<rparr>" by simp
      then show ?thesis by blast
    qed (use same in auto)
  qed
  moreover have "timed_hardforks db = Inr db' \<Longrightarrow> \<exists>h vo. db' = db\<lparr>db_hardfork := h, db_virtual_ops := vo\<rparr>" for db
  proof (induction db rule: timed_hardforks.induct)
    case (1 db)
    from 1(2) consider "db' = db"
      | d where "apply_hardfork (hpo_last_hardfork (db_hardfork db) + 1) db = Inr d" "timed_hardforks d = Inr db'"
          "hpo_last_hardfork (db_hardfork db) < SIGMAENGINE_NUM_HARDFORKS
            \<and> hardfork_times ! (hpo_last_hardfork (db_hardfork db) + 1) \<le> head_block_time db
            \<and> hpo_last_hardfork (db_hardfork db) < SIGMAENGINE_HARDFORK_0_1"
      by (auto simp: timed_hardforks.simps [of db] Let_def bindR_Inr_iff split: if_splits)
    then show ?case
    proof cases
      case (2 d)
      from 1(1) [OF refl 2(3) 2(1,2)] obtain h vo where "db' = d\<lparr>db_hardfork := h, db_virtual_ops := vo\<rparr>" by blast
      moreover obtain h' vo' where "d = db\<lparr>db_hardfork := h', db_virtual_ops := vo'\<rparr>" using apply_hardfork_frame [OF 2(1)] by blast
      ultimately have "db' = db\<lparr>db_hardfork := h, db_virtual_ops := vo\<rparr>" by simp
      then show ?thesis by blast
    qed (use same in auto)
  qed
  ultimately show ?thesis using assms by (auto simp: process_hardforks_def split: if_splits)
qed

lemma finish_blockE:
  assumes "finish_block cp b db = Inr db'"
  obtains d1 d2 d3 d4 d5 d6 d7 where
    "update_bobserver_schedule (clear_expired_transactions (create_block_summary (cp_block cp) b db)) = Inr d1"
    "clear_null_account_balance d1 = Inr d2" "process_funds d2 = Inr d3" "process_savings_withdraws d3 = Inr d4"
    "process_fund_withdraws d4 = Inr d5" "account_recovery_processing d5 = Inr d6" "process_hardforks d6 = Inr d7"
    "db' = env_on_applied_block (cp_env cp) b d7"
  using assms by (auto simp: finish_block_def Let_def bindR_Inr_iff)

lemma finish_block_moves:
  assumes "plugins_balanced (cp_env cp)" "wf_db db" "finish_block cp b db = Inr db'"
  shows "\<exists>v \<ge> 0. moves db db' 0 (at SIGMAENGINE_NULL_ACCOUNT (- v)) nothing"
proof -
  from assms(3) obtain d1 d2 d3 d4 d5 d6 d7 where d:
    "update_bobserver_schedule (clear_expired_transactions (create_block_summary (cp_block cp) b db)) = Inr d1"
    "clear_null_account_balance d1 = Inr d2" "process_funds d2 = Inr d3" "process_savings_withdraws d3 = Inr d4"
    "process_fund_withdraws d4 = Inr d5" "account_recovery_processing d5 = Inr d6" "process_hardforks d6 = Inr d7"
    "db' = env_on_applied_block (cp_env cp) b d7"
    by (rule finish_blockE)
  obtain t vo h w where "d1 = (clear_expired_transactions (create_block_summary (cp_block cp) b db))
      \<lparr>db_bobservers := t, db_virtual_ops := vo, db_hardfork := h, db_schedule := w\<rparr>"
    using update_bobserver_schedule_frame [OF d(1)] by blast
  then have m1: "moves db d1 0 nothing nothing"
    by (intro moves_frame [OF assms(2)]) (simp_all add: clear_expired_transactions_def create_block_summary_def)
  from clear_null_account_balance_moves [OF moves_wf [OF m1] d(2)] obtain v where v: "v \<ge> 0"
    "moves d1 d2 0 (at SIGMAENGINE_NULL_ACCOUNT (- v)) nothing" by blast
  note m3 = process_funds_moves [OF moves_wf [OF v(2)] d(3)]
  note m4 = savings_loop_moves [OF moves_wf [OF m3] d(4) [unfolded process_savings_withdraws_def]]
  note m5 = process_fund_withdraws_moves [OF moves_wf [OF m4] d(5)]
  note m6 = account_recovery_processing_moves [OF moves_wf [OF m5] d(6)]
  obtain h' vo' where "d7 = d6\<lparr>db_hardfork := h', db_virtual_ops := vo'\<rparr>" using process_hardforks_frame [OF d(7)] by blast
  then have m7: "moves d6 d7 0 nothing nothing" by (intro moves_frame [OF moves_wf [OF m6]]) simp_all
  have "moves d7 db' 0 nothing nothing" using assms(1) moves_wf [OF m7] by (simp add: plugins_balanced_def d(8))
  note moves_trans [OF moves_trans [OF moves_trans [OF moves_trans [OF moves_trans [OF moves_trans [OF moves_trans [OF m1 v(2)] m3] m4] m5] m6] m7] this]
  then show ?thesis using v(1) by (intro exI [of _ v]) simp
qed

text \<open>
  Applying a block keeps the books: what all balances and funds hold beyond the recorded supply does not
  change, neither do the differences between reserves and pending staking requests of any fund, nor those between
  savings and pending savings requests of any account but the null account, whose savings are destroyed.
\<close>

theorem block_keeps_books:
  assumes "plugins_balanced (cp_env cp)" "wf_db db" "apply_block_state cp skip b db = Inr db'"
  shows "wf_db db' \<and> unaccounted db' = unaccounted db \<and> (\<forall>n. staking_gap n db' = staking_gap n db)
     \<and> (\<forall>n. n \<noteq> SIGMAENGINE_NULL_ACCOUNT \<longrightarrow> savings_gap n db' = savings_gap n db)
     \<and> savings_gap SIGMAENGINE_NULL_ACCOUNT db' \<le> savings_gap SIGMAENGINE_NULL_ACCOUNT db"
proof -
  from assms(3) obtain d where d: "begin_block cp skip b db = Inr d" "finish_block cp b d = Inr db'"
    by (auto simp: apply_block_state_def bindR_Inr_iff)
  note m = begin_block_moves [OF assms(1,2) d(1)]
  from finish_block_moves [OF assms(1) moves_wf [OF m] d(2)] obtain v where "v \<ge> 0"
    "moves d db' 0 (at SIGMAENGINE_NULL_ACCOUNT (- v)) nothing" by blast
  with moves_trans [OF m this(2)] show ?thesis by (auto simp: moves_def at_def)
qed

section \<open>What leaves the head, the remembered transactions and the block summaries alone\<close>

definition same_head :: "chain_db \<Rightarrow> chain_db \<Rightarrow> bool" where
  "same_head db db' \<longleftrightarrow> head_block_time db' = head_block_time db \<and> head_block_num db' = head_block_num db
     \<and> head_block_id db' = head_block_id db \<and> db_transactions db' = db_transactions db \<and> db_summaries db' = db_summaries db"

lemmas head_defs = same_head_def head_block_time_def head_block_num_def head_block_id_def

lemma same_head_refl [simp]: "same_head db db"
  by (simp add: same_head_def)

lemma same_head_trans: "same_head d1 d2 \<Longrightarrow> same_head d2 d3 \<Longrightarrow> same_head d1 d3"
  by (simp add: same_head_def)

lemma adjust_head:
  "adjust_balance a x db = Inr db' \<Longrightarrow> same_head db db'"
  "adjust_savings_balance a x db = Inr db' \<Longrightarrow> same_head db db'"
  "adjust_fund_balance f x db = Inr db' \<Longrightarrow> same_head db db'"
  "adjust_fund_withdraw_balance f x db = Inr db' \<Longrightarrow> same_head db db'"
  "adjust_dapp_reward_fund_balance x db = Inr db' \<Longrightarrow> same_head db db'"
  "adjust_supply x db = Inr db' \<Longrightarrow> same_head db db'"
  "push_virtual_operation op db = Inr db' \<Longrightarrow> same_head db db'"
  "update_owner_authority n auth db = Inr db' \<Longrightarrow> same_head db db'"
  by (auto simp: head_defs adjust_balance_def adjust_savings_balance_def adjust_fund_balance_def adjust_fund_withdraw_balance_def
      adjust_dapp_reward_fund_balance_def adjust_supply_def push_virtual_operation_def update_owner_authority_def
      modify_account_def modify_fund_def modify_dgp_def bindR_Inr_iff fc_assert_Inr_iff)

lemmas head_dests = adjust_head [unfolded same_head_def]

lemma money_head:
  "transfer_apply env o1 db = Inr db' \<Longrightarrow> same_head db db'"
  "print_apply o2 db = Inr db' \<Longrightarrow> same_head db db'"
  "burn_apply o3 db = Inr db' \<Longrightarrow> same_head db db'"
  "transfer_savings_apply env o4 db = Inr db' \<Longrightarrow> same_head db db'"
  "cancel_transfer_savings_apply o5 db = Inr db' \<Longrightarrow> same_head db db'"
  "conclusion_transfer_savings_apply o6 db = Inr db' \<Longrightarrow> same_head db db'"
  "staking_fund_apply env o7 db = Inr db' \<Longrightarrow> same_head db db'"
  "pay_staking o8 n1 n2 db = Inr db' \<Longrightarrow> same_head db db'"
  "transfer_fund_apply o9 db = Inr db' \<Longrightarrow> same_head db db'"
  "set_fund_interest_apply env o10 db = Inr db' \<Longrightarrow> same_head db db'"
  by (auto simp: head_defs transfer_apply_def print_apply_def burn_apply_def transfer_savings_apply_def
      cancel_transfer_savings_apply_def conclusion_transfer_savings_apply_def staking_fund_apply_def pay_staking_def
      transfer_fund_apply_def set_fund_interest_apply_def bindR_Inr_iff fc_assert_Inr_iff Let_def modify_fund_def
      dest!: head_dests [unfolded head_defs] split: if_splits)

lemma account_create_head: "account_create_apply o' db = Inr db' \<Longrightarrow> same_head db db'"
  by (auto simp: head_defs account_create_apply_def bindR_Inr_iff fc_assert_Inr_iff Let_def modify_account_def modify_bobserver_def modify_dgp_def
      split: if_splits option.splits)

lemma account_auth_head: "account_auth_apply o' db = Inr db' \<Longrightarrow> same_head db db'"
  by (auto simp: head_defs account_auth_apply_def bindR_Inr_iff fc_assert_Inr_iff Let_def modify_account_def modify_bobserver_def modify_dgp_def
      split: if_splits option.splits)

lemma set_blacklist_account_head: "set_blacklist_account_apply o' db = Inr db' \<Longrightarrow> same_head db db'"
  by (auto simp: head_defs set_blacklist_account_apply_def bindR_Inr_iff fc_assert_Inr_iff Let_def modify_account_def modify_bobserver_def modify_dgp_def
      split: if_splits option.splits)

lemma request_account_recovery_head: "request_account_recovery_apply o' db = Inr db' \<Longrightarrow> same_head db db'"
  by (auto simp: head_defs request_account_recovery_apply_def bindR_Inr_iff fc_assert_Inr_iff Let_def modify_account_def modify_bobserver_def modify_dgp_def
      split: if_splits option.splits)

lemma change_recovery_account_head: "change_recovery_account_apply o' db = Inr db' \<Longrightarrow> same_head db db'"
  by (auto simp: head_defs change_recovery_account_apply_def bindR_Inr_iff fc_assert_Inr_iff Let_def modify_account_def modify_bobserver_def modify_dgp_def
      split: if_splits option.splits)

lemma decline_voting_rights_head: "decline_voting_rights_apply o' db = Inr db' \<Longrightarrow> same_head db db'"
  by (auto simp: head_defs decline_voting_rights_apply_def bindR_Inr_iff fc_assert_Inr_iff Let_def modify_account_def modify_bobserver_def modify_dgp_def
      split: if_splits option.splits)

lemma bobserver_update_head: "bobserver_update_apply o' db = Inr db' \<Longrightarrow> same_head db db'"
  by (auto simp: head_defs bobserver_update_apply_def bindR_Inr_iff fc_assert_Inr_iff Let_def modify_account_def modify_bobserver_def modify_dgp_def
      split: if_splits option.splits)

lemma update_bproducer_head: "update_bproducer_apply o' db = Inr db' \<Longrightarrow> same_head db db'"
  by (clarsimp simp only: update_bproducer_apply_def bindR_Inr_iff fc_assert_Inr_iff sum.inject)
    (simp add: head_defs modify_dgp_def modify_bobserver_def)

lemma except_bobserver_head: "except_bobserver_apply o' db = Inr db' \<Longrightarrow> same_head db db'"
  by (auto simp: head_defs except_bobserver_apply_def bindR_Inr_iff fc_assert_Inr_iff Let_def modify_account_def modify_bobserver_def modify_dgp_def
      split: if_splits option.splits)

lemmas account_head = account_create_head account_auth_head set_blacklist_account_head request_account_recovery_head change_recovery_account_head decline_voting_rights_head bobserver_update_head update_bproducer_head except_bobserver_head

lemma recover_account_head:
  assumes "recover_account_apply o' db = Inr db'"
  shows "same_head db db'"
proof -
  from assms obtain t d i f where "update_owner_authority (ra_account_to_recover o') (ra_new_owner_authority o')
      (db\<lparr>db_recovery_requests := t\<rparr>) = Inr d" "db' = modify_account i f d"
    unfolding recover_account_apply_def bindR_Inr_iff fc_assert_Inr_iff by (auto dest: get_account_name)
  with adjust_head(8) have "same_head (db\<lparr>db_recovery_requests := t\<rparr>) d" by blast
  with \<open>db' = modify_account i f d\<close> show ?thesis by (simp add: head_defs modify_account_def)
qed

lemma account_update_head:
  assumes "account_update_apply o' db = Inr db'"
  shows "same_head db db'"
proof -
  from assms obtain account auth d where d: "update_owner o' account auth db = Inr d"
    and db': "db' = (let db = modify_account (acc_id account) (update_account_object o' (head_block_time d)) d in
       if au_active o' \<noteq> None \<or> au_posting o' \<noteq> None
       then db\<lparr>db_authorities := table_modify aut_id (aut_id auth) (update_account_auth o') (db_authorities db)\<rparr> else db)"
    unfolding account_update_apply_def bindR_Inr_iff fc_assert_Inr_iff Let_def by blast
  have "same_head db d"
    using d adjust_head(8) by (auto simp: update_owner_def bindR_Inr_iff fc_assert_Inr_iff split: option.splits)
  then show ?thesis by (simp add: db' Let_def head_defs modify_account_def)
qed

text \<open>Interpreters of custom operations work on their own indexes.\<close>

definition plugins_keep_head :: "node_env \<Rightarrow> bool" where
  "plugins_keep_head env \<longleftrightarrow>
     (\<forall>i eval op db db'. env_interpreters env i = Some eval \<longrightarrow> eval op db = Applied db' \<longrightarrow> same_head db db')
     \<and> (\<forall>b db. same_head db (env_on_applied_block env b db))"

lemma custom_head:
  assumes "plugins_keep_head env"
  shows "custom_apply env o1 db = Inr db' \<Longrightarrow> same_head db db'"
    and "custom_json_apply env o2 db = Inr db' \<Longrightarrow> same_head db db'"
    and "custom_json_dapp_apply env o3 db = Inr db' \<Longrightarrow> same_head db db'"
    and "custom_binary_apply env o4 db = Inr db' \<Longrightarrow> same_head db db'"
  using assms by (auto simp: custom_apply_def custom_json_apply_def custom_json_dapp_apply_def custom_binary_apply_def
      fc_assert_Inr_iff run_interpreter_def plugins_keep_head_def split: option.splits custom_outcome.splits if_splits)

lemma apply_operation_head:
  assumes "plugins_keep_head env" "apply_operation env op db = Inr db'"
  shows "same_head db db'"
  using assms(2)
proof (cases op)
qed (auto simp: apply_operation_def reset_account_apply_def set_reset_account_apply_def conclusion_staking_apply_def
    return_staking_fund_apply_def bindR_Inr_iff fc_assert_Inr_iff intro: money_head account_head recover_account_head account_update_head custom_head [OF assms(1)])

lemma apply_operations_head:
  assumes "plugins_keep_head (cp_env cp)"
  shows "apply_operations cp ops db = Inr db' \<Longrightarrow> same_head db db'"
  unfolding apply_operations_def
proof (induction ops arbitrary: db)
  case (Cons op ops)
  then obtain d where "apply_operation (cp_env cp) op db = Inr d" "foldR (\<lambda>db op. apply_operation (cp_env cp) op db) d ops = Inr db'"
    by (auto simp: bindR_Inr_iff)
  with Cons.IH apply_operation_head [OF assms] show ?case by (blast intro: same_head_trans)
qed simp

lemma payments_head:
  "clear_null_account_balance db = Inr db' \<Longrightarrow> same_head db db'"
  "process_funds db = Inr db' \<Longrightarrow> same_head db db'"
  "pay_request s db = Inr (itr, db') \<Longrightarrow> same_head db db'"
  "pay_due_staking w db = Inr db' \<Longrightarrow> same_head db db'"
  by (auto simp: head_defs clear_null_account_balance_def clear_balance_def clear_savings_def process_funds_def pay_request_def
      pay_final_def pay_part_def pay_savings_def remove_savings_def pay_due_staking_def bindR_Inr_iff Let_def
      dest!: head_dests [unfolded head_defs] split: if_splits)

lemma savings_loop_head: "savings_loop itr db = Inr db' \<Longrightarrow> same_head db db'"
proof (induction itr db rule: savings_loop.induct)
  case (1 itr db)
  show ?case
  proof (cases itr)
    case None
    with 1(2) show ?thesis by (simp add: savings_loop.simps)
  next
    case (Some i)
    with 1(2) obtain s where s: "table_get (\<lambda>s. svw_id s = i) (db_savings db) = Inr s"
      and run: "(if svw_complete s > head_block_time db then Inr db
          else bindR (pay_request s db) (\<lambda>r. savings_loop (fst r) (snd r))) = Inr db'"
      by (auto simp: savings_loop.simps [of "Some i" db] bindR_Inr_iff)
    show ?thesis
    proof (cases "svw_complete s > head_block_time db")
      case False
      with run obtain j d where r: "pay_request s db = Inr (j, d)" "savings_loop j d = Inr db'" by (auto simp: bindR_Inr_iff)
      from 1(1) [OF Some s False r(1)] r(2) payments_head(3) [OF r(1)] show ?thesis by (auto intro: same_head_trans)
    qed (use run in simp)
  qed
qed

lemma process_fund_withdraws_head: "process_fund_withdraws db = Inr db' \<Longrightarrow> same_head db db'"
proof (induction db rule: process_fund_withdraws.induct)
  case (1 db)
  from 1(2) show ?case
  proof (cases rule: process_fund_withdraws_cases)
    case (2 w fund d)
    from 1(1) [OF 2(1-4) _ 2(5,6)] payments_head(4) [OF 2(5)] show ?thesis by (auto intro: same_head_trans)
  qed simp
qed

lemma apply_change_requests_head: "apply_change_requests db = Inr db' \<Longrightarrow> same_head db db'"
proof (induction db rule: apply_change_requests.induct)
  case (1 db)
  show ?case
  proof (cases "index_begin (\<lambda>r. (crq_effective_on r, crq_id r)) (tb_rows (db_change_requests db))")
    case None
    with 1(2) show ?thesis by (simp add: apply_change_requests.simps)
  next
    case (Some r)
    show ?thesis
    proof (cases "crq_effective_on r \<le> head_block_time db")
      case True
      with Some 1(2) obtain account where acc: "get_account (crq_account_to_recover r) db = Inr account"
        by (auto simp: apply_change_requests.simps [of db] Let_def bindR_Inr_iff)
      from 1(1) [OF Some True acc refl] 1(2) Some True acc show ?thesis
        by (auto simp: apply_change_requests.simps [of db] Let_def head_defs modify_account_def)
    qed (use Some 1(2) in \<open>simp add: apply_change_requests.simps [of db]\<close>)
  qed
qed

lemma account_recovery_processing_head: "account_recovery_processing db = Inr db' \<Longrightarrow> same_head db db'"
  using apply_change_requests_head [of "clear_histories (clear_recovery_requests db)" db']
  by (simp add: account_recovery_processing_def head_defs clear_histories_def clear_recovery_requests_def)

lemma finish_block_head:
  assumes "plugins_keep_head (cp_env cp)" "finish_block cp b db = Inr db'"
  shows "same_head (clear_expired_transactions (create_block_summary (cp_block cp) b db)) db'"
proof -
  from assms(2) obtain d1 d2 d3 d4 d5 d6 d7 where d:
    "update_bobserver_schedule (clear_expired_transactions (create_block_summary (cp_block cp) b db)) = Inr d1"
    "clear_null_account_balance d1 = Inr d2" "process_funds d2 = Inr d3" "process_savings_withdraws d3 = Inr d4"
    "process_fund_withdraws d4 = Inr d5" "account_recovery_processing d5 = Inr d6" "process_hardforks d6 = Inr d7"
    "db' = env_on_applied_block (cp_env cp) b d7"
    by (rule finish_blockE)
  obtain t vo h w where "d1 = (clear_expired_transactions (create_block_summary (cp_block cp) b db))
      \<lparr>db_bobservers := t, db_virtual_ops := vo, db_hardfork := h, db_schedule := w\<rparr>"
    using update_bobserver_schedule_frame [OF d(1)] by blast
  then have "same_head (clear_expired_transactions (create_block_summary (cp_block cp) b db)) d1"
    by (simp add: head_defs clear_expired_transactions_def create_block_summary_def)
  note this = same_head_trans [OF this payments_head(1) [OF d(2)]]
  note this = same_head_trans [OF this payments_head(2) [OF d(3)]]
  note this = same_head_trans [OF this savings_loop_head [OF d(4) [unfolded process_savings_withdraws_def]]]
  note this = same_head_trans [OF this process_fund_withdraws_head [OF d(5)]]
  note same = same_head_trans [OF this account_recovery_processing_head [OF d(6)]]
  obtain h' vo' where "d7 = d6\<lparr>db_hardfork := h', db_virtual_ops := vo'\<rparr>" using process_hardforks_frame [OF d(7)] by blast
  with same have same: "same_head (clear_expired_transactions (create_block_summary (cp_block cp) b db)) d7" by (simp add: head_defs)
  have "same_head d7 db'" using assms(1) by (simp add: plugins_keep_head_def d(8))
  with same show ?thesis by (rule same_head_trans)
qed

lemma begin_block_head:
  assumes "begin_block cp skip b db = Inr db'"
  shows "head_block_id db' = block_id (cp_block cp) b" "head_block_num db' = unat (block_num b)" "head_block_time db' = timestamp b"
    "previous b = head_block_id db" "head_block_time db < timestamp b"
proof -
  from assms obtain signing d1 d2 d3 n where v: "validate_block_header (cp_block cp) skip b db = Inr signing"
    and d3: "update_global_dynamic_data (cp_block cp) skip b d2 = Inr d3"
    and db': "db' = modify_dgp (\<lambda>p. p\<lparr>dgp_last_irreversible_block_num := n\<rparr>) (update_signing_bobserver signing b d3)"
    by (rule begin_blockE)
  obtain t' where "d3 = d2\<lparr>db_bobservers := t', db_dgp := advance_dgp (cp_block cp) b (missed_blocks b d2) (db_dgp d2)\<rparr>"
    using update_global_dynamic_data_Inr [OF d3] .
  then show "head_block_id db' = block_id (cp_block cp) b" "head_block_num db' = unat (block_num b)" "head_block_time db' = timestamp b"
    by (simp_all add: db' head_defs modify_dgp_def update_signing_bobserver_def modify_bobserver_def advance_dgp_def Let_def)
  show "previous b = head_block_id db" "head_block_time db < timestamp b"
    using v by (simp_all add: validate_block_header_def fc_assert_Inr_iff)
qed

lemma skips_nothing [simp]: "\<not> skips 0 flag"
  by (simp add: skips_def)

lemma clear_expired_head: "head_block_id (clear_expired_transactions db) = head_block_id db"
  "head_block_num (clear_expired_transactions db) = head_block_num db" "head_block_time (clear_expired_transactions db) = head_block_time db"
  "db_summaries (clear_expired_transactions db) = db_summaries db"
  by (simp_all add: head_defs clear_expired_transactions_def)

lemma create_summary_head [simp]: "head_block_id (create_block_summary bc b db) = head_block_id db"
  "head_block_num (create_block_summary bc b db) = head_block_num db" "head_block_time (create_block_summary bc b db) = head_block_time db"
  "db_transactions (create_block_summary bc b db) = db_transactions db"
  by (simp_all add: head_defs create_block_summary_def)


section \<open>No transaction twice\<close>

text \<open>
  What is remembered of a transaction is its id and expiration. After a transaction, it is in the table,
  or its expiration has passed, after which the expiration check refuses it. The check is
  skipped before the first block, when nothing has been forgotten.
\<close>

definition stamp :: "chain_params \<Rightarrow> signed_transaction \<Rightarrow> transaction_id_type \<times> time_point_sec" where
  "stamp cp trx = (signed_transaction_id cp trx, expiration trx)"

definition remembered :: "chain_db \<Rightarrow> (transaction_id_type \<times> time_point_sec) set" where
  "remembered db = (\<lambda>t. (txo_trx_id t, txo_expiration t)) ` set (tb_rows (db_transactions db))"

definition spent :: "(transaction_id_type \<times> time_point_sec) set \<Rightarrow> chain_db \<Rightarrow> bool" where
  "spent S db \<longleftrightarrow> wf_table txo_id (db_transactions db)
     \<and> (\<forall>s \<in> S. s \<in> remembered db \<or> snd s < head_block_time db \<and> 0 < head_block_num db)"

lemma spent_same_head: "same_head db db' \<Longrightarrow> spent S db \<Longrightarrow> spent S db'"
  by (simp add: same_head_def spent_def remembered_def)

lemma apply_transaction_spends:
  assumes keep: "plugins_keep_head (cp_env cp)" and spent: "spent S db" and run: "apply_transaction cp 0 trx db = Inr db'"
  shows "stamp cp trx \<notin> S" "spent (insert (stamp cp trx) S) db'" "head_block_time db' = head_block_time db"
proof -
  from run obtain d where dup: "table_find (\<lambda>t. txo_trx_id t = signed_transaction_id cp trx) (db_transactions db) = None"
    and tapos: "check_tapos 0 trx db = Inr ()" and rem: "remember_transaction cp 0 trx db = Inr d"
    and ops: "apply_operations cp (operations trx) d = Inr db'"
    by (auto simp: apply_transaction_def Let_def bindR_Inr_iff fc_assert_Inr_iff)
  have new: "stamp cp trx \<notin> remembered db"
    using dup by (auto simp: table_find_def find_None_iff stamp_def remembered_def)
  have "0 < head_block_num db \<Longrightarrow> head_block_time db < expiration trx"
    using tapos by (auto simp: check_tapos_def Let_def bindR_Inr_iff guardR_Inr_iff)
  with new spent show "stamp cp trx \<notin> S" by (auto simp: spent_def stamp_def)
  from rem obtain t where t: "table_create transaction_clash (\<lambda>i. \<lparr>txo_id = i, txo_trx = trx, txo_trx_id = signed_transaction_id cp trx,
      txo_expiration = expiration trx\<rparr>) (db_transactions db) = Inr t" "d = db\<lparr>db_transactions := t\<rparr>"
    by (auto simp: remember_transaction_def bindR_Inr_iff)
  then have "remembered d = insert (stamp cp trx) (remembered db)" "same_head (d\<lparr>db_transactions := db_transactions db\<rparr>) db"
    by (auto simp: remembered_def table_create_def Let_def guardR_Inr_iff stamp_def head_defs)
  moreover have "wf_table txo_id (db_transactions d)"
    using wf_table_create [OF _ t(1)] t(2) spent by (simp add: spent_def)
  ultimately have "spent (insert (stamp cp trx) S) d"
    using spent by (auto simp: spent_def head_defs)
  with apply_operations_head [OF keep ops] show "spent (insert (stamp cp trx) S) db'" by (rule spent_same_head)
  show "head_block_time db' = head_block_time db" using apply_operations_head [OF keep ops] t(2) by (simp add: head_defs)
qed

lemma apply_transactions_spend:
  assumes keep: "plugins_keep_head (cp_env cp)"
  shows "spent S db \<Longrightarrow> foldR (\<lambda>db trx. apply_transaction cp 0 trx db) db trxs = Inr db' \<Longrightarrow>
     distinct (map (stamp cp) trxs) \<and> stamp cp ` set trxs \<inter> S = {} \<and> spent (stamp cp ` set trxs \<union> S) db' \<and> head_block_time db' = head_block_time db"
proof (induction trxs arbitrary: S db)
  case (Cons trx trxs)
  from Cons.prems(2) obtain d where d: "apply_transaction cp 0 trx db = Inr d" "foldR (\<lambda>db trx. apply_transaction cp 0 trx db) d trxs = Inr db'"
    by (auto simp: bindR_Inr_iff)
  note one = apply_transaction_spends [OF keep Cons.prems(1) d(1)]
  from Cons.IH [OF one(2) d(2)] one show ?case by auto
qed simp

lemma drop_while_first_rows:
  assumes "distinct (map idf rows)"
  shows "set (drop_while_first idf key P rows) \<subseteq> set rows" "distinct (map idf (drop_while_first idf key P rows))"
    "r \<in> set rows \<Longrightarrow> r \<in> set (drop_while_first idf key P rows) \<or> P r"
proof -
  have "set (drop_while_first idf key P rows) \<subseteq> set rows \<and> distinct (map idf (drop_while_first idf key P rows))
    \<and> (r \<in> set rows \<longrightarrow> r \<in> set (drop_while_first idf key P rows) \<or> P r)"
    using assms
  proof (induction idf key P rows rule: drop_while_first.induct)
    case (1 idf key P rows)
    show ?case
    proof (cases "index_begin key rows")
      case None
      with 1(2) show ?thesis by (simp add: drop_while_first.simps)
    next
      case (Some x)
      show ?thesis
      proof (cases "P x")
        case True
        let ?rest = "remove_where (\<lambda>y. idf y = idf x) rows"
        have rest: "set ?rest = {y \<in> set rows. idf y \<noteq> idf x}" "distinct (map idf ?rest)"
          using 1(2) by (auto simp: remove_where_def distinct_map_filter)
        have same: "y = x" if "y \<in> set rows" "idf y = idf x" for y
          using 1(2) that index_begin_mem [OF Some] by (auto simp: distinct_map dest: inj_onD)
        have "drop_while_first idf key P rows = drop_while_first idf key P ?rest"
          using Some True by (simp add: drop_while_first.simps [of idf key P rows])
        with 1(1) [OF Some True rest(2)] rest True same show ?thesis by auto
      next
        case False
        with Some 1(2) show ?thesis by (simp add: drop_while_first.simps [of idf key P rows])
      qed
    qed
  qed
  then show "set (drop_while_first idf key P rows) \<subseteq> set rows" "distinct (map idf (drop_while_first idf key P rows))"
    "r \<in> set rows \<Longrightarrow> r \<in> set (drop_while_first idf key P rows) \<or> P r" by blast+
qed

lemma clear_expired_spent:
  assumes "spent S db" "0 < head_block_num db"
  shows "spent S (clear_expired_transactions db)"
proof -
  let ?rows = "tb_rows (db_transactions db)"
  let ?left = "drop_while_first txo_id txo_expiration (\<lambda>t. head_block_time db > txo_expiration t) ?rows"
  have wf: "distinct (map txo_id ?rows)" using assms(1) by (simp add: spent_def wf_table_def)
  note left = drop_while_first_rows [OF wf, where key = txo_expiration and P = "\<lambda>t. head_block_time db > txo_expiration t"]
  have "wf_table txo_id (db_transactions (clear_expired_transactions db))"
    using assms(1) left(1,2) by (auto simp: spent_def wf_table_def clear_expired_transactions_def)
  moreover have "s \<in> remembered (clear_expired_transactions db) \<or> snd s < head_block_time db" if "s \<in> S" for s
  proof -
    from assms(1) that consider r where "r \<in> set ?rows" "s = (txo_trx_id r, txo_expiration r)" | "snd s < head_block_time db"
      by (auto simp: spent_def remembered_def)
    then show ?thesis
    proof cases
      case (1 r)
      with left(3) [OF 1(1)] show ?thesis by (auto simp: remembered_def clear_expired_transactions_def)
    qed simp
  qed
  ultimately show ?thesis using assms(2) by (auto simp: spent_def clear_expired_head)
qed

lemma block_spends:
  assumes keep: "plugins_keep_head (cp_env cp)" and spent: "spent S db" and num: "block_num b \<noteq> 0"
    and run: "apply_block_state cp 0 b db = Inr db'"
  shows "distinct (map (stamp cp) (transactions b)) \<and> stamp cp ` set (transactions b) \<inter> S = {}
     \<and> spent (stamp cp ` set (transactions b) \<union> S) db'"
proof -
  from run obtain d where d: "begin_block cp 0 b db = Inr d" "finish_block cp b d = Inr db'"
    by (auto simp: apply_block_state_def bindR_Inr_iff)
  from d(1) obtain signing d1 d2 d3 n where
    d1: "process_header_extensions b (modify_dgp (\<lambda>dgp. dgp\<lparr>dgp_current_bobserver := bobserver b\<rparr>) db) = Inr d1"
    and d2: "foldR (\<lambda>db trx. apply_transaction cp 0 trx db) d1 (transactions b) = Inr d2"
    and d3: "update_global_dynamic_data (cp_block cp) 0 b d2 = Inr d3"
    and dd: "d = modify_dgp (\<lambda>p. p\<lparr>dgp_last_irreversible_block_num := n\<rparr>) (update_signing_bobserver signing b d3)"
    by (rule begin_blockE)
  obtain t where "d1 = (modify_dgp (\<lambda>dgp. dgp\<lparr>dgp_current_bobserver := bobserver b\<rparr>) db)\<lparr>db_bobservers := t\<rparr>"
    using process_header_extensions_frame [OF d1] by blast
  then have "same_head db d1" by (simp add: head_defs modify_dgp_def)
  then have time1: "head_block_time d1 = head_block_time db" and spent1: "spent S d1" using spent spent_same_head by (auto simp: same_head_def)
  note all = apply_transactions_spend [OF keep spent1 d2]
  obtain t' where "d3 = d2\<lparr>db_bobservers := t', db_dgp := advance_dgp (cp_block cp) b (missed_blocks b d2) (db_dgp d2)\<rparr>"
    using update_global_dynamic_data_Inr [OF d3] .
  then have txs: "db_transactions d = db_transactions d2" by (simp add: dd modify_dgp_def update_signing_bobserver_def modify_bobserver_def Let_def)
  note head = begin_block_head [OF d(1)]
  have pos: "0 < head_block_num d" using num head(2) by (simp add: unat_gt_0)
  have lt: "head_block_time d2 < head_block_time d" using all head(3,5) time1 by simp
  have rem: "remembered d = remembered d2" using txs by (simp add: remembered_def)
  have spent2: "spent (stamp cp ` set (transactions b) \<union> S) d2" using all by blast
  have "s \<in> remembered d \<or> snd s < head_block_time d" if "s \<in> stamp cp ` set (transactions b) \<union> S" for s
  proof -
    have "s \<in> remembered d2 \<or> snd s < head_block_time d2" using spent2 that unfolding spent_def by blast
    then show ?thesis using lt rem by (elim disjE) auto
  qed
  moreover have "wf_table txo_id (db_transactions d)" using spent2 txs by (simp add: spent_def)
  ultimately have "spent (stamp cp ` set (transactions b) \<union> S) d" using pos by (simp add: spent_def)
  then have "spent (stamp cp ` set (transactions b) \<union> S) (create_block_summary (cp_block cp) b d)" by (simp add: spent_def remembered_def)
  from spent_same_head [OF finish_block_head [OF keep d(2)] clear_expired_spent [OF this]] pos all show ?thesis by simp
qed

text \<open>
  C5: No transaction is applied twice: over any sequence of blocks applied with all checks, no two transactions,
  in one block or in different ones, have the same id and expiration, although the node forgets a
  transaction once it has expired. Block numbers must not have wrapped to zero.
\<close>

theorem no_replay:
  assumes "plugins_keep_head (cp_env cp)" "wf_table txo_id (db_transactions db)" "\<forall>b \<in> set bs. block_num b \<noteq> 0"
    and "foldR (\<lambda>db b. apply_block_state cp 0 b db) db bs = Inr db'"
  shows "distinct (map (stamp cp) (concat (map transactions bs)))"
proof -
  have "spent S db \<Longrightarrow> \<forall>b \<in> set bs. block_num b \<noteq> 0 \<Longrightarrow> foldR (\<lambda>db b. apply_block_state cp 0 b db) db bs = Inr db'
    \<Longrightarrow> distinct (map (stamp cp) (concat (map transactions bs))) \<and> stamp cp ` set (concat (map transactions bs)) \<inter> S = {}" for S
  proof (induction bs arbitrary: S db)
    case (Cons b bs)
    from Cons.prems(3) obtain d where d: "apply_block_state cp 0 b db = Inr d" "foldR (\<lambda>db b. apply_block_state cp 0 b db) d bs = Inr db'"
      by (auto simp: bindR_Inr_iff)
    from Cons.prems(2) have "block_num b \<noteq> 0" by simp
    note one = block_spends [OF assms(1) Cons.prems(1) this d(1)]
    from Cons.IH [OF _ _ d(2), of "stamp cp ` set (transactions b) \<union> S"] one Cons.prems(2) show ?case by fastforce
  qed simp
  moreover have "spent {} db" using assms(2) by (simp add: spent_def)
  ultimately show ?thesis using assms(3,4) by blast
qed

section \<open>Examples\<close>

text \<open>
  The small chain just after genesis, with a producer and the null account, and its first block: alice pays bob.
  Every hash is zero, every signature is by key 7, and no account asks for a signature.
\<close>

definition example_params :: chain_params where
  "example_params = \<lparr>cp_trx = \<lparr>pack_digest = (\<lambda>_. replicate 8 0), pack_sig_digest = (\<lambda>_ _. []), pack_merkle_digest = (\<lambda>_. []),
       recover_key = (\<lambda>_ _. Inr 7)\<rparr>,
     cp_block = \<lparr>header_digest = (\<lambda>_. []), header_sha224 = (\<lambda>_. replicate 7 0), recover_signee = (\<lambda>_ _. Inr 7),
       pair_hash = (\<lambda>x y. []), checksum_hash = (\<lambda>_. [])\<rparr>,
     cp_text = accept_text, cp_chain_id = [], cp_trx_size = (\<lambda>_. 100), cp_block_size = (\<lambda>_. 200), cp_env = example_env\<rparr>"

definition example_start :: chain_db where
  "example_start = example_null_db\<lparr>db_bobservers := \<lparr>tb_next = 1, tb_rows = [example_observer]\<rparr>,
     db_accounts := \<lparr>tb_next = 5, tb_rows = tb_rows (db_accounts example_null_db) @ [example_account 4 SIGMAENGINE_INIT_MINER_NAME 0]\<rparr>,
     db_authorities := \<lparr>tb_next = 1, tb_rows = [\<lparr>aut_id = 0, aut_account = ''alice'',
       aut_owner = empty_authority\<lparr>weight_threshold := 1, key_auths := [(7, 1)]\<rparr>,
       aut_active = empty_authority\<lparr>weight_threshold := 1, key_auths := [(7, 1)]\<rparr>, aut_posting = empty_authority, aut_last_owner_update = 0\<rparr>]\<rparr>,
     db_dgp := example_dgp\<lparr>dgp_head_block_number := 0, dgp_last_irreversible_block_num := 0\<rparr>\<rparr>"

definition example_block :: signed_block where
  "example_block = \<lparr>previous = [0, 0, 0, 0, 0], timestamp = 1600000006, bobserver = SIGMAENGINE_INIT_MINER_NAME,
     transaction_merkle_root = [], extensions = [], bobserver_signature = [],
     transactions = [\<lparr>ref_block_num = 0, ref_block_prefix = 0, expiration = 1600000100, operations = [Transfer alice_pays_bob],
       trx_extensions = [], signatures = [[]]\<rparr>]\<rparr>"

lemmas block_eval = example_params_def example_block_def example_start_def example_null_db_def slot_eval economy_eval
  head_block_id_def validate_block_header_def validate_signee_def signee_def get_scheduled_bobserver_def
  check_merkle_def calculate_merkle_root_def merkle_loop.simps

lemmas transaction_eval = apply_transaction_def transaction_validate_def trx_verify_authority_def get_signature_keys_def
  check_tapos_def remember_transaction_def apply_operations_def signed_transaction_id_def transaction_id_def
  transfer_validate_def validate_account_name_def name_eval is_valid_account_name_def is_letter_def is_let_dig_def
  SIGMAENGINE_MIN_ACCOUNT_NAME_LENGTH_def SIGMAENGINE_MAX_ACCOUNT_NAME_LENGTH_def upt_rec validate_memo_def
  SIGMAENGINE_MAX_MEMO_SIZE_def accept_text_def SIGMAENGINE_MAX_SIG_CHECK_DEPTH_def get_active_def get_owner_def get_posting_def
  get_account_authority_def guardR_def verify_eval list_all_iff transaction_clash_def empty_authority_def

lemmas processing_eval = begin_block_def process_header_extensions_def update_global_dynamic_data_def missed_blocks_def
  count_missed_def advance_dgp_def fill_slots_def fill_slot_def update_signing_bobserver_def set_irreversible_def next_irreversible_def
  modify_bobserver_def SIGMAENGINE_MAX_UNDO_HISTORY_def block_num_def num_from_id_def endian_reverse_u32_def
  finish_block_def clear_expired_transactions_def create_block_summary_def drop_while_first.simps update_bobserver_schedule_def
  clear_null_account_balance_def clear_balance_def clear_savings_def SIGMAENGINE_NULL_ACCOUNT_def process_funds_def reward_account_def
  process_savings_withdraws_def savings_loop.simps savings_begin_def process_fund_withdraws.simps staking_begin_def
  account_recovery_processing_def clear_histories_def clear_recovery_requests_def apply_change_requests.simps
  process_hardforks_def timed_hardforks.simps has_hardfork_def apply_hardfork_def hardfork_consts hardfork_times_def push_virtual_operation_def

lemma example_applies:
  obtains db' where "apply_block_state example_params 0 example_block example_start = Inr db'"
proof -
  have "is_ok (apply_block_state example_params 0 example_block example_start)"
    by (simp add: apply_block_state_def block_eval transaction_eval processing_eval)
  then show ?thesis using that by (auto simp: is_ok_iff)
qed

lemma example_start_good: "wf_db example_start" "wf_table txo_id (db_transactions example_start)"
  by (simp_all add: wf_db_def wf_table_def example_start_def example_null_db_def SIGMAENGINE_NULL_ACCOUNT_def SIGMAENGINE_INIT_MINER_NAME_def
      example_eval)

lemma example_params_good: "plugins_balanced (cp_env example_params)" "plugins_keep_head (cp_env example_params)"
  by (simp_all add: example_params_def example_env_good(1)) (simp add: plugins_keep_head_def example_env_def)

theorem block_keeps_books_witness:
  "\<exists>db'. apply_block_state example_params 0 example_block example_start = Inr db' \<and> wf_db db' \<and> unaccounted db' = 0"
proof -
  obtain db' where db': "apply_block_state example_params 0 example_block example_start = Inr db'" by (rule example_applies)
  have "unaccounted example_start = 0"
    by (simp add: books_defs example_start_def example_null_db_def SIGMAENGINE_NULL_ACCOUNT_def SIGMAENGINE_INIT_MINER_NAME_def example_eval)
  with block_keeps_books [OF example_params_good(1) example_start_good(1) db'] db' show ?thesis by auto
qed


theorem no_replay_witness: "distinct (map (stamp example_params) (concat (map transactions [example_block])))"
proof -
  obtain db' where "apply_block_state example_params 0 example_block example_start = Inr db'" by (rule example_applies)
  then have run: "foldR (\<lambda>db b. apply_block_state example_params 0 b db) example_start [example_block] = Inr db'" by simp
  have "\<forall>b \<in> set [example_block]. block_num b \<noteq> 0"
    by (simp add: block_num_def num_from_id_def endian_reverse_u32_def example_block_def)
  from no_replay [OF example_params_good(2) example_start_good(2) this run] show ?thesis .
qed

end
