(* ===== verification/Fork_Database.thy ===== *)
theory Fork_Database
  imports Transaction
begin

text \<open>
  The fork database of \<^verbatim>\<open>libraries/chain/fork_database.cpp\<close>: the tree of recent blocks from
  which a node picks its head, and the search for the branches that separate two blocks.
  Items are shared objects that point to their predecessor by a weak pointer, so the model
  has a heap: an address stands for a \<^verbatim>\<open>shared_ptr\<close>, and a weak pointer locks as long as the
  index, the cache of unlinked blocks or the head still owns the item.
  No code sets the flag \<^verbatim>\<open>invalid\<close> of an item, \<^verbatim>\<open>_push_next\<close> has no caller, and \<^verbatim>\<open>_unlinked_index\<close> is never filled, because the statement
  that fills it stands behind a \<^verbatim>\<open>throw\<close>.
\<close>

section \<open>State\<close>

record fork_item =
  fi_prev :: "nat option"
  fi_num :: nat
  fi_invalid :: bool
  fi_id :: block_id_type
  fi_data :: signed_block

record fork_database =
  fd_heap :: "nat \<rightharpoonup> fork_item"
  fd_fresh :: nat
  fd_index :: "nat list"
  fd_unlinked :: "nat list"
  fd_head :: "nat option"
  fd_max_size :: nat

definition empty_fork_database :: fork_database where
  "empty_fork_database =
     \<lparr>fd_heap = Map.empty, fd_fresh = 0, fd_index = [], fd_unlinked = [], fd_head = None, fd_max_size = 1024\<rparr>"

definition mk_fork_item :: "block_crypto \<Rightarrow> signed_block \<Rightarrow> fork_item" where
  "mk_fork_item bc d =
     \<lparr>fi_prev = None, fi_num = unat (block_num d), fi_invalid = False, fi_id = block_id bc d, fi_data = d\<rparr>"

definition previous_id :: "fork_item \<Rightarrow> block_id_type" where
  "previous_id it = previous (fi_data it)"

text \<open>Dereferencing an address; every address the database holds is allocated.\<close>

definition item_at :: "fork_database \<Rightarrow> nat \<Rightarrow> fork_item" where
  "item_at fd a = the (fd_heap fd a)"

definition owned :: "fork_database \<Rightarrow> nat \<Rightarrow> bool" where
  "owned fd a \<longleftrightarrow> a \<in> set (fd_index fd) \<or> a \<in> set (fd_unlinked fd) \<or> fd_head fd = Some a"

definition lock_prev :: "fork_database \<Rightarrow> nat \<Rightarrow> nat option" where
  "lock_prev fd a =
     (case fi_prev (item_at fd a) of
        None \<Rightarrow> None
      | Some p \<Rightarrow> if owned fd p then Some p else None)"

definition find_by_id :: "fork_database \<Rightarrow> nat list \<Rightarrow> block_id_type \<Rightarrow> nat option" where
  "find_by_id fd idx bid = find (\<lambda>a. fi_id (item_at fd a) = bid) idx"

section \<open>Operations\<close>

definition fork_reset :: "fork_database \<Rightarrow> fork_database" where
  "fork_reset fd = fd\<lparr>fd_head := None, fd_index := []\<rparr>"

definition fork_pop_block :: "fork_database \<Rightarrow> fork_database result" where
  "fork_pop_block fd =
     (case fd_head fd of
        None \<Rightarrow> Inl (Assert_exception Empty_fork_database)
      | Some h \<Rightarrow>
          (case lock_prev fd h of
             None \<Rightarrow> Inl (Assert_exception Empty_fork_database)
           | Some p \<Rightarrow> Inr (fd\<lparr>fd_head := Some p\<rparr>)))"

text \<open>Allocation, and insertion into an index whose ids are unique: a present id rejects the item.\<close>

definition allocate :: "fork_item \<Rightarrow> fork_database \<Rightarrow> nat \<times> fork_database" where
  "allocate it fd =
     (fd_fresh fd, fd\<lparr>fd_heap := (fd_heap fd)(fd_fresh fd \<mapsto> it), fd_fresh := fd_fresh fd + 1\<rparr>)"

definition index_insert :: "nat \<Rightarrow> fork_database \<Rightarrow> fork_database" where
  "index_insert a fd =
     (case find_by_id fd (fd_index fd) (fi_id (item_at fd a)) of
        None \<Rightarrow> fd\<lparr>fd_index := fd_index fd @ [a]\<rparr>
      | Some _ \<Rightarrow> fd)"

definition start_block :: "block_crypto \<Rightarrow> signed_block \<Rightarrow> fork_database \<Rightarrow> fork_database" where
  "start_block bc b fd =
     (case allocate (mk_fork_item bc b) fd of
        (a, fd1) \<Rightarrow> (index_insert a fd1)\<lparr>fd_head := Some a\<rparr>)"

definition zero_block_id :: block_id_type where
  "zero_block_id = replicate 5 0"

definition link_item :: "fork_item \<Rightarrow> fork_database \<Rightarrow> fork_item result" where
  "link_item it fd =
     (if fd_head fd \<noteq> None \<and> previous_id it \<noteq> zero_block_id then
        (case find_by_id fd (fd_index fd) (previous_id it) of
           None \<Rightarrow> Inl Unlinkable_block_exception
         | Some p \<Rightarrow>
             fc_assert (\<not> fi_invalid (item_at fd p)) Invalid_parent (Inr (it\<lparr>fi_prev := Some p\<rparr>)))
      else Inr it)"

definition check_age :: "fork_item \<Rightarrow> fork_database \<Rightarrow> unit result" where
  "check_age it fd =
     (case fd_head fd of
        None \<Rightarrow> Inr ()
      | Some h \<Rightarrow>
          fc_assert (int (fi_num it) > max 0 (int (fi_num (item_at fd h)) - int (fd_max_size fd))) Too_old_block (Inr ()))"

definition fork_push_block :: "block_crypto \<Rightarrow> signed_block \<Rightarrow> fork_database \<Rightarrow> (nat option \<times> fork_database) result" where
  "fork_push_block bc b fd =
     bindR (check_age (mk_fork_item bc b) fd) (\<lambda>_.
     bindR (link_item (mk_fork_item bc b) fd) (\<lambda>it.
     case allocate it fd of
       (a, fd1) \<Rightarrow>
         let fd2 = index_insert a fd1;
             fd3 = (case fd_head fd2 of
                      None \<Rightarrow> fd2\<lparr>fd_head := Some a\<rparr>
                    | Some h \<Rightarrow> if fi_num it > fi_num (item_at fd2 h) then fd2\<lparr>fd_head := Some a\<rparr> else fd2)
         in Inr (fd_head fd3, fd3)))"

text \<open>
  The erasing loops of \<^verbatim>\<open>set_max_size\<close>: as long as the first item in the order of block
  numbers is older than the bound, erase it.
\<close>

function erase_old :: "fork_database \<Rightarrow> int \<Rightarrow> nat list \<Rightarrow> nat list" where
  "erase_old fd bound idx =
     (case index_begin (\<lambda>a. fi_num (item_at fd a)) idx of
        None \<Rightarrow> idx
      | Some a \<Rightarrow>
          if int (fi_num (item_at fd a)) < bound then erase_old fd bound (remove1 a idx) else idx)"
  by pat_completeness auto
termination
  by (relation "measure (\<lambda>(fd, bound, idx). length idx)")
    (auto simp: length_remove1 dest: index_begin_mem intro: diff_less length_pos_if_in_set)

declare erase_old.simps [simp del]

definition set_max_size :: "nat \<Rightarrow> fork_database \<Rightarrow> fork_database" where
  "set_max_size s fd =
     (let fd1 = fd\<lparr>fd_max_size := s\<rparr> in
      case fd_head fd1 of
        None \<Rightarrow> fd1
      | Some h \<Rightarrow>
          let bound = max 0 (int (fi_num (item_at fd1 h)) - int s)
          in fd1\<lparr>fd_index := erase_old fd1 bound (fd_index fd1),
                 fd_unlinked := erase_old fd1 bound (fd_unlinked fd1)\<rparr>)"

definition is_known_block :: "block_id_type \<Rightarrow> fork_database \<Rightarrow> bool" where
  "is_known_block bid fd \<longleftrightarrow>
     (if find_by_id fd (fd_index fd) bid \<noteq> None then True else find_by_id fd (fd_unlinked fd) bid \<noteq> None)"

definition fetch_block :: "block_id_type \<Rightarrow> fork_database \<Rightarrow> nat option" where
  "fetch_block bid fd =
     (case find_by_id fd (fd_index fd) bid of
        Some a \<Rightarrow> Some a
      | None \<Rightarrow> find_by_id fd (fd_unlinked fd) bid)"

definition fetch_block_by_number :: "nat \<Rightarrow> fork_database \<Rightarrow> nat list" where
  "fetch_block_by_number n fd = filter (\<lambda>a. fi_num (item_at fd a) = n) (fd_index fd)"

text \<open>
  The loops of \<^verbatim>\<open>fetch_branch_from\<close>. An item is created after its predecessor, so addresses
  decrease along the weak pointers and \<open>fd_fresh\<close> bounds every walk; running out of that
  fuel has an error of its own.
\<close>

definition block_num_at :: "fork_database \<Rightarrow> nat \<Rightarrow> nat" where
  "block_num_at fd a = unat (block_num (fi_data (item_at fd a)))"

fun walk_down :: "fork_database \<Rightarrow> nat \<Rightarrow> nat \<Rightarrow> nat \<Rightarrow> nat list \<Rightarrow> (nat list \<times> nat) result" where
  "walk_down fd fuel target a acc =
     (if block_num_at fd a > target then
        (case fuel of
           0 \<Rightarrow> Inl Undo_database_exception
         | Suc fuel' \<Rightarrow>
             (case lock_prev fd a of
                None \<Rightarrow> Inl (Assert_exception Missing_branch)
              | Some p \<Rightarrow> walk_down fd fuel' target p (acc @ [a])))
      else Inr (acc, a))"

fun walk_both ::
  "fork_database \<Rightarrow> nat \<Rightarrow> nat \<Rightarrow> nat \<Rightarrow> nat list \<Rightarrow> nat list \<Rightarrow> (nat list \<times> nat list) result" where
  "walk_both fd fuel a b acc1 acc2 =
     (if previous (fi_data (item_at fd a)) \<noteq> previous (fi_data (item_at fd b)) then
        (case fuel of
           0 \<Rightarrow> Inl Undo_database_exception
         | Suc fuel' \<Rightarrow>
             (case lock_prev fd a of
                None \<Rightarrow> Inl (Assert_exception Missing_branch)
              | Some p \<Rightarrow>
                  (case lock_prev fd b of
                     None \<Rightarrow> Inl (Assert_exception Missing_branch)
                   | Some q \<Rightarrow> walk_both fd fuel' p q (acc1 @ [a]) (acc2 @ [b]))))
      else Inr (acc1 @ [a], acc2 @ [b]))"

declare walk_down.simps [simp del] walk_both.simps [simp del]

definition fetch_branch_from ::
  "block_id_type \<Rightarrow> block_id_type \<Rightarrow> fork_database \<Rightarrow> (nat list \<times> nat list) result" where
  "fetch_branch_from first second fd =
     bindR (of_option (Assert_exception Missing_branch) (find_by_id fd (fd_index fd) first)) (\<lambda>a.
     bindR (of_option (Assert_exception Missing_branch) (find_by_id fd (fd_index fd) second)) (\<lambda>b.
     bindR (walk_down fd (fd_fresh fd) (block_num_at fd b) a []) (\<lambda>(acc1, a').
     bindR (walk_down fd (fd_fresh fd) (block_num_at fd a') b []) (\<lambda>(acc2, b').
     walk_both fd (fd_fresh fd) a' b' acc1 acc2))))"

fun walk_to_num :: "fork_database \<Rightarrow> nat \<Rightarrow> nat \<Rightarrow> nat option \<Rightarrow> nat option result" where
  "walk_to_num fd fuel n next =
     (case next of
        None \<Rightarrow> Inr None
      | Some a \<Rightarrow>
          if fi_num (item_at fd a) > n then
            (case fuel of
               0 \<Rightarrow> Inl Undo_database_exception
             | Suc fuel' \<Rightarrow> walk_to_num fd fuel' n (lock_prev fd a))
          else Inr (Some a))"

declare walk_to_num.simps [simp del]

text \<open>Dereferencing a null head is undefined in the source and the error \<open>Empty_fork_database\<close> here.\<close>

definition walk_main_branch_to_num :: "nat \<Rightarrow> fork_database \<Rightarrow> nat option result" where
  "walk_main_branch_to_num n fd =
     (case fd_head fd of
        None \<Rightarrow> Inl (Assert_exception Empty_fork_database)
      | Some h \<Rightarrow>
          if n > fi_num (item_at fd h) then Inr None
          else walk_to_num fd (fd_fresh fd) n (Some h))"

definition fetch_block_on_main_branch_by_number :: "nat \<Rightarrow> fork_database \<Rightarrow> nat option result" where
  "fetch_block_on_main_branch_by_number n fd =
     (let blocks = fetch_block_by_number n fd in
      if length blocks = 1 then Inr (Some (blocks ! 0))
      else if length blocks = 0 then Inr None
      else walk_main_branch_to_num n fd)"

definition set_head :: "nat option \<Rightarrow> fork_database \<Rightarrow> fork_database" where
  "set_head h fd = fd\<lparr>fd_head := h\<rparr>"

definition fork_remove :: "block_id_type \<Rightarrow> fork_database \<Rightarrow> fork_database" where
  "fork_remove bid fd = fd\<lparr>fd_index := filter (\<lambda>a. fi_id (item_at fd a) \<noteq> bid) (fd_index fd)\<rparr>"

section \<open>Well-formed fork databases\<close>

text \<open>
  Every owned item is allocated, carries the id and number of its block, and its weak
  pointer goes to an older address whose block is the previous one and has the number
  before; ids are unique in the index.
\<close>

definition wf_item :: "block_crypto \<Rightarrow> (nat \<rightharpoonup> fork_item) \<Rightarrow> nat \<Rightarrow> fork_item \<Rightarrow> bool" where
  "wf_item bc heap a it \<longleftrightarrow>
     fi_id it = block_id bc (fi_data it) \<and> fi_num it = unat (block_num (fi_data it))
     \<and> (\<forall>p. fi_prev it = Some p \<longrightarrow> p < a
           \<and> (\<exists>pit. heap p = Some pit \<and> fi_id pit = previous_id it \<and> fi_num it = fi_num pit + 1))"

definition fork_wf :: "block_crypto \<Rightarrow> fork_database \<Rightarrow> bool" where
  "fork_wf bc fd \<longleftrightarrow>
     (\<forall>a. fd_heap fd a \<noteq> None \<longrightarrow> a < fd_fresh fd)
     \<and> (\<forall>a it. fd_heap fd a = Some it \<longrightarrow> wf_item bc (fd_heap fd) a it)
     \<and> (\<forall>a. owned fd a \<longrightarrow> fd_heap fd a \<noteq> None)
     \<and> distinct (map (\<lambda>a. fi_id (item_at fd a)) (fd_index fd))"

definition hash_total :: "block_crypto \<Rightarrow> bool" where
  "hash_total bc \<longleftrightarrow> (\<forall>b. header_sha224 bc b \<noteq> [])"

lemma fork_wf_heap: "fork_wf bc fd \<Longrightarrow> fd_heap fd a = Some it \<Longrightarrow> wf_item bc (fd_heap fd) a it"
  and fork_wf_fresh: "fork_wf bc fd \<Longrightarrow> fd_heap fd a = Some it \<Longrightarrow> a < fd_fresh fd"
  and fork_wf_owned: "fork_wf bc fd \<Longrightarrow> owned fd a \<Longrightarrow> \<exists>it. fd_heap fd a = Some it"
  and fork_wf_distinct: "fork_wf bc fd \<Longrightarrow> distinct (map (\<lambda>a. fi_id (item_at fd a)) (fd_index fd))"
  by (auto simp: fork_wf_def)

lemma find_by_id_Some:
  "find_by_id fd idx bid = Some a \<Longrightarrow> a \<in> set idx \<and> fi_id (item_at fd a) = bid"
  by (auto simp: find_by_id_def dest: find_Some_mem)

lemma find_by_id_None:
  "find_by_id fd idx bid = None \<longleftrightarrow> (\<forall>a \<in> set idx. fi_id (item_at fd a) \<noteq> bid)"
  by (auto simp: find_by_id_def find_None_iff)

lemma wf_item_mono:
  "wf_item bc heap a it \<Longrightarrow> heap n = None \<Longrightarrow> wf_item bc (heap(n \<mapsto> it')) a it"
  by (fastforce simp: wf_item_def)

lemma block_id_num:
  "hash_total bc \<Longrightarrow> num_from_id (block_id bc b) = block_num (b :: signed_block)"
  by (cases "header_sha224 bc (signed_block_header.truncate b)")
    (simp_all add: hash_total_def num_from_id_def block_id_def)

text \<open>Allocating an item that is well formed, and putting it into the index.\<close>

lemma fork_wf_allocate:
  assumes "fork_wf bc fd" "wf_item bc (fd_heap fd) (fd_fresh fd) it" "allocate it fd = (a, fd1)"
  shows "fork_wf bc (index_insert a fd1) \<and> fork_wf bc fd1 \<and> item_at (index_insert a fd1) a = it
     \<and> fd_heap (index_insert a fd1) a = Some it"
proof -
  have fd1: "a = fd_fresh fd" "fd1 = fd\<lparr>fd_heap := (fd_heap fd)(fd_fresh fd \<mapsto> it), fd_fresh := fd_fresh fd + 1\<rparr>"
    using assms(3) by (auto simp: allocate_def)
  have fresh: "fd_heap fd (fd_fresh fd) = None" using assms(1) by (force simp: fork_wf_def)
  have old: "item_at fd1 x = item_at fd x" if "x \<in> set (fd_index fd)" for x
    using that assms(1) fresh by (auto simp: fd1 item_at_def fork_wf_def owned_def)
  have "distinct (map (\<lambda>a. fi_id (item_at fd1 a)) (fd_index fd1))"
    using fork_wf_distinct [OF assms(1)] old by (simp add: fd1 cong: map_cong)
  moreover have "\<forall>x y. fd_heap fd1 x = Some y \<longrightarrow> wf_item bc (fd_heap fd1) x y"
    using assms(1,2) fresh by (auto simp: fd1 fork_wf_def intro: wf_item_mono)
  ultimately have w1: "fork_wf bc fd1"
    using assms(1) unfolding fork_wf_def by (auto simp: fd1 owned_def less_SucI)
  have "fork_wf bc (index_insert a fd1)"
  proof (cases "find_by_id fd1 (fd_index fd1) (fi_id (item_at fd1 a))")
    case None
    then have "\<forall>x \<in> set (fd_index fd1). fi_id (item_at fd1 x) \<noteq> fi_id (item_at fd1 a)"
      by (simp add: find_by_id_None)
    with None w1 show ?thesis
      by (auto simp: index_insert_def fork_wf_def owned_def item_at_def fd1)
  next
    case (Some x)
    with w1 show ?thesis by (simp add: index_insert_def)
  qed
  with w1 show ?thesis by (simp add: index_insert_def item_at_def fd1 split: option.split)
qed

lemma fork_wf_set_head: "fork_wf bc fd \<Longrightarrow> fd_heap fd a \<noteq> None \<Longrightarrow> fork_wf bc (fd\<lparr>fd_head := Some a\<rparr>)"
  by (auto simp: fork_wf_def owned_def item_at_def)

lemma wf_new_item: "wf_item bc heap a (mk_fork_item bc b)"
  by (simp add: wf_item_def mk_fork_item_def)

lemma link_item_wf:
  assumes "fork_wf bc fd" "hash_total bc" "fi_num (mk_fork_item bc b) > 0"
    and "link_item (mk_fork_item bc b) fd = Inr it"
  shows "wf_item bc (fd_heap fd) (fd_fresh fd) it \<and> fi_num it = fi_num (mk_fork_item bc b)
     \<and> fi_id it = block_id bc b \<and> fi_data it = b"
proof (cases "it = mk_fork_item bc b")
  case True
  then show ?thesis using wf_new_item by (simp add: mk_fork_item_def)
next
  case False
  with assms(4) obtain p where p: "find_by_id fd (fd_index fd) (previous_id (mk_fork_item bc b)) = Some p"
    and it: "it = (mk_fork_item bc b)\<lparr>fi_prev := Some p\<rparr>"
    by (auto simp: link_item_def result_simps split: if_splits option.splits)
  from find_by_id_Some [OF p] have pi: "p \<in> set (fd_index fd)" "fi_id (item_at fd p) = previous b"
    by (simp_all add: previous_id_def mk_fork_item_def)
  then obtain pit where pit: "fd_heap fd p = Some pit"
    using fork_wf_owned [OF assms(1)] by (auto simp: owned_def)
  with fork_wf_heap [OF assms(1) pit] have "fi_num pit = unat (block_num (fi_data pit))"
    "fi_id pit = block_id bc (fi_data pit)" by (simp_all add: wf_item_def)
  with pi pit have "fi_num pit = unat (num_from_id (previous b))"
    using block_id_num [OF assms(2), of "fi_data pit"] by (simp add: item_at_def)
  moreover have "unat (num_from_id (previous b) + 1) \<noteq> 0"
    using assms(3) by (simp add: mk_fork_item_def block_num_def)
  ultimately have "unat (block_num b) = fi_num pit + 1"
    by (simp add: block_num_def unat_eq_zero unatSuc add.commute [of _ 1])
  with pi pit fork_wf_fresh [OF assms(1) pit] show ?thesis
    by (simp add: it wf_item_def mk_fork_item_def previous_id_def item_at_def)
qed

lemma check_age_pos: "check_age it fd = Inr () \<Longrightarrow> fd_head fd \<noteq> None \<Longrightarrow> fi_num it > 0"
  by (auto simp: check_age_def result_simps)

lemma push_block_cases:
  assumes "fork_wf bc fd" "hash_total bc" "fork_push_block bc b fd = Inr (h, fd')"
  obtains it a fd2 where "wf_item bc (fd_heap fd) (fd_fresh fd) it" "a = fd_fresh fd" "fi_data it = b"
    "fi_id it = block_id bc b" "fi_num it = unat (block_num b)"
    "fork_wf bc fd2" "fd2 = index_insert a (snd (allocate it fd))" "fd_heap fd2 = (fd_heap fd)(a \<mapsto> it)"
    "fd_head fd2 = fd_head fd" "h = fd_head fd'"
    "fd' = (case fd_head fd of
              None \<Rightarrow> fd2\<lparr>fd_head := Some a\<rparr>
            | Some h \<Rightarrow> if fi_num it > fi_num (item_at fd2 h) then fd2\<lparr>fd_head := Some a\<rparr> else fd2)"
proof -
  from assms(3) obtain it where age: "check_age (mk_fork_item bc b) fd = Inr ()"
    and link: "link_item (mk_fork_item bc b) fd = Inr it"
    by (auto simp: fork_push_block_def result_simps)
  have it: "wf_item bc (fd_heap fd) (fd_fresh fd) it \<and> fi_num it = fi_num (mk_fork_item bc b)
     \<and> fi_id it = block_id bc b \<and> fi_data it = b"
  proof (cases "fd_head fd")
    case None
    with link have "it = mk_fork_item bc b" by (simp add: link_item_def)
    then show ?thesis using wf_new_item by (simp add: mk_fork_item_def)
  next
    case (Some h)
    with link_item_wf [OF assms(1,2) _ link] check_age_pos [OF age] show ?thesis by simp
  qed
  obtain a fd1 where al: "allocate it fd = (a, fd1)" by fastforce
  note w = fork_wf_allocate [OF assms(1) _ al]
  have hp: "fd_heap (index_insert a fd1) = (fd_heap fd)(a \<mapsto> it)" "fd_head (index_insert a fd1) = fd_head fd" "a = fd_fresh fd"
    using al by (auto simp: allocate_def index_insert_def split: option.split)
  show ?thesis
  proof (rule that [of it a "index_insert a fd1"])
    show "fi_num it = unat (block_num b)" using it by (simp add: mk_fork_item_def)
    show "h = fd_head fd'" "fd' = (case fd_head fd of
              None \<Rightarrow> (index_insert a fd1)\<lparr>fd_head := Some a\<rparr>
            | Some h \<Rightarrow> if fi_num it > fi_num (item_at (index_insert a fd1) h)
                then (index_insert a fd1)\<lparr>fd_head := Some a\<rparr> else index_insert a fd1)"
      using assms(3) age link al hp(2) by (auto simp: fork_push_block_def Let_def)
  qed (use it w al hp in auto)
qed

lemma fork_push_wf:
  assumes "fork_wf bc fd" "hash_total bc" "fork_push_block bc b fd = Inr (h, fd')"
  shows "fork_wf bc fd'"
proof -
  from push_block_cases [OF assms] obtain it a fd2 where f: "fork_wf bc fd2" "fd_heap fd2 = (fd_heap fd)(a \<mapsto> it)"
    "fd' = (case fd_head fd of
              None \<Rightarrow> fd2\<lparr>fd_head := Some a\<rparr>
            | Some h \<Rightarrow> if fi_num it > fi_num (item_at fd2 h) then fd2\<lparr>fd_head := Some a\<rparr> else fd2)" by metis
  then show ?thesis using fork_wf_set_head [OF f(1), of a] by (auto split: option.split)
qed

lemma start_block_wf: "fork_wf bc fd \<Longrightarrow> fork_wf bc (start_block bc b fd)"
  using fork_wf_allocate [of bc fd "mk_fork_item bc b"] wf_new_item fork_wf_set_head
  by (auto simp: start_block_def split: prod.splits)

lemma erase_old_filter: "erase_old fd bound idx = filter (\<lambda>a. bound \<le> int (fi_num (item_at fd a))) idx"
proof (induction fd bound idx rule: erase_old.induct)
  case (1 fd bound idx)
  let ?key = "\<lambda>a. fi_num (item_at fd a)"
  show ?case
  proof (cases "index_begin ?key idx")
    case None
    then show ?thesis by (simp add: erase_old.simps [of fd])
  next
    case (Some a)
    show ?thesis
    proof (cases "int (?key a) < bound")
      case True
      with 1 Some have "erase_old fd bound idx = filter (\<lambda>a. bound \<le> int (?key a)) (remove1 a idx)"
        by (simp add: erase_old.simps [of fd])
      also have "\<dots> = filter (\<lambda>a. bound \<le> int (?key a)) idx"
        using True by (induction idx) auto
      finally show ?thesis .
    next
      case False
      then have "\<forall>b \<in> set idx. bound \<le> int (?key b)"
        using index_begin_least [OF Some] by (smt (verit, ccfv_threshold) of_nat_le_iff)
      with False Some show ?thesis by (simp add: erase_old.simps [of fd] filter_id_conv)
    qed
  qed
qed

lemma fork_wf_shrink:
  assumes "fork_wf bc fd" "fd_heap fd' = fd_heap fd" "fd_fresh fd' = fd_fresh fd"
    "fd_index fd' = filter P (fd_index fd)" "set (fd_unlinked fd') \<subseteq> set (fd_unlinked fd)"
    "\<And>a. fd_head fd' = Some a \<Longrightarrow> fd_heap fd a \<noteq> None"
  shows "fork_wf bc fd'"
  using assms unfolding fork_wf_def owned_def item_at_def
  by (auto simp: distinct_map_filter)

text \<open>The operations the chain performs on the fork database.\<close>

inductive fork_step :: "block_crypto \<Rightarrow> fork_database \<Rightarrow> fork_database \<Rightarrow> bool" for bc where
  fs_reset: "fork_step bc fd (fork_reset fd)"
| fs_start: "fork_step bc fd (start_block bc b fd)"
| fs_push: "fork_push_block bc b fd = Inr (h, fd') \<Longrightarrow> fork_step bc fd fd'"
| fs_pop: "fork_pop_block fd = Inr fd' \<Longrightarrow> fork_step bc fd fd'"
| fs_size: "fork_step bc fd (set_max_size s fd)"
| fs_remove: "fork_step bc fd (fork_remove bid fd)"
| fs_head: "fd_heap fd a \<noteq> None \<Longrightarrow> fork_step bc fd (set_head (Some a) fd)"

inductive_cases fork_stepE: "fork_step bc fd fd'"

lemma fork_step_wf:
  assumes "hash_total bc" "fork_step bc fd fd'" "fork_wf bc fd"
  shows "fork_wf bc fd'"
  using assms(2)
proof cases
  case fs_reset
  then show ?thesis using fork_wf_shrink [OF assms(3), of fd' "\<lambda>_. False"] by (simp add: fork_reset_def)
next
  case (fs_start b)
  then show ?thesis using start_block_wf assms(3) by simp
next
  case (fs_push b h)
  then show ?thesis using fork_push_wf assms by blast
next
  case fs_pop
  then obtain p h where "fd' = fd\<lparr>fd_head := Some p\<rparr>" "lock_prev fd h = Some p"
    by (auto simp: fork_pop_block_def split: option.splits)
  moreover from this have "owned fd p" by (auto simp: lock_prev_def split: option.splits if_splits)
  ultimately show ?thesis using fork_wf_set_head [OF assms(3)] fork_wf_owned [OF assms(3)] by fastforce
next
  case (fs_size s)
  then show ?thesis
    using fork_wf_shrink [OF assms(3), of fd' "\<lambda>a. max 0 (int (fi_num (item_at fd (the (fd_head fd)))) - int s)
        \<le> int (fi_num (item_at fd a))"] fork_wf_shrink [OF assms(3), of fd' "\<lambda>_. True"] fork_wf_owned [OF assms(3)]
    by (auto simp: set_max_size_def Let_def erase_old_filter item_at_def owned_def split: option.splits)
next
  case (fs_remove bid)
  then show ?thesis using fork_wf_shrink [OF assms(3), of fd'] fork_wf_owned [OF assms(3)]
    by (auto simp: fork_remove_def owned_def)
next
  case (fs_head a)
  then show ?thesis using fork_wf_set_head assms(3) by (simp add: set_head_def)
qed

text \<open>
  C20: The fork database stays a tree of linked blocks. In every state reached from the empty
  database by the operations of the chain, each item carries the id and number of its block,
  and its predecessor pointer leads to an item with the id of the previous block and the
  number before; the index never holds two blocks with one id.
\<close>

theorem fork_reachable_wf:
  assumes "hash_total bc" "(fork_step bc)\<^sup>*\<^sup>* empty_fork_database fd"
  shows "fork_wf bc fd"
  using assms(2)
proof (induction rule: rtranclp_induct)
  case base
  show ?case by (simp add: fork_wf_def empty_fork_database_def owned_def)
next
  case (step fd fd')
  then show ?case using fork_step_wf [OF assms(1)] by blast
qed

text \<open>
  A pushed block is known afterwards, and the head is the longer of the old head and
  the new block: a successful push leaves a block with the pushed id in the index and
  returns the head, whose number is the larger of the two numbers.
\<close>

theorem fork_push_known_and_longest:
  assumes "fork_wf bc fd" "hash_total bc" "fork_push_block bc b fd = Inr (h, fd')"
  shows "is_known_block (block_id bc b) fd' \<and> h = fd_head fd' \<and>
     (\<exists>a. h = Some a \<and> fi_num (item_at fd' a) =
        (case fd_head fd of
           None \<Rightarrow> unat (block_num b)
         | Some old \<Rightarrow> max (fi_num (item_at fd old)) (unat (block_num b))))"
proof -
  obtain it a fd2 where
    it: "a = fd_fresh fd" "fi_id it = block_id bc b" "fi_num it = unat (block_num b)" and
    fd2: "fd2 = index_insert a (snd (allocate it fd))" "fd_heap fd2 = (fd_heap fd)(a \<mapsto> it)" and
    h: "h = fd_head fd'" "fd' = (case fd_head fd of
              None \<Rightarrow> fd2\<lparr>fd_head := Some a\<rparr>
            | Some h \<Rightarrow> if fi_num it > fi_num (item_at fd2 h) then fd2\<lparr>fd_head := Some a\<rparr> else fd2)"
    and hd2: "fd_head fd2 = fd_head fd"
    by (rule push_block_cases [OF assms], rule that) assumption+
  have same: "fd_heap fd' = fd_heap fd2" "fd_index fd' = fd_index fd2"
    using h(2) by (auto split: option.splits)
  have at: "item_at fd' x = item_at fd2 x" for x by (simp add: item_at_def same)
  have ida: "item_at fd2 a = it" by (simp add: item_at_def fd2(2))
  have "find_by_id fd2 (fd_index fd2) (block_id bc b) \<noteq> None"
  proof (cases "find_by_id (snd (allocate it fd)) (fd_index fd) (block_id bc b)")
    case None
    then have "fd_index fd2 = fd_index fd @ [a]"
      using it by (simp add: fd2(1) index_insert_def allocate_def item_at_def)
    then show ?thesis using ida it(2) by (auto simp: find_by_id_None)
  next
    case (Some x)
    then have "fd2 = snd (allocate it fd)"
      using it by (simp add: fd2(1) index_insert_def allocate_def item_at_def)
    with Some show ?thesis by (simp add: allocate_def)
  qed
  then have known: "is_known_block (block_id bc b) fd'"
    by (simp add: is_known_block_def find_by_id_def at same)
  show ?thesis
  proof (cases "fd_head fd")
    case None
    with h known at ida it show ?thesis by simp
  next
    case (Some old)
    then obtain oit where o: "fd_heap fd old = Some oit" using fork_wf_owned [OF assms(1)] by (auto simp: owned_def)
    then have "old \<noteq> a" using fork_wf_fresh [OF assms(1) o] it(1) by simp
    then have "item_at fd2 old = item_at fd old" by (simp add: item_at_def fd2(2))
    with Some h known at ida it hd2 show ?thesis by auto
  qed
qed

definition example_fork_block :: "block_id_type \<Rightarrow> signed_block" where
  "example_fork_block prev =
     \<lparr>previous = prev, timestamp = 30, bobserver = ''alice'', transaction_merkle_root = replicate 5 0,
      extensions = [], bobserver_signature = [], transactions = []\<rparr>"

definition example_genesis :: signed_block where
  "example_genesis = example_fork_block zero_block_id"

definition example_child :: signed_block where
  "example_child = example_fork_block (block_id example_block_crypto example_genesis)"

definition example_forks :: fork_database where
  "example_forks = start_block example_block_crypto example_genesis empty_fork_database"

lemma example_hash_total: "hash_total example_block_crypto"
  by (simp add: hash_total_def example_block_crypto_def)

lemma example_forks_reachable: "(fork_step example_block_crypto)\<^sup>*\<^sup>* empty_fork_database example_forks"
  unfolding example_forks_def by (intro r_into_rtranclp fs_start)

lemma example_nums:
  "num_from_id zero_block_id = 0" "block_num example_genesis = 1"
  "num_from_id (block_id example_block_crypto example_genesis) = 1" "block_num example_child = 2"
  using block_id_num [OF example_hash_total, of example_genesis]
  by (simp_all add: num_from_id_def zero_block_id_def endian_reverse_u32_def block_num_def example_genesis_def
      example_fork_block_def example_child_def)

theorem fork_reachable_wf_witness: "fork_wf example_block_crypto example_forks"
  by (rule fork_reachable_wf [OF example_hash_total example_forks_reachable])

lemma example_forks_simps:
  "fd_head example_forks = Some 0" "fd_index example_forks = [0]" "fd_fresh example_forks = 1"
  "fd_unlinked example_forks = []" "item_at example_forks 0 = mk_fork_item example_block_crypto example_genesis"
  "fd_max_size example_forks = 1024"
  by (simp_all add: example_forks_def start_block_def allocate_def index_insert_def find_by_id_def
      empty_fork_database_def item_at_def)

definition example_forks2 :: fork_database where
  "example_forks2 =
     \<lparr>fd_heap = [0 \<mapsto> mk_fork_item example_block_crypto example_genesis,
                 1 \<mapsto> (mk_fork_item example_block_crypto example_child)\<lparr>fi_prev := Some 0\<rparr>],
      fd_fresh = 2, fd_index = [0, 1], fd_unlinked = [], fd_head = Some 1, fd_max_size = 1024\<rparr>"

lemma example_ids: "block_id example_block_crypto example_child \<noteq> block_id example_block_crypto example_genesis"
  using block_id_num [OF example_hash_total, of example_child] example_nums by (metis one_neq_zero
      add_left_cancel one_add_one add_0_right)

lemma example_push:
  "fork_push_block example_block_crypto example_child example_forks = Inr (Some 1, example_forks2)"
proof -
  have age: "check_age (mk_fork_item example_block_crypto example_child) example_forks = Inr ()"
    by (simp add: check_age_def example_forks_simps mk_fork_item_def example_nums)
  have "find_by_id example_forks (fd_index example_forks) (previous example_child) = Some 0"
    by (simp add: find_by_id_def example_forks_simps mk_fork_item_def example_child_def example_fork_block_def)
  then have "link_item (mk_fork_item example_block_crypto example_child) example_forks
      = Inr ((mk_fork_item example_block_crypto example_child)\<lparr>fi_prev := Some 0\<rparr>)"
    using example_nums by (auto simp: link_item_def previous_id_def mk_fork_item_def example_forks_simps
        example_child_def example_fork_block_def)
  with age example_ids show ?thesis
    by (simp add: fork_push_block_def allocate_def Let_def index_insert_def find_by_id_def item_at_def
        example_forks_def start_block_def empty_fork_database_def example_forks2_def mk_fork_item_def example_nums)
qed

lemma example_forks2_reachable: "(fork_step example_block_crypto)\<^sup>*\<^sup>* empty_fork_database example_forks2"
  using example_forks_reachable fs_push [OF example_push] by (rule rtranclp.rtrancl_into_rtrancl)

theorem fork_push_known_and_longest_witness:
  "\<exists>h fd'. fork_push_block example_block_crypto example_child example_forks = Inr (h, fd')
     \<and> is_known_block (block_id example_block_crypto example_child) fd'
     \<and> (\<exists>a. h = Some a \<and> fi_num (item_at fd' a) = 2)"
proof -
  have "fork_wf example_block_crypto example_forks"
    unfolding example_forks_def by (rule start_block_wf) (simp add: fork_wf_def empty_fork_database_def owned_def)
  from fork_push_known_and_longest [OF this example_hash_total example_push]
  have "is_known_block (block_id example_block_crypto example_child) example_forks2"
    "fi_num (item_at example_forks2 1) = 2"
    by (simp_all add: example_forks_simps mk_fork_item_def example_nums)
  with example_push show ?thesis by blast
qed

text \<open>
  \<^verbatim>\<open>set_max_size\<close> forgets exactly the blocks that are too old: with a head, the blocks left
  in the index are those whose number is not below the head number minus the new size, in
  their old order, and the head stays.
\<close>

theorem set_max_size_keeps_recent:
  assumes "fd_head fd = Some h"
  shows "fd_index (set_max_size s fd) = filter (\<lambda>a. fi_num (item_at fd a) \<ge> fi_num (item_at fd h) - s) (fd_index fd)
     \<and> fd_head (set_max_size s fd) = Some h \<and> fd_max_size (set_max_size s fd) = s"
proof -
  have "(max 0 (int (fi_num (item_at fd h)) - int s) \<le> int (fi_num (item_at fd a)))
      \<longleftrightarrow> fi_num (item_at fd h) - s \<le> fi_num (item_at fd a)" for a by linarith
  with assms show ?thesis
    by (simp add: set_max_size_def Let_def erase_old_filter item_at_def)
qed

theorem set_max_size_keeps_recent_witness:
  "fd_index (set_max_size 3 example_forks) = [0] \<and> fd_head (set_max_size 3 example_forks) = Some 0"
  using set_max_size_keeps_recent [of example_forks 0 3] by (simp add: example_forks_simps mk_fork_item_def)

section \<open>The branches between two blocks\<close>

definition links :: "fork_database \<Rightarrow> nat list \<Rightarrow> bool" where
  "links fd xs = successively (\<lambda>a p. lock_prev fd a = Some p) xs"

abbreviation reaches :: "fork_database \<Rightarrow> nat \<Rightarrow> nat \<Rightarrow> bool" where
  "reaches fd \<equiv> (\<lambda>a p. lock_prev fd a = Some p)\<^sup>*\<^sup>*"

lemma lock_prev_spec:
  assumes "fork_wf bc fd" "fd_heap fd a \<noteq> None" "lock_prev fd a = Some p"
  shows "p < a \<and> fd_heap fd p \<noteq> None \<and> block_num_at fd a = block_num_at fd p + 1"
proof -
  obtain it where it: "fd_heap fd a = Some it" using assms(2) by blast
  then have p: "fi_prev it = Some p"
    using assms(3) by (auto simp: lock_prev_def item_at_def split: option.splits if_splits)
  with fork_wf_heap [OF assms(1) it] obtain pit where pit: "p < a" "fd_heap fd p = Some pit" "fi_num it = fi_num pit + 1"
    by (auto simp: wf_item_def)
  with fork_wf_heap [OF assms(1) it] fork_wf_heap [OF assms(1) pit(2)] it show ?thesis
    by (auto simp: wf_item_def block_num_at_def item_at_def)
qed

lemma reaches_num:
  assumes "fork_wf bc fd" "reaches fd a c" "fd_heap fd a \<noteq> None"
  shows "fd_heap fd c \<noteq> None \<and> block_num_at fd c \<le> block_num_at fd a
     \<and> (block_num_at fd c = block_num_at fd a \<longrightarrow> c = a)"
  using assms(2,3)
proof (induction rule: rtranclp_induct)
  case (step y z)
  with lock_prev_spec [OF assms(1), of y z] show ?case by auto
qed simp

lemma reaches_first:
  assumes "reaches fd a c" "a \<noteq> c"
  obtains p where "lock_prev fd a = Some p" "reaches fd p c"
  using assms(1) by (rule converse_rtranclpE) (use assms(2) that in auto)

lemma links_snoc: "links fd (xs @ [a]) \<Longrightarrow> lock_prev fd a = Some p \<Longrightarrow> links fd ((xs @ [a]) @ [p])"
  by (simp add: links_def successively_append_iff del: append_assoc)

text \<open>Walking down one branch, from a block that reaches a common ancestor not above the target.\<close>

lemma walk_down_spec:
  assumes "fork_wf bc fd" "reaches fd a c" "block_num_at fd c \<le> t" "fd_heap fd a \<noteq> None" "a \<le> fuel"
    and "links fd (acc @ [a])"
  shows "\<exists>ys a'. walk_down fd fuel t a acc = Inr (acc @ ys, a') \<and> reaches fd a' c \<and> fd_heap fd a' \<noteq> None
     \<and> hd (ys @ [a']) = a \<and> links fd (acc @ ys @ [a']) \<and> block_num_at fd a' = min (block_num_at fd a) t \<and> a' \<le> a"
  using assms(2-)
proof (induction fuel arbitrary: a acc)
  case 0
  have "\<not> block_num_at fd a > t"
  proof
    assume "block_num_at fd a > t"
    then have "a \<noteq> c" using 0(2) by auto
    with 0(1) obtain p where "lock_prev fd a = Some p" by (rule reaches_first)
    with lock_prev_spec [OF assms(1) 0(3)] 0(4) show False by simp
  qed
  with 0 show ?case by (simp add: walk_down.simps)
next
  case (Suc fuel)
  show ?case
  proof (cases "block_num_at fd a > t")
    case False
    with Suc.prems show ?thesis by (simp add: walk_down.simps)
  next
    case True
    then have "a \<noteq> c" using Suc.prems(2) by auto
    with Suc.prems(1) obtain p where p: "lock_prev fd a = Some p" "reaches fd p c" by (rule reaches_first)
    note lp = lock_prev_spec [OF assms(1) Suc.prems(3) p(1)]
    have "\<exists>ys a'. walk_down fd fuel t p (acc @ [a]) = Inr ((acc @ [a]) @ ys, a') \<and> reaches fd a' c \<and> fd_heap fd a' \<noteq> None
     \<and> hd (ys @ [a']) = p \<and> links fd ((acc @ [a]) @ ys @ [a']) \<and> block_num_at fd a' = min (block_num_at fd p) t \<and> a' \<le> p"
      using Suc.prems lp p by (intro Suc.IH links_snoc) auto
    then obtain ys a' where "walk_down fd fuel t p (acc @ [a]) = Inr ((acc @ [a]) @ ys, a')" "reaches fd a' c"
      "fd_heap fd a' \<noteq> None" "links fd ((acc @ [a]) @ ys @ [a'])" "block_num_at fd a' = min (block_num_at fd p) t" "a' \<le> p"
      by blast
    with True p lp show ?thesis
      by (intro exI [of _ "a # ys"] exI [of _ a']) (auto simp: walk_down.simps [of fd "Suc fuel"])
  qed
qed

definition differ :: "fork_database \<Rightarrow> nat \<Rightarrow> nat \<Rightarrow> bool" where
  "differ fd a b \<longleftrightarrow> previous (fi_data (item_at fd a)) \<noteq> previous (fi_data (item_at fd b))"

text \<open>Walking down both branches in step, from blocks of one height.\<close>

lemma walk_both_spec:
  assumes "fork_wf bc fd" "reaches fd a c" "reaches fd b c" "block_num_at fd a = block_num_at fd b"
    "fd_heap fd a \<noteq> None" "fd_heap fd b \<noteq> None" "a \<le> fuel"
    and "links fd (acc1 @ [a])" "links fd (acc2 @ [b])"
  shows "\<exists>xs ys a' b'. walk_both fd fuel a b acc1 acc2 = Inr (acc1 @ xs @ [a'], acc2 @ ys @ [b'])
     \<and> hd (xs @ [a']) = a \<and> hd (ys @ [b']) = b
     \<and> links fd (acc1 @ xs @ [a']) \<and> links fd (acc2 @ ys @ [b']) \<and> \<not> differ fd a' b' \<and> list_all2 (differ fd) xs ys
     \<and> block_num_at fd a' = block_num_at fd b'"
  using assms(2-)
proof (induction fuel arbitrary: a b acc1 acc2)
  case (0 a b)
  have "\<not> differ fd a b"
  proof
    assume "differ fd a b"
    then have "a \<noteq> b" by (auto simp: differ_def)
    then have "a \<noteq> c" using reaches_num [OF assms(1) 0(2) 0(5)] 0(3) by auto
    with 0(1) obtain p where "lock_prev fd a = Some p" by (rule reaches_first)
    with lock_prev_spec [OF assms(1) 0(4)] 0(6) show False by simp
  qed
  with 0 show ?case by (auto simp: walk_both.simps differ_def intro!: exI [of _ "[]"])
next
  case (Suc fuel a b)
  show ?case
  proof (cases "differ fd a b")
    case False
    with Suc.prems show ?thesis by (auto simp: walk_both.simps [of fd "Suc fuel"] differ_def intro!: exI [of _ "[]"])
  next
    case True
    then have ab: "a \<noteq> b" by (auto simp: differ_def)
    then have nc: "a \<noteq> c" "b \<noteq> c"
      using reaches_num [OF assms(1) Suc.prems(2,5)] reaches_num [OF assms(1) Suc.prems(1,4)] Suc.prems(3) by auto
    obtain p where p: "lock_prev fd a = Some p" "reaches fd p c" by (rule reaches_first [OF Suc.prems(1) nc(1)])
    obtain q where q: "lock_prev fd b = Some q" "reaches fd q c" by (rule reaches_first [OF Suc.prems(2) nc(2)])
    note lp = lock_prev_spec [OF assms(1) Suc.prems(4) p(1)] and lq = lock_prev_spec [OF assms(1) Suc.prems(5) q(1)]
    have "\<exists>xs ys a' b'. walk_both fd fuel p q (acc1 @ [a]) (acc2 @ [b]) = Inr ((acc1 @ [a]) @ xs @ [a'], (acc2 @ [b]) @ ys @ [b'])
     \<and> hd (xs @ [a']) = p \<and> hd (ys @ [b']) = q
     \<and> links fd ((acc1 @ [a]) @ xs @ [a']) \<and> links fd ((acc2 @ [b]) @ ys @ [b']) \<and> \<not> differ fd a' b'
     \<and> list_all2 (differ fd) xs ys \<and> block_num_at fd a' = block_num_at fd b'"
      using Suc.prems lp lq p q by (intro Suc.IH links_snoc) auto
    then obtain xs ys a' b' where "walk_both fd fuel p q (acc1 @ [a]) (acc2 @ [b]) = Inr ((acc1 @ [a]) @ xs @ [a'], (acc2 @ [b]) @ ys @ [b'])"
      "links fd ((acc1 @ [a]) @ xs @ [a'])" "links fd ((acc2 @ [b]) @ ys @ [b'])" "\<not> differ fd a' b'"
      "list_all2 (differ fd) xs ys" "block_num_at fd a' = block_num_at fd b'" by blast
    note wb = this
    show ?thesis
      by (rule exI [of _ "a # xs"], rule exI [of _ "b # ys"], rule exI [of _ a'], rule exI [of _ b'])
        (use wb True p q in \<open>auto simp: walk_both.simps [of fd "Suc fuel", folded differ_def]\<close>)
  qed
qed

text \<open>
  C25: \<^verbatim>\<open>fetch_branch_from\<close> finds the fork point. For two indexed blocks that reach a common
  ancestor through live predecessor pointers it returns, without running out of steps, two
  branches: each starts at its block and goes from block to predecessor, the last blocks
  have one height and the same previous block, and above them, as far as both branches go,
  blocks of one height have different previous blocks, so that the fork point is the most
  recent one.
\<close>

theorem fetch_branch_from_finds_fork:
  assumes "fork_wf bc fd" "find_by_id fd (fd_index fd) first = Some a" "find_by_id fd (fd_index fd) second = Some b"
    and "reaches fd a c" "reaches fd b c"
  shows "\<exists>xs ys us vs a' b'. fetch_branch_from first second fd = Inr (xs @ us @ [a'], ys @ vs @ [b'])
     \<and> hd (xs @ us @ [a']) = a \<and> hd (ys @ vs @ [b']) = b
     \<and> links fd (xs @ us @ [a']) \<and> links fd (ys @ vs @ [b'])
     \<and> \<not> differ fd a' b' \<and> list_all2 (differ fd) us vs \<and> (xs = [] \<or> ys = [])
     \<and> block_num_at fd a' = block_num_at fd b'"
proof -
  have ab: "fd_heap fd a \<noteq> None" "fd_heap fd b \<noteq> None"
    using find_by_id_Some [OF assms(2)] find_by_id_Some [OF assms(3)] fork_wf_owned [OF assms(1)]
    by (auto simp: owned_def)
  then have lt: "a \<le> fd_fresh fd" "b \<le> fd_fresh fd"
    using fork_wf_fresh [OF assms(1), of a] fork_wf_fresh [OF assms(1), of b] by fastforce+
  note na = reaches_num [OF assms(1,4) ab(1)] and nb = reaches_num [OF assms(1,5) ab(2)]
  obtain xs a1 where w1: "walk_down fd (fd_fresh fd) (block_num_at fd b) a [] = Inr (xs, a1)" "reaches fd a1 c"
    "fd_heap fd a1 \<noteq> None" "hd (xs @ [a1]) = a" "links fd (xs @ [a1])"
    "block_num_at fd a1 = min (block_num_at fd a) (block_num_at fd b)" "a1 \<le> a"
    using walk_down_spec [OF assms(1,4) _ ab(1) lt(1), of "block_num_at fd b" "[]"] nb by (auto simp: links_def)
  obtain ys b1 where w2: "walk_down fd (fd_fresh fd) (block_num_at fd a1) b [] = Inr (ys, b1)" "reaches fd b1 c"
    "fd_heap fd b1 \<noteq> None" "hd (ys @ [b1]) = b" "links fd (ys @ [b1])"
    "block_num_at fd b1 = min (block_num_at fd b) (block_num_at fd a1)"
    using walk_down_spec [OF assms(1,5) _ ab(2) lt(2), of "block_num_at fd a1" "[]"] na nb w1(6) by (auto simp: links_def)
  have eq: "block_num_at fd a1 = block_num_at fd b1" using w1(6) w2(6) by simp
  obtain us vs a' b' where w3: "walk_both fd (fd_fresh fd) a1 b1 xs ys = Inr (xs @ us @ [a'], ys @ vs @ [b'])"
    "hd (us @ [a']) = a1" "hd (vs @ [b']) = b1"
    "links fd (xs @ us @ [a'])" "links fd (ys @ vs @ [b'])" "\<not> differ fd a' b'" "list_all2 (differ fd) us vs"
    "block_num_at fd a' = block_num_at fd b'"
    using walk_both_spec [OF assms(1) w1(2) w2(2) eq w1(3) w2(3) _ w1(5) w2(5), of "fd_fresh fd"] w1(7) lt(1) by auto
  have one: "xs = [] \<or> ys = []"
  proof (cases "block_num_at fd a > block_num_at fd b")
    case True
    then have "\<not> block_num_at fd b > block_num_at fd a1" using w1(6) by simp
    with w2(1) show ?thesis by (simp add: walk_down.simps)
  next
    case False
    with w1(1) show ?thesis by (simp add: walk_down.simps)
  qed
  have "fetch_branch_from first second fd = Inr (xs @ us @ [a'], ys @ vs @ [b'])"
    using assms(2,3) w1(1) w2(1) w3(1) by (simp add: fetch_branch_from_def)
  moreover have "hd (xs @ us @ [a']) = a" "hd (ys @ vs @ [b']) = b"
    using w1(4) w2(4) w3(2,3) by (cases xs; cases ys; simp)+
  ultimately show ?thesis using w3 one by blast
qed

theorem fetch_branch_from_finds_fork_witness:
  "\<exists>xs ys. fetch_branch_from (block_id example_block_crypto example_child) (block_id example_block_crypto example_genesis)
     example_forks2 = Inr (xs, ys) \<and> hd xs = 1 \<and> hd ys = 0 \<and> links example_forks2 xs \<and> links example_forks2 ys"
proof -
  have w: "fork_wf example_block_crypto example_forks2"
    using fork_push_wf [OF _ example_hash_total example_push] start_block_wf
    by (simp add: example_forks_def fork_wf_def empty_fork_database_def owned_def)
  have f: "find_by_id example_forks2 (fd_index example_forks2) (block_id example_block_crypto example_child) = Some 1"
    "find_by_id example_forks2 (fd_index example_forks2) (block_id example_block_crypto example_genesis) = Some 0"
    using example_ids by (auto simp: find_by_id_def example_forks2_def item_at_def mk_fork_item_def)
  have "reaches example_forks2 1 0"
    by (rule r_into_rtranclp) (simp add: lock_prev_def example_forks2_def item_at_def owned_def)
  from fetch_branch_from_finds_fork [OF w f this rtranclp.rtrancl_refl] show ?thesis by fastforce
qed

end
