(* ===== verification/Node.thy ===== *)
theory Node
  imports Block_Apply Fork_Database
begin

text \<open>
  The node around the chain state, from \<^verbatim>\<open>database.cpp\<close> and \<^verbatim>\<open>db_with.hpp\<close>: undo sessions, the block log, the fork
  database, pending transactions, \<^verbatim>\<open>push_block\<close> with its switch of forks, \<^verbatim>\<open>pop_block\<close>, \<^verbatim>\<open>push_transaction\<close>
  and \<^verbatim>\<open>generate_block\<close>. The theorems: whatever blocks are pushed, in order or across forks, valid or not, the
  chain state is what applying blocks to the oldest undo state gives, and a pushed block becomes the head.

  An undo session is the chain state at its start with its revision, the newest first; that this is what
  the undo stacks of the indexes keep is shown in the theory of the object store. The block log is the
  list of its blocks.
\<close>

record node_state =
  nd_db :: chain_db
  nd_revision :: int
  nd_undo :: "(int \<times> chain_db) list"
  nd_fork :: fork_database
  nd_log :: "signed_block list"
  nd_pending :: "signed_transaction list"
  nd_pending_session :: bool
  nd_popped :: "signed_transaction list"

text \<open>
  A run returns, or throws an exception, with the node it leaves behind. \<open>Torn\<close> is the exception that leaves a
  half applied block in the chain state because its undo session has been committed.
\<close>

datatype 'a node_result = Done 'a node_state | Failed fc_error node_state | Torn fc_error

section \<open>Undo sessions\<close>

definition start_session :: "node_state \<Rightarrow> node_state" where
  "start_session nd = nd\<lparr>nd_revision := nd_revision nd + 1, nd_undo := (nd_revision nd + 1, nd_db nd) # nd_undo nd\<rparr>"

definition undo_session :: "node_state \<Rightarrow> node_state" where
  "undo_session nd =
     (case nd_undo nd of
        [] \<Rightarrow> nd
      | (r, db) # rest \<Rightarrow> nd\<lparr>nd_db := db, nd_undo := rest, nd_revision := nd_revision nd - 1\<rparr>)"

definition squash_session :: "node_state \<Rightarrow> node_state" where
  "squash_session nd =
     (case nd_undo nd of
        [] \<Rightarrow> nd
      | [_] \<Rightarrow> nd\<lparr>nd_undo := []\<rparr>
      | _ # prev # rest \<Rightarrow> nd\<lparr>nd_undo := prev # rest, nd_revision := nd_revision nd - 1\<rparr>)"

definition commit_sessions :: "int \<Rightarrow> node_state \<Rightarrow> node_state" where
  "commit_sessions r nd = nd\<lparr>nd_undo := rev (dropWhile (\<lambda>s. fst s \<le> r) (rev (nd_undo nd)))\<rparr>"

text \<open>A session that is pushed when its body returns and undone by its destructor when it throws.\<close>

definition with_session :: "(node_state \<Rightarrow> 'a node_result) \<Rightarrow> node_state \<Rightarrow> 'a node_result" where
  "with_session body nd =
     (case body (start_session nd) of
        Done x nd' \<Rightarrow> Done x nd'
      | Failed e nd' \<Rightarrow> if nd_undo nd' = [] then Torn e else Failed e (undo_session nd')
      | Torn e \<Rightarrow> Torn e)"

section \<open>The block log\<close>

definition log_head_num :: "signed_block list \<Rightarrow> nat" where
  "log_head_num log = (if log = [] then 0 else unat (block_num (last log)))"

definition log_append :: "signed_block \<Rightarrow> signed_block list \<Rightarrow> signed_block list result" where
  "log_append b log = fc_assert (length log = unat (block_num b - 1)) Out_of_range (Inr (log @ [b]))"

definition read_block_by_num :: "nat \<Rightarrow> signed_block list \<Rightarrow> signed_block option result" where
  "read_block_by_num n log =
     (if log \<noteq> [] \<and> n \<le> log_head_num log \<and> n > 0
      then if n \<le> length log
           then fc_assert (unat (block_num (log ! (n - 1))) = n) Out_of_range (Inr (Some (log ! (n - 1))))
           else Inl (Assert_exception Out_of_range)
      else Inr None)"

text \<open>The blocks up to the last irreversible one; what has been appended stays when one is missing.\<close>

function extend_log :: "fork_database \<Rightarrow> nat \<Rightarrow> nat \<Rightarrow> signed_block list \<Rightarrow> signed_block list \<times> fc_error option" where
  "extend_log fd n irreversible log =
     (if n < irreversible then
        (case fetch_block_on_main_branch_by_number (n + 1) fd of
           Inl e \<Rightarrow> (log, Some e)
         | Inr None \<Rightarrow> (log, Some (Assert_exception Missing_irreversible_block))
         | Inr (Some a) \<Rightarrow>
             (case log_append (fi_data (item_at fd a)) log of
                Inl e \<Rightarrow> (log, Some e)
              | Inr log' \<Rightarrow> extend_log fd (n + 1) irreversible log'))
      else (log, None))"
  by pat_completeness auto
termination by (relation "measure (\<lambda>(fd, n, irreversible, log). irreversible - n)") auto

declare extend_log.simps [simp del]

definition note_irreversible :: "32 word \<Rightarrow> chain_db \<Rightarrow> node_state \<Rightarrow> unit node_result" where
  "note_irreversible skip db nd =
     (let irreversible = dgp_last_irreversible_block_num (db_dgp db);
          nd = commit_sessions (int irreversible) nd;
          log = (if skips skip skip_block_log then (nd_log nd, None)
                 else extend_log (nd_fork nd) (log_head_num (nd_log nd)) irreversible (nd_log nd));
          nd = nd\<lparr>nd_log := fst log\<rparr>
      in case snd log of
           Some e \<Rightarrow> Failed e nd
         | None \<Rightarrow> Done () (nd\<lparr>nd_fork := set_max_size ((head_block_num db + 2 ^ 32 - irreversible + 1) mod 2 ^ 32) (nd_fork nd)\<rparr>))"

section \<open>Applying a block\<close>

definition apply_block_checked :: "chain_params \<Rightarrow> 32 word \<Rightarrow> signed_block \<Rightarrow> node_state \<Rightarrow> unit node_result" where
  "apply_block_checked cp skip b nd =
     (case begin_block cp skip b (nd_db nd) of
        Inl e \<Rightarrow> Failed e nd
      | Inr db \<Rightarrow>
          (case note_irreversible skip db nd of
             Failed e nd' \<Rightarrow> Failed e nd'
           | Torn e \<Rightarrow> Torn e
           | Done _ nd' \<Rightarrow>
               (case finish_block cp b db of
                  Inl e \<Rightarrow> Failed e nd'
                | Inr db' \<Rightarrow> Done () (nd'\<lparr>nd_db := db'\<rparr>))))"

definition apply_block :: "chain_params \<Rightarrow> (nat \<times> block_id_type) list \<Rightarrow> 32 word \<Rightarrow> signed_block \<Rightarrow> node_state \<Rightarrow> unit node_result" where
  "apply_block cp checkpoints skip b nd =
     (case check_checkpoints checkpoints cp b skip of
        Inl e \<Rightarrow> Failed e nd
      | Inr skip' \<Rightarrow> apply_block_checked cp skip' b nd)"

section \<open>Popping a block\<close>

definition fetch_block_by_id :: "chain_params \<Rightarrow> block_id_type \<Rightarrow> node_state \<Rightarrow> signed_block option result" where
  "fetch_block_by_id cp bid nd =
     (case fetch_block bid (nd_fork nd) of
        Some a \<Rightarrow> Inr (Some (fi_data (item_at (nd_fork nd) a)))
      | None \<Rightarrow>
          bindR (read_block_by_num (unat (num_from_id bid)) (nd_log nd)) (\<lambda>tmp.
          case tmp of
            Some b \<Rightarrow> Inr (if block_id (cp_block cp) b = bid then Some b else None)
          | None \<Rightarrow> Inr None))"

definition reset_pending_session :: "node_state \<Rightarrow> node_state" where
  "reset_pending_session nd =
     (if nd_pending_session nd then (undo_session nd)\<lparr>nd_pending_session := False\<rparr> else nd)"

definition pop_block :: "chain_params \<Rightarrow> node_state \<Rightarrow> unit node_result" where
  "pop_block cp nd =
     (let nd = reset_pending_session nd in
      case fetch_block_by_id cp (head_block_id (nd_db nd)) nd of
        Inl e \<Rightarrow> Failed e nd
      | Inr None \<Rightarrow> Failed Pop_empty_chain nd
      | Inr (Some head_block) \<Rightarrow>
          (case fork_pop_block (nd_fork nd) of
             Inl e \<Rightarrow> Failed e nd
           | Inr fd \<Rightarrow>
               let nd = undo_session (nd\<lparr>nd_fork := fd\<rparr>)
               in Done () (nd\<lparr>nd_popped := transactions head_block @ nd_popped nd\<rparr>)))"

text \<open>
  The loop that pops down to the fork point. Each pop moves the head of the fork database to an
  older item, so the number of items bounds it; running out of that fuel has an error of its own.
\<close>

fun pop_until :: "chain_params \<Rightarrow> nat \<Rightarrow> block_id_type \<Rightarrow> node_state \<Rightarrow> unit node_result" where
  "pop_until cp fuel target nd =
     (if head_block_id (nd_db nd) \<noteq> target then
        (case fuel of
           0 \<Rightarrow> Failed Undo_database_exception nd
         | Suc fuel' \<Rightarrow>
             (case pop_block cp nd of
                Done _ nd' \<Rightarrow> pop_until cp fuel' target nd'
              | Failed e nd' \<Rightarrow> Failed e nd'
              | Torn e \<Rightarrow> Torn e))
      else Done () nd)"

declare pop_until.simps [simp del]

section \<open>Switching forks\<close>

fun apply_branch :: "chain_params \<Rightarrow> (nat \<times> block_id_type) list \<Rightarrow> 32 word \<Rightarrow> signed_block list \<Rightarrow> node_state \<Rightarrow> unit node_result" where
  "apply_branch cp cks skip [] nd = Done () nd"
| "apply_branch cp cks skip (b # bs) nd =
     (case with_session (apply_block cp cks skip b) nd of
        Done _ nd' \<Rightarrow> apply_branch cp cks skip bs nd'
      | Failed e nd' \<Rightarrow> Failed e nd'
      | Torn e \<Rightarrow> Torn e)"

text \<open>After a block of the new branch failed: forget it and those after it, and go back to the old branch.\<close>

definition restore_branch ::
  "chain_params \<Rightarrow> (nat \<times> block_id_type) list \<Rightarrow> 32 word \<Rightarrow> fc_error \<Rightarrow> signed_block list \<Rightarrow> nat list \<Rightarrow> node_state \<Rightarrow> bool node_result" where
  "restore_branch cp cks skip e bad second nd =
     (let fd = foldl (\<lambda>fd b. fork_remove (block_id (cp_block cp) b) fd) (nd_fork nd) bad;
          nd = nd\<lparr>nd_fork := set_head (Some (hd second)) fd\<rparr>;
          old = map (\<lambda>a. fi_data (item_at (nd_fork nd) a)) second
      in case pop_until cp (fd_fresh (nd_fork nd)) (previous (last old)) nd of
           Failed e' nd' \<Rightarrow> Failed e' nd'
         | Torn e' \<Rightarrow> Torn e'
         | Done _ nd' \<Rightarrow>
             (case apply_branch cp cks skip (rev old) nd' of
                Done _ nd'' \<Rightarrow> Failed e nd''
              | Failed e' nd'' \<Rightarrow> Failed e' nd''
              | Torn e' \<Rightarrow> Torn e'))"

fun push_branch ::
  "chain_params \<Rightarrow> (nat \<times> block_id_type) list \<Rightarrow> 32 word \<Rightarrow> nat list \<Rightarrow> signed_block list \<Rightarrow> node_state \<Rightarrow> bool node_result" where
  "push_branch cp cks skip second [] nd = Done True nd"
| "push_branch cp cks skip second (b # bs) nd =
     (case with_session (apply_block cp cks skip b) nd of
        Done _ nd' \<Rightarrow> push_branch cp cks skip second bs nd'
      | Failed e nd' \<Rightarrow> restore_branch cp cks skip e (b # bs) second nd'
      | Torn e \<Rightarrow> Torn e)"

definition switch_fork :: "chain_params \<Rightarrow> (nat \<times> block_id_type) list \<Rightarrow> 32 word \<Rightarrow> nat \<Rightarrow> node_state \<Rightarrow> bool node_result" where
  "switch_fork cp cks skip new_head nd =
     (let fd = nd_fork nd in
      case fetch_branch_from (block_id (cp_block cp) (fi_data (item_at fd new_head))) (head_block_id (nd_db nd)) fd of
        Inl e \<Rightarrow> Failed e nd
      | Inr (first, second) \<Rightarrow>
          (case pop_until cp (fd_fresh fd) (previous (fi_data (item_at fd (last second)))) nd of
             Failed e nd' \<Rightarrow> Failed e nd'
           | Torn e \<Rightarrow> Torn e
           | Done _ nd' \<Rightarrow> push_branch cp cks skip second (map (\<lambda>a. fi_data (item_at fd a)) (rev first)) nd'))"

definition push_on_head :: "chain_params \<Rightarrow> (nat \<times> block_id_type) list \<Rightarrow> 32 word \<Rightarrow> signed_block \<Rightarrow> node_state \<Rightarrow> bool node_result" where
  "push_on_head cp cks skip new_block nd =
     (case with_session (apply_block cp cks skip new_block) nd of
        Done _ nd' \<Rightarrow> Done False nd'
      | Failed e nd' \<Rightarrow> Failed e (nd'\<lparr>nd_fork := fork_remove (block_id (cp_block cp) new_block) (nd_fork nd')\<rparr>)
      | Torn e \<Rightarrow> Torn e)"

definition push_block_inner :: "chain_params \<Rightarrow> (nat \<times> block_id_type) list \<Rightarrow> 32 word \<Rightarrow> signed_block \<Rightarrow> node_state \<Rightarrow> bool node_result" where
  "push_block_inner cp cks skip new_block nd =
     (if skips skip skip_fork_db then push_on_head cp cks skip new_block nd
      else
        (case fork_push_block (cp_block cp) new_block (nd_fork nd) of
           Inl e \<Rightarrow> Failed e nd
         | Inr (None, fd) \<Rightarrow> Failed (Assert_exception Empty_fork_database) nd
         | Inr (Some new_head, fd) \<Rightarrow>
             let nd = nd\<lparr>nd_fork := fd\<rparr>; head_data = fi_data (item_at fd new_head) in
             if previous head_data \<noteq> head_block_id (nd_db nd) then
               if unat (block_num head_data) > head_block_num (nd_db nd) then switch_fork cp cks skip new_head nd
               else Done False nd
             else push_on_head cp cks skip new_block nd))"

section \<open>Pending transactions\<close>

definition is_known_transaction :: "transaction_id_type \<Rightarrow> node_state \<Rightarrow> bool" where
  "is_known_transaction tid nd \<longleftrightarrow> table_find (\<lambda>t. txo_trx_id t = tid) (db_transactions (nd_db nd)) \<noteq> None"

definition push_pending :: "chain_params \<Rightarrow> 32 word \<Rightarrow> signed_transaction \<Rightarrow> node_state \<Rightarrow> unit node_result" where
  "push_pending cp skip trx nd =
     (let nd = (if nd_pending_session nd then nd else (start_session nd)\<lparr>nd_pending_session := True\<rparr>);
          nd = start_session nd
      in case apply_transaction cp skip trx (nd_db nd) of
           Inl e \<Rightarrow> Failed e (undo_session nd)
         | Inr db \<Rightarrow> Done () (squash_session (nd\<lparr>nd_db := db, nd_pending := nd_pending nd @ [trx]\<rparr>)))"

definition producing :: "chain_params \<Rightarrow> chain_params" where
  "producing cp = cp\<lparr>cp_env := (cp_env cp)\<lparr>env_producing := True\<rparr>\<rparr>"

definition push_transaction :: "chain_params \<Rightarrow> 32 word \<Rightarrow> signed_transaction \<Rightarrow> node_state \<Rightarrow> unit node_result" where
  "push_transaction cp skip trx nd =
     (if cp_trx_size cp trx \<le> (dgp_maximum_block_size (db_dgp (nd_db nd)) + 2 ^ 32 - 256) mod 2 ^ 32
      then push_pending (producing cp) skip trx nd
      else Failed (Assert_exception Unnamed_assertion) nd)"

definition clear_pending :: "node_state \<Rightarrow> node_state" where
  "clear_pending nd = reset_pending_session (nd\<lparr>nd_pending := []\<rparr>)"

definition restore_transaction :: "chain_params \<Rightarrow> 32 word \<Rightarrow> node_state \<Rightarrow> signed_transaction \<Rightarrow> node_state" where
  "restore_transaction cp skip nd trx =
     (if is_known_transaction (signed_transaction_id cp trx) nd then nd
      else (case push_pending cp skip trx nd of Done _ nd' \<Rightarrow> nd' | Failed _ nd' \<Rightarrow> nd' | Torn _ \<Rightarrow> nd))"

definition restore_pending :: "chain_params \<Rightarrow> 32 word \<Rightarrow> signed_transaction list \<Rightarrow> node_state \<Rightarrow> node_state" where
  "restore_pending cp skip pending nd =
     (let nd = (foldl (restore_transaction cp skip) nd (nd_popped nd))\<lparr>nd_popped := []\<rparr>
      in foldl (restore_transaction cp skip) nd pending)"

definition push_block :: "chain_params \<Rightarrow> (nat \<times> block_id_type) list \<Rightarrow> 32 word \<Rightarrow> signed_block \<Rightarrow> node_state \<Rightarrow> bool node_result" where
  "push_block cp cks skip new_block nd =
     (case push_block_inner cp cks skip new_block (clear_pending nd) of
        Done switched nd' \<Rightarrow> Done switched (restore_pending cp skip (nd_pending nd) nd')
      | Failed e nd' \<Rightarrow> Failed e (restore_pending cp skip (nd_pending nd) nd')
      | Torn e \<Rightarrow> Torn e)"

section \<open>Producing a block\<close>

text \<open>The producer's key: its public part and how it signs a digest; and the size of a packed empty header.\<close>

record block_signer =
  bs_public_key :: public_key_type
  bs_sign :: "digest_type \<Rightarrow> signature_type"
  bs_header_size :: nat

definition SIGMAENGINE_BLOCKCHAIN_VERSION :: version where
  "SIGMAENGINE_BLOCKCHAIN_VERSION = mk_version 0 1 0"

definition SIGMAENGINE_BLOCKCHAIN_HARDFORK_VERSION :: hardfork_version where
  "SIGMAENGINE_BLOCKCHAIN_HARDFORK_VERSION = hardfork_version_of SIGMAENGINE_BLOCKCHAIN_VERSION"

definition SIGMAENGINE_MAX_BLOCK_SIZE :: nat where
  "SIGMAENGINE_MAX_BLOCK_SIZE = (1024 * 64 * 200) * (SIGMAENGINE_BLOCK_INTERVAL * 2000) mod 2 ^ 32"

text \<open>
  One pending transaction: expired and too big ones are passed over, so is one that fails. The
  accumulator is the size of the block, the state in the pending session, and the transactions so far.
\<close>

definition collect_transaction ::
  "chain_params \<Rightarrow> 32 word \<Rightarrow> time_point_sec \<Rightarrow> nat \<Rightarrow> nat \<times> chain_db \<times> signed_transaction list \<Rightarrow> signed_transaction
     \<Rightarrow> nat \<times> chain_db \<times> signed_transaction list" where
  "collect_transaction cp skip when max_size acc tx =
     (case acc of (total_size, db, txs) \<Rightarrow>
        if expiration tx < when then acc
        else if total_size + cp_trx_size cp tx \<ge> max_size then acc
        else
          (case apply_transaction cp skip tx db of
             Inl _ \<Rightarrow> acc
           | Inr db' \<Rightarrow> (total_size + cp_trx_size cp tx, db', txs @ [tx])))"

definition vote_extensions :: "bobserver_object \<Rightarrow> hardfork_property_object \<Rightarrow> header_extension list" where
  "vote_extensions b hfp =
     (if bo_running_version b \<noteq> SIGMAENGINE_BLOCKCHAIN_VERSION then [Version_extension SIGMAENGINE_BLOCKCHAIN_VERSION] else [])
     @ (if bo_is_bproducer b then
          if hpo_current_hardfork_version hfp < SIGMAENGINE_BLOCKCHAIN_HARDFORK_VERSION
             \<and> (bo_hardfork_version_vote b \<noteq> hardfork_versions ! (hpo_last_hardfork hfp + 1)
                \<or> bo_hardfork_time_vote b \<noteq> hardfork_times ! (hpo_last_hardfork hfp + 1))
          then [Hardfork_vote_extension \<lparr>hf_version = hardfork_versions ! (hpo_last_hardfork hfp + 1),
                  hf_time = hardfork_times ! (hpo_last_hardfork hfp + 1)\<rparr>]
          else if hpo_current_hardfork_version hfp = SIGMAENGINE_BLOCKCHAIN_HARDFORK_VERSION
             \<and> bo_hardfork_version_vote b > SIGMAENGINE_BLOCKCHAIN_HARDFORK_VERSION
          then [Hardfork_vote_extension \<lparr>hf_version = hardfork_versions ! hpo_last_hardfork hfp,
                  hf_time = hardfork_times ! hpo_last_hardfork hfp\<rparr>]
          else []
        else [])"

definition assemble_block ::
  "chain_params \<Rightarrow> block_signer \<Rightarrow> 32 word \<Rightarrow> time_point_sec \<Rightarrow> bobserver_object \<Rightarrow> signed_transaction list \<Rightarrow> chain_db \<Rightarrow> signed_block" where
  "assemble_block cp bs skip when w txs db =
     (let unsigned = \<lparr>previous = head_block_id db, timestamp = when, bobserver = bo_account w,
            transaction_merkle_root = calculate_merkle_root (cp_trx cp) (cp_block cp) txs,
            extensions = vote_extensions w (db_hardfork db), bobserver_signature = [], transactions = txs\<rparr>
      in if skips skip skip_bobserver_signature then unsigned
         else unsigned\<lparr>bobserver_signature := bs_sign bs (header_digest (cp_block cp) (block_header.truncate unsigned))\<rparr>)"

definition generate_block ::
  "chain_params \<Rightarrow> (nat \<times> block_id_type) list \<Rightarrow> block_signer \<Rightarrow> 32 word \<Rightarrow> time_point_sec \<Rightarrow> account_name_type \<Rightarrow> node_state
     \<Rightarrow> signed_block node_result" where
  "generate_block cp cks bs skip when owner nd =
     (let slot_num = get_slot_at_time when (nd_db nd) in
      case
        fc_assert (slot_num > 0) Wrong_slot (
        fc_assert (get_scheduled_bobserver slot_num (nd_db nd) = owner) Wrong_slot (
        bindR (get_bobserver owner (nd_db nd)) (\<lambda>w.
        fc_assert (skips skip skip_bobserver_signature \<or> bo_signing_key w = bs_public_key bs) Wrong_signee (Inr w))))
      of
        Inl e \<Rightarrow> Failed e nd
      | Inr _ \<Rightarrow>
          let max_size = dgp_maximum_block_size (db_dgp (nd_db nd));
              nd = reset_pending_session nd;
              txs = snd (snd (foldl (collect_transaction cp skip when max_size) (bs_header_size bs + 4, nd_db nd, []) (nd_pending nd)))
          in case get_bobserver owner (nd_db nd) of
               Inl e \<Rightarrow> Failed e nd
             | Inr w \<Rightarrow>
                 let b = assemble_block cp bs skip when w txs (nd_db nd) in
                 if \<not> skips skip skip_block_size_check \<and> cp_block_size cp b > SIGMAENGINE_MAX_BLOCK_SIZE
                 then Failed (Assert_exception Block_too_big) nd
                 else (case push_block cp cks skip b nd of
                         Done _ nd' \<Rightarrow> Done b nd'
                       | Failed e nd' \<Rightarrow> Failed e nd'
                       | Torn e \<Rightarrow> Torn e))"

section \<open>States along the undo stack\<close>

text \<open>
  \<open>chained step good\<close>: every state on the undo stack and the current one are good, and each comes from the one
  below it by a step. The locale asks that applying a block is such a step; then pushing and popping
  blocks keep the chain, across forks and failures.
\<close>

fun chained :: "(chain_db \<Rightarrow> chain_db \<Rightarrow> bool) \<Rightarrow> (chain_db \<Rightarrow> bool) \<Rightarrow> (int \<times> chain_db) list \<Rightarrow> chain_db \<Rightarrow> bool" where
  "chained step good [] db \<longleftrightarrow> good db"
| "chained step good ((r, old) # u) db \<longleftrightarrow> good db \<and> step old db \<and> chained step good u old"

definition settled :: "(chain_db \<Rightarrow> chain_db \<Rightarrow> bool) \<Rightarrow> (chain_db \<Rightarrow> bool) \<Rightarrow> node_state \<Rightarrow> bool" where
  "settled step good nd \<longleftrightarrow>
     (if nd_pending_session nd then good (nd_db nd) \<and> (case nd_undo nd of [] \<Rightarrow> False | s # u \<Rightarrow> chained step good u (snd s))
      else chained step good (nd_undo nd) (nd_db nd))"

lemma chained_good: "chained step good u db \<Longrightarrow> good db"
  by (cases u) auto

lemma chained_prefix: "chained step good (u @ v) db \<Longrightarrow> chained step good u db"
  by (induction step good u db rule: chained.induct) (auto dest: chained_good)

text \<open>What applying a block leaves of the node, whether it succeeds or fails.\<close>

definition shortened :: "node_state \<Rightarrow> node_state \<Rightarrow> bool" where
  "shortened nd nd' \<longleftrightarrow> (\<exists>v. nd_undo nd = nd_undo nd' @ v) \<and> nd_db nd' = nd_db nd \<and> nd_pending_session nd' = nd_pending_session nd"

lemma note_irreversible_shortened:
  "note_irreversible skip db nd = Done x nd' \<Longrightarrow> shortened nd nd'"
  "note_irreversible skip db nd = Failed e nd' \<Longrightarrow> shortened nd nd'"
  "note_irreversible skip db nd \<noteq> Torn e"
proof -
  have "rev (takeWhile P (rev u) @ dropWhile P (rev u)) = u" for P and u :: "(int \<times> chain_db) list" by simp
  then have "\<exists>v. u = rev (dropWhile P (rev u)) @ v" for P and u :: "(int \<times> chain_db) list" by (metis rev_append)
  then show "note_irreversible skip db nd = Done x nd' \<Longrightarrow> shortened nd nd'"
    "note_irreversible skip db nd = Failed e nd' \<Longrightarrow> shortened nd nd'"
    by (auto simp: note_irreversible_def Let_def shortened_def commit_sessions_def split: option.splits)
  show "note_irreversible skip db nd \<noteq> Torn e" by (auto simp: note_irreversible_def Let_def split: option.splits)
qed

lemma apply_block_shortened:
  "apply_block cp cks skip b nd = Failed e nd' \<Longrightarrow> shortened nd nd'"
  "apply_block cp cks skip b nd = Done x nd' \<Longrightarrow>
     \<exists>skip' mid. shortened nd mid \<and> nd' = mid\<lparr>nd_db := nd_db nd'\<rparr> \<and> apply_block_state cp skip' b (nd_db nd) = Inr (nd_db nd')"
proof -
  have refl: "shortened nd nd" by (simp add: shortened_def)
  show "apply_block cp cks skip b nd = Failed e nd' \<Longrightarrow> shortened nd nd'"
    using refl by (auto simp: apply_block_def apply_block_checked_def split: sum.splits node_result.splits
        dest: note_irreversible_shortened(1,2))
  assume "apply_block cp cks skip b nd = Done x nd'"
  then obtain skip' db mid db' where "begin_block cp skip' b (nd_db nd) = Inr db" "note_irreversible skip' db nd = Done () mid"
    "finish_block cp b db = Inr db'" "nd' = mid\<lparr>nd_db := db'\<rparr>"
    by (auto simp: apply_block_def apply_block_checked_def split: sum.splits node_result.splits)
  then show "\<exists>skip' mid. shortened nd mid \<and> nd' = mid\<lparr>nd_db := nd_db nd'\<rparr> \<and> apply_block_state cp skip' b (nd_db nd) = Inr (nd_db nd')"
    using note_irreversible_shortened(1) by (intro exI [of _ skip'] exI [of _ mid]) (auto simp: apply_block_state_def)
qed

definition resting :: "(chain_db \<Rightarrow> chain_db \<Rightarrow> bool) \<Rightarrow> (chain_db \<Rightarrow> bool) \<Rightarrow> node_state \<Rightarrow> bool" where
  "resting step good nd \<longleftrightarrow> \<not> nd_pending_session nd \<and> chained step good (nd_undo nd) (nd_db nd)"

text \<open>A run leaves a resting node behind, whether it returns or throws.\<close>

fun leaves :: "(node_state \<Rightarrow> bool) \<Rightarrow> 'a node_result \<Rightarrow> bool" where
  "leaves P (Done x nd) \<longleftrightarrow> P nd"
| "leaves P (Failed e nd) \<longleftrightarrow> P nd"
| "leaves P (Torn e) \<longleftrightarrow> True"

lemma leaves_mono: "leaves P r \<Longrightarrow> (\<And>nd. P nd \<Longrightarrow> Q nd) \<Longrightarrow> leaves Q r"
  by (cases r) auto

lemma resting_frame [simp]:
  "resting step good (nd\<lparr>nd_fork := f\<rparr>) = resting step good nd"
  "resting step good (nd\<lparr>nd_popped := p\<rparr>) = resting step good nd"
  "resting step good (nd\<lparr>nd_pending := q\<rparr>) = resting step good nd"
  by (simp_all add: resting_def)

locale node_chain =
  fixes cp :: chain_params and step :: "chain_db \<Rightarrow> chain_db \<Rightarrow> bool" and good :: "chain_db \<Rightarrow> bool"
  assumes applied: "good old \<Longrightarrow> apply_block_state cp skip b old = Inr db \<Longrightarrow> step old db \<and> good db"
    and transacted: "cp' = cp \<or> cp' = producing cp \<Longrightarrow> good old \<Longrightarrow> apply_transaction cp' skip trx old = Inr db \<Longrightarrow> good db"
begin

lemma session_block:
  assumes "resting step good nd"
  shows "leaves (resting step good) (with_session (apply_block cp cks skip b) nd)"
proof (cases "apply_block cp cks skip b (start_session nd)")
  case (Done x nd')
  from apply_block_shortened(2) [OF Done] obtain skip' mid v where mid: "nd_undo (start_session nd) = nd_undo mid @ v"
    "nd_pending_session mid = nd_pending_session (start_session nd)" "nd' = mid\<lparr>nd_db := nd_db nd'\<rparr>"
    "apply_block_state cp skip' b (nd_db (start_session nd)) = Inr (nd_db nd')" by (auto simp: shortened_def)
  have "good (nd_db (start_session nd))" using assms by (auto simp: resting_def start_session_def dest: chained_good)
  then have "chained step good (nd_undo (start_session nd)) (nd_db nd')"
    using assms applied [OF _ mid(4)] by (simp add: resting_def start_session_def)
  then have "chained step good (nd_undo mid) (nd_db nd')" unfolding mid(1) by (rule chained_prefix)
  moreover have "nd_undo nd' = nd_undo mid" "nd_pending_session nd' = nd_pending_session nd"
    using mid(2) arg_cong [OF mid(3), of nd_undo] arg_cong [OF mid(3), of nd_pending_session] by (simp_all add: start_session_def)
  ultimately show ?thesis using Done assms by (simp add: with_session_def resting_def)
next
  case (Failed e nd')
  from apply_block_shortened(1) [OF Failed] obtain v where v: "nd_undo (start_session nd) = nd_undo nd' @ v"
    "nd_pending_session nd' = nd_pending_session (start_session nd)" by (auto simp: shortened_def)
  show ?thesis
  proof (cases "nd_undo nd'")
    case Nil
    with Failed show ?thesis by (simp add: with_session_def)
  next
    case (Cons s u)
    with v(1) have "s = (nd_revision nd + 1, nd_db nd)" "nd_undo nd = u @ v" by (auto simp: start_session_def)
    with assms chained_prefix [of step good u v "nd_db nd"] Cons v(2) Failed show ?thesis
      by (simp add: with_session_def undo_session_def resting_def start_session_def)
  qed
qed (simp add: with_session_def)

lemma pop_one:
  assumes "resting step good nd"
  shows "leaves (resting step good) (pop_block cp nd)"
proof -
  have "resting step good (undo_session nd')" if "nd' = nd\<lparr>nd_fork := fd\<rparr>" for nd' fd
    using assms that by (auto simp: resting_def undo_session_def split: list.splits dest: chained_good)
  then show ?thesis using assms by (auto simp: pop_block_def reset_pending_session_def resting_def [symmetric] Let_def split: sum.splits option.splits)
      (simp_all add: resting_def)
qed

lemma pop_many: "resting step good nd \<Longrightarrow> leaves (resting step good) (pop_until cp fuel target nd)"
proof (induction fuel arbitrary: nd)
  case 0
  then show ?case by (simp add: pop_until.simps)
next
  case (Suc fuel)
  then show ?case using pop_one [OF Suc.prems] by (auto simp: pop_until.simps [of cp "Suc fuel"] split: node_result.splits)
qed

lemma apply_many: "resting step good nd \<Longrightarrow> leaves (resting step good) (apply_branch cp cks skip bs nd)"
proof (induction bs arbitrary: nd)
  case (Cons b bs)
  then show ?case using session_block [OF Cons.prems, of cks skip b] by (auto split: node_result.splits)
qed simp

lemma restore_old_branch: "resting step good nd \<Longrightarrow> leaves (resting step good) (restore_branch cp cks skip e bad second nd)"
proof -
  assume "resting step good nd"
  then have "resting step good (nd\<lparr>nd_fork := fd\<rparr>)" for fd by simp
  note pop_many [OF this]
  note this apply_many
  then show ?thesis by (auto simp: restore_branch_def Let_def split: node_result.splits) (metis leaves.simps)+
qed

lemma push_many: "resting step good nd \<Longrightarrow> leaves (resting step good) (push_branch cp cks skip second bs nd)"
proof (induction bs arbitrary: nd)
  case (Cons b bs)
  then show ?case using session_block [OF Cons.prems, of cks skip b] restore_old_branch by (auto split: node_result.splits)
qed simp

lemma switch: "resting step good nd \<Longrightarrow> leaves (resting step good) (switch_fork cp cks skip h nd)"
  using pop_many [of nd] push_many by (auto simp: switch_fork_def Let_def split: sum.splits node_result.splits) (metis leaves.simps)+

lemma push_head: "resting step good nd \<Longrightarrow> leaves (resting step good) (push_on_head cp cks skip b nd)"
  using session_block [of nd cks skip b] by (auto simp: push_on_head_def split: node_result.splits)

lemma push_inner: "resting step good nd \<Longrightarrow> leaves (resting step good) (push_block_inner cp cks skip b nd)"
  using push_head switch by (auto simp: push_block_inner_def Let_def split: sum.splits option.splits)

lemma settled_reset: "settled step good nd \<Longrightarrow> resting step good (reset_pending_session nd)"
  by (auto simp: settled_def resting_def reset_pending_session_def undo_session_def split: list.splits if_splits)

lemma resting_settled: "resting step good nd \<Longrightarrow> settled step good nd"
  by (simp add: resting_def settled_def)

lemma settled_frame:
  "settled step good (nd\<lparr>nd_pending := q\<rparr>) = settled step good nd" "settled step good (nd\<lparr>nd_popped := p\<rparr>) = settled step good nd"
  by (simp_all add: settled_def)

lemma settled_good: "settled step good nd \<Longrightarrow> good (nd_db nd)"
  by (auto simp: settled_def split: if_splits dest: chained_good)

lemma push_one_pending:
  "settled step good nd \<Longrightarrow> cp' = cp \<or> cp' = producing cp \<Longrightarrow> leaves (settled step good) (push_pending cp' skip trx nd)"
  using settled_good [of nd] transacted [of cp' "nd_db nd" skip trx]
  by (auto simp: push_pending_def Let_def settled_def start_session_def undo_session_def squash_session_def
      split: sum.splits list.splits if_splits)

lemma restore_one: "settled step good nd \<Longrightarrow> settled step good (restore_transaction cp skip nd trx)"
  using push_one_pending [of nd cp skip trx] by (auto simp: restore_transaction_def split: node_result.splits)

lemma restore_all: "settled step good nd \<Longrightarrow> settled step good (restore_pending cp skip pending nd)"
proof -
  have fold: "settled step good nd \<Longrightarrow> settled step good (foldl (restore_transaction cp skip) nd txs)" for nd txs
    by (induction txs arbitrary: nd) (auto intro: restore_one)
  assume "settled step good nd"
  then show ?thesis by (auto simp: restore_pending_def Let_def settled_frame intro!: fold)
qed

lemma pushed: "settled step good nd \<Longrightarrow> leaves (settled step good) (push_block cp cks skip b nd)"
proof -
  assume "settled step good nd"
  then have "resting step good (clear_pending nd)" by (simp add: clear_pending_def settled_reset settled_frame)
  from push_inner [OF this, of cks skip b] show ?thesis
    by (auto simp: push_block_def intro!: restore_all [OF resting_settled] split: node_result.splits)
qed

lemma transaction_pushed: "settled step good nd \<Longrightarrow> leaves (settled step good) (push_transaction cp skip trx nd)"
  using push_one_pending by (auto simp: push_transaction_def)

lemma generated: "settled step good nd \<Longrightarrow> leaves (settled step good) (generate_block cp cks bs skip when owner nd)"
proof -
  assume nd: "settled step good nd"
  then have reset: "settled step good (reset_pending_session nd)" using resting_settled settled_reset by blast
  have "settled step good nd'" if "push_block cp cks skip b (reset_pending_session nd) = Done sw nd'" for b sw nd'
    using pushed [OF reset, of cks skip b] that by simp
  moreover have "settled step good nd'" if "push_block cp cks skip b (reset_pending_session nd) = Failed e nd'" for b e nd'
    using pushed [OF reset, of cks skip b] that by simp
  ultimately show ?thesis using nd reset unfolding generate_block_def Let_def by (auto split: sum.split node_result.split)
qed

lemma popped: "settled step good nd \<Longrightarrow> leaves (settled step good) (pop_block cp nd)"
proof -
  assume "settled step good nd"
  then have rest: "resting step good (reset_pending_session nd)" by (rule settled_reset)
  then have "reset_pending_session (reset_pending_session nd) = reset_pending_session nd" by (simp add: reset_pending_session_def resting_def)
  then have "pop_block cp nd = pop_block cp (reset_pending_session nd)" by (simp add: pop_block_def Let_def)
  with pop_one [OF rest] show ?thesis by (auto intro: leaves_mono resting_settled)
qed

end

section \<open>The node as a state machine\<close>

fun node_of :: "'a node_result \<Rightarrow> node_state option" where
  "node_of (Done x nd) = Some nd"
| "node_of (Failed e nd) = Some nd"
| "node_of (Torn e) = None"

text \<open>Every call from outside, whether it returns or throws.\<close>

inductive node_step :: "chain_params \<Rightarrow> (nat \<times> block_id_type) list \<Rightarrow> node_state \<Rightarrow> node_state \<Rightarrow> bool" for cp cks where
  block: "node_of (push_block cp cks skip b nd) = Some nd' \<Longrightarrow> node_step cp cks nd nd'"
| transaction: "node_of (push_transaction cp skip trx nd) = Some nd' \<Longrightarrow> node_step cp cks nd nd'"
| generate: "node_of (generate_block cp cks bs skip when owner nd) = Some nd' \<Longrightarrow> node_step cp cks nd nd'"
| pop: "node_of (pop_block cp nd) = Some nd' \<Longrightarrow> node_step cp cks nd nd'"
| clear: "nd' = clear_pending nd \<Longrightarrow> node_step cp cks nd nd'"

inductive_cases node_stepE: "node_step cp cks nd nd'"

lemma leaves_node_of: "leaves P r \<Longrightarrow> node_of r = Some nd \<Longrightarrow> P nd"
  by (cases r) auto

context node_chain
begin

lemma step_settled: "node_step cp cks nd nd' \<Longrightarrow> settled step good nd \<Longrightarrow> settled step good nd'"
proof (induction rule: node_step.induct)
  case (clear nd' nd)
  then have "resting step good (clear_pending nd)" by (simp add: clear_pending_def settled_reset settled_frame)
  with clear show ?case by (simp add: resting_settled)
qed (blast intro: leaves_node_of pushed transaction_pushed generated popped)+

lemma reachable_settled: "(node_step cp cks)\<^sup>*\<^sup>* nd nd' \<Longrightarrow> settled step good nd \<Longrightarrow> settled step good nd'"
  by (induction rule: rtranclp_induct) (auto intro: step_settled)

end

definition block_applied :: "chain_params \<Rightarrow> chain_db \<Rightarrow> chain_db \<Rightarrow> bool" where
  "block_applied cp old db \<longleftrightarrow> (\<exists>skip b. apply_block_state cp skip b old = Inr db)"

definition any_state :: "chain_db \<Rightarrow> bool" where
  "any_state db = True"

definition books_state :: "chain_params \<Rightarrow> int \<Rightarrow> chain_db \<Rightarrow> bool" where
  "books_state cp c db \<longleftrightarrow> (plugins_balanced (cp_env cp) \<longrightarrow> wf_db db \<and> unaccounted db = c)"

interpretation replay: node_chain cp "block_applied cp" any_state for cp
  by unfold_locales (auto simp: block_applied_def any_state_def)

lemma apply_block_state_books:
  assumes "plugins_balanced (cp_env cp)" "wf_db db" "apply_block_state cp skip b db = Inr db'"
  shows "wf_db db' \<and> unaccounted db' = unaccounted db"
proof -
  from assms(3) obtain d where d: "begin_block cp skip b db = Inr d" "finish_block cp b d = Inr db'"
    by (auto simp: apply_block_state_def bindR_Inr_iff)
  note m = begin_block_moves [OF assms(1,2) d(1)]
  from finish_block_moves [OF assms(1) moves_wf [OF m] d(2)] m show ?thesis by (auto simp: moves_def)
qed

lemma producing_plugins:
  "cp' = cp \<or> cp' = producing cp \<Longrightarrow> plugins_balanced (cp_env cp') = plugins_balanced (cp_env cp)"
  "cp' = cp \<or> cp' = producing cp \<Longrightarrow> plugins_keep_head (cp_env cp') = plugins_keep_head (cp_env cp)"
  by (auto simp: producing_def plugins_balanced_def plugins_keep_head_def run_interpreter_def)

lemma apply_transaction_books:
  assumes "plugins_balanced (cp_env cp)" "wf_db db" "apply_transaction cp skip trx db = Inr db'"
  shows "wf_db db' \<and> unaccounted db' = unaccounted db"
  using apply_transaction_moves [OF assms] by (auto simp: moves_def)

interpretation books: node_chain cp "\<lambda>_ _. True" "books_state cp c" for cp c
proof unfold_locales
  fix old skip b db
  show "books_state cp c old \<Longrightarrow> apply_block_state cp skip b old = Inr db \<Longrightarrow> True \<and> books_state cp c db"
    by (auto simp: books_state_def dest: apply_block_state_books)
next
  fix cp' old skip trx db
  show "cp' = cp \<or> cp' = producing cp \<Longrightarrow> books_state cp c old \<Longrightarrow> apply_transaction cp' skip trx old = Inr db \<Longrightarrow> books_state cp c db"
    using apply_transaction_books [of cp' old skip trx db] producing_plugins(1) [of cp' cp] by (auto simp: books_state_def)
qed

text \<open>The state after the last block, without pending transactions.\<close>

definition block_state :: "node_state \<Rightarrow> chain_db" where
  "block_state nd = (if nd_pending_session nd then snd (hd (nd_undo nd)) else nd_db nd)"

definition block_history :: "node_state \<Rightarrow> (int \<times> chain_db) list" where
  "block_history nd = (if nd_pending_session nd then tl (nd_undo nd) else nd_undo nd)"

lemma settled_history: "settled step good nd \<Longrightarrow> chained step good (block_history nd) (block_state nd)"
  by (auto simp: settled_def block_history_def block_state_def split: list.splits if_splits)

text \<open>
  C2: Whatever a node is asked to do, in any order and whether it succeeds or fails (blocks in order, blocks of other
  forks, invalid blocks, transactions, production, popping), the state of its last block is what applying
  a block to the undo state below it gives, and so on down to its oldest undo state: popping a block
  goes back to the exact state before it.
\<close>

theorem node_replays_blocks:
  assumes "(node_step cp cks)\<^sup>*\<^sup>* nd nd'" "nd_undo nd = []" "\<not> nd_pending_session nd"
  shows "chained (block_applied cp) any_state (block_history nd') (block_state nd')"
  by (rule settled_history [OF replay.reachable_settled [OF assms(1)]]) (simp add: settled_def assms(2,3) any_state_def)

text \<open>
  No sequence of calls to a node creates or destroys value: in the state of the last block of every
  reachable node, what all balances and funds hold beyond the recorded supply is what it was at the start.
\<close>

theorem node_keeps_books:
  assumes "(node_step cp cks)\<^sup>*\<^sup>* nd nd'" "nd_undo nd = []" "\<not> nd_pending_session nd"
    and "plugins_balanced (cp_env cp)" "wf_db (nd_db nd)"
  shows "wf_db (block_state nd') \<and> unaccounted (block_state nd') = unaccounted (nd_db nd)"
proof -
  have "settled (\<lambda>_ _. True) (books_state cp (unaccounted (nd_db nd))) nd" using assms by (simp add: settled_def books_state_def)
  from chained_good [OF settled_history [OF books.reachable_settled [OF assms(1) this]]] assms(4) show ?thesis
    by (simp add: books_state_def)
qed

section \<open>The head after a push\<close>

lemma apply_block_head:
  assumes "plugins_keep_head (cp_env cp)" "with_session (apply_block cp cks skip b) nd = Done x nd'"
  shows "head_block_id (nd_db nd') = block_id (cp_block cp) b"
proof -
  from assms(2) have "apply_block cp cks skip b (start_session nd) = Done x nd'"
    by (auto simp: with_session_def split: node_result.splits if_splits)
  from apply_block_shortened(2) [OF this] obtain skip' d where
    d: "begin_block cp skip' b (nd_db (start_session nd)) = Inr d" "finish_block cp b d = Inr (nd_db nd')"
    by (auto simp: apply_block_state_def bindR_Inr_iff)
  from finish_block_head [OF assms(1) d(2)] begin_block_head(1) [OF d(1)] show ?thesis by (simp add: same_head_def clear_expired_head)
qed

lemma restore_branch_throws: "restore_branch cp cks skip e bad second nd \<noteq> Done x nd'"
  by (auto simp: restore_branch_def Let_def split: node_result.splits)

lemma push_branch_head:
  "plugins_keep_head (cp_env cp) \<Longrightarrow> push_branch cp cks skip second bs nd = Done sw nd' \<Longrightarrow> bs \<noteq> [] \<Longrightarrow>
     sw \<and> head_block_id (nd_db nd') = block_id (cp_block cp) (last bs)"
proof (induction bs arbitrary: nd)
  case (Cons b bs)
  then obtain x mid where mid: "with_session (apply_block cp cks skip b) nd = Done x mid" "push_branch cp cks skip second bs mid = Done sw nd'"
    by (auto simp: restore_branch_throws split: node_result.splits)
  show ?case
  proof (cases bs)
    case Nil
    with mid Cons.prems(1) show ?thesis by (auto dest: apply_block_head)
  next
    case (Cons c cs)
    with Cons.IH [OF Cons.prems(1) mid(2)] show ?thesis by simp
  qed
qed simp

lemma walk_down_first: "walk_down fd fuel t a acc = Inr (xs, a') \<Longrightarrow> hd (xs @ [a']) = hd (acc @ [a])"
proof (induction fuel arbitrary: a acc)
  case (Suc fuel)
  then show ?case by (fastforce simp: walk_down.simps [of fd "Suc fuel"] hd_append split: if_splits option.splits)
qed (auto simp: walk_down.simps split: if_splits)

lemma walk_both_first:
  "walk_both fd fuel a b acc1 acc2 = Inr (xs, ys) \<Longrightarrow> xs \<noteq> [] \<and> hd xs = hd (acc1 @ [a])"
proof (induction fuel arbitrary: a b acc1 acc2)
  case (Suc fuel)
  show ?case
  proof (cases "previous (fi_data (item_at fd a)) = previous (fi_data (item_at fd b))")
    case True
    with Suc.prems show ?thesis by (auto simp: walk_both.simps [of fd "Suc fuel"])
  next
    case False
    with Suc.prems obtain p q where "walk_both fd fuel p q (acc1 @ [a]) (acc2 @ [b]) = Inr (xs, ys)"
      by (simp add: walk_both.simps [of fd "Suc fuel"] split: option.splits)
    from Suc.IH [OF this] show ?thesis by (simp add: hd_append)
  qed
qed (auto simp: walk_both.simps split: if_splits)

lemma fetch_branch_first:
  assumes "fetch_branch_from first second fd = Inr (xs, ys)"
  shows "xs \<noteq> [] \<and> find_by_id fd (fd_index fd) first = Some (hd xs)"
proof -
  from assms obtain a b xs1 a1 ys1 b1 where w: "find_by_id fd (fd_index fd) first = Some a"
    "walk_down fd (fd_fresh fd) (block_num_at fd b) a [] = Inr (xs1, a1)" "walk_both fd (fd_fresh fd) a1 b1 xs1 ys1 = Inr (xs, ys)"
    by (auto simp: fetch_branch_from_def bindR_Inr_iff of_option_def split: option.splits)
  from walk_down_first [OF w(2)] walk_both_first [OF w(3)] w(1) show ?thesis by simp
qed

lemma switch_fork_head:
  assumes "plugins_keep_head (cp_env cp)" "fork_wf (cp_block cp) (nd_fork nd)" "switch_fork cp cks skip h nd = Done sw nd'"
  shows "sw \<and> head_block_id (nd_db nd') = block_id (cp_block cp) (fi_data (item_at (nd_fork nd) h))"
proof -
  let ?fd = "nd_fork nd" and ?first = "block_id (cp_block cp) (fi_data (item_at (nd_fork nd) h))"
  from assms(3) obtain xs ys mid where r: "fetch_branch_from ?first (head_block_id (nd_db nd)) ?fd = Inr (xs, ys)"
    "push_branch cp cks skip ys (map (\<lambda>a. fi_data (item_at ?fd a)) (rev xs)) mid = Done sw nd'"
    by (auto simp: switch_fork_def Let_def split: sum.splits node_result.splits)
  note xs = fetch_branch_first [OF r(1)]
  then have first: "hd xs \<in> set (fd_index ?fd)" "fi_id (item_at ?fd (hd xs)) = ?first" by (auto dest: find_by_id_Some)
  from first(1) obtain it where "fd_heap ?fd (hd xs) = Some it" using fork_wf_owned [OF assms(2)] by (auto simp: owned_def)
  with fork_wf_heap [OF assms(2)] first(2) have "block_id (cp_block cp) (fi_data (item_at ?fd (hd xs))) = ?first"
    by (auto simp: wf_item_def item_at_def)
  with push_branch_head [OF assms(1) r(2)] xs show ?thesis by (simp add: last_map last_rev)
qed

text \<open>Pending transactions are applied above the last block and leave its state alone.\<close>

definition session_open :: "node_state \<Rightarrow> bool" where
  "session_open nd \<longleftrightarrow> (nd_pending_session nd \<longrightarrow> nd_undo nd \<noteq> [])"

lemma push_pending_block_state:
  assumes "session_open nd"
  shows "leaves (\<lambda>nd'. session_open nd' \<and> block_state nd' = block_state nd) (push_pending cp skip trx nd)"
  using assms by (auto simp: session_open_def block_state_def push_pending_def Let_def start_session_def undo_session_def squash_session_def neq_Nil_conv
      split: sum.splits if_splits)

lemma restore_pending_block_state:
  assumes "session_open nd"
  shows "block_state (restore_pending cp skip pending nd) = block_state nd"
proof -
  have one: "session_open (restore_transaction cp skip nd trx) \<and> block_state (restore_transaction cp skip nd trx) = block_state nd"
    if "session_open nd" for nd trx
    using push_pending_block_state [OF that, of cp skip trx] that by (auto simp: restore_transaction_def split: node_result.splits)
  have fold: "session_open nd \<Longrightarrow> session_open (foldl (restore_transaction cp skip) nd txs)
      \<and> block_state (foldl (restore_transaction cp skip) nd txs) = block_state nd" for nd txs
    by (induction txs arbitrary: nd) (simp_all add: one)
  have frame: "session_open (nd\<lparr>nd_popped := []\<rparr>) = session_open nd" "block_state (nd\<lparr>nd_popped := []\<rparr>) = block_state nd" for nd
    by (simp_all add: session_open_def block_state_def)
  show ?thesis using fold assms by (simp add: restore_pending_def Let_def frame)
qed

interpretation idle: node_chain cp "\<lambda>_ _. True" any_state for cp
  by unfold_locales (auto simp: any_state_def)

lemma chained_any: "chained (\<lambda>_ _. True) any_state u db"
  by (induction u arbitrary: db) (auto simp: any_state_def)

text \<open>
  C3: The longest chain wins. When a block is pushed without error, the node switches forks exactly when the longest
  chain does not extend its head block and is longer than its own; then its new head is the head
  of the longest chain. When the longest chain extends the head, the pushed block becomes the head, and otherwise
  the head stays.
\<close>

theorem pushed_block_is_head:
  assumes keep: "plugins_keep_head (cp_env cp)" and wf: "fork_wf (cp_block cp) (nd_fork nd)" "hash_total (cp_block cp)" and skip: "\<not> skips skip skip_fork_db"
    and fork: "fork_push_block (cp_block cp) b (nd_fork nd) = Inr (Some h, fd)"
    and run: "push_block cp cks skip b nd = Done switched nd'"
  shows "let old = nd_db (clear_pending nd); longest = fi_data (item_at fd h) in
     switched = (previous longest \<noteq> head_block_id old \<and> head_block_num old < unat (block_num longest))
     \<and> head_block_id (block_state nd') =
         (if switched then block_id (cp_block cp) longest
          else if previous longest = head_block_id old then block_id (cp_block cp) b
          else head_block_id old)"
proof -
  let ?nd = "clear_pending nd" and ?longest = "fi_data (item_at fd h)"
  have nd: "nd_fork ?nd = nd_fork nd" "\<not> nd_pending_session ?nd"
    by (simp_all add: clear_pending_def reset_pending_session_def undo_session_def split: list.split)
  from run obtain mid where mid: "push_block_inner cp cks skip b ?nd = Done switched mid"
    "nd' = restore_pending cp skip (nd_pending nd) mid"
    by (auto simp: push_block_def split: node_result.splits)
  have "resting (\<lambda>_ _. True) any_state ?nd" using nd(2) by (simp add: resting_def chained_any)
  from idle.push_inner [OF this, of cp cks skip b] mid(1) have rest: "\<not> nd_pending_session mid" by (simp add: resting_def)
  then have "session_open mid" "block_state mid = nd_db mid" by (simp_all add: session_open_def block_state_def)
  then have state: "block_state nd' = nd_db mid" by (simp add: mid(2) restore_pending_block_state)
  have wf': "fork_wf (cp_block cp) (nd_fork (?nd\<lparr>nd_fork := fd\<rparr>))" using fork_push_wf [OF wf fork] by simp
  have push: "push_block_inner cp cks skip b ?nd =
     (if previous ?longest \<noteq> head_block_id (nd_db ?nd) then
        if unat (block_num ?longest) > head_block_num (nd_db ?nd) then switch_fork cp cks skip h (?nd\<lparr>nd_fork := fd\<rparr>)
        else Done False (?nd\<lparr>nd_fork := fd\<rparr>)
      else push_on_head cp cks skip b (?nd\<lparr>nd_fork := fd\<rparr>))"
    using skip fork nd(1) by (simp add: push_block_inner_def Let_def)
  consider "previous ?longest = head_block_id (nd_db ?nd)"
    | "previous ?longest \<noteq> head_block_id (nd_db ?nd)" "\<not> unat (block_num ?longest) > head_block_num (nd_db ?nd)"
    | "previous ?longest \<noteq> head_block_id (nd_db ?nd)" "unat (block_num ?longest) > head_block_num (nd_db ?nd)" by blast
  then show ?thesis
  proof cases
    case 1
    with push mid(1) have "push_on_head cp cks skip b (?nd\<lparr>nd_fork := fd\<rparr>) = Done switched mid" by simp
    then have "\<not> switched" "head_block_id (nd_db mid) = block_id (cp_block cp) b"
      by (auto simp: push_on_head_def split: node_result.splits dest: apply_block_head [OF keep])
    with 1 state show ?thesis by simp
  next
    case 2
    with push mid(1) state show ?thesis by auto
  next
    case 3
    with push mid(1) have "switch_fork cp cks skip h (?nd\<lparr>nd_fork := fd\<rparr>) = Done switched mid" by simp
    from switch_fork_head [OF keep wf' this] 3 state show ?thesis by simp
  qed
qed

text \<open>
  The undo sessions up to the last irreversible block are committed before the rest of the block is processed.
  If the block itself is already irreversible, which takes a schedule that a single bobserver confirms, and a later step fails,
  then no session is left that would undo the block.
\<close>

lemma irreversible_block_torn:
  assumes "begin_block cp skip b (nd_db nd) = Inr d" "finish_block cp b d = Inl e" "skips skip skip_block_log"
    and "list_all (\<lambda>s. fst s \<le> nd_revision nd) (nd_undo nd)" "nd_revision nd + 1 \<le> int (dgp_last_irreversible_block_num (db_dgp d))"
  shows "with_session (apply_block cp [] skip b) nd = Torn e"
proof -
  have "dropWhile (\<lambda>s. fst s \<le> int (dgp_last_irreversible_block_num (db_dgp d))) (rev (nd_undo (start_session nd))) = []"
    using assms(4,5) by (auto simp: start_session_def list_all_iff dropWhile_eq_Nil_conv)
  then show ?thesis using assms(1-3)
    by (simp add: with_session_def apply_block_def check_checkpoints_def apply_block_checked_def start_session_def
        note_irreversible_def Let_def commit_sessions_def)
qed

section \<open>An example\<close>

text \<open>A node just after genesis, and its first block.\<close>

definition example_node :: node_state where
  "example_node = \<lparr>nd_db = example_start, nd_revision = 0, nd_undo = [], nd_fork = empty_fork_database, nd_log = [],
     nd_pending = [], nd_pending_session = False, nd_popped = []\<rparr>"

definition example_tree :: fork_database where
  "example_tree = \<lparr>fd_heap = [0 \<mapsto> mk_fork_item (cp_block example_params) example_block], fd_fresh = 1, fd_index = [0], fd_unlinked = [],
     fd_head = Some 0, fd_max_size = 1024\<rparr>"

lemma example_fork_push:
  "fork_push_block (cp_block example_params) example_block empty_fork_database = Inr (Some 0, example_tree)"
  by (simp add: fork_push_block_def empty_fork_database_def check_age_def link_item_def allocate_def index_insert_def find_by_id_def
      example_tree_def)

lemma example_runs:
  obtains d db' where "begin_block example_params 0 example_block example_start = Inr d" "dgp_last_irreversible_block_num (db_dgp d) = 0"
    "finish_block example_params example_block d = Inr db'"
proof -
  have ok: "is_ok (apply_block_state example_params 0 example_block example_start)"
    by (rule example_applies) (simp add: is_ok_iff)
  have "case begin_block example_params 0 example_block example_start of
      Inl e \<Rightarrow> False | Inr d \<Rightarrow> dgp_last_irreversible_block_num (db_dgp d) = 0"
    by (simp add: block_eval transaction_eval processing_eval)
  with ok that show ?thesis by (auto simp: apply_block_state_def is_ok_iff bindR_Inr_iff split: sum.splits)
qed

lemma example_pushed:
  obtains nd' where "push_block example_params [] 0 example_block example_node = Done False nd'"
    "nd_undo nd' = [(1, example_start)]" "\<not> nd_pending_session nd'"
proof -
  obtain d db' where d: "begin_block example_params 0 example_block example_start = Inr d" "dgp_last_irreversible_block_num (db_dgp d) = 0"
    "finish_block example_params example_block d = Inr db'" by (rule example_runs)
  have prev: "previous example_block = head_block_id example_start" using begin_block_head(4) [OF d(1)] .
  have "\<exists>nd'. push_block example_params [] 0 example_block example_node = Done False nd' \<and> nd_undo nd' = [(1, example_start)]
      \<and> \<not> nd_pending_session nd'"
    using d prev by (simp add: push_block_def clear_pending_def reset_pending_session_def example_node_def push_block_inner_def
        example_fork_push Let_def push_on_head_def with_session_def start_session_def apply_block_def check_checkpoints_def
        apply_block_checked_def note_irreversible_def commit_sessions_def extend_log.simps log_head_num_def restore_pending_def
        item_at_def example_tree_def mk_fork_item_def)
  then show ?thesis using that by blast
qed

theorem node_replays_blocks_witness:
  "\<exists>nd'. (node_step example_params [])\<^sup>*\<^sup>* example_node nd' \<and> block_history nd' = [(1, example_start)]
     \<and> block_applied example_params example_start (block_state nd')"
proof -
  obtain nd' where nd': "push_block example_params [] 0 example_block example_node = Done False nd'"
    "nd_undo nd' = [(1, example_start)]" "\<not> nd_pending_session nd'" by (rule example_pushed)
  then have run: "(node_step example_params [])\<^sup>*\<^sup>* example_node nd'" by (intro r_into_rtranclp node_step.block [where skip = 0 and b = example_block]) simp
  have "chained (block_applied example_params) any_state (block_history nd') (block_state nd')"
    by (rule node_replays_blocks [OF run]) (simp_all add: example_node_def)
  with nd' run show ?thesis by (auto simp: block_history_def)
qed

theorem node_keeps_books_witness:
  "\<exists>nd'. (node_step example_params [])\<^sup>*\<^sup>* example_node nd' \<and> wf_db (block_state nd')
     \<and> unaccounted (block_state nd') = unaccounted example_start"
proof -
  obtain nd' where nd': "push_block example_params [] 0 example_block example_node = Done False nd'" by (rule example_pushed)
  then have run: "(node_step example_params [])\<^sup>*\<^sup>* example_node nd'" by (intro r_into_rtranclp node_step.block [where skip = 0 and b = example_block]) simp
  have "wf_db (block_state nd') \<and> unaccounted (block_state nd') = unaccounted (nd_db example_node)"
    by (rule node_keeps_books [OF run]) (simp_all add: example_node_def example_params_good example_start_good)
  with run show ?thesis by (auto simp: example_node_def)
qed

theorem pushed_block_is_head_witness:
  "\<exists>nd'. push_block example_params [] 0 example_block example_node = Done False nd'
     \<and> head_block_id (block_state nd') = block_id (cp_block example_params) example_block"
proof -
  obtain nd' where nd': "push_block example_params [] 0 example_block example_node = Done False nd'" by (rule example_pushed)
  obtain d where d: "begin_block example_params 0 example_block example_start = Inr d" by (rule example_runs)
  have wf: "fork_wf (cp_block example_params) (nd_fork example_node)" "hash_total (cp_block example_params)"
    by (simp_all add: fork_wf_def example_node_def empty_fork_database_def owned_def hash_total_def example_params_def)
  have fork: "fork_push_block (cp_block example_params) example_block (nd_fork example_node) = Inr (Some 0, example_tree)"
    by (simp add: example_node_def example_fork_push)
  from pushed_block_is_head [OF example_params_good(2) wf skips_nothing fork nd'] begin_block_head(4) [OF d] nd' show ?thesis
    by (simp add: Let_def clear_pending_def reset_pending_session_def example_node_def item_at_def example_tree_def mk_fork_item_def)
qed

end
