(* ===== verification/Dapp.thy ===== *)
theory Dapp
  imports Economy
begin

text \<open>
  The dapp plugin: its operations with their validation and required authorities
  (\<^verbatim>\<open>dapp_operations.hpp\<close>, \<^verbatim>\<open>dapp_operations.cpp\<close>), one definition per evaluator of
  \<^verbatim>\<open>dapp_evaluators.cpp\<close>, and the hourly count of the producers' votes of \<^verbatim>\<open>dapp_plugin.cpp\<close>.
  The library that applies a text patch to the body of a comment, and the UTF-8 functions, are the
  fields of a parameter.
\<close>

section \<open>Operations\<close>

record create_dapp_operation =
  cdp_owner :: account_name_type
  cdp_dapp_name :: string
  cdp_dapp_key :: "public_key_type option"

record update_dapp_key_operation =
  udk_owner :: account_name_type
  udk_dapp_name :: string
  udk_dapp_key :: "public_key_type option"

record comment_dapp_operation =
  cmt_dapp_name :: string
  cmt_parent_author :: account_name_type
  cmt_parent_permlink :: string
  cmt_author :: account_name_type
  cmt_permlink :: string
  cmt_title :: string
  cmt_body :: string
  cmt_json_metadata :: string

record comment_vote_dapp_operation =
  cvt_dapp_name :: string
  cvt_voter :: account_name_type
  cvt_author :: account_name_type
  cvt_permlink :: string
  cvt_vote_type :: "16 word"

record delete_comment_dapp_operation =
  dcm_dapp_name :: string
  dcm_author :: account_name_type
  dcm_permlink :: string

record join_dapp_operation =
  jdp_account_name :: account_name_type
  jdp_dapp_name :: string

record leave_dapp_operation =
  ldp_account_name :: account_name_type
  ldp_dapp_name :: string

record vote_dapp_operation =
  vdp_voter :: account_name_type
  vdp_dapp_name :: string
  vdp_vote :: "16 word"

record vote_dapp_trx_fee_operation =
  vtf_voter :: account_name_type
  vtf_trx_fee :: asset

datatype (plugins only: code) dapp_operation =
    Create_dapp create_dapp_operation
  | Update_dapp_key update_dapp_key_operation
  | Comment_dapp comment_dapp_operation
  | Comment_vote_dapp comment_vote_dapp_operation
  | Delete_comment_dapp delete_comment_dapp_operation
  | Join_dapp join_dapp_operation
  | Leave_dapp leave_dapp_operation
  | Vote_dapp vote_dapp_operation
  | Vote_dapp_trx_fee vote_dapp_trx_fee_operation

section \<open>Validation\<close>

definition validate_permlink :: "text_checks \<Rightarrow> string \<Rightarrow> 'b result \<Rightarrow> 'b result" where
  "validate_permlink tc permlink k =
     fc_assert (length permlink < 256) Data_too_large (
     fc_assert (is_utf8 tc permlink) Not_utf8 k)"

text \<open>\<^verbatim>\<open>std::string( dapp_name ).find( " " ) == npos\<close>.\<close>

definition no_space :: "string \<Rightarrow> bool" where
  "no_space s = list_all (\<lambda>c. c \<noteq> CHR '' '') s"

definition create_dapp_validate :: "create_dapp_operation \<Rightarrow> unit result" where
  "create_dapp_validate o' =
     validate_account_name (cdp_owner o') (
     fc_assert (length (short_name_string (cdp_dapp_name o')) > 0) Empty_field (
     fc_assert (no_space (short_name_string (cdp_dapp_name o'))) Unnamed_assertion (
     fc_assert (cdp_dapp_key o' \<noteq> None) Empty_field (Inr ()))))"

definition update_dapp_key_validate :: "update_dapp_key_operation \<Rightarrow> unit result" where
  "update_dapp_key_validate o' =
     validate_account_name (udk_owner o') (
     fc_assert (length (short_name_string (udk_dapp_name o')) > 0) Empty_field (
     fc_assert (udk_dapp_key o' \<noteq> None) Empty_field (Inr ())))"

definition comment_dapp_validate :: "text_checks \<Rightarrow> comment_dapp_operation \<Rightarrow> unit result" where
  "comment_dapp_validate tc o' =
     fc_assert (length (short_name_string (cmt_dapp_name o')) > 0) Empty_field (
     fc_assert (length (cmt_title o') < 256) Data_too_large (
     fc_assert (is_utf8 tc (cmt_title o')) Not_utf8 (
     fc_assert (length (cmt_body o') > 0) Empty_field (
     fc_assert (is_utf8 tc (cmt_body o')) Not_utf8 (
     bindR (if length (name_string (cmt_parent_author o')) > 0 then validate_account_name (cmt_parent_author o') (Inr ()) else Inr ()) (\<lambda>_.
     validate_account_name (cmt_author o') (
     validate_permlink tc (cmt_parent_permlink o') (
     validate_permlink tc (cmt_permlink o') (
     if length (cmt_json_metadata o') > 0 then fc_assert (is_json tc (cmt_json_metadata o')) Not_json (Inr ())
     else Inr ())))))))))"

definition comment_vote_dapp_validate :: "text_checks \<Rightarrow> comment_vote_dapp_operation \<Rightarrow> unit result" where
  "comment_vote_dapp_validate tc o' =
     fc_assert (length (short_name_string (cvt_dapp_name o')) > 0) Empty_field (
     fc_assert (length (name_string (cvt_voter o')) > 0) Empty_field (
     validate_account_name (cvt_voter o') (
     fc_assert (length (name_string (cvt_author o')) > 0) Empty_field (
     validate_account_name (cvt_author o') (
     fc_assert (length (cvt_permlink o') > 0) Empty_field (
     validate_permlink tc (cvt_permlink o') (
     fc_assert (cvt_vote_type o' \<ge> LIKE \<and> cvt_vote_type o' \<le> DISLIKE) Out_of_range (Inr ()))))))))"

definition delete_comment_dapp_validate :: "text_checks \<Rightarrow> delete_comment_dapp_operation \<Rightarrow> unit result" where
  "delete_comment_dapp_validate tc o' =
     fc_assert (length (short_name_string (dcm_dapp_name o')) > 0) Empty_field (
     fc_assert (length (dcm_permlink o') > 0) Empty_field (
     validate_permlink tc (dcm_permlink o') (
     validate_account_name (dcm_author o') (Inr ()))))"

definition join_dapp_validate :: "join_dapp_operation \<Rightarrow> unit result" where
  "join_dapp_validate o' =
     validate_account_name (jdp_account_name o') (
     fc_assert (length (short_name_string (jdp_dapp_name o')) > 0) Empty_field (
     fc_assert (no_space (short_name_string (jdp_dapp_name o'))) Unnamed_assertion (Inr ())))"

definition leave_dapp_validate :: "leave_dapp_operation \<Rightarrow> unit result" where
  "leave_dapp_validate o' =
     validate_account_name (ldp_account_name o') (
     fc_assert (length (short_name_string (ldp_dapp_name o')) > 0) Empty_field (
     fc_assert (no_space (short_name_string (ldp_dapp_name o'))) Unnamed_assertion (Inr ())))"

definition vote_dapp_validate :: "vote_dapp_operation \<Rightarrow> unit result" where
  "vote_dapp_validate o' =
     validate_account_name (vdp_voter o') (
     fc_assert (length (short_name_string (vdp_dapp_name o')) > 0) Empty_field (
     fc_assert (no_space (short_name_string (vdp_dapp_name o'))) Unnamed_assertion (
     fc_assert (vdp_vote o' = ucast APPROVAL \<or> vdp_vote o' = ucast REJECTION) Out_of_range (Inr ()))))"

definition vote_dapp_trx_fee_validate :: "vote_dapp_trx_fee_operation \<Rightarrow> unit result" where
  "vote_dapp_trx_fee_validate o' =
     validate_account_name (vtf_voter o') (
     fc_assert (amount (vtf_trx_fee o') \<ge> 0) Out_of_range (
     fc_assert (symbol (vtf_trx_fee o') = SGT_SYMBOL) Invalid_symbol (Inr ())))"

fun dapp_operation_validate :: "text_checks \<Rightarrow> dapp_operation \<Rightarrow> unit result" where
  "dapp_operation_validate tc (Create_dapp o') = create_dapp_validate o'"
| "dapp_operation_validate tc (Update_dapp_key o') = update_dapp_key_validate o'"
| "dapp_operation_validate tc (Comment_dapp o') = comment_dapp_validate tc o'"
| "dapp_operation_validate tc (Comment_vote_dapp o') = comment_vote_dapp_validate tc o'"
| "dapp_operation_validate tc (Delete_comment_dapp o') = delete_comment_dapp_validate tc o'"
| "dapp_operation_validate tc (Join_dapp o') = join_dapp_validate o'"
| "dapp_operation_validate tc (Leave_dapp o') = leave_dapp_validate o'"
| "dapp_operation_validate tc (Vote_dapp o') = vote_dapp_validate o'"
| "dapp_operation_validate tc (Vote_dapp_trx_fee o') = vote_dapp_trx_fee_validate o'"

fun dapp_required_authorities :: "dapp_operation \<Rightarrow> required_authorities \<Rightarrow> required_authorities" where
  "dapp_required_authorities (Create_dapp o') r = need_active [cdp_owner o'] r"
| "dapp_required_authorities (Update_dapp_key o') r = need_active [udk_owner o'] r"
| "dapp_required_authorities (Comment_dapp o') r = need_posting [cmt_author o'] r"
| "dapp_required_authorities (Comment_vote_dapp o') r = need_posting [cvt_voter o'] r"
| "dapp_required_authorities (Delete_comment_dapp o') r = need_posting [dcm_author o'] r"
| "dapp_required_authorities (Join_dapp o') r = need_active [jdp_account_name o'] r"
| "dapp_required_authorities (Leave_dapp o') r = need_active [ldp_account_name o'] r"
| "dapp_required_authorities (Vote_dapp o') r = need_active [vdp_voter o'] r"
| "dapp_required_authorities (Vote_dapp_trx_fee o') r = need_active [vtf_voter o'] r"

section \<open>What the evaluators share\<close>

definition modify_plugins :: "(plugin_db \<Rightarrow> plugin_db) \<Rightarrow> chain_db \<Rightarrow> chain_db" where
  "modify_plugins f db = db\<lparr>db_plugins := f (db_plugins db)\<rparr>"

definition find_dapp :: "string \<Rightarrow> chain_db \<Rightarrow> dapp_object option" where
  "find_dapp name db = table_find (\<lambda>d. dap_name d = name) (pl_dapps (db_plugins db))"

definition require_dapp :: "string \<Rightarrow> chain_db \<Rightarrow> dapp_object result" where
  "require_dapp name db = of_option (Assert_exception Unknown_dapp) (find_dapp name db)"

definition find_dapp_user :: "string \<Rightarrow> account_name_type \<Rightarrow> chain_db \<Rightarrow> dapp_user_object option" where
  "find_dapp_user name account db =
     index_begin (\<lambda>u. - int (usr_join_date_time u)) (filter (\<lambda>u. usr_dapp_name u = name \<and> usr_account_name u = account)
       (tb_rows (pl_users (db_plugins db))))"

text \<open>
  The fee of a dapp transaction: the payer is looked up and must hold it before the operation
  starts, and it moves to the dapp reward fund at the end.
\<close>

definition fee_payer :: "account_name_type \<Rightarrow> asset \<Rightarrow> chain_db \<Rightarrow> account_object result" where
  "fee_payer name fee db =
     bindR (get_account name db) (\<lambda>from_account.
     bindR (require_ge (acc_balance from_account) fee) (\<lambda>_.
     Inr from_account))"

definition charge_fee :: "string \<Rightarrow> account_object \<Rightarrow> asset \<Rightarrow> chain_db \<Rightarrow> chain_db result" where
  "charge_fee name from_account fee db =
     bindR (asset_neg fee) (\<lambda>minus.
     bindR (adjust_balance (acc_id from_account) minus db) (\<lambda>db.
     bindR (adjust_dapp_reward_fund_balance fee db) (\<lambda>db.
     push_virtual_operation (Dapp_fee_virtual name fee) db)))"

text \<open>
  A producer votes under the account that owns it; when an account owns several bobservers,
  \<^verbatim>\<open>by_bp_owner\<close> yields the oldest of them.
\<close>

definition is_voting_producer :: "account_name_type \<Rightarrow> chain_db \<Rightarrow> bool" where
  "is_voting_producer voter db =
     (case table_find (\<lambda>b. bo_bp_owner b = voter) (db_bobservers db) of
        None \<Rightarrow> False
      | Some b \<Rightarrow> bo_is_bproducer b)"

text \<open>Chainbase refuses a modification that makes two objects agree on a unique key.\<close>

definition table_modify_unique ::
  "('a \<Rightarrow> 'a \<Rightarrow> bool) \<Rightarrow> ('a \<Rightarrow> nat) \<Rightarrow> nat \<Rightarrow> ('a \<Rightarrow> 'a) \<Rightarrow> 'a table \<Rightarrow> 'a table result" where
  "table_modify_unique clash idf i f t =
     guardR (list_all (\<lambda>r. idf r = i \<longrightarrow> list_all (\<lambda>w. idf w = i \<or> \<not> clash (f r) w) (tb_rows t)) (tb_rows t))
       Uniqueness_violated (Inr (table_modify idf i f t))"

section \<open>Dapps and their members\<close>

definition create_dapp_apply :: "create_dapp_operation \<Rightarrow> chain_db \<Rightarrow> chain_db result" where
  "create_dapp_apply op db =
     bindR (of_option (Assert_exception Unknown_account) (find_account (cdp_owner op) db)) (\<lambda>owner.
     fc_assert (find_dapp (cdp_dapp_name op) db = None) Dapp_exists (
     bindR (of_option (Assert_exception Unnamed_assertion) (cdp_dapp_key op)) (\<lambda>key.
     let now_time = head_block_time db; p = db_plugins db in
     bindR (table_create dapp_clash (\<lambda>i. \<lparr>dap_id = i, dap_name = cdp_dapp_name op, dap_owner = cdp_owner op,
              dap_key = key, dap_state = PENDING, dap_created = now_time, dap_last_updated = now_time\<rparr>) (pl_dapps p)) (\<lambda>dapps.
     bindR (table_create user_clash (\<lambda>i. \<lparr>usr_id = i, usr_dapp_id = tb_next (pl_dapps p), usr_dapp_name = cdp_dapp_name op,
              usr_account_id = acc_id owner, usr_account_name = cdp_owner op, usr_join_date_time = now_time\<rparr>) (pl_users p)) (\<lambda>users.
     Inr (modify_plugins (\<lambda>p. p\<lparr>pl_dapps := dapps, pl_users := users\<rparr>) db))))))"

definition update_dapp_key_apply :: "update_dapp_key_operation \<Rightarrow> chain_db \<Rightarrow> chain_db result" where
  "update_dapp_key_apply op db =
     bindR (require_dapp (udk_dapp_name op) db) (\<lambda>dapp.
     fc_assert (dap_owner dapp = udk_owner op) Not_dapp_owner (
     let fee = dgp_dapp_transaction_fee (db_dgp db) in
     bindR (fee_payer (udk_owner op) fee db) (\<lambda>from_account.
     bindR (of_option (Assert_exception Unnamed_assertion) (udk_dapp_key op)) (\<lambda>key.
     charge_fee (dap_name dapp) from_account fee
       (modify_plugins (\<lambda>p. p\<lparr>pl_dapps := table_modify dap_id (dap_id dapp) (\<lambda>d. d\<lparr>dap_key := key\<rparr>) (pl_dapps p)\<rparr>) db)))))"

definition join_dapp_apply :: "join_dapp_operation \<Rightarrow> chain_db \<Rightarrow> chain_db result" where
  "join_dapp_apply op db =
     bindR (of_option (Assert_exception Unknown_account) (find_account (jdp_account_name op) db)) (\<lambda>account.
     bindR (require_dapp (jdp_dapp_name op) db) (\<lambda>dapp.
     fc_assert (dap_state dapp = APPROVAL) Wrong_dapp_state (
     let fee = dgp_dapp_transaction_fee (db_dgp db) in
     bindR (fee_payer (dap_owner dapp) fee db) (\<lambda>from_account.
     fc_assert (find_dapp_user (jdp_dapp_name op) (jdp_account_name op) db = None) Already_a_member (
     bindR (table_create user_clash (\<lambda>i. \<lparr>usr_id = i, usr_dapp_id = dap_id dapp, usr_dapp_name = jdp_dapp_name op,
              usr_account_id = acc_id account, usr_account_name = jdp_account_name op,
              usr_join_date_time = head_block_time db\<rparr>) (pl_users (db_plugins db))) (\<lambda>users.
     charge_fee (jdp_dapp_name op) from_account fee (modify_plugins (\<lambda>p. p\<lparr>pl_users := users\<rparr>) db)))))))"

definition leave_dapp_apply :: "leave_dapp_operation \<Rightarrow> chain_db \<Rightarrow> chain_db result" where
  "leave_dapp_apply op db =
     bindR (of_option (Assert_exception Unknown_account) (find_account (ldp_account_name op) db)) (\<lambda>account.
     bindR (require_dapp (ldp_dapp_name op) db) (\<lambda>dapp.
     let fee = dgp_dapp_transaction_fee (db_dgp db) in
     bindR (fee_payer (dap_owner dapp) fee db) (\<lambda>from_account.
     bindR (of_option (Assert_exception Not_a_member) (find_dapp_user (ldp_dapp_name op) (ldp_account_name op) db)) (\<lambda>user.
     charge_fee (ldp_dapp_name op) from_account fee
       (modify_plugins (\<lambda>p. p\<lparr>pl_users := table_remove usr_id (usr_id user) (pl_users p)\<rparr>) db)))))"

section \<open>Comments\<close>

definition SIGMAENGINE_MAX_COMMENT_DEPTH :: "16 word" where "SIGMAENGINE_MAX_COMMENT_DEPTH = 0xffff"
definition SIGMAENGINE_MIN_ROOT_COMMENT_INTERVAL :: int where "SIGMAENGINE_MIN_ROOT_COMMENT_INTERVAL = 3"
definition SIGMAENGINE_MIN_REPLY_INTERVAL :: int where "SIGMAENGINE_MIN_REPLY_INTERVAL = 3"

text \<open>
  \<open>tt_patch\<close> is \<^verbatim>\<open>diff_match_patch\<close>: the body that applying the given patch text to a body yields, or
  \<open>None\<close> when the text is not a patch. \<open>tt_prune\<close> is \<^verbatim>\<open>fc::prune_invalid_utf8\<close>.
\<close>

record text_tools =
  tt_checks :: text_checks
  tt_patch :: "string \<Rightarrow> string \<Rightarrow> string option"
  tt_prune :: "string \<Rightarrow> string"

definition find_comment :: "string \<Rightarrow> account_name_type \<Rightarrow> string \<Rightarrow> dapp_comment_object table \<Rightarrow> dapp_comment_object option" where
  "find_comment name author permlink t =
     table_find (\<lambda>c. com_dapp_name c = name \<and> com_author c = author \<and> c_str (com_permlink c) = c_str permlink) t"

text \<open>
  The loops over the parents of a comment. Following a parent looks the comment up by its
  dapp, author and permlink; while creating, a missing parent is an error, while
  deleting it ends the loop. \<open>None\<close> is running out of fuel: the evaluators give
  the number of ids in use, and on the tables the plugin builds that is enough.
\<close>

definition touch :: "(32 word \<Rightarrow> 32 word) \<Rightarrow> time_point_sec \<Rightarrow> dapp_comment_object \<Rightarrow> dapp_comment_object" where
  "touch f now p = p\<lparr>com_children := f (com_children p), com_active := now\<rparr>"

fun count_reply :: "nat \<Rightarrow> time_point_sec \<Rightarrow> dapp_comment_object \<Rightarrow> dapp_comment_object table \<Rightarrow> dapp_comment_object table result option" where
  "count_reply 0 now parent t = None"
| "count_reply (Suc fuel) now parent t =
     (let t' = table_modify com_id (com_id parent) (touch (\<lambda>n. n + 1) now) t in
      if com_parent_author parent \<noteq> [] then
        (case find_comment (com_dapp_name parent) (com_parent_author parent) (com_parent_permlink parent) t' of
           None \<Rightarrow> Some (Inl Unknown_key)
         | Some parent \<Rightarrow> count_reply fuel now parent t')
      else Some (Inr t'))"

fun uncount_reply :: "nat \<Rightarrow> time_point_sec \<Rightarrow> dapp_comment_object option \<Rightarrow> dapp_comment_object table \<Rightarrow> dapp_comment_object table option" where
  "uncount_reply fuel now None t = Some t"
| "uncount_reply 0 now (Some parent) t = None"
| "uncount_reply (Suc fuel) now (Some parent) t =
     (let t' = table_modify com_id (com_id parent) (touch (\<lambda>n. n - 1) now) t in
      if com_parent_author parent \<noteq> [] then
        uncount_reply fuel now (find_comment (com_dapp_name parent) (com_parent_author parent) (com_parent_permlink parent) t') t'
      else Some t')"

definition comment_parent :: "comment_dapp_operation \<Rightarrow> chain_db \<Rightarrow> dapp_comment_object option result" where
  "comment_parent op db =
     (if cmt_parent_author op \<noteq> [] then
        bindR (of_option Unknown_key (find_comment (cmt_dapp_name op) (cmt_parent_author op) (cmt_parent_permlink op)
          (pl_comments (db_plugins db)))) (\<lambda>parent.
        fc_assert (com_depth parent < SIGMAENGINE_MAX_COMMENT_DEPTH) Comment_too_deep (Inr (Some parent)))
      else Inr None)"

text \<open>The new comment; a body of 128 MB or more is not stored, and neither is metadata that is not UTF-8.\<close>

definition make_comment ::
  "text_tools \<Rightarrow> comment_dapp_operation \<Rightarrow> dapp_comment_object option \<Rightarrow> time_point_sec \<Rightarrow> nat \<Rightarrow> dapp_comment_object" where
  "make_comment tt op parent now i =
     (let com = (new_comment i)\<lparr>com_author := cmt_author op, com_permlink := cmt_permlink op, com_last_update := now,
            com_created := now, com_active := now, com_dapp_name := cmt_dapp_name op\<rparr>;
          com = (case parent of
              None \<Rightarrow> com\<lparr>com_parent_author := [], com_parent_permlink := cmt_parent_permlink op,
                com_category := cmt_parent_permlink op, com_root_comment := i\<rparr>
            | Some p \<Rightarrow> com\<lparr>com_parent_author := com_author p, com_parent_permlink := com_permlink p,
                com_depth := com_depth p + 1, com_category := com_category p, com_root_comment := com_root_comment p\<rparr>);
          com = com\<lparr>com_title := cmt_title op\<rparr>;
          com = (if length (cmt_body op) < 1024 * 1024 * 128 then com\<lparr>com_body := cmt_body op\<rparr> else com)
      in if is_utf8 (tt_checks tt) (cmt_json_metadata op) then com\<lparr>com_json_metadata := cmt_json_metadata op\<rparr> else com)"

definition note_post :: "bool \<Rightarrow> time_point_sec \<Rightarrow> account_object \<Rightarrow> account_object" where
  "note_post root now a =
     (let a = (if root then a\<lparr>acc_last_root_post := now\<rparr> else a)
      in a\<lparr>acc_last_post := now, acc_post_count := (acc_post_count a + 1) mod 2 ^ 32\<rparr>)"

definition create_comment ::
  "text_tools \<Rightarrow> comment_dapp_operation \<Rightarrow> account_object \<Rightarrow> dapp_comment_object option \<Rightarrow> chain_db \<Rightarrow> chain_db result" where
  "create_comment tt op auth parent db =
     (let now = head_block_time db; comments = pl_comments (db_plugins db) in
      bindR (case parent of
          None \<Rightarrow> fc_assert (int now - int (acc_last_root_post auth) > SIGMAENGINE_MIN_ROOT_COMMENT_INTERVAL) Comment_too_soon (Inr ())
        | Some p \<Rightarrow>
            bindR (table_get (\<lambda>c. com_id c = com_root_comment p) comments) (\<lambda>root.
            fc_assert (com_allow_replies root) Comment_closed (
            fc_assert (int now - int (acc_last_post auth) > SIGMAENGINE_MIN_REPLY_INTERVAL) Comment_too_soon (Inr ())))) (\<lambda>_.
      bindR (table_create comment_clash (make_comment tt op parent now) comments) (\<lambda>created.
      bindR (case parent of
          None \<Rightarrow> Inr created
        | Some p \<Rightarrow> (case count_reply (tb_next comments) now p created of None \<Rightarrow> Inl Does_not_return | Some r \<Rightarrow> r)) (\<lambda>counted.
      Inr (modify_plugins (\<lambda>p. p\<lparr>pl_comments := counted\<rparr>)
        (modify_account (acc_id auth) (note_post (parent = None) now) db))))))"

text \<open>\<^verbatim>\<open>strcmp_equal\<close> holds of any two strings of the same length.\<close>

definition strcmp_equal :: "string \<Rightarrow> string \<Rightarrow> bool" where
  "strcmp_equal a b \<longleftrightarrow> length a = length b \<or> c_str a = c_str b"

definition edited_body :: "text_tools \<Rightarrow> string \<Rightarrow> string \<Rightarrow> string" where
  "edited_body tt new_body body =
     (case tt_patch tt new_body body of
        None \<Rightarrow> new_body
      | Some patched_body \<Rightarrow> (if is_utf8 (tt_checks tt) patched_body then patched_body else tt_prune tt patched_body))"

definition edit_comment_object :: "text_tools \<Rightarrow> comment_dapp_operation \<Rightarrow> time_point_sec \<Rightarrow> dapp_comment_object \<Rightarrow> dapp_comment_object" where
  "edit_comment_object tt op now com =
     (let com = com\<lparr>com_last_update := now, com_active := now\<rparr>;
          com = (if length (cmt_title op) > 0 then com\<lparr>com_title := cmt_title op\<rparr> else com);
          com = (if length (cmt_json_metadata op) > 0 \<and> is_utf8 (tt_checks tt) (cmt_json_metadata op)
                 then com\<lparr>com_json_metadata := cmt_json_metadata op\<rparr> else com)
      in if length (cmt_body op) > 0 then com\<lparr>com_body := edited_body tt (cmt_body op) (com_body com)\<rparr> else com)"

definition edit_comment ::
  "text_tools \<Rightarrow> comment_dapp_operation \<Rightarrow> dapp_comment_object option \<Rightarrow> dapp_comment_object \<Rightarrow> chain_db \<Rightarrow> chain_db result" where
  "edit_comment tt op parent com db =
     fc_assert (com_parent_author com = (case parent of None \<Rightarrow> [] | Some _ \<Rightarrow> cmt_parent_author op)) Comment_parent_changed (
     fc_assert (strcmp_equal (com_parent_permlink com) (cmt_parent_permlink op)) Comment_parent_changed (
     Inr (modify_plugins (\<lambda>p. p\<lparr>pl_comments :=
       table_modify com_id (com_id com) (edit_comment_object tt op (head_block_time db)) (pl_comments p)\<rparr>) db)))"

definition comment_dapp_apply :: "text_tools \<Rightarrow> comment_dapp_operation \<Rightarrow> chain_db \<Rightarrow> chain_db result" where
  "comment_dapp_apply tt op db =
     bindR (require_dapp (cmt_dapp_name op) db) (\<lambda>dapp.
     fc_assert (dap_state dapp = APPROVAL) Wrong_dapp_state (
     fc_assert (find_dapp_user (cmt_dapp_name op) (cmt_author op) db \<noteq> None) Not_a_member (
     let fee = dgp_dapp_transaction_fee (db_dgp db) in
     bindR (fee_payer (dap_owner dapp) fee db) (\<lambda>from_account.
     fc_assert (length (cmt_title op) + length (cmt_body op) + length (cmt_json_metadata op) > 0) Empty_field (
     bindR (get_account (cmt_author op) db) (\<lambda>auth.
     bindR (comment_parent op db) (\<lambda>parent.
     fc_assert (cmt_json_metadata op \<noteq> [] \<longrightarrow> is_utf8 (tt_checks tt) (cmt_json_metadata op)) Not_utf8 (
     bindR (case find_comment (cmt_dapp_name op) (cmt_author op) (cmt_permlink op) (pl_comments (db_plugins db)) of
              None \<Rightarrow> create_comment tt op auth parent db
            | Some com \<Rightarrow> edit_comment tt op parent com db) (\<lambda>db.
     charge_fee (cmt_dapp_name op) from_account fee db)))))))))"

definition count_vote :: "comment_vote_type \<Rightarrow> dapp_comment_object \<Rightarrow> dapp_comment_object" where
  "count_vote ty c =
     (if ty = LIKE then c\<lparr>com_like_count := com_like_count c + 1\<rparr>
      else if ty = DISLIKE then c\<lparr>com_dislike_count := com_dislike_count c + 1\<rparr> else c)"

definition comment_vote_dapp_apply :: "comment_vote_dapp_operation \<Rightarrow> chain_db \<Rightarrow> chain_db result" where
  "comment_vote_dapp_apply o' db =
     bindR (require_dapp (cvt_dapp_name o') db) (\<lambda>dapp.
     fc_assert (find_dapp_user (cvt_dapp_name o') (cvt_voter o') db \<noteq> None) Not_a_member (
     let fee = dgp_dapp_transaction_fee (db_dgp db); p = db_plugins db; now_time = head_block_time db in
     bindR (fee_payer (dap_owner dapp) fee db) (\<lambda>from_account.
     bindR (of_option Unknown_key (find_comment (cvt_dapp_name o') (cvt_author o') (cvt_permlink o') (pl_comments p))) (\<lambda>com.
     bindR (get_account (cvt_voter o') db) (\<lambda>voter.
     fc_assert (com_allow_votes com) Comment_closed (
     let comments = table_modify com_id (com_id com) (count_vote (cvt_vote_type o')) (pl_comments p) in
     bindR (case index_begin cvo_last_update (filter (\<lambda>v. cvo_comment v = com_id com \<and> cvo_voter v = acc_id voter
                \<and> cvo_vote_type v = cvt_vote_type o') (tb_rows (pl_comment_votes p))) of
              None \<Rightarrow> table_create comment_vote_clash (\<lambda>i. \<lparr>cvo_id = i, cvo_dapp_name = cvt_dapp_name o', cvo_voter = acc_id voter,
                cvo_comment = com_id com, cvo_vote_type = cvt_vote_type o', cvo_last_update = now_time\<rparr>) (pl_comment_votes p)
            | Some v \<Rightarrow> table_modify_unique comment_vote_clash cvo_id (cvo_id v) (\<lambda>cv. cv\<lparr>cvo_last_update := now_time\<rparr>)
                (pl_comment_votes p)) (\<lambda>votes.
     charge_fee (cvt_dapp_name o') from_account fee
       (modify_plugins (\<lambda>p. p\<lparr>pl_comments := comments, pl_comment_votes := votes\<rparr>) db))))))))"

text \<open>
  The evaluator dereferences the dapp without testing that it was found; where
  it is missing the model stops with an error. A dapp with comments is never removed, so
  that does not happen.
\<close>

definition delete_comment_dapp_apply :: "delete_comment_dapp_operation \<Rightarrow> chain_db \<Rightarrow> chain_db result" where
  "delete_comment_dapp_apply op db =
     (let p = db_plugins db; fee = dgp_dapp_transaction_fee (db_dgp db); now = head_block_time db in
     bindR (of_option (Assert_exception Unknown_comment)
       (find_comment (dcm_dapp_name op) (dcm_author op) (dcm_permlink op) (pl_comments p))) (\<lambda>com.
     fc_assert (com_children com = 0) Comment_has_replies (
     bindR (require_dapp (dcm_dapp_name op) db) (\<lambda>dapp.
     bindR (fee_payer (dap_owner dapp) fee db) (\<lambda>from_account.
     let votes = (pl_comment_votes p)\<lparr>tb_rows := remove_where (\<lambda>v. cvo_comment v = com_id com) (tb_rows (pl_comment_votes p))\<rparr> in
     bindR (if com_parent_author com \<noteq> [] then
              (case uncount_reply (tb_next (pl_comments p)) now
                  (find_comment (com_dapp_name com) (com_parent_author com) (com_parent_permlink com) (pl_comments p)) (pl_comments p) of
                 None \<Rightarrow> Inl Does_not_return
               | Some t \<Rightarrow> Inr t)
            else Inr (pl_comments p)) (\<lambda>counted.
     charge_fee (dcm_dapp_name op) from_account fee
       (modify_plugins (\<lambda>p. p\<lparr>pl_comments := table_remove com_id (com_id com) counted, pl_comment_votes := votes\<rparr>) db)))))))"

section \<open>Votes of the producers\<close>

definition vote_dapp_apply :: "vote_dapp_operation \<Rightarrow> chain_db \<Rightarrow> chain_db result" where
  "vote_dapp_apply op db =
     fc_assert (is_voting_producer (vdp_voter op) db) Not_a_producer (
     bindR (require_dapp (vdp_dapp_name op) db) (\<lambda>dapp.
     fc_assert (dap_state dapp = PENDING) Wrong_dapp_state (
     let now = head_block_time db; t = pl_dapp_votes (db_plugins db) in
     bindR (case table_find (\<lambda>v. dvt_dapp_name v = vdp_dapp_name op \<and> dvt_voter v = vdp_voter op) t of
              None \<Rightarrow> table_create dapp_vote_clash (\<lambda>i. \<lparr>dvt_id = i, dvt_dapp_name = vdp_dapp_name op, dvt_voter = vdp_voter op,
                dvt_vote = ucast (vdp_vote op), dvt_last_update = now\<rparr>) t
            | Some v \<Rightarrow> Inr (table_modify dvt_id (dvt_id v)
                (\<lambda>v. v\<lparr>dvt_vote := ucast (vdp_vote op), dvt_last_update := now\<rparr>) t)) (\<lambda>votes.
     Inr (modify_plugins (\<lambda>p. p\<lparr>pl_dapp_votes := votes\<rparr>) db)))))"

definition vote_dapp_trx_fee_apply :: "vote_dapp_trx_fee_operation \<Rightarrow> chain_db \<Rightarrow> chain_db result" where
  "vote_dapp_trx_fee_apply op db =
     fc_assert (is_voting_producer (vtf_voter op) db) Not_a_producer (
     let now = head_block_time db; t = pl_fee_votes (db_plugins db) in
     bindR (case table_find (\<lambda>v. dfv_voter v = vtf_voter op) t of
              None \<Rightarrow> table_create fee_vote_clash (\<lambda>i. \<lparr>dfv_id = i, dfv_voter = vtf_voter op, dfv_trx_fee = vtf_trx_fee op,
                dfv_last_update = now\<rparr>) t
            | Some v \<Rightarrow> Inr (table_modify dfv_id (dfv_id v)
                (\<lambda>v. v\<lparr>dfv_trx_fee := vtf_trx_fee op, dfv_last_update := now\<rparr>) t)) (\<lambda>votes.
     Inr (modify_plugins (\<lambda>p. p\<lparr>pl_fee_votes := votes\<rparr>) db)))"

fun dapp_apply :: "text_tools \<Rightarrow> dapp_operation \<Rightarrow> chain_db \<Rightarrow> chain_db result" where
  "dapp_apply tt (Create_dapp op) db = create_dapp_apply op db"
| "dapp_apply tt (Update_dapp_key op) db = update_dapp_key_apply op db"
| "dapp_apply tt (Comment_dapp op) db = comment_dapp_apply tt op db"
| "dapp_apply tt (Comment_vote_dapp op) db = comment_vote_dapp_apply op db"
| "dapp_apply tt (Delete_comment_dapp op) db = delete_comment_dapp_apply op db"
| "dapp_apply tt (Join_dapp op) db = join_dapp_apply op db"
| "dapp_apply tt (Leave_dapp op) db = leave_dapp_apply op db"
| "dapp_apply tt (Vote_dapp op) db = vote_dapp_apply op db"
| "dapp_apply tt (Vote_dapp_trx_fee op) db = vote_dapp_trx_fee_apply op db"

section \<open>Counting the votes\<close>

definition SIGMAENGINE_HARDFORK_REQUIRED_BOBSERVERS_HF2 :: nat where "SIGMAENGINE_HARDFORK_REQUIRED_BOBSERVERS_HF2 = 11"
definition SIGMAENGINE_MAX_FEED_AGE_SECONDS :: nat where "SIGMAENGINE_MAX_FEED_AGE_SECONDS = 60 * 60 * 24 * 7"
definition SIGMAENGINE_MIN_FEEDS :: nat where "SIGMAENGINE_MIN_FEEDS = SIGMAENGINE_NUM_BOBSERVERS div 3"

definition dapp_votes :: "dapp_state_type \<Rightarrow> string \<Rightarrow> plugin_db \<Rightarrow> nat" where
  "dapp_votes v name p = length (filter (\<lambda>x. dvt_dapp_name x = name \<and> dvt_vote x = v) (tb_rows (pl_dapp_votes p)))"

definition aggregated_state :: "dapp_object \<Rightarrow> plugin_db \<Rightarrow> dapp_state_type" where
  "aggregated_state d p =
     (if dap_state d = PENDING then
        (if dapp_votes APPROVAL (dap_name d) p \<ge> SIGMAENGINE_HARDFORK_REQUIRED_BOBSERVERS_HF2 then APPROVAL
         else if dapp_votes REJECTION (dap_name d) p \<ge> SIGMAENGINE_HARDFORK_REQUIRED_BOBSERVERS_HF2 then REJECTION
         else PENDING)
      else dap_state d)"

definition aggregate_dapp :: "time_point_sec \<Rightarrow> plugin_db \<Rightarrow> dapp_object \<Rightarrow> plugin_db" where
  "aggregate_dapp now p d =
     (let st = aggregated_state d p;
          p = (if st \<noteq> dap_state d
               then p\<lparr>pl_dapps := table_modify dap_id (dap_id d) (\<lambda>d. d\<lparr>dap_state := st, dap_last_updated := now\<rparr>) (pl_dapps p)\<rparr>
               else p);
          p = (if st \<noteq> PENDING
               then p\<lparr>pl_dapp_votes := (pl_dapp_votes p)\<lparr>tb_rows := remove_where (\<lambda>v. dvt_dapp_name v = dap_name d) (tb_rows (pl_dapp_votes p))\<rparr>\<rparr>
               else p)
      in if st = REJECTION
         then p\<lparr>pl_users := (pl_users p)\<lparr>tb_rows := remove_where (\<lambda>u. usr_dapp_name u = dap_name d) (tb_rows (pl_users p))\<rparr>,
                pl_dapps := table_remove dap_id (dap_id d) (pl_dapps p)\<rparr>
         else p)"

definition aggregate_dapp_approve_vote :: "chain_db \<Rightarrow> chain_db" where
  "aggregate_dapp_approve_vote db =
     modify_plugins (\<lambda>p. foldl (aggregate_dapp (head_block_time db)) p (tb_rows (pl_dapps p))) db"

text \<open>Sorting the fees compares them, and comparing assets of different symbols throws.\<close>

definition median_fee :: "asset list \<Rightarrow> asset result" where
  "median_fee fees =
     fc_assert (list_all (\<lambda>a. symbol a = symbol (hd fees)) fees) Symbol_mismatch (
     Inr (sort_key amount fees ! (length fees div 2)))"

definition recent_fees :: "chain_db \<Rightarrow> asset list" where
  "recent_fees db =
     map dfv_trx_fee (filter (\<lambda>v. head_block_time db < time_add (dfv_last_update v) SIGMAENGINE_MAX_FEED_AGE_SECONDS)
       (sort_key dfv_voter (tb_rows (pl_fee_votes (db_plugins db)))))"

definition aggregate_trx_fee_vote :: "chain_db \<Rightarrow> chain_db result" where
  "aggregate_trx_fee_vote db =
     (let trx_fee_list = recent_fees db
      in if length trx_fee_list \<ge> SIGMAENGINE_MIN_FEEDS then
           bindR (median_fee trx_fee_list) (\<lambda>median_value.
           Inr (modify_dgp (\<lambda>d. d\<lparr>dgp_dapp_transaction_fee := median_value\<rparr>) db))
         else Inr db)"

text \<open>
  The handler of \<^verbatim>\<open>applied_block\<close>: what is left in the database, and the exception with which it
  ended, if any. There is no session around it, so the dapps counted before an exception stay counted.
\<close>

definition dapp_on_apply_block :: "chain_db \<Rightarrow> chain_db \<times> fc_error option" where
  "dapp_on_apply_block db =
     (let now = head_block_time db in
      if now > dgp_last_dapp_voting_aggregation_time (db_dgp db) + 3600 then
        (let db = aggregate_dapp_approve_vote db in
         case aggregate_trx_fee_vote db of
           Inl e \<Rightarrow> (db, Some e)
         | Inr db \<Rightarrow> (modify_dgp (\<lambda>d. d\<lparr>dgp_last_dapp_voting_aggregation_time := now\<rparr>) db, None))
      else (db, None))"

section \<open>The books\<close>

text \<open>
  The plugin's own tables hold none of the chain's coin, and the fee that leaves the payer enters the
  dapp reward fund: no dapp operation, and no count of votes, moves the books.
\<close>

lemma modify_plugins_moves: "wf_db db \<Longrightarrow> moves db (modify_plugins f db) 0 nothing nothing"
  by (rule moves_frame) (simp_all add: modify_plugins_def)

lemma modify_plugins_account: "get_account n (modify_plugins f db) = get_account n db"
  by (simp add: get_account_def find_account_def modify_plugins_def)

lemma charge_fee_moves:
  assumes "wf_db db" "charge_fee name frm fee db = Inr db'"
  shows "moves db db' 0 nothing nothing"
proof -
  from assms(2) obtain minus d1 d2 where r: "asset_neg fee = Inr minus" "adjust_balance (acc_id frm) minus db = Inr d1"
    "adjust_dapp_reward_fund_balance fee d1 = Inr d2" "push_virtual_operation (Dapp_fee_virtual name fee) d2 = Inr db'"
    by (auto simp: charge_fee_def result_simps)
  have m1: "moves db d1 (- amount fee) nothing nothing"
    using adjust_balance_moves [OF assms(1) r(2)] asset_neg_Inr [OF r(1)] by simp
  have m2: "moves d1 d2 (amount fee) nothing nothing" by (rule adjust_dapp_moves [OF moves_wf [OF m1] r(3)])
  have m3: "moves d2 db' 0 nothing nothing" by (rule push_virtual_operation_moves [OF moves_wf [OF m2] r(4)])
  from moves_trans [OF moves_trans [OF m1 m2] m3] show ?thesis by simp
qed

lemma charge_fee_plugins: "charge_fee n frm fee db = Inr db' \<Longrightarrow> db_plugins db' = db_plugins db"
  by (auto simp: charge_fee_def adjust_balance_def adjust_dapp_reward_fund_balance_def push_virtual_operation_def
      modify_account_def result_simps)

lemma charge_after_plugins_moves:
  assumes "wf_db db" "charge_fee name frm fee (modify_plugins f db) = Inr db'"
  shows "moves db db' 0 nothing nothing"
  using moves_trans [OF modify_plugins_moves [OF assms(1)] charge_fee_moves [OF moves_wf [OF modify_plugins_moves [OF assms(1)]] assms(2)]]
  by simp

lemma create_comment_moves:
  assumes "wf_db db" "create_comment tt op auth parent db = Inr db'"
  shows "moves db db' 0 nothing nothing"
proof -
  from assms(2) obtain g where db': "db' = modify_plugins g (modify_account (acc_id auth) (note_post (parent = None) (head_block_time db)) db)"
    by (auto simp: create_comment_def Let_def result_simps)
  have "moves db (modify_account (acc_id auth) (note_post (parent = None) (head_block_time db)) db) 0 nothing nothing"
    by (rule account_meta_moves [OF assms(1)]) (simp_all add: note_post_def Let_def)
  from moves_trans [OF this modify_plugins_moves [OF moves_wf [OF this]]] show ?thesis by (simp add: db')
qed

lemma edit_comment_moves: "wf_db db \<Longrightarrow> edit_comment tt op parent com db = Inr db' \<Longrightarrow> moves db db' 0 nothing nothing"
  by (auto simp: edit_comment_def result_simps intro: modify_plugins_moves)

lemma comment_dapp_run:
  assumes "comment_dapp_apply tt op db = Inr db'"
  shows "\<exists>frm auth parent d1. comment_parent op db = Inr parent
    \<and> (case find_comment (cmt_dapp_name op) (cmt_author op) (cmt_permlink op) (pl_comments (db_plugins db)) of
            None \<Rightarrow> create_comment tt op auth parent db | Some com \<Rightarrow> edit_comment tt op parent com db) = Inr d1
    \<and> charge_fee (cmt_dapp_name op) frm (dgp_dapp_transaction_fee (db_dgp db)) d1 = Inr db'"
  using assms by (simp only: comment_dapp_apply_def Let_def result_simps) (elim exE conjE, intro exI conjI, assumption+)

lemma comment_dapp_moves:
  assumes "wf_db db" "comment_dapp_apply tt op db = Inr db'"
  shows "moves db db' 0 nothing nothing"
proof -
  from comment_dapp_run [OF assms(2)] obtain frm auth parent d1 where
    d1: "(case find_comment (cmt_dapp_name op) (cmt_author op) (cmt_permlink op) (pl_comments (db_plugins db)) of
            None \<Rightarrow> create_comment tt op auth parent db | Some com \<Rightarrow> edit_comment tt op parent com db) = Inr d1"
    and r: "charge_fee (cmt_dapp_name op) frm (dgp_dapp_transaction_fee (db_dgp db)) d1 = Inr db'"
    by blast
  have m: "moves db d1 0 nothing nothing"
    using d1 assms(1) by (auto split: option.splits intro: create_comment_moves edit_comment_moves)
  from moves_trans [OF m charge_fee_moves [OF moves_wf [OF m] r]] show ?thesis by simp
qed

lemma dapp_apply_moves:
  assumes "wf_db db" "dapp_apply tt op db = Inr db'"
  shows "moves db db' 0 nothing nothing"
proof (cases op)
  case (Comment_dapp o')
  with assms comment_dapp_moves show ?thesis by simp
qed (use assms in \<open>auto simp: create_dapp_apply_def update_dapp_key_apply_def join_dapp_apply_def leave_dapp_apply_def
    comment_vote_dapp_apply_def delete_comment_dapp_apply_def vote_dapp_apply_def vote_dapp_trx_fee_apply_def
    Let_def result_simps intro: modify_plugins_moves charge_after_plugins_moves\<close>)

lemma modify_dgp_moves:
  assumes "wf_db db" "\<And>d. dgp_current_supply (f d) = dgp_current_supply d"
  shows "moves db (modify_dgp f db) 0 nothing nothing"
  using assms by (simp add: moves_def books_defs wf_db_def modify_dgp_def)

lemma aggregate_trx_fee_moves: "wf_db db \<Longrightarrow> aggregate_trx_fee_vote db = Inr db' \<Longrightarrow> moves db db' 0 nothing nothing"
  by (auto simp: aggregate_trx_fee_vote_def Let_def result_simps intro: modify_dgp_moves moves_refl split: if_splits)

lemma dapp_on_apply_block_moves:
  assumes "wf_db db"
  shows "moves db (fst (dapp_on_apply_block db)) 0 nothing nothing"
proof -
  let ?d = "aggregate_dapp_approve_vote db"
  have m: "moves db ?d 0 nothing nothing"
    unfolding aggregate_dapp_approve_vote_def by (rule modify_plugins_moves [OF assms])
  show ?thesis
  proof (cases "aggregate_trx_fee_vote ?d")
    case (Inl e)
    with m moves_refl [OF assms] show ?thesis by (simp add: dapp_on_apply_block_def Let_def)
  next
    case (Inr e)
    have me: "moves ?d e 0 nothing nothing" by (rule aggregate_trx_fee_moves [OF moves_wf [OF m] Inr])
    have "moves e (modify_dgp (\<lambda>d. d\<lparr>dgp_last_dapp_voting_aggregation_time := head_block_time db\<rparr>) e) 0 nothing nothing"
      by (rule modify_dgp_moves [OF moves_wf [OF me]]) simp
    from moves_trans [OF moves_trans [OF m me] this] moves_refl [OF assms] Inr show ?thesis
      by (simp add: dapp_on_apply_block_def Let_def)
  qed
qed

section \<open>The median\<close>

lemma sorted_count_le:
  assumes "sorted xs" "i < length xs" "xs ! i > (h :: int)"
  shows "length (filter (\<lambda>x. x \<le> h) xs) \<le> i"
proof -
  have "filter (\<lambda>x. x \<le> h) (drop i xs) = []"
    using assms by (auto simp: filter_empty_conv in_set_conv_nth sorted_iff_nth_mono) (smt (verit) le_add1 less_diff_conv add.commute)
  then have "filter (\<lambda>x. x \<le> h) xs = filter (\<lambda>x. x \<le> h) (take i xs)"
    by (metis append_take_drop_id filter_append append_Nil2)
  also have "length \<dots> \<le> i" by (rule order_trans [OF length_filter_le]) simp
  finally show ?thesis .
qed

lemma sorted_count_ge:
  assumes "sorted xs" "i < length xs" "xs ! i < (l :: int)"
  shows "length (filter (\<lambda>x. l \<le> x) xs) < length xs - i"
proof -
  have "filter (\<lambda>x. l \<le> x) (take (Suc i) xs) = []"
    using assms by (auto simp: filter_empty_conv in_set_conv_nth sorted_iff_nth_mono) (smt (verit) less_Suc_eq_le)
  then have "filter (\<lambda>x. l \<le> x) xs = filter (\<lambda>x. l \<le> x) (drop (Suc i) xs)"
    by (metis append_take_drop_id filter_append append_Nil)
  also have "length \<dots> \<le> length xs - Suc i" by (rule order_trans [OF length_filter_le]) simp
  finally show ?thesis using assms(2) by linarith
qed

lemma median_in_majority_range:
  fixes l h :: int
  assumes "sorted xs" "length xs < 2 * length (filter (\<lambda>x. l \<le> x \<and> x \<le> h) xs)"
  shows "l \<le> xs ! (length xs div 2) \<and> xs ! (length xs div 2) \<le> h"
proof -
  let ?i = "length xs div 2" and ?k = "length (filter (\<lambda>x. l \<le> x \<and> x \<le> h) xs)"
  have "?k \<le> length xs" by (rule length_filter_le)
  then have i: "?i < length xs" using assms(2) by linarith
  have "?k \<le> length (filter (\<lambda>x. x \<le> h) xs)" "?k \<le> length (filter (\<lambda>x. l \<le> x) xs)"
    by (induction xs) auto
  then show ?thesis
    using sorted_count_le [OF assms(1) i, of h] sorted_count_ge [OF assms(1) i, of l] assms(2)
    by (cases "xs ! ?i > h"; cases "xs ! ?i < l") auto
qed

lemma median_fee_spec:
  assumes "fees \<noteq> []" "\<And>a. a \<in> set fees \<Longrightarrow> symbol a = sy"
  obtains m where "median_fee fees = Inr m" "m \<in> set fees"
    "\<And>l h. length fees < 2 * length (filter (\<lambda>a. l \<le> amount a \<and> amount a \<le> h) fees) \<Longrightarrow> l \<le> amount m \<and> amount m \<le> h"
proof -
  let ?s = "sort_key amount fees" and ?i = "length fees div 2"
  have i: "?i < length fees" using assms(1) by (cases fees) auto
  have hd: "symbol (hd fees) = sy" using assms by simp
  have "median_fee fees = Inr (?s ! ?i)"
    using assms(2) hd by (simp add: median_fee_def list_all_iff)
  moreover have "?s ! ?i \<in> set fees" using i nth_mem [of ?i ?s] by simp
  moreover have "l \<le> amount (?s ! ?i) \<and> amount (?s ! ?i) \<le> h"
    if "length fees < 2 * length (filter (\<lambda>a. l \<le> amount a \<and> amount a \<le> h) fees)" for l h
  proof -
    let ?P = "\<lambda>x. l \<le> x \<and> x \<le> h"
    have "length (filter (\<lambda>a. ?P (amount a)) fees) = length (filter (\<lambda>a. ?P (amount a)) ?s)"
      by (simp flip: size_mset)
    then have "length (filter (\<lambda>a. ?P (amount a)) fees) = length (filter ?P (map amount ?s))"
      by (simp add: filter_map o_def)
    then show ?thesis using median_in_majority_range [of "map amount ?s" l h] that i by simp
  qed
  ultimately show ?thesis by (rule that)
qed

lemma aggregate_keeps_fee_votes: "pl_fee_votes (foldl (aggregate_dapp now) p ds) = pl_fee_votes p"
proof (induction ds arbitrary: p)
  case (Cons d ds)
  have "pl_fee_votes (aggregate_dapp now p d) = pl_fee_votes p" by (simp add: aggregate_dapp_def Let_def)
  with Cons show ?case by simp
qed simp

lemma recent_fees_aggregate: "recent_fees (aggregate_dapp_approve_vote db) = recent_fees db"
  by (simp add: recent_fees_def aggregate_dapp_approve_vote_def modify_plugins_def aggregate_keeps_fee_votes head_block_time_def)

lemma aggregate_dapp_approve_vote_dgp: "db_dgp (aggregate_dapp_approve_vote db) = db_dgp db"
  by (simp add: aggregate_dapp_approve_vote_def modify_plugins_def)

text \<open>
  C35: when an hour has passed since the last count, the fee votes younger than a week set the fee once
  there are seven of them: the new fee is one of the voted fees, and it lies in every range that holds more
  than half of them, so a minority of the producers cannot push it out of the range of the others.
  With fewer votes the fee stays. In both cases the count ends without an exception and is recorded.
\<close>

theorem fee_follows_the_majority:
  assumes "dgp_last_dapp_voting_aggregation_time (db_dgp db) + 3600 < head_block_time db"
    and "\<forall>a \<in> set (recent_fees db). symbol a = SGT_SYMBOL"
    and "dapp_on_apply_block db = (db', e)"
  shows "e = None \<and> dgp_last_dapp_voting_aggregation_time (db_dgp db') = head_block_time db
    \<and> (if length (recent_fees db) < SIGMAENGINE_MIN_FEEDS
        then dgp_dapp_transaction_fee (db_dgp db') = dgp_dapp_transaction_fee (db_dgp db)
        else dgp_dapp_transaction_fee (db_dgp db') \<in> set (recent_fees db)
          \<and> (\<forall>l h. length (recent_fees db) < 2 * length (filter (\<lambda>a. l \<le> amount a \<and> amount a \<le> h) (recent_fees db))
               \<longrightarrow> l \<le> amount (dgp_dapp_transaction_fee (db_dgp db')) \<and> amount (dgp_dapp_transaction_fee (db_dgp db')) \<le> h))"
proof (cases "length (recent_fees db) < SIGMAENGINE_MIN_FEEDS")
  case True
  let ?d = "aggregate_dapp_approve_vote db"
  have "aggregate_trx_fee_vote ?d = Inr ?d" using True by (simp add: aggregate_trx_fee_vote_def recent_fees_aggregate)
  with assms(1,3) have "e = None" "db' = modify_dgp (\<lambda>d. d\<lparr>dgp_last_dapp_voting_aggregation_time := head_block_time db\<rparr>) ?d"
    by (auto simp: dapp_on_apply_block_def Let_def)
  with True show ?thesis by (simp add: modify_dgp_def aggregate_dapp_approve_vote_dgp)
next
  case False
  then have "recent_fees db \<noteq> []" by (auto simp: SIGMAENGINE_MIN_FEEDS_def SIGMAENGINE_NUM_BOBSERVERS_def)
  then obtain m where m: "median_fee (recent_fees db) = Inr m" "m \<in> set (recent_fees db)"
    "\<And>l h. length (recent_fees db) < 2 * length (filter (\<lambda>a. l \<le> amount a \<and> amount a \<le> h) (recent_fees db))
       \<Longrightarrow> l \<le> amount m \<and> amount m \<le> h"
    by (rule median_fee_spec [of _ SGT_SYMBOL]) (use assms(2) in auto)
  let ?d = "aggregate_dapp_approve_vote db"
  have "aggregate_trx_fee_vote ?d = Inr (modify_dgp (\<lambda>d. d\<lparr>dgp_dapp_transaction_fee := m\<rparr>) ?d)"
    using False m(1) by (simp add: aggregate_trx_fee_vote_def recent_fees_aggregate)
  with assms(1,3) have "e = None" and db': "db' = modify_dgp (\<lambda>d. d\<lparr>dgp_last_dapp_voting_aggregation_time := head_block_time db\<rparr>)
      (modify_dgp (\<lambda>d. d\<lparr>dgp_dapp_transaction_fee := m\<rparr>) ?d)"
    by (auto simp: dapp_on_apply_block_def Let_def)
  have "dgp_dapp_transaction_fee (db_dgp db') = m" "dgp_last_dapp_voting_aggregation_time (db_dgp db') = head_block_time db"
    by (simp_all add: db' modify_dgp_def)
  with \<open>e = None\<close> False m(2,3) show ?thesis by simp
qed

section \<open>What the count of dapp votes does\<close>

text \<open>
  The loop works on one dapp at a time, removing rows as it goes; its effect is a decision per dapp on the
  votes as they stood, and the removal of the votes and members the decisions make void.
\<close>

definition decided :: "time_point_sec \<Rightarrow> plugin_db \<Rightarrow> dapp_object \<Rightarrow> dapp_object" where
  "decided now p d = (if aggregated_state d p = dap_state d then d
     else d\<lparr>dap_state := aggregated_state d p, dap_last_updated := now\<rparr>)"

lemma dapp_states_distinct [simp]:
  "PENDING \<noteq> APPROVAL" "APPROVAL \<noteq> PENDING" "PENDING \<noteq> REJECTION" "REJECTION \<noteq> PENDING" "APPROVAL \<noteq> REJECTION" "REJECTION \<noteq> APPROVAL"
  by (simp_all add: PENDING_def APPROVAL_def REJECTION_def)

lemma aggregated_state_votes:
  "(\<And>v. dapp_votes v (dap_name d) p' = dapp_votes v (dap_name d) p) \<Longrightarrow> aggregated_state d p' = aggregated_state d p"
  by (simp add: aggregated_state_def)


lemma aggregate_dapp_rows:
  assumes "tb_rows (pl_dapps p) = A @ d # ds" "distinct (map dap_id (A @ d # ds))"
  shows "tb_rows (pl_dapps (aggregate_dapp now p d))
    = A @ (if aggregated_state d p = REJECTION then [] else [decided now p d]) @ ds"
proof -
  have A: "filter (\<lambda>r. dap_id r \<noteq> dap_id d) A = A" "filter (\<lambda>r. dap_id r \<noteq> dap_id d) ds = ds"
    using assms(2) by (auto simp: filter_id_conv image_iff)
  have "modify_where (\<lambda>r. dap_id r = dap_id d) f A = A" "modify_where (\<lambda>r. dap_id r = dap_id d) f ds = ds" for f
    using assms(2) unfolding modify_where_def by (auto intro!: map_idI simp: image_iff)
  then have "modify_where (\<lambda>r. dap_id r = dap_id d) f (A @ d # ds) = A @ f d # ds" for f
    by (simp add: modify_where_def)
  with A show ?thesis
    by (cases "aggregated_state d p = REJECTION"; cases "aggregated_state d p = dap_state d")
      (simp_all add: aggregate_dapp_def Let_def assms(1) table_modify_def table_remove_def remove_where_def decided_def)
qed

lemma aggregate_dapp_votes_users:
  "tb_rows (pl_dapp_votes (aggregate_dapp now p d))
     = filter (\<lambda>v. \<not> (dvt_dapp_name v = dap_name d \<and> aggregated_state d p \<noteq> PENDING)) (tb_rows (pl_dapp_votes p))"
  "tb_rows (pl_users (aggregate_dapp now p d))
     = filter (\<lambda>u. \<not> (usr_dapp_name u = dap_name d \<and> aggregated_state d p = REJECTION)) (tb_rows (pl_users p))"
  by (cases "aggregated_state d p = PENDING"; cases "aggregated_state d p = REJECTION";
      cases "aggregated_state d p = dap_state d"; simp add: aggregate_dapp_def Let_def remove_where_def)+

lemma dapp_votes_aggregate_other:
  assumes "n \<noteq> dap_name d"
  shows "dapp_votes v n (aggregate_dapp now p d) = dapp_votes v n p"
  unfolding dapp_votes_def aggregate_dapp_votes_users filter_filter
  by (rule arg_cong [where f = length]) (use assms in \<open>auto intro!: filter_cong\<close>)

lemma aggregate_dapps:
  assumes "tb_rows (pl_dapps p) = A @ ds" "distinct (map dap_id (A @ ds))" "distinct (map dap_name ds)"
  shows "tb_rows (pl_dapps (foldl (aggregate_dapp now) p ds))
      = A @ map (decided now p) (filter (\<lambda>d. aggregated_state d p \<noteq> REJECTION) ds)
    \<and> tb_rows (pl_dapp_votes (foldl (aggregate_dapp now) p ds))
      = filter (\<lambda>v. \<not> (\<exists>d \<in> set ds. dvt_dapp_name v = dap_name d \<and> aggregated_state d p \<noteq> PENDING)) (tb_rows (pl_dapp_votes p))
    \<and> tb_rows (pl_users (foldl (aggregate_dapp now) p ds))
      = filter (\<lambda>u. \<not> (\<exists>d \<in> set ds. usr_dapp_name u = dap_name d \<and> aggregated_state d p = REJECTION)) (tb_rows (pl_users p))"
  using assms
proof (induction ds arbitrary: p A)
  case (Cons d ds)
  let ?p = "aggregate_dapp now p d"
  let ?A = "A @ (if aggregated_state d p = REJECTION then [] else [decided now p d])"
  have same: "aggregated_state e ?p = aggregated_state e p" if "e \<in> set ds" for e
    using Cons.prems(3) that by (intro aggregated_state_votes dapp_votes_aggregate_other) (auto simp: image_iff)
  have same': "decided now ?p e = decided now p e" if "e \<in> set ds" for e using same [OF that] by (simp add: decided_def)
  have rows: "tb_rows (pl_dapps ?p) = ?A @ ds" using aggregate_dapp_rows [OF Cons.prems(1,2)] by simp
  have "dap_id (decided now p d) = dap_id d" by (simp add: decided_def)
  then have "distinct (map dap_id (?A @ ds))" using Cons.prems(2) by auto
  moreover have "distinct (map dap_name ds)" using Cons.prems(3) by simp
  ultimately have IH:
    "tb_rows (pl_dapps (foldl (aggregate_dapp now) ?p ds))
       = ?A @ map (decided now ?p) (filter (\<lambda>d. aggregated_state d ?p \<noteq> REJECTION) ds)"
    "tb_rows (pl_dapp_votes (foldl (aggregate_dapp now) ?p ds))
       = filter (\<lambda>v. \<not> (\<exists>d \<in> set ds. dvt_dapp_name v = dap_name d \<and> aggregated_state d ?p \<noteq> PENDING)) (tb_rows (pl_dapp_votes ?p))"
    "tb_rows (pl_users (foldl (aggregate_dapp now) ?p ds))
       = filter (\<lambda>u. \<not> (\<exists>d \<in> set ds. usr_dapp_name u = dap_name d \<and> aggregated_state d ?p = REJECTION)) (tb_rows (pl_users ?p))"
    using Cons.IH [OF rows] by auto
  have f: "filter (\<lambda>d. aggregated_state d ?p \<noteq> REJECTION) ds = filter (\<lambda>d. aggregated_state d p \<noteq> REJECTION) ds"
    using same by (intro filter_cong) auto
  have m: "map (decided now ?p) (filter (\<lambda>d. aggregated_state d p \<noteq> REJECTION) ds)
     = map (decided now p) (filter (\<lambda>d. aggregated_state d p \<noteq> REJECTION) ds)"
    using same' by auto
  have "tb_rows (pl_dapps (foldl (aggregate_dapp now) p (d # ds)))
      = A @ map (decided now p) (filter (\<lambda>d. aggregated_state d p \<noteq> REJECTION) (d # ds))"
    using IH(1) f m by simp
  moreover have "tb_rows (pl_dapp_votes (foldl (aggregate_dapp now) p (d # ds)))
      = filter (\<lambda>v. \<not> (\<exists>d \<in> set (d # ds). dvt_dapp_name v = dap_name d \<and> aggregated_state d p \<noteq> PENDING)) (tb_rows (pl_dapp_votes p))"
    using IH(2) same by (auto simp: aggregate_dapp_votes_users intro!: filter_cong)
  moreover have "tb_rows (pl_users (foldl (aggregate_dapp now) p (d # ds)))
      = filter (\<lambda>u. \<not> (\<exists>d \<in> set (d # ds). usr_dapp_name u = dap_name d \<and> aggregated_state d p = REJECTION)) (tb_rows (pl_users p))"
    using IH(3) same by (auto simp: aggregate_dapp_votes_users intro!: filter_cong)
  ultimately show ?case by blast
qed simp

text \<open>
  C18: counting the dapp votes decides every dapp on the votes as they stood when the count began. A pending dapp wins
  with at least eleven votes for it; it loses with fewer than eleven for it and at least eleven against it. Winners
  become approved at the time of the head block, losers and the dapps already rejected are removed together with their
  members, every other dapp stays as it was; the votes on dapps that won, lost or were no longer pending are removed, and no others.
\<close>

theorem votes_decide_dapps:
  assumes "wf_table dap_id (pl_dapps (db_plugins db))" "distinct (map dap_name (tb_rows (pl_dapps (db_plugins db))))"
    and "p = db_plugins db" "p' = db_plugins (aggregate_dapp_approve_vote db)"
    and "votes = (\<lambda>v d. length (filter (\<lambda>x. dvt_dapp_name x = dap_name d \<and> dvt_vote x = v) (tb_rows (pl_dapp_votes p))))"
    and "wins = (\<lambda>d. dap_state d = PENDING \<and> 11 \<le> votes APPROVAL d)"
    and "loses = (\<lambda>d. dap_state d = PENDING \<and> votes APPROVAL d < 11 \<and> 11 \<le> votes REJECTION d)"
  shows "tb_rows (pl_dapps p') =
        map (\<lambda>d. if wins d then d\<lparr>dap_state := APPROVAL, dap_last_updated := head_block_time db\<rparr> else d)
          (filter (\<lambda>d. \<not> loses d \<and> dap_state d \<noteq> REJECTION) (tb_rows (pl_dapps p)))
    \<and> tb_rows (pl_dapp_votes p') = filter (\<lambda>v. \<not> list_ex (\<lambda>d. dvt_dapp_name v = dap_name d \<and> (wins d \<or> loses d \<or> dap_state d \<noteq> PENDING))
        (tb_rows (pl_dapps p))) (tb_rows (pl_dapp_votes p))
    \<and> tb_rows (pl_users p') = filter (\<lambda>u. \<not> list_ex (\<lambda>d. usr_dapp_name u = dap_name d \<and> (loses d \<or> dap_state d = REJECTION))
        (tb_rows (pl_dapps p))) (tb_rows (pl_users p))"
proof -
  note count = assms(3,5,6,7) aggregated_state_def dapp_votes_def SIGMAENGINE_HARDFORK_REQUIRED_BOBSERVERS_HF2_def
  have out: "aggregated_state d p = REJECTION \<longleftrightarrow> loses d \<or> dap_state d = REJECTION" for d
    by (auto simp: count)
  have settled: "aggregated_state d p \<noteq> PENDING \<longleftrightarrow> wins d \<or> loses d \<or> dap_state d \<noteq> PENDING" for d
    by (auto simp: count)
  have kept: "decided (head_block_time db) p d
      = (if wins d then d\<lparr>dap_state := APPROVAL, dap_last_updated := head_block_time db\<rparr> else d)"
    if "\<not> loses d \<and> dap_state d \<noteq> REJECTION" for d
    using that by (auto simp: decided_def count)
  have p': "p' = foldl (aggregate_dapp (head_block_time db)) p (tb_rows (pl_dapps p))"
    using assms(3,4) by (simp add: aggregate_dapp_approve_vote_def modify_plugins_def)
  have rows: "distinct (map dap_id ([] @ tb_rows (pl_dapps p)))" "distinct (map dap_name (tb_rows (pl_dapps p)))"
    using assms(1-3) by (simp_all add: wf_table_def)
  have "map (decided (head_block_time db) p) (filter (\<lambda>d. aggregated_state d p \<noteq> REJECTION) (tb_rows (pl_dapps p)))
      = map (\<lambda>d. if wins d then d\<lparr>dap_state := APPROVAL, dap_last_updated := head_block_time db\<rparr> else d)
          (filter (\<lambda>d. \<not> loses d \<and> dap_state d \<noteq> REJECTION) (tb_rows (pl_dapps p)))"
    by (rule map_cong) (auto simp: out kept)
  then show ?thesis
    using aggregate_dapps [OF _ rows, of p "head_block_time db"] unfolding p' list_ex_iff settled out by simp
qed

section \<open>An example\<close>

definition example_dapp :: "nat \<Rightarrow> string \<Rightarrow> dapp_state_type \<Rightarrow> dapp_object" where
  "example_dapp i n st = \<lparr>dap_id = i, dap_name = n, dap_owner = ''alice'', dap_key = 1, dap_state = st, dap_created = 0, dap_last_updated = 0\<rparr>"

definition example_user :: "nat \<Rightarrow> nat \<Rightarrow> string \<Rightarrow> dapp_user_object" where
  "example_user i d n = \<lparr>usr_id = i, usr_dapp_id = d, usr_dapp_name = n, usr_account_id = 1, usr_account_name = ''alice'', usr_join_date_time = 5\<rparr>"

text \<open>Eleven producers approve \<open>chess\<close> and reject \<open>poker\<close>, ten approve \<open>wiki\<close>; seven fee votes, three of them far out.\<close>

definition voting_plugins :: plugin_db where
  "voting_plugins = empty_plugin_db\<lparr>
     pl_dapps := \<lparr>tb_next = 4, tb_rows = [example_dapp 0 ''chess'' PENDING, example_dapp 2 ''poker'' PENDING, example_dapp 3 ''wiki'' PENDING]\<rparr>,
     pl_users := \<lparr>tb_next = 4, tb_rows = [example_user 0 0 ''chess'', example_user 2 2 ''poker'', example_user 3 3 ''wiki'']\<rparr>,
     pl_dapp_votes := \<lparr>tb_next = 32, tb_rows =
        map (\<lambda>i. \<lparr>dvt_id = i, dvt_dapp_name = ''chess'', dvt_voter = [char_of i], dvt_vote = APPROVAL, dvt_last_update = 0\<rparr>) [0..<11]
        @ map (\<lambda>i. \<lparr>dvt_id = 11 + i, dvt_dapp_name = ''poker'', dvt_voter = [char_of i], dvt_vote = REJECTION, dvt_last_update = 0\<rparr>) [0..<11]
        @ map (\<lambda>i. \<lparr>dvt_id = 22 + i, dvt_dapp_name = ''wiki'', dvt_voter = [char_of i], dvt_vote = APPROVAL, dvt_last_update = 0\<rparr>) [0..<10]\<rparr>,
     pl_fee_votes := \<lparr>tb_next = 7, tb_rows =
        map (\<lambda>i. \<lparr>dfv_id = i, dfv_voter = [], dfv_trx_fee = SGT (if i < 4 then 5 else 1000), dfv_last_update = 1600000000\<rparr>) [0..<7]\<rparr>\<rparr>"

definition voting_db :: chain_db where
  "voting_db = example_db\<lparr>db_plugins := voting_plugins\<rparr>"

lemmas voting_eval = voting_db_def voting_plugins_def empty_plugin_db_def example_dapp_def example_user_def upt_rec

theorem votes_decide_dapps_witness:
  "map (\<lambda>d. (dap_name d, dap_state d)) (tb_rows (pl_dapps (db_plugins (aggregate_dapp_approve_vote voting_db))))
     = [(''chess'', APPROVAL), (''wiki'', PENDING)]
   \<and> map usr_dapp_name (tb_rows (pl_users (db_plugins (aggregate_dapp_approve_vote voting_db)))) = [''chess'', ''wiki'']
   \<and> map dvt_dapp_name (tb_rows (pl_dapp_votes (db_plugins (aggregate_dapp_approve_vote voting_db)))) = map (\<lambda>i. ''wiki'') [0..<10]"
proof -
  have w: "wf_table dap_id (pl_dapps (db_plugins voting_db))" "distinct (map dap_name (tb_rows (pl_dapps (db_plugins voting_db))))"
    by (simp_all add: voting_eval wf_table_def)
  note r = votes_decide_dapps [OF w refl refl refl refl refl]
  let ?votes = "tb_rows (pl_dapp_votes (db_plugins voting_db))"
  have votes: "length (filter (\<lambda>x. dvt_dapp_name x = ''chess'' \<and> dvt_vote x = APPROVAL) ?votes) = 11"
    "length (filter (\<lambda>x. dvt_dapp_name x = ''poker'' \<and> dvt_vote x = APPROVAL) ?votes) = 0"
    "length (filter (\<lambda>x. dvt_dapp_name x = ''poker'' \<and> dvt_vote x = REJECTION) ?votes) = 11"
    "length (filter (\<lambda>x. dvt_dapp_name x = ''wiki'' \<and> dvt_vote x = APPROVAL) ?votes) = 10"
    "length (filter (\<lambda>x. dvt_dapp_name x = ''wiki'' \<and> dvt_vote x = REJECTION) ?votes) = 0"
    by (simp_all add: voting_eval)
  have rows: "tb_rows (pl_dapps (db_plugins voting_db)) = [example_dapp 0 ''chess'' PENDING, example_dapp 2 ''poker'' PENDING, example_dapp 3 ''wiki'' PENDING]"
    "tb_rows (pl_users (db_plugins voting_db)) = [example_user 0 0 ''chess'', example_user 2 2 ''poker'', example_user 3 3 ''wiki'']"
    by (simp_all add: voting_db_def voting_plugins_def)
  have names: "dap_name (example_dapp i n s) = n" "dap_state (example_dapp i n s) = s" "usr_dapp_name (example_user i j n) = n" for i j n s
    by (simp_all add: example_dapp_def example_user_def)
  have "map dvt_dapp_name (filter (\<lambda>v. dvt_dapp_name v \<noteq> ''chess'' \<and> dvt_dapp_name v \<noteq> ''poker'') ?votes) = map (\<lambda>i. ''wiki'') [0..<10]"
    by (simp add: voting_eval)
  with r show ?thesis by (simp add: rows votes names)
qed

theorem fee_follows_the_majority_witness:
  "4 \<le> amount (dgp_dapp_transaction_fee (db_dgp (fst (dapp_on_apply_block voting_db))))
   \<and> amount (dgp_dapp_transaction_fee (db_dgp (fst (dapp_on_apply_block voting_db)))) \<le> 6"
proof -
  have f: "recent_fees voting_db = map (\<lambda>i. SGT (if i < 4 then 5 else 1000)) [0..<7]"
    by (simp add: recent_fees_def voting_eval head_block_time_def example_db_def example_dgp_def time_add_def SIGMAENGINE_MAX_FEED_AGE_SECONDS_def)
  obtain db' e where r: "dapp_on_apply_block voting_db = (db', e)" by (cases "dapp_on_apply_block voting_db")
  have "dgp_last_dapp_voting_aggregation_time (db_dgp voting_db) + 3600 < head_block_time voting_db"
    by (simp add: voting_db_def head_block_time_def example_db_def example_dgp_def)
  moreover have "\<forall>a \<in> set (recent_fees voting_db). symbol a = SGT_SYMBOL" by (simp add: f SGT_def)
  moreover have n: "\<not> length (recent_fees voting_db) < SIGMAENGINE_MIN_FEEDS"
    by (simp add: f SIGMAENGINE_MIN_FEEDS_def SIGMAENGINE_NUM_BOBSERVERS_def)
  moreover have "length (recent_fees voting_db) < 2 * length (filter (\<lambda>a. 4 \<le> amount a \<and> amount a \<le> 6) (recent_fees voting_db))"
    by (simp add: f SGT_def upt_rec)
  ultimately show ?thesis using fee_follows_the_majority [OF _ _ r] by (simp add: r)
qed

end
