(* ===== verification/Dapp_Comments.thy ===== *)
theory Dapp_Comments
  imports Dapp
begin

text \<open>
  The comments of the dapp plugin form a forest: every reply names its parent, depths and roots agree with
  the parents, and the number of children a comment records is the number of its descendants. The theorems: every
  dapp operation keeps this, and the loops over the parents of a comment end.
\<close>

section \<open>Parents and ancestors\<close>

definition parent_of :: "dapp_comment_object table \<Rightarrow> dapp_comment_object \<Rightarrow> dapp_comment_object option" where
  "parent_of t c = (if com_parent_author c = [] then None
     else find_comment (com_dapp_name c) (com_parent_author c) (com_parent_permlink c) t)"

fun ancestor_ids :: "nat \<Rightarrow> dapp_comment_object table \<Rightarrow> dapp_comment_object \<Rightarrow> nat list" where
  "ancestor_ids 0 t c = []"
| "ancestor_ids (Suc n) t c = (case parent_of t c of None \<Rightarrow> [] | Some p \<Rightarrow> com_id p # ancestor_ids n t p)"

text \<open>A parent is older than its replies, so the id of a comment bounds the number of its ancestors.\<close>

definition lineage :: "dapp_comment_object table \<Rightarrow> dapp_comment_object \<Rightarrow> nat list" where
  "lineage t c = ancestor_ids (com_id c) t c"

definition parents_older :: "dapp_comment_object table \<Rightarrow> bool" where
  "parents_older t \<longleftrightarrow> wf_table com_id t
     \<and> list_all (\<lambda>c. com_parent_author c = [] \<or> (case parent_of t c of None \<Rightarrow> False | Some p \<Rightarrow> com_id p < com_id c)) (tb_rows t)"

definition descendants :: "dapp_comment_object table \<Rightarrow> nat \<Rightarrow> nat" where
  "descendants t i = length (filter (\<lambda>c. i \<in> set (lineage t c)) (tb_rows t))"

definition no_two_clash :: "dapp_comment_object table \<Rightarrow> bool" where
  "no_two_clash t \<longleftrightarrow> list_all (\<lambda>a. list_all (\<lambda>b. comment_clash a b \<longrightarrow> com_id a = com_id b) (tb_rows t)) (tb_rows t)"

definition wf_tree :: "dapp_comment_object table \<Rightarrow> bool" where
  "wf_tree t \<longleftrightarrow> parents_older t \<and> no_two_clash t
     \<and> list_all (\<lambda>c. unat (com_depth c) = length (lineage t c) \<and> com_root_comment c = last (com_id c # lineage t c)) (tb_rows t)"

definition wf_comments :: "dapp_comment_object table \<Rightarrow> bool" where
  "wf_comments t \<longleftrightarrow> wf_tree t \<and> list_all (\<lambda>c. com_children c = of_nat (descendants t (com_id c))) (tb_rows t)"

lemma find_comment_mem: "find_comment d a l t = Some p \<Longrightarrow> p \<in> set (tb_rows t) \<and> com_dapp_name p = d \<and> com_author p = a \<and> c_str (com_permlink p) = c_str l"
  unfolding find_comment_def table_find_def by (drule find_Some_mem) simp

lemma parent_of_mem: "parent_of t c = Some p \<Longrightarrow> p \<in> set (tb_rows t)"
  by (auto simp: parent_of_def dest: find_comment_mem split: if_splits)

lemma parents_olderD:
  assumes "parents_older t" "c \<in> set (tb_rows t)" "parent_of t c = Some p"
  shows "com_id p < com_id c"
  using assms by (auto simp: parents_older_def list_all_iff parent_of_def split: if_splits)

lemma ancestor_ids_fuel:
  assumes "parents_older t" "c \<in> set (tb_rows t)" "com_id c \<le> n" "com_id c \<le> m"
  shows "ancestor_ids n t c = ancestor_ids m t c"
  using assms(2-)
proof (induction n arbitrary: m c)
  case 0
  then have "parent_of t c = None" using parents_olderD [OF assms(1)] by fastforce
  then show ?case by (cases m) auto
next
  case (Suc n)
  show ?case
  proof (cases "parent_of t c")
    case None
    then show ?thesis by (cases m) auto
  next
    case (Some p)
    with Suc.prems have p: "com_id p < com_id c" "p \<in> set (tb_rows t)"
      using parents_olderD [OF assms(1)] parent_of_mem by auto
    then obtain k where m: "m = Suc k" using Suc.prems by (cases m) auto
    have "ancestor_ids n t p = ancestor_ids k t p" using Suc.IH [OF p(2)] Suc.prems p(1) m by simp
    with Some m show ?thesis by simp
  qed
qed

lemma lineage_step:
  assumes "parents_older t" "c \<in> set (tb_rows t)"
  shows "lineage t c = (case parent_of t c of None \<Rightarrow> [] | Some p \<Rightarrow> com_id p # lineage t p)"
proof (cases "parent_of t c")
  case None
  then show ?thesis by (cases "com_id c") (auto simp: lineage_def)
next
  case (Some p)
  have p: "com_id p < com_id c" "p \<in> set (tb_rows t)" using parents_olderD [OF assms Some] parent_of_mem [OF Some] .
  then obtain k where k: "com_id c = Suc k" by (cases "com_id c") auto
  have "ancestor_ids k t p = lineage t p"
    unfolding lineage_def using p k by (intro ancestor_ids_fuel [OF assms(1)]) auto
  with Some k show ?thesis by (simp add: lineage_def)
qed

lemma lineage_bound:
  assumes "parents_older t" "c \<in> set (tb_rows t)" "i \<in> set (lineage t c)"
  shows "i < com_id c"
  using assms(2,3)
proof (induction "com_id c" arbitrary: c rule: less_induct)
  case less
  from less.prems lineage_step [OF assms(1) less.prems(1)] obtain p where p: "parent_of t c = Some p"
    "i = com_id p \<or> i \<in> set (lineage t p)" by (auto split: option.splits)
  have "com_id p < com_id c" "p \<in> set (tb_rows t)" using parents_olderD [OF assms(1) less.prems(1) p(1)] parent_of_mem [OF p(1)] .
  with less.hyps [OF this] p(2) show ?case by auto
qed

section \<open>Changes that keep the shape\<close>

text \<open>Counting replies, voting and editing change neither the keys nor the parents of comments.\<close>

definition same_shape :: "(dapp_comment_object \<Rightarrow> dapp_comment_object) \<Rightarrow> bool" where
  "same_shape f \<longleftrightarrow> (\<forall>c. com_id (f c) = com_id c \<and> com_dapp_name (f c) = com_dapp_name c \<and> com_author (f c) = com_author c
     \<and> com_permlink (f c) = com_permlink c \<and> com_parent_author (f c) = com_parent_author c
     \<and> com_parent_permlink (f c) = com_parent_permlink c)"

definition map_rows :: "('a \<Rightarrow> 'a) \<Rightarrow> 'a table \<Rightarrow> 'a table" where
  "map_rows f t = t\<lparr>tb_rows := map f (tb_rows t)\<rparr>"

lemma map_rows_simps [simp]: "tb_rows (map_rows f t) = map f (tb_rows t)" "tb_next (map_rows f t) = tb_next t"
  by (simp_all add: map_rows_def)

lemma table_modify_map_rows: "table_modify idf i f t = map_rows (\<lambda>r. if idf r = i then f r else r) t"
  by (simp add: table_modify_def map_rows_def modify_where_def)

lemma map_rows_map_rows: "map_rows f (map_rows g t) = map_rows (\<lambda>r. f (g r)) t"
  by (simp add: map_rows_def o_def)

lemma same_shape_if: "same_shape f \<Longrightarrow> same_shape (\<lambda>r. if P r then f r else r)"
  by (simp add: same_shape_def)

lemma find_comment_map:
  assumes "same_shape f"
  shows "find_comment d a l (map_rows f t) = map_option f (find_comment d a l t)"
proof -
  have "find P (map f xs) = map_option f (find P xs)" if "\<And>x. P (f x) = P x" for P xs
    using that by (induction xs) auto
  then show ?thesis using assms by (simp add: find_comment_def table_find_def map_rows_def same_shape_def)
qed

lemma parent_of_map: "same_shape f \<Longrightarrow> parent_of (map_rows f t) (f c) = map_option f (parent_of t c)"
  by (simp add: parent_of_def find_comment_map) (simp add: same_shape_def)

lemma ancestor_ids_map: "same_shape f \<Longrightarrow> ancestor_ids n (map_rows f t) (f c) = ancestor_ids n t c"
proof (induction n arbitrary: c)
  case (Suc n)
  then show ?case by (cases "parent_of t c") (simp_all add: parent_of_map, simp add: same_shape_def)
qed simp

lemma lineage_map: "same_shape f \<Longrightarrow> lineage (map_rows f t) (f c) = lineage t c"
  using ancestor_ids_map [of f "com_id c" t c] by (simp add: lineage_def same_shape_def)

lemma descendants_map: "same_shape f \<Longrightarrow> descendants (map_rows f t) i = descendants t i"
  by (simp add: descendants_def lineage_map filter_map o_def)

lemma parents_older_map:
  assumes "same_shape f"
  shows "parents_older (map_rows f t) \<longleftrightarrow> parents_older t"
proof -
  have rows: "tb_rows (map_rows f t) = map f (tb_rows t)" "tb_next (map_rows f t) = tb_next t" by (simp_all add: map_rows_def)
  have ids: "map com_id (map f xs) = map com_id xs" for xs using assms by (simp add: same_shape_def o_def)
  have "wf_table com_id (map_rows f t) \<longleftrightarrow> wf_table com_id t" by (simp add: wf_table_def rows ids del: map_map set_map)
  moreover have "(case parent_of (map_rows f t) (f c) of None \<Rightarrow> False | Some p \<Rightarrow> com_id p < com_id (f c))
      = (case parent_of t c of None \<Rightarrow> False | Some p \<Rightarrow> com_id p < com_id c)" for c
    using assms by (cases "parent_of t c") (simp_all add: parent_of_map [OF assms] same_shape_def)
  moreover have "com_parent_author (f c) = com_parent_author c" for c using assms by (simp add: same_shape_def)
  ultimately show ?thesis by (simp add: parents_older_def rows list.pred_map o_def)
qed

lemma no_two_clash_map: "same_shape f \<Longrightarrow> no_two_clash (map_rows f t) \<longleftrightarrow> no_two_clash t"
  by (simp add: no_two_clash_def map_rows_def list_all_iff comment_clash_def same_shape_def)

lemma wf_tree_map:
  assumes "same_shape f" "\<And>c. com_depth (f c) = com_depth c" "\<And>c. com_root_comment (f c) = com_root_comment c" "wf_tree t"
  shows "wf_tree (map_rows f t)"
proof -
  have "\<And>c. com_id (f c) = com_id c" using assms(1) by (simp add: same_shape_def)
  with assms show ?thesis by (simp add: wf_tree_def parents_older_map no_two_clash_map lineage_map list_all_iff)
qed

lemma wf_comments_map:
  assumes "same_shape f" "\<And>c. com_depth (f c) = com_depth c" "\<And>c. com_root_comment (f c) = com_root_comment c"
    "\<And>c. com_children (f c) = com_children c" "wf_comments t"
  shows "wf_comments (map_rows f t)"
proof -
  have "\<And>c. com_id (f c) = com_id c" using assms(1) by (simp add: same_shape_def)
  with assms show ?thesis by (simp add: wf_comments_def wf_tree_map descendants_map list_all_iff)
qed

section \<open>The loops over the parents\<close>

definition touch_all :: "(32 word \<Rightarrow> 32 word) \<Rightarrow> time_point_sec \<Rightarrow> nat list \<Rightarrow> dapp_comment_object table \<Rightarrow> dapp_comment_object table" where
  "touch_all f now is t = map_rows (\<lambda>r. if com_id r \<in> set is then touch f now r else r) t"

lemma same_shape_touch: "same_shape (touch f now)"
  by (simp add: same_shape_def touch_def)

lemma touch_all_Cons:
  assumes "i \<notin> set is"
  shows "touch_all f now is (table_modify com_id i (touch f now) t) = touch_all f now (i # is) t"
  using assms by (simp add: touch_all_def table_modify_map_rows map_rows_map_rows)
    (rule arg_cong [where f = "\<lambda>f. map_rows f t"], auto simp: touch_def fun_eq_iff)

text \<open>One step of either loop: the parent is older, still in the table, and has the lineage it had.\<close>

lemma parent_after_touch:
  assumes "parents_older t" "c \<in> set (tb_rows t)" "com_parent_author c \<noteq> []"
    and t': "t' = table_modify com_id (com_id c) (touch f now) t"
  obtains p where "find_comment (com_dapp_name c) (com_parent_author c) (com_parent_permlink c) t' = Some p"
    "com_id p < com_id c" "p \<in> set (tb_rows t')" "parents_older t'" "lineage t c = com_id p # lineage t' p"
proof -
  let ?f = "\<lambda>r. if com_id r = com_id c then touch f now r else r"
  have sh: "same_shape ?f" by (intro same_shape_if same_shape_touch)
  have t': "t' = map_rows ?f t" by (simp add: t' table_modify_map_rows)
  have "\<exists>q. parent_of t c = Some q" using assms(1-3) by (auto simp: parents_older_def list_all_iff split: option.splits)
  then obtain q where q: "parent_of t c = Some q" ..
  have less: "com_id q < com_id c" and mem: "q \<in> set (tb_rows t)" using parents_olderD [OF assms(1,2) q] parent_of_mem [OF q] .
  have fq: "?f q = q" using less by simp
  show ?thesis
  proof (rule that [of q])
    show "find_comment (com_dapp_name c) (com_parent_author c) (com_parent_permlink c) t' = Some q"
      using q assms(3) fq by (simp add: t' find_comment_map [OF sh] parent_of_def)
    show "q \<in> set (tb_rows t')" using imageI [OF mem, of ?f] fq by (simp add: t')
    show "parents_older t'" using assms(1) by (simp add: t' parents_older_map [OF sh])
    show "lineage t c = com_id q # lineage t' q"
      using lineage_step [OF assms(1,2)] q lineage_map [OF sh, of t q] fq by (simp add: t')
  qed (rule less)
qed

lemma no_parent_lineage:
  assumes "com_parent_author c = []"
  shows "lineage t c = []"
  using assms by (cases "com_id c") (simp_all add: lineage_def parent_of_def)

lemma count_reply_touches:
  assumes "parents_older t" "c \<in> set (tb_rows t)" "com_id c < fuel"
  shows "count_reply fuel now c t = Some (Inr (touch_all (\<lambda>n. n + 1) now (com_id c # lineage t c) t))"
  using assms
proof (induction fuel arbitrary: c t)
  case (Suc fuel)
  let ?t = "table_modify com_id (com_id c) (touch (\<lambda>n. n + 1) now) t"
  show ?case
  proof (cases "com_parent_author c = []")
    case True
    then show ?thesis
      using touch_all_Cons [of "com_id c" "[]" "\<lambda>n. n + 1" now t] by (simp add: no_parent_lineage touch_all_def map_rows_def)
  next
    case False
    from parent_after_touch [OF Suc.prems(1,2) False refl] obtain p where p:
      "find_comment (com_dapp_name c) (com_parent_author c) (com_parent_permlink c) ?t = Some p"
      "com_id p < com_id c" "p \<in> set (tb_rows ?t)" "parents_older ?t" "lineage t c = com_id p # lineage ?t p" .
    have "com_id c \<notin> set (com_id p # lineage ?t p)" using lineage_bound [OF Suc.prems(1,2)] p(5) by auto
    with Suc.IH [OF p(4,3)] p(2) Suc.prems(3) False p(1,5) show ?thesis
      by (simp add: Let_def touch_all_Cons)
  qed
qed simp

lemma uncount_reply_touches:
  assumes "parents_older t" "c \<in> set (tb_rows t)" "com_id c < fuel"
  shows "uncount_reply fuel now (Some c) t = Some (touch_all (\<lambda>n. n - 1) now (com_id c # lineage t c) t)"
  using assms
proof (induction fuel arbitrary: c t)
  case (Suc fuel)
  let ?t = "table_modify com_id (com_id c) (touch (\<lambda>n. n - 1) now) t"
  show ?case
  proof (cases "com_parent_author c = []")
    case True
    then show ?thesis
      using touch_all_Cons [of "com_id c" "[]" "\<lambda>n. n - 1" now t] by (simp add: no_parent_lineage touch_all_def map_rows_def)
  next
    case False
    from parent_after_touch [OF Suc.prems(1,2) False refl] obtain p where p:
      "find_comment (com_dapp_name c) (com_parent_author c) (com_parent_permlink c) ?t = Some p"
      "com_id p < com_id c" "p \<in> set (tb_rows ?t)" "parents_older ?t" "lineage t c = com_id p # lineage ?t p" .
    have "com_id c \<notin> set (com_id p # lineage ?t p)" using lineage_bound [OF Suc.prems(1,2)] p(5) by auto
    with Suc.IH [OF p(4,3)] p(2) Suc.prems(3) False p(1,5) show ?thesis
      by (simp add: Let_def touch_all_Cons)
  qed
qed simp

section \<open>Adding and removing a comment\<close>

definition append_row :: "'a table \<Rightarrow> 'a \<Rightarrow> 'a table" where
  "append_row t v = \<lparr>tb_next = tb_next t + 1, tb_rows = tb_rows t @ [v]\<rparr>"

lemma append_row_simps [simp]: "tb_rows (append_row t v) = tb_rows t @ [v]" "tb_next (append_row t v) = tb_next t + 1"
  by (simp_all add: append_row_def)

lemma find_comment_append:
  "find_comment d a l t = Some p \<Longrightarrow> find_comment d a l (append_row t v) = Some p"
proof -
  have "find P xs = Some p \<Longrightarrow> find P (xs @ ys) = Some p" for P xs and ys :: "dapp_comment_object list"
    by (induction xs) auto
  then show "find_comment d a l t = Some p \<Longrightarrow> find_comment d a l (append_row t v) = Some p"
    by (simp add: find_comment_def table_find_def)
qed

lemma parent_of_append:
  assumes "parents_older t" "c \<in> set (tb_rows t)"
  shows "parent_of (append_row t v) c = parent_of t c"
proof (cases "com_parent_author c = []")
  case False
  then obtain p where "parent_of t c = Some p" using assms by (auto simp: parents_older_def list_all_iff split: option.splits)
  with False show ?thesis by (simp add: parent_of_def find_comment_append)
qed (simp add: parent_of_def)

lemma row_id_less: "parents_older t \<Longrightarrow> c \<in> set (tb_rows t) \<Longrightarrow> com_id c < tb_next t"
  by (auto simp: parents_older_def wf_table_def)

text \<open>A new row \<open>v\<close> with the next id, whose parent, if it names one, is the row \<open>p\<close> of the table.\<close>

definition row_fits :: "dapp_comment_object table \<Rightarrow> dapp_comment_object option \<Rightarrow> dapp_comment_object \<Rightarrow> bool" where
  "row_fits t parent v \<longleftrightarrow> com_id v = tb_next t \<and> (\<forall>w \<in> set (tb_rows t). \<not> comment_clash v w)
     \<and> (case parent of
          None \<Rightarrow> com_parent_author v = []
        | Some p \<Rightarrow> com_parent_author v \<noteq> [] \<and> find_comment (com_dapp_name v) (com_parent_author v) (com_parent_permlink v) t = Some p)"

lemma row_fits_parent:
  assumes "row_fits t parent v"
  shows "parent_of (append_row t v) v = parent"
  using assms by (cases parent) (auto simp: row_fits_def parent_of_def find_comment_append)

lemma parents_older_append:
  assumes "parents_older t" "row_fits t parent v"
  shows "parents_older (append_row t v)"
proof -
  have "wf_table com_id (append_row t v)"
    using assms by (auto simp: parents_older_def wf_table_def row_fits_def less_Suc_eq)
  moreover have "com_parent_author c = [] \<or> (case parent_of (append_row t v) c of None \<Rightarrow> False | Some p \<Rightarrow> com_id p < com_id c)"
    if "c \<in> set (tb_rows t)" for c
    using assms(1) that by (auto simp: parent_of_append [OF assms(1) that] parents_older_def list_all_iff)
  moreover have "com_parent_author v = [] \<or> (case parent_of (append_row t v) v of None \<Rightarrow> False | Some p \<Rightarrow> com_id p < com_id v)"
    using assms row_fits_parent [OF assms(2)] row_id_less [OF assms(1)]
    by (auto simp: row_fits_def split: option.splits dest: find_comment_mem)
  ultimately show ?thesis by (simp add: parents_older_def list_all_iff)
qed

lemma lineage_append_old:
  assumes "parents_older t" "row_fits t parent v" "c \<in> set (tb_rows t)"
  shows "lineage (append_row t v) c = lineage t c"
  using assms(3)
proof (induction "com_id c" arbitrary: c rule: less_induct)
  case less
  have mem: "c \<in> set (tb_rows (append_row t v))" using less.prems by simp
  show ?case
  proof (cases "parent_of t c")
    case (Some p)
    have p: "com_id p < com_id c" "p \<in> set (tb_rows t)" using parents_olderD [OF assms(1) less.prems Some] parent_of_mem [OF Some] .
    from less.hyps [OF this] Some show ?thesis
      using lineage_step [OF parents_older_append [OF assms(1,2)] mem] lineage_step [OF assms(1) less.prems]
      by (simp add: parent_of_append [OF assms(1) less.prems])
  qed (use lineage_step [OF parents_older_append [OF assms(1,2)] mem] lineage_step [OF assms(1) less.prems]
      in \<open>simp add: parent_of_append [OF assms(1) less.prems]\<close>)
qed

lemma lineage_append_new:
  assumes "parents_older t" "row_fits t parent v"
  shows "lineage (append_row t v) v = (case parent of None \<Rightarrow> [] | Some p \<Rightarrow> com_id p # lineage t p)"
proof (cases parent)
  case (Some p)
  then have "p \<in> set (tb_rows t)" using assms(2) by (auto simp: row_fits_def dest: find_comment_mem)
  with Some lineage_step [OF parents_older_append [OF assms], of v] row_fits_parent [OF assms(2)] lineage_append_old [OF assms]
  show ?thesis by simp
qed (use lineage_step [OF parents_older_append [OF assms], of v] row_fits_parent [OF assms(2)] in simp)

lemma descendants_append:
  assumes "parents_older t" "row_fits t parent v"
  shows "descendants (append_row t v) i = descendants t i + (if i \<in> set (lineage (append_row t v) v) then 1 else 0)"
proof -
  have "filter (\<lambda>c. i \<in> set (lineage (append_row t v) c)) (tb_rows t) = filter (\<lambda>c. i \<in> set (lineage t c)) (tb_rows t)"
    by (rule filter_cong) (simp_all add: lineage_append_old [OF assms])
  then show ?thesis by (simp add: descendants_def)
qed

lemma descendants_fresh:
  assumes "parents_older t" "tb_next t \<le> i"
  shows "descendants t i = 0"
proof -
  have "i \<notin> set (lineage t c)" if "c \<in> set (tb_rows t)" for c
    using lineage_bound [OF assms(1) that] row_id_less [OF assms(1) that] assms(2) by fastforce
  then show ?thesis by (simp add: descendants_def filter_empty_conv)
qed

lemma wf_tree_append:
  assumes "wf_tree t" "row_fits t parent v"
    and "unat (com_depth v) = length (lineage (append_row t v) v)"
    and "com_root_comment v = last (com_id v # lineage (append_row t v) v)"
  shows "wf_tree (append_row t v)"
proof -
  have po: "parents_older t" using assms(1) by (simp add: wf_tree_def)
  have sym: "comment_clash a b \<longleftrightarrow> comment_clash b a" for a b by (auto simp: comment_clash_def)
  have "no_two_clash (append_row t v)"
  proof -
    have "\<not> comment_clash v w" "\<not> comment_clash w v" if "w \<in> set (tb_rows t)" for w
      using assms(2) that sym [of w v] by (simp_all add: row_fits_def)
    with assms(1) show ?thesis by (auto simp: wf_tree_def no_two_clash_def list_all_iff)
  qed
  with assms show ?thesis
    by (simp add: wf_tree_def parents_older_append [OF po assms(2)] list_all_iff lineage_append_old [OF po assms(2)])
qed

lemma same_shape_touch_some: "same_shape (\<lambda>r. if com_id r \<in> S then touch f now r else r)"
  by (rule same_shape_if [OF same_shape_touch])

lemma wf_tree_touch_all: "wf_tree t \<Longrightarrow> wf_tree (touch_all f now is t)"
  unfolding touch_all_def by (rule wf_tree_map [OF same_shape_touch_some]) (auto simp: touch_def)

lemma descendants_touch_all: "descendants (touch_all f now is t) i = descendants t i"
  unfolding touch_all_def by (rule descendants_map [OF same_shape_touch_some])

lemma wf_comments_touch_all:
  assumes "wf_tree t"
    and "\<And>r. r \<in> set (tb_rows t) \<Longrightarrow>
       (if com_id r \<in> set is then f (com_children r) else com_children r) = of_nat (descendants t (com_id r))"
  shows "wf_comments (touch_all f now is t)"
proof -
  have "list_all (\<lambda>c. com_children c = of_nat (descendants t (com_id c))) (tb_rows (touch_all f now is t))"
  proof -
    have "(if com_id r \<in> set is then f (com_children r) else com_children r)
        = com_children (if com_id r \<in> set is then touch f now r else r)"
      "com_id (if com_id r \<in> set is then touch f now r else r) = com_id r" for r
      by (simp_all add: touch_def)
    with assms(2) show ?thesis unfolding touch_all_def map_rows_simps list.pred_map o_def unfolding list_all_iff by simp
  qed
  with wf_tree_touch_all [OF assms(1)] show ?thesis by (simp add: wf_comments_def descendants_touch_all)
qed

lemma wf_comments_append:
  assumes "wf_comments t" "row_fits t parent v"
    and "unat (com_depth v) = length (lineage (append_row t v) v)"
    and "com_root_comment v = last (com_id v # lineage (append_row t v) v)" "com_children v = 0"
  shows "wf_comments (touch_all (\<lambda>n. n + 1) now (lineage (append_row t v) v) (append_row t v))"
proof -
  let ?t = "append_row t v" and ?is = "lineage (append_row t v) v"
  have tree: "wf_tree t" and po: "parents_older t" using assms(1) by (simp_all add: wf_comments_def wf_tree_def)
  have tree': "wf_tree ?t" by (rule wf_tree_append [OF tree assms(2-4)])
  have v: "com_id v = tb_next t" using assms(2) by (simp add: row_fits_def)
  have old: "com_children r = of_nat (descendants t (com_id r))" if "r \<in> set (tb_rows t)" for r
    using assms(1) that by (simp add: wf_comments_def list_all_iff)
  have new: "com_children v = of_nat (descendants t (com_id v))" using assms(5) descendants_fresh [OF po] v by simp
  show ?thesis
    by (rule wf_comments_touch_all [OF tree']) (use old new in \<open>auto simp: descendants_append [OF po assms(2)]\<close>)
qed

lemma find_comment_remove:
  assumes "find_comment d a l t = Some p" "com_id p \<noteq> i"
  shows "find_comment d a l (table_remove com_id i t) = Some p"
proof -
  have "find P xs = Some p \<Longrightarrow> find P (filter (\<lambda>r. com_id r \<noteq> i) xs) = Some p" for P xs
    using assms(2) by (induction xs) (auto split: if_splits)
  with assms(1) show ?thesis by (simp add: find_comment_def table_find_def table_remove_def remove_where_def)
qed

text \<open>Removing a comment that is nobody's ancestor leaves the ancestors of the others as they are.\<close>

lemma parent_of_remove:
  assumes "parents_older t" "c \<in> set (tb_rows t)" "i \<notin> set (lineage t c)"
  shows "parent_of (table_remove com_id i t) c = parent_of t c"
proof (cases "com_parent_author c = []")
  case False
  then obtain p where p: "parent_of t c = Some p" using assms by (auto simp: parents_older_def list_all_iff split: option.splits)
  then have "com_id p \<noteq> i" using assms(3) lineage_step [OF assms(1,2)] by auto
  with p False show ?thesis by (simp add: parent_of_def find_comment_remove)
qed (simp add: parent_of_def)

lemma table_remove_simps [simp]:
  "set (tb_rows (table_remove idf i t)) = {r \<in> set (tb_rows t). idf r \<noteq> i}" "tb_next (table_remove idf i t) = tb_next t"
  by (simp_all add: table_remove_def)

lemma not_ancestor:
  assumes "descendants t i = 0" "c \<in> set (tb_rows t)"
  shows "i \<notin> set (lineage t c)"
  using assms by (simp add: descendants_def filter_empty_conv)

lemma parents_older_remove:
  assumes "parents_older t" "descendants t i = 0"
  shows "parents_older (table_remove com_id i t)"
proof -
  have "wf_table com_id (table_remove com_id i t)" using assms(1) by (simp add: parents_older_def wf_table_remove)
  with assms show ?thesis
    by (auto simp: parents_older_def list_all_iff parent_of_remove [OF assms(1) _ not_ancestor [OF assms(2)]])
qed

lemma lineage_remove:
  assumes "parents_older t" "descendants t i = 0" "c \<in> set (tb_rows t)" "com_id c \<noteq> i"
  shows "lineage (table_remove com_id i t) c = lineage t c"
  using assms(3,4)
proof (induction "com_id c" arbitrary: c rule: less_induct)
  case less
  let ?t = "table_remove com_id i t"
  have mem: "c \<in> set (tb_rows ?t)" using less.prems by simp
  have same: "parent_of ?t c = parent_of t c" by (rule parent_of_remove [OF assms(1) less.prems(1) not_ancestor [OF assms(2) less.prems(1)]])
  note steps = lineage_step [OF parents_older_remove [OF assms(1,2)] mem] lineage_step [OF assms(1) less.prems(1)]
  show ?case
  proof (cases "parent_of t c")
    case (Some p)
    have p: "com_id p < com_id c" "p \<in> set (tb_rows t)" using parents_olderD [OF assms(1) less.prems(1) Some] parent_of_mem [OF Some] .
    have "com_id p \<noteq> i" using not_ancestor [OF assms(2) less.prems(1)] steps(2) Some by auto
    with less.hyps [OF p] Some same steps show ?thesis by simp
  qed (use same steps in simp)
qed

lemma count_remove:
  assumes "distinct (map idf xs)" "c \<in> set xs"
  shows "length (filter P xs) = length (filter P (filter (\<lambda>r. idf r \<noteq> idf c) xs)) + (if P c then 1 else 0)"
  using assms
proof (induction xs)
  case (Cons x xs)
  show ?case
  proof (cases "x = c")
    case True
    then have "filter (\<lambda>r. idf r \<noteq> idf c) xs = xs" using Cons.prems by (auto simp: filter_id_conv image_iff)
    with True show ?thesis by simp
  next
    case False
    then have "idf x \<noteq> idf c" "c \<in> set xs" using Cons.prems by (auto simp: image_iff)
    with Cons show ?thesis by simp
  qed
qed simp

lemma descendants_remove:
  assumes "parents_older t" "c \<in> set (tb_rows t)" "descendants t (com_id c) = 0"
  shows "descendants t i = descendants (table_remove com_id (com_id c) t) i + (if i \<in> set (lineage t c) then 1 else 0)"
proof -
  let ?t = "table_remove com_id (com_id c) t" and ?P = "\<lambda>d. i \<in> set (lineage t d)"
  have "distinct (map com_id (tb_rows t))" using assms(1) by (simp add: parents_older_def wf_table_def)
  from count_remove [OF this assms(2), of ?P]
  have "descendants t i = length (filter ?P (tb_rows ?t)) + (if ?P c then 1 else 0)"
    by (simp add: descendants_def table_remove_def remove_where_def)
  moreover have "filter ?P (tb_rows ?t) = filter (\<lambda>d. i \<in> set (lineage ?t d)) (tb_rows ?t)"
    by (rule filter_cong) (simp_all add: lineage_remove [OF assms(1,3)])
  ultimately show ?thesis by (simp add: descendants_def)
qed

lemma wf_comments_remove:
  assumes "wf_tree t" "c \<in> set (tb_rows t)" "descendants t (com_id c) = 0"
    and "\<And>r. r \<in> set (tb_rows t) \<Longrightarrow> com_id r \<noteq> com_id c \<Longrightarrow>
       com_children r + (if com_id r \<in> set (lineage t c) then 1 else 0) = of_nat (descendants t (com_id r))"
  shows "wf_comments (table_remove com_id (com_id c) t)"
proof -
  let ?t = "table_remove com_id (com_id c) t"
  have po: "parents_older t" using assms(1) by (simp add: wf_tree_def)
  have "wf_tree ?t"
    using assms(1) parents_older_remove [OF po assms(3)]
    by (auto simp: wf_tree_def no_two_clash_def list_all_iff lineage_remove [OF po assms(3)])
  moreover have "com_children r = of_nat (descendants ?t (com_id r))" if "r \<in> set (tb_rows ?t)" for r
    using assms(4) [of r] that descendants_remove [OF po assms(2,3), of "com_id r"] by (auto split: if_splits)
  ultimately show ?thesis by (simp add: wf_comments_def list_all_iff)
qed

section \<open>The operations\<close>

lemma make_comment_simps:
  "com_id (make_comment tt op parent now i) = i"
  "com_dapp_name (make_comment tt op parent now i) = cmt_dapp_name op"
  "com_author (make_comment tt op parent now i) = cmt_author op"
  "com_permlink (make_comment tt op parent now i) = cmt_permlink op"
  "com_children (make_comment tt op parent now i) = 0"
  "com_parent_author (make_comment tt op parent now i) = (case parent of None \<Rightarrow> [] | Some p \<Rightarrow> com_author p)"
  "com_parent_permlink (make_comment tt op parent now i) = (case parent of None \<Rightarrow> cmt_parent_permlink op | Some p \<Rightarrow> com_permlink p)"
  "com_depth (make_comment tt op parent now i) = (case parent of None \<Rightarrow> 0 | Some p \<Rightarrow> com_depth p + 1)"
  "com_root_comment (make_comment tt op parent now i) = (case parent of None \<Rightarrow> i | Some p \<Rightarrow> com_root_comment p)"
  by (cases parent; simp add: make_comment_def new_comment_def Let_def)+

lemma comment_parent_Some:
  assumes "comment_parent op db = Inr (Some p)"
  shows "cmt_parent_author op \<noteq> []" "com_depth p < SIGMAENGINE_MAX_COMMENT_DEPTH"
    "com_author p = cmt_parent_author op"
    "find_comment (cmt_dapp_name op) (com_author p) (com_permlink p) (pl_comments (db_plugins db)) = Some p"
proof -
  from assms have f: "find_comment (cmt_dapp_name op) (cmt_parent_author op) (cmt_parent_permlink op) (pl_comments (db_plugins db)) = Some p"
    and "cmt_parent_author op \<noteq> []" "com_depth p < SIGMAENGINE_MAX_COMMENT_DEPTH"
    by (auto simp: comment_parent_def result_simps split: if_splits)
  with find_comment_mem [OF f] show "cmt_parent_author op \<noteq> []" "com_depth p < SIGMAENGINE_MAX_COMMENT_DEPTH"
    "com_author p = cmt_parent_author op"
    "find_comment (cmt_dapp_name op) (com_author p) (com_permlink p) (pl_comments (db_plugins db)) = Some p"
    by (simp_all add: find_comment_def)
qed

text \<open>The parent an operation names, if any, and no comment with the same key: the new comment fits the table.\<close>

lemma make_comment_fits:
  assumes "wf_comments t" "t = pl_comments (db_plugins db)" "comment_parent op db = Inr parent"
    and v: "v = make_comment tt op parent now (tb_next t)" "\<forall>w \<in> set (tb_rows t). \<not> comment_clash v w"
  shows "row_fits t parent v" "unat (com_depth v) = length (lineage (append_row t v) v)"
    "com_root_comment v = last (com_id v # lineage (append_row t v) v)"
proof -
  have po: "parents_older t" using assms(1) by (simp add: wf_comments_def wf_tree_def)
  show fits: "row_fits t parent v"
  proof (cases parent)
    case (Some p)
    with comment_parent_Some [of op db p] assms(2,3) v show ?thesis by (simp add: row_fits_def make_comment_simps)
  qed (use v in \<open>simp add: row_fits_def make_comment_simps\<close>)
  note line = lineage_append_new [OF po fits]
  show "unat (com_depth v) = length (lineage (append_row t v) v)" "com_root_comment v = last (com_id v # lineage (append_row t v) v)"
  proof (atomize (full), cases parent)
    case (Some p)
    note p = comment_parent_Some [of op db p, folded assms(2)]
    have "p \<in> set (tb_rows t)" using p(4) Some assms(2,3) by (auto dest: find_comment_mem)
    then have "unat (com_depth p) = length (lineage t p)" "com_root_comment p = last (com_id p # lineage t p)"
      using assms(1) by (simp_all add: wf_comments_def wf_tree_def list_all_iff)
    moreover have "unat (com_depth p + 1) = unat (com_depth p) + 1"
      using p(2) Some assms(3) by (simp add: SIGMAENGINE_MAX_COMMENT_DEPTH_def word_less_nat_alt unat_word_ariths)
    ultimately show "unat (com_depth v) = length (lineage (append_row t v) v) \<and> com_root_comment v = last (com_id v # lineage (append_row t v) v)"
      using Some line v(1) by (simp add: make_comment_simps)
  qed (use line v(1) in \<open>simp add: make_comment_simps\<close>)
qed

lemma count_created_reply:
  assumes "parents_older t" "row_fits t (Some p) v"
  shows "count_reply (tb_next t) now p (append_row t v)
     = Some (Inr (touch_all (\<lambda>n. n + 1) now (lineage (append_row t v) v) (append_row t v)))"
proof -
  have p: "p \<in> set (tb_rows t)" using assms(2) by (auto simp: row_fits_def dest: find_comment_mem)
  have "count_reply (tb_next t) now p (append_row t v)
      = Some (Inr (touch_all (\<lambda>n. n + 1) now (com_id p # lineage (append_row t v) p) (append_row t v)))"
    using p row_id_less [OF assms(1) p] parents_older_append [OF assms] by (intro count_reply_touches) simp_all
  with lineage_append_new [OF assms] lineage_append_old [OF assms p] show ?thesis by simp
qed

lemma create_comment_wf:
  assumes "wf_comments (pl_comments (db_plugins db))" "comment_parent op db = Inr parent"
    and "create_comment tt op auth parent db = Inr db'"
  shows "wf_comments (pl_comments (db_plugins db'))"
proof -
  let ?t = "pl_comments (db_plugins db)" and ?now = "head_block_time db"
  let ?v = "make_comment tt op parent ?now (tb_next ?t)"
  have po: "parents_older ?t" using assms(1) by (simp add: wf_comments_def wf_tree_def)
  from assms(3) obtain created counted where c: "table_create comment_clash (make_comment tt op parent ?now) ?t = Inr created"
    "(case parent of None \<Rightarrow> Inr created
       | Some p \<Rightarrow> (case count_reply (tb_next ?t) ?now p created of None \<Rightarrow> Inl Does_not_return | Some r \<Rightarrow> r)) = Inr counted"
    and db': "pl_comments (db_plugins db') = counted"
    by (auto simp: create_comment_def Let_def result_simps modify_plugins_def modify_account_def)
  have created: "created = append_row ?t ?v" and fresh: "\<forall>w \<in> set (tb_rows ?t). \<not> comment_clash ?v w"
    using c(1) by (auto simp: table_create_def Let_def result_simps append_row_def list_all_iff)
  note fits = make_comment_fits [OF assms(1) refl assms(2) refl fresh]
  have "counted = touch_all (\<lambda>n. n + 1) ?now (lineage created ?v) created"
  proof (cases parent)
    case None
    with c(2) lineage_append_new [OF po fits(1)] created show ?thesis by (simp add: touch_all_def map_rows_def)
  next
    case (Some p)
    with c(2) count_created_reply [OF po, of p ?v ?now] fits(1) show ?thesis by (simp add: created)
  qed
  then show ?thesis using wf_comments_append [OF assms(1) fits make_comment_simps(5)] by (simp add: db' created)
qed

lemma same_shape_edit: "same_shape (edit_comment_object tt op now)" "com_depth (edit_comment_object tt op now c) = com_depth c"
  "com_root_comment (edit_comment_object tt op now c) = com_root_comment c" "com_children (edit_comment_object tt op now c) = com_children c"
  by (simp_all add: same_shape_def edit_comment_object_def Let_def)

lemma same_shape_count_vote: "same_shape (count_vote ty)" "com_depth (count_vote ty c) = com_depth c"
  "com_root_comment (count_vote ty c) = com_root_comment c" "com_children (count_vote ty c) = com_children c"
  by (simp_all add: same_shape_def count_vote_def)

lemma wf_comments_modify:
  assumes "wf_comments t" "same_shape f" "\<And>c. com_depth (f c) = com_depth c" "\<And>c. com_root_comment (f c) = com_root_comment c"
    "\<And>c. com_children (f c) = com_children c"
  shows "wf_comments (table_modify com_id i f t)"
  unfolding table_modify_map_rows by (rule wf_comments_map [OF same_shape_if [OF assms(2)] _ _ _ assms(1)]) (simp_all add: assms)

lemma comment_dapp_wf:
  assumes "wf_comments (pl_comments (db_plugins db))" "comment_dapp_apply tt op db = Inr db'"
  shows "wf_comments (pl_comments (db_plugins db'))"
proof -
  from comment_dapp_run [OF assms(2)] obtain frm auth parent d1 where p: "comment_parent op db = Inr parent"
    and d1: "(case find_comment (cmt_dapp_name op) (cmt_author op) (cmt_permlink op) (pl_comments (db_plugins db)) of
            None \<Rightarrow> create_comment tt op auth parent db | Some com \<Rightarrow> edit_comment tt op parent com db) = Inr d1"
    and r: "charge_fee (cmt_dapp_name op) frm (dgp_dapp_transaction_fee (db_dgp db)) d1 = Inr db'"
    by blast
  have "wf_comments (pl_comments (db_plugins d1))"
  proof (cases "find_comment (cmt_dapp_name op) (cmt_author op) (cmt_permlink op) (pl_comments (db_plugins db))")
    case None
    with d1 create_comment_wf [OF assms(1) p] show ?thesis by simp
  next
    case (Some com)
    with d1 show ?thesis
      by (auto simp: edit_comment_def result_simps modify_plugins_def
          intro!: wf_comments_modify assms(1) same_shape_edit)
  qed
  with charge_fee_plugins [OF r] show ?thesis by simp
qed

lemma uncount_ancestors:
  assumes "parents_older t" "c \<in> set (tb_rows t)"
  shows "(if com_parent_author c \<noteq> [] then uncount_reply (tb_next t) now
        (find_comment (com_dapp_name c) (com_parent_author c) (com_parent_permlink c) t) t else Some t)
      = Some (touch_all (\<lambda>n. n - 1) now (lineage t c) t)"
proof (cases "parent_of t c")
  case None
  then have "com_parent_author c = []" using assms by (auto simp: parents_older_def list_all_iff split: option.splits)
  with None lineage_step [OF assms] show ?thesis by (simp add: touch_all_def map_rows_def)
next
  case (Some p)
  then have "com_parent_author c \<noteq> []"
    "find_comment (com_dapp_name c) (com_parent_author c) (com_parent_permlink c) t = Some p"
    by (auto simp: parent_of_def split: if_splits)
  with uncount_reply_touches [OF assms(1) parent_of_mem [OF Some] row_id_less [OF assms(1) parent_of_mem [OF Some]]]
    Some lineage_step [OF assms] show ?thesis by simp
qed

lemma delete_comment_run:
  assumes "delete_comment_dapp_apply op db = Inr db'" "t = pl_comments (db_plugins db)"
  obtains com counted where "find_comment (dcm_dapp_name op) (dcm_author op) (dcm_permlink op) t = Some com" "com_children com = 0"
    "(if com_parent_author com \<noteq> [] then (case uncount_reply (tb_next t) (head_block_time db)
          (find_comment (com_dapp_name com) (com_parent_author com) (com_parent_permlink com) t) t of
         None \<Rightarrow> Inl Does_not_return | Some t \<Rightarrow> Inr t) else Inr t) = Inr counted"
    "pl_comments (db_plugins db') = table_remove com_id (com_id com) counted" "pl_dapps (db_plugins db') = pl_dapps (db_plugins db)"
  using assms(1) unfolding assms(2)
  by (auto simp: delete_comment_dapp_apply_def Let_def result_simps modify_plugins_def dest!: charge_fee_plugins)

lemma delete_comment_wf:
  assumes "wf_comments (pl_comments (db_plugins db))" "length (tb_rows (pl_comments (db_plugins db))) < 2 ^ 32"
    and "delete_comment_dapp_apply op db = Inr db'"
  shows "wf_comments (pl_comments (db_plugins db'))"
proof -
  let ?t = "pl_comments (db_plugins db)" and ?now = "head_block_time db"
  have tree: "wf_tree ?t" and po: "parents_older ?t" using assms(1) by (simp_all add: wf_comments_def wf_tree_def)
  from delete_comment_run [OF assms(3) refl] obtain com counted where
    f: "find_comment (dcm_dapp_name op) (dcm_author op) (dcm_permlink op) ?t = Some com" "com_children com = 0"
    "(if com_parent_author com \<noteq> [] then (case uncount_reply (tb_next ?t) ?now
          (find_comment (com_dapp_name com) (com_parent_author com) (com_parent_permlink com) ?t) ?t of
         None \<Rightarrow> Inl Does_not_return | Some t \<Rightarrow> Inr t) else Inr ?t) = Inr counted"
    and db': "pl_comments (db_plugins db') = table_remove com_id (com_id com) counted" "pl_dapps (db_plugins db') = pl_dapps (db_plugins db)" .
  have com: "com \<in> set (tb_rows ?t)" using find_comment_mem [OF f(1)] by simp
  have counted: "counted = touch_all (\<lambda>n. n - 1) ?now (lineage ?t com) ?t"
    using f(3) uncount_ancestors [OF po com, of ?now] by (simp split: if_splits)
  have self: "com_id com \<notin> set (lineage ?t com)" using lineage_bound [OF po com] by auto
  let ?f = "\<lambda>r. if com_id r \<in> set (lineage ?t com) then touch (\<lambda>n. n - 1) ?now r else r"
  have "of_nat (descendants ?t (com_id com)) = (0 :: 32 word)"
    using assms(1) com f(2) by (simp add: wf_comments_def list_all_iff)
  moreover have "descendants ?t (com_id com) < 2 ^ 32"
    using assms(2) length_filter_le [of _ "tb_rows ?t"] unfolding descendants_def by (rule le_less_trans [rotated])
  ultimately have none: "descendants ?t (com_id com) = 0" by (auto simp: word_of_nat_eq_0_iff dest: dvd_imp_le)
  show ?thesis unfolding db'(1)
  proof (rule wf_comments_remove)
    show "wf_tree counted" unfolding counted by (rule wf_tree_touch_all [OF tree])
    show "com \<in> set (tb_rows counted)" using imageI [OF com, of ?f] self by (simp add: counted touch_all_def)
    show "descendants counted (com_id com) = 0" by (simp add: counted descendants_touch_all none)
    fix r assume "r \<in> set (tb_rows counted)"
    then obtain q where q: "q \<in> set (tb_rows ?t)" "r = ?f q" by (auto simp: counted touch_all_def simp del: if_image_distrib)
    have "lineage counted (?f com) = lineage ?t com"
      unfolding counted touch_all_def by (rule lineage_map [OF same_shape_touch_some])
    then have "lineage counted com = lineage ?t com" using self by simp
    moreover have "com_children q = of_nat (descendants ?t (com_id q))" "com_id r = com_id q"
      using assms(1) q by (auto simp: wf_comments_def list_all_iff touch_def)
    ultimately show "com_children r + (if com_id r \<in> set (lineage counted com) then 1 else 0) = of_nat (descendants counted (com_id r))"
      using q(2) by (simp add: counted descendants_touch_all touch_def)
  qed
qed

lemma dapp_apply_wf_comments:
  assumes "wf_comments (pl_comments (db_plugins db))" "length (tb_rows (pl_comments (db_plugins db))) < 2 ^ 32"
    and "dapp_apply tt op db = Inr db'"
  shows "wf_comments (pl_comments (db_plugins db'))"
proof (cases op)
  case (Comment_dapp o')
  with assms comment_dapp_wf show ?thesis by simp
next
  case (Delete_comment_dapp o')
  with assms delete_comment_wf show ?thesis by simp
next
  case (Comment_vote_dapp o')
  with assms show ?thesis
    by (auto simp: comment_vote_dapp_apply_def Let_def result_simps modify_plugins_def dest!: charge_fee_plugins
        intro!: wf_comments_modify same_shape_count_vote)
qed (use assms in \<open>auto simp: create_dapp_apply_def update_dapp_key_apply_def join_dapp_apply_def leave_dapp_apply_def
    vote_dapp_apply_def vote_dapp_trx_fee_apply_def Let_def result_simps modify_plugins_def dest!: charge_fee_plugins\<close>)

section \<open>The loops end\<close>

text \<open>Only the two loops could fail to return; nothing else the evaluators call does.\<close>

named_theorems returns \<open>calls that always return\<close>

lemma asset_returns [returns]:
  "asset_neg a \<noteq> Inl Does_not_return" "asset_add a b \<noteq> Inl Does_not_return" "asset_ge a b \<noteq> Inl Does_not_return"
  by (auto simp: asset_neg_def safe_neg_def asset_add_def safe_add_def asset_ge_def asset_lt_def failure_simps split: if_splits)

lemma table_returns [returns]:
  "get_account n db \<noteq> Inl Does_not_return" "table_get P t \<noteq> Inl Does_not_return" "require_dapp n db \<noteq> Inl Does_not_return"
  "table_create clash c t \<noteq> Inl Does_not_return" "table_modify_unique clash idf i f t \<noteq> Inl Does_not_return"
  by (auto simp: get_account_def table_get_def require_dapp_def table_create_def table_modify_unique_def Let_def failure_simps)

lemma fee_returns [returns]: "fee_payer n fee db \<noteq> Inl Does_not_return" "charge_fee n frm fee db \<noteq> Inl Does_not_return"
  by (auto simp: fee_payer_def charge_fee_def require_ge_def adjust_balance_def adjust_dapp_reward_fund_balance_def add_delta_def
     push_virtual_operation_def returns failure_simps split: if_splits)

lemma comment_returns [returns]:
  "comment_parent op db \<noteq> Inl Does_not_return" "edit_comment tt op parent com db \<noteq> Inl Does_not_return"
  by (auto simp: comment_parent_def edit_comment_def failure_simps)

lemma create_comment_returns:
  assumes "wf_comments (pl_comments (db_plugins db))" "comment_parent op db = Inr parent"
  shows "create_comment tt op auth parent db \<noteq> Inl Does_not_return"
proof -
  let ?t = "pl_comments (db_plugins db)" and ?now = "head_block_time db"
  let ?v = "make_comment tt op parent ?now (tb_next ?t)"
  have po: "parents_older ?t" using assms(1) by (simp add: wf_comments_def wf_tree_def)
  have "(case parent of None \<Rightarrow> Inr created
       | Some p \<Rightarrow> (case count_reply (tb_next ?t) ?now p created of None \<Rightarrow> Inl Does_not_return | Some r \<Rightarrow> r)) \<noteq> Inl Does_not_return"
    if c: "table_create comment_clash (make_comment tt op parent ?now) ?t = Inr created" for created
  proof (cases parent)
    case (Some p)
    have "created = append_row ?t ?v" "\<forall>w \<in> set (tb_rows ?t). \<not> comment_clash ?v w"
      using c by (auto simp: table_create_def Let_def result_simps append_row_def list_all_iff)
    with make_comment_fits(1) [OF assms(1) refl assms(2) refl] count_created_reply [OF po, of p ?v ?now] Some
    show ?thesis by simp
  qed simp
  then show ?thesis
    by (auto simp: create_comment_def Let_def failure_simps returns split: option.splits)
qed

lemma comment_dapp_returns:
  assumes "wf_comments (pl_comments (db_plugins db))"
  shows "comment_dapp_apply tt op db \<noteq> Inl Does_not_return"
  using create_comment_returns [OF assms]
  by (auto simp: comment_dapp_apply_def Let_def failure_simps returns split: option.splits)

lemma delete_comment_returns:
  assumes "wf_comments (pl_comments (db_plugins db))"
  shows "delete_comment_dapp_apply op db \<noteq> Inl Does_not_return"
proof -
  let ?t = "pl_comments (db_plugins db)"
  have po: "parents_older ?t" using assms by (simp add: wf_comments_def wf_tree_def)
  have "uncount_reply (tb_next ?t) (head_block_time db)
          (find_comment (com_dapp_name com) (com_parent_author com) (com_parent_permlink com) ?t) ?t \<noteq> None"
    if "find_comment (dcm_dapp_name op) (dcm_author op) (dcm_permlink op) ?t = Some com" "com_parent_author com \<noteq> []" for com
    using uncount_ancestors [OF po, of com "head_block_time db"] find_comment_mem [OF that(1)] that(2) by simp
  then show ?thesis
    by (auto simp: delete_comment_dapp_apply_def Let_def failure_simps of_option_Inr_iff returns split: option.splits)
qed

lemma dapp_apply_returns:
  assumes "wf_comments (pl_comments (db_plugins db))"
  shows "dapp_apply tt op db \<noteq> Inl Does_not_return"
proof (cases op)
  case (Comment_dapp o')
  with comment_dapp_returns [OF assms] show ?thesis by simp
next
  case (Delete_comment_dapp o')
  with delete_comment_returns [OF assms] show ?thesis by simp
qed (auto simp: create_dapp_apply_def update_dapp_key_apply_def join_dapp_apply_def leave_dapp_apply_def
    vote_dapp_apply_def vote_dapp_trx_fee_apply_def comment_vote_dapp_apply_def Let_def returns failure_simps split: option.splits)

text \<open>
  C17: on a table in which the comments form a forest, every dapp operation returns: the loops that count a reply
  at, or remove it from, all the comments above it reach a root comment. When the operation succeeds the comments
  form a forest again, with depths, roots and numbers of descendants that agree with the parents. (Descendants are
  counted in 32 bits, so a comment with replies could look childless once there are \<open>2 ^ 32\<close> comments.)
\<close>

theorem comment_forest:
  assumes "wf_comments (pl_comments (db_plugins db))" "length (tb_rows (pl_comments (db_plugins db))) < 2 ^ 32"
  shows "dapp_apply tt op db \<noteq> Inl Does_not_return
    \<and> (case dapp_apply tt op db of Inl _ \<Rightarrow> True | Inr db' \<Rightarrow> wf_comments (pl_comments (db_plugins db')))"
  using dapp_apply_returns [OF assms(1)] dapp_apply_wf_comments [OF assms] by (auto split: sum.splits)

definition example_comment :: "nat \<Rightarrow> string \<Rightarrow> dapp_comment_object" where
  "example_comment i l = (new_comment i)\<lparr>com_dapp_name := ''chess'', com_author := ''alice'', com_permlink := l, com_root_comment := i\<rparr>"

definition comment_db :: chain_db where
  "comment_db = example_db\<lparr>db_plugins := empty_plugin_db\<lparr>
     pl_dapps := \<lparr>tb_next = 1, tb_rows = [example_dapp 0 ''chess'' APPROVAL]\<rparr>,
     pl_users := \<lparr>tb_next = 1, tb_rows = [example_user 0 0 ''chess'']\<rparr>,
     pl_comments := \<lparr>tb_next = 2, tb_rows = [(example_comment 0 ''opening'')\<lparr>com_children := 1\<rparr>,
        (example_comment 1 ''answer'')\<lparr>com_parent_author := ''alice'', com_parent_permlink := ''opening'', com_depth := 1,
          com_root_comment := 0\<rparr>]\<rparr>\<rparr>\<rparr>"

definition example_reply :: comment_dapp_operation where
  "example_reply = \<lparr>cmt_dapp_name = ''chess'', cmt_parent_author = ''alice'', cmt_parent_permlink = ''answer'', cmt_author = ''alice'',
     cmt_permlink = ''endgame'', cmt_title = [], cmt_body = ''e4'', cmt_json_metadata = []\<rparr>"

definition example_tools :: text_tools where
  "example_tools = \<lparr>tt_checks = accept_text, tt_patch = (\<lambda>_ _. None), tt_prune = (\<lambda>s. s)\<rparr>"

lemmas comment_eval = comment_db_def empty_plugin_db_def example_comment_def new_comment_def example_dapp_def example_user_def
  example_reply_def example_tools_def accept_text_def

lemma comment_db_wf: "wf_comments (pl_comments (db_plugins comment_db))"
  by (simp add: wf_comments_def wf_tree_def parents_older_def no_two_clash_def wf_table_def parent_of_def lineage_def descendants_def
      find_comment_def table_find_def c_str_def comment_clash_def comment_eval)

theorem comment_forest_witness:
  "\<exists>db'. dapp_apply example_tools (Comment_dapp example_reply) comment_db = Inr db'
     \<and> map com_children (tb_rows (pl_comments (db_plugins db'))) = [2, 1, 0]
     \<and> map (descendants (pl_comments (db_plugins db'))) [0, 1, 2] = [2, 1, 0]
     \<and> wf_comments (pl_comments (db_plugins db'))"
proof -
  let ?r = "dapp_apply example_tools (Comment_dapp example_reply) comment_db"
  have two: "count_reply 2 now c t = count_reply (Suc (Suc 0)) now c t" "ancestor_ids 2 t c = ancestor_ids (Suc (Suc 0)) t c" for now c t
    by (simp_all add: numeral_2_eq_2)
  have r: "case ?r of Inl _ \<Rightarrow> False | Inr db' \<Rightarrow> map com_children (tb_rows (pl_comments (db_plugins db'))) = [2, 1, 0]
     \<and> map (descendants (pl_comments (db_plugins db'))) [0, 1, 2] = [2, 1, 0]"
    by (simp add: comment_dapp_apply_def create_comment_def make_comment_def comment_parent_def find_comment_def require_dapp_def find_dapp_def
        find_dapp_user_def fee_payer_def charge_fee_def touch_def note_post_def adjust_dapp_reward_fund_balance_def push_virtual_operation_def
        modify_plugins_def SIGMAENGINE_MAX_COMMENT_DEPTH_def SIGMAENGINE_MIN_REPLY_INTERVAL_def comment_clash_def
        descendants_def lineage_def parent_of_def comment_eval economy_eval two)
  moreover have "length (tb_rows (pl_comments (db_plugins comment_db))) < 2 ^ 32" by (simp add: comment_eval)
  ultimately show ?thesis
    using comment_forest [OF comment_db_wf, of example_tools "Comment_dapp example_reply"] by (cases ?r) auto
qed

section \<open>Commented dapps\<close>

text \<open>A comment belongs to an approved dapp, and approved dapps are never removed.\<close>

definition approved_names :: "dapp_object table \<Rightarrow> string list" where
  "approved_names t = map dap_name (filter (\<lambda>d. dap_state d = APPROVAL) (tb_rows t))"

abbreviation comment_names :: "dapp_comment_object table \<Rightarrow> string list" where
  "comment_names t \<equiv> map com_dapp_name (tb_rows t)"

definition wf_dapps :: "plugin_db \<Rightarrow> bool" where
  "wf_dapps p \<longleftrightarrow> wf_table dap_id (pl_dapps p) \<and> distinct (map dap_name (tb_rows (pl_dapps p)))
     \<and> set (comment_names (pl_comments p)) \<subseteq> set (approved_names (pl_dapps p))"

lemma count_reply_names: "count_reply n now c t = Some (Inr t') \<Longrightarrow> comment_names t' = comment_names t"
  by (induction n now c t rule: count_reply.induct)
    (auto simp: Let_def table_modify_map touch_def split: if_splits option.splits)

lemma uncount_reply_names: "uncount_reply n now c t = Some t' \<Longrightarrow> comment_names t' = comment_names t"
  by (induction n now c t rule: uncount_reply.induct) (auto simp: Let_def table_modify_map touch_def split: if_splits)

lemma comment_dapp_names:
  assumes "comment_dapp_apply tt op db = Inr db'"
  shows "set (comment_names (pl_comments (db_plugins db'))) \<subseteq> insert (cmt_dapp_name op) (set (comment_names (pl_comments (db_plugins db))))
    \<and> pl_dapps (db_plugins db') = pl_dapps (db_plugins db)"
proof -
  from comment_dapp_run [OF assms] obtain frm auth parent d1 where
    d1: "(case find_comment (cmt_dapp_name op) (cmt_author op) (cmt_permlink op) (pl_comments (db_plugins db)) of
            None \<Rightarrow> create_comment tt op auth parent db | Some com \<Rightarrow> edit_comment tt op parent com db) = Inr d1"
    and r: "charge_fee (cmt_dapp_name op) frm (dgp_dapp_transaction_fee (db_dgp db)) d1 = Inr db'"
    by blast
  have "set (comment_names (pl_comments (db_plugins d1))) \<subseteq> insert (cmt_dapp_name op) (set (comment_names (pl_comments (db_plugins db))))
    \<and> pl_dapps (db_plugins d1) = pl_dapps (db_plugins db)"
  proof (cases "find_comment (cmt_dapp_name op) (cmt_author op) (cmt_permlink op) (pl_comments (db_plugins db))")
    case None
    let ?t = "pl_comments (db_plugins db)"
    from d1 None obtain created counted where c: "table_create comment_clash (make_comment tt op parent (head_block_time db)) ?t = Inr created"
      "(case parent of None \<Rightarrow> Inr created
         | Some p \<Rightarrow> (case count_reply (tb_next ?t) (head_block_time db) p created of None \<Rightarrow> Inl Does_not_return | Some r \<Rightarrow> r)) = Inr counted"
      and d: "pl_comments (db_plugins d1) = counted" "pl_dapps (db_plugins d1) = pl_dapps (db_plugins db)"
      by (auto simp: create_comment_def Let_def result_simps modify_plugins_def modify_account_def)
    have "comment_names counted = comment_names created" using c(2) by (auto split: option.splits dest: count_reply_names)
    moreover have "comment_names created = comment_names ?t @ [cmt_dapp_name op]"
      using c(1) by (auto simp: table_create_def Let_def result_simps make_comment_simps)
    ultimately show ?thesis using d by auto
  next
    case (Some com)
    have "com_dapp_name (edit_comment_object tt op now c) = com_dapp_name c" for now c by (simp add: edit_comment_object_def Let_def)
    then have "comment_names (table_modify com_id i (edit_comment_object tt op now) t) = comment_names t" for now i t
      by (rule table_modify_map)
    with d1 Some show ?thesis by (auto simp: edit_comment_def result_simps modify_plugins_def simp del: set_map)
  qed
  with charge_fee_plugins [OF r] show ?thesis by simp
qed

lemma approved_names_modify:
  assumes "\<And>d. dap_name (f d) = dap_name d" "\<And>d. dap_state (f d) = dap_state d"
  shows "approved_names (table_modify dap_id i f t) = approved_names t"
  using assms by (auto simp: approved_names_def table_modify_def modify_where_def filter_map o_def intro!: map_cong filter_cong)

lemma create_dapp_wf_dapps:
  assumes "wf_dapps (db_plugins db)" "create_dapp_apply op db = Inr db'"
  shows "wf_dapps (db_plugins db')"
proof -
  from assms(2) obtain c t users where t: "table_create dapp_clash c (pl_dapps (db_plugins db)) = Inr t" "\<And>i. dap_id (c i) = i"
    "\<And>i. dap_state (c i) = PENDING"
    and db': "db_plugins db' = (db_plugins db)\<lparr>pl_dapps := t, pl_users := users\<rparr>"
    by (auto simp: create_dapp_apply_def Let_def result_simps modify_plugins_def)
  have "wf_table dap_id (pl_dapps (db_plugins db))" using assms(1) by (simp add: wf_dapps_def)
  from wf_table_create [OF this t(1,2)] assms(1) t(3) show ?thesis
    by (auto simp: db' wf_dapps_def approved_names_def dapp_clash_def)
qed

lemma require_dapp_approved: "require_dapp n db = Inr d \<Longrightarrow> dap_state d = APPROVAL \<Longrightarrow> n \<in> set (approved_names (pl_dapps (db_plugins db)))"
  by (auto simp: require_dapp_def find_dapp_def table_find_def approved_names_def result_simps dest!: find_Some_mem)

lemma comment_dapp_approved:
  assumes "comment_dapp_apply tt op db = Inr db'"
  shows "cmt_dapp_name op \<in> set (approved_names (pl_dapps (db_plugins db)))"
  using assms by (simp only: comment_dapp_apply_def Let_def result_simps) (elim exE conjE, rule require_dapp_approved)

lemma delete_comment_names:
  assumes "delete_comment_dapp_apply op db = Inr db'"
  shows "set (comment_names (pl_comments (db_plugins db'))) \<subseteq> set (comment_names (pl_comments (db_plugins db)))
    \<and> pl_dapps (db_plugins db') = pl_dapps (db_plugins db)"
proof -
  let ?t = "pl_comments (db_plugins db)"
  from delete_comment_run [OF assms refl] obtain com counted where
    "find_comment (dcm_dapp_name op) (dcm_author op) (dcm_permlink op) ?t = Some com" "com_children com = 0"
    and c: "(if com_parent_author com \<noteq> [] then (case uncount_reply (tb_next ?t) (head_block_time db)
          (find_comment (com_dapp_name com) (com_parent_author com) (com_parent_permlink com) ?t) ?t of
         None \<Rightarrow> Inl Does_not_return | Some t \<Rightarrow> Inr t) else Inr ?t) = Inr counted"
    and db': "pl_comments (db_plugins db') = table_remove com_id (com_id com) counted" "pl_dapps (db_plugins db') = pl_dapps (db_plugins db)" .
  have "comment_names counted = comment_names ?t"
    using c by (auto split: if_splits option.splits dest: uncount_reply_names)
  moreover have "set (comment_names (pl_comments (db_plugins db'))) \<subseteq> set (comment_names counted)" by (auto simp: db')
  ultimately show ?thesis using db'(2) by simp
qed

lemma dapp_apply_wf_dapps:
  assumes "wf_dapps (db_plugins db)" "dapp_apply tt op db = Inr db'"
  shows "wf_dapps (db_plugins db')"
proof (cases op)
  case (Create_dapp o')
  with assms create_dapp_wf_dapps show ?thesis by simp
next
  case (Update_dapp_key o')
  with assms show ?thesis
    by (auto simp: update_dapp_key_apply_def Let_def result_simps modify_plugins_def wf_dapps_def wf_table_modify table_modify_map
        approved_names_modify simp del: set_map dest!: charge_fee_plugins)
next
  case (Comment_dapp o')
  with assms comment_dapp_names [of tt o' db db'] comment_dapp_approved [of tt o' db db'] show ?thesis
    by (auto simp: wf_dapps_def simp del: set_map)
next
  case (Delete_comment_dapp o')
  with assms delete_comment_names [of o' db db'] show ?thesis by (auto simp: wf_dapps_def simp del: set_map)
next
  case (Comment_vote_dapp o')
  have "comment_names (table_modify com_id i (count_vote ty) t) = comment_names t" for i ty t
    by (rule table_modify_map) (simp add: count_vote_def)
  with Comment_vote_dapp assms show ?thesis
    by (auto simp: comment_vote_dapp_apply_def Let_def result_simps modify_plugins_def wf_dapps_def simp del: set_map dest!: charge_fee_plugins)
qed (use assms in \<open>auto simp: join_dapp_apply_def leave_dapp_apply_def vote_dapp_apply_def vote_dapp_trx_fee_apply_def Let_def
    result_simps modify_plugins_def wf_dapps_def simp del: set_map dest!: charge_fee_plugins\<close>)

lemma aggregated_approved: "dap_state d = APPROVAL \<Longrightarrow> aggregated_state d p = APPROVAL"
  by (simp add: aggregated_state_def)

lemma aggregate_keeps_comments: "pl_comments (foldl (aggregate_dapp now) p ds) = pl_comments p"
proof (induction ds arbitrary: p)
  case (Cons d ds)
  have "pl_comments (aggregate_dapp now p d) = pl_comments p" by (simp add: aggregate_dapp_def Let_def)
  with Cons show ?case by simp
qed simp

lemma aggregate_wf_dapps:
  assumes "wf_dapps (db_plugins db)"
  shows "wf_dapps (db_plugins (aggregate_dapp_approve_vote db))"
proof -
  let ?p = "db_plugins db" and ?now = "head_block_time db"
  let ?ds = "tb_rows (pl_dapps ?p)" and ?q = "foldl (aggregate_dapp ?now) ?p (tb_rows (pl_dapps ?p))"
  let ?keep = "filter (\<lambda>d. aggregated_state d ?p \<noteq> REJECTION) ?ds"
  have w: "distinct (map dap_id ?ds)" "distinct (map dap_name ?ds)" "\<forall>i \<in> set (map dap_id ?ds). i < tb_next (pl_dapps ?p)"
    using assms by (auto simp: wf_dapps_def wf_table_def)
  have rows: "tb_rows (pl_dapps ?q) = map (decided ?now ?p) ?keep" using aggregate_dapps [of ?p "[]" ?ds ?now] w by simp
  have "tb_next (pl_dapps (foldl (aggregate_dapp now) p ds)) = tb_next (pl_dapps p)" for now p ds
  proof (induction ds arbitrary: p)
    case (Cons d ds)
    have "tb_next (pl_dapps (aggregate_dapp now p d)) = tb_next (pl_dapps p)"
      by (simp add: aggregate_dapp_def Let_def table_modify_def table_remove_def)
    with Cons show ?case by simp
  qed simp
  moreover have "map dap_id (map (decided now p) xs) = map dap_id xs" "map dap_name (map (decided now p) xs) = map dap_name xs" for now p xs
    by (auto simp: decided_def)
  moreover have "set (approved_names (pl_dapps ?p)) \<subseteq> set (approved_names (pl_dapps ?q))"
    by (auto simp: approved_names_def rows decided_def aggregated_approved image_iff)
  ultimately show ?thesis
    using assms w unfolding aggregate_dapp_approve_vote_def modify_plugins_def
    by (auto simp: wf_dapps_def wf_table_def rows distinct_map_filter aggregate_keeps_comments simp del: map_map)
qed

lemma dapp_on_apply_block_wf_dapps:
  assumes "wf_dapps (db_plugins db)"
  shows "wf_dapps (db_plugins (fst (dapp_on_apply_block db)))"
proof -
  let ?d = "aggregate_dapp_approve_vote db"
  have "db_plugins d = db_plugins ?d" if "aggregate_trx_fee_vote ?d = Inr d" for d
    using that by (auto simp: aggregate_trx_fee_vote_def Let_def result_simps modify_dgp_def split: if_splits)
  then show ?thesis
    using aggregate_wf_dapps [OF assms] assms
    by (cases "aggregate_trx_fee_vote ?d") (auto simp: dapp_on_apply_block_def Let_def modify_dgp_def)
qed

text \<open>So the dapp that deleting a comment looks up is always there.\<close>

lemma comment_has_dapp:
  assumes "wf_dapps (db_plugins db)" "find_comment n a l (pl_comments (db_plugins db)) = Some c"
  shows "\<exists>d. require_dapp n db = Inr d"
proof -
  have "n \<in> set (approved_names (pl_dapps (db_plugins db)))"
    using assms find_comment_mem [OF assms(2)] by (auto simp: wf_dapps_def)
  then have "find (\<lambda>d. dap_name d = n) (tb_rows (pl_dapps (db_plugins db))) \<noteq> None"
    by (auto simp: approved_names_def find_None_iff)
  then show ?thesis by (auto simp: require_dapp_def find_dapp_def table_find_def)
qed

end
