(* ===== verification/Token.thy ===== *)
theory Token
  imports Dapp
begin

unbundle bit_operations_syntax

text \<open>
  The token plugin: its operations with their validation and required authorities
  (\<^verbatim>\<open>token_operations.hpp\<close>, \<^verbatim>\<open>token_operations.cpp\<close>), the balance adjustments of \<^verbatim>\<open>token_util.hpp\<close>, one
  definition per evaluator of \<^verbatim>\<open>token_evaluators.cpp\<close>, and the payments \<^verbatim>\<open>token_plugin.cpp\<close> makes after
  every block. The interest of a stake is computed in \<^verbatim>\<open>double\<close> and is a parameter.
\<close>

section \<open>Operations\<close>

definition SIGMAENGINE_TOKEN_MAX :: int where "SIGMAENGINE_TOKEN_MAX = 90000000000"
definition SIGMAENGINE_BLOCKCHAIN_PRECISION_DIGITS :: nat where "SIGMAENGINE_BLOCKCHAIN_PRECISION_DIGITS = 6"
definition SIGMAENGINE_STAKING_INTEREST_PRECISION_DIGITS :: nat where "SIGMAENGINE_STAKING_INTEREST_PRECISION_DIGITS = 3"
definition SIGMAENGINE_STAKING_INTEREST_PRECISION :: int where "SIGMAENGINE_STAKING_INTEREST_PRECISION = 1000"
definition SIGMAENGINE_TRANSFER_SAVINGS_MIN_MONTH :: "8 word" where "SIGMAENGINE_TRANSFER_SAVINGS_MIN_MONTH = 1"
definition SIGMAENGINE_TRANSFER_SAVINGS_MAX_MONTH :: "8 word" where "SIGMAENGINE_TRANSFER_SAVINGS_MAX_MONTH = 24"

record create_token_operation =
  ctk_name :: string
  ctk_symbol_name :: string
  ctk_publisher :: account_name_type
  ctk_dapp_key :: public_key_type
  ctk_dapp_name :: string
  ctk_init_supply_amount :: int

record issue_token_operation =
  itk_name :: string
  itk_publisher :: account_name_type
  itk_dapp_key :: public_key_type
  itk_reissue_amount :: asset

record transfer_token_operation =
  ttk_from :: account_name_type
  ttk_to :: account_name_type
  ttk_amount :: asset
  ttk_memo :: string

record burn_token_operation =
  btk_account :: account_name_type
  btk_amount :: asset

record setup_token_fund_operation =
  stf_token_publisher :: account_name_type
  stf_token :: string
  stf_fund_name :: string
  stf_init_fund_balance :: asset

record set_token_staking_interest_operation =
  sti_token_publisher :: account_name_type
  sti_token :: string
  sti_month :: "8 word"
  sti_percent_interest_rate :: string

record transfer_token_fund_operation =
  ttf_from :: account_name_type
  ttf_token :: string
  ttf_fund_name :: string
  ttf_amount :: asset
  ttf_memo :: string

record staking_token_fund_operation =
  skf_from :: account_name_type
  skf_token :: string
  skf_fund_name :: string
  skf_request_id :: nat
  skf_amount :: asset
  skf_memo :: string
  skf_month :: "8 word"

record transfer_token_savings_operation =
  tts_token :: string
  tts_from :: account_name_type
  tts_to :: account_name_type
  tts_request_id :: nat
  tts_amount :: asset
  tts_split_pay_month :: "8 word"
  tts_memo :: string
  tts_next_date :: time_point_sec

record cancel_transfer_token_savings_operation =
  cts_token :: string
  cts_from :: account_name_type
  cts_to :: account_name_type
  cts_request_id :: nat

record conclude_transfer_token_savings_operation =
  dts_token :: string
  dts_from :: account_name_type
  dts_to :: account_name_type
  dts_request_id :: nat

datatype (plugins only: code) token_operation =
    Create_token create_token_operation
  | Issue_token issue_token_operation
  | Transfer_token transfer_token_operation
  | Burn_token burn_token_operation
  | Setup_token_fund setup_token_fund_operation
  | Set_token_staking_interest set_token_staking_interest_operation
  | Transfer_token_fund transfer_token_fund_operation
  | Staking_token_fund staking_token_fund_operation
  | Transfer_token_savings transfer_token_savings_operation
  | Cancel_transfer_token_savings cancel_transfer_token_savings_operation
  | Conclude_transfer_token_savings conclude_transfer_token_savings_operation

section \<open>Validation\<close>

text \<open>\<^verbatim>\<open>boost::to_lower_copy\<close> and \<^verbatim>\<open>to_upper_copy\<close> in the classic locale change ASCII letters only.\<close>

definition to_lower_char :: "char \<Rightarrow> char" where
  "to_lower_char c = (if CHR ''A'' \<le> c \<and> c \<le> CHR ''Z'' then char_of (of_char c + 32 :: nat) else c)"

definition to_upper_char :: "char \<Rightarrow> char" where
  "to_upper_char c = (if CHR ''a'' \<le> c \<and> c \<le> CHR ''z'' then char_of (of_char c - 32 :: nat) else c)"

definition create_token_validate :: "create_token_operation \<Rightarrow> unit result" where
  "create_token_validate o' =
     fc_assert (length (name_string (ctk_name o')) > 0) Empty_field (
     validate_account_name (ctk_publisher o') (
     fc_assert (length (short_name_string (ctk_dapp_name o')) > 0) Empty_field (
     fc_assert (length (ctk_symbol_name o') > 0 \<and> length (ctk_symbol_name o') < 8) Invalid_symbol (
     fc_assert (map to_lower_char (name_string (ctk_name o')) \<noteq> ''sigmaengine'') Unnamed_assertion (
     fc_assert (map to_lower_char (name_string (ctk_name o')) \<noteq> ''snac'') Unnamed_assertion (
     fc_assert (ctk_init_supply_amount o' \<ge> 0) Out_of_range (
     fc_assert (ctk_init_supply_amount o' \<le> SIGMAENGINE_TOKEN_MAX) Out_of_range (Inr ()))))))))"

definition issue_token_validate :: "issue_token_operation \<Rightarrow> unit result" where
  "issue_token_validate o' =
     fc_assert (length (name_string (itk_name o')) > 0) Empty_field (
     validate_account_name (itk_publisher o') (
     fc_assert (amount (itk_reissue_amount o') > 0) Non_positive_amount (Inr ())))"

definition transfer_token_validate :: "text_checks \<Rightarrow> transfer_token_operation \<Rightarrow> unit result" where
  "transfer_token_validate tc o' =
     validate_account_name (ttk_from o') (
     validate_account_name (ttk_to o') (
     fc_assert (amount (ttk_amount o') \<ge> 0) Non_positive_amount (
     validate_memo tc (ttk_memo o'))))"

definition burn_token_validate :: "burn_token_operation \<Rightarrow> unit result" where
  "burn_token_validate o' =
     validate_account_name (btk_account o') (
     fc_assert (amount (btk_amount o') \<ge> 0) Non_positive_amount (Inr ()))"

definition setup_token_fund_validate :: "setup_token_fund_operation \<Rightarrow> unit result" where
  "setup_token_fund_validate o' =
     validate_account_name (stf_token_publisher o') (
     fc_assert (length (name_string (stf_token o')) > 0) Empty_field (
     fc_assert (length (short_name_string (stf_fund_name o')) > 0) Empty_field (
     fc_assert (amount (stf_init_fund_balance o') \<ge> 0) Non_positive_amount (Inr ()))))"

definition set_token_staking_interest_validate :: "set_token_staking_interest_operation \<Rightarrow> unit result" where
  "set_token_staking_interest_validate o' =
     validate_account_name (sti_token_publisher o') (
     fc_assert (length (name_string (sti_token o')) > 0) Empty_field (
     fc_assert (sti_month o' > 0) Out_of_range (
     fc_assert (length (sti_percent_interest_rate o') > 0) Empty_field (
     case find_char (CHR ''.'') (sti_percent_interest_rate o') of
       None \<Rightarrow> Inr ()
     | Some dot_pos \<Rightarrow>
         (let lower_decimal = length (drop dot_pos (sti_percent_interest_rate o'))
          in fc_assert (lower_decimal \<ge> 0 \<and> lower_decimal \<le> SIGMAENGINE_STAKING_INTEREST_PRECISION_DIGITS) Out_of_range (Inr ()))))))"

definition transfer_token_fund_validate :: "text_checks \<Rightarrow> transfer_token_fund_operation \<Rightarrow> unit result" where
  "transfer_token_fund_validate tc o' =
     validate_account_name (ttf_from o') (
     fc_assert (length (name_string (ttf_token o')) > 0) Empty_field (
     fc_assert (amount (ttf_amount o') \<ge> 0) Non_positive_amount (
     validate_memo tc (ttf_memo o'))))"

definition staking_token_fund_validate :: "text_checks \<Rightarrow> staking_token_fund_operation \<Rightarrow> unit result" where
  "staking_token_fund_validate tc o' =
     validate_account_name (skf_from o') (
     fc_assert (length (name_string (skf_token o')) > 0) Empty_field (
     fc_assert (length (short_name_string (skf_fund_name o')) > 0) Empty_field (
     fc_assert (skf_request_id o' \<ge> 0) Unnamed_assertion (
     fc_assert (amount (skf_amount o') \<ge> 0) Non_positive_amount (
     fc_assert (skf_month o' > 0) Out_of_range (
     validate_memo tc (skf_memo o')))))))"

definition transfer_token_savings_validate :: "text_checks \<Rightarrow> transfer_token_savings_operation \<Rightarrow> unit result" where
  "transfer_token_savings_validate tc o' =
     validate_account_name (tts_from o') (
     validate_account_name (tts_to o') (
     fc_assert (length (name_string (tts_token o')) > 0) Empty_field (
     fc_assert (amount (tts_amount o') > 0) Non_positive_amount (
     fc_assert (tts_split_pay_month o' \<ge> SIGMAENGINE_TRANSFER_SAVINGS_MIN_MONTH
        \<and> tts_split_pay_month o' \<le> SIGMAENGINE_TRANSFER_SAVINGS_MAX_MONTH) Out_of_range (
     fc_assert (tts_request_id o' \<ge> 0) Unnamed_assertion (
     validate_memo tc (tts_memo o')))))))"

definition cancel_transfer_token_savings_validate :: "cancel_transfer_token_savings_operation \<Rightarrow> unit result" where
  "cancel_transfer_token_savings_validate o' = validate_account_name (cts_from o') (Inr ())"

definition conclude_transfer_token_savings_validate :: "conclude_transfer_token_savings_operation \<Rightarrow> unit result" where
  "conclude_transfer_token_savings_validate o' = validate_account_name (dts_from o') (Inr ())"

fun token_operation_validate :: "text_checks \<Rightarrow> token_operation \<Rightarrow> unit result" where
  "token_operation_validate tc (Create_token o') = create_token_validate o'"
| "token_operation_validate tc (Issue_token o') = issue_token_validate o'"
| "token_operation_validate tc (Transfer_token o') = transfer_token_validate tc o'"
| "token_operation_validate tc (Burn_token o') = burn_token_validate o'"
| "token_operation_validate tc (Setup_token_fund o') = setup_token_fund_validate o'"
| "token_operation_validate tc (Set_token_staking_interest o') = set_token_staking_interest_validate o'"
| "token_operation_validate tc (Transfer_token_fund o') = transfer_token_fund_validate tc o'"
| "token_operation_validate tc (Staking_token_fund o') = staking_token_fund_validate tc o'"
| "token_operation_validate tc (Transfer_token_savings o') = transfer_token_savings_validate tc o'"
| "token_operation_validate tc (Cancel_transfer_token_savings o') = cancel_transfer_token_savings_validate o'"
| "token_operation_validate tc (Conclude_transfer_token_savings o') = conclude_transfer_token_savings_validate o'"

text \<open>Creating and issuing a token needs the dapp's key: an authority of threshold one with that key at weight one.\<close>

definition key_authority :: "public_key_type \<Rightarrow> authority" where
  "key_authority key = add_key_authority key 1 (empty_authority\<lparr>weight_threshold := 1\<rparr>)"

fun token_required_authorities :: "token_operation \<Rightarrow> required_authorities \<Rightarrow> required_authorities" where
  "token_required_authorities (Create_token o') r = need_other [key_authority (ctk_dapp_key o')] r"
| "token_required_authorities (Issue_token o') r = need_other [key_authority (itk_dapp_key o')] r"
| "token_required_authorities (Transfer_token o') r = need_active [ttk_from o'] r"
| "token_required_authorities (Burn_token o') r = need_active [btk_account o'] r"
| "token_required_authorities (Setup_token_fund o') r = need_active [stf_token_publisher o'] r"
| "token_required_authorities (Set_token_staking_interest o') r = need_active [sti_token_publisher o'] r"
| "token_required_authorities (Transfer_token_fund o') r = need_active [ttf_from o'] r"
| "token_required_authorities (Staking_token_fund o') r = need_active [skf_from o'] r"
| "token_required_authorities (Transfer_token_savings o') r = need_active [tts_from o'] r"
| "token_required_authorities (Cancel_transfer_token_savings o') r = need_active [cts_from o'] r"
| "token_required_authorities (Conclude_transfer_token_savings o') r = need_active [dts_from o'] r"

section \<open>Balances of tokens\<close>

definition find_token :: "string \<Rightarrow> chain_db \<Rightarrow> token_object option" where
  "find_token name db = table_find (\<lambda>k. tkn_name k = name) (pl_tokens (db_plugins db))"

definition find_token_by_symbol :: "asset_symbol_type \<Rightarrow> chain_db \<Rightarrow> token_object option" where
  "find_token_by_symbol sy db = table_find (\<lambda>k. tkn_symbol k = sy) (pl_tokens (db_plugins db))"

definition find_token_balance :: "account_name_type \<Rightarrow> string \<Rightarrow> chain_db \<Rightarrow> token_balance_object option" where
  "find_token_balance account token db = table_find (\<lambda>b. tbl_account b = account \<and> tbl_token b = token) (pl_balances (db_plugins db))"

definition find_token_fund :: "string \<Rightarrow> string \<Rightarrow> chain_db \<Rightarrow> token_fund_object option" where
  "find_token_fund token fund db = table_find (\<lambda>f. tfn_token f = token \<and> tfn_fund_name f = fund) (pl_funds (db_plugins db))"

definition set_balances :: "token_balance_object table \<Rightarrow> chain_db \<Rightarrow> chain_db" where
  "set_balances t = modify_plugins (\<lambda>p. p\<lparr>pl_balances := t\<rparr>)"

text \<open>\<^verbatim>\<open>FC_ASSERT( delta.amount >= 0 || balance >= -delta )\<close>.\<close>

definition covers :: "asset \<Rightarrow> asset \<Rightarrow> unit result" where
  "covers balance delta =
     (if amount delta \<ge> 0 then Inr () else bindR (asset_neg delta) (\<lambda>minus. require_ge balance minus))"

definition adjust_token_fund_balance :: "string \<Rightarrow> string \<Rightarrow> asset \<Rightarrow> asset \<Rightarrow> chain_db \<Rightarrow> chain_db result" where
  "adjust_token_fund_balance token fund delta withdraw_delta db =
     bindR (of_option (Assert_exception Unknown_token_fund) (find_token_fund token fund db)) (\<lambda>f.
     fc_assert (symbol (tfn_balance f) = symbol delta) Symbol_mismatch (
     bindR (covers (tfn_balance f) delta) (\<lambda>_.
     bindR (covers (tfn_withdraw_balance f) withdraw_delta) (\<lambda>_.
     bindR (asset_add (tfn_balance f) delta) (\<lambda>balance.
     bindR (asset_add (tfn_withdraw_balance f) withdraw_delta) (\<lambda>withdraw_balance.
     Inr (modify_plugins (\<lambda>p. p\<lparr>pl_funds := table_modify tfn_id (tfn_id f) (\<lambda>obj. obj\<lparr>tfn_balance := balance,
       tfn_withdraw_balance := withdraw_balance, tfn_last_updated := head_block_time db\<rparr>) (pl_funds p)\<rparr>) db)))))))"

definition adjust_token_balance :: "account_name_type \<Rightarrow> string \<Rightarrow> asset \<Rightarrow> chain_db \<Rightarrow> chain_db result" where
  "adjust_token_balance account token delta db =
     (let t = pl_balances (db_plugins db); now = head_block_time db in
     fc_assert (find_account account db \<noteq> None) Unknown_account (
     if amount delta < 0 then
       bindR (of_option (Assert_exception No_token_balance) (find_token_balance account token db)) (\<lambda>b.
       fc_assert (symbol (tbl_balance b) = symbol delta) Symbol_mismatch (
       bindR (asset_neg delta) (\<lambda>minus.
       if amount (tbl_savings_balance b) = 0 \<and> tbl_balance b = minus then
         Inr (set_balances (table_remove tbl_id (tbl_id b) t) db)
       else
         bindR (require_ge (tbl_balance b) minus) (\<lambda>_.
         bindR (asset_add (tbl_balance b) delta) (\<lambda>v.
         Inr (set_balances (table_modify tbl_id (tbl_id b) (\<lambda>obj. obj\<lparr>tbl_balance := v, tbl_last_updated := now\<rparr>) t) db))))))
     else
       (case find_token_balance account token db of
          None \<Rightarrow>
            bindR (table_create token_balance_clash (\<lambda>i. \<lparr>tbl_id = i, tbl_account = account, tbl_token = token, tbl_balance = delta,
              tbl_savings_balance = \<lparr>amount = 0, symbol = symbol delta\<rparr>, tbl_last_updated = now\<rparr>) t) (\<lambda>t.
            Inr (set_balances t db))
        | Some b \<Rightarrow>
            fc_assert (symbol (tbl_balance b) = symbol delta) Symbol_mismatch (
            bindR (asset_add (tbl_balance b) delta) (\<lambda>v.
            Inr (set_balances (table_modify tbl_id (tbl_id b) (\<lambda>obj. obj\<lparr>tbl_balance := v, tbl_last_updated := now\<rparr>) t) db))))))"

definition adjust_token_savings_balance :: "account_name_type \<Rightarrow> string \<Rightarrow> asset \<Rightarrow> chain_db \<Rightarrow> chain_db result" where
  "adjust_token_savings_balance account token delta db =
     (let t = pl_balances (db_plugins db); now = head_block_time db in
     fc_assert (find_account account db \<noteq> None) Unknown_account (
     if amount delta < 0 then
       bindR (of_option (Assert_exception No_token_balance) (find_token_balance account token db)) (\<lambda>b.
       fc_assert (symbol (tbl_savings_balance b) = symbol delta) Symbol_mismatch (
       bindR (asset_neg delta) (\<lambda>minus.
       if amount (tbl_balance b) = 0 \<and> tbl_savings_balance b = minus then
         Inr (set_balances (table_remove tbl_id (tbl_id b) t) db)
       else
         bindR (require_ge (tbl_savings_balance b) minus) (\<lambda>_.
         bindR (asset_add (tbl_savings_balance b) delta) (\<lambda>v.
         Inr (set_balances (table_modify tbl_id (tbl_id b) (\<lambda>obj. obj\<lparr>tbl_savings_balance := v, tbl_last_updated := now\<rparr>) t) db))))))
     else
       (case find_token_balance account token db of
          None \<Rightarrow>
            bindR (table_create token_balance_clash (\<lambda>i. \<lparr>tbl_id = i, tbl_account = account, tbl_token = token,
              tbl_balance = \<lparr>amount = 0, symbol = symbol delta\<rparr>, tbl_savings_balance = delta, tbl_last_updated = now\<rparr>) t) (\<lambda>t.
            Inr (set_balances t db))
        | Some b \<Rightarrow>
            fc_assert (symbol (tbl_savings_balance b) = symbol delta) Symbol_mismatch (
            bindR (asset_add (tbl_savings_balance b) delta) (\<lambda>v.
            Inr (set_balances (table_modify tbl_id (tbl_id b) (\<lambda>obj. obj\<lparr>tbl_savings_balance := v, tbl_last_updated := now\<rparr>) t) db))))))"

section \<open>Creating, issuing, moving and burning tokens\<close>

record token_tools =
  tk_checks :: text_checks
  tk_interest :: "int \<Rightarrow> 64 word \<Rightarrow> int"

text \<open>A \<^verbatim>\<open>char\<close> is signed: widening it to \<^verbatim>\<open>uint64_t\<close> fills the upper bytes of a byte above 127 with ones.\<close>

definition widen_char :: "char \<Rightarrow> 64 word" where
  "widen_char c = (if (of_char c :: nat) < 128 then of_nat (of_char c) else of_int (int (of_char c) - 256))"

fun symbol_bits :: "nat \<Rightarrow> string \<Rightarrow> 64 word \<Rightarrow> 64 word" where
  "symbol_bits i [] s = s"
| "symbol_bits i (ch # cs) s = symbol_bits (i + 1) cs (s OR push_bit ((i + 1) * 8) (widen_char ch))"

definition token_symbol :: "string \<Rightarrow> asset_symbol_type" where
  "token_symbol upper_symbol = unat (symbol_bits 0 upper_symbol (of_nat SIGMAENGINE_BLOCKCHAIN_PRECISION_DIGITS))"

definition require_token :: "string \<Rightarrow> chain_db \<Rightarrow> token_object result" where
  "require_token name db = of_option (Assert_exception Unknown_token) (find_token name db)"

text \<open>What the publisher has of a token is replaced by the initial supply when the token is created.\<close>

definition init_publisher_balance :: "account_name_type \<Rightarrow> string \<Rightarrow> asset \<Rightarrow> chain_db \<Rightarrow> chain_db result" where
  "init_publisher_balance publisher name init_supply db =
     (let t = pl_balances (db_plugins db); now = head_block_time db in
      case find_token_balance publisher name db of
        None \<Rightarrow>
          bindR (table_create token_balance_clash (\<lambda>i. \<lparr>tbl_id = i, tbl_account = publisher, tbl_token = name, tbl_balance = init_supply,
            tbl_savings_balance = \<lparr>amount = 0, symbol = symbol init_supply\<rparr>, tbl_last_updated = now\<rparr>) t) (\<lambda>t.
          Inr (set_balances t db))
      | Some b \<Rightarrow>
          Inr (set_balances (table_modify tbl_id (tbl_id b) (\<lambda>obj. obj\<lparr>tbl_balance := init_supply, tbl_last_updated := now\<rparr>) t) db))"

definition create_token_apply :: "create_token_operation \<Rightarrow> chain_db \<Rightarrow> chain_db result" where
  "create_token_apply op db =
     bindR (require_dapp (ctk_dapp_name op) db) (\<lambda>dapp.
     fc_assert (dap_owner dapp = ctk_publisher op) Not_dapp_owner (
     fc_assert (dap_key dapp = ctk_dapp_key op) Wrong_dapp_key (
     fc_assert (dap_state dapp = APPROVAL) Wrong_dapp_state (
     let fee = dgp_dapp_transaction_fee (db_dgp db); tokens = pl_tokens (db_plugins db) in
     bindR (fee_payer (dap_owner dapp) fee db) (\<lambda>from_account.
     fc_assert (\<not> list_ex (\<lambda>k. tkn_dapp_name k = ctk_dapp_name op) (tb_rows tokens)) Token_exists (
     fc_assert (find_token (ctk_name op) db = None) Token_exists (
     let upper_symbol = map to_upper_char (ctk_symbol_name op); sy = token_symbol upper_symbol in
     bindR (symbol_name (acc_balance from_account)) (\<lambda>core.
     fc_assert (upper_symbol \<noteq> core) Invalid_symbol (
     bindR (foldR (\<lambda>_ k. bindR (symbol_name (tkn_init_supply k)) (\<lambda>used. fc_assert (used \<noteq> upper_symbol) Token_exists (Inr ())))
              () (sort_key tkn_symbol (tb_rows tokens))) (\<lambda>_.
     bindR (precision \<lparr>amount = 0, symbol = sy\<rparr>) (\<lambda>prec.
     let init_supply = \<lparr>amount = wrap64 (ctk_init_supply_amount op * prec), symbol = sy\<rparr>; now = head_block_time db in
     bindR (table_create token_clash (\<lambda>i. \<lparr>tkn_id = i, tkn_name = ctk_name op, tkn_symbol = sy, tkn_publisher = ctk_publisher op,
              tkn_dapp_name = ctk_dapp_name op, tkn_init_supply = init_supply, tkn_total_balance = init_supply,
              tkn_created = now, tkn_last_updated = now\<rparr>) tokens) (\<lambda>tokens.
     bindR (init_publisher_balance (ctk_publisher op) (ctk_name op) init_supply (modify_plugins (\<lambda>p. p\<lparr>pl_tokens := tokens\<rparr>) db)) (\<lambda>db.
     charge_fee (ctk_dapp_name op) from_account fee db)))))))))))))"

text \<open>Issuing adds to what the publisher has; an absent balance is created.\<close>

definition add_publisher_balance :: "account_name_type \<Rightarrow> string \<Rightarrow> asset \<Rightarrow> chain_db \<Rightarrow> chain_db result" where
  "add_publisher_balance publisher name delta db =
     (let t = pl_balances (db_plugins db); now = head_block_time db in
      case find_token_balance publisher name db of
        None \<Rightarrow>
          bindR (table_create token_balance_clash (\<lambda>i. \<lparr>tbl_id = i, tbl_account = publisher, tbl_token = name, tbl_balance = delta,
            tbl_savings_balance = \<lparr>amount = 0, symbol = symbol delta\<rparr>, tbl_last_updated = now\<rparr>) t) (\<lambda>t.
          Inr (set_balances t db))
      | Some b \<Rightarrow>
          bindR (asset_add (tbl_balance b) delta) (\<lambda>v.
          Inr (set_balances (table_modify tbl_id (tbl_id b) (\<lambda>obj. obj\<lparr>tbl_balance := v, tbl_last_updated := now\<rparr>) t) db)))"

definition modify_token :: "nat \<Rightarrow> (token_object \<Rightarrow> token_object) \<Rightarrow> chain_db \<Rightarrow> chain_db" where
  "modify_token i f = modify_plugins (\<lambda>p. p\<lparr>pl_tokens := table_modify tkn_id i f (pl_tokens p)\<rparr>)"

definition issue_token_apply :: "issue_token_operation \<Rightarrow> chain_db \<Rightarrow> chain_db result" where
  "issue_token_apply op db =
     bindR (require_token (itk_name op) db) (\<lambda>token.
     bindR (require_dapp (tkn_dapp_name token) db) (\<lambda>dapp.
     fc_assert (dap_owner dapp = itk_publisher op) Not_dapp_owner (
     fc_assert (dap_key dapp = itk_dapp_key op) Wrong_dapp_key (
     let fee = dgp_dapp_transaction_fee (db_dgp db) in
     bindR (fee_payer (dap_owner dapp) fee db) (\<lambda>from_account.
     fc_assert (tkn_symbol token = symbol (itk_reissue_amount op)) Symbol_mismatch (
     bindR (precision (itk_reissue_amount op)) (\<lambda>prec.
     let max_token = \<lparr>amount = wrap64 (SIGMAENGINE_TOKEN_MAX * prec), symbol = symbol (itk_reissue_amount op)\<rparr> in
     bindR (asset_add (itk_reissue_amount op) (tkn_total_balance token)) (\<lambda>total_balance.
     bindR (asset_le total_balance max_token) (\<lambda>fits.
     fc_assert fits Token_limit (
     bindR (asset_add (tkn_total_balance token) (itk_reissue_amount op)) (\<lambda>total.
     bindR (add_publisher_balance (itk_publisher op) (itk_name op) (itk_reissue_amount op)
              (modify_token (tkn_id token) (\<lambda>k. k\<lparr>tkn_total_balance := total, tkn_last_updated := head_block_time db\<rparr>) db)) (\<lambda>db.
     charge_fee (dap_name dapp) from_account fee db))))))))))))"

definition transfer_token_apply :: "transfer_token_operation \<Rightarrow> chain_db \<Rightarrow> chain_db result" where
  "transfer_token_apply op db =
     bindR (of_option (Assert_exception Unknown_token) (find_token_by_symbol (symbol (ttk_amount op)) db)) (\<lambda>token.
     let fee = dgp_dapp_transaction_fee (db_dgp db) in
     bindR (fee_payer (tkn_publisher token) fee db) (\<lambda>from_account.
     bindR (asset_neg (ttk_amount op)) (\<lambda>minus.
     bindR (adjust_token_balance (ttk_from op) (tkn_name token) minus db) (\<lambda>db.
     bindR (adjust_token_balance (ttk_to op) (tkn_name token) (ttk_amount op) db) (\<lambda>db.
     charge_fee (tkn_dapp_name token) from_account fee db)))))"

definition burn_token_apply :: "burn_token_operation \<Rightarrow> chain_db \<Rightarrow> chain_db result" where
  "burn_token_apply op db =
     bindR (of_option (Assert_exception Unknown_token) (find_token_by_symbol (symbol (btk_amount op)) db)) (\<lambda>token.
     bindR (require_dapp (tkn_dapp_name token) db) (\<lambda>dapp.
     fc_assert (dap_owner dapp = btk_account op) Not_dapp_owner (
     let fee = dgp_dapp_transaction_fee (db_dgp db) in
     bindR (fee_payer (dap_owner dapp) fee db) (\<lambda>from_account.
     bindR (asset_neg (btk_amount op)) (\<lambda>minus.
     bindR (adjust_token_balance (btk_account op) (tkn_name token) minus db) (\<lambda>db.
     bindR (asset_sub (tkn_total_balance token) (btk_amount op)) (\<lambda>total.
     charge_fee (tkn_dapp_name token) from_account fee
       (modify_token (tkn_id token) (\<lambda>k. k\<lparr>tkn_total_balance := total\<rparr>) db))))))))"

section \<open>Funds and stakes\<close>

definition require_published :: "string \<Rightarrow> account_name_type \<Rightarrow> chain_db \<Rightarrow> token_object result" where
  "require_published name publisher db =
     bindR (require_token name db) (\<lambda>token.
     fc_assert (tkn_publisher token = publisher) Not_token_publisher (Inr token))"

text \<open>A fund that exists already is left as it is, also when the publisher has just paid for it.\<close>

definition setup_token_fund_apply :: "setup_token_fund_operation \<Rightarrow> chain_db \<Rightarrow> chain_db result" where
  "setup_token_fund_apply op db =
     bindR (require_published (stf_token op) (stf_token_publisher op) db) (\<lambda>token.
     fc_assert (tkn_symbol token = symbol (stf_init_fund_balance op)) Symbol_mismatch (
     let fee = dgp_dapp_transaction_fee (db_dgp db); now = head_block_time db; fund = find_token_fund (stf_token op) (stf_fund_name op) db in
     bindR (fee_payer (tkn_publisher token) fee db) (\<lambda>from_account.
     bindR (if amount (stf_init_fund_balance op) > 0 then
              bindR (asset_neg (stf_init_fund_balance op)) (\<lambda>minus.
              adjust_token_balance (stf_token_publisher op) (tkn_name token) minus db)
            else Inr db) (\<lambda>db.
     bindR (case fund of
              None \<Rightarrow>
                bindR (table_create token_fund_clash (\<lambda>i. \<lparr>tfn_id = i, tfn_token = stf_token op, tfn_fund_name = stf_fund_name op,
                  tfn_balance = stf_init_fund_balance op, tfn_withdraw_balance = \<lparr>amount = 0, symbol = tkn_symbol token\<rparr>,
                  tfn_created = now, tfn_last_updated = now\<rparr>) (pl_funds (db_plugins db))) (\<lambda>funds.
                Inr (modify_plugins (\<lambda>p. p\<lparr>pl_funds := funds\<rparr>) db))
            | Some _ \<Rightarrow> Inr db) (\<lambda>db.
     charge_fee (tkn_dapp_name token) from_account fee db)))))"

text \<open>
  The rate is read digit by digit into thousandths of a percent. The fraction is padded to three digits unless
  it is empty: \<^verbatim>\<open>size() - 1\<close> is then the largest \<^verbatim>\<open>size_t\<close>.
\<close>

definition parse_interest_rate :: "string \<Rightarrow> int result" where
  "parse_interest_rate rate =
     (let precision = SIGMAENGINE_STAKING_INTEREST_PRECISION; digits = SIGMAENGINE_STAKING_INTEREST_PRECISION_DIGITS in
      case find_char (CHR ''.'') rate of
        Some dot_pos \<Rightarrow>
          (let intpart = take dot_pos rate;
               temp_frac = drop (dot_pos + 1) rate;
               temp_frac = (if temp_frac \<noteq> [] \<and> length temp_frac - 1 < digits
                            then temp_frac @ replicate (digits - length temp_frac) (CHR ''0'') else temp_frac);
               fracpart = CHR ''1'' # temp_frac
           in bindR (to_int64 intpart) (\<lambda>i.
              bindR (to_int64 fracpart) (\<lambda>f.
              Inr (wrap64 (wrap64 (wrap64 (i * precision) + f) - precision)))))
      | None \<Rightarrow> bindR (to_int64 rate) (\<lambda>i. Inr (wrap64 (i * precision))))"

definition set_token_staking_interest_apply :: "set_token_staking_interest_operation \<Rightarrow> chain_db \<Rightarrow> chain_db result" where
  "set_token_staking_interest_apply op db =
     bindR (require_published (sti_token op) (sti_token_publisher op) db) (\<lambda>token.
     let fee = dgp_dapp_transaction_fee (db_dgp db); now = head_block_time db; t = pl_interests (db_plugins db) in
     bindR (fee_payer (tkn_publisher token) fee db) (\<lambda>from_account.
     bindR (parse_interest_rate (sti_percent_interest_rate op)) (\<lambda>rate.
     let found = table_find (\<lambda>r. tsi_token r = sti_token op \<and> tsi_month r = sti_month op) t in
     bindR (if rate = - SIGMAENGINE_STAKING_INTEREST_PRECISION then
              bindR (of_option (Assert_exception No_interest_rate) found) (\<lambda>r. Inr (table_remove tsi_id (tsi_id r) t))
            else
              fc_assert (rate \<ge> 0) Out_of_range (
              case found of
                None \<Rightarrow> table_create token_interest_clash (\<lambda>i. \<lparr>tsi_id = i, tsi_token = sti_token op, tsi_month = sti_month op,
                  tsi_percent_interest_rate = of_int rate, tsi_created = now, tsi_last_updated = now\<rparr>) t
              | Some r \<Rightarrow> Inr (table_modify tsi_id (tsi_id r)
                  (\<lambda>r. r\<lparr>tsi_percent_interest_rate := of_int rate, tsi_last_updated := now\<rparr>) t))) (\<lambda>t.
     charge_fee (tkn_dapp_name token) from_account fee (modify_plugins (\<lambda>p. p\<lparr>pl_interests := t\<rparr>) db)))))"

definition transfer_token_fund_apply :: "transfer_token_fund_operation \<Rightarrow> chain_db \<Rightarrow> chain_db result" where
  "transfer_token_fund_apply op db =
     bindR (require_published (ttf_token op) (ttf_from op) db) (\<lambda>token.
     let fee = dgp_dapp_transaction_fee (db_dgp db) in
     bindR (fee_payer (tkn_publisher token) fee db) (\<lambda>from_account.
     bindR (asset_neg (ttf_amount op)) (\<lambda>minus.
     bindR (adjust_token_balance (ttf_from op) (ttf_token op) minus db) (\<lambda>db.
     bindR (adjust_token_fund_balance (ttf_token op) (ttf_fund_name op) (ttf_amount op) \<lparr>amount = 0, symbol = symbol (ttf_amount op)\<rparr> db) (\<lambda>db.
     charge_fee (tkn_dapp_name token) from_account fee db)))))"

definition staking_token_fund_apply :: "token_tools \<Rightarrow> staking_token_fund_operation \<Rightarrow> chain_db \<Rightarrow> chain_db result" where
  "staking_token_fund_apply tk op db =
     bindR (require_token (skf_token op) db) (\<lambda>token.
     let fee = dgp_dapp_transaction_fee (db_dgp db); p = db_plugins db; now = head_block_time db in
     bindR (fee_payer (tkn_publisher token) fee db) (\<lambda>from_account.
     fc_assert (table_find (\<lambda>w. tfw_from w = skf_from op \<and> tfw_token w = skf_token op \<and> tfw_fund_name w = skf_fund_name op
        \<and> tfw_request_id w = skf_request_id op) (pl_fund_withdraws p) = None) Request_id_in_use (
     bindR (of_option (Assert_exception No_interest_rate)
              (table_find (\<lambda>r. tsi_token r = skf_token op \<and> tsi_month r = skf_month op) (pl_interests p))) (\<lambda>interest.
     let temp_amount = tk_interest tk (amount (skf_amount op)) (tsi_percent_interest_rate interest) in
     bindR (asset_add (skf_amount op) \<lparr>amount = temp_amount, symbol = tkn_symbol token\<rparr>) (\<lambda>total.
     bindR (asset_neg (skf_amount op)) (\<lambda>minus.
     bindR (adjust_token_balance (skf_from op) (tkn_name token) minus db) (\<lambda>db.
     bindR (adjust_token_fund_balance (skf_token op) (skf_fund_name op) (skf_amount op) total db) (\<lambda>db.
     bindR (table_create token_fund_withdraw_clash (\<lambda>i. \<lparr>tfw_id = i, tfw_from = skf_from op, tfw_token = skf_token op,
              tfw_fund_name = skf_fund_name op, tfw_memo = skf_memo op, tfw_request_id = skf_request_id op, tfw_amount = total,
              tfw_complete = time_add now (days_sec (30 * unat (skf_month op))), tfw_created = now\<rparr>) (pl_fund_withdraws (db_plugins db))) (\<lambda>t.
     charge_fee (tkn_dapp_name token) from_account fee (modify_plugins (\<lambda>p. p\<lparr>pl_fund_withdraws := t\<rparr>) db))))))))))"

section \<open>Savings\<close>

text \<open>The position of a new id in \<^verbatim>\<open>by_savings_next_date\<close>: after every date that is not later.\<close>

definition savings_date :: "token_savings_withdraw_object table \<Rightarrow> nat \<Rightarrow> time_point_sec" where
  "savings_date t i = (case table_find (\<lambda>w. tsw_id w = i) t of None \<Rightarrow> 0 | Some w \<Rightarrow> tsw_next_date w)"

definition link_savings :: "token_savings_withdraw_object table \<Rightarrow> nat \<Rightarrow> nat list \<Rightarrow> nat list" where
  "link_savings t i order =
     takeWhile (\<lambda>j. savings_date t j \<le> savings_date t i) order @ i # dropWhile (\<lambda>j. savings_date t j \<le> savings_date t i) order"

text \<open>An id whose date has changed stays in its place if the neighbours allow it, and is linked anew otherwise.\<close>

definition relink_savings :: "token_savings_withdraw_object table \<Rightarrow> nat \<Rightarrow> nat list \<Rightarrow> nat list" where
  "relink_savings t i order =
     (let before = takeWhile (\<lambda>j. j \<noteq> i) order; behind = tl (dropWhile (\<lambda>j. j \<noteq> i) order); d = savings_date t i in
      if (before = [] \<or> savings_date t (last before) \<le> d) \<and> (behind = [] \<or> d \<le> savings_date t (hd behind))
      then order else link_savings t i (before @ behind))"

definition transfer_token_savings_apply :: "transfer_token_savings_operation \<Rightarrow> chain_db \<Rightarrow> chain_db result" where
  "transfer_token_savings_apply op db =
     bindR (require_token (tts_token op) db) (\<lambda>token.
     let fee = dgp_dapp_transaction_fee (db_dgp db); now = head_block_time db in
     bindR (fee_payer (tkn_publisher token) fee db) (\<lambda>from_account.
     fc_assert (tts_next_date op > head_block_time db) Unnamed_assertion (
     bindR (asset_neg (tts_amount op)) (\<lambda>minus.
     bindR (adjust_token_balance (tts_from op) (tkn_name token) minus db) (\<lambda>db.
     bindR (adjust_token_savings_balance (tts_to op) (tkn_name token) (tts_amount op) db) (\<lambda>db.
     bindR (table_create token_savings_clash (\<lambda>i. \<lparr>tsw_id = i, tsw_from = tts_from op, tsw_to = tts_to op, tsw_token = tts_token op,
              tsw_request_id = tts_request_id op, tsw_amount = tts_amount op, tsw_total_amount = tts_amount op, tsw_memo = tts_memo op,
              tsw_split_pay_order = 1, tsw_split_pay_month = tts_split_pay_month op, tsw_next_date = tts_next_date op,
              tsw_created = now, tsw_last_updated = now\<rparr>) (pl_savings (db_plugins db))) (\<lambda>t.
     charge_fee (tkn_dapp_name token) from_account fee
       (modify_plugins (\<lambda>p. p\<lparr>pl_savings := t, pl_savings_order := link_savings t (tb_next (pl_savings p)) (pl_savings_order p)\<rparr>) db))))))))"

definition find_token_savings :: "string \<Rightarrow> account_name_type \<Rightarrow> account_name_type \<Rightarrow> nat \<Rightarrow> chain_db \<Rightarrow> token_savings_withdraw_object option" where
  "find_token_savings token from_name to_name request_id db =
     table_find (\<lambda>w. tsw_token w = token \<and> tsw_from w = from_name \<and> tsw_to w = to_name \<and> tsw_request_id w = request_id)
       (pl_savings (db_plugins db))"

definition remove_savings :: "nat \<Rightarrow> chain_db \<Rightarrow> chain_db" where
  "remove_savings i = modify_plugins (\<lambda>p. p\<lparr>pl_savings := table_remove tsw_id i (pl_savings p),
     pl_savings_order := filter (\<lambda>j. j \<noteq> i) (pl_savings_order p)\<rparr>)"

definition cancel_transfer_token_savings_apply :: "cancel_transfer_token_savings_operation \<Rightarrow> chain_db \<Rightarrow> chain_db result" where
  "cancel_transfer_token_savings_apply op db =
     bindR (require_token (cts_token op) db) (\<lambda>token.
     let fee = dgp_dapp_transaction_fee (db_dgp db) in
     bindR (fee_payer (tkn_publisher token) fee db) (\<lambda>from_account.
     bindR (of_option (Assert_exception Unknown_request)
              (find_token_savings (cts_token op) (cts_from op) (cts_to op) (cts_request_id op) db)) (\<lambda>w.
     bindR (asset_neg (tsw_amount w)) (\<lambda>minus.
     bindR (adjust_token_savings_balance (tsw_to w) (cts_token op) minus db) (\<lambda>db.
     bindR (adjust_token_balance (cts_from op) (cts_token op) (tsw_amount w) db) (\<lambda>db.
     charge_fee (tkn_dapp_name token) from_account fee (remove_savings (tsw_id w) db)))))))"

definition fill_token_savings :: "token_savings_withdraw_object \<Rightarrow> asset \<Rightarrow> operation" where
  "fill_token_savings w paid =
     Fill_transfer_token_savings \<lparr>gt_from = tsw_from w, gt_to = tsw_to w, gt_token = tsw_token w, gt_request_id = tsw_request_id w,
       gt_amount = paid, gt_total_amount = tsw_total_amount w, gt_split_pay_order = tsw_split_pay_order w,
       gt_split_pay_month = tsw_split_pay_month w, gt_memo = tsw_memo w\<rparr>"

definition conclude_transfer_token_savings_apply :: "conclude_transfer_token_savings_operation \<Rightarrow> chain_db \<Rightarrow> chain_db result" where
  "conclude_transfer_token_savings_apply op db =
     bindR (require_token (dts_token op) db) (\<lambda>token.
     let fee = dgp_dapp_transaction_fee (db_dgp db) in
     bindR (fee_payer (tkn_publisher token) fee db) (\<lambda>from_account.
     bindR (of_option (Assert_exception Unknown_request)
              (find_token_savings (dts_token op) (dts_from op) (dts_to op) (dts_request_id op) db)) (\<lambda>w.
     bindR (asset_neg (tsw_amount w)) (\<lambda>minus.
     bindR (adjust_token_savings_balance (tsw_to w) (dts_token op) minus db) (\<lambda>db.
     bindR (adjust_token_balance (tsw_to w) (dts_token op) (tsw_amount w) db) (\<lambda>db.
     bindR (push_virtual_operation (fill_token_savings w (tsw_amount w)) db) (\<lambda>db.
     charge_fee (tkn_dapp_name token) from_account fee (remove_savings (tsw_id w) db))))))))"

fun token_apply :: "token_tools \<Rightarrow> token_operation \<Rightarrow> chain_db \<Rightarrow> chain_db result" where
  "token_apply tk (Create_token op) db = create_token_apply op db"
| "token_apply tk (Issue_token op) db = issue_token_apply op db"
| "token_apply tk (Transfer_token op) db = transfer_token_apply op db"
| "token_apply tk (Burn_token op) db = burn_token_apply op db"
| "token_apply tk (Setup_token_fund op) db = setup_token_fund_apply op db"
| "token_apply tk (Set_token_staking_interest op) db = set_token_staking_interest_apply op db"
| "token_apply tk (Transfer_token_fund op) db = transfer_token_fund_apply op db"
| "token_apply tk (Staking_token_fund op) db = staking_token_fund_apply tk op db"
| "token_apply tk (Transfer_token_savings op) db = transfer_token_savings_apply op db"
| "token_apply tk (Cancel_transfer_token_savings op) db = cancel_transfer_token_savings_apply op db"
| "token_apply tk (Conclude_transfer_token_savings op) db = conclude_transfer_token_savings_apply op db"

section \<open>The payments after a block\<close>

text \<open>
  The handler of \<^verbatim>\<open>applied_block\<close> runs outside any session of its own: an exception ends it, and what
  was done before stays. A handler yields the state it leaves and the exception, if any; \<open>handler_step\<close>
  is one call of it.
\<close>

type_synonym handler = "chain_db \<Rightarrow> chain_db \<times> fc_error option"

definition handler_step :: "(chain_db \<Rightarrow> chain_db result) \<Rightarrow> handler \<Rightarrow> handler" where
  "handler_step f k db = (case f db of Inl e \<Rightarrow> (db, Some e) | Inr db' \<Rightarrow> k db')"

definition negated :: "asset \<Rightarrow> (asset \<Rightarrow> chain_db \<Rightarrow> chain_db result) \<Rightarrow> chain_db \<Rightarrow> chain_db result" where
  "negated a f db = bindR (asset_neg a) (\<lambda>minus. f minus db)"

definition fill_token_staking :: "token_fund_withdraw_object \<Rightarrow> operation" where
  "fill_token_staking w =
     Fill_token_staking_fund \<lparr>gs_from = tfw_from w, gs_token = tfw_token w, gs_fund_name = tfw_fund_name w, gs_amount = tfw_amount w,
       gs_request_id = tfw_request_id w, gs_memo = tfw_memo w\<rparr>"

definition pay_token_stake :: "token_fund_withdraw_object \<Rightarrow> handler" where
  "pay_token_stake w =
     handler_step (negated (tfw_amount w) (\<lambda>minus. adjust_token_fund_balance (tfw_token w) (tfw_fund_name w) minus minus)) (
     handler_step (adjust_token_balance (tfw_from w) (tfw_token w) (tfw_amount w)) (
     handler_step (push_virtual_operation (fill_token_staking w)) (\<lambda>db.
     (modify_plugins (\<lambda>p. p\<lparr>pl_fund_withdraws := table_remove tfw_id (tfw_id w) (pl_fund_withdraws p)\<rparr>) db, None))))"

text \<open>Each turn removes a request, so their number is enough fuel.\<close>

fun token_fund_loop :: "nat \<Rightarrow> handler" where
  "token_fund_loop fuel db =
     (case index_begin tfw_complete (tb_rows (pl_fund_withdraws (db_plugins db))) of
        None \<Rightarrow> (db, None)
      | Some w \<Rightarrow>
          (if tfw_complete w > head_block_time db then (db, None)
           else (case fuel of
                   0 \<Rightarrow> (db, Some Does_not_return)
                 | Suc fuel \<Rightarrow>
                     (case pay_token_stake w db of
                        (db', Some e) \<Rightarrow> (db', Some e)
                      | (db', None) \<Rightarrow> token_fund_loop fuel db'))))"

definition process_token_fund_withdraw :: handler where
  "process_token_fund_withdraw db = token_fund_loop (length (tb_rows (pl_fund_withdraws (db_plugins db)))) db"

definition pay_token_savings :: "token_savings_withdraw_object \<Rightarrow> asset \<Rightarrow> handler \<Rightarrow> handler" where
  "pay_token_savings w paid k =
     handler_step (negated paid (\<lambda>minus. adjust_token_savings_balance (tsw_to w) (tsw_token w) minus)) (
     handler_step (adjust_token_balance (tsw_to w) (tsw_token w) paid) (
     handler_step (push_virtual_operation (fill_token_savings w paid)) k))"

definition SIGMAENGINE_TRANSFER_SAVINGS_CYCLE :: nat where "SIGMAENGINE_TRANSFER_SAVINGS_CYCLE = days_sec 30"

definition advance_savings :: "token_savings_withdraw_object \<Rightarrow> asset \<Rightarrow> chain_db \<Rightarrow> chain_db result" where
  "advance_savings w paid db =
     bindR (asset_sub (tsw_amount w) paid) (\<lambda>rest.
     let t = table_modify tsw_id (tsw_id w) (\<lambda>obj. obj\<lparr>tsw_amount := rest, tsw_split_pay_order := tsw_split_pay_order obj + 1,
           tsw_next_date := time_add (tsw_next_date obj) SIGMAENGINE_TRANSFER_SAVINGS_CYCLE, tsw_last_updated := head_block_time db\<rparr>)
           (pl_savings (db_plugins db))
     in Inr (modify_plugins (\<lambda>p. p\<lparr>pl_savings := t, pl_savings_order := relink_savings t (tsw_id w) (pl_savings_order p)\<rparr>) db))"

definition first_of :: "nat list \<Rightarrow> nat option" where
  "first_of xs = (case xs of [] \<Rightarrow> None | i # _ \<Rightarrow> Some i)"

definition next_savings :: "nat \<Rightarrow> nat list \<Rightarrow> nat option" where
  "next_savings i order = first_of (tl (dropWhile (\<lambda>j. j \<noteq> i) order))"

text \<open>
  The iterator is the id it points to. After the last payment of a request it starts again at the front; after
  any other payment it moves on from where the request has been moved to. Every turn
  removes a request or advances its payment number, which bounds the number of turns.
\<close>

fun token_savings_loop :: "nat \<Rightarrow> nat option \<Rightarrow> handler" where
  "token_savings_loop fuel itr db =
     (case Option.bind itr (\<lambda>i. table_find (\<lambda>w. tsw_id w = i) (pl_savings (db_plugins db))) of
        None \<Rightarrow> (db, None)
      | Some w \<Rightarrow>
          (if tsw_next_date w > head_block_time db then (db, None)
           else (case fuel of
                   0 \<Rightarrow> (db, Some Does_not_return)
                 | Suc fuel \<Rightarrow>
                     (if tsw_split_pay_order w = tsw_split_pay_month w then
                        (case pay_token_savings w (tsw_amount w) (\<lambda>db. (remove_savings (tsw_id w) db, None)) db of
                           (db', Some e) \<Rightarrow> (db', Some e)
                         | (db', None) \<Rightarrow> token_savings_loop fuel (first_of (pl_savings_order (db_plugins db'))) db')
                      else
                        (case safe_div (amount (tsw_total_amount w)) (uint (tsw_split_pay_month w)) of
                           Inl e \<Rightarrow> (db, Some e)
                         | Inr q \<Rightarrow>
                             (let monthly_amount = (tsw_total_amount w)\<lparr>amount := q\<rparr> in
                              case pay_token_savings w monthly_amount (handler_step (advance_savings w monthly_amount) (\<lambda>db. (db, None))) db of
                                (db', Some e) \<Rightarrow> (db', Some e)
                              | (db', None) \<Rightarrow> token_savings_loop fuel (next_savings (tsw_id w) (pl_savings_order (db_plugins db'))) db'))))))"

declare token_fund_loop.simps [simp del] token_savings_loop.simps [simp del]

definition payments_left :: "token_savings_withdraw_object \<Rightarrow> nat" where
  "payments_left w = unat (tsw_split_pay_month w - tsw_split_pay_order w) + 1"

definition process_token_savings_withdraws :: handler where
  "process_token_savings_withdraws db =
     token_savings_loop (sum_list (map payments_left (tb_rows (pl_savings (db_plugins db)))))
       (first_of (pl_savings_order (db_plugins db))) db"

definition token_on_apply_block :: handler where
  "token_on_apply_block db =
     (case process_token_fund_withdraw db of
        (db', Some e) \<Rightarrow> (db', Some e)
      | (db', None) \<Rightarrow> process_token_savings_withdraws db')"

end
