(* ===== verification/Token_Books.thy ===== *)
theory Token_Books
  imports Token
begin

text \<open>
  What the token plugin does to value: the coin of the chain moves only by the fee, and what the accounts and funds hold of a
  token is its recorded supply, except where an operation loses tokens; the payments after a block end.
\<close>

section \<open>The coin of the chain\<close>

text \<open>\<open>off_books db db'\<close>: only the plugins' tables and the virtual operations differ.\<close>

definition off_books :: "chain_db \<Rightarrow> chain_db \<Rightarrow> bool" where
  "off_books db db' \<longleftrightarrow> db' = db\<lparr>db_virtual_ops := db_virtual_ops db', db_plugins := db_plugins db'\<rparr>"

lemma off_books_refl [simp]: "off_books db db"
  by (simp add: off_books_def)

lemma off_books_trans: "off_books a b \<Longrightarrow> off_books b c \<Longrightarrow> off_books a c"
  unfolding off_books_def by (cases a, cases b, cases c) simp

lemma off_books_modify_plugins [simp]: "off_books db (modify_plugins f db)"
  by (simp add: off_books_def modify_plugins_def)

lemma off_books_set_balances [simp]: "off_books db (set_balances t db)" "off_books db (modify_token i f db)" "off_books db (remove_savings i db)"
  by (simp_all add: set_balances_def modify_token_def remove_savings_def)

lemma off_books_moves: "wf_db db \<Longrightarrow> off_books db db' \<Longrightarrow> moves db db' 0 nothing nothing"
  by (rule moves_frame) (auto simp: off_books_def dest: arg_cong [where f = db_accounts] arg_cong [where f = db_funds]
      arg_cong [where f = db_dgp] arg_cong [where f = db_dapp_fund] arg_cong [where f = db_savings] arg_cong [where f = db_fund_withdraws])

lemma off_books_head: "off_books db db' \<Longrightarrow> db_dgp db' = db_dgp db" "off_books db db' \<Longrightarrow> db_accounts db' = db_accounts db"
  unfolding off_books_def by (cases db, cases db', simp)+

lemma adjust_token_fund_off_books: "adjust_token_fund_balance n f d w db = Inr db' \<Longrightarrow> off_books db db'"
  by (auto simp: adjust_token_fund_balance_def result_simps)

lemma adjust_token_balance_off_books: "adjust_token_balance a n d db = Inr db' \<Longrightarrow> off_books db db'"
  by (auto simp: adjust_token_balance_def Let_def result_simps split: if_splits option.splits)

lemma adjust_token_savings_off_books: "adjust_token_savings_balance a n d db = Inr db' \<Longrightarrow> off_books db db'"
  by (auto simp: adjust_token_savings_balance_def Let_def result_simps split: if_splits option.splits)

lemma publisher_balance_off_books:
  "init_publisher_balance a n d db = Inr db' \<Longrightarrow> off_books db db'"
  "add_publisher_balance a n d db = Inr db' \<Longrightarrow> off_books db db'"
  by (auto simp: init_publisher_balance_def add_publisher_balance_def Let_def result_simps split: option.splits)

lemma push_virtual_off_books: "push_virtual_operation v db = Inr db' \<Longrightarrow> off_books db db'"
  by (auto simp: push_virtual_operation_def result_simps off_books_def)

lemmas off_books_steps = adjust_token_fund_off_books adjust_token_balance_off_books adjust_token_savings_off_books
  publisher_balance_off_books push_virtual_off_books

text \<open>Every token operation works on the plugins' tables and ends by charging the fee to an account that holds it.\<close>

definition fee_last :: "chain_db \<Rightarrow> chain_db \<Rightarrow> bool" where
  "fee_last db db' \<longleftrightarrow> (\<exists>n m frm d. off_books db d \<and> fee_payer m (dgp_dapp_transaction_fee (db_dgp db)) db = Inr frm
     \<and> charge_fee n frm (dgp_dapp_transaction_fee (db_dgp db)) d = Inr db')"

lemma fee_lastI:
  "charge_fee n frm (dgp_dapp_transaction_fee (db_dgp db)) d = Inr db' \<Longrightarrow> fee_payer m (dgp_dapp_transaction_fee (db_dgp db)) db = Inr frm
     \<Longrightarrow> off_books db d \<Longrightarrow> fee_last db db'"
  by (auto simp: fee_last_def)

lemmas off_books_links = off_books_trans off_books_modify_plugins off_books_set_balances off_books_refl

lemma create_token_fee_last: "create_token_apply op db = Inr db' \<Longrightarrow> fee_last db db'"
  by (simp only: create_token_apply_def Let_def result_simps)
    (elim exE conjE, erule fee_lastI, assumption, rule off_books_trans [OF off_books_modify_plugins], erule publisher_balance_off_books)

lemma issue_token_fee_last: "issue_token_apply op db = Inr db' \<Longrightarrow> fee_last db db'"
  by (simp only: issue_token_apply_def Let_def result_simps)
    (elim exE conjE, erule fee_lastI, assumption, rule off_books_trans [OF off_books_set_balances(2)], erule publisher_balance_off_books)

lemma transfer_token_fee_last: "transfer_token_apply op db = Inr db' \<Longrightarrow> fee_last db db'"
  by (auto simp: transfer_token_apply_def Let_def result_simps dest!: off_books_steps)
    (erule fee_lastI, assumption, meson off_books_links)+

lemma burn_token_fee_last: "burn_token_apply op db = Inr db' \<Longrightarrow> fee_last db db'"
  by (auto simp: burn_token_apply_def Let_def result_simps dest!: off_books_steps)
    (erule fee_lastI, assumption, meson off_books_links)+

lemma setup_token_fund_fee_last: "setup_token_fund_apply op db = Inr db' \<Longrightarrow> fee_last db db'"
  by (auto simp: setup_token_fund_apply_def Let_def result_simps split: if_splits option.splits dest!: off_books_steps)
    (erule fee_lastI, assumption, meson off_books_links)+

lemma set_token_staking_interest_fee_last: "set_token_staking_interest_apply op db = Inr db' \<Longrightarrow> fee_last db db'"
  by (auto simp: set_token_staking_interest_apply_def Let_def result_simps dest!: off_books_steps)
    (erule fee_lastI, assumption, meson off_books_links)+

lemma transfer_token_fund_fee_last: "transfer_token_fund_apply op db = Inr db' \<Longrightarrow> fee_last db db'"
  by (auto simp: transfer_token_fund_apply_def Let_def result_simps dest!: off_books_steps)
    (erule fee_lastI, assumption, meson off_books_links)+

lemma staking_token_fund_fee_last: "staking_token_fund_apply tk op db = Inr db' \<Longrightarrow> fee_last db db'"
  by (auto simp: staking_token_fund_apply_def Let_def result_simps dest!: off_books_steps)
    (erule fee_lastI, assumption, meson off_books_links)+

lemma transfer_token_savings_fee_last: "transfer_token_savings_apply op db = Inr db' \<Longrightarrow> fee_last db db'"
  by (auto simp: transfer_token_savings_apply_def Let_def result_simps dest!: off_books_steps)
    (erule fee_lastI, assumption, meson off_books_links)+

lemma cancel_transfer_token_savings_fee_last: "cancel_transfer_token_savings_apply op db = Inr db' \<Longrightarrow> fee_last db db'"
  by (auto simp: cancel_transfer_token_savings_apply_def Let_def result_simps dest!: off_books_steps)
    (erule fee_lastI, assumption, meson off_books_links)+

lemma conclude_transfer_token_savings_fee_last: "conclude_transfer_token_savings_apply op db = Inr db' \<Longrightarrow> fee_last db db'"
  by (auto simp: conclude_transfer_token_savings_apply_def Let_def result_simps dest!: off_books_steps)
    (erule fee_lastI, assumption, meson off_books_links)+

lemma token_apply_shape: "token_apply tk op db = Inr db' \<Longrightarrow> fee_last db db'"
  by (cases op) (simp_all add: create_token_fee_last issue_token_fee_last transfer_token_fee_last burn_token_fee_last setup_token_fund_fee_last set_token_staking_interest_fee_last transfer_token_fund_fee_last staking_token_fund_fee_last transfer_token_savings_fee_last cancel_transfer_token_savings_fee_last conclude_transfer_token_savings_fee_last)

lemma token_apply_moves:
  assumes "wf_db db" "token_apply tk op db = Inr db'"
  shows "moves db db' 0 nothing nothing"
proof -
  from token_apply_shape [OF assms(2)] obtain n frm d where
    d: "off_books db d" "charge_fee n frm (dgp_dapp_transaction_fee (db_dgp db)) d = Inr db'" by (auto simp: fee_last_def)
  have m: "moves db d 0 nothing nothing" by (rule off_books_moves [OF assms(1) d(1)])
  from moves_trans [OF m charge_fee_moves [OF moves_wf [OF m] d(2)]] show ?thesis by simp
qed

section \<open>The books of a token\<close>

definition token_names :: "plugin_db \<Rightarrow> string list" where
  "token_names p = map tkn_name (tb_rows (pl_tokens p))"

definition wf_tokens :: "plugin_db \<Rightarrow> bool" where
  "wf_tokens p \<longleftrightarrow> wf_table tkn_id (pl_tokens p) \<and> wf_table tbl_id (pl_balances p) \<and> wf_table tfn_id (pl_funds p)
     \<and> distinct (token_names p)
     \<and> set (map tbl_token (tb_rows (pl_balances p))) \<subseteq> set (token_names p)
     \<and> set (map tfn_token (tb_rows (pl_funds p))) \<subseteq> set (token_names p)"

definition held_by_accounts :: "string \<Rightarrow> plugin_db \<Rightarrow> int" where
  "held_by_accounts n p = sum_list (map (\<lambda>b. if tbl_token b = n then amount (tbl_balance b) + amount (tbl_savings_balance b) else 0)
     (tb_rows (pl_balances p)))"

definition held_by_funds :: "string \<Rightarrow> plugin_db \<Rightarrow> int" where
  "held_by_funds n p = sum_list (map (\<lambda>f. if tfn_token f = n then amount (tfn_balance f) else 0) (tb_rows (pl_funds p)))"

definition recorded_supply :: "string \<Rightarrow> plugin_db \<Rightarrow> int" where
  "recorded_supply n p = sum_list (map (\<lambda>k. if tkn_name k = n then amount (tkn_total_balance k) else 0) (tb_rows (pl_tokens p)))"

text \<open>What the recorded supply of a token has beyond what accounts and funds hold of it.\<close>

definition token_gap :: "string \<Rightarrow> plugin_db \<Rightarrow> int" where
  "token_gap n p = recorded_supply n p - held_by_accounts n p - held_by_funds n p"

text \<open>\<open>token_moves p p' g\<close>: the same tokens, well-formed tables, and every gap changed by \<open>g\<close>.\<close>

definition token_moves :: "plugin_db \<Rightarrow> plugin_db \<Rightarrow> (string \<Rightarrow> int) \<Rightarrow> bool" where
  "token_moves p p' g \<longleftrightarrow> wf_tokens p' \<and> set (token_names p') = set (token_names p) \<and> (\<forall>n. token_gap n p' = token_gap n p + g n)"

lemmas token_books_defs = token_gap_def recorded_supply_def held_by_accounts_def held_by_funds_def

lemma token_moves_trans:
  "token_moves a b g \<Longrightarrow> token_moves b c h \<Longrightarrow> token_moves a c (\<lambda>n. g n + h n)"
  by (simp add: token_moves_def)

lemma token_moves_wf: "token_moves a b g \<Longrightarrow> wf_tokens b"
  by (simp add: token_moves_def)

lemma token_moves_frame:
  assumes "wf_tokens p" "pl_tokens p' = pl_tokens p" "pl_balances p' = pl_balances p" "pl_funds p' = pl_funds p"
  shows "token_moves p p' nothing"
  using assms by (simp add: token_moves_def wf_tokens_def token_names_def token_books_defs)

lemma token_moves_cong: "token_moves p p' g \<Longrightarrow> (\<And>n. h n = g n) \<Longrightarrow> token_moves p p' h"
  by (simp add: token_moves_def)

lemma modify_balance_token_moves:
  assumes "wf_tokens p" "b \<in> set (tb_rows (pl_balances p))" "\<And>b. tbl_id (f b) = tbl_id b" "\<And>b. tbl_token (f b) = tbl_token b"
  shows "token_moves p (p\<lparr>pl_balances := table_modify tbl_id (tbl_id b) f (pl_balances p)\<rparr>)
    (at (tbl_token b) (amount (tbl_balance b) + amount (tbl_savings_balance b) - amount (tbl_balance (f b)) - amount (tbl_savings_balance (f b))))"
proof -
  let ?p = "p\<lparr>pl_balances := table_modify tbl_id (tbl_id b) f (pl_balances p)\<rparr>"
  have w: "wf_table tbl_id (pl_balances p)" using assms(1) by (simp add: wf_tokens_def)
  have "wf_tokens ?p"
    using assms(1,3,4) by (simp add: wf_tokens_def token_names_def wf_table_modify table_modify_map del: set_map)
  moreover have "held_by_accounts n ?p = held_by_accounts n p
      - at (tbl_token b) (amount (tbl_balance b) + amount (tbl_savings_balance b) - amount (tbl_balance (f b)) - amount (tbl_savings_balance (f b))) n" for n
    unfolding held_by_accounts_def
    using table_modify_sum [OF w assms(2) refl, where f = f and g = "\<lambda>b. if tbl_token b = n then amount (tbl_balance b) + amount (tbl_savings_balance b) else 0"]
    by (auto simp: at_def assms(4))
  ultimately show ?thesis
    by (simp add: token_moves_def token_gap_def token_names_def held_by_funds_def recorded_supply_def)
qed

lemma remove_balance_token_moves:
  assumes "wf_tokens p" "b \<in> set (tb_rows (pl_balances p))"
  shows "token_moves p (p\<lparr>pl_balances := table_remove tbl_id (tbl_id b) (pl_balances p)\<rparr>)
    (at (tbl_token b) (amount (tbl_balance b) + amount (tbl_savings_balance b)))"
proof -
  let ?p = "p\<lparr>pl_balances := table_remove tbl_id (tbl_id b) (pl_balances p)\<rparr>"
  have w: "wf_table tbl_id (pl_balances p)" using assms(1) by (simp add: wf_tokens_def)
  have "wf_tokens ?p"
  proof -
    have "set (map tbl_token (tb_rows (pl_balances ?p))) \<subseteq> set (map tbl_token (tb_rows (pl_balances p)))"
      by (auto simp: table_remove_def)
    with assms(1) show ?thesis by (auto simp: wf_tokens_def token_names_def wf_table_remove)
  qed
  moreover have "held_by_accounts n ?p = held_by_accounts n p - at (tbl_token b) (amount (tbl_balance b) + amount (tbl_savings_balance b)) n" for n
    unfolding held_by_accounts_def
    using table_remove_sum [OF w assms(2) refl, where g = "\<lambda>b. if tbl_token b = n then amount (tbl_balance b) + amount (tbl_savings_balance b) else 0"]
    by (auto simp: at_def)
  ultimately show ?thesis
    by (simp add: token_moves_def token_gap_def token_names_def held_by_funds_def recorded_supply_def)
qed

lemma create_balance_token_moves:
  assumes "wf_tokens p" "table_create token_balance_clash c (pl_balances p) = Inr t" "\<And>i. tbl_id (c i) = i"
    "\<And>i. tbl_token (c i) = n" "n \<in> set (token_names p)" "\<And>i. amount (tbl_balance (c i)) + amount (tbl_savings_balance (c i)) = v"
  shows "token_moves p (p\<lparr>pl_balances := t\<rparr>) (at n (- v))"
proof -
  have w: "wf_table tbl_id (pl_balances p)" using assms(1) by (simp add: wf_tokens_def)
  note t = wf_table_create [OF w assms(2,3)]
  have "wf_tokens (p\<lparr>pl_balances := t\<rparr>)"
    using assms(1,4,5) t by (auto simp: wf_tokens_def token_names_def)
  moreover have "held_by_accounts m (p\<lparr>pl_balances := t\<rparr>) = held_by_accounts m p + at n v m" for m
    using t assms(4,6) by (simp add: held_by_accounts_def at_def)
  ultimately show ?thesis
    by (simp add: token_moves_def token_gap_def token_names_def held_by_funds_def recorded_supply_def at_def)
qed

lemma find_token_balance_mem: "find_token_balance a n db = Some b \<Longrightarrow> b \<in> set (tb_rows (pl_balances (db_plugins db))) \<and> tbl_account b = a \<and> tbl_token b = n"
  by (auto simp: find_token_balance_def table_find_def dest!: find_Some_mem)

lemma find_token_fund_mem: "find_token_fund n f db = Some x \<Longrightarrow> x \<in> set (tb_rows (pl_funds (db_plugins db))) \<and> tfn_token x = n \<and> tfn_fund_name x = f"
  by (auto simp: find_token_fund_def table_find_def dest!: find_Some_mem)

lemma asset_add_amount: "asset_add a b = Inr c \<Longrightarrow> amount c = amount a + amount b \<and> symbol c = symbol a \<and> symbol b = symbol a"
  by (auto simp: asset_add_def result_simps dest: safe_add_InrD)

lemma asset_sub_amount: "asset_sub a b = Inr c \<Longrightarrow> amount c = amount a - amount b"
  by (auto simp: asset_sub_def result_simps dest: safe_sub_InrD)

lemma db_plugins_simps [simp]: "db_plugins (modify_plugins f db) = f (db_plugins db)" "db_plugins (set_balances t db) = (db_plugins db)\<lparr>pl_balances := t\<rparr>"
  "db_plugins (modify_token i g db) = (db_plugins db)\<lparr>pl_tokens := table_modify tkn_id i g (pl_tokens (db_plugins db))\<rparr>"
  by (simp_all add: modify_plugins_def set_balances_def modify_token_def)

lemma adjust_token_balance_moves:
  assumes "wf_tokens (db_plugins db)" "n \<in> set (token_names (db_plugins db))" "adjust_token_balance a n d db = Inr db'"
  shows "token_moves (db_plugins db) (db_plugins db') (at n (- amount d))"
proof (cases "find_token_balance a n db")
  case None
  let ?c = "\<lambda>i. \<lparr>tbl_id = i, tbl_account = a, tbl_token = n, tbl_balance = d,
    tbl_savings_balance = \<lparr>amount = 0, symbol = symbol d\<rparr>, tbl_last_updated = head_block_time db\<rparr>"
  from None assms(3) obtain t where t: "table_create token_balance_clash ?c (pl_balances (db_plugins db)) = Inr t"
    and db': "db' = set_balances t db"
    by (auto simp: adjust_token_balance_def Let_def result_simps split: if_splits)
  from create_balance_token_moves [OF assms(1) t _ _ assms(2), of "amount d"] show ?thesis by (simp add: db')
next
  case (Some b)
  have mem: "b \<in> set (tb_rows (pl_balances (db_plugins db)))" "tbl_token b = n" using find_token_balance_mem [OF Some] by auto
  consider (remove) minus where "asset_neg d = Inr minus" "amount (tbl_savings_balance b) = 0" "tbl_balance b = minus"
      "db' = set_balances (table_remove tbl_id (tbl_id b) (pl_balances (db_plugins db))) db"
    | (change) v where "asset_add (tbl_balance b) d = Inr v"
      "db' = set_balances (table_modify tbl_id (tbl_id b) (\<lambda>obj. obj\<lparr>tbl_balance := v, tbl_last_updated := head_block_time db\<rparr>)
         (pl_balances (db_plugins db))) db"
    using Some assms(3) by (auto simp: adjust_token_balance_def Let_def result_simps split: if_splits)
  then show ?thesis
  proof cases
    case remove
    then have "amount (tbl_balance b) = - amount d" using asset_neg_Inr by blast
    with remove remove_balance_token_moves [OF assms(1) mem(1)] mem(2) show ?thesis by simp
  next
    case change
    let ?f = "\<lambda>obj. obj\<lparr>tbl_balance := v, tbl_last_updated := head_block_time db\<rparr>"
    from modify_balance_token_moves [OF assms(1) mem(1), of ?f] asset_add_amount [OF change(1)] mem(2) change(2)
    show ?thesis by simp
  qed
qed

lemma adjust_token_savings_moves:
  assumes "wf_tokens (db_plugins db)" "n \<in> set (token_names (db_plugins db))" "adjust_token_savings_balance a n d db = Inr db'"
  shows "token_moves (db_plugins db) (db_plugins db') (at n (- amount d))"
proof (cases "find_token_balance a n db")
  case None
  let ?c = "\<lambda>i. \<lparr>tbl_id = i, tbl_account = a, tbl_token = n, tbl_balance = \<lparr>amount = 0, symbol = symbol d\<rparr>,
    tbl_savings_balance = d, tbl_last_updated = head_block_time db\<rparr>"
  from None assms(3) obtain t where t: "table_create token_balance_clash ?c (pl_balances (db_plugins db)) = Inr t"
    and db': "db' = set_balances t db"
    by (auto simp: adjust_token_savings_balance_def Let_def result_simps split: if_splits)
  from create_balance_token_moves [OF assms(1) t _ _ assms(2), of "amount d"] show ?thesis by (simp add: db')
next
  case (Some b)
  have mem: "b \<in> set (tb_rows (pl_balances (db_plugins db)))" "tbl_token b = n" using find_token_balance_mem [OF Some] by auto
  consider (remove) minus where "asset_neg d = Inr minus" "amount (tbl_balance b) = 0" "tbl_savings_balance b = minus"
      "db' = set_balances (table_remove tbl_id (tbl_id b) (pl_balances (db_plugins db))) db"
    | (change) v where "asset_add (tbl_savings_balance b) d = Inr v"
      "db' = set_balances (table_modify tbl_id (tbl_id b) (\<lambda>obj. obj\<lparr>tbl_savings_balance := v, tbl_last_updated := head_block_time db\<rparr>)
         (pl_balances (db_plugins db))) db"
    using Some assms(3) by (auto simp: adjust_token_savings_balance_def Let_def result_simps split: if_splits)
  then show ?thesis
  proof cases
    case remove
    then have "amount (tbl_savings_balance b) = - amount d" using asset_neg_Inr by blast
    with remove remove_balance_token_moves [OF assms(1) mem(1)] mem(2) show ?thesis by simp
  next
    case change
    let ?f = "\<lambda>obj. obj\<lparr>tbl_savings_balance := v, tbl_last_updated := head_block_time db\<rparr>"
    from modify_balance_token_moves [OF assms(1) mem(1), of ?f] asset_add_amount [OF change(1)] mem(2) change(2)
    show ?thesis by simp
  qed
qed

lemma adjust_token_fund_moves:
  assumes "wf_tokens (db_plugins db)" "adjust_token_fund_balance n f d w db = Inr db'"
  shows "token_moves (db_plugins db) (db_plugins db') (at n (- amount d))"
proof -
  let ?p = "db_plugins db"
  from assms(2) obtain x v u where x: "find_token_fund n f db = Some x" "asset_add (tfn_balance x) d = Inr v"
    and db': "db_plugins db' = ?p\<lparr>pl_funds := table_modify tfn_id (tfn_id x) (\<lambda>obj. obj\<lparr>tfn_balance := v,
       tfn_withdraw_balance := u, tfn_last_updated := head_block_time db\<rparr>) (pl_funds ?p)\<rparr>" (is "_ = ?p\<lparr>pl_funds := ?t\<rparr>")
    by (auto simp: adjust_token_fund_balance_def result_simps)
  have mem: "x \<in> set (tb_rows (pl_funds ?p))" "tfn_token x = n" using find_token_fund_mem [OF x(1)] by auto
  have wt: "wf_table tfn_id (pl_funds ?p)" using assms(1) by (simp add: wf_tokens_def)
  have "wf_tokens (?p\<lparr>pl_funds := ?t\<rparr>)"
    using assms(1) by (simp add: wf_tokens_def token_names_def wf_table_modify table_modify_map del: set_map)
  moreover have "held_by_funds m (?p\<lparr>pl_funds := ?t\<rparr>) = held_by_funds m ?p + at n (amount d) m" for m
    unfolding held_by_funds_def
    using table_modify_sum [OF wt mem(1) refl, where g = "\<lambda>f. if tfn_token f = m then amount (tfn_balance f) else 0"
        and f = "\<lambda>obj. obj\<lparr>tfn_balance := v, tfn_withdraw_balance := u, tfn_last_updated := head_block_time db\<rparr>"]
      asset_add_amount [OF x(2)] mem(2)
    by (auto simp: at_def)
  ultimately show ?thesis unfolding db'
    by (simp add: token_moves_def token_gap_def token_names_def held_by_accounts_def recorded_supply_def at_def)
qed

lemma modify_token_moves:
  assumes "wf_tokens p" "k \<in> set (tb_rows (pl_tokens p))" "\<And>k. tkn_id (f k) = tkn_id k" "\<And>k. tkn_name (f k) = tkn_name k"
  shows "token_moves p (p\<lparr>pl_tokens := table_modify tkn_id (tkn_id k) f (pl_tokens p)\<rparr>)
    (at (tkn_name k) (amount (tkn_total_balance (f k)) - amount (tkn_total_balance k)))"
proof -
  let ?p = "p\<lparr>pl_tokens := table_modify tkn_id (tkn_id k) f (pl_tokens p)\<rparr>"
  have w: "wf_table tkn_id (pl_tokens p)" using assms(1) by (simp add: wf_tokens_def)
  have names: "token_names ?p = token_names p" using assms(4) by (simp add: token_names_def table_modify_map)
  have "wf_tokens ?p" using assms(1,3) by (simp add: wf_tokens_def names wf_table_modify del: set_map)
  moreover have "recorded_supply n ?p = recorded_supply n p + at (tkn_name k) (amount (tkn_total_balance (f k)) - amount (tkn_total_balance k)) n" for n
    unfolding recorded_supply_def
    using table_modify_sum [OF w assms(2) refl, where f = f and g = "\<lambda>k. if tkn_name k = n then amount (tkn_total_balance k) else 0"] assms(4)
    by (auto simp: at_def)
  ultimately show ?thesis by (simp add: token_moves_def token_gap_def names held_by_accounts_def held_by_funds_def)
qed

lemma create_fund_token_moves:
  assumes "wf_tokens p" "table_create token_fund_clash c (pl_funds p) = Inr t" "\<And>i. tfn_id (c i) = i"
    "\<And>i. tfn_token (c i) = n" "n \<in> set (token_names p)" "\<And>i. amount (tfn_balance (c i)) = v"
  shows "token_moves p (p\<lparr>pl_funds := t\<rparr>) (at n (- v))"
proof -
  have w: "wf_table tfn_id (pl_funds p)" using assms(1) by (simp add: wf_tokens_def)
  note t = wf_table_create [OF w assms(2,3)]
  have "wf_tokens (p\<lparr>pl_funds := t\<rparr>)" using assms(1,4,5) t by (auto simp: wf_tokens_def token_names_def)
  moreover have "held_by_funds m (p\<lparr>pl_funds := t\<rparr>) = held_by_funds m p + at n v m" for m
    using t assms(4,6) by (simp add: held_by_funds_def at_def)
  ultimately show ?thesis
    by (simp add: token_moves_def token_gap_def token_names_def held_by_accounts_def recorded_supply_def at_def)
qed

lemma require_token_mem: "require_token n db = Inr k \<Longrightarrow> k \<in> set (tb_rows (pl_tokens (db_plugins db))) \<and> tkn_name k = n"
  by (auto simp: require_token_def find_token_def table_find_def result_simps dest!: find_Some_mem)

lemma require_published_mem: "require_published n a db = Inr k \<Longrightarrow> k \<in> set (tb_rows (pl_tokens (db_plugins db))) \<and> tkn_name k = n"
  by (auto simp: require_published_def result_simps dest!: require_token_mem)

lemma token_by_symbol_mem: "find_token_by_symbol sy db = Some k \<Longrightarrow> k \<in> set (tb_rows (pl_tokens (db_plugins db)))"
  by (auto simp: find_token_by_symbol_def table_find_def dest!: find_Some_mem)

lemma token_name_mem: "k \<in> set (tb_rows (pl_tokens p)) \<Longrightarrow> tkn_name k \<in> set (token_names p)"
  by (simp add: token_names_def)

text \<open>Two adjustments of the same token in a row, the second of which undoes the first in the books.\<close>

lemma token_moves_back:
  assumes "token_moves p q (at n x)" "token_moves q r (at n y)" "x + y = 0"
  shows "token_moves p r nothing"
  by (rule token_moves_cong [OF token_moves_trans [OF assms(1,2)]]) (use assms(3) in \<open>simp add: at_def\<close>)

lemma token_moves_names: "token_moves p q g \<Longrightarrow> n \<in> set (token_names p) \<Longrightarrow> n \<in> set (token_names q)"
  by (simp add: token_moves_def)

lemma transfer_token_books:
  assumes "wf_tokens (db_plugins db)" "transfer_token_apply op db = Inr db'"
  shows "token_moves (db_plugins db) (db_plugins db') nothing"
proof -
  from assms(2) obtain k minus d1 d2 where k: "find_token_by_symbol (symbol (ttk_amount op)) db = Some k"
    and s: "asset_neg (ttk_amount op) = Inr minus" "adjust_token_balance (ttk_from op) (tkn_name k) minus db = Inr d1"
      "adjust_token_balance (ttk_to op) (tkn_name k) (ttk_amount op) d1 = Inr d2" "db_plugins db' = db_plugins d2"
    by (auto simp: transfer_token_apply_def Let_def result_simps dest!: charge_fee_plugins)
  note n = token_name_mem [OF token_by_symbol_mem [OF k]]
  note m1 = adjust_token_balance_moves [OF assms(1) n s(2)]
  note m2 = adjust_token_balance_moves [OF token_moves_wf [OF m1] token_moves_names [OF m1 n] s(3)]
  from token_moves_back [OF m1 m2] asset_neg_Inr [OF s(1)] s(4) show ?thesis by simp
qed

lemma add_publisher_balance_moves:
  assumes "wf_tokens (db_plugins db)" "n \<in> set (token_names (db_plugins db))" "add_publisher_balance a n d db = Inr db'"
  shows "token_moves (db_plugins db) (db_plugins db') (at n (- amount d))"
proof (cases "find_token_balance a n db")
  case None
  let ?c = "\<lambda>i. \<lparr>tbl_id = i, tbl_account = a, tbl_token = n, tbl_balance = d,
    tbl_savings_balance = \<lparr>amount = 0, symbol = symbol d\<rparr>, tbl_last_updated = head_block_time db\<rparr>"
  from None assms(3) obtain t where t: "table_create token_balance_clash ?c (pl_balances (db_plugins db)) = Inr t"
    and db': "db' = set_balances t db"
    by (auto simp: add_publisher_balance_def Let_def result_simps)
  from create_balance_token_moves [OF assms(1) t _ _ assms(2), of "amount d"] show ?thesis by (simp add: db')
next
  case (Some b)
  have mem: "b \<in> set (tb_rows (pl_balances (db_plugins db)))" "tbl_token b = n" using find_token_balance_mem [OF Some] by auto
  let ?f = "\<lambda>v obj. obj\<lparr>tbl_balance := v, tbl_last_updated := head_block_time db\<rparr>"
  from Some assms(3) obtain v where v: "asset_add (tbl_balance b) d = Inr v"
    and db': "db' = set_balances (table_modify tbl_id (tbl_id b) (?f v) (pl_balances (db_plugins db))) db"
    by (auto simp: add_publisher_balance_def Let_def result_simps)
  from modify_balance_token_moves [OF assms(1) mem(1), of "?f v"] asset_add_amount [OF v] mem(2) db' show ?thesis by simp
qed

lemma issue_token_books:
  assumes "wf_tokens (db_plugins db)" "issue_token_apply op db = Inr db'"
  shows "token_moves (db_plugins db) (db_plugins db') nothing"
proof -
  let ?f = "\<lambda>total k. k\<lparr>tkn_total_balance := total, tkn_last_updated := head_block_time db\<rparr>"
  from assms(2) obtain k total d2 where k: "require_token (itk_name op) db = Inr k"
    and s: "asset_add (tkn_total_balance k) (itk_reissue_amount op) = Inr total"
      "add_publisher_balance (itk_publisher op) (itk_name op) (itk_reissue_amount op) (modify_token (tkn_id k) (?f total) db) = Inr d2"
      "db_plugins db' = db_plugins d2"
    by (auto simp: issue_token_apply_def Let_def result_simps dest!: charge_fee_plugins)
  have mem: "k \<in> set (tb_rows (pl_tokens (db_plugins db)))" "tkn_name k = itk_name op" using require_token_mem [OF k] by auto
  have m1: "token_moves (db_plugins db) (db_plugins (modify_token (tkn_id k) (?f total) db)) (at (itk_name op) (amount (itk_reissue_amount op)))"
    using modify_token_moves [OF assms(1) mem(1), of "?f total"] asset_add_amount [OF s(1)] mem(2) by simp
  note m2 = add_publisher_balance_moves [OF token_moves_wf [OF m1] token_moves_names [OF m1] s(2)]
  have "itk_name op \<in> set (token_names (db_plugins db))" using token_name_mem [OF mem(1)] mem(2) by simp
  from token_moves_back [OF m1 m2 [OF this]] s(3) show ?thesis by simp
qed

lemma burn_token_books:
  assumes "wf_tokens (db_plugins db)" "burn_token_apply op db = Inr db'"
  shows "token_moves (db_plugins db) (db_plugins db') nothing"
proof -
  let ?f = "\<lambda>total k. k\<lparr>tkn_total_balance := total\<rparr>"
  from assms(2) obtain k minus d1 total where k: "find_token_by_symbol (symbol (btk_amount op)) db = Some k"
    and s: "asset_neg (btk_amount op) = Inr minus" "adjust_token_balance (btk_account op) (tkn_name k) minus db = Inr d1"
      "asset_sub (tkn_total_balance k) (btk_amount op) = Inr total"
      "db_plugins db' = db_plugins (modify_token (tkn_id k) (?f total) d1)"
    by (auto simp: burn_token_apply_def Let_def result_simps dest!: charge_fee_plugins)
  note mem = token_by_symbol_mem [OF k]
  note m1 = adjust_token_balance_moves [OF assms(1) token_name_mem [OF mem] s(2)]
  have "pl_tokens (db_plugins d1) = pl_tokens (db_plugins db)"
    using s(2) by (auto simp: adjust_token_balance_def Let_def result_simps split: if_splits option.splits)
  with mem have "k \<in> set (tb_rows (pl_tokens (db_plugins d1)))" by simp
  from modify_token_moves [OF token_moves_wf [OF m1] this, of "?f total"] asset_sub_amount [OF s(3)]
  have m2: "token_moves (db_plugins d1) (db_plugins db') (at (tkn_name k) (- amount (btk_amount op)))" using s(4) by simp
  from token_moves_back [OF m1 m2] asset_neg_Inr [OF s(1)] show ?thesis by simp
qed

lemma transfer_token_fund_books:
  assumes "wf_tokens (db_plugins db)" "transfer_token_fund_apply op db = Inr db'"
  shows "token_moves (db_plugins db) (db_plugins db') nothing"
proof -
  from assms(2) obtain k minus d1 d2 w where k: "require_published (ttf_token op) (ttf_from op) db = Inr k"
    and s: "asset_neg (ttf_amount op) = Inr minus" "adjust_token_balance (ttf_from op) (ttf_token op) minus db = Inr d1"
      "adjust_token_fund_balance (ttf_token op) (ttf_fund_name op) (ttf_amount op) w d1 = Inr d2" "db_plugins db' = db_plugins d2"
    by (auto simp: transfer_token_fund_apply_def Let_def result_simps dest!: charge_fee_plugins)
  have "ttf_token op \<in> set (token_names (db_plugins db))" using require_published_mem [OF k] token_name_mem by metis
  note m1 = adjust_token_balance_moves [OF assms(1) this s(2)]
  note m2 = adjust_token_fund_moves [OF token_moves_wf [OF m1] s(3)]
  from token_moves_back [OF m1 m2] asset_neg_Inr [OF s(1)] s(4) show ?thesis by simp
qed

lemma token_moves_then_frame:
  assumes "token_moves p q g" "pl_tokens r = pl_tokens q" "pl_balances r = pl_balances q" "pl_funds r = pl_funds q"
  shows "token_moves p r g"
  using token_moves_trans [OF assms(1) token_moves_frame [OF token_moves_wf [OF assms(1)] assms(2-4)]] by simp

lemma staking_token_fund_books:
  assumes "wf_tokens (db_plugins db)" "staking_token_fund_apply tk op db = Inr db'"
  shows "token_moves (db_plugins db) (db_plugins db') nothing"
proof -
  from assms(2) obtain k minus d1 d2 w t where k: "require_token (skf_token op) db = Inr k"
    and s: "asset_neg (skf_amount op) = Inr minus" "adjust_token_balance (skf_from op) (tkn_name k) minus db = Inr d1"
      "adjust_token_fund_balance (skf_token op) (skf_fund_name op) (skf_amount op) w d1 = Inr d2"
      "db_plugins db' = (db_plugins d2)\<lparr>pl_fund_withdraws := t\<rparr>"
    by (auto simp: staking_token_fund_apply_def Let_def result_simps dest!: charge_fee_plugins)
  have n: "tkn_name k = skf_token op" "tkn_name k \<in> set (token_names (db_plugins db))"
    using require_token_mem [OF k] token_name_mem [of k "db_plugins db"] by auto
  note m1 = adjust_token_balance_moves [OF assms(1) n(2) s(2)]
  note m2 = adjust_token_fund_moves [OF token_moves_wf [OF m1] s(3)]
  from token_moves_then_frame [OF token_moves_back [OF m1 m2 [folded n(1)]]] asset_neg_Inr [OF s(1)] s(4) show ?thesis by simp
qed

lemma transfer_token_savings_books:
  assumes "wf_tokens (db_plugins db)" "transfer_token_savings_apply op db = Inr db'"
  shows "token_moves (db_plugins db) (db_plugins db') nothing"
proof -
  from assms(2) obtain k minus d1 d2 t order where k: "require_token (tts_token op) db = Inr k"
    and s: "asset_neg (tts_amount op) = Inr minus" "adjust_token_balance (tts_from op) (tkn_name k) minus db = Inr d1"
      "adjust_token_savings_balance (tts_to op) (tkn_name k) (tts_amount op) d1 = Inr d2"
      "db_plugins db' = (db_plugins d2)\<lparr>pl_savings := t, pl_savings_order := order\<rparr>"
    by (auto simp: transfer_token_savings_apply_def Let_def result_simps dest!: charge_fee_plugins)
  have n: "tkn_name k \<in> set (token_names (db_plugins db))" using require_token_mem [OF k] token_name_mem [of k "db_plugins db"] by auto
  note m1 = adjust_token_balance_moves [OF assms(1) n s(2)]
  note m2 = adjust_token_savings_moves [OF token_moves_wf [OF m1] token_moves_names [OF m1 n] s(3)]
  from token_moves_then_frame [OF token_moves_back [OF m1 m2]] asset_neg_Inr [OF s(1)] s(4) show ?thesis by simp
qed

text \<open>Paying savings out: the savings of one account become the balance of another.\<close>

lemma savings_out_moves:
  assumes "wf_tokens (db_plugins db)" "n \<in> set (token_names (db_plugins db))" "asset_neg v = Inr neg"
    "adjust_token_savings_balance a n neg db = Inr d1" "adjust_token_balance b n v d1 = Inr d2"
  shows "token_moves (db_plugins db) (db_plugins d2) nothing"
proof -
  note m1 = adjust_token_savings_moves [OF assms(1,2,4)]
  note m2 = adjust_token_balance_moves [OF token_moves_wf [OF m1] token_moves_names [OF m1 assms(2)] assms(5)]
  from token_moves_back [OF m1 m2] asset_neg_Inr [OF assms(3)] show ?thesis by simp
qed

lemma cancel_token_savings_books:
  assumes "wf_tokens (db_plugins db)" "cancel_transfer_token_savings_apply op db = Inr db'"
  shows "token_moves (db_plugins db) (db_plugins db') nothing"
proof -
  from assms(2) obtain k and w :: token_savings_withdraw_object and minus d1 d2 where k: "require_token (cts_token op) db = Inr k"
    and s: "asset_neg (tsw_amount w) = Inr minus" "adjust_token_savings_balance (tsw_to w) (cts_token op) minus db = Inr d1"
      "adjust_token_balance (cts_from op) (cts_token op) (tsw_amount w) d1 = Inr d2" "db_plugins db' = db_plugins (remove_savings (tsw_id w) d2)"
    by (simp only: cancel_transfer_token_savings_apply_def Let_def bindR_Inr_iff of_option_Inr_iff)
      (elim exE conjE, drule charge_fee_plugins, blast)
  have "cts_token op \<in> set (token_names (db_plugins db))" using require_token_mem [OF k] token_name_mem by metis
  from token_moves_then_frame [OF savings_out_moves [OF assms(1) this s(1-3)]] s(4) show ?thesis by (simp add: remove_savings_def)
qed

lemma conclude_token_savings_books:
  assumes "wf_tokens (db_plugins db)" "conclude_transfer_token_savings_apply op db = Inr db'"
  shows "token_moves (db_plugins db) (db_plugins db') nothing"
proof -
  from assms(2) obtain k w minus d1 d2 d3 where k: "require_token (dts_token op) db = Inr k"
    and s: "asset_neg (tsw_amount w) = Inr minus" "adjust_token_savings_balance (tsw_to w) (dts_token op) minus db = Inr d1"
      "adjust_token_balance (tsw_to w) (dts_token op) (tsw_amount w) d1 = Inr d2"
      "push_virtual_operation (fill_token_savings w (tsw_amount w)) d2 = Inr d3" "db_plugins db' = db_plugins (remove_savings (tsw_id w) d3)"
    by (simp only: conclude_transfer_token_savings_apply_def Let_def bindR_Inr_iff of_option_Inr_iff)
      (elim exE conjE, drule charge_fee_plugins, blast)
  have "dts_token op \<in> set (token_names (db_plugins db))" using require_token_mem [OF k] token_name_mem by metis
  moreover have "db_plugins d3 = db_plugins d2" using push_virtual_operation_frame [OF s(4)] by simp
  ultimately show ?thesis
    using token_moves_then_frame [OF savings_out_moves [OF assms(1) _ s(1-3)]] s(5) by (simp add: remove_savings_def)
qed

lemma set_interest_books:
  assumes "wf_tokens (db_plugins db)" "set_token_staking_interest_apply op db = Inr db'"
  shows "token_moves (db_plugins db) (db_plugins db') nothing"
proof -
  from assms(2) obtain t where "db_plugins db' = (db_plugins db)\<lparr>pl_interests := t\<rparr>"
    by (auto simp: set_token_staking_interest_apply_def Let_def result_simps dest!: charge_fee_plugins)
  then show ?thesis by (intro token_moves_frame [OF assms(1)]) simp_all
qed

text \<open>
  Setting up a fund that exists takes the initial balance from the publisher and gives it to nobody.
\<close>

definition lost_in_setup :: "token_operation \<Rightarrow> chain_db \<Rightarrow> string \<Rightarrow> int" where
  "lost_in_setup op db n =
     (case op of
        Setup_token_fund o' \<Rightarrow>
          (if n = stf_token o' \<and> find_token_fund (stf_token o') (stf_fund_name o') db \<noteq> None
           then amount (stf_init_fund_balance o') else 0)
      | _ \<Rightarrow> 0)"

lemma setup_token_fund_books:
  assumes "wf_tokens (db_plugins db)" "setup_token_fund_apply op db = Inr db'" "0 \<le> amount (stf_init_fund_balance op)"
  shows "token_moves (db_plugins db) (db_plugins db') (lost_in_setup (Setup_token_fund op) db)"
proof -
  let ?v = "amount (stf_init_fund_balance op)" and ?n = "stf_token op"
  let ?c = "\<lambda>k i. \<lparr>tfn_id = i, tfn_token = stf_token op, tfn_fund_name = stf_fund_name op,
    tfn_balance = stf_init_fund_balance op, tfn_withdraw_balance = \<lparr>amount = 0, symbol = tkn_symbol k\<rparr>,
    tfn_created = head_block_time db, tfn_last_updated = head_block_time db\<rparr>"
  from assms(2) obtain k d1 d2 where k: "require_published ?n (stf_token_publisher op) db = Inr k"
    and d1: "(if ?v > 0 then bindR (asset_neg (stf_init_fund_balance op)) (\<lambda>minus.
        adjust_token_balance (stf_token_publisher op) (tkn_name k) minus db) else Inr db) = Inr d1"
    and d2: "(case find_token_fund ?n (stf_fund_name op) db of
        None \<Rightarrow> bindR (table_create token_fund_clash (?c k) (pl_funds (db_plugins d1))) (\<lambda>funds.
                Inr (modify_plugins (\<lambda>p. p\<lparr>pl_funds := funds\<rparr>) d1))
      | Some _ \<Rightarrow> Inr d1) = Inr d2" and db': "db_plugins db' = db_plugins d2"
    by (auto simp: setup_token_fund_apply_def Let_def result_simps simp del: if_True if_False dest!: charge_fee_plugins)
  have n: "?n \<in> set (token_names (db_plugins db))" "tkn_name k = ?n" using require_published_mem [OF k] token_name_mem [of k "db_plugins db"] by auto
  have m1: "token_moves (db_plugins db) (db_plugins d1) (at ?n ?v)"
  proof (cases "?v > 0")
    case True
    with d1 obtain minus where s: "asset_neg (stf_init_fund_balance op) = Inr minus"
      "adjust_token_balance (stf_token_publisher op) ?n minus db = Inr d1" using n(2) by (auto simp: result_simps)
    from adjust_token_balance_moves [OF assms(1) n(1) s(2)] asset_neg_Inr [OF s(1)] show ?thesis by simp
  next
    case False
    with d1 assms(3) token_moves_frame [OF assms(1), of "db_plugins db"] show ?thesis by (auto elim!: token_moves_cong simp: at_def)
  qed
  show ?thesis
  proof (cases "find_token_fund ?n (stf_fund_name op) db")
    case (Some f)
    with d2 m1 db' show ?thesis by (auto elim!: token_moves_cong simp: lost_in_setup_def at_def)
  next
    case None
    with d2 obtain t where t: "table_create token_fund_clash (?c k) (pl_funds (db_plugins d1)) = Inr t"
      "db_plugins d2 = (db_plugins d1)\<lparr>pl_funds := t\<rparr>" by (auto simp: result_simps)
    have "token_moves (db_plugins d1) (db_plugins d2) (at ?n (- ?v))"
      using create_fund_token_moves [OF token_moves_wf [OF m1] t(1) _ _ token_moves_names [OF m1 n(1)], of ?v] t(2) by simp
    from token_moves_back [OF m1 this] None db' show ?thesis by (auto elim!: token_moves_cong simp: lost_in_setup_def)
  qed
qed

lemma create_token_books:
  assumes "wf_tokens (db_plugins db)" "create_token_apply op db = Inr db'"
  shows "wf_tokens (db_plugins db') \<and> (\<forall>n. token_gap n (db_plugins db') = token_gap n (db_plugins db))"
proof -
  let ?p = "db_plugins db" and ?n = "ctk_name op"
  from assms(2) obtain init c t d2 where fresh: "find_token ?n db = None"
    and t: "table_create token_clash c (pl_tokens ?p) = Inr t" "\<And>i. tkn_id (c i) = i" "\<And>i. tkn_name (c i) = ?n" "\<And>i. tkn_total_balance (c i) = init"
    and b: "init_publisher_balance (ctk_publisher op) ?n init (modify_plugins (\<lambda>p. p\<lparr>pl_tokens := t\<rparr>) db) = Inr d2"
    and db': "db_plugins db' = db_plugins d2"
    by (auto simp: create_token_apply_def Let_def result_simps dest!: charge_fee_plugins)
  let ?q = "?p\<lparr>pl_tokens := t\<rparr>"
  have wt: "wf_table tkn_id (pl_tokens ?p)" using assms(1) by (simp add: wf_tokens_def)
  have new: "?n \<notin> set (token_names ?p)" using fresh by (auto simp: find_token_def table_find_def token_names_def find_None_iff)
  have rows: "wf_table tkn_id t" "tb_rows t = tb_rows (pl_tokens ?p) @ [c (tb_next (pl_tokens ?p))]"
    using wf_table_create [OF wt t(1,2)] by auto
  have names: "token_names ?q = token_names ?p @ [?n]" using rows(2) t(3) by (simp add: token_names_def)
  have wq: "wf_tokens ?q" using assms(1) new rows(1) by (auto simp: wf_tokens_def names simp del: set_map)
  have gq: "token_gap m ?q = token_gap m ?p + at ?n (amount init) m" for m
    using rows(2) t(3,4) by (simp add: token_books_defs at_def)
  have "find_token_balance (ctk_publisher op) ?n (modify_plugins (\<lambda>p. p\<lparr>pl_tokens := t\<rparr>) db) = None"
    using assms(1) new by (auto simp: find_token_balance_def table_find_def find_None_iff wf_tokens_def)
  then obtain u where u: "table_create token_balance_clash (\<lambda>i. \<lparr>tbl_id = i, tbl_account = ctk_publisher op, tbl_token = ?n, tbl_balance = init,
      tbl_savings_balance = \<lparr>amount = 0, symbol = symbol init\<rparr>,
      tbl_last_updated = head_block_time (modify_plugins (\<lambda>p. p\<lparr>pl_tokens := t\<rparr>) db)\<rparr>) (pl_balances ?q) = Inr u"
    "db_plugins d2 = ?q\<lparr>pl_balances := u\<rparr>"
    using b by (auto simp: init_publisher_balance_def Let_def result_simps)
  have "token_moves ?q (db_plugins d2) (at ?n (- amount init))"
    using create_balance_token_moves [OF wq u(1), of ?n "amount init"] names u(2) by simp
  then show ?thesis by (simp add: db' token_moves_def gq at_def)
qed

lemmas plain_token_books = transfer_token_books issue_token_books burn_token_books transfer_token_fund_books staking_token_fund_books
  transfer_token_savings_books cancel_token_savings_books conclude_token_savings_books set_interest_books

lemma token_apply_token_moves:
  assumes "wf_tokens (db_plugins db)" "token_apply tk op db = Inr db'" "\<And>o'. op \<noteq> Create_token o'" "\<And>o'. op \<noteq> Setup_token_fund o'"
  shows "token_moves (db_plugins db) (db_plugins db') nothing"
  using assms(2-4) by (cases op) (auto intro: plain_token_books [OF assms(1)])

text \<open>
  C15: the books of the tokens. A valid token operation that succeeds keeps the recorded supply of every token equal to what accounts
  and funds hold of it: creating, issuing and burning move both sides alike, every transfer, stake and savings
  request moves what is held from one place to another. The exception is setting up a fund that exists already:
  its initial balance is taken from the publisher and credited nowhere.
\<close>

theorem token_books:
  assumes "wf_tokens (db_plugins db)" "token_operation_validate tc op = Inr ()" "token_apply tk op db = Inr db'"
  shows "wf_tokens (db_plugins db')
    \<and> token_gap n (db_plugins db') = token_gap n (db_plugins db) + lost_in_setup op db n"
proof (cases "(\<exists>o'. op = Create_token o') \<or> (\<exists>o'. op = Setup_token_fund o')")
  case False
  then have "lost_in_setup op db n = 0" by (auto simp: lost_in_setup_def split: token_operation.splits)
  with token_apply_token_moves [OF assms(1,3)] False show ?thesis by (simp add: token_moves_def)
next
  case True
  then show ?thesis
  proof (elim disjE exE)
    fix o' assume op: "op = Create_token o'"
    with create_token_books [OF assms(1), of o' db'] assms(3) show ?thesis by (simp add: lost_in_setup_def)
  next
    fix o' assume op: "op = Setup_token_fund o'"
    then have "0 \<le> amount (stf_init_fund_balance o')"
      using assms(2) by (auto simp: setup_token_fund_validate_def validate_account_name_def result_simps)
    with setup_token_fund_books [OF assms(1), of o' db'] assms(3) op show ?thesis by (simp add: token_moves_def)
  qed
qed

section \<open>An example\<close>

text \<open>A token of the dapp \<open>chess\<close>: alice holds 900 units, the fund \<open>pot\<close> 100. The token symbol is a number, \<open>token_symbol ''GOLD''\<close>.\<close>

definition GOLD :: "int \<Rightarrow> asset" where
  "GOLD v = \<lparr>amount = v, symbol = 293338040070\<rparr>"

definition example_token_fund :: token_fund_object where
  "example_token_fund = \<lparr>tfn_id = 0, tfn_token = ''gold'', tfn_fund_name = ''pot'', tfn_balance = GOLD 100,
     tfn_withdraw_balance = GOLD 0, tfn_created = 0, tfn_last_updated = 0\<rparr>"

definition token_plugins :: plugin_db where
  "token_plugins = empty_plugin_db\<lparr>
     pl_dapps := \<lparr>tb_next = 1, tb_rows = [example_dapp 0 ''chess'' APPROVAL]\<rparr>,
     pl_tokens := \<lparr>tb_next = 1, tb_rows = [\<lparr>tkn_id = 0, tkn_name = ''gold'', tkn_symbol = symbol (GOLD 0), tkn_publisher = ''alice'',
       tkn_dapp_name = ''chess'', tkn_init_supply = GOLD 1000, tkn_total_balance = GOLD 1000, tkn_created = 0, tkn_last_updated = 0\<rparr>]\<rparr>,
     pl_balances := \<lparr>tb_next = 1, tb_rows = [\<lparr>tbl_id = 0, tbl_account = ''alice'', tbl_token = ''gold'', tbl_balance = GOLD 900,
       tbl_savings_balance = GOLD 0, tbl_last_updated = 0\<rparr>]\<rparr>,
     pl_funds := \<lparr>tb_next = 1, tb_rows = [example_token_fund]\<rparr>\<rparr>"

definition token_db :: chain_db where
  "token_db = example_db\<lparr>db_plugins := token_plugins\<rparr>"

definition example_setup :: setup_token_fund_operation where
  "example_setup = \<lparr>stf_token_publisher = ''alice'', stf_token = ''gold'', stf_fund_name = ''pot'', stf_init_fund_balance = GOLD 50\<rparr>"

definition example_savings :: transfer_token_savings_operation where
  "example_savings = \<lparr>tts_token = ''gold'', tts_from = ''alice'', tts_to = ''bob'', tts_request_id = 3, tts_amount = GOLD 70,
     tts_split_pay_month = 2, tts_memo = [], tts_next_date = 1600000100\<rparr>"

definition example_token_tools :: token_tools where
  "example_token_tools = \<lparr>tk_checks = accept_text, tk_interest = (\<lambda>v r. v * uint r div 100000)\<rparr>"

lemmas token_example_eval = token_db_def token_plugins_def example_token_fund_def GOLD_def empty_plugin_db_def example_dapp_def
  example_setup_def example_savings_def example_token_tools_def accept_text_def
lemmas token_helper_eval = find_token_def find_token_by_symbol_def find_token_balance_def find_token_fund_def set_balances_def
  require_token_def require_published_def adjust_token_balance_def adjust_token_savings_balance_def adjust_token_fund_balance_def covers_def
  fee_payer_def charge_fee_def adjust_dapp_reward_fund_balance_def push_virtual_operation_def modify_plugins_def
  token_balance_clash_def token_fund_clash_def token_fund_withdraw_clash_def token_savings_clash_def token_clash_def

lemma GOLD_symbol: "symbol (GOLD v) = token_symbol ''GOLD''"
  by (simp add: GOLD_def token_symbol_def widen_char_def SIGMAENGINE_BLOCKCHAIN_PRECISION_DIGITS_def)

lemma token_db_wf: "wf_tokens (db_plugins token_db)"
  by (simp add: wf_tokens_def wf_table_def token_names_def token_example_eval)

text \<open>
  Savings of 70 for bob leave the books as they are; setting up the fund \<open>pot\<close> a second time loses 50.
\<close>

theorem token_books_witness:
  "(\<exists>db'. token_apply example_token_tools (Transfer_token_savings example_savings) token_db = Inr db'
      \<and> wf_tokens (db_plugins db') \<and> token_gap ''gold'' (db_plugins db') = 0)
   \<and> (\<exists>db'. token_apply example_token_tools (Setup_token_fund example_setup) token_db = Inr db'
      \<and> token_gap ''gold'' (db_plugins db') = 50)"
proof -
  let ?run = "\<lambda>op. token_apply example_token_tools op token_db"
  have valid: "token_operation_validate accept_text (Transfer_token_savings example_savings) = Inr ()"
    "token_operation_validate accept_text (Setup_token_fund example_setup) = Inr ()"
    by (simp_all add: transfer_token_savings_validate_def setup_token_fund_validate_def validate_account_name_def name_eval is_valid_account_name_def
        is_letter_def is_let_dig_def validate_memo_def token_example_eval SIGMAENGINE_MIN_ACCOUNT_NAME_LENGTH_def
        SIGMAENGINE_MAX_ACCOUNT_NAME_LENGTH_def SIGMAENGINE_MAX_MEMO_SIZE_def SIGMAENGINE_TRANSFER_SAVINGS_MIN_MONTH_def
        SIGMAENGINE_TRANSFER_SAVINGS_MAX_MONTH_def upt_rec)
  have "is_ok (?run (Transfer_token_savings example_savings))"
    by (simp add: transfer_token_savings_apply_def token_helper_eval token_example_eval economy_eval link_savings_def savings_date_def)
  then obtain d where d: "?run (Transfer_token_savings example_savings) = Inr d" by (auto simp: is_ok_iff)
  have "is_ok (?run (Setup_token_fund example_setup))"
    by (simp add: setup_token_fund_apply_def token_helper_eval token_example_eval economy_eval)
  then obtain d' where d': "?run (Setup_token_fund example_setup) = Inr d'" by (auto simp: is_ok_iff)
  have start: "token_gap ''gold'' (db_plugins token_db) = 0" by (simp add: token_books_defs token_example_eval)
  have lost: "lost_in_setup (Transfer_token_savings example_savings) token_db ''gold'' = 0"
    "lost_in_setup (Setup_token_fund example_setup) token_db ''gold'' = 50"
    by (simp_all add: lost_in_setup_def find_token_fund_def table_find_def token_example_eval)
  show ?thesis
    using token_books [OF token_db_wf valid(1) d, of "''gold''"] token_books [OF token_db_wf valid(2) d', of "''gold''"]
    by (simp add: d d' start lost del: token_apply.simps)
qed

end
