(* ===== verification/Token_Payments.thy ===== *)
theory Token_Payments
  imports Token_Books Dapp_Comments
begin

text \<open>
  The payments the token plugin makes after every block, and two ways in which accepted operations stop the
  plugin: the loops end; a stake that its fund cannot cover stops all payments; a token whose symbol has
  seven letters stops the creation of tokens.
\<close>

section \<open>Handlers\<close>

lemma handler_step_off_books:
  assumes "\<And>d. f db = Inr d \<Longrightarrow> off_books db d" "\<And>d. off_books d (fst (k d))"
  shows "off_books db (fst (handler_step f k db))"
proof (cases "f db")
  case (Inr d)
  with off_books_trans [OF assms(1) [OF Inr] assms(2)] show ?thesis by (simp add: handler_step_def)
qed (simp add: handler_step_def)

lemma handler_step_returns:
  assumes "f db \<noteq> Inl Does_not_return" "\<And>d. f db = Inr d \<Longrightarrow> snd (k d) \<noteq> Some Does_not_return"
  shows "snd (handler_step f k db) \<noteq> Some Does_not_return"
  using assms by (cases "f db") (auto simp: handler_step_def)

lemma handler_step_done: "handler_step f k db = (db', None) \<longleftrightarrow> (\<exists>d. f db = Inr d \<and> k d = (db', None))"
  by (cases "f db") (auto simp: handler_step_def)

lemma negated_off_books: "(\<And>m d. f m db = Inr d \<Longrightarrow> off_books db d) \<Longrightarrow> negated a f db = Inr d \<Longrightarrow> off_books db d"
  by (auto simp: negated_def bindR_Inr_iff)

lemma negated_returns: "(\<And>m. f m db \<noteq> Inl Does_not_return) \<Longrightarrow> negated a f db \<noteq> Inl Does_not_return"
  by (auto simp: negated_def bindR_Inl_iff asset_returns)

lemma adjust_token_returns [returns]:
  "adjust_token_fund_balance n f d w db \<noteq> Inl Does_not_return" "adjust_token_balance a n d db \<noteq> Inl Does_not_return"
  "adjust_token_savings_balance a n d db \<noteq> Inl Does_not_return" "push_virtual_operation v db \<noteq> Inl Does_not_return"
  by (auto simp: adjust_token_fund_balance_def adjust_token_balance_def adjust_token_savings_balance_def covers_def require_ge_def
      push_virtual_operation_def Let_def failure_simps returns split: if_splits option.splits)

text \<open>Adjusting balances and recording virtual operations leave the tables of requests alone.\<close>

definition same_requests :: "chain_db \<Rightarrow> chain_db \<Rightarrow> bool" where
  "same_requests db db' \<longleftrightarrow> pl_fund_withdraws (db_plugins db') = pl_fund_withdraws (db_plugins db)
     \<and> pl_savings (db_plugins db') = pl_savings (db_plugins db) \<and> pl_savings_order (db_plugins db') = pl_savings_order (db_plugins db)
     \<and> head_block_time db' = head_block_time db"

lemma same_requests_trans: "same_requests a b \<Longrightarrow> same_requests b c \<Longrightarrow> same_requests a c"
  by (simp add: same_requests_def)

lemma same_requests_set [simp]:
  "same_requests db (set_balances t db)" "same_requests db (modify_plugins (\<lambda>p. p\<lparr>pl_funds := t'\<rparr>) db)"
  "same_requests db (modify_plugins (\<lambda>p. p\<lparr>pl_funds := table_modify i j f (pl_funds p)\<rparr>) db)"
  by (simp_all add: same_requests_def head_block_time_def set_balances_def modify_plugins_def)

lemma adjust_fund_same_requests: "adjust_token_fund_balance n f d w db = Inr db' \<Longrightarrow> same_requests db db'"
  by (auto simp: adjust_token_fund_balance_def result_simps)

lemma adjust_balance_same_requests: "adjust_token_balance a n d db = Inr db' \<Longrightarrow> same_requests db db'"
  by (auto simp: adjust_token_balance_def Let_def result_simps split: if_splits option.splits)

lemma adjust_savings_same_requests: "adjust_token_savings_balance a n d db = Inr db' \<Longrightarrow> same_requests db db'"
  by (auto simp: adjust_token_savings_balance_def Let_def result_simps split: if_splits option.splits)

lemma push_same_requests: "push_virtual_operation v db = Inr db' \<Longrightarrow> same_requests db db'"
  by (auto simp: push_virtual_operation_def result_simps same_requests_def head_block_time_def)

lemmas adjust_same_requests = adjust_fund_same_requests adjust_balance_same_requests adjust_savings_same_requests push_same_requests

section \<open>Stakes\<close>

lemma pay_token_stake_off_books: "off_books db (fst (pay_token_stake w db))"
  unfolding pay_token_stake_def
  by (intro handler_step_off_books) (auto intro: off_books_steps negated_off_books)

lemma pay_token_stake_returns: "snd (pay_token_stake w db) \<noteq> Some Does_not_return"
  unfolding pay_token_stake_def
  by (intro handler_step_returns negated_returns) (auto simp: returns)

lemma pay_token_stake_done:
  assumes "pay_token_stake w db = (db', None)"
  shows "pl_fund_withdraws (db_plugins db') = table_remove tfw_id (tfw_id w) (pl_fund_withdraws (db_plugins db))
    \<and> pl_savings (db_plugins db') = pl_savings (db_plugins db) \<and> head_block_time db' = head_block_time db"
proof -
  from assms obtain m d1 d2 d3 where s: "adjust_token_fund_balance (tfw_token w) (tfw_fund_name w) m m db = Inr d1"
    "adjust_token_balance (tfw_from w) (tfw_token w) (tfw_amount w) d1 = Inr d2"
    "push_virtual_operation (fill_token_staking w) d2 = Inr d3"
    "db' = modify_plugins (\<lambda>p. p\<lparr>pl_fund_withdraws := table_remove tfw_id (tfw_id w) (pl_fund_withdraws p)\<rparr>) d3"
    by (auto simp: pay_token_stake_def handler_step_done negated_def bindR_Inr_iff)
  have "same_requests db d3"
    by (rule same_requests_trans [OF same_requests_trans [OF adjust_same_requests(1) [OF s(1)] adjust_same_requests(2) [OF s(2)]]
          adjust_same_requests(4) [OF s(3)]])
  with s(4) show ?thesis by (simp add: same_requests_def head_block_time_def modify_plugins_def)
qed

lemma token_fund_loop_off_books: "off_books db (fst (token_fund_loop fuel db))"
proof (induction fuel arbitrary: db)
  case 0
  show ?case by (subst token_fund_loop.simps) (auto split: option.splits)
next
  case (Suc fuel)
  have "off_books db (fst (case pay_token_stake w db of (db', Some e) \<Rightarrow> (db', Some e) | (db', None) \<Rightarrow> token_fund_loop fuel db'))" for w
    using pay_token_stake_off_books [of db w] off_books_trans [OF _ Suc.IH] by (auto split: prod.splits option.splits)
  then show ?case by (subst token_fund_loop.simps) (auto split: option.splits)
qed

text \<open>The loop over the stakes ends, and unless an exception ended it no stake is due any more.\<close>

lemma table_remove_length:
  "r \<in> set (tb_rows t) \<Longrightarrow> length (tb_rows (table_remove idf (idf r) t)) < length (tb_rows t)"
  by (auto simp: table_remove_def intro: length_remove_where_mem)

lemma token_fund_loop_ends:
  assumes "length (tb_rows (pl_fund_withdraws (db_plugins db))) \<le> fuel"
  shows "snd (token_fund_loop fuel db) \<noteq> Some Does_not_return
    \<and> (snd (token_fund_loop fuel db) = None \<longrightarrow> (\<forall>w \<in> set (tb_rows (pl_fund_withdraws (db_plugins (fst (token_fund_loop fuel db))))).
         head_block_time db < tfw_complete w) \<and> pl_savings (db_plugins (fst (token_fund_loop fuel db))) = pl_savings (db_plugins db))"
  using assms
proof (induction fuel arbitrary: db)
  case 0
  then show ?case by (subst (1 2 3 4) token_fund_loop.simps) simp
next
  case (Suc fuel)
  let ?t = "pl_fund_withdraws (db_plugins db)"
  show ?case
  proof (cases "index_begin tfw_complete (tb_rows ?t)")
    case None
    then show ?thesis by (subst (1 2 3 4) token_fund_loop.simps) simp
  next
    case (Some w)
    show ?thesis
    proof (cases "tfw_complete w > head_block_time db")
      case True
      with Some index_begin_least [OF Some] show ?thesis by (subst (1 2 3 4) token_fund_loop.simps) fastforce
    next
      case False
      obtain db' e where r: "pay_token_stake w db = (db', e)" by fastforce
      show ?thesis
      proof (cases e)
        case (Some x)
        with r False \<open>index_begin _ _ = Some w\<close> pay_token_stake_returns [of w db] show ?thesis
          by (subst (1 2 3 4) token_fund_loop.simps) simp
      next
        case None
        note paid = pay_token_stake_done [OF r [unfolded None]]
        have "length (tb_rows (pl_fund_withdraws (db_plugins db'))) \<le> fuel"
          using table_remove_length [OF index_begin_mem [OF Some], of tfw_id] Suc.prems paid by simp
        from Suc.IH [OF this] paid r None False Some show ?thesis
          by (subst (1 2 3 4) token_fund_loop.simps) simp
      qed
    qed
  qed
qed

section \<open>Savings\<close>

lemma pay_token_savings_off_books:
  assumes "\<And>d. off_books d (fst (k d))"
  shows "off_books db (fst (pay_token_savings w paid k db))"
  unfolding pay_token_savings_def
  by (intro handler_step_off_books) (auto intro: off_books_steps negated_off_books assms)

lemma pay_token_savings_returns:
  assumes "\<And>d. snd (k d) \<noteq> Some Does_not_return"
  shows "snd (pay_token_savings w paid k db) \<noteq> Some Does_not_return"
  unfolding pay_token_savings_def
  by (intro handler_step_returns negated_returns) (auto simp: returns assms)

lemma pay_token_savings_done:
  assumes "pay_token_savings w paid k db = (db', None)"
  obtains d where "k d = (db', None)" "same_requests db d"
    "wf_tokens (db_plugins db) \<Longrightarrow> tsw_token w \<in> set (token_names (db_plugins db)) \<Longrightarrow> token_moves (db_plugins db) (db_plugins d) nothing"
proof -
  from assms obtain m d1 d2 d3 where s: "asset_neg paid = Inr m" "adjust_token_savings_balance (tsw_to w) (tsw_token w) m db = Inr d1"
    "adjust_token_balance (tsw_to w) (tsw_token w) paid d1 = Inr d2"
    "push_virtual_operation (fill_token_savings w paid) d2 = Inr d3" "k d3 = (db', None)"
    by (auto simp: pay_token_savings_def handler_step_done negated_def bindR_Inr_iff)
  have same: "same_requests db d3"
    by (rule same_requests_trans [OF same_requests_trans [OF adjust_same_requests(3) [OF s(2)] adjust_same_requests(2) [OF s(3)]]
          adjust_same_requests(4) [OF s(4)]])
  have "db_plugins d3 = db_plugins d2" using push_virtual_operation_frame [OF s(4)] by simp
  then have books: "token_moves (db_plugins db) (db_plugins d3) nothing"
    if "wf_tokens (db_plugins db)" "tsw_token w \<in> set (token_names (db_plugins db))"
    using savings_out_moves [OF that s(1-3)] by simp
  from that [OF s(5) same] books show ?thesis by blast
qed

lemma advance_savings_off_books: "advance_savings w paid db = Inr db' \<Longrightarrow> off_books db db'"
  by (auto simp: advance_savings_def Let_def bindR_Inr_iff)

text \<open>One turn of the loop, as a function of the row the iterator points to.\<close>

definition savings_turn :: "token_savings_withdraw_object \<Rightarrow> handler" where
  "savings_turn w db =
     (if tsw_split_pay_order w = tsw_split_pay_month w
      then pay_token_savings w (tsw_amount w) (\<lambda>db. (remove_savings (tsw_id w) db, None)) db
      else (case safe_div (amount (tsw_total_amount w)) (uint (tsw_split_pay_month w)) of
              Inl e \<Rightarrow> (db, Some e)
            | Inr q \<Rightarrow> pay_token_savings w ((tsw_total_amount w)\<lparr>amount := q\<rparr>)
                (handler_step (advance_savings w ((tsw_total_amount w)\<lparr>amount := q\<rparr>)) (\<lambda>db. (db, None))) db))"

definition savings_next :: "token_savings_withdraw_object \<Rightarrow> chain_db \<Rightarrow> nat option" where
  "savings_next w db = (if tsw_split_pay_order w = tsw_split_pay_month w then first_of (pl_savings_order (db_plugins db))
     else next_savings (tsw_id w) (pl_savings_order (db_plugins db)))"

lemma token_savings_loop_turn:
  "token_savings_loop fuel itr db =
     (case Option.bind itr (\<lambda>i. table_find (\<lambda>w. tsw_id w = i) (pl_savings (db_plugins db))) of
        None \<Rightarrow> (db, None)
      | Some w \<Rightarrow>
          (if tsw_next_date w > head_block_time db then (db, None)
           else (case fuel of
                   0 \<Rightarrow> (db, Some Does_not_return)
                 | Suc fuel \<Rightarrow>
                     (case savings_turn w db of
                        (db', Some e) \<Rightarrow> (db', Some e)
                      | (db', None) \<Rightarrow> token_savings_loop fuel (savings_next w db') db'))))"
  by (subst token_savings_loop.simps) (auto simp: savings_turn_def savings_next_def Let_def split: option.splits nat.splits sum.splits prod.splits)

lemma advance_handler:
  "off_books d (fst (handler_step (advance_savings w paid) (\<lambda>db. (db, None)) d))"
  "snd (handler_step (advance_savings w paid) (\<lambda>db. (db, None)) d) \<noteq> Some Does_not_return"
proof -
  have "advance_savings w paid d \<noteq> Inl Does_not_return"
    by (auto simp: advance_savings_def Let_def failure_simps asset_sub_def safe_sub_def split: if_splits)
  then show "snd (handler_step (advance_savings w paid) (\<lambda>db. (db, None)) d) \<noteq> Some Does_not_return"
    by (rule handler_step_returns) simp
  show "off_books d (fst (handler_step (advance_savings w paid) (\<lambda>db. (db, None)) d))"
    by (rule handler_step_off_books) (auto dest: advance_savings_off_books)
qed

lemma savings_turn_off_books: "off_books db (fst (savings_turn w db))"
proof -
  have "off_books db (fst (pay_token_savings w paid (\<lambda>db. (remove_savings (tsw_id w) db, None)) db))" for paid
    by (rule pay_token_savings_off_books) simp
  moreover have "off_books db (fst (pay_token_savings w paid (handler_step (advance_savings w paid) (\<lambda>db. (db, None))) db))" for paid
    by (rule pay_token_savings_off_books) (rule advance_handler)
  ultimately show ?thesis by (simp add: savings_turn_def split: sum.splits)
qed

lemma savings_turn_returns: "snd (savings_turn w db) \<noteq> Some Does_not_return"
proof -
  have "snd (pay_token_savings w paid (\<lambda>db. (remove_savings (tsw_id w) db, None)) db) \<noteq> Some Does_not_return" for paid
    by (rule pay_token_savings_returns) simp
  moreover have "snd (pay_token_savings w paid (handler_step (advance_savings w paid) (\<lambda>db. (db, None))) db) \<noteq> Some Does_not_return" for paid
    by (rule pay_token_savings_returns) (rule advance_handler)
  moreover have "safe_div a b \<noteq> Inl Does_not_return" for a b by (simp add: safe_div_def)
  ultimately show ?thesis by (auto simp: savings_turn_def split: sum.splits)
qed

text \<open>A turn that ends without an exception has removed the request or advanced its payment number.\<close>

lemma savings_turn_done:
  assumes "savings_turn w db = (db', None)"
  obtains (last) d where "tsw_split_pay_order w = tsw_split_pay_month w" "same_requests db d" "db' = remove_savings (tsw_id w) d"
      "wf_tokens (db_plugins db) \<Longrightarrow> tsw_token w \<in> set (token_names (db_plugins db)) \<Longrightarrow> token_moves (db_plugins db) (db_plugins d) nothing"
    | (part) d paid where "tsw_split_pay_order w \<noteq> tsw_split_pay_month w" "same_requests db d" "advance_savings w paid d = Inr db'"
      "wf_tokens (db_plugins db) \<Longrightarrow> tsw_token w \<in> set (token_names (db_plugins db)) \<Longrightarrow> token_moves (db_plugins db) (db_plugins d) nothing"
proof (cases "tsw_split_pay_order w = tsw_split_pay_month w")
  case True
  with assms have "pay_token_savings w (tsw_amount w) (\<lambda>db. (remove_savings (tsw_id w) db, None)) db = (db', None)" by (simp add: savings_turn_def)
  then show ?thesis by (rule pay_token_savings_done) (rule last [OF True], auto)
next
  case False
  with assms obtain q where "pay_token_savings w ((tsw_total_amount w)\<lparr>amount := q\<rparr>)
      (handler_step (advance_savings w ((tsw_total_amount w)\<lparr>amount := q\<rparr>)) (\<lambda>db. (db, None))) db = (db', None)"
    by (auto simp: savings_turn_def split: sum.splits)
  then show ?thesis by (rule pay_token_savings_done) (rule part [OF False], auto simp: handler_step_done)
qed

lemma payments_left_advance:
  assumes "tsw_split_pay_order w \<noteq> tsw_split_pay_month w"
  shows "payments_left (w\<lparr>tsw_amount := a, tsw_split_pay_order := tsw_split_pay_order w + 1, tsw_next_date := d, tsw_last_updated := u\<rparr>)
     = payments_left w - 1"
proof -
  let ?x = "tsw_split_pay_month w - tsw_split_pay_order w"
  have "?x \<noteq> 0" using assms by simp
  then have "unat (?x - 1) = unat ?x - 1" by (simp add: unat_minus_one)
  moreover have "?x - 1 = tsw_split_pay_month w - (tsw_split_pay_order w + 1)" by simp
  moreover have "unat ?x > 0" using \<open>?x \<noteq> 0\<close> by (simp add: unat_gt_0)
  ultimately show ?thesis by (simp add: payments_left_def)
qed

definition total_left :: "token_savings_withdraw_object table \<Rightarrow> nat" where
  "total_left t = sum_list (map payments_left (tb_rows t))"

lemma total_left_int: "int (total_left t) = sum_list (map (\<lambda>w. int (payments_left w)) (tb_rows t))"
proof -
  have "int (sum_list (map payments_left xs)) = sum_list (map (\<lambda>w. int (payments_left w)) xs)" for xs by (induction xs) auto
  then show ?thesis by (simp add: total_left_def)
qed

lemma savings_turn_decreases:
  assumes "wf_table tsw_id (pl_savings (db_plugins db))" "w \<in> set (tb_rows (pl_savings (db_plugins db)))" "savings_turn w db = (db', None)"
  shows "wf_table tsw_id (pl_savings (db_plugins db')) \<and> total_left (pl_savings (db_plugins db')) < total_left (pl_savings (db_plugins db))"
  using assms(3)
proof (cases rule: savings_turn_done)
  case (last d)
  then have "pl_savings (db_plugins db') = table_remove tsw_id (tsw_id w) (pl_savings (db_plugins db))"
    by (simp add: remove_savings_def same_requests_def)
  moreover have "int (total_left (table_remove tsw_id (tsw_id w) (pl_savings (db_plugins db))))
      = int (total_left (pl_savings (db_plugins db))) - int (payments_left w)"
    unfolding total_left_int by (rule table_remove_sum [OF assms(1,2) refl])
  moreover have "payments_left w > 0" by (simp add: payments_left_def)
  ultimately show ?thesis using assms(1) by (simp add: wf_table_remove)
next
  case (part d paid)
  then obtain a where "pl_savings (db_plugins db') = table_modify tsw_id (tsw_id w) (\<lambda>obj. obj\<lparr>tsw_amount := a,
      tsw_split_pay_order := tsw_split_pay_order obj + 1, tsw_next_date := time_add (tsw_next_date obj) SIGMAENGINE_TRANSFER_SAVINGS_CYCLE,
      tsw_last_updated := head_block_time d\<rparr>) (pl_savings (db_plugins db))" (is "_ = table_modify _ _ ?f _")
    by (auto simp: advance_savings_def Let_def bindR_Inr_iff same_requests_def)
  moreover have "int (total_left (table_modify tsw_id (tsw_id w) ?f (pl_savings (db_plugins db))))
      = int (total_left (pl_savings (db_plugins db))) - int (payments_left w) + int (payments_left (?f w))"
    unfolding total_left_int by (rule table_modify_sum [OF assms(1,2) refl])
  moreover have "payments_left (?f w) = payments_left w - 1" by (rule payments_left_advance [OF part(1)])
  moreover have "payments_left w > 0" by (simp add: payments_left_def)
  ultimately show ?thesis using assms(1) by (simp add: wf_table_modify)
qed

lemma total_left_pos: "w \<in> set (tb_rows t) \<Longrightarrow> 0 < total_left t"
  using member_le_sum_list [of "payments_left w" "map payments_left (tb_rows t)"] by (simp add: total_left_def payments_left_def)

lemma token_savings_loop_ends:
  assumes "wf_table tsw_id (pl_savings (db_plugins db))" "total_left (pl_savings (db_plugins db)) \<le> fuel"
  shows "snd (token_savings_loop fuel itr db) \<noteq> Some Does_not_return"
  using assms
proof (induction fuel arbitrary: itr db)
  case 0
  then have "table_find (\<lambda>w. tsw_id w = i) (pl_savings (db_plugins db)) = None" for i
    using total_left_pos [of _ "pl_savings (db_plugins db)"] by (fastforce simp: table_find_def find_None_iff)
  then have "Option.bind itr (\<lambda>i. table_find (\<lambda>w. tsw_id w = i) (pl_savings (db_plugins db))) = None" by (cases itr) simp_all
  then show ?case by (subst token_savings_loop_turn) simp
next
  case (Suc fuel)
  show ?case
  proof (cases "Option.bind itr (\<lambda>i. table_find (\<lambda>w. tsw_id w = i) (pl_savings (db_plugins db)))")
    case (Some w)
    then have mem: "w \<in> set (tb_rows (pl_savings (db_plugins db)))" by (cases itr) (auto simp: table_find_def dest: find_Some_mem)
    obtain db' e where r: "savings_turn w db = (db', e)" by fastforce
    show ?thesis
    proof (cases e)
      case None
      from savings_turn_decreases [OF Suc.prems(1) mem r [unfolded None]] Suc.prems(2)
      have "wf_table tsw_id (pl_savings (db_plugins db'))" "total_left (pl_savings (db_plugins db')) \<le> fuel" by auto
      from Suc.IH [OF this] Some r None show ?thesis by (subst token_savings_loop_turn) simp
    next
      case (Some x)
      with r savings_turn_returns [of w db] \<open>Option.bind _ _ = Some w\<close> show ?thesis by (subst token_savings_loop_turn) simp
    qed
  qed (subst token_savings_loop_turn, simp)
qed

lemma token_savings_loop_off_books: "off_books db (fst (token_savings_loop fuel itr db))"
proof (induction fuel arbitrary: itr db)
  case 0
  show ?case by (subst token_savings_loop_turn) (auto split: option.splits)
next
  case (Suc fuel)
  have "off_books db (fst (case savings_turn w db of (db', Some e) \<Rightarrow> (db', Some e)
      | (db', None) \<Rightarrow> token_savings_loop fuel (savings_next w db') db'))" for w
    using savings_turn_off_books [of db w] off_books_trans [OF _ Suc.IH] by (auto split: prod.splits option.splits)
  then show ?case by (subst token_savings_loop_turn) (auto split: option.splits)
qed

lemma savings_loop_keeps_stakes:
  "pl_fund_withdraws (db_plugins (fst (token_savings_loop fuel itr db))) = pl_fund_withdraws (db_plugins db)
    \<or> snd (token_savings_loop fuel itr db) \<noteq> None"
proof (induction fuel arbitrary: itr db)
  case 0
  show ?case by (subst (1 2) token_savings_loop_turn) (auto split: option.splits)
next
  case (Suc fuel)
  have turn: "pl_fund_withdraws (db_plugins db') = pl_fund_withdraws (db_plugins db)" if "savings_turn w db = (db', None)" for w db'
    using that by (cases rule: savings_turn_done)
      (auto simp: same_requests_def remove_savings_def advance_savings_def Let_def bindR_Inr_iff)
  show ?case
  proof (cases "Option.bind itr (\<lambda>i. table_find (\<lambda>w. tsw_id w = i) (pl_savings (db_plugins db)))")
    case (Some w)
    obtain db' e where r: "savings_turn w db = (db', e)" by fastforce
    with Some turn [of w db'] Suc.IH [of "savings_next w db'" db'] show ?thesis
      by (cases e) (subst (1 2) token_savings_loop_turn, simp)+
  qed (subst (1 2) token_savings_loop_turn, simp)
qed

section \<open>The handler\<close>

lemma token_on_apply_block_off_books: "off_books db (fst (token_on_apply_block db))"
proof -
  obtain d e where r: "process_token_fund_withdraw db = (d, e)" by fastforce
  have d: "off_books db d" using token_fund_loop_off_books [of db] r unfolding process_token_fund_withdraw_def by (metis fst_conv)
  have "off_books d (fst (process_token_savings_withdraws d))"
    unfolding process_token_savings_withdraws_def by (rule token_savings_loop_off_books)
  from off_books_trans [OF d this] d r show ?thesis by (cases e) (simp_all add: token_on_apply_block_def)
qed

text \<open>
  C16: the payments of the token plugin end after every block: the loop over the stakes removes one in each turn, the loop over the
  savings removes a request or advances its payment number, although it changes the index it runs over. If no exception
  cut the payments short, no stake is due any more.
\<close>

theorem token_payments_end:
  assumes "wf_table tsw_id (pl_savings (db_plugins db))" "token_on_apply_block db = (db', e)"
  shows "e \<noteq> Some Does_not_return
    \<and> (e = None \<longrightarrow> list_all (\<lambda>w. head_block_time db < tfw_complete w) (tb_rows (pl_fund_withdraws (db_plugins db'))))"
proof -
  obtain d x where r: "process_token_fund_withdraw db = (d, x)" by fastforce
  from token_fund_loop_ends [of db, OF order_refl] r have stakes: "x \<noteq> Some Does_not_return"
    "x = None \<Longrightarrow> \<forall>w \<in> set (tb_rows (pl_fund_withdraws (db_plugins d))). head_block_time db < tfw_complete w"
    "x = None \<Longrightarrow> pl_savings (db_plugins d) = pl_savings (db_plugins db)"
    unfolding process_token_fund_withdraw_def by auto
  show ?thesis
  proof (cases x)
    case (Some y)
    with stakes(1) r assms(2) show ?thesis by (auto simp: token_on_apply_block_def)
  next
    case None
    let ?loop = "token_savings_loop (total_left (pl_savings (db_plugins d))) (first_of (pl_savings_order (db_plugins d))) d"
    have loop: "?loop = (db', e)"
      using assms(2) r None by (simp add: token_on_apply_block_def process_token_savings_withdraws_def total_left_def)
    have "e \<noteq> Some Does_not_return"
      using token_savings_loop_ends [of d "total_left (pl_savings (db_plugins d))" "first_of (pl_savings_order (db_plugins d))"]
        stakes(3) None assms(1) loop by simp
    moreover have "pl_fund_withdraws (db_plugins db') = pl_fund_withdraws (db_plugins d)" if "e = None"
      using savings_loop_keeps_stakes [of "total_left (pl_savings (db_plugins d))" "first_of (pl_savings_order (db_plugins d))" d] loop that by simp
    ultimately show ?thesis using stakes(2) None by (simp add: list_all_iff)
  qed
qed

text \<open>
  When the fund of the stake that is due first does not hold what the stake is to be paid, with its interest, nothing at all is paid:
  the exception ends the handler before it has changed anything, after this block and after
  every later one until the fund is filled up, and neither other stakes nor savings of any token are paid.
\<close>

theorem uncovered_stake_stops_payments:
  assumes "index_begin tfw_complete (tb_rows (pl_fund_withdraws (db_plugins db))) = Some w" "tfw_complete w \<le> head_block_time db"
    and "find_token_fund (tfw_token w) (tfw_fund_name w) db = Some f"
    and "amount (tfn_balance f) < amount (tfw_amount w)" "0 < amount (tfw_amount w)"
  shows "\<exists>e. token_on_apply_block db = (db, Some e)"
proof -
  have "\<exists>e. negated (tfw_amount w) (\<lambda>m. adjust_token_fund_balance (tfw_token w) (tfw_fund_name w) m m) db = Inl e"
  proof (cases "asset_neg (tfw_amount w)")
    case (Inr m)
    then have m: "amount m = - amount (tfw_amount w)" "symbol m = symbol (tfw_amount w)" using asset_neg_Inr by blast+
    have "\<exists>e. covers (tfn_balance f) m = Inl e"
    proof (cases "covers (tfn_balance f) m")
      case (Inr u)
      then obtain mm where mm: "asset_neg m = Inr mm" "require_ge (tfn_balance f) mm = Inr ()"
        using m(1) assms(5) by (auto simp: covers_def bindR_Inr_iff)
      then have "amount mm = amount (tfw_amount w)" using asset_neg_Inr m(1) by fastforce
      with mm(2) assms(4) show ?thesis by (auto simp: require_ge_def asset_ge_def asset_lt_def bindR_Inr_iff fc_assert_Inr_iff)
    qed simp
    with Inr assms(3) show ?thesis by (auto simp: negated_def adjust_token_fund_balance_def fc_assert_def)
  qed (simp add: negated_def)
  then obtain e where "pay_token_stake w db = (db, Some e)" by (auto simp: pay_token_stake_def handler_step_def)
  moreover have "length (tb_rows (pl_fund_withdraws (db_plugins db))) = Suc n \<Longrightarrow> token_fund_loop (Suc n) db = (db, Some e)" for n
    using assms(1,2) calculation by (subst token_fund_loop.simps) simp
  moreover have "tb_rows (pl_fund_withdraws (db_plugins db)) \<noteq> []" using index_begin_mem [OF assms(1)] by auto
  then obtain n where "length (tb_rows (pl_fund_withdraws (db_plugins db))) = Suc n" by (cases "tb_rows (pl_fund_withdraws (db_plugins db))") auto
  ultimately have "process_token_fund_withdraw db = (db, Some e)" by (simp add: process_token_fund_withdraw_def)
  then show ?thesis by (simp add: token_on_apply_block_def)
qed

section \<open>Symbols of seven letters\<close>

lemma nth_to_bytes: "i < k \<Longrightarrow> to_bytes k n ! i = n div 256 ^ i mod 256"
proof (induction k arbitrary: i n)
  case (Suc k)
  then show ?case by (cases i) (auto simp: div_mult2_eq)
qed simp

lemma widen_char_low: "take_bit 8 (widen_char c) = of_nat (of_char c)"
proof -
  let ?x = "int (of_char c)"
  let ?v = "if ?x < 128 then ?x else ?x - 256"
  have "(of_char c :: nat) < 256" by simp
  then have x: "0 \<le> ?x" "?x < 256" by linarith+
  have t: "take_bit 8 (of_int k :: 64 word) = of_int (take_bit 8 k)" for k :: int
    by (rule bit_eqI) (auto simp: bit_take_bit_iff bit_word_of_int_iff)
  have v: "take_bit 8 ?v = ?x"
  proof (cases "?x < 128")
    case True
    then show ?thesis using x by (simp add: take_bit_eq_mod)
  next
    case False
    have "(?x - 256) mod 256 = ?x mod 256" by (simp add: mod_diff_right_eq)
    then show ?thesis using x False by (simp add: take_bit_eq_mod)
  qed
  have "widen_char c = of_int ?v" by (simp add: widen_char_def)
  then have "take_bit 8 (widen_char c) = of_int ?x" using t [of ?v] v by (simp only:)
  then show ?thesis by simp
qed

lemma symbol_bits_last:
  assumes "c \<noteq> CHR 0x00" 
  shows "drop_bit 56 (s OR push_bit 56 (widen_char c)) \<noteq> 0"
proof
  assume a: "drop_bit 56 (s OR push_bit 56 (widen_char c)) = 0"
  have "bit (widen_char c) n \<Longrightarrow> n < 8 \<Longrightarrow> False" for n
  proof -
    assume b: "bit (widen_char c) n" "n < 8"
    have "bit (drop_bit 56 (s OR push_bit 56 (widen_char c))) n"
      using b by (auto simp: bit_drop_bit_eq bit_or_iff bit_push_bit_iff)
    with a show False by simp
  qed
  then have "take_bit 8 (widen_char c) = 0" by (intro bit_eqI) (auto simp: bit_take_bit_iff)
  then have "(of_nat (of_char c) :: 64 word) = 0" by (simp add: widen_char_low)
  then have "2 ^ 64 dvd (of_char c :: nat)" by (simp add: word_of_nat_eq_0_iff)
  moreover have "(of_char c :: nat) < 256" by simp
  ultimately have "(of_char c :: nat) = 0" using nat_dvd_not_less [of "of_char c" "2 ^ 64"] by fastforce
  then have "(of_char c :: nat) = of_char CHR 0x00" by simp
  with assms show False by (simp only: of_char_eq_iff)
qed

lemma token_symbol_top:
  assumes "length u = 7" "last u \<noteq> CHR 0x00"
  shows "to_bytes 8 (token_symbol u) ! 7 \<noteq> 0"
proof -
  from assms(1) obtain a b c d e f g where u: "u = [a, b, c, d, e, f, g]"
    by (auto simp: length_Suc_conv numeral_eq_Suc)
  let ?s = "symbol_bits 0 u (of_nat SIGMAENGINE_BLOCKCHAIN_PRECISION_DIGITS)"
  have "drop_bit 56 ?s \<noteq> 0" unfolding u symbol_bits.simps
    using symbol_bits_last [of g] assms(2) by (simp add: u del: drop_bit_or)
  then have "unat (drop_bit 56 ?s) \<noteq> 0" by (simp add: unat_eq_0)
  then have nz: "unat ?s div 2 ^ 56 \<noteq> 0" unfolding unat_drop_bit_eq by (simp only: drop_bit_eq_div not_False_eq_True)
  have "unat ?s < 2 ^ 64" using unsigned_less [of ?s] by simp
  then have "unat ?s div 2 ^ 56 < 256" by (simp add: less_mult_imp_div_less)
  with nz show ?thesis by (simp add: nth_to_bytes token_symbol_def)
qed

text \<open>
  A valid operation may create a token whose symbol has seven characters. Its last character fills the
  byte that must be zero, so reading the name of the symbol fails; creating a token reads
  the names of all symbols, so from then on no operation can create a token.
\<close>

theorem long_symbol_stops_creation:
  assumes "create_token_apply op db = Inr db'" "length (ctk_symbol_name op) = 7" "to_upper_char (last (ctk_symbol_name op)) \<noteq> CHR 0x00"
  shows "\<exists>e. create_token_apply op' db' = Inl e"
proof (cases "create_token_apply op' db'")
  case (Inr d)
  let ?u = "map to_upper_char (ctk_symbol_name op)" and ?bad = "\<lambda>k. symbol (tkn_init_supply k) = token_symbol (map to_upper_char (ctk_symbol_name op))"
  have "\<exists>k \<in> set (tb_rows (pl_tokens (db_plugins db'))). ?bad k"
  proof -
    from assms(1) obtain c t d2 where t: "table_create token_clash c (pl_tokens (db_plugins db)) = Inr t" "\<And>i. ?bad (c i)"
      and d2: "init_publisher_balance (ctk_publisher op) (ctk_name op) (tkn_init_supply (c 0)) (modify_plugins (\<lambda>p. p\<lparr>pl_tokens := t\<rparr>) db) = Inr d2"
        "db_plugins db' = db_plugins d2"
      by (auto simp: create_token_apply_def Let_def result_simps dest!: charge_fee_plugins)
    have "pl_tokens (db_plugins d2) = t" using d2(1) by (auto simp: init_publisher_balance_def Let_def result_simps split: option.splits)
    moreover have "c (tb_next (pl_tokens (db_plugins db))) \<in> set (tb_rows t)" using t(1) by (auto simp: table_create_def Let_def result_simps)
    ultimately show ?thesis using t(2) d2(2) by auto
  qed
  then obtain k where k: "k \<in> set (tb_rows (pl_tokens (db_plugins db')))" "?bad k" by blast
  have "last ?u \<noteq> CHR 0x00" using assms(2,3) by (cases "ctk_symbol_name op") (auto simp: last_map simp del: list.map)
  then have "to_bytes 8 (symbol (tkn_init_supply k)) ! 7 \<noteq> 0" using token_symbol_top [of ?u] assms(2) k(2) by simp
  then have bad: "symbol_name (tkn_init_supply k) = Inl (Assert_exception Bad_symbol_encoding)" by (simp add: symbol_name_def Let_def fc_assert_def)
  let ?f = "\<lambda>u _ k. bindR (symbol_name (tkn_init_supply k)) (\<lambda>used. fc_assert (used \<noteq> u) Token_exists (Inr ()))"
  from Inr obtain u where run: "foldR (?f u) () (sort_key tkn_symbol (tb_rows (pl_tokens (db_plugins db')))) = Inr ()"
    by (auto simp: create_token_apply_def Let_def result_simps)
  have "foldR (?f u) () xs = Inr () \<Longrightarrow> k \<notin> set xs" for xs
    by (induction xs) (auto simp: bad bindR_Inr_iff)
  with run k(1) show ?thesis by (metis set_sort)
qed simp

section \<open>An example\<close>

text \<open>
  A stake of 100 units that is to be paid back with ten percent of interest: the fund holds the 100
  only. Covered stakes are paid: \<open>covered_db\<close> has a stake of 100.
\<close>

definition example_stake :: "int \<Rightarrow> token_fund_withdraw_object" where
  "example_stake v = \<lparr>tfw_id = 0, tfw_from = ''alice'', tfw_token = ''gold'', tfw_fund_name = ''pot'', tfw_memo = [], tfw_request_id = 5,
     tfw_amount = GOLD v, tfw_complete = 1500000000, tfw_created = 0\<rparr>"

definition staked_db :: "int \<Rightarrow> chain_db" where
  "staked_db v = token_db\<lparr>db_plugins := token_plugins\<lparr>
     pl_funds := \<lparr>tb_next = 1, tb_rows = [example_token_fund\<lparr>tfn_withdraw_balance := GOLD 110\<rparr>]\<rparr>,
     pl_fund_withdraws := \<lparr>tb_next = 1, tb_rows = [example_stake v]\<rparr>\<rparr>\<rparr>"

definition diamonds :: create_token_operation where
  "diamonds = \<lparr>ctk_name = ''diamond'', ctk_symbol_name = ''DIAMOND'', ctk_publisher = ''alice'', ctk_dapp_key = 1, ctk_dapp_name = ''chess'',
     ctk_init_supply_amount = 10\<rparr>"

definition diamond_db :: chain_db where
  "diamond_db = token_db\<lparr>db_plugins := token_plugins\<lparr>pl_tokens := empty_table, pl_balances := empty_table, pl_funds := empty_table\<rparr>\<rparr>"

lemmas payment_eval = staked_db_def example_stake_def token_example_eval token_helper_eval economy_eval

theorem token_payments_end_witness:
  "\<exists>db'. token_on_apply_block (staked_db 100) = (db', None)
     \<and> list_all (\<lambda>w. head_block_time (staked_db 100) < tfw_complete w) (tb_rows (pl_fund_withdraws (db_plugins db')))
     \<and> map tbl_balance (tb_rows (pl_balances (db_plugins db'))) = [GOLD 1000]"
proof -
  let ?r = "token_on_apply_block (staked_db 100)"
  have r: "snd ?r = None \<and> map tbl_balance (tb_rows (pl_balances (db_plugins (fst ?r)))) = [GOLD 1000]"
    by (simp add: token_on_apply_block_def process_token_fund_withdraw_def process_token_savings_withdraws_def token_fund_loop.simps
        token_savings_loop.simps pay_token_stake_def fill_token_staking_def handler_step_def negated_def first_of_def remove_where_def payment_eval)
  have "wf_table tsw_id (pl_savings (db_plugins (staked_db 100)))" by (simp add: payment_eval wf_table_def)
  from token_payments_end [OF this, of "fst ?r" "snd ?r"] r show ?thesis by (cases ?r) simp
qed

theorem uncovered_stake_stops_payments_witness:
  "index_begin tfw_complete (tb_rows (pl_fund_withdraws (db_plugins (staked_db 110)))) = Some (example_stake 110)
     \<and> (\<exists>e. token_on_apply_block (staked_db 110) = (staked_db 110, Some e))"
proof -
  let ?f = "example_token_fund\<lparr>tfn_withdraw_balance := GOLD 110\<rparr>"
  have h: "index_begin tfw_complete (tb_rows (pl_fund_withdraws (db_plugins (staked_db 110)))) = Some (example_stake 110)"
    "tfw_complete (example_stake 110) \<le> head_block_time (staked_db 110)"
    "find_token_fund (tfw_token (example_stake 110)) (tfw_fund_name (example_stake 110)) (staked_db 110) = Some ?f"
    "amount (tfn_balance ?f) < amount (tfw_amount (example_stake 110))" "0 < amount (tfw_amount (example_stake 110))"
    by (simp_all add: payment_eval)
  with uncovered_stake_stops_payments [OF h] show ?thesis by simp
qed

theorem long_symbol_stops_creation_witness:
  "\<exists>db' e. create_token_apply diamonds diamond_db = Inr db'
     \<and> create_token_apply (diamonds\<lparr>ctk_symbol_name := ''RUBY''\<rparr>) db' = Inl e"
proof -
  let ?r = "create_token_apply diamonds diamond_db"
  have sy: "token_symbol ''DIAMOND'' = 4921958635988927494"
    by (simp add: token_symbol_def widen_char_def SIGMAENGINE_BLOCKCHAIN_PRECISION_DIGITS_def)
  have bytes: "to_bytes 8 n = to_bytes (Suc (Suc (Suc (Suc (Suc (Suc (Suc (Suc 0)))))))) n" for n
    by (simp add: eval_nat_numeral del: to_bytes.simps)
  have core: "symbol_name \<lparr>amount = v, symbol = SGT_SYMBOL\<rparr> = Inr ''TNC''" for v
    by (simp add: symbol_name_def SGT_SYMBOL_def bytes c_string_def char_of_eq_iff)
  have prec: "precision \<lparr>amount = v, symbol = 4921958635988927494\<rparr> = Inr 1000000" for v
    by (simp add: precision_def decimals_def precision_table_def bytes)
  have "is_ok ?r"
    by (simp add: create_token_apply_def diamonds_def diamond_db_def require_dapp_def find_dapp_def init_publisher_balance_def
        to_upper_char_def sy core prec payment_eval)
  then obtain db' where db': "?r = Inr db'" by (auto simp: is_ok_iff)
  have "length (ctk_symbol_name diamonds) = 7" "to_upper_char (last (ctk_symbol_name diamonds)) \<noteq> CHR 0x00"
    by (simp_all add: diamonds_def to_upper_char_def)
  from long_symbol_stops_creation [OF db' this, of "diamonds\<lparr>ctk_symbol_name := ''RUBY''\<rparr>"] db' show ?thesis by blast
qed

end
