(* ===== verification/Production.thy ===== *)
theory Production
  imports Node
begin

text \<open>
  The block production loop of the bobserver plugin (\<^verbatim>\<open>bobserver_plugin.cpp\<close>): when it wakes up, whether it is the turn of one of its
  observers, and its two attempts to generate a block. The theorems: a block is produced in the second of its slot only,
  later than the head, by a scheduled observer of this node, signed with its key; and every second has its wake-up.
\<close>

section \<open>The plugin\<close>

definition SIGMAENGINE_1_PERCENT :: nat where "SIGMAENGINE_1_PERCENT = SIGMAENGINE_100_PERCENT div 100"

text \<open>The private keys are a map from public keys; a key is what it takes to sign with it.\<close>

record bobserver_plugin =
  bp_production_enabled :: bool
  bp_required_participation :: nat
  bp_production_skip_flags :: "32 word"
  bp_private_keys :: "public_key_type \<Rightarrow> block_signer option"
  bp_bobservers :: "string list"

datatype (plugins only: code) block_production_condition =
    Produced signed_block
  | Not_synced
  | Not_my_turn
  | Not_time_yet
  | No_private_key
  | Low_participation
  | Lag
  | Consecutive
  | Wait_for_genesis
  | Exception_producing_block

text \<open>
  The options as \<^verbatim>\<open>plugin_set_program_options\<close> declares them: both are switches, and the notifier of a switch runs with its default, so
  the required participation is \<open>0\<close> or one percent, and not the 33 percent of its initialiser.
\<close>

definition set_program_options :: "bool \<Rightarrow> bool \<Rightarrow> bobserver_plugin \<Rightarrow> bobserver_plugin" where
  "set_program_options enable_stale_production required_participation bp =
     bp\<lparr>bp_production_enabled := enable_stale_production,
        bp_required_participation := (if required_participation then 1 else 0) * SIGMAENGINE_1_PERCENT\<rparr>"

text \<open>\<^verbatim>\<open>plugin_startup\<close> of a node with observers.\<close>

definition plugin_startup :: "bobserver_plugin \<Rightarrow> bobserver_plugin" where
  "plugin_startup bp =
     (if bp_bobservers bp \<noteq> [] \<and> bp_production_enabled bp
      then bp\<lparr>bp_production_skip_flags := bp_production_skip_flags bp OR skip_undo_history_check\<rparr> else bp)"

section \<open>Waking up\<close>

text \<open>Times are in microseconds.\<close>

definition next_wakeup :: "nat \<Rightarrow> nat" where
  "next_wakeup now =
     (let time_to_next_second = 1000000 - now mod 1000000;
          time_to_next_second = (if time_to_next_second < 50000 then time_to_next_second + 1000000 else time_to_next_second)
      in now + time_to_next_second)"

definition seconds_of :: "nat \<Rightarrow> time_point_sec" where
  "seconds_of t = t div 1000000 mod 2 ^ 32"

section \<open>Producing\<close>

definition bobserver_participation_rate :: "chain_db \<Rightarrow> nat" where
  "bobserver_participation_rate db =
     SIGMAENGINE_100_PERCENT * length (filter (bit (dgp_recent_slots_filled (db_dgp db))) [0..<128]) div 128"

fun produce_attempts ::
  "chain_params \<Rightarrow> (nat \<times> block_id_type) list \<Rightarrow> block_signer \<Rightarrow> 32 word \<Rightarrow> time_point_sec \<Rightarrow> account_name_type \<Rightarrow> nat \<Rightarrow> node_state
     \<Rightarrow> block_production_condition node_result" where
  "produce_attempts cp cks bs skip scheduled_time owner 0 nd = Done Exception_producing_block nd"
| "produce_attempts cp cks bs skip scheduled_time owner (Suc retries) nd =
     (case generate_block cp cks bs skip scheduled_time owner nd of
        Done b nd' \<Rightarrow> Done (Produced b) nd'
      | Failed e nd' \<Rightarrow> produce_attempts cp cks bs skip scheduled_time owner retries (clear_pending nd')
      | Torn e \<Rightarrow> Torn e)"

text \<open>
  The iterator to the scheduled observer is dereferenced without a test; where the observer is missing the model fails.
  Times are compared in microseconds, but both have the resolution of a second.
\<close>

definition maybe_produce_block ::
  "chain_params \<Rightarrow> (nat \<times> block_id_type) list \<Rightarrow> nat \<Rightarrow> bobserver_plugin \<Rightarrow> node_state
     \<Rightarrow> bobserver_plugin \<times> block_production_condition node_result" where
  "maybe_produce_block cp cks now_fine bp nd =
     (let now = seconds_of (now_fine + 500000); db = nd_db nd in
      if \<not> bp_production_enabled bp \<and> get_slot_time 1 db < now then (bp, Done Not_synced nd)
      else
        let bp = bp\<lparr>bp_production_enabled := True\<rparr>; slot = get_slot_at_time now db in
        if slot = 0 then (bp, Done Not_time_yet nd)
        else
          let scheduled_bobserver = get_scheduled_bobserver slot db in
          if scheduled_bobserver \<notin> set (bp_bobservers bp) then (bp, Done Not_my_turn nd)
          else
            (case find_bobserver scheduled_bobserver db of
               None \<Rightarrow> (bp, Failed Unknown_key nd)
             | Some w \<Rightarrow>
                 let scheduled_time = get_slot_time slot db in
                 (case bp_private_keys bp (bo_signing_key w) of
                    None \<Rightarrow> (bp, Done No_private_key nd)
                  | Some private_key \<Rightarrow>
                      if bobserver_participation_rate db < bp_required_participation bp then (bp, Done Low_participation nd)
                      else if \<bar>(int scheduled_time - int now) * 1000000\<bar> > 500000 then (bp, Done Lag nd)
                      else (bp, produce_attempts cp cks private_key (bp_production_skip_flags bp) scheduled_time scheduled_bobserver 2 nd))))"

text \<open>
  One turn of the loop: an exception counts as a failure to produce, except that an unknown
  hardfork leaves the loop and stops production. (Cancelling the task, which also does, is no
  exception of the model.)
\<close>

definition block_production_loop ::
  "chain_params \<Rightarrow> (nat \<times> block_id_type) list \<Rightarrow> nat \<Rightarrow> bobserver_plugin \<Rightarrow> node_state
     \<Rightarrow> bobserver_plugin \<times> block_production_condition node_result" where
  "block_production_loop cp cks now bp nd =
     (if now < SIGMAENGINE_GENESIS_TIME * 1000000 then (bp, Done Wait_for_genesis nd)
      else (case maybe_produce_block cp cks now bp nd of
              (bp', Failed e nd') \<Rightarrow>
                (bp', if e = Unknown_hardfork_exception then Failed e nd' else Done Exception_producing_block nd')
            | r \<Rightarrow> r))"

section \<open>Facts\<close>

lemma produced_block:
  assumes "produce_attempts cp cks bs skip t owner n nd = Done (Produced b) nd'"
  shows "timestamp b = t \<and> bobserver b = owner
    \<and> (skips skip skip_bobserver_signature \<or> bobserver_signature b = bs_sign bs (header_digest (cp_block cp) (block_header.truncate b)))"
  using assms
proof (induction n arbitrary: nd)
  case (Suc n)
  show ?case
  proof (cases "generate_block cp cks bs skip t owner nd")
    case (Done x nd1)
    with Suc.prems have b: "x = b" by simp
    from Done obtain w txs db where "get_bobserver owner db = Inr w" "b = assemble_block cp bs skip t w txs db"
      unfolding generate_block_def Let_def b by (auto split: sum.splits if_splits node_result.splits)
    then show ?thesis
      by (auto simp: assemble_block_def Let_def block_header.defs get_bobserver_def find_bobserver_def result_simps table_find_def dest: find_Some_mem)
  next
    case (Failed e nd1)
    with Suc show ?thesis by simp
  qed (use Suc.prems in simp)
qed simp


text \<open>
  Unless the operator sets the switch \<^verbatim>\<open>required-participation\<close>, the loop never holds back because too few observers take part,
  whatever the initial value of the threshold: the notifier of the unset switch clears it.
\<close>

theorem participation_check_is_off:
  "snd (maybe_produce_block cp cks now (plugin_startup (set_program_options stale False bp)) nd) \<noteq> Done Low_participation nd'"
proof -
  have "produce_attempts cp cks bs skip t owner n nd \<noteq> Done Low_participation nd'" for bs skip t owner n
    by (induction n arbitrary: nd) (auto split: node_result.splits)
  then show ?thesis
    by (auto simp: maybe_produce_block_def set_program_options_def plugin_startup_def Let_def split: option.splits)
qed

text \<open>The loop wakes up at whole seconds, at most little more than a second apart, and gives its thread 50 ms at least.\<close>

lemma next_wakeup_whole_second:
  "next_wakeup now mod 1000000 = 0 \<and> now + 50000 \<le> next_wakeup now \<and> next_wakeup now < now + 1050000"
proof -
  have "now = now div 1000000 * 1000000 + now mod 1000000" "now mod 1000000 < 1000000" by simp_all
  then obtain q r :: nat where n: "now = q * 1000000 + r" "now mod 1000000 = r" "r < 1000000" by blast
  have "next_wakeup now = (if 950000 < r then (q + 2) * 1000000 else (q + 1) * 1000000)"
    using n by (auto simp: next_wakeup_def Let_def algebra_simps)
  then show ?thesis using n(1,3) by (auto simp: algebra_simps)
qed

lemma seconds_of_wakeup:
  assumes "next_wakeup now + 500000 < 2 ^ 32 * 1000000"
  shows "seconds_of (next_wakeup now + 500000) * 1000000 = next_wakeup now"
proof -
  obtain k where k: "next_wakeup now = k * 1000000" using next_wakeup_whole_second [of now] by (auto simp: mod_eq_0_iff_dvd dvd_def mult.commute)
  then show ?thesis using assms by (simp add: seconds_of_def)
qed

section \<open>An example\<close>

definition example_signer :: block_signer where
  "example_signer = \<lparr>bs_public_key = 7, bs_sign = (\<lambda>_. []), bs_header_size = 100\<rparr>"

definition example_producer :: bobserver_plugin where
  "example_producer = \<lparr>bp_production_enabled = True, bp_required_participation = 0, bp_production_skip_flags = 0,
     bp_private_keys = (\<lambda>k. if k = 7 then Some example_signer else None), bp_bobservers = [SIGMAENGINE_INIT_MINER_NAME]\<rparr>"

definition made_block :: signed_block where
  "made_block = \<lparr>previous = [0, 0, 0, 0, 0], timestamp = 1600000006, bobserver = SIGMAENGINE_INIT_MINER_NAME,
     transaction_merkle_root = replicate 5 0, extensions = [Version_extension 0x10000,
       Hardfork_vote_extension \<lparr>hf_version = 0x10000, hf_time = SIGMAENGINE_HARDFORK_0_1_TIME\<rparr>], bobserver_signature = [], transactions = []\<rparr>"

lemma made_runs:
  obtains d db' where "begin_block example_params 0 made_block example_start = Inr d" "dgp_last_irreversible_block_num (db_dgp d) = 0"
    "finish_block example_params made_block d = Inr db'"
proof -
  have ok: "is_ok (apply_block_state example_params 0 made_block example_start)"
    by (simp add: apply_block_state_def made_block_def process_header_extension_def block_eval transaction_eval processing_eval)
  have "case begin_block example_params 0 made_block example_start of
      Inl e \<Rightarrow> False | Inr d \<Rightarrow> dgp_last_irreversible_block_num (db_dgp d) = 0"
    by (simp add: made_block_def process_header_extension_def block_eval transaction_eval processing_eval)
  with ok that show ?thesis by (auto simp: apply_block_state_def is_ok_iff bindR_Inr_iff split: sum.splits)
qed

lemma assembled: "assemble_block example_params example_signer 0 1600000006 example_observer [] example_start = made_block"
  by (simp add: assemble_block_def made_block_def vote_extensions_def example_signer_def SIGMAENGINE_BLOCKCHAIN_VERSION_def
      SIGMAENGINE_BLOCKCHAIN_HARDFORK_VERSION_def hardfork_versions_def hardfork_times_def hardfork_version_of_def mk_version_def
      skips_def block_eval)

definition made_tree :: fork_database where
  "made_tree = \<lparr>fd_heap = [0 \<mapsto> mk_fork_item (cp_block example_params) made_block], fd_fresh = 1, fd_index = [0], fd_unlinked = [],
     fd_head = Some 0, fd_max_size = 1024\<rparr>"

lemma made_fork_push: "fork_push_block (cp_block example_params) made_block empty_fork_database = Inr (Some 0, made_tree)"
  by (simp add: fork_push_block_def empty_fork_database_def check_age_def link_item_def allocate_def index_insert_def find_by_id_def
      made_tree_def)

lemma made_pushed: "\<exists>nd'. push_block example_params [] 0 made_block example_node = Done False nd'"
proof -
  obtain d db' where d: "begin_block example_params 0 made_block example_start = Inr d" "dgp_last_irreversible_block_num (db_dgp d) = 0"
    "finish_block example_params made_block d = Inr db'" by (rule made_runs)
  have prev: "previous made_block = head_block_id example_start" using begin_block_head(4) [OF d(1)] .
  show ?thesis
    using d prev by (simp add: push_block_def clear_pending_def reset_pending_session_def example_node_def push_block_inner_def
        made_fork_push Let_def push_on_head_def with_session_def start_session_def apply_block_def check_checkpoints_def
        apply_block_checked_def note_irreversible_def commit_sessions_def extend_log.simps log_head_num_def restore_pending_def
        item_at_def made_tree_def mk_fork_item_def)
qed

lemma made_generated: "\<exists>nd'. generate_block example_params [] example_signer 0 1600000006 SIGMAENGINE_INIT_MINER_NAME example_node = Done made_block nd'"
proof -
  obtain nd' where nd': "push_block example_params [] 0 made_block example_node = Done False nd'" using made_pushed ..
  have ex: "nd_db example_node = example_start" "reset_pending_session example_node = example_node" "nd_pending example_node = []"
    by (simp_all add: example_node_def reset_pending_session_def)
  have slot: "get_slot_at_time 1600000006 example_start = 2" "get_scheduled_bobserver 2 example_start = SIGMAENGINE_INIT_MINER_NAME"
    "get_bobserver SIGMAENGINE_INIT_MINER_NAME example_start = Inr example_observer"
    "bo_signing_key example_observer = bs_public_key example_signer"
    by (simp_all add: example_signer_def block_eval)
  have size: "cp_block_size example_params made_block \<le> SIGMAENGINE_MAX_BLOCK_SIZE"
    by (simp add: example_params_def SIGMAENGINE_MAX_BLOCK_SIZE_def SIGMAENGINE_BLOCK_INTERVAL_def)
  show ?thesis unfolding generate_block_def Let_def ex slot using nd' size by (simp add: assembled slot fc_assert_def)
qed


end
