(* ===== verification/Bobserver_Plugin.thy ===== *)
theory Bobserver_Plugin
  imports Token
begin

text \<open>
  What the bobserver plugin adds to the chain besides producing blocks (\<^verbatim>\<open>bobserver_plugin.cpp\<close>, \<^verbatim>\<open>bobserver_operations.cpp\<close>,
  \<^verbatim>\<open>bobserver_evaluators.cpp\<close>): its one custom operation, the reserve ratio it updates after every block, and what it does
  before and after an operation: it refuses a memo that gives away a key and a second custom operation of an account,
  both on a producing node only, and it counts transfers.
\<close>

section \<open>The custom operation\<close>

record enable_content_editing_operation =
  ece_account :: account_name_type
  ece_relock_time :: time_point_sec

definition enable_content_editing_validate :: "enable_content_editing_operation \<Rightarrow> unit result" where
  "enable_content_editing_validate o' = validate_account_name (ece_account o') (Inr ())"

definition bobserver_required_authorities :: "enable_content_editing_operation \<Rightarrow> required_authorities \<Rightarrow> required_authorities" where
  "bobserver_required_authorities o' r = need_active [ece_account o'] r"

definition enable_content_editing_apply :: "enable_content_editing_operation \<Rightarrow> chain_db \<Rightarrow> chain_db result" where
  "enable_content_editing_apply o' db =
     (let t = pl_edit_locks (db_plugins db) in
      bindR (case table_find (\<lambda>l. cel_account l = ece_account o') t of
               None \<Rightarrow> table_create edit_lock_clash (\<lambda>i. \<lparr>cel_id = i, cel_account = ece_account o', cel_lock_time = ece_relock_time o'\<rparr>) t
             | Some l \<Rightarrow> Inr (table_modify cel_id (cel_id l) (\<lambda>l. l\<lparr>cel_lock_time := ece_relock_time o'\<rparr>) t)) (\<lambda>t.
      Inr (modify_plugins (\<lambda>p. p\<lparr>pl_edit_locks := t\<rparr>) db)))"

section \<open>The reserve ratio\<close>

definition SIGMAENGINE_MAX_RESERVE_RATIO :: int where "SIGMAENGINE_MAX_RESERVE_RATIO = 20000"
definition RESERVE_RATIO_PRECISION :: int where "RESERVE_RATIO_PRECISION = 10000"
definition RESERVE_RATIO_MIN_INCREMENT :: int where "RESERVE_RATIO_MIN_INCREMENT = 5000"
definition DISTANCE_CALC_PRECISION :: int where "DISTANCE_CALC_PRECISION = 10000"

text \<open>
  The product with the 32 bit average is an \<^verbatim>\<open>int\<close>, the sum with the size of the block a \<^verbatim>\<open>size_t\<close>; the ratio
  and the distance are 64 bits wide.
\<close>

definition wrap32 :: "int \<Rightarrow> int" where
  "wrap32 x = (x + 2 ^ 31) mod 2 ^ 32 - 2 ^ 31"

definition next_average :: "int \<Rightarrow> nat \<Rightarrow> int" where
  "next_average average block_size = wrap32 ((wrap32 (99 * average) + int block_size) mod 2 ^ 64 div 100)"

definition next_ratio :: "int \<Rightarrow> int \<Rightarrow> int \<Rightarrow> int" where
  "next_ratio max_block_size average ratio =
     (let quarter = trunc_div max_block_size 4;
          distance = trunc_div (wrap64 ((average - quarter) * DISTANCE_CALC_PRECISION)) quarter
      in if distance > 0 then
           (let r = ratio - trunc_div (wrap64 (ratio * distance)) (distance + DISTANCE_CALC_PRECISION)
            in if r < RESERVE_RATIO_PRECISION then RESERVE_RATIO_PRECISION else r)
         else
           (let r = ratio + max RESERVE_RATIO_MIN_INCREMENT (trunc_div (wrap64 (ratio * distance)) (distance - DISTANCE_CALC_PRECISION))
            in if r > SIGMAENGINE_MAX_RESERVE_RATIO * RESERVE_RATIO_PRECISION
               then SIGMAENGINE_MAX_RESERVE_RATIO * RESERVE_RATIO_PRECISION else r))"

definition update_reserve_ratio :: "nat \<Rightarrow> nat \<Rightarrow> int \<Rightarrow> reserve_ratio_object option \<Rightarrow> reserve_ratio_object" where
  "update_reserve_ratio height block_size max_block_size r =
     (case r of
        None \<Rightarrow> \<lparr>rro_average_block_size = 0, rro_current_reserve_ratio = SIGMAENGINE_MAX_RESERVE_RATIO * RESERVE_RATIO_PRECISION\<rparr>
      | Some r \<Rightarrow>
          (let average = next_average (rro_average_block_size r) block_size in
           \<lparr>rro_average_block_size = average,
            rro_current_reserve_ratio = (if height mod 20 = 0 then next_ratio max_block_size average (rro_current_reserve_ratio r)
              else rro_current_reserve_ratio r)\<rparr>))"

text \<open>\<open>block_size\<close> is the packed size of the block. The duplicate check starts afresh, see below.\<close>

definition bobserver_on_block :: "nat \<Rightarrow> handler" where
  "bobserver_on_block block_size db =
     (modify_plugins (\<lambda>p. p\<lparr>pl_reserve_ratio := Some (update_reserve_ratio (head_block_num db) block_size
        (int (dgp_maximum_block_size (db_dgp db))) (pl_reserve_ratio p))\<rparr>) db, None)"

section \<open>Before and after an operation\<close>

text \<open>
  \<open>memo_keys name memo\<close> are the public keys of the private keys the memo may be: the extended key whose base 58 form it is, and the keys
  derived from it as the account's password, for each role.
\<close>

definition check_memo :: "(account_name_type \<Rightarrow> string \<Rightarrow> public_key_type list) \<Rightarrow> string \<Rightarrow> account_object \<Rightarrow> account_authority_object \<Rightarrow> unit result" where
  "check_memo memo_keys memo account auth =
     (let keys = memo_keys (acc_name account) memo in
      fc_assert (list_all (\<lambda>k. fst k \<notin> set keys) (key_auths (aut_owner auth))) Unnamed_assertion (
      fc_assert (list_all (\<lambda>k. fst k \<notin> set keys) (key_auths (aut_active auth))) Unnamed_assertion (
      fc_assert (list_all (\<lambda>k. fst k \<notin> set keys) (key_auths (aut_posting auth))) Unnamed_assertion (
      fc_assert (acc_memo_key account \<notin> set keys) Unnamed_assertion (Inr ())))))"

definition check_sender :: "(account_name_type \<Rightarrow> string \<Rightarrow> public_key_type list) \<Rightarrow> account_name_type \<Rightarrow> string \<Rightarrow> chain_db \<Rightarrow> unit result" where
  "check_sender memo_keys sender memo db =
     (if length memo > 0 then
        bindR (table_get (\<lambda>a. acc_name a = sender) (db_accounts db)) (\<lambda>account.
        bindR (table_get (\<lambda>a. aut_account a = sender) (db_authorities db)) (\<lambda>auth.
        check_memo memo_keys memo account auth))
      else Inr ())"

definition bobserver_pre_operation :: "(account_name_type \<Rightarrow> string \<Rightarrow> public_key_type list) \<Rightarrow> bool \<Rightarrow> operation \<Rightarrow> chain_db \<Rightarrow> unit result" where
  "bobserver_pre_operation memo_keys producing op db =
     (if producing then
        (case op of
           Transfer o' \<Rightarrow> check_sender memo_keys (tr_from o') (tr_memo o') db
         | Transfer_savings o' \<Rightarrow> check_sender memo_keys (ts_from o') (ts_memo o') db
         | _ \<Rightarrow> Inr ())
      else Inr ())"

text \<open>
  The accounts whose custom operations this block has already; it is no part of the chain state, so undoing an
  operation does not take its accounts out again.
\<close>

fun note_customs :: "account_name_type list \<Rightarrow> account_name_type list \<Rightarrow> account_name_type list \<times> fc_error option" where
  "note_customs [] dupe_customs = (dupe_customs, None)"
| "note_customs (a # impacted) dupe_customs =
     (if a \<in> set dupe_customs then (dupe_customs, Some (Assert_exception Unnamed_assertion))
      else note_customs impacted (flat_set_insert a dupe_customs))"

fun is_custom :: "operation \<Rightarrow> bool" where
  "is_custom (Custom _) = True"
| "is_custom (Custom_json _) = True"
| "is_custom (Custom_json_dapp _) = True"
| "is_custom (Custom_binary _) = True"
| "is_custom _ = False"

definition bobserver_post_operation ::
  "bool \<Rightarrow> account_name_type list \<Rightarrow> operation \<Rightarrow> account_name_type list \<times> chain_db \<Rightarrow> account_name_type list \<times> chain_db \<times> fc_error option" where
  "bobserver_post_operation producing impacted op st =
     (case st of (dupe_customs, db) \<Rightarrow>
        case op of
          Transfer _ \<Rightarrow> (dupe_customs, modify_dgp (\<lambda>d. d\<lparr>dgp_total_transfer := (dgp_total_transfer d + 1) mod 2 ^ 32\<rparr>) db, None)
        | _ \<Rightarrow>
            if is_custom op \<and> producing then
              (case note_customs impacted dupe_customs of (dupe_customs', e) \<Rightarrow> (dupe_customs', db, e))
            else (dupe_customs, db, None))"

section \<open>Bounds\<close>

lemma wrap32_id: "- 2147483648 \<le> x \<Longrightarrow> x < 2147483648 \<Longrightarrow> wrap32 x = x"
  by (simp add: wrap32_def)

lemma next_average_bounds:
  assumes "0 \<le> average" "average \<le> M" "int block_size \<le> M" "M \<le> 20000000"
  shows "0 \<le> next_average average block_size \<and> next_average average block_size \<le> M"
proof -
  have "wrap32 (99 * average) = 99 * average" using assms by (intro wrap32_id) simp_all
  moreover have "(99 * average + int block_size) mod 2 ^ 64 = 99 * average + int block_size"
    using assms by (intro mod_pos_pos_trivial) simp_all
  moreover have "0 \<le> (99 * average + int block_size) div 100" using assms by simp
  moreover have "(99 * average + int block_size) div 100 \<le> M" using assms by linarith
  moreover have "wrap32 ((99 * average + int block_size) div 100) = (99 * average + int block_size) div 100"
    using calculation(3,4) assms by (intro wrap32_id) linarith+
  ultimately show ?thesis by (simp add: next_average_def)
qed

definition ratio_in_range :: "int \<Rightarrow> bool" where
  "ratio_in_range r \<longleftrightarrow> RESERVE_RATIO_PRECISION \<le> r \<and> r \<le> SIGMAENGINE_MAX_RESERVE_RATIO * RESERVE_RATIO_PRECISION"

lemmas ratio_defs = ratio_in_range_def RESERVE_RATIO_PRECISION_def SIGMAENGINE_MAX_RESERVE_RATIO_def RESERVE_RATIO_MIN_INCREMENT_def
  DISTANCE_CALC_PRECISION_def

lemma trunc_div_pos: "0 \<le> a \<Longrightarrow> 0 < b \<Longrightarrow> trunc_div a b = a div b"
  by (cases "a = 0") (simp_all add: trunc_div_def)

lemma trunc_div_neg: "a \<le> 0 \<Longrightarrow> b < 0 \<Longrightarrow> trunc_div a b = (- a) div (- b)"
  by (cases "a = 0") (simp_all add: trunc_div_def)

lemma distance_bounds:
  assumes "0 \<le> average" "average \<le> 20000000" "65536 \<le> max_block_size" "max_block_size < 2 ^ 32"
  defines "quarter \<equiv> trunc_div max_block_size 4"
  shows "- 10000 \<le> trunc_div (wrap64 ((average - quarter) * DISTANCE_CALC_PRECISION)) quarter
    \<and> trunc_div (wrap64 ((average - quarter) * DISTANCE_CALC_PRECISION)) quarter \<le> 20000000"
proof -
  have q: "quarter = max_block_size div 4" using assms(3) by (simp add: quarter_def trunc_div_pos)
  then have qb: "16384 \<le> quarter" "quarter < 1073741824" using assms(3,4) by auto
  let ?x = "(average - quarter) * 10000"
  have w: "wrap64 ((average - quarter) * DISTANCE_CALC_PRECISION) = ?x"
    unfolding DISTANCE_CALC_PRECISION_def using assms(1,2) qb by (intro wrap64_id) (simp add: int64_range_def int64_min_def int64_max_def)
  show ?thesis
  proof (cases "average < quarter")
    case True
    have "trunc_div ?x quarter = - ((- ?x) div quarter)"
      using True qb by (simp add: trunc_div_def sgn_mult abs_mult minus_mult_left [symmetric] del: minus_mult_left)
    moreover have "(- ?x) div quarter \<le> 10000"
      using zdiv_mono1 [of "- ?x" "10000 * quarter" quarter] assms(1) qb by simp
    moreover have "0 \<le> (- ?x) div quarter" using True qb by (simp add: pos_imp_zdiv_nonneg_iff)
    ultimately show ?thesis unfolding w by linarith
  next
    case False
    then have "trunc_div ?x quarter = ?x div quarter" using qb by (simp add: trunc_div_pos)
    moreover have "?x div quarter \<le> ?x div 16384" using qb False by (intro zdiv_mono2) simp_all
    moreover have "?x div 16384 \<le> 20000000" using assms(2) qb by auto
    moreover have "0 \<le> ?x div quarter" using False qb by (simp add: pos_imp_zdiv_nonneg_iff)
    ultimately show ?thesis unfolding w by linarith
  qed
qed

lemma next_ratio_bounds:
  assumes "0 \<le> average" "average \<le> 20000000" "65536 \<le> max_block_size" "max_block_size < 2 ^ 32" "ratio_in_range ratio"
  shows "ratio_in_range (next_ratio max_block_size average ratio)"
proof -
  define d where "d = trunc_div (wrap64 ((average - trunc_div max_block_size 4) * DISTANCE_CALC_PRECISION)) (trunc_div max_block_size 4)"
  have d: "- 10000 \<le> d" "d \<le> 20000000" using distance_bounds [OF assms(1-4)] by (simp_all add: d_def)
  have r: "10000 \<le> ratio" "ratio \<le> 200000000" using assms(5) by (simp_all add: ratio_defs)
  have "\<bar>ratio * d\<bar> \<le> 200000000 * 20000000"
    unfolding abs_mult using d r by (intro mult_mono) simp_all
  then have w: "wrap64 (ratio * d) = ratio * d" by (intro wrap64_id) (auto simp: int64_range_def int64_min_def int64_max_def abs_le_iff)
  have eq: "next_ratio max_block_size average ratio =
     (if d > 0 then max RESERVE_RATIO_PRECISION (ratio - trunc_div (ratio * d) (d + 10000))
      else min (SIGMAENGINE_MAX_RESERVE_RATIO * RESERVE_RATIO_PRECISION)
        (ratio + max RESERVE_RATIO_MIN_INCREMENT (trunc_div (ratio * d) (d - 10000))))"
    unfolding next_ratio_def Let_def d_def [symmetric] w by (auto simp: DISTANCE_CALC_PRECISION_def max_def min_def)
  show ?thesis
  proof (cases "d > 0")
    case True
    then have "0 \<le> trunc_div (ratio * d) (d + 10000)" using r by (simp add: trunc_div_pos pos_imp_zdiv_nonneg_iff)
    with True r show ?thesis unfolding eq by (simp add: ratio_defs)
  next
    case False
    with r show ?thesis unfolding eq by (simp add: ratio_defs)
  qed
qed

definition reserve_ok :: "plugin_db \<Rightarrow> bool" where
  "reserve_ok p \<longleftrightarrow> (case pl_reserve_ratio p of None \<Rightarrow> True
     | Some r \<Rightarrow> 0 \<le> rro_average_block_size r \<and> rro_average_block_size r \<le> 20000000 \<and> ratio_in_range (rro_current_reserve_ratio r))"

text \<open>
  The reserve ratio stays between one and 20000 times its precision, and the average size of a block stays in range, whatever blocks of up to
  20 MB come: no product of the update overflows.
\<close>

theorem reserve_ratio_bounded:
  assumes "reserve_ok (db_plugins db)" "block_size \<le> 20000000"
    and "65536 \<le> dgp_maximum_block_size (db_dgp db)" "dgp_maximum_block_size (db_dgp db) < 2 ^ 32"
  shows "reserve_ok (db_plugins (fst (bobserver_on_block block_size db))) \<and> snd (bobserver_on_block block_size db) = None"
proof (cases "pl_reserve_ratio (db_plugins db)")
  case None
  then show ?thesis by (simp add: bobserver_on_block_def modify_plugins_def reserve_ok_def update_reserve_ratio_def ratio_defs)
next
  case (Some r)
  have b: "0 \<le> rro_average_block_size r" "rro_average_block_size r \<le> 20000000" "ratio_in_range (rro_current_reserve_ratio r)"
    using assms(1) Some by (simp_all add: reserve_ok_def)
  note avg = next_average_bounds [OF b(1,2), of block_size, simplified]
  show ?thesis
    using Some avg assms(2) b(3) next_ratio_bounds [OF _ _ _ _ b(3), of "next_average (rro_average_block_size r) block_size"
        "int (dgp_maximum_block_size (db_dgp db))"] assms(3,4)
    by (simp add: bobserver_on_block_def modify_plugins_def reserve_ok_def update_reserve_ratio_def Let_def)
qed

definition busy_db :: chain_db where
  "busy_db = (modify_dgp (\<lambda>d. d\<lparr>dgp_head_block_number := 20\<rparr>) example_db)\<lparr>db_plugins := empty_plugin_db\<lparr>
     pl_reserve_ratio := Some \<lparr>rro_average_block_size = 30000, rro_current_reserve_ratio = 50000000\<rparr>\<rparr>\<rparr>"

theorem reserve_ratio_bounded_witness:
  "reserve_ok (db_plugins (fst (bobserver_on_block 40000 busy_db)))
     \<and> pl_reserve_ratio (db_plugins (fst (bobserver_on_block 40000 busy_db)))
       = Some \<lparr>rro_average_block_size = 30100, rro_current_reserve_ratio = 27216810\<rparr>"
proof -
  have h: "reserve_ok (db_plugins busy_db)" "(40000 :: nat) \<le> 20000000" "65536 \<le> dgp_maximum_block_size (db_dgp busy_db)"
    "dgp_maximum_block_size (db_dgp busy_db) < 2 ^ 32"
    by (simp_all add: reserve_ok_def busy_db_def empty_plugin_db_def ratio_defs modify_dgp_def example_eval)
  have "pl_reserve_ratio (db_plugins (fst (bobserver_on_block 40000 busy_db)))
       = Some \<lparr>rro_average_block_size = 30100, rro_current_reserve_ratio = 27216810\<rparr>"
    by (simp add: bobserver_on_block_def update_reserve_ratio_def next_average_def next_ratio_def trunc_div_def wrap32_def wrap64_def
        busy_db_def empty_plugin_db_def ratio_defs modify_dgp_def modify_plugins_def head_block_num_def example_eval Let_def)
  with reserve_ratio_bounded [OF h] show ?thesis by simp
qed

end
