(* ===== verification/Plugins.thy ===== *)
theory Plugins
  imports Token_Payments Bobserver_Plugin Block_Apply
begin

text \<open>
  How the bobserver, dapp and token plugins hang on the chain: the interpreter of custom operations they share
  (\<^verbatim>\<open>generic_custom_operation_interpreter.hpp\<close>), the registration of the enabled plugins (\<^verbatim>\<open>application.cpp\<close>,
  \<^verbatim>\<open>plugin_initialize\<close>) and the notification after a block (\<^verbatim>\<open>SIGMAENGINE_TRY_NOTIFY\<close>). The plugins
  meet what the chain relies on; an inner operation runs with the authorities it asks for only; nodes that
  enable different plugins come to different balances.
\<close>

section \<open>The interpreter of custom operations\<close>

text \<open>The functions of a type of custom operations: validation, required authorities, and the evaluator registered for it.\<close>

record 'op custom_ops =
  op_validate :: "'op \<Rightarrow> unit result"
  op_required :: "'op \<Rightarrow> required_authorities \<Rightarrow> required_authorities"
  op_apply :: "'op \<Rightarrow> chain_db \<Rightarrow> chain_db result"

definition inner_required :: "'op custom_ops \<Rightarrow> 'op list \<Rightarrow> required_authorities result" where
  "inner_required co custom_operations =
     foldR (\<lambda>r inner_o. bindR (op_validate co inner_o) (\<lambda>_. Inr (op_required co inner_o r)))
       no_required_authorities custom_operations"

definition apply_inner_operations :: "'op custom_ops \<Rightarrow> 'op list \<Rightarrow> operation \<Rightarrow> chain_db \<Rightarrow> chain_db result" where
  "apply_inner_operations co custom_operations outer_o db =
     (let outer = operation_get_required_authorities outer_o no_required_authorities in
      bindR (inner_required co custom_operations) (\<lambda>inner.
      fc_assert (required_owner inner = required_owner outer) Unnamed_assertion (
      fc_assert (required_active inner = required_active outer) Unnamed_assertion (
      fc_assert (required_posting inner = required_posting outer) Unnamed_assertion (
      fc_assert (required_other inner = required_other outer) Unnamed_assertion (
      foldR (\<lambda>db inner_o. op_apply co inner_o db) db custom_operations))))))"

text \<open>
  Reading the inner operations: JSON text or packed bytes. The readers are parameters: \<open>cd_parse\<close> is \<^verbatim>\<open>fc::json::from_string\<close>,
  \<open>cd_array\<close> the elements of a value that is an array, the others convert a value or
  unpack bytes into one operation or into a list of them.
\<close>

record ('v, 'op) codec =
  cd_parse :: "string \<Rightarrow> 'v result"
  cd_array :: "'v \<Rightarrow> 'v list option"
  cd_from_variant :: "'v \<Rightarrow> 'op result"
  cd_from_variants :: "'v \<Rightarrow> 'op list result"
  cd_unpack :: "string \<Rightarrow> 'op result"
  cd_unpack_list :: "string \<Rightarrow> 'op list result"

definition get_inner_json :: "('v, 'op) codec \<Rightarrow> string \<Rightarrow> 'op list result" where
  "get_inner_json c json =
     bindR (cd_parse c json) (\<lambda>v.
     case cd_array c v of
       Some (w # _) \<Rightarrow>
         (if cd_array c w \<noteq> None then cd_from_variants c v else bindR (cd_from_variant c v) (\<lambda>op. Inr [op]))
     | _ \<Rightarrow> bindR (cd_from_variant c v) (\<lambda>op. Inr [op]))"

definition get_inner_binary :: "('v, 'op) codec \<Rightarrow> string \<Rightarrow> 'op list result" where
  "get_inner_binary c data =
     (case cd_unpack_list c data of
        Inr inner_operations \<Rightarrow> Inr inner_operations
      | Inl _ \<Rightarrow> bindR (cd_unpack c data) (\<lambda>op. Inr [op]))"

text \<open>An interpreter is called for the three custom operations only.\<close>

fun get_inner_operation :: "('v, 'op) codec \<Rightarrow> operation \<Rightarrow> 'op list result" where
  "get_inner_operation c (Custom_json o') = get_inner_json c (cj_json o')"
| "get_inner_operation c (Custom_json_dapp o') = get_inner_json c (cd_json o')"
| "get_inner_operation c (Custom_binary o') = get_inner_binary c (cb_data o')"
| "get_inner_operation c _ = Inl (Assert_exception Unnamed_assertion)"

text \<open>\<^verbatim>\<open>FC_CAPTURE_AND_RETHROW\<close> turns every exception into an \<^verbatim>\<open>fc::exception\<close>; the session is undone.\<close>

definition generic_interpreter :: "'op custom_ops \<Rightarrow> ('v, 'op) codec \<Rightarrow> operation \<Rightarrow> chain_db \<Rightarrow> custom_outcome" where
  "generic_interpreter co c outer_o db =
     (case bindR (get_inner_operation c outer_o) (\<lambda>ops. apply_inner_operations co ops outer_o db) of
        Inl e \<Rightarrow> Fc_exception e
      | Inr db' \<Rightarrow> Applied db')"

section \<open>The plugins of a node\<close>

record 'v plugin_tools =
  pt_text :: text_tools
  pt_token :: token_tools
  pt_dapp_codec :: "('v, dapp_operation) codec"
  pt_token_codec :: "('v, token_operation) codec"
  pt_bobserver_codec :: "('v, enable_content_editing_operation) codec"
  pt_block_size :: "signed_block \<Rightarrow> nat"

definition dapp_ops :: "text_tools \<Rightarrow> dapp_operation custom_ops" where
  "dapp_ops tt = \<lparr>op_validate = dapp_operation_validate (tt_checks tt), op_required = dapp_required_authorities, op_apply = dapp_apply tt\<rparr>"

definition token_ops :: "token_tools \<Rightarrow> token_operation custom_ops" where
  "token_ops tk = \<lparr>op_validate = token_operation_validate (tk_checks tk), op_required = token_required_authorities, op_apply = token_apply tk\<rparr>"

definition bobserver_ops :: "enable_content_editing_operation custom_ops" where
  "bobserver_ops = \<lparr>op_validate = enable_content_editing_validate, op_required = bobserver_required_authorities,
     op_apply = enable_content_editing_apply\<rparr>"

definition plugin_interpreters ::
  "'v plugin_tools \<Rightarrow> string list \<Rightarrow> string \<Rightarrow> (operation \<Rightarrow> chain_db \<Rightarrow> custom_outcome) option" where
  "plugin_interpreters pt enabled i =
     (if i \<notin> set enabled then None
      else if i = ''dapp'' then Some (generic_interpreter (dapp_ops (pt_text pt)) (pt_dapp_codec pt))
      else if i = ''token'' then Some (generic_interpreter (token_ops (pt_token pt)) (pt_token_codec pt))
      else if i = ''bobserver'' then Some (generic_interpreter bobserver_ops (pt_bobserver_codec pt))
      else None)"

text \<open>
  The plugins are kept in a map by name, so \<^verbatim>\<open>bobserver\<close> connects before \<^verbatim>\<open>dapp\<close> and \<^verbatim>\<open>token\<close>. An exception of a slot keeps
  the later ones from being called; it is logged and dropped.
\<close>

definition plugin_handlers :: "'v plugin_tools \<Rightarrow> string list \<Rightarrow> signed_block \<Rightarrow> handler list" where
  "plugin_handlers pt enabled b =
     (if ''bobserver'' \<in> set enabled then [bobserver_on_block (pt_block_size pt b)] else [])
     @ (if ''dapp'' \<in> set enabled then [dapp_on_apply_block] else [])
     @ (if ''token'' \<in> set enabled then [token_on_apply_block] else [])"

fun notify_applied_block :: "handler list \<Rightarrow> chain_db \<Rightarrow> chain_db" where
  "notify_applied_block [] db = db"
| "notify_applied_block (slot # slots) db =
     (case slot db of (db', None) \<Rightarrow> notify_applied_block slots db' | (db', Some e) \<Rightarrow> db')"

definition with_plugins :: "'v plugin_tools \<Rightarrow> string list \<Rightarrow> node_env \<Rightarrow> node_env" where
  "with_plugins pt enabled env =
     env\<lparr>env_interpreters := plugin_interpreters pt enabled,
         env_on_applied_block := (\<lambda>b. notify_applied_block (plugin_handlers pt enabled b))\<rparr>"

section \<open>What a type of custom operations promises\<close>

text \<open>\<open>adds_to xs ys zs\<close>: the names in \<open>zs\<close> are those of both others.\<close>

abbreviation adds_to :: "'a list \<Rightarrow> 'a list \<Rightarrow> 'a list \<Rightarrow> bool" where
  "adds_to xs ys zs \<equiv> set zs = set xs \<union> set ys"

locale custom_operations =
  fixes co :: "'op custom_ops"
  assumes required_active: "adds_to (required_active r) (required_active (op_required co x no_required_authorities))
      (required_active (op_required co x r))"
    and required_owner: "adds_to (required_owner r) (required_owner (op_required co x no_required_authorities))
      (required_owner (op_required co x r))"
    and required_posting: "adds_to (required_posting r) (required_posting (op_required co x no_required_authorities))
      (required_posting (op_required co x r))"
    and required_other: "required_other (op_required co x r) = required_other r @ required_other (op_required co x no_required_authorities)"
    and apply_moves: "wf_db db \<Longrightarrow> op_apply co x db = Inr db' \<Longrightarrow> moves db db' 0 nothing nothing"
    and apply_solvent: "wf_db db \<Longrightarrow> solvent db \<Longrightarrow> op_apply co x db = Inr db' \<Longrightarrow> solvent db'"
    and apply_head: "op_apply co x db = Inr db' \<Longrightarrow> same_head db db'"
begin

lemma inner_required_foldR:
  assumes "foldR (\<lambda>r inner_o. bindR (op_validate co inner_o) (\<lambda>_. Inr (op_required co inner_o r))) r ops = Inr inner"
  shows "list_all (\<lambda>x. op_validate co x = Inr ()) ops
    \<and> set (required_active inner) = set (required_active r) \<union> (\<Union>x\<in>set ops. set (required_active (op_required co x no_required_authorities)))
    \<and> set (required_owner inner) = set (required_owner r) \<union> (\<Union>x\<in>set ops. set (required_owner (op_required co x no_required_authorities)))
    \<and> set (required_posting inner) = set (required_posting r) \<union> (\<Union>x\<in>set ops. set (required_posting (op_required co x no_required_authorities)))
    \<and> required_other inner = required_other r @ concat (map (\<lambda>x. required_other (op_required co x no_required_authorities)) ops)"
  using assms
proof (induction ops arbitrary: r)
  case (Cons x ops)
  from Cons.prems have v: "op_validate co x = Inr ()"
    and rest: "foldR (\<lambda>r inner_o. bindR (op_validate co inner_o) (\<lambda>_. Inr (op_required co inner_o r))) (op_required co x r) ops = Inr inner"
    by (auto simp: bindR_Inr_iff)
  from Cons.IH [OF rest] v required_active [where r = r and x = x] required_owner [where r = r and x = x]
    required_posting [where r = r and x = x] required_other [where r = r and x = x]
  show ?case by (simp add: Un_assoc)
qed simp

lemma foldR_apply:
  assumes "foldR (\<lambda>db x. op_apply co x db) db ops = Inr db'"
  shows "same_head db db' \<and> (wf_db db \<longrightarrow> moves db db' 0 nothing nothing) \<and> (wf_db db \<longrightarrow> solvent db \<longrightarrow> solvent db')"
  using assms
proof (induction ops arbitrary: db)
  case (Cons x ops)
  then obtain d where d: "op_apply co x db = Inr d" "foldR (\<lambda>db x. op_apply co x db) d ops = Inr db'" by (auto simp: bindR_Inr_iff)
  note IH = Cons.IH [OF d(2)]
  have "moves db db' 0 nothing nothing" if w: "wf_db db"
  proof -
    have m: "moves db d 0 nothing nothing" by (rule apply_moves [OF w d(1)])
    with IH have "moves d db' 0 nothing nothing" using moves_wf [OF m] by blast
    from moves_trans [OF m this] show ?thesis by simp
  qed
  moreover have "solvent db'" if "wf_db db" "solvent db"
    using IH moves_wf [OF apply_moves [OF that(1) d(1)]] apply_solvent [OF that d(1)] by blast
  ultimately show ?case using IH apply_head [OF d(1)] same_head_trans by blast
qed (simp add: moves_refl)

lemma interpreter_applied:
  assumes "generic_interpreter co c outer_o db = Applied db'"
  obtains ops inner where "get_inner_operation c outer_o = Inr ops" "inner_required co ops = Inr inner"
    "required_active inner = required_active (operation_get_required_authorities outer_o no_required_authorities)"
    "required_owner inner = required_owner (operation_get_required_authorities outer_o no_required_authorities)"
    "required_posting inner = required_posting (operation_get_required_authorities outer_o no_required_authorities)"
    "required_other inner = required_other (operation_get_required_authorities outer_o no_required_authorities)"
    "foldR (\<lambda>db x. op_apply co x db) db ops = Inr db'"
  using assms that by (auto simp: generic_interpreter_def apply_inner_operations_def Let_def result_simps split: sum.splits)

lemma interpreter_contract:
  assumes "generic_interpreter co c outer_o db = Applied db'"
  shows "same_head db db'" "wf_db db \<Longrightarrow> moves db db' 0 nothing nothing" "wf_db db \<Longrightarrow> solvent db \<Longrightarrow> solvent db'"
  using assms by (elim interpreter_applied, metis foldR_apply)+

lemma interpreter_authorized:
  assumes "generic_interpreter co c outer_o db = Applied db'"
  shows "\<exists>ops. get_inner_operation c outer_o = Inr ops \<and> foldR (\<lambda>db x. op_apply co x db) db ops = Inr db'
    \<and> list_all (\<lambda>x. op_validate co x = Inr ()) ops
    \<and> set (required_active (operation_get_required_authorities outer_o no_required_authorities))
        = (\<Union>x\<in>set ops. set (required_active (op_required co x no_required_authorities)))
    \<and> set (required_owner (operation_get_required_authorities outer_o no_required_authorities))
        = (\<Union>x\<in>set ops. set (required_owner (op_required co x no_required_authorities)))
    \<and> set (required_posting (operation_get_required_authorities outer_o no_required_authorities))
        = (\<Union>x\<in>set ops. set (required_posting (op_required co x no_required_authorities)))
    \<and> required_other (operation_get_required_authorities outer_o no_required_authorities)
        = concat (map (\<lambda>x. required_other (op_required co x no_required_authorities)) ops)"
proof -
  from interpreter_applied [OF assms] obtain ops inner where a: "get_inner_operation c outer_o = Inr ops" "inner_required co ops = Inr inner"
    "required_active inner = required_active (operation_get_required_authorities outer_o no_required_authorities)"
    "required_owner inner = required_owner (operation_get_required_authorities outer_o no_required_authorities)"
    "required_posting inner = required_posting (operation_get_required_authorities outer_o no_required_authorities)"
    "required_other inner = required_other (operation_get_required_authorities outer_o no_required_authorities)"
    "foldR (\<lambda>db x. op_apply co x db) db ops = Inr db'" .
  from inner_required_foldR [OF a(2) [unfolded inner_required_def]] a show ?thesis
    by (intro exI [of _ ops]) (simp add: no_required_authorities_def)
qed

end

section \<open>The fee\<close>

lemma fee_payer_covers:
  assumes "wf_db db" "fee_payer n fee db = Inr frm" "a \<in> set (tb_rows (db_accounts db))" "acc_id a = acc_id frm"
  shows "amount fee \<le> amount (acc_balance a)"
proof -
  from assms(2) have f: "get_account n db = Inr frm" "amount fee \<le> amount (acc_balance frm)"
    by (auto simp: fee_payer_def result_simps require_ge_Inr)
  then have "a = frm" using get_account_mem [OF f(1)] assms(1,3,4) by (auto simp: wf_db_def wf_table_def distinct_map dest: inj_onD)
  with f(2) show ?thesis by simp
qed

lemma charge_fee_solvent:
  assumes "wf_db db" "solvent db" "charge_fee n frm fee db = Inr db'"
    and "\<And>a. a \<in> set (tb_rows (db_accounts db)) \<Longrightarrow> acc_id a = acc_id frm \<Longrightarrow> amount fee \<le> amount (acc_balance a)"
  shows "solvent db'"
proof -
  from assms(3) obtain minus d1 d2 where r: "asset_neg fee = Inr minus" "adjust_balance (acc_id frm) minus db = Inr d1"
    "adjust_dapp_reward_fund_balance fee d1 = Inr d2" "push_virtual_operation (Dapp_fee_virtual n fee) d2 = Inr db'"
    by (auto simp: charge_fee_def result_simps)
  have "solvent d1"
    by (rule adjust_balance_solvent [OF assms(2) r(2) assms(1)]) (use assms(4) asset_neg_Inr [OF r(1)] in force)
  then show ?thesis
    using r(3) push_virtual_operation_frame [OF r(4)]
    by (auto simp: adjust_dapp_reward_fund_balance_def result_simps elim!: solvent_frame)
qed

lemma charge_fee_head: "charge_fee n frm fee db = Inr db' \<Longrightarrow> same_head db db'"
  by (auto simp: charge_fee_def adjust_balance_def adjust_dapp_reward_fund_balance_def push_virtual_operation_def
      modify_account_def head_defs result_simps)

text \<open>The state before the fee is charged: the books, the balances and the authorities of the state at the start.\<close>

definition before_fee :: "chain_db \<Rightarrow> chain_db \<Rightarrow> bool" where
  "before_fee db d \<longleftrightarrow> same_head db d \<and> db_funds d = db_funds db \<and> db_savings d = db_savings db \<and> db_fund_withdraws d = db_fund_withdraws db
     \<and> db_authorities d = db_authorities db
     \<and> map (\<lambda>a. (acc_id a, acc_name a, acc_balance a, acc_savings_balance a)) (tb_rows (db_accounts d))
       = map (\<lambda>a. (acc_id a, acc_name a, acc_balance a, acc_savings_balance a)) (tb_rows (db_accounts db))"

lemma before_fee_row:
  assumes "before_fee db d" "a \<in> set (tb_rows (db_accounts d))"
  obtains b where "b \<in> set (tb_rows (db_accounts db))" "acc_id b = acc_id a" "acc_balance b = acc_balance a"
    "acc_savings_balance b = acc_savings_balance a"
proof -
  let ?f = "\<lambda>a. (acc_id a, acc_name a, acc_balance a, acc_savings_balance a)"
  have "?f a \<in> set (map ?f (tb_rows (db_accounts d)))" using assms(2) by simp
  then have "?f a \<in> set (map ?f (tb_rows (db_accounts db)))" using assms(1) by (simp only: before_fee_def)
  then obtain b where "b \<in> set (tb_rows (db_accounts db))" "?f b = ?f a" by auto
  with that show thesis by simp
qed

lemma before_fee_solvent:
  assumes "before_fee db d" "solvent db"
  shows "solvent d"
proof -
  have "0 \<le> amount (acc_balance a) \<and> 0 \<le> amount (acc_savings_balance a)" if "a \<in> set (tb_rows (db_accounts d))" for a
    using before_fee_row [OF assms(1) that] assms(2) unfolding solvent_def by metis
  with assms show ?thesis by (simp add: before_fee_def solvent_def)
qed

lemma fee_charged_solvent:
  assumes "wf_db db" "solvent db" "before_fee db d" "wf_db d" "fee_payer m fee db = Inr frm" "charge_fee n frm fee d = Inr db'"
  shows "solvent db'"
  by (rule charge_fee_solvent [OF assms(4) before_fee_solvent [OF assms(3,2)] assms(6)])
    (metis before_fee_row [OF assms(3)] fee_payer_covers [OF assms(1,5)])

lemma before_fee_modify_plugins [simp]: "before_fee db (modify_plugins f db)"
  by (simp add: before_fee_def modify_plugins_def head_defs)

lemma before_fee_off_books: "off_books db d \<Longrightarrow> before_fee db d"
  unfolding off_books_def before_fee_def by (cases db, cases d) (simp add: head_defs)

lemma before_fee_create_comment: "create_comment tt op auth parent db = Inr d \<Longrightarrow> before_fee db d"
  by (auto simp: create_comment_def Let_def result_simps before_fee_def head_defs modify_account_def modify_plugins_def note_post_def
      intro!: table_modify_map)

lemma before_fee_edit_comment: "edit_comment tt op parent com db = Inr d \<Longrightarrow> before_fee db d"
  by (auto simp: edit_comment_def result_simps)

text \<open>An operation leaves the chain's own tables alone or charges the fee at the end.\<close>

definition fee_charged :: "chain_db \<Rightarrow> chain_db \<Rightarrow> bool" where
  "fee_charged db db' \<longleftrightarrow> (\<exists>n m frm d. before_fee db d \<and> (wf_db db \<longrightarrow> wf_db d)
     \<and> fee_payer m (dgp_dapp_transaction_fee (db_dgp db)) db = Inr frm
     \<and> charge_fee n frm (dgp_dapp_transaction_fee (db_dgp db)) d = Inr db')"

lemma fee_chargedI:
  "charge_fee n frm (dgp_dapp_transaction_fee (db_dgp db)) d = Inr db' \<Longrightarrow> fee_payer m (dgp_dapp_transaction_fee (db_dgp db)) db = Inr frm
     \<Longrightarrow> before_fee db d \<Longrightarrow> (wf_db db \<Longrightarrow> wf_db d) \<Longrightarrow> fee_charged db db'"
  by (auto simp: fee_charged_def)

lemma fee_charged_contract:
  assumes "fee_charged db db'"
  shows "same_head db db'" "wf_db db \<Longrightarrow> solvent db \<Longrightarrow> solvent db'"
proof -
  from assms obtain n m frm d where d: "before_fee db d" "wf_db db \<Longrightarrow> wf_db d"
    "fee_payer m (dgp_dapp_transaction_fee (db_dgp db)) db = Inr frm"
    "charge_fee n frm (dgp_dapp_transaction_fee (db_dgp db)) d = Inr db'"
    by (auto simp: fee_charged_def)
  show "same_head db db'" using d(1) charge_fee_head [OF d(4)] same_head_trans by (auto simp: before_fee_def)
  show "solvent db'" if "wf_db db" "solvent db" by (rule fee_charged_solvent [OF that d(1) d(2) [OF that(1)] d(3,4)])
qed

lemma modify_plugins_wf: "wf_db db \<Longrightarrow> wf_db (modify_plugins f db)"
  by (rule moves_wf [OF modify_plugins_moves])

lemma token_apply_charged: "token_apply tk op db = Inr db' \<Longrightarrow> fee_charged db db'"
  using token_apply_shape [of tk op db db']
  by (auto simp: fee_last_def intro!: fee_chargedI before_fee_off_books elim: moves_wf [OF off_books_moves])

lemma comment_dapp_charged:
  assumes "comment_dapp_apply tt op db = Inr db'"
  shows "fee_charged db db'"
proof -
  from assms obtain m frm auth parent d where p: "fee_payer m (dgp_dapp_transaction_fee (db_dgp db)) db = Inr frm"
    and d: "(case find_comment (cmt_dapp_name op) (cmt_author op) (cmt_permlink op) (pl_comments (db_plugins db)) of
            None \<Rightarrow> create_comment tt op auth parent db | Some com \<Rightarrow> edit_comment tt op parent com db) = Inr d"
    and r: "charge_fee (cmt_dapp_name op) frm (dgp_dapp_transaction_fee (db_dgp db)) d = Inr db'"
    by (simp only: comment_dapp_apply_def Let_def result_simps) (elim exE conjE, rule that)
  show ?thesis
  proof (rule fee_chargedI [OF r p])
    show "before_fee db d" using d before_fee_create_comment before_fee_edit_comment by (auto split: option.splits)
    show "wf_db d" if "wf_db db"
      using d that by (auto split: option.splits intro: moves_wf [OF create_comment_moves] moves_wf [OF edit_comment_moves])
  qed
qed

lemma dapp_apply_charged:
  assumes "dapp_apply tt op db = Inr db'"
  shows "(\<exists>f. db' = modify_plugins f db) \<or> fee_charged db db'"
proof (cases op)
  case (Comment_dapp o')
  with assms comment_dapp_charged show ?thesis by simp
qed (use assms in \<open>auto simp: create_dapp_apply_def update_dapp_key_apply_def join_dapp_apply_def leave_dapp_apply_def
    comment_vote_dapp_apply_def delete_comment_dapp_apply_def vote_dapp_apply_def vote_dapp_trx_fee_apply_def
    Let_def result_simps intro: fee_chargedI modify_plugins_wf\<close>)

lemma modify_plugins_head [simp]: "same_head db (modify_plugins f db)"
  by (simp add: modify_plugins_def head_defs)

lemma modify_plugins_solvent: "solvent db \<Longrightarrow> solvent (modify_plugins f db)"
  by (rule solvent_frame) (simp_all add: modify_plugins_def)

section \<open>The plugins keep their promise\<close>

lemmas need_defs = need_active_def need_owner_def need_posting_def need_other_def no_required_authorities_def

interpretation dapp_co: custom_operations "dapp_ops tt"
proof
  fix r :: required_authorities and x :: dapp_operation and db db'
  show "adds_to (required_active r) (required_active (op_required (dapp_ops tt) x no_required_authorities))
      (required_active (op_required (dapp_ops tt) x r))"
    by (cases x) (auto simp: dapp_ops_def need_defs)
  show "adds_to (required_owner r) (required_owner (op_required (dapp_ops tt) x no_required_authorities))
      (required_owner (op_required (dapp_ops tt) x r))"
    by (cases x) (auto simp: dapp_ops_def need_defs)
  show "adds_to (required_posting r) (required_posting (op_required (dapp_ops tt) x no_required_authorities))
      (required_posting (op_required (dapp_ops tt) x r))"
    by (cases x) (auto simp: dapp_ops_def need_defs)
  show "required_other (op_required (dapp_ops tt) x r) = required_other r @ required_other (op_required (dapp_ops tt) x no_required_authorities)"
    by (cases x) (auto simp: dapp_ops_def need_defs)
  show "moves db db' 0 nothing nothing" if "wf_db db" "op_apply (dapp_ops tt) x db = Inr db'"
    using that dapp_apply_moves by (simp add: dapp_ops_def)
  show "solvent db'" if "wf_db db" "solvent db" "op_apply (dapp_ops tt) x db = Inr db'"
    using that dapp_apply_charged [of tt x db db'] fee_charged_contract(2) modify_plugins_solvent by (auto simp: dapp_ops_def)
  show "same_head db db'" if "op_apply (dapp_ops tt) x db = Inr db'"
    using that dapp_apply_charged [of tt x db db'] fee_charged_contract(1) by (auto simp: dapp_ops_def)
qed

interpretation token_co: custom_operations "token_ops tk"
proof
  fix r :: required_authorities and x :: token_operation and db db'
  show "adds_to (required_active r) (required_active (op_required (token_ops tk) x no_required_authorities))
      (required_active (op_required (token_ops tk) x r))"
    by (cases x) (auto simp: token_ops_def need_defs)
  show "adds_to (required_owner r) (required_owner (op_required (token_ops tk) x no_required_authorities))
      (required_owner (op_required (token_ops tk) x r))"
    by (cases x) (auto simp: token_ops_def need_defs)
  show "adds_to (required_posting r) (required_posting (op_required (token_ops tk) x no_required_authorities))
      (required_posting (op_required (token_ops tk) x r))"
    by (cases x) (auto simp: token_ops_def need_defs)
  show "required_other (op_required (token_ops tk) x r) = required_other r @ required_other (op_required (token_ops tk) x no_required_authorities)"
    by (cases x) (auto simp: token_ops_def need_defs)
  show "moves db db' 0 nothing nothing" if "wf_db db" "op_apply (token_ops tk) x db = Inr db'"
    using that token_apply_moves by (simp add: token_ops_def)
  show "solvent db'" if "wf_db db" "solvent db" "op_apply (token_ops tk) x db = Inr db'"
    using that token_apply_charged [of tk x db db'] fee_charged_contract(2) by (auto simp: token_ops_def)
  show "same_head db db'" if "op_apply (token_ops tk) x db = Inr db'"
    using that token_apply_charged [of tk x db db'] fee_charged_contract(1) by (auto simp: token_ops_def)
qed

interpretation bobserver_co: custom_operations bobserver_ops
proof
  fix r :: required_authorities and x :: enable_content_editing_operation and db db'
  have run: "\<exists>f. db' = modify_plugins f db" if "op_apply bobserver_ops x db = Inr db'"
    using that by (auto simp: bobserver_ops_def enable_content_editing_apply_def Let_def result_simps)
  show "adds_to (required_active r) (required_active (op_required bobserver_ops x no_required_authorities))
      (required_active (op_required bobserver_ops x r))"
    by (auto simp: bobserver_ops_def bobserver_required_authorities_def need_defs)
  show "adds_to (required_owner r) (required_owner (op_required bobserver_ops x no_required_authorities))
      (required_owner (op_required bobserver_ops x r))"
    by (auto simp: bobserver_ops_def bobserver_required_authorities_def need_defs)
  show "adds_to (required_posting r) (required_posting (op_required bobserver_ops x no_required_authorities))
      (required_posting (op_required bobserver_ops x r))"
    by (auto simp: bobserver_ops_def bobserver_required_authorities_def need_defs)
  show "required_other (op_required bobserver_ops x r) = required_other r @ required_other (op_required bobserver_ops x no_required_authorities)"
    by (auto simp: bobserver_ops_def bobserver_required_authorities_def need_defs)
  show "moves db db' 0 nothing nothing" if "wf_db db" "op_apply bobserver_ops x db = Inr db'"
    using run [OF that(2)] modify_plugins_moves [OF that(1)] by auto
  show "solvent db'" if "wf_db db" "solvent db" "op_apply bobserver_ops x db = Inr db'"
    using run [OF that(3)] modify_plugins_solvent [OF that(2)] by auto
  show "same_head db db'" if "op_apply bobserver_ops x db = Inr db'"
    using run [OF that] by auto
qed

text \<open>The handlers change neither balances nor the head.\<close>

definition quiet :: "handler \<Rightarrow> bool" where
  "quiet h \<longleftrightarrow> (\<forall>db. same_head db (fst (h db)) \<and> (wf_db db \<longrightarrow> moves db (fst (h db)) 0 nothing nothing)
     \<and> (solvent db \<longrightarrow> solvent (fst (h db))))"

lemma quietD:
  assumes "quiet h" "h db = (d, e)"
  shows "same_head db d" "wf_db db \<Longrightarrow> moves db d 0 nothing nothing" "solvent db \<Longrightarrow> solvent d"
  using assms(1) unfolding quiet_def by (metis assms(2) fst_conv)+

lemma quiet_token: "quiet token_on_apply_block"
  unfolding quiet_def
proof
  fix db
  note o = token_on_apply_block_off_books [of db]
  show "same_head db (fst (token_on_apply_block db)) \<and> (wf_db db \<longrightarrow> moves db (fst (token_on_apply_block db)) 0 nothing nothing)
     \<and> (solvent db \<longrightarrow> solvent (fst (token_on_apply_block db)))"
    using before_fee_off_books [OF o] off_books_moves [OF _ o] before_fee_solvent by (auto simp: before_fee_def)
qed

lemma aggregate_trx_fee_frame:
  "aggregate_trx_fee_vote db = Inr db' \<Longrightarrow> same_head db db' \<and> (solvent db \<longrightarrow> solvent db')"
  by (auto simp: aggregate_trx_fee_vote_def Let_def result_simps head_defs modify_dgp_def elim!: solvent_frame split: if_splits)

lemma quiet_dapp: "quiet dapp_on_apply_block"
  unfolding quiet_def
proof
  fix db
  let ?d = "aggregate_dapp_approve_vote db"
  have a: "same_head db ?d" "solvent db \<Longrightarrow> solvent ?d"
    by (simp_all add: aggregate_dapp_approve_vote_def modify_plugins_solvent)
  have e: "same_head d (modify_dgp (\<lambda>d. d\<lparr>dgp_last_dapp_voting_aggregation_time := t\<rparr>) d)"
    "solvent d \<Longrightarrow> solvent (modify_dgp (\<lambda>d. d\<lparr>dgp_last_dapp_voting_aggregation_time := t\<rparr>) d)" for d t
    by (simp_all add: modify_dgp_def head_defs solvent_def)
  have "same_head db (fst (dapp_on_apply_block db)) \<and> (solvent db \<longrightarrow> solvent (fst (dapp_on_apply_block db)))"
  proof (cases "aggregate_trx_fee_vote ?d")
    case (Inl x)
    with a show ?thesis by (simp add: dapp_on_apply_block_def Let_def)
  next
    case (Inr x)
    from aggregate_trx_fee_frame [OF Inr] a e [of x "head_block_time db"] Inr same_head_trans [OF same_head_trans [OF a(1)] e(1)]
    show ?thesis by (simp add: dapp_on_apply_block_def Let_def)
  qed
  with dapp_on_apply_block_moves [of db] show "same_head db (fst (dapp_on_apply_block db))
      \<and> (wf_db db \<longrightarrow> moves db (fst (dapp_on_apply_block db)) 0 nothing nothing) \<and> (solvent db \<longrightarrow> solvent (fst (dapp_on_apply_block db)))"
    by blast
qed

lemma quiet_notify:
  assumes "list_all quiet hs"
  shows "same_head db (notify_applied_block hs db) \<and> (wf_db db \<longrightarrow> moves db (notify_applied_block hs db) 0 nothing nothing)
    \<and> (solvent db \<longrightarrow> solvent (notify_applied_block hs db))"
  using assms
proof (induction hs arbitrary: db)
  case (Cons h hs)
  obtain d e where r: "h db = (d, e)" by fastforce
  have q: "quiet h" "list_all quiet hs" using Cons.prems by simp_all
  note qd = quietD [OF q(1) r]
  note IH = Cons.IH [OF q(2), of d]
  have "moves db (notify_applied_block hs d) 0 nothing nothing" if "wf_db db"
  proof -
    note m = qd(2) [OF that]
    with IH moves_wf [OF m] have "moves d (notify_applied_block hs d) 0 nothing nothing" by blast
    from moves_trans [OF m this] show ?thesis by simp
  qed
  with qd IH r same_head_trans [OF qd(1)] show ?case by (cases e) auto
qed (simp add: moves_refl)

lemma quiet_bobserver: "quiet (bobserver_on_block n)"
  by (simp add: quiet_def bobserver_on_block_def modify_plugins_moves modify_plugins_solvent)

lemma quiet_handlers: "list_all quiet (plugin_handlers pt enabled b)"
  by (simp add: plugin_handlers_def quiet_bobserver quiet_dapp quiet_token)

lemma with_plugins_kept:
  "plugins_balanced (with_plugins pt enabled env)" "plugins_solvent (with_plugins pt enabled env)" "plugins_keep_head (with_plugins pt enabled env)"
proof -
  note q = quiet_notify [OF quiet_handlers [of pt enabled]]
  have i: "same_head db db'" "wf_db db \<Longrightarrow> moves db db' 0 nothing nothing" "wf_db db \<Longrightarrow> solvent db \<Longrightarrow> solvent db'"
    if "plugin_interpreters pt enabled i = Some eval" "eval op db = Applied db'" for i eval op db db'
    using that dapp_co.interpreter_contract token_co.interpreter_contract bobserver_co.interpreter_contract
    by (auto simp: plugin_interpreters_def split: if_splits)
  have f: "env_interpreters (with_plugins pt enabled env) = plugin_interpreters pt enabled"
    "env_on_applied_block (with_plugins pt enabled env) b db = notify_applied_block (plugin_handlers pt enabled b) db" for b db
    by (simp_all add: with_plugins_def)
  show "plugins_balanced (with_plugins pt enabled env)" unfolding plugins_balanced_def f using i(2) q by blast
  show "plugins_solvent (with_plugins pt enabled env)" unfolding plugins_solvent_def f using i(3) q by blast
  show "plugins_keep_head (with_plugins pt enabled env)" unfolding plugins_keep_head_def f using i(1) q by blast
qed

text \<open>
  C13: the bobserver, dapp and token plugins meet everything the chain relies on of its plugins, whichever of them a node enables:
  operations and handlers keep the books of the chain's coin, leave no balance negative, and change
  neither the head of the chain nor the known transactions.
\<close>

theorem plugins_meet_contract:
  "plugins_balanced (with_plugins pt enabled env) \<and> plugins_solvent (with_plugins pt enabled env)
     \<and> plugins_keep_head (with_plugins pt enabled env)"
  by (simp add: with_plugins_kept)

section \<open>Authorities of inner operations\<close>

text \<open>
  \<open>authorized_run\<close>: the operation carries valid inner operations that are applied one after the other, and it asks for exactly the
  authorities they ask for.
\<close>

definition authorized_run :: "'op custom_ops \<Rightarrow> ('v, 'op) codec \<Rightarrow> operation \<Rightarrow> chain_db \<Rightarrow> chain_db \<Rightarrow> bool" where
  "authorized_run co c outer_o db db' \<longleftrightarrow>
     (\<exists>ops. get_inner_operation c outer_o = Inr ops \<and> foldR (\<lambda>db x. op_apply co x db) db ops = Inr db'
        \<and> list_all (\<lambda>x. op_validate co x = Inr ()) ops
        \<and> set (required_active (operation_get_required_authorities outer_o no_required_authorities))
            = (\<Union>x\<in>set ops. set (required_active (op_required co x no_required_authorities)))
        \<and> set (required_owner (operation_get_required_authorities outer_o no_required_authorities))
            = (\<Union>x\<in>set ops. set (required_owner (op_required co x no_required_authorities)))
        \<and> set (required_posting (operation_get_required_authorities outer_o no_required_authorities))
            = (\<Union>x\<in>set ops. set (required_posting (op_required co x no_required_authorities)))
        \<and> required_other (operation_get_required_authorities outer_o no_required_authorities)
            = concat (map (\<lambda>x. required_other (op_required co x no_required_authorities)) ops))"

text \<open>
  C14: a custom operation changes the state only through inner operations that are valid and whose required authorities, taken
  together, are the ones the custom operation itself asks for: as a transaction is checked against the latter, no dapp,
  token or bobserver operation runs without the signatures it needs. Otherwise nothing changes: a custom operation that no plugin handles or whose
  interpreter throws has no effect.
\<close>

theorem inner_operations_authorized:
  assumes "run_interpreter (with_plugins pt enabled env) i outer_o db = Inr db'"
  shows "db' = db
    \<or> i = ''dapp'' \<and> i \<in> set enabled \<and> authorized_run (dapp_ops (pt_text pt)) (pt_dapp_codec pt) outer_o db db'
    \<or> i = ''token'' \<and> i \<in> set enabled \<and> authorized_run (token_ops (pt_token pt)) (pt_token_codec pt) outer_o db db'
    \<or> i = ''bobserver'' \<and> i \<in> set enabled \<and> authorized_run bobserver_ops (pt_bobserver_codec pt) outer_o db db'"
proof (cases "plugin_interpreters pt enabled i")
  case None
  with assms show ?thesis by (simp add: run_interpreter_def with_plugins_def)
next
  case (Some eval)
  show ?thesis
  proof (cases "eval outer_o db")
    case (Applied d)
    then have "db' = d" using assms Some by (simp add: run_interpreter_def with_plugins_def)
    with Applied Some show ?thesis
      by (auto simp: plugin_interpreters_def authorized_run_def
          dest!: dapp_co.interpreter_authorized token_co.interpreter_authorized bobserver_co.interpreter_authorized split: if_splits)
  qed (use assms Some in \<open>auto simp: run_interpreter_def with_plugins_def split: if_splits\<close>)
qed

section \<open>Nodes with different plugins\<close>

definition join_chess :: join_dapp_operation where
  "join_chess = \<lparr>jdp_account_name = ''bob'', jdp_dapp_name = ''chess''\<rparr>"

definition bob_joins :: operation where
  "bob_joins = Custom_json \<lparr>cj_required_auths = [''bob''], cj_required_posting_auths = [], cj_id = ''dapp'', cj_json = ''join chess''\<rparr>"

definition alice_pays_all :: operation where
  "alice_pays_all = Transfer \<lparr>tr_from = ''alice'', tr_to = ''bob'', tr_amount = SGT 100, tr_memo = []\<rparr>"

text \<open>Readers that know one text only.\<close>

definition example_codec :: "'op \<Rightarrow> (string, 'op) codec" where
  "example_codec op = \<lparr>cd_parse = Inr, cd_array = (\<lambda>_. None),
     cd_from_variant = (\<lambda>s. if s = ''join chess'' then Inr op else Inl Parse_error_exception), cd_from_variants = (\<lambda>_. Inl Parse_error_exception),
     cd_unpack = (\<lambda>_. Inl Parse_error_exception), cd_unpack_list = (\<lambda>_. Inl Parse_error_exception)\<rparr>"

definition example_plugins :: "string plugin_tools" where
  "example_plugins = \<lparr>pt_text = example_tools, pt_token = example_token_tools, pt_dapp_codec = example_codec (Join_dapp join_chess),
     pt_token_codec = example_codec (Burn_token \<lparr>btk_account = ''alice'', btk_amount = GOLD 1\<rparr>),
     pt_bobserver_codec = example_codec \<lparr>ece_account = ''alice'', ece_relock_time = 5\<rparr>, pt_block_size = (\<lambda>_. 100)\<rparr>"

lemmas plugin_eval = run_interpreter_def with_plugins_def plugin_interpreters_def generic_interpreter_def apply_inner_operations_def inner_required_def
  get_inner_json_def example_codec_def example_plugins_def dapp_ops_def join_dapp_apply_def join_chess_def bob_joins_def alice_pays_all_def
  custom_json_apply_def require_dapp_def find_dapp_def find_dapp_user_def user_clash_def need_defs insert_all_def flat_set_insert_def
  join_dapp_validate_def no_space_def validate_account_name_def name_eval is_valid_account_name_def is_letter_def is_let_dig_def
  SIGMAENGINE_MIN_ACCOUNT_NAME_LENGTH_def SIGMAENGINE_MAX_ACCOUNT_NAME_LENGTH_def upt_rec example_tools_def
  token_example_eval token_helper_eval economy_eval

lemma bob_joins_run:
  "\<exists>d. run_interpreter (with_plugins example_plugins [''bobserver'', ''dapp'', ''token''] example_env) ''dapp'' bob_joins token_db = Inr d
     \<and> map (\<lambda>a. amount (acc_balance a)) (tb_rows (db_accounts d)) = [0, 99, 0]"
  by (simp add: plugin_eval)

theorem inner_operations_authorized_witness:
  "\<exists>db'. run_interpreter (with_plugins example_plugins [''bobserver'', ''dapp'', ''token''] example_env) ''dapp'' bob_joins token_db = Inr db'
     \<and> db' \<noteq> token_db
     \<and> authorized_run (dapp_ops example_tools) (example_codec (Join_dapp join_chess)) bob_joins token_db db'"
proof -
  from bob_joins_run obtain d where d: "run_interpreter (with_plugins example_plugins [''bobserver'', ''dapp'', ''token''] example_env) ''dapp'' bob_joins token_db = Inr d"
    and b: "map (\<lambda>a. amount (acc_balance a)) (tb_rows (db_accounts d)) = [0, 99, 0]" by (elim exE conjE) (rule that)
  have start: "map (\<lambda>a. amount (acc_balance a)) (tb_rows (db_accounts token_db)) = [0, 100, 0]" by (simp add: plugin_eval)
  have ne: "d \<noteq> token_db"
  proof
    assume "d = token_db"
    then have "[0, 100, 0] = [0, 99, 0 :: int]" using b start by (simp only:)
    then show False by simp
  qed
  have tools: "pt_text example_plugins = example_tools" "pt_dapp_codec example_plugins = example_codec (Join_dapp join_chess)"
    by (simp_all add: example_plugins_def)
  have "''dapp'' \<noteq> ''token''" "''dapp'' \<noteq> ''bobserver''" by simp_all
  with inner_operations_authorized [OF d, unfolded tools] ne
  have "authorized_run (dapp_ops example_tools) (example_codec (Join_dapp join_chess)) bob_joins token_db d" by (elim disjE conjE) simp_all
  with d ne show ?thesis by (intro exI conjI)
qed

text \<open>
  Two nodes of which one enables the dapp plugin and the other does not, as the example configuration \<^verbatim>\<open>config.ini\<close>
  leaves it out, apply the same operation to the same state and go apart: joining a dapp charges its owner a fee on the first node
  only, and a later transfer that fails there is applied by the other.
\<close>

theorem plugin_sets_split_the_chain:
  "\<exists>with_dapp without. apply_operation (with_plugins example_plugins [''bobserver'', ''dapp'', ''token''] example_env) bob_joins token_db = Inr with_dapp
     \<and> apply_operation (with_plugins example_plugins [''bobserver''] example_env) bob_joins token_db = Inr without
     \<and> (\<exists>e. apply_operation (with_plugins example_plugins [''bobserver'', ''dapp'', ''token''] example_env) alice_pays_all with_dapp = Inl e)
     \<and> (\<exists>db'. apply_operation (with_plugins example_plugins [''bobserver''] example_env) alice_pays_all without = Inr db')"
  by (simp add: plugin_eval)

end
