(* ===== verification/Account_History.thy ===== *)
theory Account_History
  imports Plugins
begin

text \<open>
  The accounts an operation impacts (\<^verbatim>\<open>app/impacted.cpp\<close>) and the account history plugin (\<^verbatim>\<open>account_history_plugin.cpp\<close>,
  \<^verbatim>\<open>history_object.hpp\<close>), which records every operation under the tracked accounts it impacts. The plugin works on indexes of its
  own; they are the state of this theory. The theorems: which accounts are tracked, that an account's history is the list of
  its operations numbered from zero, and that the second numbering, by kind of operation, is wrong.
\<close>

section \<open>Impacted accounts\<close>

definition insert_required :: "required_authorities \<Rightarrow> account_name_type list \<Rightarrow> account_name_type list" where
  "insert_required r impacted =
     insert_all (required_owner r) (insert_all (required_active r) (insert_all (required_posting r) impacted))"

definition visit_all :: "('op \<Rightarrow> required_authorities \<Rightarrow> required_authorities) \<Rightarrow> 'op list \<Rightarrow> account_name_type list \<Rightarrow> account_name_type list" where
  "visit_all required ops impacted = foldl (\<lambda>s x. insert_required (required x no_required_authorities) s) impacted ops"

text \<open>\<^verbatim>\<open>process_inner_operation\<close>: what cannot be read as operations of the given type impacts nobody.\<close>

definition inner_of_variant :: "('v, 'op) codec \<Rightarrow> 'v \<Rightarrow> 'op list result" where
  "inner_of_variant c v =
     (case cd_array c v of
        Some (w # _) \<Rightarrow> (if cd_array c w \<noteq> None then cd_from_variants c v else bindR (cd_from_variant c v) (\<lambda>op. Inr [op]))
      | _ \<Rightarrow> bindR (cd_from_variant c v) (\<lambda>op. Inr [op]))"

definition process_inner_variant ::
  "('v, 'op) codec \<Rightarrow> ('op \<Rightarrow> required_authorities \<Rightarrow> required_authorities) \<Rightarrow> 'v \<Rightarrow> account_name_type list \<Rightarrow> account_name_type list" where
  "process_inner_variant c required v impacted =
     (case inner_of_variant c v of Inl _ \<Rightarrow> impacted | Inr ops \<Rightarrow> visit_all required ops impacted)"

definition process_inner_data ::
  "('v, 'op) codec \<Rightarrow> ('op \<Rightarrow> required_authorities \<Rightarrow> required_authorities) \<Rightarrow> string \<Rightarrow> account_name_type list \<Rightarrow> account_name_type list" where
  "process_inner_data c required data impacted =
     (case get_inner_binary c data of Inl _ \<Rightarrow> impacted | Inr ops \<Rightarrow> visit_all required ops impacted)"

definition impacted_by_json :: "'v plugin_tools \<Rightarrow> string \<Rightarrow> account_name_type list \<Rightarrow> account_name_type list result" where
  "impacted_by_json pt json impacted =
     bindR (cd_parse (pt_dapp_codec pt) json) (\<lambda>var.
     Inr (process_inner_variant (pt_bobserver_codec pt) bobserver_required_authorities var (
          process_inner_variant (pt_token_codec pt) token_required_authorities var (
          process_inner_variant (pt_dapp_codec pt) dapp_required_authorities var impacted))))"

definition impacted_by_binary :: "'v plugin_tools \<Rightarrow> string \<Rightarrow> account_name_type list \<Rightarrow> account_name_type list" where
  "impacted_by_binary pt data impacted =
     process_inner_data (pt_bobserver_codec pt) bobserver_required_authorities data (
     process_inner_data (pt_token_codec pt) token_required_authorities data (
     process_inner_data (pt_dapp_codec pt) dapp_required_authorities data impacted))"

fun operation_get_impacted_accounts :: "'v plugin_tools \<Rightarrow> operation \<Rightarrow> account_name_type list \<Rightarrow> account_name_type list result" where
  "operation_get_impacted_accounts pt (Account_create o') s = Inr (insert_all [ac_new_account_name o', ac_creator o'] s)"
| "operation_get_impacted_accounts pt (Bobserver_update o') s = Inr (insert_all [bu_owner o'] s)"
| "operation_get_impacted_accounts pt (Transfer o') s = Inr (insert_all [tr_from o', tr_to o'] s)"
| "operation_get_impacted_accounts pt (Request_account_recovery o') s = Inr (insert_all [rr_account_to_recover o', rr_recovery_account o'] s)"
| "operation_get_impacted_accounts pt (Recover_account o') s = Inr (insert_all [ra_account_to_recover o'] s)"
| "operation_get_impacted_accounts pt (Change_recovery_account o') s = Inr (insert_all [cr_account_to_recover o'] s)"
| "operation_get_impacted_accounts pt (Shutdown_bobserver owner) s = Inr (insert_all [owner] s)"
| "operation_get_impacted_accounts pt (Update_bproducer o') s = Inr (insert_all [ub_bobserver o'] s)"
| "operation_get_impacted_accounts pt (Except_bobserver o') s = Inr (insert_all [eb_bobserver o'] s)"
| "operation_get_impacted_accounts pt (Account_auth o') s = Inr (insert_all [aa_account o'] s)"
| "operation_get_impacted_accounts pt (Custom_json o') s = impacted_by_json pt (cj_json o') s"
| "operation_get_impacted_accounts pt (Custom_json_dapp o') s = impacted_by_json pt (cd_json o') s"
| "operation_get_impacted_accounts pt (Custom_binary o') s = Inr (impacted_by_binary pt (cb_data o') s)"
| "operation_get_impacted_accounts pt (Print o') s = Inr (insert_all [pr_account o', pr_root o'] s)"
| "operation_get_impacted_accounts pt (Burn o') s = Inr (insert_all [bn_account o', bn_root o'] s)"
| "operation_get_impacted_accounts pt (Transfer_savings o') s = Inr (insert_all [ts_from o', ts_to o'] s)"
| "operation_get_impacted_accounts pt (Fill_transfer_savings o') s = Inr (insert_all [ft_from o', ft_to o'] s)"
| "operation_get_impacted_accounts pt (Cancel_transfer_savings o') s = Inr (insert_all [ct_from o', ct_to o'] s)"
| "operation_get_impacted_accounts pt (Conclusion_transfer_savings o') s = Inr (insert_all [co_from o', co_to o'] s)"
| "operation_get_impacted_accounts pt (Staking_fund o') s = Inr (insert_all [sf_from o'] s)"
| "operation_get_impacted_accounts pt (Fill_staking_fund o') s = Inr (insert_all [fs_from o'] s)"
| "operation_get_impacted_accounts pt (Conclusion_staking o') s = Inr (insert_all [cs_from o'] s)"
| "operation_get_impacted_accounts pt (Return_staking_fund o') s = Inr (insert_all [rf_root o'] s)"
| "operation_get_impacted_accounts pt (Transfer_fund o') s = Inr (insert_all [tf_from o'] s)"
| "operation_get_impacted_accounts pt (Set_fund_interest o') s = Inr (insert_all [fi_root o'] s)"
| "operation_get_impacted_accounts pt (Set_blacklist_account o') s = Inr (insert_all [bl_root o'] s)"
| "operation_get_impacted_accounts pt op s = Inr (insert_required (operation_get_required_authorities op no_required_authorities) s)"

definition transaction_get_impacted_accounts :: "'v plugin_tools \<Rightarrow> operation list \<Rightarrow> account_name_type list \<Rightarrow> account_name_type list result" where
  "transaction_get_impacted_accounts pt ops s = foldR (\<lambda>s op. operation_get_impacted_accounts pt op s) s ops"

section \<open>The history\<close>

text \<open>\<^verbatim>\<open>operation::which\<close>, the position in the variant.\<close>

fun which :: "operation \<Rightarrow> nat" where
  "which (Transfer _) = 0"
| "which (Account_create _) = 1"
| "which (Account_update _) = 2"
| "which (Bobserver_update _) = 3"
| "which (Custom _) = 4"
| "which (Custom_json _) = 5"
| "which (Request_account_recovery _) = 6"
| "which (Recover_account _) = 7"
| "which (Change_recovery_account _) = 8"
| "which (Custom_binary _) = 9"
| "which (Decline_voting_rights _) = 10"
| "which (Reset_account _) = 11"
| "which (Set_reset_account _) = 12"
| "which (Update_bproducer _) = 13"
| "which (Except_bobserver _) = 14"
| "which (Account_auth _) = 15"
| "which (Print _) = 16"
| "which (Burn _) = 17"
| "which (Transfer_savings _) = 18"
| "which (Cancel_transfer_savings _) = 19"
| "which (Conclusion_transfer_savings _) = 20"
| "which (Staking_fund _) = 21"
| "which (Conclusion_staking _) = 22"
| "which (Transfer_fund _) = 23"
| "which (Set_fund_interest _) = 24"
| "which (Return_staking_fund _) = 25"
| "which (Shutdown_bobserver _) = 26"
| "which (Hardfork _) = 27"
| "which (Dapp_fee_virtual _ _) = 28"
| "which (Dapp_reward_virtual _ _) = 29"
| "which (Fill_token_staking_fund _) = 30"
| "which (Fill_transfer_token_savings _) = 31"
| "which (Fill_staking_fund _) = 32"
| "which (Fill_transfer_savings _) = 33"
| "which (Custom_json_dapp _) = 34"
| "which (Set_blacklist_account _) = 35"

text \<open>The notification of an operation, and the objects of the plugin. \<open>opo_serialized_op\<close> is the packed operation.\<close>

record operation_notification =
  nt_trx_id :: transaction_id_type
  nt_block :: nat
  nt_trx_in_block :: nat
  nt_op_in_trx :: nat
  nt_virtual_op :: nat
  nt_op :: operation

record operation_object =
  opo_id :: nat
  opo_trx_id :: transaction_id_type
  opo_block :: nat
  opo_trx_in_block :: nat
  opo_op_in_trx :: nat
  opo_virtual_op :: nat
  opo_timestamp :: time_point_sec
  opo_serialized_op :: string

record account_history_object =
  aho_id :: nat
  aho_account :: account_name_type
  aho_sequence :: nat
  aho_op_tag :: nat
  aho_op_seq :: nat
  aho_op :: nat

definition account_history_clash :: "account_history_object \<Rightarrow> account_history_object \<Rightarrow> bool" where
  "account_history_clash a b \<longleftrightarrow> aho_account a = aho_account b
     \<and> (aho_sequence a = aho_sequence b \<or> aho_op_tag a = aho_op_tag b \<and> aho_op_seq a = aho_op_seq b)"

record history_db =
  hd_operations :: "operation_object table"
  hd_accounts :: "account_history_object table"

text \<open>
  The options of the plugin: the tracked ranges of accounts, a sorted map from the first to the last of each, and the kinds
  of operations to record or to leave out.
\<close>

record history_options =
  ho_tracked_accounts :: "(account_name_type \<times> account_name_type) list"
  ho_filter_content :: bool
  ho_blacklist :: bool
  ho_op_list :: "string list"
  ho_typename :: "operation \<Rightarrow> string"
  ho_pack :: "operation \<Rightarrow> string"

definition create_operation_object :: "history_options \<Rightarrow> operation_notification \<Rightarrow> time_point_sec \<Rightarrow> nat \<Rightarrow> operation_object" where
  "create_operation_object ho notice now i =
     \<lparr>opo_id = i, opo_trx_id = nt_trx_id notice, opo_block = nt_block notice, opo_trx_in_block = nt_trx_in_block notice,
      opo_op_in_trx = nt_op_in_trx notice, opo_virtual_op = nt_virtual_op notice, opo_timestamp = now, opo_serialized_op = ho_pack ho (nt_op notice)\<rparr>"

text \<open>
  \<^verbatim>\<open>by_account\<close> has the newest entry of an account first; so \<open>lower_bound\<close> of the largest sequence number is that entry.
  \<^verbatim>\<open>by_op_tag\<close> orders the entries of an account by falling tags: \<open>lower_bound\<close> is the newest entry of the largest tag that is not
  larger than the one asked for.
\<close>

definition next_sequence :: "account_name_type \<Rightarrow> account_history_object list \<Rightarrow> nat" where
  "next_sequence item rows =
     (case index_begin (\<lambda>h. - int (aho_sequence h)) (filter (\<lambda>h. aho_account h = item) rows) of
        None \<Rightarrow> 0
      | Some h \<Rightarrow> (aho_sequence h + 1) mod 2 ^ 32)"

definition next_op_seq :: "account_name_type \<Rightarrow> nat \<Rightarrow> account_history_object list \<Rightarrow> nat" where
  "next_op_seq item tag rows =
     (case index_begin (\<lambda>h. (- int (aho_op_tag h), - int (aho_op_seq h))) (filter (\<lambda>h. aho_account h = item \<and> aho_op_tag h \<le> tag) rows) of
        None \<Rightarrow> 0
      | Some h \<Rightarrow> (aho_op_seq h + 1) mod 2 ^ 32)"

text \<open>\<open>new_obj\<close> is the object of the operation once it has been created, for the first account.\<close>

definition record_operation ::
  "history_options \<Rightarrow> operation_notification \<Rightarrow> time_point_sec \<Rightarrow> account_name_type \<Rightarrow> nat option \<times> history_db \<Rightarrow> (nat option \<times> history_db) result" where
  "record_operation ho notice now item st =
     (case st of (new_obj, h) \<Rightarrow>
        let created = (case new_obj of
                         Some i \<Rightarrow> (i, hd_operations h)
                       | None \<Rightarrow> (tb_next (hd_operations h),
                           \<lparr>tb_next = tb_next (hd_operations h) + 1, tb_rows = tb_rows (hd_operations h)
                              @ [create_operation_object ho notice now (tb_next (hd_operations h))]\<rparr>));
            rows = tb_rows (hd_accounts h); tag = which (nt_op notice)
        in bindR (table_create account_history_clash (\<lambda>i. \<lparr>aho_id = i, aho_account = item, aho_sequence = next_sequence item rows,
             aho_op_tag = tag, aho_op_seq = next_op_seq item tag rows, aho_op = fst created\<rparr>) (hd_accounts h)) (\<lambda>t.
           Inr (Some (fst created), \<lparr>hd_operations = snd created, hd_accounts = t\<rparr>)))"

definition is_tracked :: "(account_name_type \<times> account_name_type) list \<Rightarrow> account_name_type \<Rightarrow> bool" where
  "is_tracked tracked item =
     (let before = takeWhile (\<lambda>x. fst x < item) tracked;
          from_here = dropWhile (\<lambda>x. fst x < item) tracked;
          itr = (if before \<noteq> [] \<and> (from_here = [] \<or> fst (hd from_here) \<noteq> item) then Some (last before)
                 else if from_here = [] then None else Some (hd from_here))
      in tracked = [] \<or> (case itr of None \<Rightarrow> False | Some x \<Rightarrow> fst x \<le> item \<and> item \<le> snd x))"

definition is_recorded :: "history_options \<Rightarrow> operation \<Rightarrow> bool" where
  "is_recorded ho op \<longleftrightarrow>
     (ho_filter_content ho \<longrightarrow> (if ho_typename ho op \<in> set (ho_op_list ho) then \<not> ho_blacklist ho else ho_blacklist ho))"

definition on_operation :: "'v plugin_tools \<Rightarrow> history_options \<Rightarrow> operation_notification \<Rightarrow> time_point_sec \<Rightarrow> history_db \<Rightarrow> history_db result" where
  "on_operation pt ho notice now h =
     bindR (operation_get_impacted_accounts pt (nt_op notice) []) (\<lambda>impacted.
     bindR (foldR (\<lambda>st item.
              if is_tracked (ho_tracked_accounts ho) item \<and> is_recorded ho (nt_op notice) then record_operation ho notice now item st else Inr st)
            (None, h) impacted) (\<lambda>st. Inr (snd st)))"

section \<open>Tracked accounts\<close>

text \<open>Ranges that do not meet, in the order of the map.\<close>

definition ranges_wf :: "('a :: linorder \<times> 'a) list \<Rightarrow> bool" where
  "ranges_wf tracked \<longleftrightarrow> sorted_wrt (\<lambda>x y. snd x < fst y) tracked \<and> list_all (\<lambda>x. fst x \<le> snd x) tracked"

lemma ranges_split:
  assumes "ranges_wf tracked"
  shows "r \<in> set (takeWhile (\<lambda>x. fst x < item) tracked) \<Longrightarrow> item \<le> snd r \<Longrightarrow> r = last (takeWhile (\<lambda>x. fst x < item) tracked)"
    and "r \<in> set (dropWhile (\<lambda>x. fst x < item) tracked) \<Longrightarrow> fst r \<le> item \<Longrightarrow> r = hd (dropWhile (\<lambda>x. fst x < item) tracked) \<and> fst r = item"
proof -
  let ?b = "takeWhile (\<lambda>x. fst x < item) tracked" and ?d = "dropWhile (\<lambda>x. fst x < item) tracked"
  have w: "sorted_wrt (\<lambda>x y. snd x < fst y) ?b" "sorted_wrt (\<lambda>x y. snd x < fst y) ?d" "\<forall>x \<in> set ?d. fst x \<le> snd x"
    using assms takeWhile_dropWhile_id [of "\<lambda>x. fst x < item" tracked] sorted_wrt_append [of "\<lambda>x y. snd x < fst y" ?b ?d]
      set_dropWhileD [of _ "\<lambda>x. fst x < item" tracked]
    by (auto simp: ranges_wf_def list_all_iff simp del: takeWhile_dropWhile_id)
  show "r = last ?b" if "r \<in> set ?b" "item \<le> snd r"
  proof (rule ccontr)
    assume ne: "r \<noteq> last ?b"
    have b: "?b = butlast ?b @ [last ?b]" using that(1) by (metis append_butlast_last_id empty_iff empty_set)
    with that(1) ne have "r \<in> set (butlast ?b)" by (metis Un_iff empty_iff empty_set set_ConsD set_append)
    then have "snd r < fst (last ?b)" using w(1) by (subst (asm) b) (auto simp: sorted_wrt_append simp del: append_butlast_last_id)
    moreover have "last ?b \<in> set ?b" using that(1) by (metis empty_iff empty_set last_in_set)
    then have "fst (last ?b) < item" by (auto dest: set_takeWhileD)
    ultimately show False using that(2) by auto
  qed
  show "r = hd ?d \<and> fst r = item" if "r \<in> set ?d" "fst r \<le> item"
  proof -
    have "?d \<noteq> []" using length_pos_if_in_set [OF that(1)] by (simp only: length_greater_0_conv not_False_eq_True)
    then obtain x xs where d: "?d = x # xs" unfolding neq_Nil_conv by (elim exE)
    then have "\<not> fst (hd ?d) < item" using hd_dropWhile [of "\<lambda>x. fst x < item" tracked] by simp
    then have x: "item \<le> fst x" by (simp add: d)
    have "r \<notin> set xs"
    proof
      assume "r \<in> set xs"
      then have "snd x < fst r" using w(2) d by simp
      moreover have "fst x \<le> snd x" using w(3) d by simp
      ultimately show False using x that(2) by auto
    qed
    with that d x show ?thesis by auto
  qed
qed

text \<open>
  The search through the map of tracked ranges, which looks at one range only, tells whether the account lies in any of the ranges, as
  long as these do not meet; and with no ranges given every account is tracked.
\<close>

theorem tracked_iff_in_range:
  assumes "ranges_wf tracked"
  shows "is_tracked tracked item \<longleftrightarrow> tracked = [] \<or> (\<exists>r \<in> set tracked. fst r \<le> item \<and> item \<le> snd r)"
proof (cases "tracked = []")
  case False
  let ?b = "takeWhile (\<lambda>x. fst x < item) tracked" and ?d = "dropWhile (\<lambda>x. fst x < item) tracked"
  have set: "set tracked = set ?b \<union> set ?d" by (metis set_append takeWhile_dropWhile_id)
  note split = ranges_split [OF assms]
  have b: "?b \<noteq> [] \<Longrightarrow> last ?b \<in> set ?b \<and> fst (last ?b) < item" by (metis last_in_set set_takeWhileD)
  show ?thesis
  proof (cases "?b \<noteq> [] \<and> (?d = [] \<or> fst (hd ?d) \<noteq> item)")
    case True
    then have t: "is_tracked tracked item \<longleftrightarrow> item \<le> snd (last ?b)" using False b by (auto simp: is_tracked_def Let_def)
    have "\<not> (fst r \<le> item)" if "r \<in> set ?d" for r using split(2) [OF that] True that by fastforce
    with t b True split(1) set False show ?thesis by (metis Un_iff less_imp_le)
  next
    case nb: False
    show ?thesis
    proof (cases ?d)
      case Nil
      with nb have "tracked = []" by (metis append_Nil2 takeWhile_dropWhile_id)
      with False show ?thesis by simp
    next
      case (Cons x xs)
      then have t: "is_tracked tracked item \<longleftrightarrow> fst x \<le> item \<and> item \<le> snd x" using False nb by (auto simp: is_tracked_def Let_def)
      have in_b: "\<not> item \<le> snd r" if "r \<in> set ?b" for r
      proof
        assume "item \<le> snd r"
        have "fst x = item" using nb Cons that by auto
        have "sorted_wrt (\<lambda>x y. snd x < fst y) (?b @ ?d)" using assms by (simp add: ranges_wf_def)
        then have "snd r < fst x" using that Cons by (auto simp: sorted_wrt_append simp del: takeWhile_dropWhile_id)
        with \<open>item \<le> snd r\<close> \<open>fst x = item\<close> show False by auto
      qed
      have "r = x" if "r \<in> set ?d" "fst r \<le> item" for r using split(2) [OF that] Cons by simp
      with t in_b set False Cons show ?thesis by (metis Un_iff list.set_intros(1))
    qed
  qed
qed (simp add: is_tracked_def)

theorem tracked_iff_in_range_witness:
  "is_tracked [(''a'', ''c''), (''g'', ''i'')] ''bob'' \<and> \<not> is_tracked [(''a'', ''c''), (''g'', ''i'')] ''dan''"
proof -
  have "ranges_wf [(''a'', ''c''), (''g'', ''i'')]" by (simp add: ranges_wf_def)
  from tracked_iff_in_range [OF this, of "''bob''"] tracked_iff_in_range [OF this, of "''dan''"] show ?thesis by simp
qed

section \<open>The history of an account\<close>

definition entries_of :: "account_name_type \<Rightarrow> history_db \<Rightarrow> account_history_object list" where
  "entries_of a h = filter (\<lambda>e. aho_account e = a) (tb_rows (hd_accounts h))"

definition operation_at :: "history_db \<Rightarrow> nat \<Rightarrow> string option" where
  "operation_at h i = map_option opo_serialized_op (table_find (\<lambda>x. opo_id x = i) (hd_operations h))"

definition history_of :: "account_name_type \<Rightarrow> history_db \<Rightarrow> (nat \<times> nat \<times> string option) list" where
  "history_of a h = map (\<lambda>e. (aho_sequence e, aho_op_tag e, operation_at h (aho_op e))) (entries_of a h)"

definition transfers_of :: "account_name_type \<Rightarrow> history_db \<Rightarrow> account_history_object list" where
  "transfers_of a h = filter (\<lambda>e. aho_op_tag e = 0) (entries_of a h)"

text \<open>
  A sound history: the entries of an account are numbered in the order in which they were made, its transfers as well; entries
  refer to recorded operations and differ in their keys.
\<close>

definition wf_history :: "history_db \<Rightarrow> bool" where
  "wf_history h \<longleftrightarrow> wf_table opo_id (hd_operations h)
     \<and> (\<forall>a. map aho_sequence (entries_of a h) = [0..<length (entries_of a h)] \<and> map aho_op_seq (transfers_of a h) = [0..<length (transfers_of a h)])
     \<and> (\<forall>e \<in> set (tb_rows (hd_accounts h)). aho_op_seq e \<le> aho_sequence e \<and> aho_op e \<in> opo_id ` set (tb_rows (hd_operations h)))"

lemma entry_sequence_bound:
  assumes "wf_history h" "e \<in> set (entries_of a h)"
  shows "aho_sequence e < length (entries_of a h)"
proof -
  have "aho_sequence e \<in> set (map aho_sequence (entries_of a h))" using assms(2) by simp
  then show ?thesis using assms(1) by (auto simp: wf_history_def simp del: set_map)
qed

lemma next_sequence_count:
  assumes "wf_history h" "length (tb_rows (hd_accounts h)) < 2 ^ 32"
  shows "next_sequence a (tb_rows (hd_accounts h)) = length (entries_of a h)"
proof (cases "index_begin (\<lambda>e. - int (aho_sequence e)) (entries_of a h)")
  case None
  then show ?thesis by (simp add: next_sequence_def entries_of_def)
next
  case (Some e)
  let ?n = "length (entries_of a h)"
  have e: "e \<in> set (entries_of a h)" by (rule index_begin_mem [OF Some])
  then have pos: "0 < ?n" by (cases "entries_of a h") auto
  have "?n - 1 \<in> set (map aho_sequence (entries_of a h))" using assms(1) pos by (simp add: wf_history_def del: set_map)
  then obtain x where x: "x \<in> set (entries_of a h)" "aho_sequence x = ?n - 1" by auto
  from index_begin_least [OF Some x(1)] x(2) entry_sequence_bound [OF assms(1) e] have s: "aho_sequence e + 1 = ?n" by auto
  have "?n \<le> length (tb_rows (hd_accounts h))" by (simp add: entries_of_def)
  then have "?n < 2 ^ 32" using assms(2) by linarith
  with Some s show ?thesis by (simp add: next_sequence_def entries_of_def)
qed

text \<open>The number by kind: above all numbers of that kind, and the next one for transfers.\<close>

lemma next_op_seq_fresh:
  assumes "wf_history h" "length (tb_rows (hd_accounts h)) < 2 ^ 32"
  shows "next_op_seq a tag (tb_rows (hd_accounts h)) \<le> length (entries_of a h)"
    and "e \<in> set (entries_of a h) \<Longrightarrow> aho_op_tag e = tag \<Longrightarrow> aho_op_seq e < next_op_seq a tag (tb_rows (hd_accounts h))"
    and "tag = 0 \<Longrightarrow> next_op_seq a tag (tb_rows (hd_accounts h)) = length (transfers_of a h)"
proof -
  let ?key = "\<lambda>e. (- int (aho_op_tag e), - int (aho_op_seq e))" and ?rows = "tb_rows (hd_accounts h)"
  let ?f = "filter (\<lambda>e. aho_account e = a \<and> aho_op_tag e \<le> tag) ?rows"
  have len: "length (entries_of a h) < 2 ^ 32" using assms(2) order.strict_trans1 [OF length_filter_le] by (simp add: entries_of_def)
  have f: "?f = filter (\<lambda>e. aho_op_tag e \<le> tag) (entries_of a h)"
    by (simp add: entries_of_def conj_commute)
  have bound: "aho_op_seq e + 1 \<le> length (entries_of a h)" if "e \<in> set ?f" for e
  proof -
    have e: "e \<in> set (entries_of a h)" using that unfolding f by simp
    then have "aho_op_seq e \<le> aho_sequence e" using assms(1) by (simp add: wf_history_def entries_of_def)
    with entry_sequence_bound [OF assms(1) e] show ?thesis by simp
  qed
  have val: "next_op_seq a tag ?rows = aho_op_seq x + 1" if "index_begin ?key ?f = Some x" for x
    using that bound [OF index_begin_mem [OF that]] len by (simp add: next_op_seq_def)
  show "next_op_seq a tag ?rows \<le> length (entries_of a h)"
  proof (cases "index_begin ?key ?f")
    case (Some x)
    with val [OF Some] bound [OF index_begin_mem [OF Some]] show ?thesis by simp
  qed (simp add: next_op_seq_def)
  show "aho_op_seq e < next_op_seq a tag ?rows" if e: "e \<in> set (entries_of a h)" "aho_op_tag e = tag"
  proof -
    have ef: "e \<in> set ?f" using e unfolding f by simp
    then obtain x where x: "index_begin ?key ?f = Some x" by (cases "index_begin ?key ?f") (auto simp: filter_empty_conv)
    have "aho_op_tag x \<le> tag" using index_begin_mem [OF x] by simp
    with index_begin_least [OF x ef] e(2) have "aho_op_seq e \<le> aho_op_seq x" by (auto simp: less_eq_prod_def)
    with val [OF x] show ?thesis by simp
  qed
  show "next_op_seq a tag ?rows = length (transfers_of a h)" if "tag = 0"
  proof -
    have t: "?f = transfers_of a h" unfolding f by (simp add: that transfers_of_def)
    show ?thesis
    proof (cases "index_begin ?key ?f")
      case None
      then show ?thesis using t by (simp add: next_op_seq_def)
    next
      case (Some x)
      let ?n = "length (transfers_of a h)"
      have x: "x \<in> set (transfers_of a h)" using index_begin_mem [OF Some] unfolding t .
      then have pos: "0 < ?n" by (cases "transfers_of a h") auto
      have seqs: "map aho_op_seq (transfers_of a h) = [0..<?n]" using assms(1) by (simp add: wf_history_def)
      have "?n - 1 \<in> set (map aho_op_seq (transfers_of a h))" unfolding seqs using pos by simp
      then obtain y where y: "y \<in> set (transfers_of a h)" "aho_op_seq y = ?n - 1" by auto
      have "aho_op_seq x \<in> set (map aho_op_seq (transfers_of a h))" using x by simp
      then have "aho_op_seq x < ?n" unfolding seqs by simp
      moreover have "aho_op_seq y \<le> aho_op_seq x"
        using index_begin_least [OF Some, of y] x y(1) unfolding t by (auto simp: less_eq_prod_def transfers_of_def)
      ultimately show ?thesis using val [OF Some] y(2) by simp
    qed
  qed
qed

lemma operation_at_mem: "operation_at h i = Some x \<Longrightarrow> i \<in> opo_id ` set (tb_rows (hd_operations h))"
  by (auto simp: operation_at_def table_find_def dest: find_Some_mem)

lemma find_append: "find P (xs @ ys) = (case find P xs of None \<Rightarrow> find P ys | Some x \<Rightarrow> Some x)"
  by (induction xs) auto

text \<open>A new operation object leaves the histories as they are.\<close>

lemma add_operation:
  assumes "wf_history h" "opo_id v = tb_next (hd_operations h)"
  defines "h1 \<equiv> h\<lparr>hd_operations := \<lparr>tb_next = tb_next (hd_operations h) + 1, tb_rows = tb_rows (hd_operations h) @ [v]\<rparr>\<rparr>"
  shows "wf_history h1" "history_of a h1 = history_of a h" "operation_at h1 (tb_next (hd_operations h)) = Some (opo_serialized_op v)"
proof -
  have fresh: "tb_next (hd_operations h) \<notin> opo_id ` set (tb_rows (hd_operations h))"
    using assms(1) by (force simp: wf_history_def wf_table_def)
  have old: "i < tb_next (hd_operations h)" if "i \<in> opo_id ` set (tb_rows (hd_operations h))" for i
    using assms(1) that by (auto simp: wf_history_def wf_table_def)
  have same: "operation_at h1 i = operation_at h i" if "i \<noteq> tb_next (hd_operations h)" for i
    using that assms(2) by (simp add: h1_def operation_at_def table_find_def find_append split: option.split)
  have e: "entries_of b h1 = entries_of b h" "transfers_of b h1 = transfers_of b h" for b
    by (simp_all add: entries_of_def transfers_of_def h1_def)
  show "wf_history h1" using assms(1,2) fresh old unfolding wf_history_def e
    by (auto simp: h1_def wf_table_def less_Suc_eq)
  have "aho_op x \<in> opo_id ` set (tb_rows (hd_operations h))" if "x \<in> set (entries_of a h)" for x
    using assms(1) that by (simp add: wf_history_def entries_of_def)
  with same fresh have "operation_at h1 (aho_op x) = operation_at h (aho_op x)" if "x \<in> set (entries_of a h)" for x using that by metis
  then show "history_of a h1 = history_of a h" unfolding history_of_def e by simp
  have "find (\<lambda>x. opo_id x = tb_next (hd_operations h)) (tb_rows (hd_operations h)) = None"
    unfolding find_None_iff using fresh by (metis imageI)
  then show "operation_at h1 (tb_next (hd_operations h)) = Some (opo_serialized_op v)"
    using assms(2) by (simp add: h1_def operation_at_def table_find_def find_append)
qed

text \<open>A new entry with the next numbers is the only one with its keys, and the history stays sound.\<close>

lemma add_entry:
  fixes item :: account_name_type and tag :: nat
  assumes "wf_history h" "length (tb_rows (hd_accounts h)) < 2 ^ 32" "operation_at h op = Some x"
  defines "c \<equiv> \<lambda>i. \<lparr>aho_id = i, aho_account = item, aho_sequence = next_sequence item (tb_rows (hd_accounts h)), aho_op_tag = tag,
    aho_op_seq = next_op_seq item tag (tb_rows (hd_accounts h)), aho_op = op\<rparr>"
  shows "\<exists>t. table_create account_history_clash c (hd_accounts h) = Inr t \<and> length (tb_rows t) = Suc (length (tb_rows (hd_accounts h)))
    \<and> wf_history (h\<lparr>hd_accounts := t\<rparr>)
    \<and> (\<forall>a. history_of a (h\<lparr>hd_accounts := t\<rparr>) = history_of a h @ (if a = item then [(length (history_of a h), tag, Some x)] else []))
    \<and> (\<forall>i. operation_at (h\<lparr>hd_accounts := t\<rparr>) i = operation_at h i)"
proof -
  let ?rows = "tb_rows (hd_accounts h)" and ?v = "c (tb_next (hd_accounts h))"
  note seq = next_sequence_count [OF assms(1,2)] and tagged = next_op_seq_fresh [OF assms(1,2)]
  have v: "aho_account ?v = item" "aho_sequence ?v = length (entries_of item h)" "aho_op_tag ?v = tag" "aho_op ?v = op"
    "aho_op_seq ?v = next_op_seq item tag ?rows" by (simp_all add: c_def seq)
  have "\<not> account_history_clash ?v w" if "w \<in> set ?rows" for w
  proof (cases "aho_account w = item")
    case True
    then have w: "w \<in> set (entries_of item h)" using that by (simp add: entries_of_def)
    from entry_sequence_bound [OF assms(1) w] tagged(2) [OF w, of tag] v show ?thesis by (auto simp: account_history_clash_def)
  qed (simp add: account_history_clash_def v)
  then have t: "table_create account_history_clash c (hd_accounts h) = Inr \<lparr>tb_next = tb_next (hd_accounts h) + 1, tb_rows = ?rows @ [?v]\<rparr>"
    by (simp add: table_create_def Let_def guardR_def list_all_iff)
  let ?h = "h\<lparr>hd_accounts := \<lparr>tb_next = tb_next (hd_accounts h) + 1, tb_rows = ?rows @ [?v]\<rparr>\<rparr>"
  have e: "entries_of a ?h = entries_of a h @ (if a = item then [?v] else [])"
    "transfers_of a ?h = transfers_of a h @ (if a = item \<and> tag = 0 then [?v] else [])" for a
    using v by (simp_all add: entries_of_def transfers_of_def)
  have ops: "operation_at ?h i = operation_at h i" for i by (simp add: operation_at_def)
  have "wf_history ?h"
    using assms(1) v tagged(1,3) [where a = item and tag = tag] operation_at_mem [OF assms(3)] unfolding wf_history_def e by auto
  moreover have "history_of a ?h = history_of a h @ (if a = item then [(length (history_of a h), tag, Some x)] else [])" for a
    unfolding history_of_def e ops by (simp add: v assms(3))
  ultimately show ?thesis using t ops by (intro exI [of _ "\<lparr>tb_next = tb_next (hd_accounts h) + 1, tb_rows = ?rows @ [?v]\<rparr>"]) simp
qed

lemma record_operation_ok:
  assumes "wf_history h" "length (tb_rows (hd_accounts h)) < 2 ^ 32"
    and "case new_obj of None \<Rightarrow> True | Some i \<Rightarrow> operation_at h i = Some (ho_pack ho (nt_op notice))"
  shows "\<exists>i h'. record_operation ho notice now item (new_obj, h) = Inr (Some i, h') \<and> wf_history h'
    \<and> operation_at h' i = Some (ho_pack ho (nt_op notice)) \<and> length (tb_rows (hd_accounts h')) = Suc (length (tb_rows (hd_accounts h)))
    \<and> (\<forall>a. history_of a h' = history_of a h
        @ (if a = item then [(length (history_of a h), which (nt_op notice), Some (ho_pack ho (nt_op notice)))] else []))"
proof -
  let ?new = "create_operation_object ho notice now (tb_next (hd_operations h))"
  let ?h1 = "h\<lparr>hd_operations := \<lparr>tb_next = tb_next (hd_operations h) + 1, tb_rows = tb_rows (hd_operations h) @ [?new]\<rparr>\<rparr>"
  have new: "opo_id ?new = tb_next (hd_operations h)" "opo_serialized_op ?new = ho_pack ho (nt_op notice)"
    by (simp_all add: create_operation_object_def)
  obtain i h1 where h1: "wf_history h1" "\<And>a. history_of a h1 = history_of a h" "operation_at h1 i = Some (ho_pack ho (nt_op notice))"
    "hd_accounts h1 = hd_accounts h"
    and created: "(case new_obj of Some i \<Rightarrow> (i, hd_operations h)
       | None \<Rightarrow> (tb_next (hd_operations h), \<lparr>tb_next = tb_next (hd_operations h) + 1, tb_rows = tb_rows (hd_operations h) @ [?new]\<rparr>))
      = (i, hd_operations h1)"
  proof (cases new_obj)
    case None
    with that [of ?h1 "tb_next (hd_operations h)"] add_operation [OF assms(1) new(1)] new(2) show ?thesis by simp
  next
    case (Some i)
    with that [of h i] assms(1,3) show ?thesis by simp
  qed
  have "length (tb_rows (hd_accounts h1)) < 2 ^ 32" using assms(2) h1(4) by simp
  from add_entry [OF h1(1) this h1(3), of item "which (nt_op notice)"] obtain t where
    t: "table_create account_history_clash (\<lambda>i'. \<lparr>aho_id = i', aho_account = item, aho_sequence = next_sequence item (tb_rows (hd_accounts h)),
        aho_op_tag = which (nt_op notice), aho_op_seq = next_op_seq item (which (nt_op notice)) (tb_rows (hd_accounts h)), aho_op = i\<rparr>) (hd_accounts h) = Inr t"
    "length (tb_rows t) = Suc (length (tb_rows (hd_accounts h)))" "wf_history (h1\<lparr>hd_accounts := t\<rparr>)"
    "\<And>a. history_of a (h1\<lparr>hd_accounts := t\<rparr>) = history_of a h
        @ (if a = item then [(length (history_of a h), which (nt_op notice), Some (ho_pack ho (nt_op notice)))] else [])"
    "\<And>j. operation_at (h1\<lparr>hd_accounts := t\<rparr>) j = operation_at h1 j"
    unfolding h1(2,4) by auto
  have "\<lparr>hd_operations = hd_operations h1, hd_accounts = t\<rparr> = h1\<lparr>hd_accounts := t\<rparr>" by (cases h1) simp
  with t h1(3) show ?thesis unfolding record_operation_def prod.case Let_def created
    by (intro exI [of _ i] exI [of _ "h1\<lparr>hd_accounts := t\<rparr>"]) simp
qed

text \<open>The loop over the impacted accounts; each is met once.\<close>

lemma record_all:
  assumes "wf_history h" "length (tb_rows (hd_accounts h)) + length items < 2 ^ 32" "distinct items"
    and "case new_obj of None \<Rightarrow> True | Some i \<Rightarrow> operation_at h i = Some (ho_pack ho (nt_op notice))"
  shows "\<exists>o' h'. foldR (\<lambda>st item. if keep item then record_operation ho notice now item st else Inr st) (new_obj, h) items = Inr (o', h') \<and> wf_history h'
    \<and> (\<forall>a. history_of a h' = history_of a h
        @ (if a \<in> set items \<and> keep a then [(length (history_of a h), which (nt_op notice), Some (ho_pack ho (nt_op notice)))] else []))"
  using assms
proof (induction items arbitrary: new_obj h)
  case (Cons item items)
  show ?case
  proof (cases "keep item")
    case True
    have "length (tb_rows (hd_accounts h)) < 2 ^ 32" using Cons.prems(2) by simp
    from record_operation_ok [OF Cons.prems(1) this Cons.prems(4), of now item] obtain i h1 where
      r: "record_operation ho notice now item (new_obj, h) = Inr (Some i, h1)" and h1: "wf_history h1"
      "operation_at h1 i = Some (ho_pack ho (nt_op notice))" "length (tb_rows (hd_accounts h1)) = Suc (length (tb_rows (hd_accounts h)))"
      "\<And>a. history_of a h1 = history_of a h
        @ (if a = item then [(length (history_of a h), which (nt_op notice), Some (ho_pack ho (nt_op notice)))] else [])"
      by (elim exE conjE) blast
    have "length (tb_rows (hd_accounts h1)) + length items < 2 ^ 32" "distinct items" "item \<notin> set items" using Cons.prems(2,3) h1(3) by simp_all
    with Cons.IH [OF h1(1) this(1,2), of "Some i"] h1(2,4) r True show ?thesis by auto
  next
    case False
    from Cons.IH [OF Cons.prems(1) _ _ Cons.prems(4)] Cons.prems(2,3) False show ?thesis by auto
  qed
qed simp

lemma insert_all_distinct: "distinct s \<Longrightarrow> distinct (insert_all names s)"
  by (induction names arbitrary: s) (simp_all add: insert_all_def flat_set_insert_def distinct_insort)

lemma visit_all_distinct: "distinct s \<Longrightarrow> distinct (visit_all required ops s)"
  unfolding visit_all_def by (induction ops arbitrary: s) (simp_all add: insert_required_def insert_all_distinct)

lemma process_inner_distinct:
  "distinct s \<Longrightarrow> distinct (process_inner_variant c required v s)"
  "distinct s \<Longrightarrow> distinct (process_inner_data c' required' data s)"
  by (simp_all add: process_inner_variant_def process_inner_data_def visit_all_distinct split: sum.split)

lemma impacted_distinct:
  assumes "operation_get_impacted_accounts pt op s = Inr s'" "distinct s"
  shows "distinct s'"
  using assms by (cases op)
    (auto simp: insert_all_distinct insert_required_def impacted_by_json_def impacted_by_binary_def process_inner_distinct bindR_Inr_iff)

text \<open>
  C37: the account history plugin appends every operation to the history of each tracked account it impacts, once, under the next number,
  unless its kind is filtered out; all other histories stay as they are. So the history of an account is the list of
  its operations, numbered from zero; and so is the list of its transfers by their own numbers. Recording never fails.
\<close>

theorem history_grows:
  assumes "wf_history h" "operation_get_impacted_accounts pt (nt_op notice) [] = Inr impacted"
    and "length (tb_rows (hd_accounts h)) + length impacted < 2 ^ 32"
  shows "\<exists>h'. on_operation pt ho notice now h = Inr h' \<and> wf_history h'
    \<and> (\<forall>a. history_of a h' = history_of a h
        @ (if a \<in> set impacted \<and> is_tracked (ho_tracked_accounts ho) a \<and> is_recorded ho (nt_op notice)
           then [(length (history_of a h), which (nt_op notice), Some (ho_pack ho (nt_op notice)))] else []))"
proof -
  have "distinct impacted" by (rule impacted_distinct [OF assms(2)]) simp
  from record_all [OF assms(1,3) this, where new_obj = None and ho = ho and notice = notice and now = now
      and keep = "\<lambda>a. is_tracked (ho_tracked_accounts ho) a \<and> is_recorded ho (nt_op notice)"]
  show ?thesis by (auto simp: on_operation_def assms(2))
qed

section \<open>An example\<close>

definition example_notice :: "operation \<Rightarrow> operation_notification" where
  "example_notice op = \<lparr>nt_trx_id = [], nt_block = 11, nt_trx_in_block = 0, nt_op_in_trx = 0, nt_virtual_op = 0, nt_op = op\<rparr>"

definition example_options :: history_options where
  "example_options = \<lparr>ho_tracked_accounts = [(''a'', ''azz'')], ho_filter_content = False, ho_blacklist = False, ho_op_list = [],
     ho_typename = (\<lambda>_. []), ho_pack = (\<lambda>_. ''packed'')\<rparr>"

definition empty_history :: history_db where
  "empty_history = \<lparr>hd_operations = empty_table, hd_accounts = empty_table\<rparr>"

lemmas history_eval = example_notice_def example_options_def empty_history_def empty_table_def entries_of_def history_of_def operation_at_def
  table_find_def on_operation_def record_operation_def create_operation_object_def is_tracked_def is_recorded_def next_sequence_def
  next_op_seq_def table_create_def account_history_clash_def guardR_def insert_all_def flat_set_insert_def alice_pays_bob_def Let_def

theorem history_grows_witness:
  "\<exists>h'. on_operation example_plugins example_options (example_notice (Transfer alice_pays_bob)) 5 empty_history = Inr h'
     \<and> history_of ''alice'' h' = [(0, 0, Some ''packed'')] \<and> history_of ''bob'' h' = []"
proof -
  let ?n = "example_notice (Transfer alice_pays_bob)"
  have h: "wf_history empty_history" "operation_get_impacted_accounts example_plugins (nt_op ?n) [] = Inr [''alice'', ''bob'']"
    "length (tb_rows (hd_accounts empty_history)) + length [''alice'', ''bob''] < 2 ^ 32"
    by (simp_all add: wf_history_def transfers_of_def wf_table_def history_eval)
  from history_grows [OF h, of example_options 5] obtain h' where
    r: "on_operation example_plugins example_options ?n 5 empty_history = Inr h'"
    and g: "\<And>a. history_of a h' = history_of a empty_history
        @ (if a \<in> set [''alice'', ''bob''] \<and> is_tracked (ho_tracked_accounts example_options) a \<and> is_recorded example_options (nt_op ?n)
           then [(length (history_of a empty_history), which (nt_op ?n), Some (ho_pack example_options (nt_op ?n)))] else [])"
    by (elim exE conjE) (rule that, assumption, erule spec)
  have "history_of ''alice'' h' = [(0, 0, Some ''packed'')]" "history_of ''bob'' h' = []"
    unfolding g by (simp_all add: history_eval)
  with r show ?thesis by (intro exI conjI)
qed

text \<open>
  The numbers by kind of operation are right for transfers only. For another kind the search takes up the numbers of
  the next smaller kind: the first authentication of an account that has made one transfer gets number one.
\<close>

theorem other_kinds_misnumbered:
  "\<exists>h1 h2. on_operation example_plugins example_options (example_notice (Transfer alice_pays_bob)) 5 empty_history = Inr h1
     \<and> on_operation example_plugins example_options
         (example_notice (Account_auth \<lparr>aa_account = ''alice'', aa_auth_type = ''mail'', aa_auth_token = ''x''\<rparr>)) 8 h1 = Inr h2
     \<and> map (\<lambda>e. (aho_op_tag e, aho_op_seq e)) (entries_of ''alice'' h2) = [(0, 0), (15, 1)]"
  by (simp add: history_eval)

end
