(* ===== verification/Key_Lookup.thy ===== *)
theory Key_Lookup
  imports Plugins
begin

text \<open>
  The account by key plugin (\<^verbatim>\<open>account_by_key_plugin.cpp\<close>): a table from keys to the accounts whose authorities have them, kept up to
  date around the operations that change authorities. The theorem: every operation leaves the table of each account equal to the keys of its
  authorities, if it was before.
\<close>

section \<open>The plugin\<close>

record key_lookup_object =
  klo_id :: nat
  klo_key :: public_key_type
  klo_account :: account_name_type

definition key_lookup_clash :: "key_lookup_object \<Rightarrow> key_lookup_object \<Rightarrow> bool" where
  "key_lookup_clash a b \<longleftrightarrow> klo_key a = klo_key b \<and> klo_account a = klo_account b"

record key_plugin =
  kp_lookup :: "key_lookup_object table"
  kp_cached_keys :: "public_key_type list"

definition clear_cache :: "key_plugin \<Rightarrow> key_plugin" where
  "clear_cache kp = kp\<lparr>kp_cached_keys := []\<rparr>"

text \<open>The keys of the three authorities, inserted into a set.\<close>

definition insert_keys :: "account_authority_object \<Rightarrow> public_key_type list \<Rightarrow> public_key_type list" where
  "insert_keys a keys =
     foldl (\<lambda>s k. flat_set_insert (fst k) s) keys (key_auths (aut_owner a) @ key_auths (aut_active a) @ key_auths (aut_posting a))"

definition cache_auths :: "account_authority_object \<Rightarrow> key_plugin \<Rightarrow> key_plugin" where
  "cache_auths a kp = kp\<lparr>kp_cached_keys := insert_keys a (kp_cached_keys kp)\<rparr>"

definition find_lookup :: "public_key_type \<Rightarrow> account_name_type \<Rightarrow> key_lookup_object table \<Rightarrow> key_lookup_object option" where
  "find_lookup key account t = table_find (\<lambda>r. klo_key r = key \<and> klo_account r = account) t"

definition add_lookup :: "account_name_type \<Rightarrow> key_plugin \<Rightarrow> public_key_type \<Rightarrow> key_plugin result" where
  "add_lookup account kp key =
     (if key \<notin> set (kp_cached_keys kp) then
        (case find_lookup key account (kp_lookup kp) of
           None \<Rightarrow> bindR (table_create key_lookup_clash (\<lambda>i. \<lparr>klo_id = i, klo_key = key, klo_account = account\<rparr>) (kp_lookup kp)) (\<lambda>t.
                   Inr (kp\<lparr>kp_lookup := t\<rparr>))
         | Some _ \<Rightarrow> Inr kp)
      else Inr (kp\<lparr>kp_cached_keys := flat_set_erase key (kp_cached_keys kp)\<rparr>))"

definition drop_lookup :: "account_name_type \<Rightarrow> key_lookup_object table \<Rightarrow> public_key_type \<Rightarrow> key_lookup_object table" where
  "drop_lookup account t key =
     (case find_lookup key account t of None \<Rightarrow> t | Some r \<Rightarrow> table_remove klo_id (klo_id r) t)"

definition update_key_lookup :: "account_authority_object \<Rightarrow> key_plugin \<Rightarrow> key_plugin result" where
  "update_key_lookup a kp =
     bindR (foldR (add_lookup (aut_account a)) kp (insert_keys a [])) (\<lambda>kp.
     Inr (kp\<lparr>kp_lookup := foldl (drop_lookup (aut_account a)) (kp_lookup kp) (kp_cached_keys kp), kp_cached_keys := []\<rparr>))"

definition find_authority :: "account_name_type \<Rightarrow> chain_db \<Rightarrow> account_authority_object option" where
  "find_authority name db = table_find (\<lambda>a. aut_account a = name) (db_authorities db)"

definition cache_account :: "account_name_type \<Rightarrow> chain_db \<Rightarrow> key_plugin \<Rightarrow> key_plugin" where
  "cache_account name db kp =
     (case find_authority name db of None \<Rightarrow> clear_cache kp | Some a \<Rightarrow> cache_auths a (clear_cache kp))"

definition update_account :: "account_name_type \<Rightarrow> chain_db \<Rightarrow> key_plugin \<Rightarrow> key_plugin result" where
  "update_account name db kp = (case find_authority name db of None \<Rightarrow> Inr kp | Some a \<Rightarrow> update_key_lookup a kp)"

fun key_pre_operation :: "operation \<Rightarrow> chain_db \<Rightarrow> key_plugin \<Rightarrow> key_plugin" where
  "key_pre_operation (Account_create o') db kp = clear_cache kp"
| "key_pre_operation (Account_update o') db kp = cache_account (au_account o') db kp"
| "key_pre_operation (Recover_account o') db kp = cache_account (ra_account_to_recover o') db kp"
| "key_pre_operation _ db kp = kp"

fun key_post_operation :: "operation \<Rightarrow> chain_db \<Rightarrow> key_plugin \<Rightarrow> key_plugin result" where
  "key_post_operation (Account_create o') db kp = update_account (ac_new_account_name o') db kp"
| "key_post_operation (Account_update o') db kp = update_account (au_account o') db kp"
| "key_post_operation (Recover_account o') db kp = update_account (ra_account_to_recover o') db kp"
| "key_post_operation _ db kp = Inr kp"

text \<open>An operation with the notifications before and after it.\<close>

definition tracked_apply :: "node_env \<Rightarrow> operation \<Rightarrow> key_plugin \<times> chain_db \<Rightarrow> (key_plugin \<times> chain_db) result" where
  "tracked_apply env op st =
     (case st of (kp, db) \<Rightarrow>
        bindR (apply_operation env op db) (\<lambda>db'.
        bindR (key_post_operation op db' (key_pre_operation op db kp)) (\<lambda>kp'.
        Inr (kp', db'))))"

section \<open>The loops\<close>

definition auth_keys_of :: "account_authority_object \<Rightarrow> public_key_type set" where
  "auth_keys_of a = fst ` (set (key_auths (aut_owner a)) \<union> set (key_auths (aut_active a)) \<union> set (key_auths (aut_posting a)))"

definition looked_up :: "key_lookup_object table \<Rightarrow> (public_key_type \<times> account_name_type) set" where
  "looked_up t = (\<lambda>r. (klo_key r, klo_account r)) ` set (tb_rows t)"

lemma set_insert_keys [simp]: "set (insert_keys a keys) = auth_keys_of a \<union> set keys"
proof -
  have "set (foldl (\<lambda>s k. flat_set_insert (fst k) s) keys ks) = fst ` set ks \<union> set keys" for ks :: "(public_key_type \<times> 'w) list"
    by (induction ks arbitrary: keys) auto
  from this [of "key_auths (aut_owner a) @ key_auths (aut_active a) @ key_auths (aut_posting a)"]
  show ?thesis by (simp only: insert_keys_def auth_keys_of_def set_append Un_assoc)
qed

lemma insert_keys_distinct: "distinct keys \<Longrightarrow> distinct (insert_keys a keys)"
proof -
  have "distinct keys \<Longrightarrow> distinct (foldl (\<lambda>s k. flat_set_insert (fst k) s) keys ks)" for ks :: "(public_key_type \<times> 'w) list"
    by (induction ks arbitrary: keys) (auto simp: flat_set_insert_def distinct_insort)
  then show "distinct keys \<Longrightarrow> distinct (insert_keys a keys)" unfolding insert_keys_def .
qed

lemma find_lookup_iff: "find_lookup k a t = None \<longleftrightarrow> (k, a) \<notin> looked_up t"
  by (auto simp: find_lookup_def table_find_def find_None_iff looked_up_def)

definition wf_lookup :: "key_lookup_object table \<Rightarrow> bool" where
  "wf_lookup t \<longleftrightarrow> wf_table klo_id t \<and> inj_on (\<lambda>r. (klo_key r, klo_account r)) (set (tb_rows t))"

lemma add_lookup_ok:
  assumes "wf_lookup (kp_lookup kp)"
  shows "\<exists>kp'. add_lookup a kp k = Inr kp' \<and> wf_lookup (kp_lookup kp') \<and> set (kp_cached_keys kp') = set (kp_cached_keys kp) - {k}
    \<and> looked_up (kp_lookup kp') = looked_up (kp_lookup kp) \<union> (if k \<in> set (kp_cached_keys kp) then {} else {(k, a)})"
proof (cases "k \<in> set (kp_cached_keys kp)")
  case True
  with assms show ?thesis by (auto simp: add_lookup_def flat_set_erase_def)
next
  case False
  show ?thesis
  proof (cases "find_lookup k a (kp_lookup kp)")
    case None
    let ?c = "\<lambda>i. \<lparr>klo_id = i, klo_key = k, klo_account = a\<rparr>"
    have new: "(k, a) \<notin> looked_up (kp_lookup kp)" using None by (simp add: find_lookup_iff)
    then have "list_all (\<lambda>w. \<not> key_lookup_clash (?c (tb_next (kp_lookup kp))) w) (tb_rows (kp_lookup kp))"
      by (auto simp: list_all_iff key_lookup_clash_def looked_up_def)
    then obtain t where t: "table_create key_lookup_clash ?c (kp_lookup kp) = Inr t" by (simp add: table_create_def Let_def guardR_def)
    have rows: "wf_table klo_id t" "tb_rows t = tb_rows (kp_lookup kp) @ [?c (tb_next (kp_lookup kp))]"
      using wf_table_create [OF _ t, of klo_id] assms by (simp_all add: wf_lookup_def)
    then have "wf_lookup t" "looked_up t = looked_up (kp_lookup kp) \<union> {(k, a)}"
      using assms new by (auto simp: wf_lookup_def looked_up_def inj_on_def)
    with t None False show ?thesis by (simp add: add_lookup_def)
  next
    case (Some r)
    then have "(k, a) \<in> looked_up (kp_lookup kp)" using find_lookup_iff [of k a "kp_lookup kp"] by simp
    with Some assms False show ?thesis by (auto simp: add_lookup_def)
  qed
qed

lemma add_lookups_ok:
  assumes "wf_lookup (kp_lookup kp)" "distinct ks"
  shows "\<exists>kp'. foldR (add_lookup a) kp ks = Inr kp' \<and> wf_lookup (kp_lookup kp') \<and> set (kp_cached_keys kp') = set (kp_cached_keys kp) - set ks
    \<and> looked_up (kp_lookup kp') = looked_up (kp_lookup kp) \<union> (\<lambda>k. (k, a)) ` (set ks - set (kp_cached_keys kp))"
  using assms
proof (induction ks arbitrary: kp)
  case (Cons k ks)
  from add_lookup_ok [OF Cons.prems(1), of a k] obtain kp1 where k1: "add_lookup a kp k = Inr kp1" "wf_lookup (kp_lookup kp1)"
    "set (kp_cached_keys kp1) = set (kp_cached_keys kp) - {k}"
    "looked_up (kp_lookup kp1) = looked_up (kp_lookup kp) \<union> (if k \<in> set (kp_cached_keys kp) then {} else {(k, a)})" by blast
  from Cons.IH [OF k1(2)] Cons.prems(2) obtain kp2 where k2: "foldR (add_lookup a) kp1 ks = Inr kp2" "wf_lookup (kp_lookup kp2)"
    "set (kp_cached_keys kp2) = set (kp_cached_keys kp1) - set ks"
    "looked_up (kp_lookup kp2) = looked_up (kp_lookup kp1) \<union> (\<lambda>k. (k, a)) ` (set ks - set (kp_cached_keys kp1))" by auto
  have "looked_up (kp_lookup kp2) = looked_up (kp_lookup kp) \<union> (\<lambda>k. (k, a)) ` (set (k # ks) - set (kp_cached_keys kp))"
    using k1(3,4) k2(4) Cons.prems(2) by (auto split: if_splits)
  with k1 k2 show ?case by auto
qed simp

lemma drop_lookup_ok:
  assumes "wf_lookup t"
  shows "wf_lookup (drop_lookup a t k) \<and> looked_up (drop_lookup a t k) = looked_up t - {(k, a)}"
proof (cases "find_lookup k a t")
  case None
  then have "drop_lookup a t k = t" "(k, a) \<notin> looked_up t" by (simp_all add: drop_lookup_def flip: find_lookup_iff)
  with assms show ?thesis by simp
next
  case (Some r)
  then have r: "r \<in> set (tb_rows t)" "klo_key r = k" "klo_account r = a" by (auto simp: find_lookup_def table_find_def dest: find_Some_mem)
  have ids: "x = r" if "x \<in> set (tb_rows t)" "klo_id x = klo_id r" for x
    using assms that r(1) by (auto simp: wf_lookup_def wf_table_def distinct_map dest: inj_onD)
  have rows: "set (tb_rows (table_remove klo_id (klo_id r) t)) = set (tb_rows t) - {r}"
    using ids by (auto simp: table_remove_def remove_where_def)
  have "wf_table klo_id (table_remove klo_id (klo_id r) t)" using assms by (simp add: wf_lookup_def wf_table_remove)
  moreover have "looked_up (table_remove klo_id (klo_id r) t) = looked_up t - {(k, a)}"
    using assms r unfolding looked_up_def rows wf_lookup_def inj_on_def by auto
  moreover have "inj_on (\<lambda>r. (klo_key r, klo_account r)) (set (tb_rows (table_remove klo_id (klo_id r) t)))"
    using assms unfolding wf_lookup_def rows by (auto intro: inj_on_subset)
  ultimately show ?thesis by (simp add: drop_lookup_def Some wf_lookup_def)
qed

lemma drop_lookups_ok:
  "wf_lookup t \<Longrightarrow> wf_lookup (foldl (drop_lookup a) t ks) \<and> looked_up (foldl (drop_lookup a) t ks) = looked_up t - (\<lambda>k. (k, a)) ` set ks"
  using drop_lookup_ok by (induction ks arbitrary: t) auto

text \<open>The table after the update: what was not cached is added, what was cached and is no key any more is dropped.\<close>

lemma update_key_lookup_ok:
  assumes "wf_lookup (kp_lookup kp)"
  shows "\<exists>kp'. update_key_lookup a kp = Inr kp' \<and> wf_lookup (kp_lookup kp') \<and> kp_cached_keys kp' = []
    \<and> looked_up (kp_lookup kp') = (looked_up (kp_lookup kp) \<union> (\<lambda>k. (k, aut_account a)) ` (auth_keys_of a - set (kp_cached_keys kp)))
        - (\<lambda>k. (k, aut_account a)) ` (set (kp_cached_keys kp) - auth_keys_of a)"
proof -
  from add_lookups_ok [OF assms, of "insert_keys a []" "aut_account a"] insert_keys_distinct [of "[]" a]
  obtain kp1 where k1: "foldR (add_lookup (aut_account a)) kp (insert_keys a []) = Inr kp1" "wf_lookup (kp_lookup kp1)"
    "set (kp_cached_keys kp1) = set (kp_cached_keys kp) - auth_keys_of a"
    "looked_up (kp_lookup kp1) = looked_up (kp_lookup kp) \<union> (\<lambda>k. (k, aut_account a)) ` (auth_keys_of a - set (kp_cached_keys kp))"
    by auto
  from drop_lookups_ok [OF k1(2), of "aut_account a" "kp_cached_keys kp1"] k1 show ?thesis by (simp add: update_key_lookup_def)
qed

section \<open>Which operations change authorities\<close>

definition same_auths :: "chain_db \<Rightarrow> chain_db \<Rightarrow> bool" where
  "same_auths db db' \<longleftrightarrow> db_authorities db' = db_authorities db
     \<and> map acc_name (tb_rows (db_accounts db')) = map acc_name (tb_rows (db_accounts db))"

lemma same_auths_trans: "same_auths a b \<Longrightarrow> same_auths b c \<Longrightarrow> same_auths a c"
  by (simp add: same_auths_def)

lemma adjust_auths:
  "adjust_balance a x db = Inr db' \<Longrightarrow> same_auths db db'"
  "adjust_savings_balance a x db = Inr db' \<Longrightarrow> same_auths db db'"
  "adjust_fund_balance f x db = Inr db' \<Longrightarrow> same_auths db db'"
  "adjust_fund_withdraw_balance f x db = Inr db' \<Longrightarrow> same_auths db db'"
  "adjust_dapp_reward_fund_balance x db = Inr db' \<Longrightarrow> same_auths db db'"
  "adjust_supply x db = Inr db' \<Longrightarrow> same_auths db db'"
  "push_virtual_operation op db = Inr db' \<Longrightarrow> same_auths db db'"
  by (auto simp: same_auths_def adjust_balance_def adjust_savings_balance_def adjust_fund_balance_def adjust_fund_withdraw_balance_def
      adjust_dapp_reward_fund_balance_def adjust_supply_def push_virtual_operation_def modify_account_def modify_fund_def modify_dgp_def
      table_modify_map bindR_Inr_iff fc_assert_Inr_iff)

lemmas auths_dests = adjust_auths [unfolded same_auths_def]

lemma money_auths:
  "transfer_apply env o1 db = Inr db' \<Longrightarrow> same_auths db db'"
  "print_apply o2 db = Inr db' \<Longrightarrow> same_auths db db'"
  "burn_apply o3 db = Inr db' \<Longrightarrow> same_auths db db'"
  "transfer_savings_apply env o4 db = Inr db' \<Longrightarrow> same_auths db db'"
  "cancel_transfer_savings_apply o5 db = Inr db' \<Longrightarrow> same_auths db db'"
  "conclusion_transfer_savings_apply o6 db = Inr db' \<Longrightarrow> same_auths db db'"
  "staking_fund_apply env o7 db = Inr db' \<Longrightarrow> same_auths db db'"
  "pay_staking o8 n1 n2 db = Inr db' \<Longrightarrow> same_auths db db'"
  "transfer_fund_apply o9 db = Inr db' \<Longrightarrow> same_auths db db'"
  "set_fund_interest_apply env o10 db = Inr db' \<Longrightarrow> same_auths db db'"
  by (auto simp: same_auths_def transfer_apply_def print_apply_def burn_apply_def transfer_savings_apply_def
      cancel_transfer_savings_apply_def conclusion_transfer_savings_apply_def staking_fund_apply_def pay_staking_def
      transfer_fund_apply_def set_fund_interest_apply_def bindR_Inr_iff fc_assert_Inr_iff Let_def modify_fund_def
      dest!: auths_dests split: if_splits)

lemma account_auths:
  "account_auth_apply o1 db = Inr db' \<Longrightarrow> same_auths db db'"
  "set_blacklist_account_apply o2 db = Inr db' \<Longrightarrow> same_auths db db'"
  "request_account_recovery_apply o3 db = Inr db' \<Longrightarrow> same_auths db db'"
  "change_recovery_account_apply o4 db = Inr db' \<Longrightarrow> same_auths db db'"
  "decline_voting_rights_apply o5 db = Inr db' \<Longrightarrow> same_auths db db'"
  "bobserver_update_apply o6 db = Inr db' \<Longrightarrow> same_auths db db'"
  "except_bobserver_apply o8 db = Inr db' \<Longrightarrow> same_auths db db'"
  by (auto simp: same_auths_def account_auth_apply_def set_blacklist_account_apply_def request_account_recovery_apply_def
      change_recovery_account_apply_def decline_voting_rights_apply_def bobserver_update_apply_def except_bobserver_apply_def
      bindR_Inr_iff fc_assert_Inr_iff Let_def modify_account_def modify_bobserver_def modify_dgp_def table_modify_map
      split: if_splits option.splits)

lemma update_bproducer_auths: "update_bproducer_apply o' db = Inr db' \<Longrightarrow> same_auths db db'"
  by (clarsimp simp only: update_bproducer_apply_def bindR_Inr_iff fc_assert_Inr_iff sum.inject)
    (simp add: same_auths_def modify_dgp_def modify_bobserver_def)

text \<open>What the plugin relies on of the others: their operations leave authorities and account names alone.\<close>

definition plugins_keep_auths :: "node_env \<Rightarrow> bool" where
  "plugins_keep_auths env \<longleftrightarrow>
     (\<forall>i eval op db db'. env_interpreters env i = Some eval \<longrightarrow> eval op db = Applied db' \<longrightarrow> same_auths db db')"

lemma custom_auths:
  assumes "plugins_keep_auths env"
  shows "custom_apply env o1 db = Inr db' \<Longrightarrow> same_auths db db'"
    and "custom_json_apply env o2 db = Inr db' \<Longrightarrow> same_auths db db'"
    and "custom_json_dapp_apply env o3 db = Inr db' \<Longrightarrow> same_auths db db'"
    and "custom_binary_apply env o4 db = Inr db' \<Longrightarrow> same_auths db db'"
proof -
  have "same_auths db db" by (simp add: same_auths_def)
  with assms have run: "run_interpreter env i op db = Inr db' \<Longrightarrow> same_auths db db'" for i op
    by (auto simp: run_interpreter_def plugins_keep_auths_def split: option.splits custom_outcome.splits if_splits)
  show "custom_apply env o1 db = Inr db' \<Longrightarrow> same_auths db db'" by (auto simp: custom_apply_def fc_assert_Inr_iff same_auths_def)
  show "custom_json_apply env o2 db = Inr db' \<Longrightarrow> same_auths db db'" using run by (auto simp: custom_json_apply_def fc_assert_Inr_iff)
  show "custom_json_dapp_apply env o3 db = Inr db' \<Longrightarrow> same_auths db db'" using run by (auto simp: custom_json_dapp_apply_def fc_assert_Inr_iff)
  show "custom_binary_apply env o4 db = Inr db' \<Longrightarrow> same_auths db db'" using run by (auto simp: custom_binary_apply_def fc_assert_Inr_iff)
qed

lemma other_operations_auths:
  assumes "plugins_keep_auths env" "apply_operation env op db = Inr db'"
    and "\<And>o'. op \<noteq> Account_create o'" "\<And>o'. op \<noteq> Account_update o'" "\<And>o'. op \<noteq> Recover_account o'"
  shows "same_auths db db'"
  using assms(2-5)
proof (cases op)
qed (auto simp: apply_operation_def reset_account_apply_def set_reset_account_apply_def conclusion_staking_apply_def
    return_staking_fund_apply_def bindR_Inr_iff fc_assert_Inr_iff intro: money_auths account_auths update_bproducer_auths custom_auths [OF assms(1)])

lemma modify_plugins_auths: "same_auths db (modify_plugins f db)"
  by (simp add: same_auths_def modify_plugins_def)

lemma before_fee_auths:
  assumes "before_fee db d"
  shows "same_auths db d"
proof -
  let ?f = "\<lambda>a. (acc_id a, acc_name a, acc_balance a, acc_savings_balance a)"
  have "map ?f (tb_rows (db_accounts d)) = map ?f (tb_rows (db_accounts db))" using assms by (simp only: before_fee_def)
  from arg_cong [OF this, of "map (\<lambda>x. fst (snd x))"] assms show ?thesis by (simp add: comp_def before_fee_def same_auths_def)
qed

lemma fee_charged_auths:
  assumes "fee_charged db db'"
  shows "same_auths db db'"
proof -
  from assms obtain n frm d where d: "before_fee db d" "charge_fee n frm (dgp_dapp_transaction_fee (db_dgp db)) d = Inr db'"
    unfolding fee_charged_def by (elim exE conjE) (rule that)
  have "same_auths d db'" using d(2) by (auto simp: charge_fee_def bindR_Inr_iff same_auths_def dest!: auths_dests)
  then show ?thesis by (rule same_auths_trans [OF before_fee_auths [OF d(1)]])
qed

lemma inner_auths:
  assumes "foldR (\<lambda>db x. op_apply co x db) db ops = Inr db'" "\<And>x db db'. op_apply co x db = Inr db' \<Longrightarrow> same_auths db db'"
  shows "same_auths db db'"
  using assms(1)
proof (induction ops arbitrary: db)
  case (Cons x ops)
  then obtain d where d: "op_apply co x db = Inr d" "foldR (\<lambda>db x. op_apply co x db) d ops = Inr db'" by (auto simp: bindR_Inr_iff)
  show ?case by (rule same_auths_trans [OF assms(2) [OF d(1)] Cons.IH [OF d(2)]])
qed (simp add: same_auths_def)

lemma plugin_apply_auths:
  "op_apply (dapp_ops tt) x db = Inr db' \<Longrightarrow> same_auths db db'"
  "op_apply (token_ops tk) y db = Inr db' \<Longrightarrow> same_auths db db'"
  "op_apply bobserver_ops z db = Inr db' \<Longrightarrow> same_auths db db'"
proof -
  show "same_auths db db'" if "op_apply (dapp_ops tt) x db = Inr db'"
    using dapp_apply_charged [of tt x db db'] that fee_charged_auths modify_plugins_auths by (auto simp: dapp_ops_def)
  show "same_auths db db'" if "op_apply (token_ops tk) y db = Inr db'"
    using token_apply_charged [of tk y db db'] that fee_charged_auths by (auto simp: token_ops_def)
  show "same_auths db db'" if "op_apply bobserver_ops z db = Inr db'"
    using that modify_plugins_auths by (auto simp: bobserver_ops_def enable_content_editing_apply_def Let_def result_simps)
qed

lemma with_plugins_keep_auths: "plugins_keep_auths (with_plugins pt enabled env)"
  unfolding plugins_keep_auths_def
proof (intro allI impI)
  fix i eval op db db'
  assume e: "env_interpreters (with_plugins pt enabled env) i = Some eval" and a: "eval op db = Applied db'"
  from e consider
      "eval = generic_interpreter (dapp_ops (pt_text pt)) (pt_dapp_codec pt)"
    | "eval = generic_interpreter (token_ops (pt_token pt)) (pt_token_codec pt)"
    | "eval = generic_interpreter bobserver_ops (pt_bobserver_codec pt)"
    by (auto simp: with_plugins_def plugin_interpreters_def split: if_splits)
  then show "same_auths db db'"
  proof cases
    case 1
    show ?thesis by (rule dapp_co.interpreter_applied [OF a [unfolded 1]]) (erule inner_auths, rule plugin_apply_auths)
  next
    case 2
    show ?thesis by (rule token_co.interpreter_applied [OF a [unfolded 2]]) (erule inner_auths, rule plugin_apply_auths)
  next
    case 3
    show ?thesis by (rule bobserver_co.interpreter_applied [OF a [unfolded 3]]) (erule inner_auths, rule plugin_apply_auths)
  qed
qed

section \<open>The operations that change authorities\<close>

definition wf_auths :: "chain_db \<Rightarrow> bool" where
  "wf_auths db \<longleftrightarrow> wf_table aut_id (db_authorities db)
     \<and> list_all (\<lambda>a. aut_account a \<in> acc_name ` set (tb_rows (db_accounts db))) (tb_rows (db_authorities db))"

lemma find_modified:
  assumes "wf_table aut_id t" "table_find (\<lambda>a. aut_account a = n) t = Some au" "\<And>a. aut_account (f a) = aut_account a"
  shows "table_find (\<lambda>a. aut_account a = m) (table_modify aut_id (aut_id au) f t) =
    (if m = n then Some (f au) else table_find (\<lambda>a. aut_account a = m) t)"
proof -
  have au: "au \<in> set (tb_rows t)" "aut_account au = n" using assms(2) by (auto simp: table_find_def dest: find_Some_mem)
  have same: "aut_id x = aut_id au \<longleftrightarrow> x = au" if "x \<in> set (tb_rows t)" for x
    using assms(1) that au(1) by (auto simp: wf_table_def distinct_map dest: inj_onD)
  have map_find: "find (\<lambda>a. aut_account a = m) (map g xs) = (if m = n then Some (f au) else find (\<lambda>a. aut_account a = m) xs)"
    if "\<And>x. x \<in> set xs \<Longrightarrow> g x = (if x = au then f au else x)" "find (\<lambda>a. aut_account a = n) xs = Some au" for xs g
  proof -
    have rest: "find (\<lambda>a. aut_account a = m) (map g ys) = find (\<lambda>a. aut_account a = m) ys"
      if "m \<noteq> n" "\<And>x. x \<in> set ys \<Longrightarrow> g x = (if x = au then f au else x)" for ys
      using that by (induction ys) (auto simp: assms(3) au(2))
    from that show ?thesis by (induction xs) (auto simp: assms(3) au(2) rest split: if_splits)
  qed
  have "tb_rows (table_modify aut_id (aut_id au) f t) = map (\<lambda>x. if aut_id x = aut_id au then f x else x) (tb_rows t)"
    by (simp add: table_modify_def modify_where_def)
  with map_find [of "tb_rows t" "\<lambda>x. if aut_id x = aut_id au then f x else x"] assms(2) same show ?thesis by (simp add: table_find_def)
qed

text \<open>\<open>one_changed n db db'\<close>: of the authorities only the one of \<open>n\<close> is another.\<close>

definition one_changed :: "account_name_type \<Rightarrow> chain_db \<Rightarrow> chain_db \<Rightarrow> bool" where
  "one_changed n db db' \<longleftrightarrow> (\<exists>au au'. find_authority n db = Some au \<and> aut_id au' = aut_id au
     \<and> (\<forall>m. find_authority m db' = (if m = n then Some au' else find_authority m db)) \<and> (wf_auths db \<longrightarrow> wf_auths db'))"

lemma one_changed_trans: "one_changed n a b \<Longrightarrow> one_changed n b c \<Longrightarrow> one_changed n a c"
  unfolding one_changed_def by (elim exE conjE) (auto split: if_splits)

lemma same_auths_find: "same_auths db db' \<Longrightarrow> find_authority n db' = find_authority n db"
  by (simp add: same_auths_def find_authority_def)

lemma same_auths_wf:
  assumes "same_auths db db'"
  shows "wf_auths db' \<longleftrightarrow> wf_auths db"
proof -
  have "acc_name ` set (tb_rows (db_accounts db')) = acc_name ` set (tb_rows (db_accounts db))"
    using assms unfolding same_auths_def by (metis set_map)
  with assms show ?thesis by (simp add: wf_auths_def same_auths_def)
qed

lemma one_changed_same: "one_changed n a b \<Longrightarrow> same_auths b c \<Longrightarrow> one_changed n a c"
  unfolding one_changed_def by (elim exE conjE) (auto simp: same_auths_find same_auths_wf)

lemma one_changed_refl: "find_authority n db = Some au \<Longrightarrow> one_changed n db db"
  by (auto simp: one_changed_def)

lemma modify_one_changed:
  assumes "wf_auths db" "find_authority n db = Some au" "\<And>a. aut_account (f a) = aut_account a" "\<And>a. aut_id (f a) = aut_id a"
  shows "one_changed n db (db\<lparr>db_authorities := table_modify aut_id (aut_id au) f (db_authorities db)\<rparr>)"
proof -
  let ?db = "db\<lparr>db_authorities := table_modify aut_id (aut_id au) f (db_authorities db)\<rparr>"
  have wf: "wf_table aut_id (db_authorities db)" using assms(1) by (simp add: wf_auths_def)
  have find: "find_authority m ?db = (if m = n then Some (f au) else find_authority m db)" for m
    using find_modified [OF wf assms(2) [unfolded find_authority_def] assms(3), of m] by (simp add: find_authority_def)
  have "wf_table aut_id (db_authorities ?db)" using wf by (simp add: wf_table_modify assms(4))
  moreover have "list_all (\<lambda>a. aut_account a \<in> acc_name ` set (tb_rows (db_accounts db))) (tb_rows (db_authorities ?db))"
    using assms(1,3) by (auto simp: wf_auths_def table_modify_def modify_where_def list_all_iff)
  ultimately have "wf_auths ?db" by (simp add: wf_auths_def)
  with assms(2,4) find show ?thesis by (auto simp: one_changed_def)
qed

lemma get_authority_iff: "get_account_authority n db = Inr au \<longleftrightarrow> find_authority n db = Some au"
  by (auto simp: get_account_authority_def table_get_def find_authority_def of_option_def split: option.splits)

lemma update_owner_authority_changed:
  assumes "wf_auths db" "update_owner_authority n x db = Inr db'"
  shows "one_changed n db db'"
proof -
  from assms(2) obtain au hs where au: "find_authority n db = Some au"
    and db': "db' = db\<lparr>db_histories := hs, db_authorities := table_modify aut_id (aut_id au)
       (\<lambda>auth. auth\<lparr>aut_owner := x, aut_last_owner_update := head_block_time db\<rparr>) (db_authorities db)\<rparr>"
    by (auto simp: update_owner_authority_def get_authority_iff result_simps)
  let ?d = "db\<lparr>db_authorities := table_modify aut_id (aut_id au)
       (\<lambda>auth. auth\<lparr>aut_owner := x, aut_last_owner_update := head_block_time db\<rparr>) (db_authorities db)\<rparr>"
  have "one_changed n db ?d" by (rule modify_one_changed [OF assms(1) au]) simp_all
  moreover have "same_auths ?d db'" by (simp add: db' same_auths_def)
  ultimately show ?thesis by (rule one_changed_same)
qed

lemma modify_account_auths: "(\<And>a. acc_name (f a) = acc_name a) \<Longrightarrow> same_auths db (modify_account i f db)"
  by (simp add: same_auths_def modify_account_def table_modify_map)

lemma recover_account_changed:
  assumes "wf_auths db" "recover_account_apply o' db = Inr db'"
  shows "one_changed (ra_account_to_recover o') db db'"
proof -
  from assms(2) obtain account :: account_object and t d where d: "acc_name account = ra_account_to_recover o'"
    "update_owner_authority (acc_name account) (ra_new_owner_authority o') (db\<lparr>db_recovery_requests := t\<rparr>) = Inr d"
    "db' = modify_account (acc_id account) (\<lambda>a. a\<lparr>acc_last_account_recovery := head_block_time d\<rparr>) d"
    unfolding recover_account_apply_def fc_assert_Inr_iff bindR_Inr_iff
    by (elim exE conjE) (rule that, rule get_account_name, assumption, assumption, simp)
  have same: "same_auths db (db\<lparr>db_recovery_requests := t\<rparr>)" by (simp add: same_auths_def)
  have "one_changed (ra_account_to_recover o') (db\<lparr>db_recovery_requests := t\<rparr>) d"
    using update_owner_authority_changed [OF _ d(2)] assms(1) d(1) same_auths_wf [OF same] by simp
  then have "one_changed (ra_account_to_recover o') db d"
    unfolding one_changed_def same_auths_find [OF same] same_auths_wf [OF same] .
  then show ?thesis unfolding d(3) by (rule one_changed_same) (simp add: modify_account_auths)
qed

lemma account_update_changed:
  assumes "wf_auths db" "account_update_apply o' db = Inr db'"
  shows "one_changed (au_account o') db db'"
proof -
  from assms(2) obtain account :: account_object and au :: account_authority_object and d where g: "get_account (au_account o') db = Inr account"
    "find_authority (au_account o') db = Some au" "update_owner o' account au db = Inr d"
    and db': "db' = (let d = modify_account (acc_id account) (update_account_object o' (head_block_time d)) d in
       if au_active o' \<noteq> None \<or> au_posting o' \<noteq> None
       then d\<lparr>db_authorities := table_modify aut_id (aut_id au) (update_account_auth o') (db_authorities d)\<rparr> else d)"
    unfolding account_update_apply_def fc_assert_Inr_iff bindR_Inr_iff get_authority_iff Let_def sum.inject
    by (elim exE conjE) (rule that, assumption, assumption, assumption, simp only: Let_def)
  have d: "one_changed (au_account o') db d"
    using g(3) update_owner_authority_changed [OF assms(1)] get_account_name [OF g(1)] one_changed_refl [OF g(2)]
    by (auto simp: update_owner_def result_simps split: option.splits)
  let ?e = "modify_account (acc_id account) (update_account_object o' (head_block_time d)) d"
  have e: "one_changed (au_account o') db ?e"
    by (rule one_changed_same [OF d]) (rule modify_account_auths, simp add: update_account_object_def Let_def)
  then obtain ae where ae: "find_authority (au_account o') ?e = Some ae" "aut_id ae = aut_id au" "wf_auths ?e"
    using g(2) assms(1) by (auto simp: one_changed_def)
  have "one_changed (au_account o') ?e (?e\<lparr>db_authorities := table_modify aut_id (aut_id ae) (update_account_auth o') (db_authorities ?e)\<rparr>)"
    by (rule modify_one_changed [OF ae(3,1)]) (simp_all add: update_account_auth_def Let_def split: option.splits)
  with e show ?thesis unfolding db' Let_def ae(2) by (auto intro: one_changed_trans)
qed

lemma account_create_added:
  assumes "wf_auths db" "account_create_apply o' db = Inr db'"
  shows "find_authority (ac_new_account_name o') db = None" "wf_auths db'"
    "\<exists>au. \<forall>m. find_authority m db' = (if m = ac_new_account_name o' then Some au else find_authority m db)"
proof -
  let ?n = "ac_new_account_name o'"
  from assms(2) obtain ac c t d where a: "table_create account_clash ac (db_accounts db) = Inr t" "\<And>i. acc_name (ac i) = ?n"
    "table_create no_unique_key c (db_authorities db) = Inr d" "\<And>i. aut_id (c i) = i" "\<And>i. aut_account (c i) = ?n"
    "db' = db\<lparr>db_accounts := t, db_authorities := d\<rparr>"
    unfolding account_create_apply_def bindR_Inr_iff by (elim exE conjE) (rule that, assumption, simp, assumption, simp_all)
  let ?c = "c (tb_next (db_authorities db))"
  have t: "tb_rows t = tb_rows (db_accounts db) @ [ac (tb_next (db_accounts db))]"
    "\<forall>w \<in> set (tb_rows (db_accounts db)). \<not> account_clash (ac (tb_next (db_accounts db))) w"
    using a(1) by (auto simp: table_create_def Let_def guardR_def list_all_iff split: if_splits)
  have d: "wf_table aut_id d" "tb_rows d = tb_rows (db_authorities db) @ [?c]"
    using wf_table_create [OF _ a(3,4)] assms(1) by (simp_all add: wf_auths_def)
  have new: "?n \<notin> acc_name ` set (tb_rows (db_accounts db))" using t(2) a(2) by (auto simp: account_clash_def)
  then show none: "find_authority ?n db = None"
    using assms(1) by (metis (mono_tags, lifting) find_None_iff find_authority_def list_all_iff table_find_def wf_auths_def)
  show "wf_auths db'" using assms(1) d t(1) a(2,5,6) by (auto simp: wf_auths_def list_all_iff)
  have "find_authority m db' = (if m = ?n then Some ?c else find_authority m db)" for m
  proof -
    have snoc: "find P (xs @ [y]) = (case find P xs of None \<Rightarrow> if P y then Some y else None | Some x \<Rightarrow> Some x)"
      for P and xs :: "account_authority_object list" and y by (induction xs) auto
    show ?thesis using none a(5,6) d(2) by (auto simp: find_authority_def table_find_def snoc split: option.splits)
  qed
  then show "\<exists>au. \<forall>m. find_authority m db' = (if m = ?n then Some au else find_authority m db)" by blast
qed

section \<open>The table and the authorities\<close>

text \<open>What the table says of an account is what its authorities say.\<close>

definition lookup_keys :: "account_name_type \<Rightarrow> key_lookup_object table \<Rightarrow> public_key_type set" where
  "lookup_keys n t = {k. (k, n) \<in> looked_up t}"

definition authority_keys :: "account_name_type \<Rightarrow> chain_db \<Rightarrow> public_key_type set" where
  "authority_keys n db = (case find_authority n db of None \<Rightarrow> {} | Some a \<Rightarrow> auth_keys_of a)"

lemma find_authority_account: "find_authority n db = Some a \<Longrightarrow> aut_account a = n"
  by (auto simp: find_authority_def table_find_def dest: find_Some_mem)

lemma update_account_ok:
  assumes "wf_lookup (kp_lookup kp)" "find_authority n db' = Some a"
  shows "\<exists>kp'. update_account n db' kp = Inr kp' \<and> wf_lookup (kp_lookup kp')
    \<and> (\<forall>m. m \<noteq> n \<longrightarrow> lookup_keys m (kp_lookup kp') = lookup_keys m (kp_lookup kp))
    \<and> lookup_keys n (kp_lookup kp') =
        (lookup_keys n (kp_lookup kp) \<union> (auth_keys_of a - set (kp_cached_keys kp))) - (set (kp_cached_keys kp) - auth_keys_of a)"
proof -
  from update_key_lookup_ok [OF assms(1), of a] find_authority_account [OF assms(2)]
  obtain kp' where "update_key_lookup a kp = Inr kp'" "wf_lookup (kp_lookup kp')"
    "looked_up (kp_lookup kp') = (looked_up (kp_lookup kp) \<union> (\<lambda>k. (k, n)) ` (auth_keys_of a - set (kp_cached_keys kp)))
        - (\<lambda>k. (k, n)) ` (set (kp_cached_keys kp) - auth_keys_of a)" by auto
  with assms(2) show ?thesis by (intro exI [of _ kp']) (auto simp: update_account_def lookup_keys_def)
qed

lemma cache_account_ok:
  "kp_lookup (cache_account n db kp) = kp_lookup kp" "set (kp_cached_keys (cache_account n db kp)) = authority_keys n db"
  by (simp_all add: cache_account_def clear_cache_def cache_auths_def authority_keys_def split: option.splits)

text \<open>The step an operation that changes the authority of \<open>n\<close> makes, with the cache filled before it.\<close>

lemma update_reflects:
  assumes "wf_lookup (kp_lookup kp)" "kp_lookup c = kp_lookup kp" "set (kp_cached_keys c) = authority_keys n db"
    and "\<forall>m. find_authority m db' = (if m = n then Some a else find_authority m db)"
  shows "\<exists>kp'. update_account n db' c = Inr kp' \<and> wf_lookup (kp_lookup kp')
    \<and> (\<forall>m. lookup_keys m (kp_lookup kp) = authority_keys m db \<longrightarrow> lookup_keys m (kp_lookup kp') = authority_keys m db')"
proof -
  from assms(4) have a: "find_authority n db' = Some a" by simp
  from assms(1,2) have w: "wf_lookup (kp_lookup c)" by simp
  from update_account_ok [OF w a] obtain kp' where k: "update_account n db' c = Inr kp'" "wf_lookup (kp_lookup kp')"
    "\<And>m. m \<noteq> n \<Longrightarrow> lookup_keys m (kp_lookup kp') = lookup_keys m (kp_lookup kp)"
    "lookup_keys n (kp_lookup kp') = (lookup_keys n (kp_lookup kp) \<union> (auth_keys_of a - authority_keys n db)) - (authority_keys n db - auth_keys_of a)"
    unfolding assms(2,3) by blast
  have "lookup_keys m (kp_lookup kp') = authority_keys m db'" if "lookup_keys m (kp_lookup kp) = authority_keys m db" for m
  proof (cases "m = n")
    case True
    with that k(4) a show ?thesis by (auto simp: authority_keys_def)
  next
    case False
    with that k(3) assms(4) show ?thesis by (simp add: authority_keys_def)
  qed
  with k show ?thesis by blast
qed

text \<open>
  C38: The account by key plugin follows the chain. Whatever operation succeeds, and whatever plugins are enabled, the notifications around it
  succeed, and every account whose keys in the lookup table were those of its authorities before the operation is so after it: a new
  account gets its keys, an updated or recovered one gets the new and loses the dropped ones, and no other account changes.
\<close>

theorem key_lookup_follows_authorities:
  assumes "wf_auths db" "wf_lookup (kp_lookup kp)" "apply_operation (with_plugins pt enabled env) op db = Inr db'"
  shows "\<exists>kp'. tracked_apply (with_plugins pt enabled env) op (kp, db) = Inr (kp', db') \<and> wf_auths db' \<and> wf_lookup (kp_lookup kp')
    \<and> (\<forall>n. lookup_keys n (kp_lookup kp) = authority_keys n db \<longrightarrow> lookup_keys n (kp_lookup kp') = authority_keys n db')"
proof -
  note run = assms(3) [unfolded apply_operation_def]
  have changed: ?thesis
    if post: "\<And>c. key_post_operation op db' c = update_account n db' c" and pre: "kp_lookup (key_pre_operation op db kp) = kp_lookup kp"
      "set (kp_cached_keys (key_pre_operation op db kp)) = authority_keys n db"
      and eff: "wf_auths db'" "\<forall>m. find_authority m db' = (if m = n then Some a else find_authority m db)" for n a
    using update_reflects [OF assms(2) pre eff(2)] assms(3) eff(1) by (auto simp: tracked_apply_def post)
  show ?thesis
  proof (cases "(\<exists>o'. op = Account_create o') \<or> (\<exists>o'. op = Account_update o') \<or> (\<exists>o'. op = Recover_account o')")
    case False
    then have same: "same_auths db db'" using other_operations_auths [OF with_plugins_keep_auths assms(3)] by blast
    have "key_pre_operation op db kp = kp" "key_post_operation op db' kp = Inr kp" using False by (cases op; simp)+
    then have "tracked_apply (with_plugins pt enabled env) op (kp, db) = Inr (kp, db')" using assms(3) by (simp add: tracked_apply_def)
    then show ?thesis using assms(1,2) same by (simp add: same_auths_wf same_auths_find authority_keys_def)
  next
    case True
    then consider (create) o1 where "op = Account_create o1" | (update) o2 where "op = Account_update o2" | (recover) o3 where "op = Recover_account o3"
      by blast
    then show ?thesis
    proof cases
      case create
      with run have r: "account_create_apply o1 db = Inr db'" by (auto simp: result_simps)
      from account_create_added [OF assms(1) r] create show ?thesis
        by (elim exE) (rule changed [where n = "ac_new_account_name o1"], auto simp: clear_cache_def authority_keys_def)
    next
      case update
      with run have r: "account_update_apply o2 db = Inr db'" by (auto simp: result_simps)
      from account_update_changed [OF assms(1) r] update assms(1) show ?thesis unfolding one_changed_def
        by (elim exE conjE) (rule changed [where n = "au_account o2"], auto simp: cache_account_ok)
    next
      case recover
      with run have r: "recover_account_apply o3 db = Inr db'" by (auto simp: result_simps)
      from recover_account_changed [OF assms(1) r] recover assms(1) show ?thesis unfolding one_changed_def
        by (elim exE conjE) (rule changed [where n = "ra_account_to_recover o3"], auto simp: cache_account_ok)
    qed
  qed
qed

section \<open>An account that changes a key\<close>

definition one_key :: "public_key_type \<Rightarrow> authority" where
  "one_key k = \<lparr>weight_threshold = 1, account_auths = [], key_auths = [(k, 1)]\<rparr>"

definition key_db :: chain_db where
  "key_db = example_db\<lparr>db_authorities := \<lparr>tb_next = 1, tb_rows = [\<lparr>aut_id = 0, aut_account = ''alice'', aut_owner = one_key 7,
     aut_active = one_key 8, aut_posting = one_key 7, aut_last_owner_update = 0\<rparr>]\<rparr>\<rparr>"

definition alice_keys :: key_plugin where
  "alice_keys = \<lparr>kp_lookup = \<lparr>tb_next = 2, tb_rows = [\<lparr>klo_id = 0, klo_key = 7, klo_account = ''alice''\<rparr>,
     \<lparr>klo_id = 1, klo_key = 8, klo_account = ''alice''\<rparr>]\<rparr>, kp_cached_keys = []\<rparr>"

definition alice_new_key :: operation where
  "alice_new_key = Account_update \<lparr>au_account = ''alice'', au_owner = None, au_active = Some (one_key 9), au_posting = None,
     au_memo_key = 0, au_json_metadata = []\<rparr>"

lemmas key_eval = one_key_def key_db_def alice_keys_def alice_new_key_def account_update_apply_def update_owner_def accounts_exist_def
  accounts_exist_opt_def get_account_authority_def update_account_object_def SIGMAENGINE_TEMP_ACCOUNT_def SIGMAENGINE_HARDFORK_0_1_def update_account_auth_def has_hardfork_def economy_eval

lemma alice_new_key_run:
  "\<exists>d. apply_operation (with_plugins example_plugins [''dapp'', ''token''] example_env) alice_new_key key_db = Inr d \<and> authority_keys ''alice'' d = {7, 9}"
  by (auto simp: key_eval authority_keys_def find_authority_def auth_keys_of_def)

theorem key_lookup_follows_authorities_witness:
  "\<exists>kp' d. tracked_apply (with_plugins example_plugins [''dapp'', ''token''] example_env) alice_new_key (alice_keys, key_db) = Inr (kp', d)
     \<and> lookup_keys ''alice'' (kp_lookup alice_keys) = {7, 8} \<and> lookup_keys ''alice'' (kp_lookup kp') = {7, 9}"
proof -
  from alice_new_key_run obtain d where d: "apply_operation (with_plugins example_plugins [''dapp'', ''token''] example_env) alice_new_key key_db = Inr d"
    "authority_keys ''alice'' d = {7, 9}" by (elim exE conjE) (rule that)
  have wf: "wf_auths key_db" "wf_lookup (kp_lookup alice_keys)" by (simp_all add: wf_auths_def wf_lookup_def wf_table_def key_eval)
  have old: "lookup_keys ''alice'' (kp_lookup alice_keys) = {7, 8}" "authority_keys ''alice'' key_db = {7, 8}"
    by (auto simp: lookup_keys_def looked_up_def authority_keys_def find_authority_def auth_keys_of_def key_eval)
  from key_lookup_follows_authorities [OF wf d(1)] obtain kp' where
    "tracked_apply (with_plugins example_plugins [''dapp'', ''token''] example_env) alice_new_key (alice_keys, key_db) = Inr (kp', d)"
    "lookup_keys ''alice'' (kp_lookup kp') = authority_keys ''alice'' d" using old by metis
  with d(2) old(1) show ?thesis by (intro exI conjI) simp_all
qed

end
