(* ===== verification/Genesis.thy ===== *)
theory Genesis
  imports Key_Lookup Node
begin

text \<open>
  The first state of the chain and the start of a node, from \<^verbatim>\<open>database.cpp\<close> and \<^verbatim>\<open>application.cpp\<close>: \<^verbatim>\<open>init_genesis\<close>,
  \<^verbatim>\<open>init_hardforks\<close>, the part of \<^verbatim>\<open>open\<close> that decides which state a node starts from, \<^verbatim>\<open>reindex\<close>, and \<^verbatim>\<open>startup\<close>, which
  chooses between them. The theorem: from genesis on, whatever a node is asked to do, however often it is stopped and restarted and
  whatever plugins it has, the balances of all accounts and funds add up to the recorded supply.
\<close>

section \<open>Genesis\<close>

definition SIGMAENGINE_INIT_SUPPLY :: "64 word" where "SIGMAENGINE_INIT_SUPPLY = 0"
definition SIGMAENGINE_NUM_INIT_MINERS :: nat where "SIGMAENGINE_NUM_INIT_MINERS = 1"
definition SIGMAENGINE_MAX_MINER_BOBSERVERS_HF0 :: nat where "SIGMAENGINE_MAX_MINER_BOBSERVERS_HF0 = 4"
definition SIGMAENGINE_MAX_RUNNER_BOBSERVERS_HF0 :: nat where "SIGMAENGINE_MAX_RUNNER_BOBSERVERS_HF0 = 10"
definition SIGMAENGINE_DAPP_TRANSACTION_FEE :: asset where "SIGMAENGINE_DAPP_TRANSACTION_FEE = SGT 0"

text \<open>The object before its constructor function runs.\<close>

definition new_authority :: "nat \<Rightarrow> account_authority_object" where
  "new_authority i = \<lparr>aut_id = i, aut_account = [], aut_owner = empty_authority, aut_active = empty_authority,
     aut_posting = empty_authority, aut_last_owner_update = 0\<rparr>"

text \<open>The tables genesis fills with accounts.\<close>

record genesis_tables =
  gt_accounts :: "account_object table"
  gt_authorities :: "account_authority_object table"
  gt_bobservers :: "bobserver_object table"

definition create_account :: "(account_object \<Rightarrow> account_object) \<Rightarrow> genesis_tables \<Rightarrow> genesis_tables result" where
  "create_account c gt =
     bindR (table_create account_clash (\<lambda>i. c (new_account i)) (gt_accounts gt)) (\<lambda>t. Inr (gt\<lparr>gt_accounts := t\<rparr>))"

definition create_authority :: "(account_authority_object \<Rightarrow> account_authority_object) \<Rightarrow> genesis_tables \<Rightarrow> genesis_tables result" where
  "create_authority c gt =
     bindR (table_create no_unique_key (\<lambda>i. c (new_authority i)) (gt_authorities gt)) (\<lambda>t. Inr (gt\<lparr>gt_authorities := t\<rparr>))"

definition create_bobserver :: "(bobserver_object \<Rightarrow> bobserver_object) \<Rightarrow> genesis_tables \<Rightarrow> genesis_tables result" where
  "create_bobserver c gt =
     bindR (table_create bobserver_clash (\<lambda>i. c (new_bobserver i)) (gt_bobservers gt)) (\<lambda>t. Inr (gt\<lparr>gt_bobservers := t\<rparr>))"

text \<open>The accounts without keys: miners, null and temp, with the thresholds of their owner and active authorities.\<close>

definition special_account :: "account_name_type \<Rightarrow> nat \<Rightarrow> genesis_tables \<Rightarrow> genesis_tables result" where
  "special_account name threshold gt =
     bindR (create_account (\<lambda>a. a\<lparr>acc_name := name\<rparr>) gt) (\<lambda>gt.
     create_authority (\<lambda>auth. auth\<lparr>aut_account := name, aut_owner := (aut_owner auth)\<lparr>weight_threshold := threshold\<rparr>,
       aut_active := (aut_active auth)\<lparr>weight_threshold := threshold\<rparr>\<rparr>) gt)"

definition init_miner_name :: "nat \<Rightarrow> account_name_type" where
  "init_miner_name i = SIGMAENGINE_INIT_MINER_NAME @ (if i \<noteq> 0 then int_to_string (int i) else [])"

definition init_miner :: "public_key_type \<Rightarrow> 64 word \<Rightarrow> genesis_tables \<Rightarrow> nat \<Rightarrow> genesis_tables result" where
  "init_miner key init_supply gt i =
     (let owner = (add_key_authority key 1 empty_authority)\<lparr>weight_threshold := 1\<rparr> in
      bindR (create_account (\<lambda>a. a\<lparr>acc_name := init_miner_name i, acc_memo_key := key,
        acc_balance := SGT (sint (if i \<noteq> 0 then 0 else init_supply))\<rparr>) gt) (\<lambda>gt.
      bindR (create_authority (\<lambda>auth. auth\<lparr>aut_account := init_miner_name i, aut_owner := owner, aut_active := owner, aut_posting := owner\<rparr>) gt) (\<lambda>gt.
      create_bobserver (\<lambda>w. w\<lparr>bo_account := init_miner_name i, bo_signing_key := key\<rparr>) gt)))"

definition genesis_properties :: "64 word \<Rightarrow> dynamic_global_property_object" where
  "genesis_properties init_supply =
     \<lparr>dgp_head_block_number = 0, dgp_head_block_id = replicate 5 0, dgp_time = SIGMAENGINE_GENESIS_TIME,
      dgp_current_bobserver = SIGMAENGINE_INIT_MINER_NAME, dgp_current_supply = SGT (sint init_supply),
      dgp_maximum_block_size = SIGMAENGINE_MAX_BLOCK_SIZE, dgp_current_aslot = 0, dgp_recent_slots_filled = - 1,
      dgp_participation_count = 128, dgp_dapp_transaction_fee = SIGMAENGINE_DAPP_TRANSACTION_FEE,
      dgp_last_irreversible_block_num = 0, dgp_current_bproducer_count = 0, dgp_next_update_bproducer_owner_time = 0,
      dgp_last_dapp_voting_aggregation_time = 0, dgp_total_transfer = 0\<rparr>"

definition genesis_schedule :: bobserver_schedule_object where
  "genesis_schedule =
     \<lparr>wso_next_shuffle_block_num = 1,
      wso_current_shuffled_bobservers = (replicate SIGMAENGINE_NUM_BOBSERVERS [])[0 := SIGMAENGINE_INIT_MINER_NAME],
      wso_num_scheduled_bobservers = 1, wso_majority_version = 0,
      wso_max_voted_bobservers = SIGMAENGINE_MAX_VOTED_BOBSERVERS_HF0, wso_max_miner_bobservers = SIGMAENGINE_MAX_MINER_BOBSERVERS_HF0,
      wso_max_runner_bobservers = SIGMAENGINE_MAX_RUNNER_BOBSERVERS_HF0,
      wso_hardfork_required_bobservers = SIGMAENGINE_HARDFORK_REQUIRED_BOBSERVERS\<rparr>"

definition deposit_fund :: "double_ops \<Rightarrow> time_point_sec \<Rightarrow> nat \<Rightarrow> common_fund_object" where
  "deposit_fund dbl now i =
     \<lparr>cfo_id = i, cfo_name = SIGMAENGINE_DEPOSIT_FUND_NAME, cfo_fund_balance = SGT 0, cfo_fund_withdraw_ready = SGT 0,
      cfo_percent_interest = replicate SIGMAENGINE_MAX_USER_TYPE (replicate SIGMAENGINE_MAX_STAKING_MONTH (dbl_minus_one dbl)),
      cfo_last_update = now\<rparr>"

definition init_genesis :: "double_ops \<Rightarrow> public_key_type \<Rightarrow> 64 word \<Rightarrow> chain_db result" where
  "init_genesis dbl init_public_key init_supply =
     bindR (special_account SIGMAENGINE_MINER_ACCOUNT 1 \<lparr>gt_accounts = empty_table, gt_authorities = empty_table, gt_bobservers = empty_table\<rparr>) (\<lambda>gt.
     bindR (special_account SIGMAENGINE_NULL_ACCOUNT 1 gt) (\<lambda>gt.
     bindR (special_account SIGMAENGINE_TEMP_ACCOUNT 0 gt) (\<lambda>gt.
     bindR (foldR (init_miner init_public_key init_supply) gt [0..<SIGMAENGINE_NUM_INIT_MINERS]) (\<lambda>gt.
     let dgp = genesis_properties init_supply in
     bindR (table_create no_unique_key (deposit_fund dbl (dgp_time dgp)) empty_table) (\<lambda>funds.
     Inr \<lparr>db_accounts = gt_accounts gt, db_authorities = gt_authorities gt, db_histories = empty_table,
        db_recovery_requests = empty_table, db_change_requests = empty_table, db_decline_requests = empty_table, db_auth_tokens = empty_table,
        db_savings = empty_table, db_fund_withdraws = empty_table, db_funds = funds,
        db_dapp_fund = \<lparr>drf_id = 0, drf_fund_balance = SGT 0, drf_last_update = dgp_time dgp\<rparr>,
        db_bobservers = gt_bobservers gt, db_votes = empty_table, db_schedule = genesis_schedule, db_dgp = dgp,
        db_hardfork = \<lparr>hpo_processed_hardforks = [SIGMAENGINE_GENESIS_TIME], hpo_last_hardfork = 0, hpo_current_hardfork_version = 0,
          hpo_next_hardfork = 0, hpo_next_hardfork_time = 0\<rparr>,
        db_summaries = (\<lambda>_. replicate 5 0), db_transactions = empty_table, db_virtual_ops = [], db_plugins = empty_plugin_db\<rparr>)))))"

section \<open>Opening a node\<close>

definition init_hardforks :: "chain_db \<Rightarrow> unit result" where
  "init_hardforks db =
     fc_assert (hpo_last_hardfork (db_hardfork db) \<le> SIGMAENGINE_NUM_HARDFORKS) Unnamed_assertion (
     fc_assert (hardfork_versions ! hpo_last_hardfork (db_hardfork db) \<le> SIGMAENGINE_BLOCKCHAIN_VERSION) Unnamed_assertion (
     fc_assert (SIGMAENGINE_BLOCKCHAIN_HARDFORK_VERSION = hardfork_versions ! SIGMAENGINE_NUM_HARDFORKS) Unnamed_assertion (Inr ())))"

function undo_all_sessions :: "node_state \<Rightarrow> node_state" where
  "undo_all_sessions nd = (if nd_undo nd \<noteq> [] then undo_all_sessions (undo_session nd) else nd)"
  by pat_completeness auto
termination
  by (relation "measure (\<lambda>nd. length (nd_undo nd))") (auto simp: undo_session_def split: list.splits)

declare undo_all_sessions.simps [simp del]

text \<open>
  What the shared memory file and the block log hold when the program starts: nothing, or the state, its revision and its
  undo sessions, which survive a stop of the program; and the blocks of the log.
\<close>

type_synonym stored_state = "(chain_db \<times> int \<times> (int \<times> chain_db) list) option"

definition started_node :: "chain_db \<Rightarrow> int \<Rightarrow> (int \<times> chain_db) list \<Rightarrow> signed_block list \<Rightarrow> node_state" where
  "started_node db revision sessions log =
     \<lparr>nd_db = db, nd_revision = revision, nd_undo = sessions, nd_fork = empty_fork_database, nd_log = log,
      nd_pending = [], nd_pending_session = False, nd_popped = []\<rparr>"

definition open_node :: "chain_params \<Rightarrow> public_key_type \<Rightarrow> 64 word \<Rightarrow> stored_state \<Rightarrow> signed_block list \<Rightarrow> node_state result" where
  "open_node cp init_public_key initial_supply stored log =
     bindR (case stored of
              None \<Rightarrow> bindR (init_genesis (env_doubles (cp_env cp)) init_public_key initial_supply) (\<lambda>db. Inr (started_node db 0 [] log))
            | Some (db, revision, sessions) \<Rightarrow> Inr (started_node db revision sessions log)) (\<lambda>nd.
     let nd = undo_all_sessions nd; head_num = head_block_num (nd_db nd) in
     fc_assert (nd_revision nd = int head_num) Unnamed_assertion (
     bindR (if head_num \<noteq> 0 then
              bindR (read_block_by_num head_num log) (\<lambda>head_block.
              case head_block of
                None \<Rightarrow> Inl (Assert_exception Unnamed_assertion)
              | Some b \<Rightarrow> fc_assert (block_id (cp_block cp) b = head_block_id (nd_db nd)) Unnamed_assertion (
                  Inr (nd\<lparr>nd_fork := start_block (cp_block cp) b (nd_fork nd)\<rparr>)))
            else Inr nd) (\<lambda>nd.
     bindR (init_hardforks (nd_db nd)) (\<lambda>_. Inr nd))))"

section \<open>Replaying the block log\<close>

definition replay_skip :: "32 word" where
  "replay_skip = skip_bobserver_signature OR skip_transaction_signatures OR skip_transaction_dupe_check OR skip_tapos_check
     OR skip_merkle_check OR skip_bobserver_schedule_check OR skip_authority_check OR skip_validate OR skip_validate_invariants
     OR skip_block_log"

text \<open>The loop stops after the block with the number of the last one; reading past the end of the log throws.\<close>

fun replay_log :: "chain_params \<Rightarrow> (nat \<times> block_id_type) list \<Rightarrow> 32 word \<Rightarrow> signed_block list \<Rightarrow> node_state \<Rightarrow> unit node_result" where
  "replay_log cp cks last_block_num [] nd = Failed (Assert_exception Out_of_range) nd"
| "replay_log cp cks last_block_num (b # bs) nd =
     (case apply_block cp cks replay_skip b nd of
        Done _ nd' \<Rightarrow> if block_num b = last_block_num then Done () nd' else replay_log cp cks last_block_num bs nd'
      | Failed e nd' \<Rightarrow> Failed e nd'
      | Torn e \<Rightarrow> Torn e)"

definition set_node_revision :: "int \<Rightarrow> node_state \<Rightarrow> node_state result" where
  "set_node_revision r nd = (if nd_undo nd \<noteq> [] then Inl Logic_error else Inr (nd\<lparr>nd_revision := r\<rparr>))"

definition reindex :: "chain_params \<Rightarrow> (nat \<times> block_id_type) list \<Rightarrow> public_key_type \<Rightarrow> signed_block list \<Rightarrow> node_state result" where
  "reindex cp cks init_public_key log =
     bindR (open_node cp init_public_key SIGMAENGINE_INIT_SUPPLY None log) (\<lambda>nd.
     let nd = nd\<lparr>nd_fork := fork_reset (nd_fork nd)\<rparr> in
     if log = [] then Inl Block_log_exception
     else (case replay_log cp cks (block_num (last log)) log nd of
             Failed e _ \<Rightarrow> Inl e
           | Torn e \<Rightarrow> Inl e
           | Done _ nd \<Rightarrow>
               bindR (set_node_revision (int (head_block_num (nd_db nd))) nd) (\<lambda>nd.
               Inr (if block_num (last log) \<noteq> 0 then nd\<lparr>nd_fork := start_block (cp_block cp) (last log) (nd_fork nd)\<rparr> else nd))))"

text \<open>
  \<^verbatim>\<open>application::startup\<close>: a state that does not open is rebuilt from the log. The second attempt to open, after a replay that
  found no blocks, throws: the first one has already added the indexes.
\<close>

definition startup :: "chain_params \<Rightarrow> (nat \<times> block_id_type) list \<Rightarrow> public_key_type \<Rightarrow> bool \<Rightarrow> stored_state \<Rightarrow> signed_block list \<Rightarrow> node_state result" where
  "startup cp cks init_public_key replay_blockchain stored log =
     (if replay_blockchain then reindex cp cks init_public_key log
      else (case open_node cp init_public_key SIGMAENGINE_INIT_SUPPLY stored log of
              Inl (Assert_exception a) \<Rightarrow>
                (case reindex cp cks init_public_key log of
                   Inl e \<Rightarrow> Inl (if e = Block_log_exception then Logic_error else e)
                 | Inr nd \<Rightarrow> Inr nd)
            | r \<Rightarrow> r))"

text \<open>
  The life of a node: it starts on an empty directory, works, and is stopped at any moment, with whatever pending transactions
  and unfinished forks it has, and started again on the files it left.
\<close>

inductive node_life :: "chain_params \<Rightarrow> (nat \<times> block_id_type) list \<Rightarrow> public_key_type \<Rightarrow> node_state \<Rightarrow> bool" for cp cks key where
  started: "startup cp cks key replay None log = Inr nd \<Longrightarrow> node_life cp cks key nd"
| worked: "node_life cp cks key nd \<Longrightarrow> node_step cp cks nd nd' \<Longrightarrow> node_life cp cks key nd'"
| restarted: "node_life cp cks key nd \<Longrightarrow> startup cp cks key replay (Some (nd_db nd, nd_revision nd, nd_undo nd)) (nd_log nd) = Inr nd'
     \<Longrightarrow> node_life cp cks key nd'"

section \<open>The first state\<close>

lemmas genesis_eval = init_genesis_def special_account_def init_miner_def init_miner_name_def create_account_def create_authority_def create_bobserver_def
  genesis_properties_def deposit_fund_def new_authority_def new_account_def new_bobserver_def table_create_def empty_table_def
  account_clash_def bobserver_clash_def no_unique_key_def SIGMAENGINE_NUM_INIT_MINERS_def SIGMAENGINE_MINER_ACCOUNT_def
  SIGMAENGINE_NULL_ACCOUNT_def SIGMAENGINE_TEMP_ACCOUNT_def SIGMAENGINE_INIT_MINER_NAME_def SGT_def Let_def

lemma init_genesis_ok:
  "\<exists>db. init_genesis dbl key supply = Inr db \<and> wf_db db \<and> unaccounted db = 0 \<and> (0 \<le> sint supply \<longrightarrow> solvent db) \<and> wf_auths db
     \<and> head_block_num db = 0 \<and> hpo_last_hardfork (db_hardfork db) = 0 \<and> db_plugins db = empty_plugin_db \<and> db_transactions db = empty_table
     \<and> authority_keys SIGMAENGINE_INIT_MINER_NAME db = {key}"
  by (simp add: genesis_eval wf_db_def wf_table_def wf_auths_def books_defs solvent_def head_block_num_def authority_keys_def
      find_authority_def table_find_def auth_keys_of_def add_key_authority_def empty_authority_def dom_flat_map_put)

text \<open>The hypotheses the other theories make on tables of the plugins hold of empty tables.\<close>

lemma empty_plugins_ok:
  "wf_tokens empty_plugin_db" "token_gap n empty_plugin_db = 0" "wf_comments (pl_comments empty_plugin_db)" "wf_dapps empty_plugin_db"
  "wf_table tsw_id (pl_savings empty_plugin_db)" "reserve_ok empty_plugin_db"
  by (simp_all add: empty_plugin_db_def empty_table_def wf_tokens_def token_gap_def held_by_accounts_def held_by_funds_def recorded_supply_def token_names_def
      wf_comments_def wf_tree_def parents_older_def no_two_clash_def wf_dapps_def approved_names_def reserve_ok_def wf_table_def)

section \<open>What every state of a node has\<close>

lemma undo_all_undone: "nd_undo (undo_all_sessions nd) = []"
  by (induction nd rule: undo_all_sessions.induct) (simp add: undo_all_sessions.simps)

lemma undo_all_pending: "nd_pending_session (undo_all_sessions nd) = nd_pending_session nd"
proof (induction nd rule: undo_all_sessions.induct)
  case (1 nd)
  then show ?case by (cases "nd_undo nd = []") (simp_all add: undo_all_sessions.simps [of nd], simp add: undo_session_def split: list.splits)
qed

text \<open>Opening goes back to the oldest state that can be undone to, or to genesis.\<close>

lemma undo_all_good:
  assumes "case nd_undo nd of [] \<Rightarrow> good (nd_db nd) | s # u \<Rightarrow> chained step good u (snd s)"
  shows "good (nd_db (undo_all_sessions nd))"
  using assms
proof (induction nd rule: undo_all_sessions.induct)
  case (1 nd)
  show ?case
  proof (cases "nd_undo nd")
    case Nil
    with 1(2) show ?thesis by (simp add: undo_all_sessions.simps [of nd])
  next
    case (Cons s u)
    then have "nd_undo (undo_session nd) = u" "nd_db (undo_session nd) = snd s" by (simp_all add: undo_session_def case_prod_beta)
    with 1(2) Cons have "case nd_undo (undo_session nd) of [] \<Rightarrow> good (nd_db (undo_session nd)) | s' # u' \<Rightarrow> chained step good u' (snd s')"
      by (cases u) auto
    from 1(1) [OF _ this] Cons show ?thesis by (simp add: undo_all_sessions.simps [of nd])
  qed
qed

lemma open_node_Inr:
  assumes "open_node cp key s stored log = Inr nd'"
  obtains nd where "nd_db nd' = nd_db (undo_all_sessions nd)" "nd_undo nd' = []" "\<not> nd_pending_session nd'"
    "case stored of None \<Rightarrow> \<exists>db. init_genesis (env_doubles (cp_env cp)) key s = Inr db \<and> nd = started_node db 0 [] log
       | Some (db, r, u) \<Rightarrow> nd = started_node db r u log"
proof -
  from assms obtain nd where nd: "(case stored of
              None \<Rightarrow> bindR (init_genesis (env_doubles (cp_env cp)) key s) (\<lambda>db. Inr (started_node db 0 [] log))
            | Some (db, revision, sessions) \<Rightarrow> Inr (started_node db revision sessions log)) = Inr nd"
    "nd_db nd' = nd_db (undo_all_sessions nd)" "nd_undo nd' = nd_undo (undo_all_sessions nd)" "nd_pending_session nd' = nd_pending_session (undo_all_sessions nd)"
    by (auto simp: open_node_def Let_def result_simps split: if_splits option.splits)
  then show ?thesis
    by (intro that [of nd]) (auto simp: undo_all_undone undo_all_pending started_node_def result_simps split: option.splits prod.splits)
qed

lemma fresh_node:
  assumes "open_node cp key s None log = Inr nd"
  shows "init_genesis (env_doubles (cp_env cp)) key s = Inr (nd_db nd)" "nd_undo nd = []" "\<not> nd_pending_session nd"
proof -
  from assms obtain db where db: "init_genesis (env_doubles (cp_env cp)) key s = Inr db"
    "nd_db nd = nd_db (undo_all_sessions (started_node db 0 [] log))" "nd_undo nd = []" "\<not> nd_pending_session nd"
    by (elim open_node_Inr) auto
  have "undo_all_sessions (started_node db 0 [] log) = started_node db 0 [] log" by (simp add: undo_all_sessions.simps started_node_def)
  with db show "init_genesis (env_doubles (cp_env cp)) key s = Inr (nd_db nd)" "nd_undo nd = []" "\<not> nd_pending_session nd"
    by (simp_all add: started_node_def)
qed

locale node_lifetime = node_chain +
  fixes cks :: "(nat \<times> block_id_type) list" and key :: public_key_type
  assumes genesis: "init_genesis (env_doubles (cp_env cp)) key SIGMAENGINE_INIT_SUPPLY = Inr db \<Longrightarrow> good db"
begin

lemma fresh_settled:
  assumes "open_node cp key SIGMAENGINE_INIT_SUPPLY None log = Inr nd"
  shows "resting step good nd" "nd_undo nd = []"
  using fresh_node [OF assms] genesis by (simp_all add: resting_def)

lemma replay_settled:
  "replay_log cp cks n bs nd = Done x nd' \<Longrightarrow> resting step good nd \<Longrightarrow> nd_undo nd = [] \<Longrightarrow> resting step good nd' \<and> nd_undo nd' = []"
proof (induction bs arbitrary: nd)
  case (Cons b bs)
  then obtain y nd1 where nd1: "apply_block cp cks replay_skip b nd = Done y nd1" "nd1 = nd' \<or> replay_log cp cks n bs nd1 = Done x nd'"
    by (auto split: node_result.splits if_splits)
  from apply_block_shortened(2) [OF nd1(1)] obtain skip' mid where mid: "shortened nd mid" "nd1 = mid\<lparr>nd_db := nd_db nd1\<rparr>"
    "apply_block_state cp skip' b (nd_db nd) = Inr (nd_db nd1)" by blast
  have "nd_undo nd1 = []" "nd_pending_session nd1 = nd_pending_session nd"
    using mid(1) Cons.prems(3) arg_cong [OF mid(2), of nd_undo] arg_cong [OF mid(2), of nd_pending_session] by (auto simp: shortened_def)
  moreover have "good (nd_db nd1)" using applied [OF _ mid(3)] Cons.prems(2,3) by (simp add: resting_def)
  ultimately have "resting step good nd1" "nd_undo nd1 = []" using Cons.prems(2) by (simp_all add: resting_def)
  with nd1(2) Cons.IH show ?case by blast
qed simp

lemma reindex_settled:
  assumes "reindex cp cks key log = Inr nd"
  shows "resting step good nd"
proof -
  from assms obtain nd1 where nd1: "open_node cp key SIGMAENGINE_INIT_SUPPLY None log = Inr nd1"
    by (auto simp: reindex_def bindR_Inr_iff)
  let ?run = "replay_log cp cks (block_num (last log)) log (nd1\<lparr>nd_fork := fork_reset (nd_fork nd1)\<rparr>)"
  obtain nd2 where nd2: "?run = Done () nd2"
    using assms nd1 by (cases ?run) (auto simp: reindex_def Let_def split: if_splits)
  have "nd_db nd = nd_db nd2 \<and> nd_undo nd = nd_undo nd2 \<and> nd_pending_session nd = nd_pending_session nd2"
    using assms nd1 nd2 by (auto simp: reindex_def Let_def set_node_revision_def split: if_splits)
  with replay_settled [OF nd2] fresh_settled [OF nd1] show ?thesis by (auto simp: resting_def)
qed

lemma reopened_settled:
  assumes "settled step good nd" "open_node cp key s (Some (nd_db nd, nd_revision nd, nd_undo nd)) log = Inr nd'"
  shows "resting step good nd'"
proof -
  let ?nd = "started_node (nd_db nd) (nd_revision nd) (nd_undo nd) log"
  from assms(2) have nd': "nd_db nd' = nd_db (undo_all_sessions ?nd)" "nd_undo nd' = []" "\<not> nd_pending_session nd'" by (auto elim: open_node_Inr)
  have "case nd_undo ?nd of [] \<Rightarrow> good (nd_db ?nd) | s # u \<Rightarrow> chained step good u (snd s)"
    using assms(1) by (auto simp: settled_def started_node_def split: list.splits if_splits)
  from undo_all_good [OF this] nd' show ?thesis by (simp add: resting_def)
qed

lemma startup_settled:
  assumes "startup cp cks key replay stored log = Inr nd'"
    and "\<And>nd'. open_node cp key SIGMAENGINE_INIT_SUPPLY stored log = Inr nd' \<Longrightarrow> resting step good nd'"
  shows "resting step good nd'"
  using assms reindex_settled by (auto simp: startup_def split: if_splits sum.splits fc_error.splits)

lemma life_settled: "node_life cp cks key nd \<Longrightarrow> settled step good nd"
proof (induction rule: node_life.induct)
  case (started replay log nd)
  then show ?case by (blast intro: resting_settled startup_settled fresh_settled(1))
next
  case (worked nd nd')
  then show ?case by (blast intro: step_settled)
next
  case (restarted nd replay nd')
  then show ?case by (blast intro: resting_settled startup_settled reopened_settled)
qed

end

interpretation books_life: node_lifetime cp "\<lambda>_ _. True" "books_state cp 0" cks key for cp cks key
proof unfold_locales
  fix db
  assume "init_genesis (env_doubles (cp_env cp)) key SIGMAENGINE_INIT_SUPPLY = Inr db"
  with init_genesis_ok [of "env_doubles (cp_env cp)" key SIGMAENGINE_INIT_SUPPLY] show "books_state cp 0 db" by (auto simp: books_state_def)
qed

text \<open>
  C1: From genesis on nothing is created or lost. A node starts on an empty directory, with whatever plugins and checkpoints,
  and is given any sequence of blocks (valid or not, on any fork), transactions, production and pops; it is stopped and
  restarted, with or without a replay of its block log, any number of times: at every moment,
  with the pending transactions applied, the balances and savings of all accounts, the funds and the dapp reward fund add up to exactly the recorded supply.
\<close>

theorem supply_is_held_from_genesis:
  assumes "node_life cp cks key nd" "cp_env cp = with_plugins pt enabled env"
  shows "money_accounts (nd_db nd) + money_funds (nd_db nd) + money_dapp (nd_db nd)
    = amount (dgp_current_supply (db_dgp (nd_db nd)))"
proof -
  have "plugins_balanced (cp_env cp)" unfolding assms(2) by (rule with_plugins_kept)
  with books.settled_good [OF books_life.life_settled [OF assms(1)]] show ?thesis
    by (simp add: books_state_def unaccounted_def)
qed

text \<open>At genesis.\<close>

theorem supply_is_held_from_genesis_witness:
  "\<exists>nd. open_node (example_params\<lparr>cp_env := with_plugins example_plugins [''dapp'', ''token''] example_env\<rparr>) 7 0 None [] = Inr nd
     \<and> money_accounts (nd_db nd) + money_funds (nd_db nd) + money_dapp (nd_db nd) = amount (dgp_current_supply (db_dgp (nd_db nd)))"
proof -
  let ?cp = "example_params\<lparr>cp_env := with_plugins example_plugins [''dapp'', ''token''] example_env\<rparr>"
  from init_genesis_ok [of "env_doubles (cp_env ?cp)" 7 SIGMAENGINE_INIT_SUPPLY] obtain db where
    db: "init_genesis (env_doubles (cp_env ?cp)) 7 SIGMAENGINE_INIT_SUPPLY = Inr db" "head_block_num db = 0" "hpo_last_hardfork (db_hardfork db) = 0"
    by (elim exE conjE) (rule that)
  have "hardfork_versions ! 0 \<le> SIGMAENGINE_BLOCKCHAIN_VERSION" "SIGMAENGINE_BLOCKCHAIN_HARDFORK_VERSION = hardfork_versions ! SIGMAENGINE_NUM_HARDFORKS"
    by code_simp+
  with db have nd: "open_node ?cp 7 SIGMAENGINE_INIT_SUPPLY None [] = Inr (started_node db 0 [] [])"
    by (simp add: open_node_def undo_all_sessions.simps started_node_def init_hardforks_def Let_def)
  then have "startup ?cp [] 7 False None [] = Inr (started_node db 0 [] [])" by (simp add: startup_def)
  from supply_is_held_from_genesis [OF node_life.started [OF this], of example_plugins "[''dapp'', ''token'']" example_env] nd show ?thesis
    by (auto simp: SIGMAENGINE_INIT_SUPPLY_def)
qed

section \<open>What a replay forgets\<close>

lemma apply_transactions_unremembered:
  assumes keep: "plugins_keep_head (cp_env cp)" and skip: "skips skip skip_transaction_dupe_check"
  shows "foldR (\<lambda>db trx. apply_transaction cp skip trx db) db trxs = Inr db' \<Longrightarrow> db_transactions db' = db_transactions db"
proof (induction trxs arbitrary: db)
  case (Cons trx trxs)
  then obtain d where d: "apply_transaction cp skip trx db = Inr d" "db_transactions db' = db_transactions d" by (auto simp: bindR_Inr_iff)
  then have "apply_operations cp (operations trx) db = Inr d"
    using skip by (auto simp: apply_transaction_def Let_def bindR_Inr_iff fc_assert_Inr_iff remember_transaction_def)
  from apply_operations_head [OF keep this] d(2) show ?case by (simp add: same_head_def)
qed simp

lemma unremembering_block:
  assumes "plugins_keep_head (cp_env cp)" "skips skip skip_transaction_dupe_check" "apply_block_state cp skip b db = Inr db'"
    and "tb_rows (db_transactions db) = []"
  shows "tb_rows (db_transactions db') = []"
proof -
  from assms(3) obtain d where d: "begin_block cp skip b db = Inr d" "finish_block cp b d = Inr db'"
    by (auto simp: apply_block_state_def bindR_Inr_iff)
  from d(1) obtain signing d1 d2 d3 n where
    d1: "process_header_extensions b (modify_dgp (\<lambda>dgp. dgp\<lparr>dgp_current_bobserver := bobserver b\<rparr>) db) = Inr d1"
    and d2: "foldR (\<lambda>db trx. apply_transaction cp skip trx db) d1 (transactions b) = Inr d2"
    and d3: "update_global_dynamic_data (cp_block cp) skip b d2 = Inr d3"
    and dd: "d = modify_dgp (\<lambda>p. p\<lparr>dgp_last_irreversible_block_num := n\<rparr>) (update_signing_bobserver signing b d3)"
    by (rule begin_blockE)
  have "db_transactions d1 = db_transactions db" using process_header_extensions_frame [OF d1] by (auto simp: modify_dgp_def)
  moreover obtain t where "d3 = d2\<lparr>db_bobservers := t, db_dgp := advance_dgp (cp_block cp) b (missed_blocks b d2) (db_dgp d2)\<rparr>"
    using update_global_dynamic_data_Inr [OF d3] .
  then have "db_transactions d = db_transactions d2" by (simp add: dd modify_dgp_def update_signing_bobserver_def modify_bobserver_def Let_def)
  ultimately have "tb_rows (db_transactions d) = []" using apply_transactions_unremembered [OF assms(1,2) d2] assms(4) by simp
  with finish_block_head [OF assms(1) d(2)] show ?thesis
    by (simp add: same_head_def clear_expired_transactions_def drop_while_first.simps)
qed

lemma replay_skips_duplicates: "skips replay_skip skip_transaction_dupe_check"
  by code_simp

lemma replay_unremembered:
  assumes "plugins_keep_head (cp_env cp)"
  shows "replay_log cp [] n bs nd = Done x nd' \<Longrightarrow> tb_rows (db_transactions (nd_db nd)) = [] \<Longrightarrow> tb_rows (db_transactions (nd_db nd')) = []"
proof (induction bs arbitrary: nd)
  case (Cons b bs)
  then obtain y nd1 where nd1: "apply_block cp [] replay_skip b nd = Done y nd1" "nd1 = nd' \<or> replay_log cp [] n bs nd1 = Done x nd'"
    by (auto split: node_result.splits if_splits)
  then have "apply_block_state cp replay_skip b (nd_db nd) = Inr (nd_db nd1)"
    by (auto simp: apply_block_def check_checkpoints_def apply_block_checked_def apply_block_state_def split: sum.splits node_result.splits)
  from unremembering_block [OF assms replay_skips_duplicates this Cons.prems(2)] have "tb_rows (db_transactions (nd_db nd1)) = []" .
  with nd1(2) Cons.IH show ?case by blast
qed simp

text \<open>
  After a replay the node knows none of the transactions in the blocks it has just applied, not even those that have not expired: another node
  still refuses them in the next block, this one does not.
\<close>

lemma reindex_forgets_transactions:
  assumes "cp_env cp = with_plugins pt enabled env" "reindex cp [] key log = Inr nd"
  shows "\<not> is_known_transaction tid nd"
proof -
  have keep: "plugins_keep_head (cp_env cp)" unfolding assms(1) by (rule with_plugins_kept)
  from assms(2) obtain nd1 where nd1: "open_node cp key SIGMAENGINE_INIT_SUPPLY None log = Inr nd1" by (auto simp: reindex_def bindR_Inr_iff)
  have start: "tb_rows (db_transactions (nd_db nd1)) = []"
    using init_genesis_ok [of "env_doubles (cp_env cp)" key SIGMAENGINE_INIT_SUPPLY] fresh_node(1) [OF nd1] by (auto simp: empty_table_def)
  let ?run = "replay_log cp [] (block_num (last log)) log (nd1\<lparr>nd_fork := fork_reset (nd_fork nd1)\<rparr>)"
  obtain nd2 where nd2: "?run = Done () nd2" using assms(2) nd1 by (cases ?run) (auto simp: reindex_def Let_def split: if_splits)
  have "nd_db nd = nd_db nd2" using assms(2) nd1 nd2 by (auto simp: reindex_def Let_def set_node_revision_def split: if_splits)
  with replay_unremembered [OF keep nd2] start show ?thesis by (simp add: is_known_transaction_def table_find_def)
qed

end
