(* ===== verification/Sync.thy ===== *)
theory Sync
  imports Genesis
begin

text \<open>
  What a node answers its peers, from \<^verbatim>\<open>application.cpp\<close> (the delegate of the network layer) and the lookups of \<^verbatim>\<open>database.cpp\<close> it
  calls: blocks and ids by number, the synopsis a node sends to find out where its chain and the chain of a peer part, the list
  of ids the peer replies with, and the handling of blocks and transactions that arrive. The theorems: a node always
  has a short synopsis of its undoable blocks that ends in its head, and the reply to a synopsis starts at a common block at
  most as far below the fork as the head is above it, and leaves out no block.
\<close>

section \<open>Lookups\<close>

definition find_block_id_for_num :: "chain_params \<Rightarrow> 32 word \<Rightarrow> node_state \<Rightarrow> block_id_type result" where
  "find_block_id_for_num cp n nd =
     (if n = 0 then Inr zero_block_id
      else
        let bs = db_summaries (nd_db nd) (ucast (n AND 0xFFFF)) in
        if num_from_id bs = n then Inr bs
        else
          bindR (read_block_by_num (unat n) (nd_log nd)) (\<lambda>b.
          case b of
            Some b \<Rightarrow> Inr (block_id (cp_block cp) b)
          | None \<Rightarrow>
              bindR (fetch_block_on_main_branch_by_number (unat n) (nd_fork nd)) (\<lambda>fitem.
              case fitem of
                Some a \<Rightarrow> Inr (fi_id (item_at (nd_fork nd) a))
              | None \<Rightarrow> Inr zero_block_id)))"

definition get_block_id_for_num :: "chain_params \<Rightarrow> 32 word \<Rightarrow> node_state \<Rightarrow> block_id_type result" where
  "get_block_id_for_num cp n nd =
     bindR (find_block_id_for_num cp n nd) (\<lambda>bid. fc_assert (bid \<noteq> zero_block_id) Unnamed_assertion (Inr bid))"

definition node_knows_block :: "chain_params \<Rightarrow> block_id_type \<Rightarrow> node_state \<Rightarrow> bool result" where
  "node_knows_block cp bid nd = bindR (fetch_block_by_id cp bid nd) (\<lambda>b. Inr (b \<noteq> None))"

definition node_block_by_number :: "nat \<Rightarrow> node_state \<Rightarrow> signed_block option result" where
  "node_block_by_number n nd =
     (let results = fetch_block_by_number n (nd_fork nd) in
      if length results = 1 then Inr (Some (fi_data (item_at (nd_fork nd) (results ! 0))))
      else read_block_by_num n (nd_log nd))"

definition get_recent_transaction :: "transaction_id_type \<Rightarrow> node_state \<Rightarrow> signed_transaction result" where
  "get_recent_transaction tid nd =
     (case table_find (\<lambda>t. txo_trx_id t = tid) (db_transactions (nd_db nd)) of
        None \<Rightarrow> Inl (Assert_exception Unnamed_assertion)
      | Some t \<Rightarrow> Inr (txo_trx t))"

definition get_block_ids_on_fork :: "block_id_type \<Rightarrow> node_state \<Rightarrow> block_id_type list result" where
  "get_block_ids_on_fork head_of_fork nd =
     bindR (fetch_branch_from (head_block_id (nd_db nd)) head_of_fork (nd_fork nd)) (\<lambda>(first, second).
     Inr (map (\<lambda>a. fi_id (item_at (nd_fork nd) a)) second @ [previous_id (item_at (nd_fork nd) (last first))]))"

definition last_non_undoable_block_num :: "node_state \<Rightarrow> 32 word" where
  "last_non_undoable_block_num nd = of_nat (dgp_last_irreversible_block_num (db_dgp (nd_db nd)))"

section \<open>Items\<close>

datatype item_id = Block_item block_id_type | Trx_item transaction_id_type

datatype net_message = Block_message signed_block | Trx_message signed_transaction

definition has_item :: "chain_params \<Rightarrow> bool \<Rightarrow> item_id \<Rightarrow> node_state \<Rightarrow> bool result" where
  "has_item cp running i nd =
     (if \<not> running then Inr True
      else (case i of
              Block_item bid \<Rightarrow> node_knows_block cp bid nd
            | Trx_item tid \<Rightarrow> Inr (is_known_transaction tid nd)))"

definition get_item :: "chain_params \<Rightarrow> item_id \<Rightarrow> node_state \<Rightarrow> net_message result" where
  "get_item cp i nd =
     (case i of
        Block_item bid \<Rightarrow>
          bindR (fetch_block_by_id cp bid nd) (\<lambda>opt_block.
          case opt_block of
            None \<Rightarrow> bindR (get_block_id_for_num cp (num_from_id bid) nd) (\<lambda>_. Inl (Assert_exception Unnamed_assertion))
          | Some b \<Rightarrow> Inr (Block_message b))
      | Trx_item tid \<Rightarrow> bindR (get_recent_transaction tid nd) (\<lambda>trx. Inr (Trx_message trx)))"

definition get_block_time :: "chain_params \<Rightarrow> block_id_type \<Rightarrow> node_state \<Rightarrow> time_point_sec result" where
  "get_block_time cp bid nd =
     bindR (fetch_block_by_id cp bid nd) (\<lambda>opt_block. Inr (case opt_block of Some b \<Rightarrow> timestamp b | None \<Rightarrow> 0))"

text \<open>
  A block that arrives. Nodes that neither produce nor were told to validate everything do not check the signatures of its
  transactions. \<open>now\<close> is the clock of the node in seconds.
\<close>

definition allow_pia_time :: nat where "allow_pia_time = 5"

definition handle_block ::
  "chain_params \<Rightarrow> (nat \<times> block_id_type) list \<Rightarrow> bool \<Rightarrow> bool \<Rightarrow> bool \<Rightarrow> nat \<Rightarrow> signed_block \<Rightarrow> node_state \<Rightarrow> bool node_result" where
  "handle_block cp cks running is_block_producer force_validate now b nd =
     (if running then
        if timestamp b \<le> now + allow_pia_time then
          (case push_block cp cks (if is_block_producer \<or> force_validate then 0 else skip_transaction_signatures) b nd of
             Failed e nd' \<Rightarrow> Failed (if e = Unlinkable_block_exception then Net_unlinkable_block_exception else e) nd'
           | r \<Rightarrow> r)
        else Failed (Assert_exception Unnamed_assertion) nd
      else Done False nd)"

definition handle_transaction :: "chain_params \<Rightarrow> bool \<Rightarrow> signed_transaction \<Rightarrow> node_state \<Rightarrow> unit node_result" where
  "handle_transaction cp running trx nd = (if running then push_transaction cp 0 trx nd else Done () nd)"

text \<open>What arrives from peers goes through the interface of the node, so it keeps what the life of a node keeps.\<close>

lemma handled_is_step:
  "node_of (handle_block cp cks running producer validate now b nd) = Some nd' \<Longrightarrow> nd' = nd \<or> node_step cp cks nd nd'"
  "node_of (handle_transaction cp running trx nd) = Some nd' \<Longrightarrow> nd' = nd \<or> node_step cp cks nd nd'"
proof -
  assume "node_of (handle_block cp cks running producer validate now b nd) = Some nd'"
  moreover define skip where "skip = (if producer \<or> validate then 0 else skip_transaction_signatures)"
  ultimately have "nd' = nd \<or> node_of (push_block cp cks skip b nd) = Some nd'"
    unfolding handle_block_def skip_def [symmetric] by (cases "push_block cp cks skip b nd") (auto split: if_splits)
  then show "nd' = nd \<or> node_step cp cks nd nd'" by (blast intro: node_step.block)
next
  assume "node_of (handle_transaction cp running trx nd) = Some nd'"
  then show "nd' = nd \<or> node_step cp cks nd nd'"
    by (cases running) (auto simp: handle_transaction_def intro!: node_step.transaction [where trx = trx and skip = 0])
qed

section \<open>The reply to a synopsis\<close>

definition is_included_block :: "chain_params \<Rightarrow> block_id_type \<Rightarrow> node_state \<Rightarrow> bool result" where
  "is_included_block cp bid nd = bindR (get_block_id_for_num cp (num_from_id bid) nd) (\<lambda>b. Inr (bid = b))"

definition recognized :: "chain_params \<Rightarrow> node_state \<Rightarrow> block_id_type \<Rightarrow> bool result" where
  "recognized cp nd bid =
     (if bid = zero_block_id then Inr True
      else bindR (node_knows_block cp bid nd) (\<lambda>known. if known then is_included_block cp bid nd else Inr False))"

fun last_known :: "chain_params \<Rightarrow> node_state \<Rightarrow> block_id_type list \<Rightarrow> block_id_type result" where
  "last_known cp nd [] = Inl Peer_is_on_an_unreachable_fork"
| "last_known cp nd (bid # bids) =
     bindR (recognized cp nd bid) (\<lambda>found. if found then Inr bid else last_known cp nd bids)"

text \<open>The loop over the numbers. Number zero adds no id; every other turn adds one, so the limit bounds the loop.\<close>

function collect_ids :: "chain_params \<Rightarrow> node_state \<Rightarrow> nat \<Rightarrow> 32 word \<Rightarrow> block_id_type list \<Rightarrow> block_id_type list result" where
  "collect_ids cp nd limit num acc =
     (if unat num \<le> head_block_num (nd_db nd) \<and> length acc < limit then
        if num > 0 then
          (case get_block_id_for_num cp num nd of
             Inl e \<Rightarrow> Inl e
           | Inr bid \<Rightarrow> collect_ids cp nd limit (num + 1) (acc @ [bid]))
        else collect_ids cp nd limit (num + 1) acc
      else Inr acc)"
  by pat_completeness auto
termination
  by (relation "measure (\<lambda>(cp, nd, limit, num, acc). 2 * (limit - length acc) + (if num = 0 then 1 else 0))") (auto simp: word_gt_0)

declare collect_ids.simps [simp del]

definition get_block_ids :: "chain_params \<Rightarrow> block_id_type list \<Rightarrow> nat \<Rightarrow> node_state \<Rightarrow> (block_id_type list \<times> nat) result" where
  "get_block_ids cp blockchain_synopsis limit nd =
     (let head = head_block_num (nd_db nd) in
      if head = 0 then Inr ([], 0)
      else
        bindR (if blockchain_synopsis = [] \<or> blockchain_synopsis = [zero_block_id] then Inr zero_block_id
               else last_known cp nd (rev blockchain_synopsis)) (\<lambda>last_known_block_id.
        bindR (collect_ids cp nd limit (num_from_id last_known_block_id) []) (\<lambda>result.
        Inr (result, if result \<noteq> [] \<and> unat (num_from_id (last result)) < head then head - unat (num_from_id (last result)) else 0))))"

section \<open>The synopsis\<close>

text \<open>
  The blocks a synopsis is made of: the number it starts from, the last number on the main chain, the last number, and the ids
  after the fork; \<open>None\<close> for an empty chain. The assertions of the source are compiled out.
\<close>

definition synopsis_range ::
  "chain_params \<Rightarrow> block_id_type \<Rightarrow> node_state \<Rightarrow> (32 word \<times> 32 word \<times> 32 word \<times> block_id_type list) option result" where
  "synopsis_range cp reference_point nd =
     (let low_block_num = last_non_undoable_block_num nd in
      if reference_point \<noteq> zero_block_id then
        bindR (is_included_block cp reference_point nd) (\<lambda>included.
        if included then
          let n = num_from_id reference_point in Inr (Some (if n < low_block_num then n else low_block_num, n, n, []))
        else
          bindR (get_block_ids_on_fork reference_point nd) (\<lambda>fork_history.
          let last_non_fork_block = last fork_history;
              fork_history = rev (butlast fork_history);
              non_fork_high = (if last_non_fork_block = zero_block_id then 0 else num_from_id last_non_fork_block)
          in guardR (low_block_num \<le> non_fork_high) Block_older_than_undo_history (
             Inr (Some (low_block_num, non_fork_high, non_fork_high + of_nat (length fork_history), fork_history)))))
      else
        let high = of_nat (head_block_num (nd_db nd)) in
        Inr (if high = 0 then None else Some (low_block_num, high, high, [])))"

definition synopsis_id :: "chain_params \<Rightarrow> 32 word \<Rightarrow> block_id_type list \<Rightarrow> node_state \<Rightarrow> 32 word \<Rightarrow> block_id_type result" where
  "synopsis_id cp non_fork_high fork_history nd n =
     (if n \<le> non_fork_high then get_block_id_for_num cp n nd
      else if unat (n - non_fork_high - 1) < length fork_history then Inr (fork_history ! unat (n - non_fork_high - 1))
      else Inl (Assert_exception Out_of_range))"

text \<open>In 32 bits the step may be zero once the top has wrapped; the loop then does not return, which is \<open>None\<close>.\<close>

partial_function (option) synopsis_loop ::
  "(32 word \<Rightarrow> block_id_type result) \<Rightarrow> 32 word \<Rightarrow> 32 word \<Rightarrow> 32 word \<Rightarrow> block_id_type list \<Rightarrow> block_id_type list result option" where
  "synopsis_loop id_of true_high high low synopsis =
     (case id_of low of
        Inl e \<Rightarrow> Some (Inl e)
      | Inr bid \<Rightarrow>
          if low + (true_high - low + 2) div 2 \<le> high
          then synopsis_loop id_of true_high high (low + (true_high - low + 2) div 2) (synopsis @ [bid])
          else Some (Inr (synopsis @ [bid])))"

definition get_blockchain_synopsis ::
  "chain_params \<Rightarrow> block_id_type \<Rightarrow> 32 word \<Rightarrow> node_state \<Rightarrow> block_id_type list result option" where
  "get_blockchain_synopsis cp reference_point number_of_blocks_after_reference_point nd =
     (case synopsis_range cp reference_point nd of
        Inl e \<Rightarrow> Some (Inl e)
      | Inr None \<Rightarrow> Some (Inr [])
      | Inr (Some (low, non_fork_high, high, fork_history)) \<Rightarrow>
          synopsis_loop (synopsis_id cp non_fork_high fork_history nd) (high + number_of_blocks_after_reference_point) high
            (if low = 0 then 1 else low) [])"

section \<open>The numbers in a synopsis\<close>

function synopsis_numbers :: "nat \<Rightarrow> nat \<Rightarrow> nat \<Rightarrow> nat list" where
  "synopsis_numbers peak high low =
     low # (if low + (peak - low + 2) div 2 \<le> high then synopsis_numbers peak high (low + (peak - low + 2) div 2) else [])"
  by pat_completeness auto
termination by (relation "measure (\<lambda>(peak, high, low). Suc high - low)") auto

declare synopsis_numbers.simps [simp del]

lemma synopsis_numbers_first: "hd (synopsis_numbers peak high low) = low" "synopsis_numbers peak high low \<noteq> []"
  by (simp_all add: synopsis_numbers.simps [of peak high low])

lemma synopsis_numbers_increase:
  "sorted_wrt (<) (synopsis_numbers peak high low)
   \<and> (low \<le> high \<longrightarrow> set (synopsis_numbers peak high low) \<subseteq> {low..high})"
proof (induction peak high low rule: synopsis_numbers.induct)
  case (1 peak high low)
  let ?n = "low + (peak - low + 2) div 2"
  show ?case
  proof (cases "?n \<le> high")
    case True
    with 1 have "sorted_wrt (<) (synopsis_numbers peak high ?n)" "set (synopsis_numbers peak high ?n) \<subseteq> {?n..high}" by auto
    with True show ?thesis by (auto simp: synopsis_numbers.simps [of peak high low])
  qed (simp add: synopsis_numbers.simps [of peak high low])
qed

lemma synopsis_numbers_last: "peak = high \<Longrightarrow> low \<le> high \<Longrightarrow> last (synopsis_numbers peak high low) = high"
proof (induction peak high low rule: synopsis_numbers.induct)
  case (1 peak high low)
  show ?case
  proof (cases "low + (peak - low + 2) div 2 \<le> high")
    case True
    with 1 show ?thesis by (simp add: synopsis_numbers.simps [of high high low] synopsis_numbers_first)
  next
    case False
    with 1(2,3) have "low = high" by linarith
    with False 1(2) show ?thesis by (simp add: synopsis_numbers.simps [of high high high])
  qed
qed

text \<open>The numbers get denser towards the highest: below any number there is one at most as far away as the highest is.\<close>

lemma synopsis_numbers_dense:
  "low \<le> k \<Longrightarrow> k \<le> high \<Longrightarrow> high \<le> peak \<Longrightarrow>
     \<exists>m \<in> set (synopsis_numbers peak high low). m \<le> k \<and> k - m \<le> peak - k \<and> (\<forall>x \<in> set (synopsis_numbers peak high low). x \<le> m \<or> k < x)"
proof (induction peak high low rule: synopsis_numbers.induct)
  case (1 peak high low)
  let ?n = "low + (peak - low + 2) div 2"
  show ?case
  proof (cases "?n \<le> k")
    case True
    with 1 obtain m where "m \<in> set (synopsis_numbers peak high ?n)" "m \<le> k" "k - m \<le> peak - k"
      "\<forall>x \<in> set (synopsis_numbers peak high ?n). x \<le> m \<or> k < x" by auto
    moreover have "?n \<le> m" using synopsis_numbers_increase [of peak high ?n] calculation(1) True 1(3) by fastforce
    ultimately show ?thesis using True 1(3)
      by (intro bexI [of _ m]) (auto simp: synopsis_numbers.simps [of peak high low])
  next
    case False
    have "x \<le> low \<or> k < x" if "x \<in> set (synopsis_numbers peak high low)" for x
      using that False synopsis_numbers_increase [of peak high ?n] by (fastforce simp: synopsis_numbers.simps [of peak high low] split: if_splits)
    moreover have "k - low \<le> peak - k" using False 1(2-4) by linarith
    ultimately show ?thesis using 1(2) by (intro bexI [of _ low]) (auto simp: synopsis_numbers.simps [of peak high low])
  qed
qed

lemma synopsis_numbers_few: "low \<le> high \<Longrightarrow> high \<le> peak \<Longrightarrow> 2 ^ (length (synopsis_numbers peak high low) - 1) \<le> peak - low + 1"
proof (induction peak high low rule: synopsis_numbers.induct)
  case (1 peak high low)
  let ?n = "low + (peak - low + 2) div 2"
  show ?case
  proof (cases "?n \<le> high")
    case True
    with 1 have IH: "2 ^ (length (synopsis_numbers peak high ?n) - 1) \<le> peak - ?n + 1" by simp
    have "length (synopsis_numbers peak high ?n) = Suc (length (synopsis_numbers peak high ?n) - 1)"
      using synopsis_numbers_first(2) [of peak high ?n] by (metis Suc_pred' diff_Suc_1 length_greater_0_conv)
    then have "(2 :: nat) ^ (length (synopsis_numbers peak high low) - 1) = 2 * 2 ^ (length (synopsis_numbers peak high ?n) - 1)"
      using True by (simp add: synopsis_numbers.simps [of peak high low]) (metis power_Suc)
    with IH True 1(3) show ?thesis by linarith
  qed (simp add: synopsis_numbers.simps [of peak high low])
qed

text \<open>The example in the comment of the source: of the blocks a to z, the synopsis names a, n, u, x and z.\<close>

lemma synopsis_example: "synopsis_numbers 26 26 1 = [1, 14, 21, 24, 26]"
  by (simp add: synopsis_numbers.simps)

lemma of_nat_div_2: "m < 2 ^ 32 \<Longrightarrow> (of_nat m :: 32 word) div 2 = of_nat (m div 2)"
  by (simp add: word_unat_eq_iff unat_div unat_of_nat take_bit_nat_eq_self)

lemma synopsis_step_word:
  assumes "0 < low" "low \<le> peak" "peak < 2 ^ 32 - 1"
  shows "(of_nat low :: 32 word) + (of_nat peak - of_nat low + 2) div 2 = of_nat (low + (peak - low + 2) div 2)"
proof -
  have "(of_nat peak - of_nat low + 2 :: 32 word) = of_nat (peak - low + 2)" using assms(2) by (simp add: of_nat_diff)
  moreover have "(of_nat (peak - low + 2) :: 32 word) div 2 = of_nat ((peak - low + 2) div 2)"
    by (rule of_nat_div_2) (use assms in linarith)
  ultimately show ?thesis by (simp only: of_nat_add [of low])
qed

lemma of_nat_word_le: "a < 2 ^ 32 \<Longrightarrow> b < 2 ^ 32 \<Longrightarrow> (of_nat a :: 32 word) \<le> of_nat b \<longleftrightarrow> a \<le> b"
  by (simp add: word_le_nat_alt unat_of_nat take_bit_nat_eq_self)

text \<open>The loop in 32 bits follows the numbers as long as nothing wraps.\<close>

lemma synopsis_loop_numbers:
  "0 < low \<Longrightarrow> low \<le> high \<Longrightarrow> high \<le> peak \<Longrightarrow> peak < 2 ^ 32 - 1 \<Longrightarrow>
     (\<And>n. n \<in> set (synopsis_numbers peak high low) \<Longrightarrow> id_of (of_nat n) = Inr (f n)) \<Longrightarrow>
     synopsis_loop id_of (of_nat peak) (of_nat high) (of_nat low) acc = Some (Inr (acc @ map f (synopsis_numbers peak high low)))"
proof (induction peak high low arbitrary: acc rule: synopsis_numbers.induct)
  case (1 peak high low)
  define n where "n = low + (peak - low + 2) div 2"
  have numbers: "synopsis_numbers peak high low = low # (if n \<le> high then synopsis_numbers peak high n else [])"
    by (simp add: synopsis_numbers.simps [of peak high low] n_def)
  have low: "id_of (of_nat low) = Inr (f low)" by (rule 1(6)) (simp add: numbers)
  have step: "(of_nat low :: 32 word) + (of_nat peak - of_nat low + 2) div 2 = of_nat n"
    unfolding n_def by (rule synopsis_step_word) (use 1(2-5) in auto)
  have "n < 2 ^ 32" using 1(3-5) unfolding n_def by linarith
  with 1(4,5) have le: "(of_nat n :: 32 word) \<le> of_nat high \<longleftrightarrow> n \<le> high" by (intro of_nat_word_le) auto
  show ?case
  proof (cases "n \<le> high")
    case True
    have "synopsis_loop id_of (of_nat peak) (of_nat high) (of_nat n) (acc @ [f low])
        = Some (Inr ((acc @ [f low]) @ map f (synopsis_numbers peak high n)))"
      using 1(1) [folded n_def, OF True _ True 1(4,5)] 1(2,6) True unfolding numbers by (simp add: n_def)
    with True show ?thesis by (subst synopsis_loop.simps) (simp add: low step le numbers)
  next
    case False
    then show ?thesis by (subst synopsis_loop.simps) (simp add: low step le numbers)
  qed
qed

section \<open>The summaries of recent blocks\<close>

lemma apply_transactions_summaries:
  assumes keep: "plugins_keep_head (cp_env cp)"
  shows "foldR (\<lambda>db trx. apply_transaction cp skip trx db) db trxs = Inr db' \<Longrightarrow> db_summaries db' = db_summaries db"
proof (induction trxs arbitrary: db)
  case (Cons trx trxs)
  then obtain d where d: "apply_transaction cp skip trx db = Inr d" "db_summaries db' = db_summaries d" by (auto simp: bindR_Inr_iff)
  then obtain d0 where d0: "remember_transaction cp skip trx db = Inr d0" "apply_operations cp (operations trx) d0 = Inr d"
    by (auto simp: apply_transaction_def Let_def bindR_Inr_iff fc_assert_Inr_iff)
  then have "db_summaries d0 = db_summaries db" by (auto simp: remember_transaction_def bindR_Inr_iff split: if_splits)
  with apply_operations_head [OF keep d0(2)] d(2) show ?case by (simp add: same_head_def)
qed simp

lemma begin_block_summaries:
  assumes "plugins_keep_head (cp_env cp)" "begin_block cp skip b db = Inr db'"
  shows "db_summaries db' = db_summaries db"
proof -
  from assms(2) obtain signing d1 d2 d3 n where
    d1: "process_header_extensions b (modify_dgp (\<lambda>dgp. dgp\<lparr>dgp_current_bobserver := bobserver b\<rparr>) db) = Inr d1"
    and d2: "foldR (\<lambda>db trx. apply_transaction cp skip trx db) d1 (transactions b) = Inr d2"
    and d3: "update_global_dynamic_data (cp_block cp) skip b d2 = Inr d3"
    and db': "db' = modify_dgp (\<lambda>p. p\<lparr>dgp_last_irreversible_block_num := n\<rparr>) (update_signing_bobserver signing b d3)"
    by (rule begin_blockE)
  have "db_summaries d1 = db_summaries db" using process_header_extensions_frame [OF d1] by (auto simp: modify_dgp_def)
  moreover obtain t where "d3 = d2\<lparr>db_bobservers := t, db_dgp := advance_dgp (cp_block cp) b (missed_blocks b d2) (db_dgp d2)\<rparr>"
    using update_global_dynamic_data_Inr [OF d3] .
  then have "db_summaries db' = db_summaries d2"
    by (simp add: db' modify_dgp_def update_signing_bobserver_def modify_bobserver_def Let_def)
  ultimately show ?thesis using apply_transactions_summaries [OF assms(1) d2] by simp
qed

definition summaries_ok :: "chain_db \<Rightarrow> bool" where
  "summaries_ok db \<longleftrightarrow> head_block_num db = unat (num_from_id (head_block_id db))
     \<and> (0 < head_block_num db \<longrightarrow> db_summaries db (of_nat (head_block_num db)) = head_block_id db)
     \<and> (\<forall>n. 0 < n \<longrightarrow> n \<le> head_block_num db \<longrightarrow> head_block_num db < n + 65536 \<longrightarrow> unat (num_from_id (db_summaries db (of_nat n))) = n)"

lemma summary_slot: "(ucast ((n :: 32 word) AND 0xFFFF) :: 16 word) = of_nat (unat n)"
proof -
  have "(0xFFFF :: 32 word) = mask 16" by (simp add: mask_eq_exp_minus_1)
  then have "n AND 0xFFFF = take_bit 16 n" by (simp add: take_bit_eq_mask)
  moreover have "(ucast (take_bit 16 n) :: 16 word) = ucast n" by (rule bit_word_eqI) (simp add: bit_simps)
  ultimately show ?thesis by simp
qed

lemma summary_slots_differ: "n \<le> h \<Longrightarrow> h + 1 < n + 65536 \<Longrightarrow> (of_nat n :: 16 word) \<noteq> of_nat (h + 1)"
proof
  assume n: "n \<le> h" "h + 1 < n + 65536" and "(of_nat n :: 16 word) = of_nat (h + 1)"
  then have "(h + 1) mod 65536 = n mod 65536" by (simp add: word_of_nat_eq_iff take_bit_eq_mod del: of_nat_Suc of_nat_add)
  with n have "65536 dvd h + 1 - n" by (subst (asm) mod_eq_dvd_iff_nat) simp_all
  with n show False by (auto dest: dvd_imp_le)
qed

lemma apply_block_summaries:
  assumes "plugins_keep_head (cp_env cp)" "hash_total (cp_block cp)" "summaries_ok db" "apply_block_state cp skip b db = Inr db'"
  shows "summaries_ok db'"
proof -
  from assms(4) obtain d where d: "begin_block cp skip b db = Inr d" "finish_block cp b d = Inr db'"
    by (auto simp: apply_block_state_def bindR_Inr_iff)
  note head = begin_block_head [OF d(1)]
  from finish_block_head [OF assms(1) d(2)] have fin: "head_block_num db' = head_block_num d" "head_block_id db' = head_block_id d"
    "db_summaries db' = (db_summaries db)(of_nat (unat (block_num b)) := block_id (cp_block cp) b)"
    using begin_block_summaries [OF assms(1) d(1)]
    by (simp_all add: same_head_def clear_expired_head) (simp add: create_block_summary_def summary_slot)
  have num: "head_block_num db' = unat (block_num b)" "head_block_id db' = block_id (cp_block cp) b" using head fin by simp_all
  have "block_num b = of_nat (head_block_num db) + 1" using head(4) assms(3) by (simp add: block_num_def summaries_ok_def)
  then have succ: "unat (block_num b) = head_block_num db + 1" if "0 < unat (block_num b)"
    using that assms(3) by (simp add: summaries_ok_def unat_gt_0) (metis add.commute unatSuc)
  have "unat (num_from_id (db_summaries db' (of_nat n))) = n"
    if n: "0 < n" "n \<le> head_block_num db'" "head_block_num db' < n + 65536" for n
  proof (cases "n = head_block_num db'")
    case True
    then show ?thesis by (simp add: fin(3) num block_id_num [OF assms(2)])
  next
    case False
    with n num(1) succ have le: "n \<le> head_block_num db" "head_block_num db + 1 < n + 65536" by auto
    with summary_slots_differ [OF le] succ n num(1) have "db_summaries db' (of_nat n) = db_summaries db (of_nat n)" by (simp add: fin(3))
    with assms(3) le n(1) show ?thesis by (simp add: summaries_ok_def)
  qed
  then show ?thesis by (simp add: summaries_ok_def) (simp add: fin(3) num block_id_num [OF assms(2)])
qed

lemma apply_transaction_summaries:
  assumes "plugins_keep_head (cp_env cp)" "summaries_ok db" "apply_transaction cp skip trx db = Inr db'"
  shows "summaries_ok db'"
proof -
  from assms(3) obtain d where d: "remember_transaction cp skip trx db = Inr d" "apply_operations cp (operations trx) d = Inr db'"
    by (auto simp: apply_transaction_def Let_def bindR_Inr_iff fc_assert_Inr_iff)
  then obtain t where "d = db\<lparr>db_transactions := t\<rparr>"
    by (cases "skips skip skip_transaction_dupe_check") (auto simp: remember_transaction_def bindR_Inr_iff intro: that [of "db_transactions db"])
  with apply_operations_head [OF assms(1) d(2)] have eq: "head_block_num db' = head_block_num db" "head_block_id db' = head_block_id db"
    "db_summaries db' = db_summaries db" by (simp_all add: head_defs)
  show ?thesis using assms(2) unfolding summaries_ok_def eq .
qed

text \<open>Over the whole life of a node the summaries hold the ids of the last blocks.\<close>

definition chain_summaries :: "chain_params \<Rightarrow> chain_db \<Rightarrow> bool" where
  "chain_summaries cp db \<longleftrightarrow> (plugins_keep_head (cp_env cp) \<and> hash_total (cp_block cp) \<longrightarrow> summaries_ok db)"

lemma genesis_summaries:
  assumes "init_genesis dbl key s = Inr db"
  shows "summaries_ok db"
proof -
  have "head_block_num db = 0" "head_block_id db = replicate 5 0"
    using assms by (auto simp: init_genesis_def genesis_properties_def head_block_num_def head_block_id_def Let_def result_simps)
  then show ?thesis by (simp add: summaries_ok_def num_from_id_def endian_reverse_u32_def)
qed

interpretation summaries_life: node_lifetime cp "\<lambda>_ _. True" "chain_summaries cp" cks key for cp cks key
proof unfold_locales
  show "chain_summaries cp db" if "init_genesis (env_doubles (cp_env cp)) key SIGMAENGINE_INIT_SUPPLY = Inr db" for db
    using genesis_summaries [OF that] by (simp add: chain_summaries_def)
  show "True \<and> chain_summaries cp db" if "chain_summaries cp old" "apply_block_state cp skip b old = Inr db" for old skip b db
    using that apply_block_summaries by (auto simp: chain_summaries_def)
  show "chain_summaries cp db" if "cp' = cp \<or> cp' = producing cp" "chain_summaries cp old" "apply_transaction cp' skip trx old = Inr db"
    for cp' old skip trx db
    using that apply_transaction_summaries [of cp' old skip trx db] producing_plugins(2) [of cp' cp] by (auto simp: chain_summaries_def)
qed

lemma life_summaries:
  assumes "node_life cp cks key nd" "cp_env cp = with_plugins pt enabled env" "hash_total (cp_block cp)"
  shows "summaries_ok (nd_db nd)"
proof -
  have "plugins_keep_head (cp_env cp)" unfolding assms(2) by (rule with_plugins_kept)
  with summaries_life.settled_good [OF summaries_life.life_settled [OF assms(1)]] assms(3) show ?thesis by (simp add: chain_summaries_def)
qed

lemma zero_id_num: "num_from_id zero_block_id = 0"
  by (simp add: zero_block_id_def num_from_id_def endian_reverse_u32_def)

lemma recent_id:
  assumes "summaries_ok (nd_db nd)" "0 < n" "n \<le> head_block_num (nd_db nd)" "head_block_num (nd_db nd) < n + 65536"
  shows "get_block_id_for_num cp (of_nat n) nd = Inr (db_summaries (nd_db nd) (of_nat n))"
    "unat (num_from_id (db_summaries (nd_db nd) (of_nat n))) = n"
proof -
  let ?id = "db_summaries (nd_db nd) (of_nat n)"
  show num: "unat (num_from_id ?id) = n" using assms by (simp add: summaries_ok_def)
  have id: "num_from_id ?id = of_nat n" using arg_cong [OF num, of "of_nat :: nat \<Rightarrow> 32 word"] by simp
  have n: "(of_nat n :: 32 word) \<noteq> 0" "unat (of_nat n :: 32 word) = n" using num assms(2) id by auto
  have "?id \<noteq> zero_block_id" using n(1) id zero_id_num by force
  with id n show "get_block_id_for_num cp (of_nat n) nd = Inr ?id"
    by (simp add: get_block_id_for_num_def find_block_id_for_num_def summary_slot Let_def)
qed

text \<open>The synopsis of the whole chain, given the ids of its undoable blocks.\<close>

definition first_undoable :: "node_state \<Rightarrow> nat" where
  "first_undoable nd = max 1 (dgp_last_irreversible_block_num (db_dgp (nd_db nd)))"

lemma synopsis_of_chain:
  assumes "0 < head_block_num (nd_db nd)" "dgp_last_irreversible_block_num (db_dgp (nd_db nd)) \<le> head_block_num (nd_db nd)"
    and "head_block_num (nd_db nd) < 2 ^ 32 - 1"
    and ids: "\<And>n. first_undoable nd \<le> n \<Longrightarrow> n \<le> head_block_num (nd_db nd) \<Longrightarrow> get_block_id_for_num cp (of_nat n) nd = Inr (f n)"
  shows "get_blockchain_synopsis cp zero_block_id 0 nd
    = Some (Inr (map f (synopsis_numbers (head_block_num (nd_db nd)) (head_block_num (nd_db nd)) (first_undoable nd))))"
proof -
  define h where "h = head_block_num (nd_db nd)"
  define irr where "irr = dgp_last_irreversible_block_num (db_dgp (nd_db nd))"
  define low where "low = first_undoable nd"
  have low: "0 < low" "low \<le> h" "h < 2 ^ 32 - 1" "irr \<le> h" "low = max 1 irr"
    using assms(1-3) by (auto simp: h_def low_def irr_def first_undoable_def)
  let ?ns = "synopsis_numbers h h low"
  have word: "unat (of_nat n :: 32 word) = n" if "n \<le> h" for n using that low(3) by (simp add: unat_of_nat take_bit_nat_eq_self)
  have nz: "(of_nat n :: 32 word) = 0 \<longleftrightarrow> n = 0" if "n \<le> h" for n
    using arg_cong [of "of_nat n :: 32 word" 0 unat] word [OF that] by auto
  have "(if (of_nat irr :: 32 word) = 0 then 1 else of_nat irr) = (of_nat low :: 32 word)"
    unfolding low(5) nz [OF low(4)] by (simp add: max_def)
  moreover have "synopsis_range cp zero_block_id nd = Inr (Some (of_nat irr, of_nat h, of_nat h, []))"
    using low nz by (simp add: synopsis_range_def last_non_undoable_block_num_def Let_def flip: h_def irr_def)
  ultimately have "get_blockchain_synopsis cp zero_block_id 0 nd = synopsis_loop (synopsis_id cp (of_nat h) [] nd) (of_nat h) (of_nat h) (of_nat low) []"
    by (simp add: get_blockchain_synopsis_def)
  also have "\<dots> = Some (Inr ([] @ map f ?ns))"
  proof (rule synopsis_loop_numbers [OF low(1,2) order_refl low(3)])
    fix n assume "n \<in> set ?ns"
    with synopsis_numbers_increase [of h h low] low(2) have n: "low \<le> n" "n \<le> h" by auto
    then have "(of_nat n :: 32 word) \<le> of_nat h" by (simp add: word_le_nat_alt word)
    with ids n show "synopsis_id cp (of_nat h) [] nd (of_nat n) = Inr (f n)" by (simp add: synopsis_id_def h_def low_def)
  qed
  finally show ?thesis by (simp add: h_def low_def)
qed

text \<open>
  C39: A node can always tell its peers what it has. In every state of the life of a node, if at most \<open>2 ^ 16\<close> of its blocks can be undone, the synopsis
  of its chain exists, although the loop that builds it counts in 32 bits: it starts with the last irreversible block (or the first block), the numbers of its blocks
  increase, it ends with the head, and its length is logarithmic, at most 17 blocks for these numbers.
\<close>

theorem synopsis_covers_chain:
  assumes "node_life cp cks key nd" "cp_env cp = with_plugins pt enabled env" "hash_total (cp_block cp)"
    and "0 < head_block_num (nd_db nd)" "dgp_last_irreversible_block_num (db_dgp (nd_db nd)) \<le> head_block_num (nd_db nd)"
    and "head_block_num (nd_db nd) < dgp_last_irreversible_block_num (db_dgp (nd_db nd)) + 65536" "head_block_num (nd_db nd) < 2 ^ 32 - 1"
  shows "\<exists>synopsis. get_blockchain_synopsis cp zero_block_id 0 nd = Some (Inr synopsis) \<and> synopsis \<noteq> []
    \<and> unat (num_from_id (hd synopsis)) = first_undoable nd
    \<and> last synopsis = head_block_id (nd_db nd)
    \<and> sorted_wrt (<) (map (\<lambda>bid. unat (num_from_id bid)) synopsis)
    \<and> 2 ^ (length synopsis - 1) \<le> head_block_num (nd_db nd) - first_undoable nd + 1"
proof -
  note ok = life_summaries [OF assms(1-3)]
  define h where "h = head_block_num (nd_db nd)"
  define low where "low = first_undoable nd"
  let ?ns = "synopsis_numbers h h low" and ?f = "\<lambda>n. db_summaries (nd_db nd) (of_nat n)"
  have low: "0 < low" "low \<le> h" "h < low + 65536" using assms(4-6) by (auto simp: h_def low_def first_undoable_def)
  note inc = synopsis_numbers_increase [of h h low]
  have ids: "get_block_id_for_num cp (of_nat n) nd = Inr (?f n)" "unat (num_from_id (?f n)) = n" if "low \<le> n" "n \<le> h" for n
    using recent_id [OF ok, of n] low that unfolding h_def by auto
  have "get_blockchain_synopsis cp zero_block_id 0 nd = Some (Inr (map ?f ?ns))"
    unfolding h_def low_def by (rule synopsis_of_chain [OF assms(4,5,7)]) (use ids in \<open>simp add: h_def low_def\<close>)
  moreover have "map (\<lambda>bid. unat (num_from_id bid)) (map ?f ?ns) = ?ns" using ids(2) inc low(2) by (auto intro!: map_idI simp: subset_iff)
  moreover have "?f h = head_block_id (nd_db nd)" using ok low(1,2) unfolding summaries_ok_def h_def by auto
  then have "last (map ?f ?ns) = head_block_id (nd_db nd)"
    using synopsis_numbers_last [OF refl low(2)] by (simp add: last_map synopsis_numbers_first)
  moreover have "unat (num_from_id (hd (map ?f ?ns))) = low" using ids(2) [of low] low(2) by (simp add: hd_map synopsis_numbers_first)
  ultimately show ?thesis
    using inc synopsis_numbers_few [OF low(2) order_refl] unfolding h_def [symmetric] low_def [symmetric]
    by (intro exI [of _ "map ?f ?ns"]) (simp add: synopsis_numbers_first)
qed

section \<open>Finding the fork\<close>

definition main_id :: "chain_params \<Rightarrow> node_state \<Rightarrow> nat \<Rightarrow> block_id_type result" where
  "main_id cp nd n = get_block_id_for_num cp (of_nat n) nd"

text \<open>A node that serves its chain: it finds the id of every block up to its head, and the block of that id.\<close>

definition serves :: "chain_params \<Rightarrow> node_state \<Rightarrow> bool" where
  "serves cp nd \<longleftrightarrow> head_block_num (nd_db nd) < 2 ^ 32 - 1 \<and>
     list_all (\<lambda>n. case main_id cp nd n of Inl e \<Rightarrow> False
       | Inr bid \<Rightarrow> num_from_id bid = of_nat n \<and> node_knows_block cp bid nd = Inr True) [1..<Suc (head_block_num (nd_db nd))]"

definition served_id :: "chain_params \<Rightarrow> node_state \<Rightarrow> nat \<Rightarrow> block_id_type" where
  "served_id cp nd n = (case main_id cp nd n of Inl e \<Rightarrow> zero_block_id | Inr bid \<Rightarrow> bid)"

lemma served_block:
  assumes "serves cp nd" "0 < n" "n \<le> head_block_num (nd_db nd)"
  shows "main_id cp nd n = Inr (served_id cp nd n)" "num_from_id (served_id cp nd n) = of_nat n" "unat (num_from_id (served_id cp nd n)) = n"
    "recognized cp nd (served_id cp nd n) = Inr True"
proof -
  have small: "unat (of_nat n :: 32 word) = n" using assms by (simp add: serves_def unat_of_nat take_bit_nat_eq_self)
  have "n \<in> set [1..<Suc (head_block_num (nd_db nd))]" using assms(2,3) by (simp del: upt_Suc)
  with assms(1) obtain bid where bid: "main_id cp nd n = Inr bid" "num_from_id bid = of_nat n" "node_knows_block cp bid nd = Inr True"
    unfolding serves_def list_all_iff by (cases "main_id cp nd n") (force simp del: upt_Suc)+
  then have "recognized cp nd bid = Inr True" by (simp add: recognized_def is_included_block_def main_id_def)
  with bid small show "main_id cp nd n = Inr (served_id cp nd n)" "num_from_id (served_id cp nd n) = of_nat n"
    "unat (num_from_id (served_id cp nd n)) = n" "recognized cp nd (served_id cp nd n) = Inr True" by (simp_all add: served_id_def)
qed

lemma last_known_skips:
  "(\<And>x. x \<in> set xs \<Longrightarrow> recognized cp nd x = Inr False) \<Longrightarrow> recognized cp nd y = Inr True \<Longrightarrow> last_known cp nd (xs @ y # ys) = Inr y"
  by (induction xs) auto

lemma collect_ids_run:
  assumes "head_block_num (nd_db nd) < 2 ^ 32 - 1"
    and ids: "\<And>i. 0 < i \<Longrightarrow> i \<le> head_block_num (nd_db nd) \<Longrightarrow> main_id cp nd i = Inr (g i)"
  shows "0 < n \<Longrightarrow> n \<le> head_block_num (nd_db nd) + 1 \<Longrightarrow> collect_ids cp nd (length acc + r) (of_nat n) acc
     = Inr (acc @ map g [n..<n + min r (head_block_num (nd_db nd) + 1 - n)])"
proof (induction r arbitrary: n acc)
  case 0
  then show ?case by (simp add: collect_ids.simps)
next
  case (Suc r)
  let ?h = "head_block_num (nd_db nd)"
  have n: "unat (of_nat n :: 32 word) = n" using Suc.prems assms(1) by (simp add: unat_of_nat take_bit_nat_eq_self)
  then have pos: "(0 :: 32 word) < of_nat n" using Suc.prems(1) by (simp add: word_less_nat_alt)
  show ?case
  proof (cases "n \<le> ?h")
    case True
    define e where "e = Suc n + min r (?h + 1 - Suc n)"
    have e: "n + min (Suc r) (?h + 1 - n) = e" "n < e" using True by (simp_all add: e_def)
    have "collect_ids cp nd (length (acc @ [g n]) + r) (of_nat (Suc n)) (acc @ [g n]) = Inr ((acc @ [g n]) @ map g [Suc n..<e])"
      unfolding e_def by (rule Suc.IH) (use True in auto)
    then show ?thesis using True n pos ids [OF Suc.prems(1) True] unfolding e(1) upt_conv_Cons [OF e(2)]
      by (subst collect_ids.simps) (simp add: main_id_def add.commute)
  next
    case False
    with Suc.prems n show ?thesis by (subst collect_ids.simps) simp
  qed
qed

lemma split_at_member:
  assumes "sorted_wrt (<) ns" "m \<in> set ns" "\<And>x. x \<in> set ns \<Longrightarrow> x \<le> m \<or> (k :: nat) < x"
  obtains as bs where "ns = as @ m # bs" "\<And>x. x \<in> set bs \<Longrightarrow> k < x"
proof -
  from assms(2) obtain as bs where ns: "ns = as @ m # bs" by (auto dest: split_list)
  have "k < x" if "x \<in> set bs" for x
  proof -
    have "m < x" using assms(1) that by (simp add: ns sorted_wrt_append)
    with assms(3) [of x] that show ?thesis by (auto simp: ns)
  qed
  with ns that show ?thesis by blast
qed

text \<open>The reply of a peer to a synopsis whose last block it recognizes has number \<open>m\<close>.\<close>

lemma reply_from:
  assumes "serves cp nd" "0 < m" "m \<le> head_block_num (nd_db nd)" "main_id cp nd m = Inr bid" "0 < limit"
    and "synopsis = xs @ bid # ys" "\<And>y. y \<in> set ys \<Longrightarrow> recognized cp nd y = Inr False"
  obtains ids where "get_block_ids cp synopsis limit nd = Inr (ids, head_block_num (nd_db nd) - (m + length ids - 1))"
    "length ids = min limit (head_block_num (nd_db nd) - m + 1)" "\<And>i. i < length ids \<Longrightarrow> main_id cp nd (m + i) = Inr (ids ! i)"
proof -
  let ?h = "head_block_num (nd_db nd)"
  let ?g = "served_id cp nd"
  note g = served_block [OF assms(1)]
  have bid: "bid = ?g m" using g(1) [OF assms(2,3)] assms(4) by simp
  then have "recognized cp nd bid = Inr True" and num: "unat (num_from_id bid) = m" "num_from_id bid = of_nat m" using g [OF assms(2,3)] by simp_all
  then have known: "last_known cp nd (rev synopsis) = Inr bid" using last_known_skips [of "rev ys" cp nd bid "rev xs"] assms(6,7) by simp
  have "bid \<noteq> zero_block_id" using num(1) assms(2) zero_id_num by auto
  then have synopsis: "\<not> (synopsis = [] \<or> synopsis = [zero_block_id])" using assms(6) by (cases xs) auto
  define e where "e = m + min limit (?h + 1 - m)"
  have "?h < 2 ^ 32 - 1" using assms(1) by (simp add: serves_def)
  from collect_ids_run [of nd cp ?g m "[]" limit, OF this g(1)] assms(2,3)
  have run: "collect_ids cp nd limit (num_from_id bid) [] = Inr (map ?g [m..<e])" by (simp add: e_def num(2))
  have e: "m < e" "e \<le> ?h + 1" using assms(3,5) by (auto simp: e_def)
  have last: "last (map ?g [m..<e]) = ?g (e - 1)" using e by (simp add: last_map)
  have "unat (num_from_id (?g (e - 1))) = e - 1" using g(3) [of "e - 1"] e assms(2) by auto
  then have "get_block_ids cp synopsis limit nd = Inr (map ?g [m..<e], ?h - (e - 1))"
    using assms(2,3) e synopsis known run last by (simp add: get_block_ids_def Let_def)
  moreover have "main_id cp nd (m + i) = Inr (map ?g [m..<e] ! i)" if "i < e - m" for i using g(1) [of "m + i"] that e assms(2) by auto
  ultimately show ?thesis using e assms(3,5) by (intro that [of "map ?g [m..<e]"]) (auto simp: e_def)
qed

text \<open>
  C40: Two nodes find out where their chains part. Both serve their chains, which agree up to block \<open>k\<close>, not below what the first node can undo, and the second node
  has none of the later blocks of the first on its chain. Then the reply of the second node to the synopsis of the first starts with a common block at most as far
  below the fork as the head of the first node is above it, goes on with consecutive blocks of the second node up to the limit, and
  reports exactly how many are left.
\<close>

theorem sync_resumes_at_fork:
  assumes serve: "serves cp a" "serves cp b" and "0 < limit"
    and k: "first_undoable a \<le> k" "k \<le> head_block_num (nd_db a)" "k \<le> head_block_num (nd_db b)"
    and same: "\<And>n. 0 < n \<Longrightarrow> n \<le> k \<Longrightarrow> main_id cp b n = main_id cp a n"
    and other: "\<And>n bid. k < n \<Longrightarrow> n \<le> head_block_num (nd_db a) \<Longrightarrow> main_id cp a n = Inr bid \<Longrightarrow> recognized cp b bid = Inr False"
  shows "\<exists>synopsis m ids. get_blockchain_synopsis cp zero_block_id 0 a = Some (Inr synopsis)
    \<and> 0 < m \<and> m \<le> k \<and> k - m \<le> head_block_num (nd_db a) - k
    \<and> get_block_ids cp synopsis limit b = Inr (ids, head_block_num (nd_db b) - (m + length ids - 1))
    \<and> length ids = min limit (head_block_num (nd_db b) - m + 1)
    \<and> (\<forall>i < length ids. main_id cp b (m + i) = Inr (ids ! i))"
proof -
  define h where "h = head_block_num (nd_db a)"
  define low where "low = first_undoable a"
  have low: "0 < low" "low \<le> k" "k \<le> h" using k(1,2) by (auto simp: low_def h_def first_undoable_def)
  define f where "f = served_id cp a"
  have f: "main_id cp a n = Inr (f n)" if "0 < n" "n \<le> h" for n
    using served_block(1) [OF serve(1), of n] that by (simp add: f_def h_def)
  let ?ns = "synopsis_numbers h h low"
  have syn: "get_blockchain_synopsis cp zero_block_id 0 a = Some (Inr (map f ?ns))"
    unfolding h_def low_def
  proof (rule synopsis_of_chain)
    show "get_block_id_for_num cp (of_nat n) a = Inr (f n)" if "first_undoable a \<le> n" "n \<le> head_block_num (nd_db a)" for n
      using f [of n] that low(1) by (simp add: main_id_def h_def low_def)
    show "0 < head_block_num (nd_db a)" using low by (simp add: h_def)
    show "dgp_last_irreversible_block_num (db_dgp (nd_db a)) \<le> head_block_num (nd_db a)" using k(1,2) by (simp add: first_undoable_def)
    show "head_block_num (nd_db a) < 2 ^ 32 - 1" using serve(1) by (simp add: serves_def)
  qed
  from synopsis_numbers_dense [OF low(2,3) order_refl] obtain m where m: "m \<in> set ?ns" "m \<le> k" "k - m \<le> h - k"
    "\<And>x. x \<in> set ?ns \<Longrightarrow> x \<le> m \<or> k < x" by blast
  have inc: "sorted_wrt (<) ?ns" "\<And>x. x \<in> set ?ns \<Longrightarrow> low \<le> x \<and> x \<le> h" using synopsis_numbers_increase [of h h low] low by auto
  from split_at_member [OF inc(1) m(1,4)] obtain as bs where ns: "?ns = as @ m # bs" and bs: "\<And>x. x \<in> set bs \<Longrightarrow> k < x" by blast
  have "0 < m" using inc(2) [OF m(1)] low by simp
  have "recognized cp b y = Inr False" if y: "y \<in> set (map f bs)" for y
  proof -
    from y obtain n where n: "n \<in> set bs" "y = f n" by auto
    with bs inc(2) [of n] have "k < n" "n \<le> h" by (auto simp: ns)
    with f [of n] n(2) show ?thesis by (intro other [of n]) (auto simp: h_def)
  qed
  moreover have "main_id cp b m = Inr (f m)" using same [OF \<open>0 < m\<close> m(2)] f [of m] \<open>0 < m\<close> m(2) low by simp
  ultimately obtain ids where "get_block_ids cp (map f ?ns) limit b = Inr (ids, head_block_num (nd_db b) - (m + length ids - 1))"
    "length ids = min limit (head_block_num (nd_db b) - m + 1)" "\<And>i. i < length ids \<Longrightarrow> main_id cp b (m + i) = Inr (ids ! i)"
    using reply_from [OF serve(2) \<open>0 < m\<close>, of "f m" limit "map f ?ns" "map f as" "map f bs"] m(2) k(3) assms(3) by (auto simp: ns)
  with syn m \<open>0 < m\<close> show ?thesis unfolding h_def by blast
qed

section \<open>An example\<close>

definition first_block :: signed_block where
  "first_block = \<lparr>previous = replicate 5 0, timestamp = 1571116447, bobserver = SIGMAENGINE_INIT_MINER_NAME,
     transaction_merkle_root = [], extensions = [], bobserver_signature = [], transactions = []\<rparr>"

definition plain_params :: chain_params where
  "plain_params = example_params\<lparr>cp_env := with_plugins example_plugins [] example_env\<rparr>"

definition genesis_example :: chain_db where
  "genesis_example = (case init_genesis (env_doubles (cp_env plain_params)) 7 SIGMAENGINE_INIT_SUPPLY of Inr db \<Rightarrow> db)"

lemma plain_params_simps:
  "cp_block plain_params = cp_block example_params" "cp_block_size plain_params = (\<lambda>_. 200)"
  "cp_env plain_params = with_plugins example_plugins [] example_env" "header_sha224 (cp_block example_params) = (\<lambda>_. replicate 7 0)"
  by (simp_all add: plain_params_def example_params_def)

lemma genesis_example: "init_genesis (env_doubles (cp_env plain_params)) 7 SIGMAENGINE_INIT_SUPPLY = Inr genesis_example"
  using init_genesis_ok [of "env_doubles (cp_env plain_params)" 7 SIGMAENGINE_INIT_SUPPLY] by (auto simp: genesis_example_def)

lemma genesis_example_fields:
  "db_dgp genesis_example = genesis_properties SIGMAENGINE_INIT_SUPPLY" "db_schedule genesis_example = genesis_schedule"
  "db_bobservers genesis_example = \<lparr>tb_next = 1, tb_rows = [(new_bobserver 0)\<lparr>bo_account := SIGMAENGINE_INIT_MINER_NAME, bo_signing_key := 7\<rparr>]\<rparr>"
  "db_transactions genesis_example = empty_table" "db_savings genesis_example = empty_table" "db_fund_withdraws genesis_example = empty_table"
  "db_histories genesis_example = empty_table" "db_recovery_requests genesis_example = empty_table"
  "db_change_requests genesis_example = empty_table" "db_decline_requests genesis_example = empty_table"
  "hpo_last_hardfork (db_hardfork genesis_example) = 0" "hpo_next_hardfork (db_hardfork genesis_example) = 0"
  "hpo_processed_hardforks (db_hardfork genesis_example) = [SIGMAENGINE_GENESIS_TIME]"
  "db_dapp_fund genesis_example = \<lparr>drf_id = 0, drf_fund_balance = SGT 0, drf_last_update = SIGMAENGINE_GENESIS_TIME\<rparr>"
  "tb_rows (db_funds genesis_example) = [deposit_fund (env_doubles (cp_env plain_params)) SIGMAENGINE_GENESIS_TIME 0]"
  "db_accounts genesis_example = \<lparr>tb_next = 4, tb_rows = [(new_account 0)\<lparr>acc_name := SIGMAENGINE_MINER_ACCOUNT\<rparr>,
     (new_account 1)\<lparr>acc_name := SIGMAENGINE_NULL_ACCOUNT\<rparr>, (new_account 2)\<lparr>acc_name := SIGMAENGINE_TEMP_ACCOUNT\<rparr>,
     (new_account 3)\<lparr>acc_name := SIGMAENGINE_INIT_MINER_NAME, acc_memo_key := 7, acc_balance := SGT (sint SIGMAENGINE_INIT_SUPPLY)\<rparr>]\<rparr>"
  unfolding genesis_example_def by (simp_all add: genesis_eval)

lemma replay_skips:
  "skips replay_skip skip_merkle_check" "skips replay_skip skip_bobserver_signature" "skips replay_skip skip_bobserver_schedule_check"
  "\<not> skips replay_skip skip_undo_history_check" "skips replay_skip skip_block_log"
  by code_simp+

text \<open>Evaluation that does not go under the continuation of a step before the step is done.\<close>

lemma bindR_weak: "r = r' \<Longrightarrow> bindR r f = bindR r' f"
  by simp

lemma fc_assert_weak: "c = c' \<Longrightarrow> fc_assert c e r = fc_assert c' e r"
  by simp

lemma no_handlers: "env_on_applied_block (with_plugins pt [] env) b db = db"
  by (simp add: with_plugins_def plugin_handlers_def)

lemma first_block_applies:
  "case begin_block plain_params replay_skip first_block genesis_example of
     Inl e \<Rightarrow> False
   | Inr d \<Rightarrow> (case finish_block plain_params first_block d of Inl e \<Rightarrow> False | Inr db \<Rightarrow> dgp_last_irreversible_block_num (db_dgp db) = 0)"
  by (simp add: genesis_example_fields genesis_properties_def genesis_schedule_def plain_params_simps first_block_def replay_skips slot_eval economy_eval
    head_block_id_def validate_block_header_def get_scheduled_bobserver_def check_merkle_def processing_eval
    SIGMAENGINE_GENESIS_TIME_def SIGMAENGINE_MAX_BLOCK_SIZE_def new_bobserver_def new_account_def
    SIGMAENGINE_MINER_ACCOUNT_def SIGMAENGINE_TEMP_ACCOUNT_def SIGMAENGINE_INIT_SUPPLY_def deposit_fund_def empty_table_def no_handlers cong: bindR_weak fc_assert_weak)

lemma first_replay:
  obtains nd where "startup plain_params [] 7 True None [first_block] = Inr nd" "head_block_num (nd_db nd) = 1"
    "dgp_last_irreversible_block_num (db_dgp (nd_db nd)) = 0"
proof -
  from first_block_applies obtain d db where d: "begin_block plain_params replay_skip first_block genesis_example = Inr d"
    "finish_block plain_params first_block d = Inr db" "dgp_last_irreversible_block_num (db_dgp db) = 0" by (auto split: sum.splits)
  have keep: "plugins_keep_head (cp_env plain_params)" unfolding plain_params_simps by (rule with_plugins_kept)
  have num: "block_num first_block = 1" by (simp add: block_num_def num_from_id_def first_block_def endian_reverse_u32_def)
  have head: "head_block_num db = 1"
    using finish_block_head [OF keep d(2)] begin_block_head(2) [OF d(1)] num by (simp add: same_head_def clear_expired_head)
  have "head_block_num genesis_example = 0" "hpo_last_hardfork (db_hardfork genesis_example) = 0"
    by (simp_all add: genesis_example_fields genesis_properties_def head_block_num_def)
  moreover have "hardfork_versions ! 0 \<le> SIGMAENGINE_BLOCKCHAIN_VERSION" "SIGMAENGINE_BLOCKCHAIN_HARDFORK_VERSION = hardfork_versions ! SIGMAENGINE_NUM_HARDFORKS"
    by code_simp+
  ultimately have "open_node plain_params 7 SIGMAENGINE_INIT_SUPPLY None [first_block] = Inr (started_node genesis_example 0 [] [first_block])"
    by (simp add: open_node_def undo_all_sessions.simps started_node_def init_hardforks_def Let_def genesis_example)
  then have "\<exists>nd. startup plain_params [] 7 True None [first_block] = Inr nd \<and> nd_db nd = db"
    using d replay_skips(5) num
    by (simp add: startup_def reindex_def Let_def apply_block_def check_checkpoints_def apply_block_checked_def note_irreversible_def
        commit_sessions_def set_node_revision_def started_node_def)
  with that head d(3) show ?thesis by blast
qed

theorem synopsis_covers_chain_witness:
  "\<exists>nd synopsis. startup plain_params [] 7 True None [first_block] = Inr nd
     \<and> get_blockchain_synopsis plain_params zero_block_id 0 nd = Some (Inr synopsis) \<and> last synopsis = head_block_id (nd_db nd) \<and> length synopsis = 1"
proof -
  obtain nd where nd: "startup plain_params [] 7 True None [first_block] = Inr nd" "head_block_num (nd_db nd) = 1"
    "dgp_last_irreversible_block_num (db_dgp (nd_db nd)) = 0" by (rule first_replay)
  have "hash_total (cp_block plain_params)" by (simp add: hash_total_def plain_params_simps)
  from synopsis_covers_chain [OF node_life.started [OF nd(1)] plain_params_simps(3) this] nd obtain synopsis where
    "get_blockchain_synopsis plain_params zero_block_id 0 nd = Some (Inr synopsis)" "last synopsis = head_block_id (nd_db nd)"
    "2 ^ (length synopsis - 1) \<le> (1 :: nat)" "synopsis \<noteq> []" by (auto simp: first_undoable_def)
  moreover have "length synopsis - 1 < 1" by (rule less_le_trans [OF less_exp calculation(3)])
  then have "length synopsis = 1" using calculation(4) by (cases synopsis) auto
  ultimately show ?thesis using nd(1) by (intro exI [of _ nd] exI [of _ synopsis]) auto
qed

text \<open>Two nodes that part after their first block; here the hash of a header is its time.\<close>

definition timed_params :: chain_params where
  "timed_params = plain_params\<lparr>cp_block := (cp_block example_params)\<lparr>header_sha224 := (\<lambda>h. [0, of_nat (timestamp h), 0, 0, 0, 0, 0])\<rparr>\<rparr>"

definition block_at :: "block_id_type \<Rightarrow> nat \<Rightarrow> signed_block" where
  "block_at prev t = first_block\<lparr>previous := prev, timestamp := t\<rparr>"

definition logged_node :: "signed_block list \<Rightarrow> node_state" where
  "logged_node log = started_node (example_db\<lparr>db_summaries := (\<lambda>_. zero_block_id),
     db_dgp := example_dgp\<lparr>dgp_head_block_number := length log, dgp_last_irreversible_block_num := 1\<rparr>\<rparr>) 0 [] log"

definition short_node :: node_state where
  "short_node = logged_node [block_at [0, 0, 0, 0, 0] 1, block_at [0x01000000, 1, 0, 0, 0] 2]"

definition long_node :: node_state where
  "long_node = logged_node [block_at [0, 0, 0, 0, 0] 1, block_at [0x01000000, 1, 0, 0, 0] 3, block_at [0x02000000, 3, 0, 0, 0] 4]"

lemma zero_id_words: "zero_block_id = [0, 0, 0, 0, 0]"
  by (simp add: zero_block_id_def numeral_eq_Suc)

lemmas sync_eval = short_node_def long_node_def logged_node_def started_node_def block_at_def timed_params_def first_block_def plain_params_simps
  get_block_id_for_num_def find_block_id_for_num_def read_block_by_num_def log_head_num_def block_id_def block_num_def num_from_id_def endian_reverse_u32_def
  zero_id_words Let_def head_block_num_def signed_block_header.truncate_def

lemma sync_ids:
  "main_id timed_params short_node 1 = Inr [0x01000000, 1, 0, 0, 0]" "main_id timed_params short_node 2 = Inr [0x02000000, 2, 0, 0, 0]"
  "main_id timed_params long_node 1 = Inr [0x01000000, 1, 0, 0, 0]" "main_id timed_params long_node 2 = Inr [0x02000000, 3, 0, 0, 0]"
  "main_id timed_params long_node 3 = Inr [0x03000000, 4, 0, 0, 0]"
  by (simp_all add: main_id_def sync_eval)

lemma sync_knows:
  "node_knows_block timed_params [0x01000000, 1, 0, 0, 0] short_node = Inr True" "node_knows_block timed_params [0x02000000, 2, 0, 0, 0] short_node = Inr True"
  "node_knows_block timed_params [0x01000000, 1, 0, 0, 0] long_node = Inr True" "node_knows_block timed_params [0x02000000, 3, 0, 0, 0] long_node = Inr True"
  "node_knows_block timed_params [0x03000000, 4, 0, 0, 0] long_node = Inr True" "node_knows_block timed_params [0x02000000, 2, 0, 0, 0] long_node = Inr False"
  by (simp_all add: node_knows_block_def fetch_block_by_id_def fetch_block_def find_by_id_def empty_fork_database_def sync_eval)

lemma sync_heads: "head_block_num (nd_db short_node) = 2" "head_block_num (nd_db long_node) = 3" "first_undoable short_node = 1"
  by (simp_all add: sync_eval first_undoable_def)

lemma sync_numbers: "[1..<Suc 2] = [1, 2]" "[1..<Suc 3] = [1, 2, 3]"
  by (simp_all add: upt_rec)

lemma sync_nums: "num_from_id (0x01000000 # r) = 1" "num_from_id (0x02000000 # r) = 2" "num_from_id (0x03000000 # r) = 3"
  by (simp_all add: num_from_id_def endian_reverse_u32_def)

lemma sync_serves: "serves timed_params short_node" "serves timed_params long_node"
  unfolding serves_def sync_heads sync_numbers
  by (simp_all add: sync_ids sync_knows sync_nums del: One_nat_def)

theorem sync_resumes_at_fork_witness:
  "\<exists>synopsis ids. get_blockchain_synopsis timed_params zero_block_id 0 short_node = Some (Inr synopsis)
     \<and> get_block_ids timed_params synopsis 10 long_node = Inr (ids, 0) \<and> length ids = 3 \<and> main_id timed_params long_node 3 = Inr (ids ! 2)"
proof -
  have other: "recognized timed_params long_node bid = Inr False" if "1 < n" "n \<le> 2" "main_id timed_params short_node n = Inr bid" for n bid
  proof -
    from that have "n = 2" by simp
    with that(3) show ?thesis by (auto simp: sync_ids recognized_def sync_knows zero_id_words)
  qed
  have same: "main_id timed_params long_node n = main_id timed_params short_node n" if "0 < n" "n \<le> 1" for n
    using that sync_ids(1,3) by (cases "n = 1") auto
  from sync_resumes_at_fork [OF sync_serves, of 10 1, unfolded sync_heads] same other obtain synopsis m ids where
    "get_blockchain_synopsis timed_params zero_block_id 0 short_node = Some (Inr synopsis)" "0 < m" "m \<le> 1"
    "get_block_ids timed_params synopsis 10 long_node = Inr (ids, 3 - (m + length ids - 1))" "length ids = min 10 (3 - m + 1)"
    "\<forall>i < length ids. main_id timed_params long_node (m + i) = Inr (ids ! i)" by auto
  moreover from this(2,3) have "m = 1" by simp
  ultimately show ?thesis by (intro exI [of _ synopsis] exI [of _ ids]) (auto simp: numeral_eq_Suc)
qed

end
