(* ===== verification/Packing.thy ===== *)
theory Packing
  imports Transaction
begin

text \<open>
  The binary form of transactions and blocks: \<^verbatim>\<open>fc::raw::pack\<close> and \<^verbatim>\<open>unpack\<close>
  (\<^verbatim>\<open>fc/io/raw.hpp\<close>, \<^verbatim>\<open>fc/container/flat.hpp\<close>, \<^verbatim>\<open>fc/static_variant.hpp\<close>) and the field
  orders the \<^verbatim>\<open>FC_REFLECT\<close> lines of the protocol library give them. A \<open>packer\<close> holds both directions for a
  type and the values of it that survive; the locale \<open>packer_laws\<close> says what they promise, each combinator keeps it, and so it holds of
  every operation, transaction and block. What does not survive is a name with a zero byte inside: it can be read, but only the part before
  the zero is packed, hashed and signed.
\<close>

section \<open>Packers\<close>

text \<open>
  A stream is the list of its bytes; integers are written as they lie in memory, least byte first. Reading past the end throws,
  \<^verbatim>\<open>out_of_range_exception\<close> from a \<^verbatim>\<open>datastream\<close>. A value \<open>fits\<close> when packing and reading it gives it back; it is \<open>plain\<close>
  when every name in it converts to a string without losing bytes, and what is read and plain fits.
\<close>

type_synonym bytes = "char list"

record 'a packer =
  pack_of :: "'a \<Rightarrow> bytes"
  unpack_of :: "bytes \<Rightarrow> ('a \<times> bytes) result"
  fits_of :: "'a \<Rightarrow> bool"
  plain_of :: "'a \<Rightarrow> bool"

locale packer_laws =
  fixes p :: "'a packer"
  assumes unpack_pack: "fits_of p x \<Longrightarrow> unpack_of p (pack_of p x @ r) = Inr (x, r)"
    and unpack_fits: "unpack_of p bs = Inr (x, r) \<Longrightarrow> plain_of p x \<Longrightarrow> fits_of p x"
    and unpack_suffix: "unpack_of p bs = Inr (x, r) \<Longrightarrow> \<exists>u. bs = u @ r"
begin

lemma unpack_length: "unpack_of p bs = Inr (x, r) \<Longrightarrow> length r \<le> length bs"
  using unpack_suffix by fastforce

lemma pack_prefix_free:
  assumes "fits_of p x" "fits_of p y" "pack_of p x @ r = pack_of p y @ s"
  shows "x = y \<and> r = s"
  using unpack_pack [OF assms(1)] unpack_pack [OF assms(2)] assms(3) by (metis Pair_inject sum.inject(2))

lemma pack_inject: "fits_of p x \<Longrightarrow> fits_of p y \<Longrightarrow> pack_of p x = pack_of p y \<Longrightarrow> x = y"
  using pack_prefix_free [of x y "[]" "[]"] by blast

lemma repack: "unpack_of p bs = Inr (x, r) \<Longrightarrow> plain_of p x \<Longrightarrow> unpack_of p (pack_of p x @ s) = Inr (x, s)"
  by (rule unpack_pack [OF unpack_fits])

end

named_theorems packing \<open>the laws of the packers\<close>

definition read_bytes :: "nat \<Rightarrow> bytes \<Rightarrow> (bytes \<times> bytes) result" where
  "read_bytes n bs = guardR (n \<le> length bs) Out_of_range_exception (Inr (take n bs, drop n bs))"

text \<open>An \<^verbatim>\<open>fc::array\<close> of bytes is written as it is.\<close>

definition array_packer :: "nat \<Rightarrow> bytes packer" where
  "array_packer n = \<lparr>pack_of = (\<lambda>s. s), unpack_of = read_bytes n, fits_of = (\<lambda>s. length s = n), plain_of = (\<lambda>_. True)\<rparr>"

text \<open>
  A value packed through another type: \<open>g\<close> turns it into what is written, \<open>f\<close> reads it back and may
  throw, \<open>ok\<close> are the values that come back unchanged.
\<close>

definition conv_packer :: "('a \<Rightarrow> bool) \<Rightarrow> ('b \<Rightarrow> 'a result) \<Rightarrow> ('a \<Rightarrow> 'b) \<Rightarrow> 'b packer \<Rightarrow> 'a packer" where
  "conv_packer ok f g p =
     \<lparr>pack_of = (\<lambda>x. pack_of p (g x)),
      unpack_of = (\<lambda>bs. bindR (unpack_of p bs) (\<lambda>(y, r). bindR (f y) (\<lambda>x. Inr (x, r)))),
      fits_of = (\<lambda>x. ok x \<and> fits_of p (g x)),
      plain_of = (\<lambda>x. plain_of p (g x))\<rparr>"

lemma array_packer_laws [packing]: "packer_laws (array_packer n)"
  by (rule packer_laws.intro)
     (auto simp: array_packer_def read_bytes_def result_simps intro: append_take_drop_id [symmetric])

lemma conv_packer_laws:
  assumes "packer_laws p" "\<And>x. ok x \<Longrightarrow> f (g x) = Inr x"
    and "\<And>y x. (plain_of p y \<Longrightarrow> fits_of p y) \<Longrightarrow> f y = Inr x \<Longrightarrow> plain_of p (g x) \<Longrightarrow> ok x \<and> fits_of p (g x)"
  shows "packer_laws (conv_packer ok f g p)"
proof -
  note laws = packer_laws.unpack_pack [OF assms(1)] packer_laws.unpack_fits [OF assms(1)] packer_laws.unpack_suffix [OF assms(1)]
  show ?thesis
  proof (rule packer_laws.intro)
    fix x r show "fits_of (conv_packer ok f g p) x \<Longrightarrow> unpack_of (conv_packer ok f g p) (pack_of (conv_packer ok f g p) x @ r) = Inr (x, r)"
      by (simp add: conv_packer_def laws(1) assms(2))
  next
    fix bs x r assume "unpack_of (conv_packer ok f g p) bs = Inr (x, r)"
    then obtain y where y: "unpack_of p bs = Inr (y, r)" "f y = Inr x" by (auto simp: conv_packer_def result_simps)
    show "plain_of (conv_packer ok f g p) x \<Longrightarrow> fits_of (conv_packer ok f g p) x"
      using assms(3) [OF laws(2) [OF y(1)] y(2)] by (simp add: conv_packer_def)
    show "\<exists>u. bs = u @ r" by (rule laws(3) [OF y(1)])
  qed
qed

text \<open>Where every value of the underlying type is plain, it need not be asked for.\<close>

lemma conv_packer_laws_leaf:
  assumes "packer_laws p" "\<And>y. plain_of p y" "\<And>x. ok x \<Longrightarrow> f (g x) = Inr x"
    and "\<And>y x. fits_of p y \<Longrightarrow> f y = Inr x \<Longrightarrow> ok x \<and> fits_of p (g x)"
  shows "packer_laws (conv_packer ok f g p)"
  using assms by (intro conv_packer_laws) auto


section \<open>Integers, flags and text\<close>

definition uint_packer :: "nat \<Rightarrow> nat packer" where
  "uint_packer k =
     conv_packer (\<lambda>n. n < 256 ^ k) (\<lambda>s. Inr (of_bytes (map of_char s))) (\<lambda>n. map char_of (to_bytes k n)) (array_packer k)"

definition word_packer :: "nat \<Rightarrow> 'w::len word packer" where
  "word_packer k = conv_packer (\<lambda>_. True) (\<lambda>n. Inr (word_of_nat n)) unat (uint_packer k)"

text \<open>The two's complement of a \<^verbatim>\<open>safe<int64_t>\<close>.\<close>

definition int64_packer :: "int packer" where
  "int64_packer =
     conv_packer (\<lambda>i. - (2 ^ 63) \<le> i \<and> i < 2 ^ 63)
       (\<lambda>n. Inr (if n < 2 ^ 63 then int n else int n - 2 ^ 64)) (\<lambda>i. nat (i mod 2 ^ 64)) (uint_packer 8)"

definition bool_packer :: "bool packer" where
  "bool_packer =
     conv_packer (\<lambda>_. True) (\<lambda>b. fc_assert (b div 2 = 0) Not_a_bool (Inr (b \<noteq> 0))) (\<lambda>v. if v then 1 else 0) (uint_packer 1)"

text \<open>The 33 bytes of a public key spell its number, the first byte highest.\<close>

definition public_key_packer :: "public_key_type packer" where
  "public_key_packer =
     conv_packer (\<lambda>k. k < 256 ^ 33) (\<lambda>s. Inr (of_bytes (rev (map of_char s))))
       (\<lambda>k. rev (map char_of (to_bytes 33 k))) (array_packer 33)"

lemma plain_leaf: "plain_of (array_packer n) s" "plain_of (uint_packer n) i"
  by (simp_all add: array_packer_def uint_packer_def conv_packer_def)

lemma of_bytes_bound: "list_all (\<lambda>b. b < 256) bs \<Longrightarrow> of_bytes bs < 256 ^ length bs"
  by (induction bs) auto

lemma of_char_bytes_bound: "list_all (\<lambda>b. b < 256) (map (of_char :: char \<Rightarrow> nat) s)"
  by (induction s) auto

lemma bytes_of_chars [simp]: "map of_char (map char_of (to_bytes k n) :: char list) = to_bytes k n"
  using to_bytes_bound [of k n] by (induction k arbitrary: n) (auto simp: of_char_of)

lemma uint_packer_laws [packing]: "packer_laws (uint_packer k)"
  unfolding uint_packer_def
proof (rule conv_packer_laws_leaf [OF array_packer_laws plain_leaf(1)])
  fix n show "n < 256 ^ k \<Longrightarrow> Inr (of_bytes (map of_char (map char_of (to_bytes k n) :: char list))) = Inr n"
    by (simp add: of_bytes_to_bytes del: map_map)
next
  fix s :: bytes and n
  assume "fits_of (array_packer k) s" "Inr (of_bytes (map of_char s)) = (Inr n :: nat result)"
  then show "n < 256 ^ k \<and> fits_of (array_packer k) (map char_of (to_bytes k n))"
    using of_bytes_bound [OF of_char_bytes_bound, of s] by (auto simp: array_packer_def)
qed

lemma fits_uint [simp]: "fits_of (uint_packer k) n \<longleftrightarrow> n < 256 ^ k"
  by (simp add: uint_packer_def conv_packer_def array_packer_def)

lemma word_packer_laws:
  assumes "LENGTH('w::len) \<le> 8 * k"
  shows "packer_laws (word_packer k :: 'w word packer)"
  unfolding word_packer_def
proof (rule conv_packer_laws_leaf [OF uint_packer_laws plain_leaf(2)])
  fix y :: nat and x :: "'w word"
  have "(2 :: nat) ^ LENGTH('w) \<le> 2 ^ (8 * k)" using assms by (intro power_increasing) auto
  then have "unat x < 256 ^ k"
    using order.strict_trans2 [OF unsigned_less [of x]] by (simp add: power_mult)
  then show "True \<and> fits_of (uint_packer k) (unat x)" by simp
qed simp

lemma int64_packer_laws [packing]: "packer_laws int64_packer"
  unfolding int64_packer_def
proof (rule conv_packer_laws_leaf [OF uint_packer_laws plain_leaf(2)])
  fix i :: int assume i: "- (2 ^ 63) \<le> i \<and> i < 2 ^ 63"
  show "Inr (if nat (i mod 2 ^ 64) < 2 ^ 63 then int (nat (i mod 2 ^ 64)) else int (nat (i mod 2 ^ 64)) - 2 ^ 64) = Inr i"
  proof (cases "0 \<le> i")
    case False
    then have "i mod 2 ^ 64 = i + 2 ^ 64"
      using i mod_pos_pos_trivial [of "i + 2 ^ 64" "2 ^ 64"] by simp
    with i show ?thesis by (simp add: nat_less_iff)
  qed (use i in simp)
qed (auto split: if_splits)

lemma bool_packer_laws [packing]: "packer_laws bool_packer"
  unfolding bool_packer_def
  by (rule conv_packer_laws_leaf [OF uint_packer_laws plain_leaf(2)]) (auto simp: result_simps)

lemma public_key_packer_laws [packing]: "packer_laws public_key_packer"
  unfolding public_key_packer_def
proof (rule conv_packer_laws_leaf [OF array_packer_laws plain_leaf(1)])
  fix k :: nat
  show "k < 256 ^ 33 \<Longrightarrow> Inr (of_bytes (rev (map of_char (rev (map char_of (to_bytes 33 k)) :: char list)))) = Inr k"
    by (simp add: of_bytes_to_bytes rev_map [symmetric] del: map_map)
next
  fix s :: bytes and k
  assume "fits_of (array_packer 33) s" "Inr (of_bytes (rev (map of_char s))) = (Inr k :: nat result)"
  then show "k < 256 ^ 33 \<and> fits_of (array_packer 33) (rev (map char_of (to_bytes 33 k)))"
    using of_bytes_bound [of "rev (map of_char s)"] of_char_bytes_bound [of s] by (auto simp: array_packer_def list_all_iff)
qed


text \<open>
  An \<^verbatim>\<open>unsigned_int\<close> is written in groups of seven bits, the lowest first, the top bit of a byte saying that more follow. The reader
  shifts a 32 bit number by \<open>by\<close>; from the sixth byte on the shift is as wide as the number, which C++ leaves undefined.
\<close>

fun pack_varint :: "nat \<Rightarrow> bytes" where
  "pack_varint val =
     (if val div 128 > 0 then char_of (val mod 128 + 128) # pack_varint (val div 128) else [char_of (val mod 128)])"

declare pack_varint.simps [simp del]

fun unpack_varint :: "nat \<Rightarrow> nat \<Rightarrow> bytes \<Rightarrow> (nat \<times> bytes) result" where
  "unpack_varint by v [] = Inl Out_of_range_exception"
| "unpack_varint by v (c # s) =
     (let b = of_char c :: nat;
          v' = v OR take_bit 32 (push_bit by (b mod 128))
      in guardR (by < 32) Undefined_behaviour (
         if b div 128 = 1 then unpack_varint (by + 7) v' s else Inr (v', s)))"

definition varint_packer :: "nat packer" where
  "varint_packer =
     \<lparr>pack_of = pack_varint, unpack_of = unpack_varint 0 0, fits_of = (\<lambda>n. n < 2 ^ 32), plain_of = (\<lambda>_. True)\<rparr>"

lemma plain_varint: "plain_of varint_packer n"
  by (simp add: varint_packer_def)

lemma or_push_bit_add:
  fixes v x :: nat
  assumes "v < 2 ^ n"
  shows "v OR push_bit n x = v + push_bit n x"
proof -
  have v: "take_bit n v = v" using assms by (rule take_bit_nat_eq_self)
  have "\<not> bit v m" if "n \<le> m" for m
    using that bit_take_bit_iff [of n v m, unfolded v] by (metis not_le)
  then have "v AND push_bit n x = 0" by (auto simp: bit_eq_iff bit_simps)
  then show ?thesis by (rule disjunctive_add_eq_or [symmetric])
qed

lemma varint_step:
  fixes v n :: nat
  assumes "v < 2 ^ by" "n * 2 ^ by < 2 ^ 32"
  shows "v OR take_bit 32 (push_bit by (n mod 128)) = v + (n mod 128) * 2 ^ by"
proof -
  have "n mod 128 * 2 ^ by \<le> n * 2 ^ by" by simp
  then have "n mod 128 * 2 ^ by < 2 ^ 32" using assms(2) by (rule le_less_trans)
  then have "take_bit 32 (push_bit by (n mod 128)) = push_bit by (n mod 128)"
    by (simp add: take_bit_nat_eq_self push_bit_eq_mult)
  then show ?thesis using or_push_bit_add [OF assms(1)] by (simp add: push_bit_eq_mult)
qed

lemma unpack_pack_varint:
  "v < 2 ^ by \<Longrightarrow> n * 2 ^ by < 2 ^ 32 \<Longrightarrow> by < 32 \<Longrightarrow>
     unpack_varint by v (pack_varint n @ r) = Inr (v + n * 2 ^ by, r)"
proof (induction n arbitrary: "by" v rule: pack_varint.induct)
  case (1 n)
  have n: "n = n mod 128 + 128 * (n div 128)" by simp
  note step = varint_step [OF 1(2,3)]
  show ?case
  proof (cases "n div 128 > 0")
    case False
    then have "n mod 128 = n" by simp
    with False 1(4) step show ?thesis by (subst pack_varint.simps) (simp add: of_char_of)
  next
    case True
    let ?v = "v + n mod 128 * 2 ^ by"
    have "n mod 128 * 2 ^ by \<le> 127 * 2 ^ by" by (intro mult_le_mono1) simp
    moreover have "(2 :: nat) ^ (by + 7) = 128 * 2 ^ by" by (simp add: power_add)
    ultimately have "?v < 2 ^ (by + 7)" using 1(2) by linarith
    moreover have lt: "n div 128 * 2 ^ (by + 7) < 2 ^ 32"
    proof -
      have "128 * (n div 128) * 2 ^ by \<le> n * 2 ^ by" by (intro mult_le_mono1) simp
      moreover have "n div 128 * 2 ^ (by + 7) = 128 * (n div 128) * 2 ^ by" by (simp add: power_add)
      ultimately show ?thesis using 1(3) by linarith
    qed
    moreover have "by + 7 < 32"
    proof (rule ccontr)
      assume "\<not> by + 7 < 32"
      then have "(2 :: nat) ^ 32 \<le> 2 ^ (by + 7)" by (intro power_increasing) auto
      moreover have "2 ^ (by + 7) \<le> n div 128 * 2 ^ (by + 7)" using True by simp
      ultimately show False using lt by linarith
    qed
    ultimately have "unpack_varint (by + 7) ?v (pack_varint (n div 128) @ r) = Inr (?v + n div 128 * 2 ^ (by + 7), r)"
      using 1(1) [OF True] by blast
    moreover have "?v + n div 128 * 2 ^ (by + 7) = v + n * 2 ^ by"
      using distrib_right [of "n mod 128" "128 * (n div 128)" "2 ^ by", folded n] by (simp add: power_add)
    moreover have "(n mod 128 + 128) div 128 = 1" "(n mod 128 + 128) mod 128 = n mod 128" by simp_all
    ultimately show ?thesis
      using True 1(4) step by (subst pack_varint.simps) (simp add: of_char_of)
  qed
qed

lemma unpack_varint_sound:
  "unpack_varint by v bs = Inr (n, r) \<Longrightarrow> take_bit 32 v = v \<Longrightarrow> take_bit 32 n = n \<and> (\<exists>u. bs = u @ r)"
proof (induction "by" v bs rule: unpack_varint.induct)
  case (2 "by" v c s)
  note ih = "2.IH" [OF refl refl]
  have cons: "\<exists>u. c # s = u @ r" if "\<exists>u. s = u @ r"
    using that by (metis append_Cons)
  from "2.prems" show ?case
    using ih by (cases "of_char c div 128 = (1 :: nat)") (auto simp: Let_def result_simps take_bit_or intro: cons)
qed simp

lemma varint_packer_laws [packing]: "packer_laws varint_packer"
proof (rule packer_laws.intro)
  fix n r show "fits_of varint_packer n \<Longrightarrow> unpack_of varint_packer (pack_of varint_packer n @ r) = Inr (n, r)"
    using unpack_pack_varint [of 0 0 n r] by (simp add: varint_packer_def)
next
  fix bs n r assume "unpack_of varint_packer bs = Inr (n, r)"
  then have "take_bit 32 n = n \<and> (\<exists>u. bs = u @ r)"
    using unpack_varint_sound [of 0 0 bs n r] by (simp add: varint_packer_def)
  then show "fits_of varint_packer n" "\<exists>u. bs = u @ r"
    by (auto simp: varint_packer_def take_bit_nat_eq_self_iff)
qed


section \<open>Text and containers\<close>

definition MAX_ARRAY_ALLOC_SIZE :: nat where
  "MAX_ARRAY_ALLOC_SIZE = 1024 * 1024 * 10 * 30"

text \<open>A \<^verbatim>\<open>std::vector<char>\<close> or a string: the length, then the bytes.\<close>

definition string_packer :: "string packer" where
  "string_packer =
     \<lparr>pack_of = (\<lambda>s. pack_varint (length s mod 2 ^ 32) @ s),
      unpack_of = (\<lambda>bs. bindR (unpack_of varint_packer bs) (\<lambda>(n, r).
         fc_assert (n < MAX_ARRAY_ALLOC_SIZE) Array_too_large (read_bytes n r))),
      fits_of = (\<lambda>s. length s < MAX_ARRAY_ALLOC_SIZE), plain_of = (\<lambda>_. True)\<rparr>"

text \<open>
  A \<^verbatim>\<open>fixed_string\<close> is packed as the string it converts to, and read from a string, which keeps the bytes behind a zero. It is
  plain when the conversion keeps all of its bytes.
\<close>

definition fixed_string_packer :: "nat \<Rightarrow> string packer" where
  "fixed_string_packer n =
     (conv_packer (\<lambda>s. fixed_string n s = s \<and> fixed_to_string n s = s)
        (\<lambda>s. Inr (fixed_string n s)) (fixed_to_string n) string_packer)\<lparr>plain_of := \<lambda>s. fixed_to_string n s = s\<rparr>"

definition optional_packer :: "'a packer \<Rightarrow> 'a option packer" where
  "optional_packer p =
     \<lparr>pack_of = (\<lambda>v. pack_of bool_packer (v \<noteq> None) @ (case v of None \<Rightarrow> [] | Some x \<Rightarrow> pack_of p x)),
      unpack_of = (\<lambda>bs. bindR (unpack_of bool_packer bs) (\<lambda>(b, r).
         if b then bindR (unpack_of p r) (\<lambda>(x, r). Inr (Some x, r)) else Inr (None, r))),
      fits_of = (\<lambda>v. case v of None \<Rightarrow> True | Some x \<Rightarrow> fits_of p x),
      plain_of = (\<lambda>v. case v of None \<Rightarrow> True | Some x \<Rightarrow> plain_of p x)\<rparr>"

definition pair_packer :: "'a packer \<Rightarrow> 'b packer \<Rightarrow> ('a \<times> 'b) packer" where
  "pair_packer p q =
     \<lparr>pack_of = (\<lambda>(x, y). pack_of p x @ pack_of q y),
      unpack_of = (\<lambda>bs. bindR (unpack_of p bs) (\<lambda>(x, r). bindR (unpack_of q r) (\<lambda>(y, r). Inr ((x, y), r)))),
      fits_of = (\<lambda>(x, y). fits_of p x \<and> fits_of q y),
      plain_of = (\<lambda>(x, y). plain_of p x \<and> plain_of q y)\<rparr>"

text \<open>
  A structure is packed field by field in the order of its \<^verbatim>\<open>FC_REFLECT\<close>; \<open>mk\<close> builds it from the fields and \<open>get\<close> takes it apart.
\<close>

definition struct_packer :: "('b \<Rightarrow> 'a) \<Rightarrow> ('a \<Rightarrow> 'b) \<Rightarrow> 'b packer \<Rightarrow> 'a packer" where
  "struct_packer mk get p = conv_packer (\<lambda>_. True) (\<lambda>y. Inr (mk y)) get p"

fun unpack_items :: "(bytes \<Rightarrow> ('a \<times> bytes) result) \<Rightarrow> nat \<Rightarrow> bytes \<Rightarrow> ('a list \<times> bytes) result" where
  "unpack_items f 0 bs = Inr ([], bs)"
| "unpack_items f (Suc n) bs =
     bindR (f bs) (\<lambda>(x, r). bindR (unpack_items f n r) (\<lambda>(xs, r). Inr (x # xs, r)))"

text \<open>
  A vector of elements of \<open>sz\<close> bytes in memory. The flat containers are packed alike and inserted into
  one by one when read, where an element with the key of an earlier one is dropped.
\<close>

definition vector_packer :: "nat \<Rightarrow> 'a packer \<Rightarrow> 'a list packer" where
  "vector_packer sz p =
     \<lparr>pack_of = (\<lambda>xs. pack_varint (length xs mod 2 ^ 32) @ concat (map (pack_of p) xs)),
      unpack_of = (\<lambda>bs. bindR (unpack_of varint_packer bs) (\<lambda>(n, r).
         fc_assert (n * sz < MAX_ARRAY_ALLOC_SIZE) Array_too_large (unpack_items (unpack_of p) n r))),
      fits_of = (\<lambda>xs. length xs < 2 ^ 32 \<and> length xs * sz < MAX_ARRAY_ALLOC_SIZE \<and> list_all (fits_of p) xs),
      plain_of = list_all (plain_of p)\<rparr>"

definition flat_insert :: "('a \<Rightarrow> 'k::linorder) \<Rightarrow> 'a list \<Rightarrow> 'a \<Rightarrow> 'a list" where
  "flat_insert key xs x = (if key x \<in> key ` set xs then xs else insort_key key x xs)"

definition flat_packer :: "('a \<Rightarrow> 'k::linorder) \<Rightarrow> nat \<Rightarrow> 'a packer \<Rightarrow> 'a list packer" where
  "flat_packer key sz p =
     conv_packer (\<lambda>xs. wf_flat (map key xs)) (\<lambda>xs. Inr (foldl (flat_insert key) [] xs)) (\<lambda>xs. xs) (vector_packer sz p)"

text \<open>A \<^verbatim>\<open>static_variant\<close>: the tag, then the alternative it selects.\<close>

definition alternative :: "('b \<Rightarrow> 'a) \<Rightarrow> ('a \<Rightarrow> 'b option) \<Rightarrow> 'b packer \<Rightarrow> 'a packer" where
  "alternative mk un p = conv_packer (\<lambda>x. un x \<noteq> None) (\<lambda>y. Inr (mk y)) (\<lambda>x. the (un x)) p"

definition variant_packer :: "('a \<Rightarrow> nat) \<Rightarrow> 'a packer list \<Rightarrow> 'a packer" where
  "variant_packer which alts =
     \<lparr>pack_of = (\<lambda>x. pack_varint (which x) @ pack_of (alts ! which x) x),
      unpack_of = (\<lambda>bs. bindR (unpack_of varint_packer bs) (\<lambda>(w, r).
         fc_assert (w < length alts) No_such_alternative (unpack_of (alts ! w) r))),
      fits_of = (\<lambda>x. which x < length alts \<and> fits_of (alts ! which x) x),
      plain_of = (\<lambda>x. plain_of (alts ! which x) x)\<rparr>"


lemma unpack_varint_prefix: "n < 2 ^ 32 \<Longrightarrow> unpack_of varint_packer (pack_varint n @ r) = Inr (n, r)"
  using packer_laws.unpack_pack [OF varint_packer_laws, of n r] by (simp add: varint_packer_def)

lemma unpack_varint_bound: "unpack_of varint_packer bs = Inr (n, r) \<Longrightarrow> n < 2 ^ 32"
  using packer_laws.unpack_fits [OF varint_packer_laws _ plain_varint] by (auto simp: varint_packer_def)

lemma suffix_trans: "\<exists>u. bs = u @ r \<Longrightarrow> \<exists>u. r = u @ s \<Longrightarrow> \<exists>u. bs = u @ (s :: bytes)"
  by (metis append_assoc)

lemmas unpack_varint_suffix = packer_laws.unpack_suffix [OF varint_packer_laws]

lemma read_bytes_simps [simp]: "length s = n \<Longrightarrow> read_bytes n (s @ r) = Inr (s, r)"
  by (simp add: read_bytes_def)

lemma read_bytes_Inr [result_simps]: "read_bytes n bs = Inr (s, r) \<longleftrightarrow> bs = s @ r \<and> length s = n"
  by (auto simp: read_bytes_def result_simps)

lemma string_packer_laws [packing]: "packer_laws string_packer"
proof (rule packer_laws.intro)
  fix s r show "fits_of string_packer s \<Longrightarrow> unpack_of string_packer (pack_of string_packer s @ r) = Inr (s, r)"
    by (simp add: string_packer_def MAX_ARRAY_ALLOC_SIZE_def unpack_varint_prefix)
next
  fix bs s r assume u: "unpack_of string_packer bs = Inr (s, r)"
  then obtain n t where "unpack_of varint_packer bs = Inr (n, t)" "n < MAX_ARRAY_ALLOC_SIZE" "t = s @ r" "length s = n"
    by (auto simp: string_packer_def result_simps)
  then show "fits_of string_packer s" "\<exists>u. bs = u @ r"
    using unpack_varint_suffix [of bs n t] by (auto simp: string_packer_def)
qed

lemma fits_string [simp]: "fits_of string_packer s \<longleftrightarrow> length s < MAX_ARRAY_ALLOC_SIZE"
  by (simp add: string_packer_def)

lemma fixed_string_packer_laws [packing]: "packer_laws (fixed_string_packer n)"
proof (rule packer_laws.intro)
  fix s r show "fits_of (fixed_string_packer n) s \<Longrightarrow> unpack_of (fixed_string_packer n) (pack_of (fixed_string_packer n) s @ r) = Inr (s, r)"
    by (auto simp: fixed_string_packer_def conv_packer_def packer_laws.unpack_pack [OF string_packer_laws])
next
  fix bs s r assume "unpack_of (fixed_string_packer n) bs = Inr (s, r)"
  then obtain t where t: "unpack_of string_packer bs = Inr (t, r)" "s = fixed_string n t"
    by (auto simp: fixed_string_packer_def conv_packer_def result_simps)
  have "length t < MAX_ARRAY_ALLOC_SIZE"
    using packer_laws.unpack_fits [OF string_packer_laws t(1)] by (simp add: string_packer_def)
  then have "length s < MAX_ARRAY_ALLOC_SIZE" using fixed_string_length(1) [of n t] t(2) by simp
  then show "plain_of (fixed_string_packer n) s \<Longrightarrow> fits_of (fixed_string_packer n) s"
    using t(2) by (simp add: fixed_string_packer_def conv_packer_def)
  show "\<exists>u. bs = u @ r" by (rule packer_laws.unpack_suffix [OF string_packer_laws t(1)])
qed

lemma fits_bool [simp]: "fits_of bool_packer b"
  by (simp add: bool_packer_def conv_packer_def)

lemma optional_packer_laws [packing]:
  assumes "packer_laws p"
  shows "packer_laws (optional_packer p)"
proof (rule packer_laws.intro)
  fix v r show "fits_of (optional_packer p) v \<Longrightarrow> unpack_of (optional_packer p) (pack_of (optional_packer p) v @ r) = Inr (v, r)"
    by (cases v) (simp_all add: optional_packer_def packer_laws.unpack_pack [OF bool_packer_laws] packer_laws.unpack_pack [OF assms])
next
  fix bs v r assume "unpack_of (optional_packer p) bs = Inr (v, r)"
  then obtain b t where b: "unpack_of bool_packer bs = Inr (b, t)"
    and v: "(\<exists>x. unpack_of p t = Inr (x, r) \<and> v = Some x) \<or> v = None \<and> r = t"
    by (auto simp: optional_packer_def result_simps split: if_splits)
  have "(plain_of (optional_packer p) v \<longrightarrow> fits_of (optional_packer p) v) \<and> (\<exists>u. t = u @ r)"
    using v packer_laws.unpack_suffix [OF assms, of t _ r] packer_laws.unpack_fits [OF assms, of t _ r]
    by (auto simp: optional_packer_def)
  then show "plain_of (optional_packer p) v \<Longrightarrow> fits_of (optional_packer p) v" "\<exists>u. bs = u @ r"
    using suffix_trans [OF packer_laws.unpack_suffix [OF bool_packer_laws b]] by auto
qed

lemma pair_packer_laws [packing]:
  assumes "packer_laws p" "packer_laws q"
  shows "packer_laws (pair_packer p q)"
proof (rule packer_laws.intro)
  fix v r show "fits_of (pair_packer p q) v \<Longrightarrow> unpack_of (pair_packer p q) (pack_of (pair_packer p q) v @ r) = Inr (v, r)"
    by (cases v) (simp add: pair_packer_def packer_laws.unpack_pack [OF assms(1)] packer_laws.unpack_pack [OF assms(2)])
next
  fix bs v r assume "unpack_of (pair_packer p q) bs = Inr (v, r)"
  then obtain x y t where u: "v = (x, y)" "unpack_of p bs = Inr (x, t)" "unpack_of q t = Inr (y, r)"
    by (auto simp: pair_packer_def result_simps)
  show "plain_of (pair_packer p q) v \<Longrightarrow> fits_of (pair_packer p q) v"
    using packer_laws.unpack_fits [OF assms(1) u(2)] packer_laws.unpack_fits [OF assms(2) u(3)] u(1) by (simp add: pair_packer_def)
  show "\<exists>u. bs = u @ r"
    by (rule suffix_trans [OF packer_laws.unpack_suffix [OF assms(1) u(2)] packer_laws.unpack_suffix [OF assms(2) u(3)]])
qed

lemma struct_packer_laws:
  assumes "packer_laws p" "\<And>x. mk (get x) = x" "\<And>y. get (mk y) = y"
  shows "packer_laws (struct_packer mk get p)"
  unfolding struct_packer_def using assms(2,3) by (intro conv_packer_laws [OF assms(1)]) auto

lemma unpack_items_pack:
  "packer_laws p \<Longrightarrow> list_all (fits_of p) xs \<Longrightarrow>
     unpack_items (unpack_of p) (length xs) (concat (map (pack_of p) xs) @ r) = Inr (xs, r)"
  by (induction xs) (simp_all add: packer_laws.unpack_pack)

lemma unpack_items_sound:
  assumes "packer_laws p"
  shows "unpack_items (unpack_of p) n bs = Inr (xs, r)
    \<Longrightarrow> length xs = n \<and> list_all (\<lambda>x. plain_of p x \<longrightarrow> fits_of p x) xs \<and> (\<exists>u. bs = u @ r)"
proof (induction n arbitrary: bs xs)
  case (Suc n)
  from Suc.prems obtain x ys t where u: "xs = x # ys" "unpack_of p bs = Inr (x, t)" "unpack_items (unpack_of p) n t = Inr (ys, r)"
    by (auto simp: result_simps)
  note ih = Suc.IH [OF u(3)]
  show ?case
    using ih u(1) packer_laws.unpack_fits [OF assms u(2)] suffix_trans [OF packer_laws.unpack_suffix [OF assms u(2)], of r] by simp
qed simp

lemma unpack_vector_sound:
  assumes "packer_laws p" "unpack_of (vector_packer sz p) bs = Inr (xs, r)"
  shows "length xs < 2 ^ 32 \<and> length xs * sz < MAX_ARRAY_ALLOC_SIZE \<and> list_all (\<lambda>x. plain_of p x \<longrightarrow> fits_of p x) xs \<and> (\<exists>u. bs = u @ r)"
proof -
  from assms(2) obtain n t where "unpack_of varint_packer bs = Inr (n, t)" "n * sz < MAX_ARRAY_ALLOC_SIZE"
    "unpack_items (unpack_of p) n t = Inr (xs, r)"
    by (auto simp: vector_packer_def result_simps)
  then show ?thesis
    using unpack_varint_bound [of bs n t] unpack_varint_suffix [of bs n t] unpack_items_sound [OF assms(1), of n t xs r]
    by (auto intro: suffix_trans)
qed

lemma vector_packer_laws [packing]:
  assumes "packer_laws p"
  shows "packer_laws (vector_packer sz p)"
proof (rule packer_laws.intro)
  fix xs r show "fits_of (vector_packer sz p) xs \<Longrightarrow> unpack_of (vector_packer sz p) (pack_of (vector_packer sz p) xs @ r) = Inr (xs, r)"
    by (simp add: vector_packer_def unpack_varint_prefix unpack_items_pack [OF assms])
next
  fix bs xs r assume u: "unpack_of (vector_packer sz p) bs = Inr (xs, r)"
  show "plain_of (vector_packer sz p) xs \<Longrightarrow> fits_of (vector_packer sz p) xs" "\<exists>u. bs = u @ r"
    using unpack_vector_sound [OF assms u] by (auto simp: vector_packer_def list_all_iff)
qed

lemma flat_insert_set: "set (flat_insert key xs x) \<subseteq> insert x (set xs)" "length (flat_insert key xs x) \<le> Suc (length xs)"
  by (auto simp: flat_insert_def set_insort_key)

lemma flat_insert_wf: "wf_flat (map key xs) \<Longrightarrow> wf_flat (map key (flat_insert key xs x))"
  by (auto simp: flat_insert_def wf_flat_def sorted_insort_key distinct_map set_insort_key distinct_insort)

lemma foldl_flat_insert:
  "set (foldl (flat_insert key) ys xs) \<subseteq> set ys \<union> set xs"
  "length (foldl (flat_insert key) ys xs) \<le> length ys + length xs"
  "wf_flat (map key ys) \<Longrightarrow> wf_flat (map key (foldl (flat_insert key) ys xs))"
proof (induction xs arbitrary: ys)
  case (Cons x xs)
  { case 1 show ?case using Cons(1) [of "flat_insert key ys x"] flat_insert_set(1) [of key ys x] by auto }
  { case 2 show ?case using Cons(2) [of "flat_insert key ys x"] flat_insert_set(2) [of key ys x] by auto }
  { case 3 then show ?case using Cons(3) [of "flat_insert key ys x"] flat_insert_wf [of key ys x] by auto }
qed auto

lemma insort_key_greatest: "(\<And>y. y \<in> set ys \<Longrightarrow> key y < key x) \<Longrightarrow> insort_key key x ys = ys @ [x]"
proof (induction ys)
  case (Cons y ys)
  have "\<not> key x \<le> key y" using Cons.prems [of y] by simp
  with Cons.IH Cons.prems show ?case by simp
qed simp

lemma foldl_flat_insert_sorted:
  "wf_flat (map key (ys @ xs)) \<Longrightarrow> foldl (flat_insert key) ys xs = ys @ xs"
proof (induction xs arbitrary: ys)
  case (Cons x xs)
  then have "key y < key x" if "y \<in> set ys" for y
    using that by (auto simp: wf_flat_def sorted_append less_le image_iff)
  then have "key x \<notin> key ` set ys" "insort_key key x ys = ys @ [x]"
    using insort_key_greatest [of ys key x] by fastforce+
  then have "flat_insert key ys x = ys @ [x]" by (simp add: flat_insert_def)
  with Cons.IH [of "ys @ [x]"] Cons.prems show ?case by simp
qed simp

lemma flat_packer_laws [packing]:
  assumes "packer_laws p"
  shows "packer_laws (flat_packer key sz p)"
proof (rule packer_laws.intro)
  fix xs r show "fits_of (flat_packer key sz p) xs \<Longrightarrow> unpack_of (flat_packer key sz p) (pack_of (flat_packer key sz p) xs @ r) = Inr (xs, r)"
    using foldl_flat_insert_sorted [of key "[]" xs]
    by (simp add: flat_packer_def conv_packer_def packer_laws.unpack_pack [OF vector_packer_laws [OF assms]])
next
  fix bs xs r assume "unpack_of (flat_packer key sz p) bs = Inr (xs, r)"
  then obtain ys where ys: "unpack_of (vector_packer sz p) bs = Inr (ys, r)" "xs = foldl (flat_insert key) [] ys"
    by (auto simp: flat_packer_def conv_packer_def result_simps)
  note sound = unpack_vector_sound [OF assms ys(1)]
  note ins = foldl_flat_insert [of key "[]" ys, folded ys(2)]
  have "length xs * sz \<le> length ys * sz" using ins(2) by (intro mult_le_mono1) simp
  then have "length xs * sz < MAX_ARRAY_ALLOC_SIZE" using sound by (meson le_less_trans)
  then show "plain_of (flat_packer key sz p) xs \<Longrightarrow> fits_of (flat_packer key sz p) xs"
    using sound ins by (auto simp: flat_packer_def conv_packer_def vector_packer_def list_all_iff wf_flat_def)
  show "\<exists>u. bs = u @ r" using sound by blast
qed

lemma alternative_laws:
  assumes "packer_laws p" "\<And>x y. un x = Some y \<longleftrightarrow> x = mk y"
  shows "packer_laws (alternative mk un p)"
proof -
  have "un (mk y) = Some y" for y using assms(2) by simp
  moreover have "mk (the (un x)) = x" if "un x \<noteq> None" for x
    using that assms(2) [of x "the (un x)"] by auto
  ultimately show ?thesis
    unfolding alternative_def by (intro conv_packer_laws [OF assms(1)]) auto
qed

lemma alternative_unpack:
  "unpack_of (alternative mk un p) bs = Inr (x, r) \<longleftrightarrow> (\<exists>y. unpack_of p bs = Inr (y, r) \<and> x = mk y)"
  by (auto simp: alternative_def conv_packer_def result_simps)

lemma variant_packer_laws:
  assumes "\<forall>p \<in> set alts. packer_laws p"
    and "\<And>w bs x r. w < length alts \<Longrightarrow> unpack_of (alts ! w) bs = Inr (x, r) \<Longrightarrow> which x = w"
    and "length alts \<le> 2 ^ 32"
  shows "packer_laws (variant_packer which alts)"
proof (rule packer_laws.intro)
  fix x r show "fits_of (variant_packer which alts) x \<Longrightarrow> unpack_of (variant_packer which alts) (pack_of (variant_packer which alts) x @ r) = Inr (x, r)"
    using assms(1,3) by (simp add: variant_packer_def unpack_varint_prefix packer_laws.unpack_pack)
next
  fix bs x r assume "unpack_of (variant_packer which alts) bs = Inr (x, r)"
  then obtain w t where u: "unpack_of varint_packer bs = Inr (w, t)" "w < length alts" "unpack_of (alts ! w) t = Inr (x, r)"
    by (auto simp: variant_packer_def result_simps)
  then have l: "packer_laws (alts ! w)" using assms(1) by simp
  show "plain_of (variant_packer which alts) x \<Longrightarrow> fits_of (variant_packer which alts) x"
    using packer_laws.unpack_fits [OF l u(3)] assms(2) [OF u(2,3)] u(2) by (auto simp: variant_packer_def)
  show "\<exists>u. bs = u @ r"
    by (rule suffix_trans [OF unpack_varint_suffix [OF u(1)] packer_laws.unpack_suffix [OF l u(3)]])
qed


section \<open>The types of the protocol\<close>

text \<open>
  The sizes in memory that bound the containers. Names take 64 bytes, keys 33, signatures 65 and weights 2; the sizes of the other
  types depend on the compiler and are a parameter.
\<close>

record layout =
  sizeof_authority :: nat
  sizeof_operation :: nat
  sizeof_transaction :: nat
  sizeof_header_extension :: nat
  sizeof_future_extension :: nat

definition sizeof_name :: nat where
  "sizeof_name = 64"

lemma word_packers_laws [packing]:
  "packer_laws (word_packer 1 :: 8 word packer)"
  "packer_laws (word_packer 2 :: 16 word packer)"
  "packer_laws (word_packer 4 :: 32 word packer)"
  by (rule word_packer_laws; simp)+

abbreviation u8 :: "nat packer" where "u8 \<equiv> uint_packer 1"
abbreviation u16 :: "nat packer" where "u16 \<equiv> uint_packer 2"
abbreviation u32 :: "nat packer" where "u32 \<equiv> uint_packer 4"
abbreviation w8 :: "8 word packer" where "w8 \<equiv> word_packer 1"
abbreviation name_packer :: "account_name_type packer" where "name_packer \<equiv> fixed_string_packer sizeof_name"
abbreviation names_packer :: "account_name_type list packer" where "names_packer \<equiv> flat_packer (\<lambda>n. n) sizeof_name name_packer"
abbreviation short_name_packer :: "string packer" where "short_name_packer \<equiv> fixed_string_packer 32"

text \<open>A digest of \<open>n\<close> words is written as it lies in memory.\<close>

fun words_of_bytes :: "nat \<Rightarrow> bytes \<Rightarrow> 32 word list" where
  "words_of_bytes 0 s = []"
| "words_of_bytes (Suc n) s = word_of_nat (of_bytes (map of_char (take 4 s))) # words_of_bytes n (drop 4 s)"

definition bytes_of_word :: "32 word \<Rightarrow> bytes" where
  "bytes_of_word w = map char_of (to_bytes 4 (unat w))"

definition digest_packer :: "nat \<Rightarrow> hash_words packer" where
  "digest_packer n =
     conv_packer (\<lambda>h. length h = n) (\<lambda>s. Inr (words_of_bytes n s)) (\<lambda>h. concat (map bytes_of_word h)) (array_packer (4 * n))"

lemma words_of_bytes_of_words: "words_of_bytes (length h) (concat (map bytes_of_word h)) = h"
proof (induction h)
  case (Cons w h)
  have len: "length (bytes_of_word w) = 4" by (simp add: bytes_of_word_def)
  have "unat w < 2 ^ LENGTH(32)" by (rule unsigned_less)
  then have "of_bytes (map of_char (bytes_of_word w)) = unat w"
    by (simp add: bytes_of_word_def of_bytes_to_bytes del: map_map)
  with len Cons show ?case by simp
qed simp

lemma length_bytes_of_words: "length (concat (map bytes_of_word h)) = 4 * length h"
  by (induction h) (auto simp: bytes_of_word_def)

lemma fits_digest: "fits_of (digest_packer n) h \<longleftrightarrow> length h = n"
  by (auto simp: digest_packer_def conv_packer_def array_packer_def length_bytes_of_words)

lemma digest_packer_laws [packing]: "packer_laws (digest_packer n)"
  unfolding digest_packer_def
proof (rule conv_packer_laws_leaf [OF array_packer_laws plain_leaf(1)])
  fix h :: hash_words
  show "length h = n \<Longrightarrow> Inr (words_of_bytes n (concat (map bytes_of_word h))) = Inr h"
    using words_of_bytes_of_words [of h] by simp
next
  fix s h assume "Inr (words_of_bytes n s) = (Inr h :: hash_words result)"
  moreover have "length (words_of_bytes n s) = n" by (induction n s rule: words_of_bytes.induct) auto
  ultimately show "length h = n \<and> fits_of (array_packer (4 * n)) (concat (map bytes_of_word h))"
    by (auto simp: array_packer_def length_bytes_of_words)
qed

definition asset_packer :: "asset packer" where
  "asset_packer =
     struct_packer (\<lambda>(a, s). \<lparr>amount = a, symbol = s\<rparr>) (\<lambda>x. (amount x, symbol x)) (pair_packer int64_packer (uint_packer 8))"

definition authority_packer :: "authority packer" where
  "authority_packer =
     struct_packer (\<lambda>(t, a, k). \<lparr>weight_threshold = t, account_auths = a, key_auths = k\<rparr>)
       (\<lambda>x. (weight_threshold x, account_auths x, key_auths x))
       (pair_packer u32 (pair_packer
          (flat_packer fst (sizeof_name + 2) (pair_packer name_packer u16))
          (flat_packer fst (33 + 2) (pair_packer public_key_packer u16))))"

text \<open>\<^verbatim>\<open>extensions_type\<close>: a set of variants whose one alternative is empty.\<close>

definition future_extension_packer :: "unit packer" where
  "future_extension_packer =
     conv_packer (\<lambda>_. True) (\<lambda>w. fc_assert (w < 1) No_such_alternative (Inr ())) (\<lambda>_. 0) varint_packer"

definition extensions_packer :: "layout \<Rightarrow> extensions_type packer" where
  "extensions_packer L = flat_packer (\<lambda>_. 0 :: nat) (sizeof_future_extension L) future_extension_packer"

lemma struct_laws_of_protocol [packing]:
  "packer_laws asset_packer" "packer_laws authority_packer"
  unfolding asset_packer_def authority_packer_def
  by (rule struct_packer_laws; (intro packing)?; auto)+

lemma extensions_packer_laws [packing]: "packer_laws (extensions_packer L)"
proof -
  have "packer_laws future_extension_packer"
    unfolding future_extension_packer_def
    by (rule conv_packer_laws_leaf [OF varint_packer_laws plain_varint]) (auto simp: varint_packer_def)
  then show ?thesis unfolding extensions_packer_def by (intro packing)
qed


section \<open>Operations\<close>

text \<open>One packer per operation, its fields in the order of its \<^verbatim>\<open>FC_REFLECT\<close>.\<close>

definition transfer_packer :: "transfer_operation packer" where
  "transfer_packer =
     struct_packer (\<lambda>(a, b, c, d). \<lparr>tr_from = a, tr_to = b, tr_amount = c, tr_memo = d\<rparr>)
       (\<lambda>x. (tr_from x, tr_to x, tr_amount x, tr_memo x))
       (pair_packer name_packer (pair_packer name_packer (pair_packer asset_packer string_packer)))"

definition account_create_packer :: "account_create_operation packer" where
  "account_create_packer =
     struct_packer (\<lambda>(a, b, c, d, e, f, g). \<lparr>ac_creator = a, ac_new_account_name = b, ac_owner = c, ac_active = d, ac_posting = e, ac_memo_key = f, ac_json_metadata = g\<rparr>)
       (\<lambda>x. (ac_creator x, ac_new_account_name x, ac_owner x, ac_active x, ac_posting x, ac_memo_key x, ac_json_metadata x))
       (pair_packer name_packer (pair_packer name_packer (pair_packer authority_packer (pair_packer authority_packer (pair_packer authority_packer (pair_packer public_key_packer string_packer))))))"

definition account_update_packer :: "account_update_operation packer" where
  "account_update_packer =
     struct_packer (\<lambda>(a, b, c, d, e, f). \<lparr>au_account = a, au_owner = b, au_active = c, au_posting = d, au_memo_key = e, au_json_metadata = f\<rparr>)
       (\<lambda>x. (au_account x, au_owner x, au_active x, au_posting x, au_memo_key x, au_json_metadata x))
       (pair_packer name_packer (pair_packer (optional_packer authority_packer) (pair_packer (optional_packer authority_packer) (pair_packer (optional_packer authority_packer) (pair_packer public_key_packer string_packer)))))"

definition bobserver_update_packer :: "bobserver_update_operation packer" where
  "bobserver_update_packer =
     struct_packer (\<lambda>(a, b, c, d). \<lparr>bu_root = a, bu_owner = b, bu_url = c, bu_block_signing_key = d\<rparr>)
       (\<lambda>x. (bu_root x, bu_owner x, bu_url x, bu_block_signing_key x))
       (pair_packer name_packer (pair_packer name_packer (pair_packer string_packer public_key_packer)))"

definition custom_packer :: "custom_operation packer" where
  "custom_packer =
     struct_packer (\<lambda>(a, b, c). \<lparr>cu_required_auths = a, cu_id = b, cu_data = c\<rparr>)
       (\<lambda>x. (cu_required_auths x, cu_id x, cu_data x))
       (pair_packer names_packer (pair_packer u16 string_packer))"

definition custom_json_packer :: "custom_json_operation packer" where
  "custom_json_packer =
     struct_packer (\<lambda>(a, b, c, d). \<lparr>cj_required_auths = a, cj_required_posting_auths = b, cj_id = c, cj_json = d\<rparr>)
       (\<lambda>x. (cj_required_auths x, cj_required_posting_auths x, cj_id x, cj_json x))
       (pair_packer names_packer (pair_packer names_packer (pair_packer string_packer string_packer)))"

definition custom_json_dapp_packer :: "layout \<Rightarrow> custom_json_dapp_operation packer" where
  "custom_json_dapp_packer L =
     struct_packer (\<lambda>(a, b, c, d, e, f). \<lparr>cd_required_owner_auths = a, cd_required_active_auths = b, cd_required_posting_auths = c, cd_required_auths = d, cd_id = e, cd_json = f\<rparr>)
       (\<lambda>x. (cd_required_owner_auths x, cd_required_active_auths x, cd_required_posting_auths x, cd_required_auths x, cd_id x, cd_json x))
       (pair_packer names_packer (pair_packer names_packer (pair_packer names_packer (pair_packer (vector_packer (sizeof_authority L) authority_packer) (pair_packer string_packer string_packer)))))"

definition custom_binary_packer :: "layout \<Rightarrow> custom_binary_operation packer" where
  "custom_binary_packer L =
     struct_packer (\<lambda>(a, b, c, d, e, f). \<lparr>cb_required_owner_auths = a, cb_required_active_auths = b, cb_required_posting_auths = c, cb_required_auths = d, cb_id = e, cb_data = f\<rparr>)
       (\<lambda>x. (cb_required_owner_auths x, cb_required_active_auths x, cb_required_posting_auths x, cb_required_auths x, cb_id x, cb_data x))
       (pair_packer names_packer (pair_packer names_packer (pair_packer names_packer (pair_packer (vector_packer (sizeof_authority L) authority_packer) (pair_packer string_packer string_packer)))))"

definition request_account_recovery_packer :: "layout \<Rightarrow> request_account_recovery_operation packer" where
  "request_account_recovery_packer L =
     struct_packer (\<lambda>(a, b, c, d). \<lparr>rr_recovery_account = a, rr_account_to_recover = b, rr_new_owner_authority = c, rr_extensions = d\<rparr>)
       (\<lambda>x. (rr_recovery_account x, rr_account_to_recover x, rr_new_owner_authority x, rr_extensions x))
       (pair_packer name_packer (pair_packer name_packer (pair_packer authority_packer (extensions_packer L))))"

definition recover_account_packer :: "layout \<Rightarrow> recover_account_operation packer" where
  "recover_account_packer L =
     struct_packer (\<lambda>(a, b, c, d). \<lparr>ra_account_to_recover = a, ra_new_owner_authority = b, ra_recent_owner_authority = c, ra_extensions = d\<rparr>)
       (\<lambda>x. (ra_account_to_recover x, ra_new_owner_authority x, ra_recent_owner_authority x, ra_extensions x))
       (pair_packer name_packer (pair_packer authority_packer (pair_packer authority_packer (extensions_packer L))))"

definition reset_account_packer :: "reset_account_operation packer" where
  "reset_account_packer =
     struct_packer (\<lambda>(a, b, c). \<lparr>rs_reset_account = a, rs_account_to_reset = b, rs_new_owner_authority = c\<rparr>)
       (\<lambda>x. (rs_reset_account x, rs_account_to_reset x, rs_new_owner_authority x))
       (pair_packer name_packer (pair_packer name_packer authority_packer))"

definition set_reset_account_packer :: "set_reset_account_operation packer" where
  "set_reset_account_packer =
     struct_packer (\<lambda>(a, b, c). \<lparr>sr_account = a, sr_current_reset_account = b, sr_reset_account = c\<rparr>)
       (\<lambda>x. (sr_account x, sr_current_reset_account x, sr_reset_account x))
       (pair_packer name_packer (pair_packer name_packer name_packer))"

definition change_recovery_account_packer :: "layout \<Rightarrow> change_recovery_account_operation packer" where
  "change_recovery_account_packer L =
     struct_packer (\<lambda>(a, b, c). \<lparr>cr_account_to_recover = a, cr_new_recovery_account = b, cr_extensions = c\<rparr>)
       (\<lambda>x. (cr_account_to_recover x, cr_new_recovery_account x, cr_extensions x))
       (pair_packer name_packer (pair_packer name_packer (extensions_packer L)))"

definition decline_voting_rights_packer :: "decline_voting_rights_operation packer" where
  "decline_voting_rights_packer =
     struct_packer (\<lambda>(a, b). \<lparr>dv_account = a, dv_decline = b\<rparr>)
       (\<lambda>x. (dv_account x, dv_decline x))
       (pair_packer name_packer bool_packer)"

definition update_bproducer_packer :: "update_bproducer_operation packer" where
  "update_bproducer_packer =
     struct_packer (\<lambda>(a, b, c). \<lparr>ub_root = a, ub_bobserver = b, ub_approve = c\<rparr>)
       (\<lambda>x. (ub_root x, ub_bobserver x, ub_approve x))
       (pair_packer name_packer (pair_packer name_packer bool_packer))"

definition except_bobserver_packer :: "except_bobserver_operation packer" where
  "except_bobserver_packer =
     struct_packer (\<lambda>(a, b). \<lparr>eb_root = a, eb_bobserver = b\<rparr>)
       (\<lambda>x. (eb_root x, eb_bobserver x))
       (pair_packer name_packer name_packer)"

definition account_auth_packer :: "account_auth_operation packer" where
  "account_auth_packer =
     struct_packer (\<lambda>(a, b, c). \<lparr>aa_account = a, aa_auth_type = b, aa_auth_token = c\<rparr>)
       (\<lambda>x. (aa_account x, aa_auth_type x, aa_auth_token x))
       (pair_packer name_packer (pair_packer string_packer string_packer))"

definition print_packer :: "print_operation packer" where
  "print_packer =
     struct_packer (\<lambda>(a, b, c). \<lparr>pr_root = a, pr_account = b, pr_amount = c\<rparr>)
       (\<lambda>x. (pr_root x, pr_account x, pr_amount x))
       (pair_packer name_packer (pair_packer name_packer asset_packer))"

definition burn_packer :: "burn_operation packer" where
  "burn_packer =
     struct_packer (\<lambda>(a, b, c). \<lparr>bn_root = a, bn_account = b, bn_amount = c\<rparr>)
       (\<lambda>x. (bn_root x, bn_account x, bn_amount x))
       (pair_packer name_packer (pair_packer name_packer asset_packer))"

definition transfer_savings_packer :: "transfer_savings_operation packer" where
  "transfer_savings_packer =
     struct_packer (\<lambda>(a, b, c, d, e, f, g, h, i). \<lparr>ts_from = a, ts_request_id = b, ts_to = c, ts_amount = d, ts_total_amount = e, ts_split_pay_order = f, ts_split_pay_month = g, ts_memo = h, ts_complete = i\<rparr>)
       (\<lambda>x. (ts_from x, ts_request_id x, ts_to x, ts_amount x, ts_total_amount x, ts_split_pay_order x, ts_split_pay_month x, ts_memo x, ts_complete x))
       (pair_packer name_packer (pair_packer u32 (pair_packer name_packer (pair_packer asset_packer (pair_packer asset_packer (pair_packer w8 (pair_packer w8 (pair_packer string_packer u32))))))))"

definition cancel_transfer_savings_packer :: "cancel_transfer_savings_operation packer" where
  "cancel_transfer_savings_packer =
     struct_packer (\<lambda>(a, b, c, d). \<lparr>ct_from = a, ct_to = b, ct_amount = c, ct_request_id = d\<rparr>)
       (\<lambda>x. (ct_from x, ct_to x, ct_amount x, ct_request_id x))
       (pair_packer name_packer (pair_packer name_packer (pair_packer asset_packer u32)))"

definition conclusion_transfer_savings_packer :: "conclusion_transfer_savings_operation packer" where
  "conclusion_transfer_savings_packer =
     struct_packer (\<lambda>(a, b, c). \<lparr>co_from = a, co_to = b, co_request_id = c\<rparr>)
       (\<lambda>x. (co_from x, co_to x, co_request_id x))
       (pair_packer name_packer (pair_packer name_packer u32))"

definition staking_fund_packer :: "staking_fund_operation packer" where
  "staking_fund_packer =
     struct_packer (\<lambda>(a, b, c, d, e, f, g). \<lparr>sf_from = a, sf_fund_name = b, sf_request_id = c, sf_amount = d, sf_memo = e, sf_usertype = f, sf_month = g\<rparr>)
       (\<lambda>x. (sf_from x, sf_fund_name x, sf_request_id x, sf_amount x, sf_memo x, sf_usertype x, sf_month x))
       (pair_packer name_packer (pair_packer string_packer (pair_packer u32 (pair_packer asset_packer (pair_packer string_packer (pair_packer u8 u8))))))"

definition conclusion_staking_packer :: "conclusion_staking_operation packer" where
  "conclusion_staking_packer =
     struct_packer (\<lambda>(a, b, c, d). \<lparr>cs_root = a, cs_from = b, cs_fund_name = c, cs_request_id = d\<rparr>)
       (\<lambda>x. (cs_root x, cs_from x, cs_fund_name x, cs_request_id x))
       (pair_packer name_packer (pair_packer name_packer (pair_packer string_packer u32)))"

definition transfer_fund_packer :: "transfer_fund_operation packer" where
  "transfer_fund_packer =
     struct_packer (\<lambda>(a, b, c, d). \<lparr>tf_from = a, tf_fund_name = b, tf_amount = c, tf_memo = d\<rparr>)
       (\<lambda>x. (tf_from x, tf_fund_name x, tf_amount x, tf_memo x))
       (pair_packer name_packer (pair_packer string_packer (pair_packer asset_packer string_packer)))"

definition set_fund_interest_packer :: "set_fund_interest_operation packer" where
  "set_fund_interest_packer =
     struct_packer (\<lambda>(a, b, c, d, e). \<lparr>fi_root = a, fi_fund_name = b, fi_usertype = c, fi_month = d, fi_percent_interest = e\<rparr>)
       (\<lambda>x. (fi_root x, fi_fund_name x, fi_usertype x, fi_month x, fi_percent_interest x))
       (pair_packer name_packer (pair_packer string_packer (pair_packer u8 (pair_packer u8 string_packer))))"

definition return_staking_fund_packer :: "return_staking_fund_operation packer" where
  "return_staking_fund_packer =
     struct_packer (\<lambda>(a, b, c, d). \<lparr>rf_root = a, rf_fund_name = b, rf_request_id = c, rf_to = d\<rparr>)
       (\<lambda>x. (rf_root x, rf_fund_name x, rf_request_id x, rf_to x))
       (pair_packer name_packer (pair_packer string_packer (pair_packer u32 name_packer)))"

definition set_blacklist_account_packer :: "set_blacklist_account_operation packer" where
  "set_blacklist_account_packer =
     struct_packer (\<lambda>(a, b, c). \<lparr>bl_root = a, bl_account = b, bl_banned = c\<rparr>)
       (\<lambda>x. (bl_root x, bl_account x, bl_banned x))
       (pair_packer name_packer (pair_packer name_packer bool_packer))"

definition fill_staking_fund_packer :: "fill_staking_fund_operation packer" where
  "fill_staking_fund_packer =
     struct_packer (\<lambda>(a, b, c, d, e). \<lparr>fs_from = a, fs_fund_name = b, fs_amount = c, fs_request_id = d, fs_memo = e\<rparr>)
       (\<lambda>x. (fs_from x, fs_fund_name x, fs_amount x, fs_request_id x, fs_memo x))
       (pair_packer name_packer (pair_packer string_packer (pair_packer asset_packer (pair_packer u32 string_packer))))"

definition fill_transfer_savings_packer :: "fill_transfer_savings_operation packer" where
  "fill_transfer_savings_packer =
     struct_packer (\<lambda>(a, b, c, d, e, f, g, h). \<lparr>ft_from = a, ft_to = b, ft_amount = c, ft_total_amount = d, ft_split_pay_order = e, ft_split_pay_month = f, ft_request_id = g, ft_memo = h\<rparr>)
       (\<lambda>x. (ft_from x, ft_to x, ft_amount x, ft_total_amount x, ft_split_pay_order x, ft_split_pay_month x, ft_request_id x, ft_memo x))
       (pair_packer name_packer (pair_packer name_packer (pair_packer asset_packer (pair_packer asset_packer (pair_packer w8 (pair_packer w8 (pair_packer u32 string_packer)))))))"

definition fill_token_staking_fund_packer :: "fill_token_staking_fund_operation packer" where
  "fill_token_staking_fund_packer =
     struct_packer (\<lambda>(a, b, c, d, e, f). \<lparr>gs_from = a, gs_token = b, gs_fund_name = c, gs_amount = d, gs_request_id = e, gs_memo = f\<rparr>)
       (\<lambda>x. (gs_from x, gs_token x, gs_fund_name x, gs_amount x, gs_request_id x, gs_memo x))
       (pair_packer name_packer (pair_packer name_packer (pair_packer short_name_packer (pair_packer asset_packer (pair_packer u32 string_packer)))))"

definition fill_transfer_token_savings_packer :: "fill_transfer_token_savings_operation packer" where
  "fill_transfer_token_savings_packer =
     struct_packer (\<lambda>(a, b, c, d, e, f, g, h, i). \<lparr>gt_from = a, gt_to = b, gt_token = c, gt_request_id = d, gt_amount = e, gt_total_amount = f, gt_split_pay_order = g, gt_split_pay_month = h, gt_memo = i\<rparr>)
       (\<lambda>x. (gt_from x, gt_to x, gt_token x, gt_request_id x, gt_amount x, gt_total_amount x, gt_split_pay_order x, gt_split_pay_month x, gt_memo x))
       (pair_packer name_packer (pair_packer name_packer (pair_packer name_packer (pair_packer u32 (pair_packer asset_packer (pair_packer asset_packer (pair_packer w8 (pair_packer w8 string_packer))))))))"

lemma operation_packers_laws [packing]:
  "packer_laws transfer_packer"
  "packer_laws account_create_packer"
  "packer_laws account_update_packer"
  "packer_laws bobserver_update_packer"
  "packer_laws custom_packer"
  "packer_laws custom_json_packer"
  "packer_laws (custom_json_dapp_packer L)"
  "packer_laws (custom_binary_packer L)"
  "packer_laws (request_account_recovery_packer L)"
  "packer_laws (recover_account_packer L)"
  "packer_laws reset_account_packer"
  "packer_laws set_reset_account_packer"
  "packer_laws (change_recovery_account_packer L)"
  "packer_laws decline_voting_rights_packer"
  "packer_laws update_bproducer_packer"
  "packer_laws except_bobserver_packer"
  "packer_laws account_auth_packer"
  "packer_laws print_packer"
  "packer_laws burn_packer"
  "packer_laws transfer_savings_packer"
  "packer_laws cancel_transfer_savings_packer"
  "packer_laws conclusion_transfer_savings_packer"
  "packer_laws staking_fund_packer"
  "packer_laws conclusion_staking_packer"
  "packer_laws transfer_fund_packer"
  "packer_laws set_fund_interest_packer"
  "packer_laws return_staking_fund_packer"
  "packer_laws set_blacklist_account_packer"
  "packer_laws fill_staking_fund_packer"
  "packer_laws fill_transfer_savings_packer"
  "packer_laws fill_token_staking_fund_packer"
  "packer_laws fill_transfer_token_savings_packer"
  unfolding transfer_packer_def account_create_packer_def account_update_packer_def bobserver_update_packer_def custom_packer_def custom_json_packer_def custom_json_dapp_packer_def custom_binary_packer_def request_account_recovery_packer_def recover_account_packer_def reset_account_packer_def set_reset_account_packer_def change_recovery_account_packer_def decline_voting_rights_packer_def update_bproducer_packer_def except_bobserver_packer_def account_auth_packer_def print_packer_def burn_packer_def transfer_savings_packer_def cancel_transfer_savings_packer_def conclusion_transfer_savings_packer_def staking_fund_packer_def conclusion_staking_packer_def transfer_fund_packer_def set_fund_interest_packer_def return_staking_fund_packer_def set_blacklist_account_packer_def fill_staking_fund_packer_def fill_transfer_savings_packer_def fill_token_staking_fund_packer_def fill_transfer_token_savings_packer_def
  by (rule struct_packer_laws; (intro packing)?; auto)+

text \<open>The variant \<^verbatim>\<open>operation\<close>: the tag of an operation is its place in the list of \<^verbatim>\<open>operations.hpp\<close>.\<close>

fun operation_which :: "operation \<Rightarrow> nat" where
  "operation_which (Transfer _) = 0"
| "operation_which (Account_create _) = 1"
| "operation_which (Account_update _) = 2"
| "operation_which (Bobserver_update _) = 3"
| "operation_which (Custom _) = 4"
| "operation_which (Custom_json _) = 5"
| "operation_which (Request_account_recovery _) = 6"
| "operation_which (Recover_account _) = 7"
| "operation_which (Change_recovery_account _) = 8"
| "operation_which (Custom_binary _) = 9"
| "operation_which (Decline_voting_rights _) = 10"
| "operation_which (Reset_account _) = 11"
| "operation_which (Set_reset_account _) = 12"
| "operation_which (Update_bproducer _) = 13"
| "operation_which (Except_bobserver _) = 14"
| "operation_which (Account_auth _) = 15"
| "operation_which (Print _) = 16"
| "operation_which (Burn _) = 17"
| "operation_which (Transfer_savings _) = 18"
| "operation_which (Cancel_transfer_savings _) = 19"
| "operation_which (Conclusion_transfer_savings _) = 20"
| "operation_which (Staking_fund _) = 21"
| "operation_which (Conclusion_staking _) = 22"
| "operation_which (Transfer_fund _) = 23"
| "operation_which (Set_fund_interest _) = 24"
| "operation_which (Return_staking_fund _) = 25"
| "operation_which (Shutdown_bobserver _) = 26"
| "operation_which (Hardfork _) = 27"
| "operation_which (Dapp_fee_virtual _ _) = 28"
| "operation_which (Dapp_reward_virtual _ _) = 29"
| "operation_which (Fill_token_staking_fund _) = 30"
| "operation_which (Fill_transfer_token_savings _) = 31"
| "operation_which (Fill_staking_fund _) = 32"
| "operation_which (Fill_transfer_savings _) = 33"
| "operation_which (Custom_json_dapp _) = 34"
| "operation_which (Set_blacklist_account _) = 35"

definition operation_alternatives :: "layout \<Rightarrow> operation packer list" where
  "operation_alternatives L =
     [alternative Transfer (\<lambda>x. case x of Transfer y \<Rightarrow> Some y | _ \<Rightarrow> None) transfer_packer,
      alternative Account_create (\<lambda>x. case x of Account_create y \<Rightarrow> Some y | _ \<Rightarrow> None) account_create_packer,
      alternative Account_update (\<lambda>x. case x of Account_update y \<Rightarrow> Some y | _ \<Rightarrow> None) account_update_packer,
      alternative Bobserver_update (\<lambda>x. case x of Bobserver_update y \<Rightarrow> Some y | _ \<Rightarrow> None) bobserver_update_packer,
      alternative Custom (\<lambda>x. case x of Custom y \<Rightarrow> Some y | _ \<Rightarrow> None) custom_packer,
      alternative Custom_json (\<lambda>x. case x of Custom_json y \<Rightarrow> Some y | _ \<Rightarrow> None) custom_json_packer,
      alternative Request_account_recovery (\<lambda>x. case x of Request_account_recovery y \<Rightarrow> Some y | _ \<Rightarrow> None) (request_account_recovery_packer L),
      alternative Recover_account (\<lambda>x. case x of Recover_account y \<Rightarrow> Some y | _ \<Rightarrow> None) (recover_account_packer L),
      alternative Change_recovery_account (\<lambda>x. case x of Change_recovery_account y \<Rightarrow> Some y | _ \<Rightarrow> None) (change_recovery_account_packer L),
      alternative Custom_binary (\<lambda>x. case x of Custom_binary y \<Rightarrow> Some y | _ \<Rightarrow> None) (custom_binary_packer L),
      alternative Decline_voting_rights (\<lambda>x. case x of Decline_voting_rights y \<Rightarrow> Some y | _ \<Rightarrow> None) decline_voting_rights_packer,
      alternative Reset_account (\<lambda>x. case x of Reset_account y \<Rightarrow> Some y | _ \<Rightarrow> None) reset_account_packer,
      alternative Set_reset_account (\<lambda>x. case x of Set_reset_account y \<Rightarrow> Some y | _ \<Rightarrow> None) set_reset_account_packer,
      alternative Update_bproducer (\<lambda>x. case x of Update_bproducer y \<Rightarrow> Some y | _ \<Rightarrow> None) update_bproducer_packer,
      alternative Except_bobserver (\<lambda>x. case x of Except_bobserver y \<Rightarrow> Some y | _ \<Rightarrow> None) except_bobserver_packer,
      alternative Account_auth (\<lambda>x. case x of Account_auth y \<Rightarrow> Some y | _ \<Rightarrow> None) account_auth_packer,
      alternative Print (\<lambda>x. case x of Print y \<Rightarrow> Some y | _ \<Rightarrow> None) print_packer,
      alternative Burn (\<lambda>x. case x of Burn y \<Rightarrow> Some y | _ \<Rightarrow> None) burn_packer,
      alternative Transfer_savings (\<lambda>x. case x of Transfer_savings y \<Rightarrow> Some y | _ \<Rightarrow> None) transfer_savings_packer,
      alternative Cancel_transfer_savings (\<lambda>x. case x of Cancel_transfer_savings y \<Rightarrow> Some y | _ \<Rightarrow> None) cancel_transfer_savings_packer,
      alternative Conclusion_transfer_savings (\<lambda>x. case x of Conclusion_transfer_savings y \<Rightarrow> Some y | _ \<Rightarrow> None) conclusion_transfer_savings_packer,
      alternative Staking_fund (\<lambda>x. case x of Staking_fund y \<Rightarrow> Some y | _ \<Rightarrow> None) staking_fund_packer,
      alternative Conclusion_staking (\<lambda>x. case x of Conclusion_staking y \<Rightarrow> Some y | _ \<Rightarrow> None) conclusion_staking_packer,
      alternative Transfer_fund (\<lambda>x. case x of Transfer_fund y \<Rightarrow> Some y | _ \<Rightarrow> None) transfer_fund_packer,
      alternative Set_fund_interest (\<lambda>x. case x of Set_fund_interest y \<Rightarrow> Some y | _ \<Rightarrow> None) set_fund_interest_packer,
      alternative Return_staking_fund (\<lambda>x. case x of Return_staking_fund y \<Rightarrow> Some y | _ \<Rightarrow> None) return_staking_fund_packer,
      alternative Shutdown_bobserver (\<lambda>x. case x of Shutdown_bobserver y \<Rightarrow> Some y | _ \<Rightarrow> None) name_packer,
      alternative Hardfork (\<lambda>x. case x of Hardfork y \<Rightarrow> Some y | _ \<Rightarrow> None) u32,
      alternative (\<lambda>(n, a). Dapp_fee_virtual n a) (\<lambda>x. case x of Dapp_fee_virtual n a \<Rightarrow> Some (n, a) | _ \<Rightarrow> None) (pair_packer short_name_packer asset_packer),
      alternative (\<lambda>(n, a). Dapp_reward_virtual n a) (\<lambda>x. case x of Dapp_reward_virtual n a \<Rightarrow> Some (n, a) | _ \<Rightarrow> None) (pair_packer name_packer asset_packer),
      alternative Fill_token_staking_fund (\<lambda>x. case x of Fill_token_staking_fund y \<Rightarrow> Some y | _ \<Rightarrow> None) fill_token_staking_fund_packer,
      alternative Fill_transfer_token_savings (\<lambda>x. case x of Fill_transfer_token_savings y \<Rightarrow> Some y | _ \<Rightarrow> None) fill_transfer_token_savings_packer,
      alternative Fill_staking_fund (\<lambda>x. case x of Fill_staking_fund y \<Rightarrow> Some y | _ \<Rightarrow> None) fill_staking_fund_packer,
      alternative Fill_transfer_savings (\<lambda>x. case x of Fill_transfer_savings y \<Rightarrow> Some y | _ \<Rightarrow> None) fill_transfer_savings_packer,
      alternative Custom_json_dapp (\<lambda>x. case x of Custom_json_dapp y \<Rightarrow> Some y | _ \<Rightarrow> None) (custom_json_dapp_packer L),
      alternative Set_blacklist_account (\<lambda>x. case x of Set_blacklist_account y \<Rightarrow> Some y | _ \<Rightarrow> None) set_blacklist_account_packer]"

definition operation_packer :: "layout \<Rightarrow> operation packer" where
  "operation_packer L = variant_packer operation_which (operation_alternatives L)"


lemma alternatives_laws: "p \<in> set (operation_alternatives L) \<Longrightarrow> packer_laws p"
proof -
  have "list_all packer_laws (operation_alternatives L)"
    unfolding operation_alternatives_def list.pred_inject(2)
    by (intro conjI list.pred_inject(1); rule alternative_laws; (intro packing)?; auto split: operation.splits)
  then show "p \<in> set (operation_alternatives L) \<Longrightarrow> packer_laws p" by (simp add: list_all_iff)
qed


lemma alternative_tag:
  "list_all (\<lambda>(w, p). unpack_of p bs = Inr (x, r) \<longrightarrow> operation_which x = w) (enumerate 0 (operation_alternatives L))"
  by (auto simp: operation_alternatives_def alternative_unpack)

lemma operation_packer_laws [packing]: "packer_laws (operation_packer L)"
  unfolding operation_packer_def
proof (rule variant_packer_laws)
  fix w bs x r assume w: "w < length (operation_alternatives L)" and "unpack_of (operation_alternatives L ! w) bs = Inr (x, r)"
  moreover have "(w, operation_alternatives L ! w) \<in> set (enumerate 0 (operation_alternatives L))"
    using w by (simp add: in_set_enumerate_eq)
  ultimately show "operation_which x = w" using alternative_tag [of bs x r L] by (auto simp: list_all_iff)
qed (simp_all add: alternatives_laws, simp add: operation_alternatives_def)

section \<open>Transactions and blocks\<close>

definition signature_packer :: "signature_type packer" where
  "signature_packer = array_packer 65"

definition transaction_packer :: "layout \<Rightarrow> transaction packer" where
  "transaction_packer L =
     struct_packer
       (\<lambda>(a, b, c, d, e). \<lparr>ref_block_num = a, ref_block_prefix = b, expiration = c, operations = d, trx_extensions = e\<rparr>)
       (\<lambda>x. (ref_block_num x, ref_block_prefix x, expiration x, operations x, trx_extensions x))
       (pair_packer (word_packer 2) (pair_packer (word_packer 4) (pair_packer u32
         (pair_packer (vector_packer (sizeof_operation L) (operation_packer L)) (extensions_packer L)))))"

definition signed_transaction_packer :: "layout \<Rightarrow> signed_transaction packer" where
  "signed_transaction_packer L =
     struct_packer
       (\<lambda>(a, b, c, d, e, f). \<lparr>ref_block_num = a, ref_block_prefix = b, expiration = c, operations = d, trx_extensions = e, signatures = f\<rparr>)
       (\<lambda>x. (ref_block_num x, ref_block_prefix x, expiration x, operations x, trx_extensions x, signatures x))
       (pair_packer (word_packer 2) (pair_packer (word_packer 4) (pair_packer u32
         (pair_packer (vector_packer (sizeof_operation L) (operation_packer L)) (pair_packer (extensions_packer L)
         (vector_packer 65 signature_packer))))))"

fun header_extension_which :: "header_extension \<Rightarrow> nat" where
  "header_extension_which Void_extension = 0"
| "header_extension_which (Version_extension _) = 1"
| "header_extension_which (Hardfork_vote_extension _) = 2"

definition void_packer :: "unit packer" where
  "void_packer = \<lparr>pack_of = (\<lambda>_. []), unpack_of = (\<lambda>bs. Inr ((), bs)), fits_of = (\<lambda>_. True), plain_of = (\<lambda>_. True)\<rparr>"

definition hardfork_version_vote_packer :: "hardfork_version_vote packer" where
  "hardfork_version_vote_packer =
     struct_packer (\<lambda>(v, t). \<lparr>hf_version = v, hf_time = t\<rparr>) (\<lambda>x. (hf_version x, hf_time x)) (pair_packer (word_packer 4) u32)"

definition header_extension_packer :: "header_extension packer" where
  "header_extension_packer =
     variant_packer header_extension_which
       [alternative (\<lambda>_. Void_extension) (\<lambda>x. case x of Void_extension \<Rightarrow> Some () | _ \<Rightarrow> None) void_packer,
        alternative Version_extension (\<lambda>x. case x of Version_extension v \<Rightarrow> Some v | _ \<Rightarrow> None) (word_packer 4),
        alternative Hardfork_vote_extension (\<lambda>x. case x of Hardfork_vote_extension v \<Rightarrow> Some v | _ \<Rightarrow> None) hardfork_version_vote_packer]"

definition header_extensions_packer :: "layout \<Rightarrow> header_extension list packer" where
  "header_extensions_packer L = flat_packer header_extension_which (sizeof_header_extension L) header_extension_packer"

definition block_header_packer :: "layout \<Rightarrow> block_header packer" where
  "block_header_packer L =
     struct_packer
       (\<lambda>(a, b, c, d, e). \<lparr>previous = a, timestamp = b, bobserver = c, transaction_merkle_root = d, extensions = e\<rparr>)
       (\<lambda>x. (previous x, timestamp x, bobserver x, transaction_merkle_root x, extensions x))
       (pair_packer (digest_packer 5) (pair_packer u32 (pair_packer string_packer (pair_packer (digest_packer 5)
         (header_extensions_packer L)))))"

definition signed_block_header_packer :: "layout \<Rightarrow> signed_block_header packer" where
  "signed_block_header_packer L =
     struct_packer
       (\<lambda>(a, b, c, d, e, f). \<lparr>previous = a, timestamp = b, bobserver = c, transaction_merkle_root = d, extensions = e,
          bobserver_signature = f\<rparr>)
       (\<lambda>x. (previous x, timestamp x, bobserver x, transaction_merkle_root x, extensions x, bobserver_signature x))
       (pair_packer (digest_packer 5) (pair_packer u32 (pair_packer string_packer (pair_packer (digest_packer 5)
         (pair_packer (header_extensions_packer L) signature_packer)))))"

definition signed_block_packer :: "layout \<Rightarrow> signed_block packer" where
  "signed_block_packer L =
     struct_packer
       (\<lambda>(a, b, c, d, e, f, g). \<lparr>previous = a, timestamp = b, bobserver = c, transaction_merkle_root = d, extensions = e,
          bobserver_signature = f, transactions = g\<rparr>)
       (\<lambda>x. (previous x, timestamp x, bobserver x, transaction_merkle_root x, extensions x, bobserver_signature x, transactions x))
       (pair_packer (digest_packer 5) (pair_packer u32 (pair_packer string_packer (pair_packer (digest_packer 5)
         (pair_packer (header_extensions_packer L) (pair_packer signature_packer (vector_packer (sizeof_transaction L) (signed_transaction_packer L))))))))"

lemma void_packer_laws [packing]: "packer_laws void_packer"
  by (rule packer_laws.intro) (auto simp: void_packer_def)

lemma transaction_packers_laws [packing]:
  "packer_laws (transaction_packer L)"
  "packer_laws (signed_transaction_packer L)"
  unfolding transaction_packer_def signed_transaction_packer_def signature_packer_def
  by (rule struct_packer_laws; (intro packing)?; auto)+

lemma header_extension_packer_laws [packing]: "packer_laws header_extension_packer"
  unfolding header_extension_packer_def
proof (rule variant_packer_laws, goal_cases)
  case 1
  have "packer_laws hardfork_version_vote_packer"
    unfolding hardfork_version_vote_packer_def by (rule struct_packer_laws; (intro packing)?; auto)
  then show ?case by (auto intro!: alternative_laws packing split: header_extension.splits)
next
  case (2 w bs x r)
  then consider "w = 0" | "w = 1" | "w = 2" by fastforce
  then show ?case using 2 by cases (auto simp: alternative_unpack)
qed simp

lemma header_packers_laws [packing]:
  "packer_laws (block_header_packer L)"
  "packer_laws (signed_block_header_packer L)"
  unfolding block_header_packer_def signed_block_header_packer_def header_extensions_packer_def signature_packer_def
  by (rule struct_packer_laws; (intro packing)?; auto)+

interpretation transaction_codec: packer_laws "transaction_packer L" for L
  by (rule packing)

interpretation header_codec: packer_laws "block_header_packer L" for L
  by (rule packing)

interpretation block_codec: packer_laws "signed_block_packer L" for L
  unfolding signed_block_packer_def header_extensions_packer_def signature_packer_def
  by (rule struct_packer_laws; (intro packing)?; auto)

text \<open>The names the protocol accepts survive packing.\<close>

lemma valid_name_fits:
  assumes "is_valid_account_name n"
  shows "fits_of name_packer n"
proof -
  have "c \<noteq> CHR 0x00" if "is_let_dig c \<or> c = CHR ''-''" for c
    using that by (auto simp: is_let_dig_def is_letter_def Let_def)
  moreover have "is_let_dig (n ! i) \<or> n ! i = CHR ''-''" if "i < length n" for i
  proof -
    consider "i = 0" | "i = length n - 1" | "1 \<le> i" "i < length n - 1" using \<open>i < length n\<close> by linarith
    then show ?thesis
      using assms by cases (auto simp: is_valid_account_name_def is_let_dig_def Let_def list_all_iff split: if_splits)
  qed
  ultimately have "CHR 0x00 \<notin> set n" by (metis in_set_conv_nth)
  moreover have "length n \<le> 64"
    using assms by (auto simp: is_valid_account_name_def SIGMAENGINE_MAX_ACCOUNT_NAME_LENGTH_def Let_def split: if_splits)
  ultimately show ?thesis
    using fixed_string_plain [of n 64] fixed_to_string_plain [of n 64]
    by (simp add: fixed_string_packer_def conv_packer_def sizeof_name_def MAX_ARRAY_ALLOC_SIZE_def)
qed

section \<open>What is hashed and signed\<close>

text \<open>
  The digests of transactions and blocks, over the hash functions of \<^verbatim>\<open>fc\<close> on bytes: the records \<^verbatim>\<open>trx_crypto\<close> and \<^verbatim>\<open>block_crypto\<close>
  of \<^verbatim>\<open>Transaction\<close> with the packing written out.
\<close>

definition sig_bytes :: "layout \<Rightarrow> chain_id_type \<Rightarrow> transaction \<Rightarrow> bytes" where
  "sig_bytes L chain_id trx = pack_of (digest_packer 8) chain_id @ pack_of (transaction_packer L) trx"

definition packed_trx_crypto ::
  "layout \<Rightarrow> (bytes \<Rightarrow> digest_type) \<Rightarrow> (signature_type \<Rightarrow> digest_type \<Rightarrow> public_key_type result) \<Rightarrow> trx_crypto" where
  "packed_trx_crypto L sha256 recover =
     \<lparr>pack_digest = (\<lambda>t. sha256 (pack_of (transaction_packer L) t)),
      pack_sig_digest = (\<lambda>c t. sha256 (sig_bytes L c t)),
      pack_merkle_digest = (\<lambda>t. sha256 (pack_of (signed_transaction_packer L) t)),
      recover_key = recover\<rparr>"

definition packed_block_crypto ::
  "layout \<Rightarrow> (bytes \<Rightarrow> digest_type) \<Rightarrow> (bytes \<Rightarrow> hash_words) \<Rightarrow> (bytes \<Rightarrow> checksum_type)
     \<Rightarrow> (signature_type \<Rightarrow> digest_type \<Rightarrow> public_key_type result) \<Rightarrow> block_crypto" where
  "packed_block_crypto L sha256 sha224 ripemd160 recover =
     \<lparr>header_digest = (\<lambda>h. sha256 (pack_of (block_header_packer L) h)),
      header_sha224 = (\<lambda>h. sha224 (pack_of (signed_block_header_packer L) h)),
      recover_signee = recover,
      pair_hash = (\<lambda>a b. sha256 (pack_of (pair_packer (digest_packer 8) (digest_packer 8)) (a, b))),
      checksum_hash = (\<lambda>d. ripemd160 (pack_of (digest_packer 8) d))\<rparr>"

text \<open>
  C23: Packing a block and reading it back gives the block and leaves the bytes after it, whatever they are, for every block whose
  fields are in range; and a block that was read from any bytes, canonical or not, is one that packing keeps, provided its names
  convert to strings without losing bytes.
\<close>

theorem block_round_trip:
  "fits_of (signed_block_packer L) b \<or> unpack_of (signed_block_packer L) bs = Inr (b, s) \<and> plain_of (signed_block_packer L) b
     \<Longrightarrow> unpack_of (signed_block_packer L) (pack_of (signed_block_packer L) b @ r) = Inr (b, r)"
  using block_codec.unpack_pack block_codec.repack by blast

text \<open>
  C24: A signature binds the chain and the whole transaction, up to bytes hidden in names: two transactions that packing keeps
  (fields in range, names without bytes behind a zero) with the same digest to sign, on any two chains, are the same transaction on the same
  chain, unless the hash function collides on their bytes.
\<close>

theorem signature_binds_transaction:
  assumes "pack_sig_digest (packed_trx_crypto L sha256 recover) c t = pack_sig_digest (packed_trx_crypto L sha256 recover) c' t'"
    and "inj_on sha256 {sig_bytes L c t, sig_bytes L c' t'}"
    and "length c = 8" "length c' = 8" "fits_of (transaction_packer L) t" "fits_of (transaction_packer L) t'"
  shows "c = c' \<and> t = t'"
proof -
  have eq: "sig_bytes L c t = sig_bytes L c' t'"
    by (rule inj_onD [OF assms(2)]) (use assms(1) in \<open>simp_all add: packed_trx_crypto_def\<close>)
  have "fits_of (digest_packer 8) c" "fits_of (digest_packer 8) c'" using assms(3,4) by (simp_all add: fits_digest)
  then have both: "c = c' \<and> pack_of (transaction_packer L) t = pack_of (transaction_packer L) t'"
    by (rule packer_laws.pack_prefix_free [OF digest_packer_laws _ _ eq [unfolded sig_bytes_def]])
  show ?thesis
    by (intro conjI transaction_codec.pack_inject [OF assms(5,6)] both [THEN conjunct1] both [THEN conjunct2])
qed

text \<open>
  Bytes behind a zero in a name are neither signed nor validated, although they are read, kept and compared: two names that convert
  to the same string give transfers with the same digest that are accepted alike.
\<close>

lemma pack_fixed_string: "pack_of (fixed_string_packer n) s = pack_of string_packer (fixed_to_string n s)"
  by (simp add: fixed_string_packer_def conv_packer_def)

theorem hidden_bytes_are_not_signed:
  assumes "name_string n = name_string n'"
  shows "pack_sig_digest (packed_trx_crypto L sha256 recover) c (t\<lparr>operations := [Transfer (tr\<lparr>tr_to := n\<rparr>)]\<rparr>)
      = pack_sig_digest (packed_trx_crypto L sha256 recover) c (t\<lparr>operations := [Transfer (tr\<lparr>tr_to := n'\<rparr>)]\<rparr>)"
    and "transfer_validate tc (tr\<lparr>tr_to := n\<rparr>) = transfer_validate tc (tr\<lparr>tr_to := n'\<rparr>)"
proof -
  have name: "pack_of name_packer n = pack_of name_packer n'"
    using assms by (simp add: pack_fixed_string name_string_def sizeof_name_def)
  have op: "pack_of (operation_packer L) (Transfer y) = pack_varint 0 @ pack_of transfer_packer y" for y
    by (simp add: operation_packer_def variant_packer_def operation_alternatives_def alternative_def conv_packer_def)
  have "pack_of transfer_packer (tr\<lparr>tr_to := n\<rparr>) = pack_of transfer_packer (tr\<lparr>tr_to := n'\<rparr>)"
    by (simp add: transfer_packer_def struct_packer_def conv_packer_def pair_packer_def name)
  then show "pack_sig_digest (packed_trx_crypto L sha256 recover) c (t\<lparr>operations := [Transfer (tr\<lparr>tr_to := n\<rparr>)]\<rparr>)
      = pack_sig_digest (packed_trx_crypto L sha256 recover) c (t\<lparr>operations := [Transfer (tr\<lparr>tr_to := n'\<rparr>)]\<rparr>)"
    by (simp add: packed_trx_crypto_def sig_bytes_def transaction_packer_def struct_packer_def conv_packer_def pair_packer_def
        vector_packer_def op)
  show "transfer_validate tc (tr\<lparr>tr_to := n\<rparr>) = transfer_validate tc (tr\<lparr>tr_to := n'\<rparr>)"
    using assms by (simp add: transfer_validate_def validate_account_name_def)
qed

lemma hidden_bytes_are_read:
  defines "impostor \<equiv> ''bob'' @ [CHR 0x00] @ ''x''"
  shows "unpack_of name_packer (pack_of string_packer impostor @ r) = Inr (impostor, r)"
    and "name_string impostor = ''bob''" and "impostor \<noteq> ''bob''" and "\<not> plain_of name_packer impostor"
proof -
  have "length impostor < MAX_ARRAY_ALLOC_SIZE" by (simp add: impostor_def MAX_ARRAY_ALLOC_SIZE_def)
  then have "unpack_of string_packer (pack_of string_packer impostor @ r) = Inr (impostor, r)"
    by (intro packer_laws.unpack_pack [OF string_packer_laws]) simp
  then show "unpack_of name_packer (pack_of string_packer impostor @ r) = Inr (impostor, r)"
    by (simp add: fixed_string_packer_def conv_packer_def sizeof_name_def impostor_def fixed_string_def strip_zeros_def)
qed (simp_all add: impostor_def fixed_string_packer_def sizeof_name_def name_eval)

text \<open>
  C27: The Merkle root of a block binds its transactions: two non-empty lists of the same length of transactions that packing keeps,
  with the same root, are the same list, as long as no two of the values hashed for the two roots collide.
\<close>

theorem merkle_root_binds_transactions:
  assumes "length txs = length txs'" "txs \<noteq> []" "cr = packed_trx_crypto L sha256 recover"
    and "calculate_merkle_root cr bc txs = calculate_merkle_root cr bc txs'"
    and "inj_on sha256 (pack_of (signed_transaction_packer L) ` (set txs \<union> set txs'))"
    and "inj_on (\<lambda>(a, b). pair_hash bc a b)
          (set (merkle_inputs (pair_hash bc) (map (pack_merkle_digest cr) txs))
           \<union> set (merkle_inputs (pair_hash bc) (map (pack_merkle_digest cr) txs')))"
    and "inj_on (checksum_hash bc)
          {merkle_ref (pair_hash bc) (map (pack_merkle_digest cr) txs),
           merkle_ref (pair_hash bc) (map (pack_merkle_digest cr) txs')}"
    and "list_all (fits_of (signed_transaction_packer L)) (txs @ txs')"
  shows "txs = txs'"
proof (rule map_inj_on)
  show "map (pack_merkle_digest cr) txs = map (pack_merkle_digest cr) txs'"
    by (rule merkle_root_binds [OF assms(1,2,4,6,7)])
  have "inj_on (pack_of (signed_transaction_packer L)) (set txs \<union> set txs')"
    by (rule inj_onI, rule packer_laws.pack_inject [OF transaction_packers_laws(2)]) (use assms(8) in \<open>auto simp: list_all_iff\<close>)
  then have "inj_on (sha256 \<circ> pack_of (signed_transaction_packer L)) (set txs \<union> set txs')"
    using assms(5) by (rule comp_inj_on)
  then show "inj_on (pack_merkle_digest cr) (set txs \<union> set txs')" using assms(3) by (simp add: packed_trx_crypto_def comp_def)
qed

definition example_layout :: layout where
  "example_layout =
     \<lparr>sizeof_authority = 56, sizeof_operation = 16, sizeof_transaction = 96, sizeof_header_extension = 24, sizeof_future_extension = 16\<rparr>"

definition example_packed_transfer :: transaction where
  "example_packed_transfer =
     \<lparr>ref_block_num = 1, ref_block_prefix = 2, expiration = 60,
      operations = [Transfer \<lparr>tr_from = ''alice'', tr_to = ''bob'', tr_amount = \<lparr>amount = -5, symbol = 300\<rparr>, tr_memo = ''hi''\<rparr>],
      trx_extensions = []\<rparr>"

definition example_signed_transfer :: signed_transaction where
  "example_signed_transfer = transaction.extend example_packed_transfer \<lparr>signatures = [replicate 65 CHR ''s'']\<rparr>"

definition example_packed_block :: signed_block where
  "example_packed_block =
     \<lparr>previous = replicate 5 0, timestamp = 30, bobserver = ''alice'', transaction_merkle_root = replicate 5 7,
      extensions = [Version_extension 3], bobserver_signature = replicate 65 CHR ''x'', transactions = [example_signed_transfer]\<rparr>"

lemma fits_simps:
  "fits_of (conv_packer ok f g p) x \<longleftrightarrow> ok x \<and> fits_of p (g x)"
  "fits_of (struct_packer mk get p) x \<longleftrightarrow> fits_of p (get x)"
  "fits_of (alternative C un q) x \<longleftrightarrow> un x \<noteq> None \<and> fits_of q (the (un x))"
  "fits_of (array_packer n) s \<longleftrightarrow> length s = n"
  "fits_of (pair_packer p' q') (y, z) \<longleftrightarrow> fits_of p' y \<and> fits_of q' z"
  "fits_of (variant_packer which alts) x \<longleftrightarrow> which x < length alts \<and> fits_of (alts ! which x) x"
  by (simp_all add: conv_packer_def struct_packer_def alternative_def array_packer_def pair_packer_def variant_packer_def)

lemma fits_container_simps:
  "fits_of (vector_packer sz p) xs \<longleftrightarrow> length xs < 2 ^ 32 \<and> length xs * sz < MAX_ARRAY_ALLOC_SIZE \<and> list_all (fits_of p) xs"
  "fits_of (flat_packer key sz p) xs \<longleftrightarrow> wf_flat (map key xs) \<and> fits_of (vector_packer sz p) xs"
  by (simp_all add: vector_packer_def flat_packer_def conv_packer_def)

lemma pack_simps:
  "pack_of (conv_packer ok f g p) x = pack_of p (g x)"
  "pack_of (struct_packer mk get p) x = pack_of p (get x)"
  "pack_of (array_packer n) s = s"
  "pack_of (pair_packer p' q') (y, z) = pack_of p' y @ pack_of q' z"
  "pack_of string_packer s = pack_varint (length s mod 2 ^ 32) @ s"
  "pack_of (vector_packer sz q) xs = pack_varint (length xs mod 2 ^ 32) @ concat (map (pack_of q) xs)"
  "pack_of (flat_packer key sz q) xs = pack_of (vector_packer sz q) xs"
  by (simp_all add: conv_packer_def struct_packer_def array_packer_def pair_packer_def string_packer_def vector_packer_def flat_packer_def)

lemmas fits_protocol = fits_simps fits_container_simps fits_digest MAX_ARRAY_ALLOC_SIZE_def wf_flat_def
  signed_block_packer_def signed_transaction_packer_def transaction_packer_def header_extensions_packer_def signature_packer_def
  header_extension_packer_def operation_packer_def operation_alternatives_def extensions_packer_def transfer_packer_def
  asset_packer_def int64_packer_def word_packer_def

lemma example_names_fit: "fits_of name_packer ''alice''" "fits_of name_packer ''bob''"
  by (rule valid_name_fits, code_simp)+

lemma example_packed_transfer_fits:
  "fits_of (transaction_packer example_layout) example_packed_transfer"
  "fits_of (signed_transaction_packer example_layout) example_signed_transfer"
  by (simp_all add: fits_protocol example_names_fit example_packed_transfer_def example_signed_transfer_def transaction.defs example_layout_def)

lemma example_packed_block_fits: "fits_of (signed_block_packer example_layout) example_packed_block"
  using example_packed_transfer_fits(2) by (simp add: fits_protocol example_packed_block_def example_layout_def)

theorem block_round_trip_witness:
  "unpack_of (signed_block_packer example_layout) (pack_of (signed_block_packer example_layout) example_packed_block @ ''rest'') =
     Inr (example_packed_block, ''rest'')"
  by (rule block_round_trip) (simp add: example_packed_block_fits)

definition example_hash :: "bytes \<Rightarrow> digest_type" where
  "example_hash s = map (\<lambda>c. word_of_nat (of_char c)) s"

lemma example_hash_inj: "inj_on example_hash A"
proof -
  have "inj (\<lambda>c. word_of_nat (of_char c) :: 32 word)"
    by (rule injI) (simp add: word_of_nat_eq_iff take_bit_nat_eq_self less_trans [OF nat_of_char_less_256])
  then have "inj example_hash" unfolding example_hash_def by (rule inj_mapI)
  then show ?thesis by (rule inj_on_subset) simp
qed

theorem merkle_root_binds_transactions_witness:
  "calculate_merkle_root (packed_trx_crypto example_layout example_hash (\<lambda>_ _. Inr 1)) example_block_crypto [example_signed_transfer]
     \<noteq> calculate_merkle_root (packed_trx_crypto example_layout example_hash (\<lambda>_ _. Inr 1)) example_block_crypto
         [example_signed_transfer\<lparr>expiration := 61\<rparr>]"
proof
  let ?other = "example_signed_transfer\<lparr>expiration := 61\<rparr>"
  assume eq: "calculate_merkle_root (packed_trx_crypto example_layout example_hash (\<lambda>_ _. Inr 1)) example_block_crypto [example_signed_transfer]
     = calculate_merkle_root (packed_trx_crypto example_layout example_hash (\<lambda>_ _. Inr 1)) example_block_crypto [?other]"
  have "fits_of (signed_transaction_packer example_layout) ?other"
    using example_packed_transfer_fits(2) by (simp add: signed_transaction_packer_def fits_simps example_signed_transfer_def transaction.defs)
  then have fit: "list_all (fits_of (signed_transaction_packer example_layout)) ([example_signed_transfer] @ [?other])"
    using example_packed_transfer_fits(2) by simp
  have "[example_signed_transfer] = [?other]"
    by (rule merkle_root_binds_transactions [OF _ _ refl eq example_hash_inj _ _ fit])
       (simp_all add: merkle_inputs.simps inj_on_def example_block_crypto_def)
  then have "expiration example_signed_transfer = expiration ?other" by simp
  then show False by (simp add: example_signed_transfer_def example_packed_transfer_def transaction.defs)
qed

theorem signature_binds_transaction_witness:
  "pack_sig_digest (packed_trx_crypto example_layout example_hash (\<lambda>_ _. Inr 1)) (replicate 8 1) example_packed_transfer
     \<noteq> pack_sig_digest (packed_trx_crypto example_layout example_hash (\<lambda>_ _. Inr 1)) (replicate 8 2) example_packed_transfer"
proof
  assume "pack_sig_digest (packed_trx_crypto example_layout example_hash (\<lambda>_ _. Inr 1)) (replicate 8 1) example_packed_transfer
     = pack_sig_digest (packed_trx_crypto example_layout example_hash (\<lambda>_ _. Inr 1)) (replicate 8 2) example_packed_transfer"
  then have "replicate 8 1 = (replicate 8 2 :: chain_id_type) \<and> example_packed_transfer = example_packed_transfer"
    by (rule signature_binds_transaction [OF _ example_hash_inj]) (simp_all add: example_packed_transfer_fits)
  then show False by simp
qed

end
