(* ===== verification/Block_Log.thy ===== *)
theory Block_Log
  imports Packing Node
begin

text \<open>
  The block log, \<^verbatim>\<open>chain/block_log.cpp\<close>, on the bytes of its two files. The log file holds the packed blocks one after the
  other, each followed by the position it starts at; the index file holds these positions. \<^verbatim>\<open>Node\<close> has the log as a list of blocks, and the
  theorems show that the files behave as that list does, over appends and restarts, and that a lost index is rebuilt.

  The streams throw when a read fails, as the constructor of \<^verbatim>\<open>block_log\<close> sets them to; a stream opened for appending stands at the end
  of its file, and what was written is there when the file is read, since the stream is closed in between.
\<close>

section \<open>The log and its files\<close>

record block_log =
  bl_head :: "signed_block option"
  bl_head_id :: block_id_type
  bl_block_file :: bytes
  bl_index_file :: bytes

definition pos_bytes :: "nat \<Rightarrow> bytes" where
  "pos_bytes pos = pack_of (uint_packer 8) pos"

text \<open>\<^verbatim>\<open>seekg( pos )\<close> and \<^verbatim>\<open>seekg( -sizeof( uint64_t ), std::ios::end )\<close>, each followed by a read of eight bytes.\<close>

definition read_pos :: "nat \<Rightarrow> bytes \<Rightarrow> nat result" where
  "read_pos i file = bindR (unpack_of (uint_packer 8) (drop i file)) (\<lambda>(pos, _). Inr pos)"

definition read_last_pos :: "bytes \<Rightarrow> nat result" where
  "read_last_pos file = guardR (8 \<le> length file) Out_of_range_exception (read_pos (length file - 8) file)"

definition block_log_read_block :: "layout \<Rightarrow> nat \<Rightarrow> block_log \<Rightarrow> (signed_block \<times> nat) result" where
  "block_log_read_block L pos l =
     bindR (unpack_of (signed_block_packer L) (drop pos (bl_block_file l))) (\<lambda>(b, r).
     Inr (b, length (bl_block_file l) - length r + 8))"

definition block_log_read_head :: "layout \<Rightarrow> block_log \<Rightarrow> signed_block result" where
  "block_log_read_head L l =
     bindR (read_last_pos (bl_block_file l)) (\<lambda>pos. bindR (block_log_read_block L pos l) (\<lambda>(b, _). Inr b))"

definition block_log_append :: "layout \<Rightarrow> block_crypto \<Rightarrow> signed_block \<Rightarrow> block_log \<Rightarrow> (nat \<times> block_log) result" where
  "block_log_append L bc b l =
     (let pos = length (bl_block_file l);
          index_pos = length (bl_index_file l)
      in fc_assert (index_pos = 8 * unat (block_num b - 1)) Out_of_range (
         Inr (pos, l\<lparr>bl_block_file := bl_block_file l @ pack_of (signed_block_packer L) b @ pos_bytes pos,
                     bl_index_file := bl_index_file l @ pos_bytes pos,
                     bl_head := Some b, bl_head_id := block_id bc b\<rparr>)))"

text \<open>The result \<open>None\<close> is \<^verbatim>\<open>npos\<close>.\<close>

definition block_log_get_block_pos :: "nat \<Rightarrow> block_log \<Rightarrow> nat option result" where
  "block_log_get_block_pos n l =
     (if bl_head l \<noteq> None \<and> n \<le> unat (num_from_id (bl_head_id l)) \<and> n > 0
      then bindR (read_pos (8 * (n - 1)) (bl_index_file l)) (\<lambda>pos. Inr (Some pos))
      else Inr None)"

definition block_log_read_block_by_num :: "layout \<Rightarrow> nat \<Rightarrow> block_log \<Rightarrow> signed_block option result" where
  "block_log_read_block_by_num L n l =
     bindR (block_log_get_block_pos n l) (\<lambda>found.
     case found of
       None \<Rightarrow> Inr None
     | Some pos \<Rightarrow> bindR (block_log_read_block L pos l) (\<lambda>(b, _).
         fc_assert (unat (block_num b) = n) Out_of_range (Inr (Some b))))"

section \<open>Opening the log\<close>

text \<open>
  The loop of \<^verbatim>\<open>construct_index\<close>: the position read after a block is the one the block starts at, and the loop ends once
  that of the last block has been read. It terminates since every round reads from the stream.
\<close>

lemma uint_unpack_shorter: "unpack_of (uint_packer (Suc k)) bs = Inr (n, r) \<Longrightarrow> length r < length bs"
  by (auto simp: uint_packer_def conv_packer_def array_packer_def result_simps)

lemma block_then_pos_shorter:
  "unpack_of (signed_block_packer L) s = Inr (b, r) \<Longrightarrow> unpack_of (uint_packer 8) r = Inr (pos, r') \<Longrightarrow> length r' < length s"
  using block_codec.unpack_length [of L s b r] uint_unpack_shorter [of 7 r pos r'] by (simp add: eval_nat_numeral)

function index_loop :: "layout \<Rightarrow> nat \<Rightarrow> nat \<Rightarrow> bytes \<Rightarrow> bytes \<Rightarrow> bytes result" where
  "index_loop L pos end_pos s index =
     (if pos < end_pos then
        bindR (unpack_of (signed_block_packer L) s) (\<lambda>tmp.
        bindR (unpack_of (uint_packer 8) (snd tmp)) (\<lambda>got.
        index_loop L (fst got) end_pos (snd got) (index @ pos_bytes (fst got))))
      else Inr index)"
  by pat_completeness auto
termination
  by (relation "measure (\<lambda>(L, pos, end_pos, s, index). length s)") (auto intro: block_then_pos_shorter)


declare index_loop.simps [simp del]

definition block_log_construct_index :: "layout \<Rightarrow> block_log \<Rightarrow> block_log result" where
  "block_log_construct_index L l =
     bindR (read_last_pos (bl_block_file l)) (\<lambda>end_pos.
     bindR (index_loop L 0 end_pos (bl_block_file l) []) (\<lambda>index.
     Inr (l\<lparr>bl_index_file := index\<rparr>)))"

definition block_log_open :: "layout \<Rightarrow> block_crypto \<Rightarrow> bytes \<Rightarrow> bytes \<Rightarrow> block_log result" where
  "block_log_open L bc block_file index_file =
     (let l = \<lparr>bl_head = None, bl_head_id = replicate 5 0, bl_block_file = block_file, bl_index_file = index_file\<rparr>
      in if length block_file > 0 then
           bindR (block_log_read_head L l) (\<lambda>head.
           let l = l\<lparr>bl_head := Some head, bl_head_id := block_id bc head\<rparr>
           in if length index_file > 0 then
                bindR (read_last_pos block_file) (\<lambda>block_pos.
                bindR (read_last_pos index_file) (\<lambda>index_pos.
                if block_pos < index_pos then block_log_construct_index L l
                else if block_pos > index_pos then block_log_construct_index L l
                else Inr l))
              else block_log_construct_index L l)
         else if length index_file > 0 then Inr (l\<lparr>bl_index_file := []\<rparr>)
         else Inr l)"

section \<open>What the files hold\<close>

text \<open>The bytes of a list of blocks written from a position on, and the positions they start at.\<close>

fun log_bytes :: "layout \<Rightarrow> nat \<Rightarrow> signed_block list \<Rightarrow> bytes" where
  "log_bytes L i [] = []"
| "log_bytes L i (b # bs) =
     (let s = pack_of (signed_block_packer L) b in s @ pos_bytes i @ log_bytes L (i + length s + 8) bs)"

fun log_positions :: "layout \<Rightarrow> nat \<Rightarrow> signed_block list \<Rightarrow> nat list" where
  "log_positions L i [] = []"
| "log_positions L i (b # bs) = i # log_positions L (i + length (pack_of (signed_block_packer L) b) + 8) bs"

definition index_bytes :: "layout \<Rightarrow> signed_block list \<Rightarrow> bytes" where
  "index_bytes L bs = concat (map pos_bytes (log_positions L 0 bs))"

text \<open>
  The log object of a list of blocks. The blocks have the numbers of their places, survive packing, and the
  file is shorter than a 64 bit position can say.
\<close>

definition log_of :: "layout \<Rightarrow> block_crypto \<Rightarrow> signed_block list \<Rightarrow> block_log" where
  "log_of L bc bs =
     \<lparr>bl_head = (if bs = [] then None else Some (last bs)),
      bl_head_id = (if bs = [] then replicate 5 0 else block_id bc (last bs)),
      bl_block_file = log_bytes L 0 bs, bl_index_file = index_bytes L bs\<rparr>"

definition loggable :: "layout \<Rightarrow> signed_block list \<Rightarrow> bool" where
  "loggable L bs \<longleftrightarrow>
     list_all (fits_of (signed_block_packer L)) bs \<and> length (log_bytes L 0 bs) < 2 ^ 64 \<and> length bs < 2 ^ 32 \<and>
     (\<forall>i < length bs. unat (block_num (bs ! i)) = i + 1)"

lemma length_pos_bytes [simp]: "length (pos_bytes n) = 8"
  by (simp add: pos_bytes_def uint_packer_def conv_packer_def array_packer_def)

lemma unpack_pos_bytes [simp]: "n < 2 ^ 64 \<Longrightarrow> unpack_of (uint_packer 8) (pos_bytes n @ r) = Inr (n, r)"
  unfolding pos_bytes_def by (rule packer_laws.unpack_pack [OF uint_packer_laws]) simp

lemma unpack_pos_bytes_end [simp]: "n < 2 ^ 64 \<Longrightarrow> unpack_of (uint_packer 8) (pos_bytes n) = Inr (n, [])"
  using unpack_pos_bytes [of n "[]"] by simp

lemma log_bytes_append:
  "log_bytes L i (bs @ cs) = log_bytes L i bs @ log_bytes L (i + length (log_bytes L i bs)) cs"
  by (induction L i bs rule: log_bytes.induct) (simp_all add: Let_def add.assoc)

lemma log_positions_append:
  "log_positions L i (bs @ cs) = log_positions L i bs @ log_positions L (i + length (log_bytes L i bs)) cs"
  by (induction L i bs rule: log_bytes.induct) (simp_all add: Let_def add.assoc)

lemma length_log_positions [simp]: "length (log_positions L i bs) = length bs"
  by (induction L i bs rule: log_positions.induct) simp_all

lemma nth_log_positions:
  "n < length bs \<Longrightarrow> log_positions L i bs ! n = i + length (log_bytes L i (take n bs))"
  by (induction L i bs arbitrary: n rule: log_positions.induct) (auto simp: Let_def nth_Cons' take_Cons')

lemma drop_log_bytes:
  assumes "n < length bs"
  shows "drop (length (log_bytes L 0 (take n bs))) (log_bytes L 0 bs) =
     log_bytes L (length (log_bytes L 0 (take n bs))) (drop n bs)"
proof -
  have "log_bytes L 0 bs = log_bytes L 0 (take n bs) @ log_bytes L (length (log_bytes L 0 (take n bs))) (drop n bs)"
    using log_bytes_append [of L 0 "take n bs" "drop n bs"] by simp
  then show ?thesis by simp
qed

lemma log_bytes_take_length: "length (log_bytes L 0 (take n bs)) \<le> length (log_bytes L 0 bs)"
  using log_bytes_append [of L 0 "take n bs" "drop n bs"] by simp

section \<open>Reading back\<close>

lemma read_block_at:
  assumes "loggable L bs" "n < length bs" "bl_block_file l = log_bytes L 0 bs"
  shows "block_log_read_block L (length (log_bytes L 0 (take n bs))) l = Inr (bs ! n, length (log_bytes L 0 (take (Suc n) bs)))"
proof -
  let ?i = "length (log_bytes L 0 (take n bs))" and ?s = "pack_of (signed_block_packer L) (bs ! n)"
  let ?rest = "pos_bytes ?i @ log_bytes L (?i + length ?s + 8) (drop (Suc n) bs)"
  have "drop n bs = bs ! n # drop (Suc n) bs" using assms(2) by (simp add: Cons_nth_drop_Suc)
  then have d: "drop ?i (log_bytes L 0 bs) = ?s @ ?rest" using drop_log_bytes [OF assms(2)] by (simp add: Let_def)
  have "length (drop ?i (log_bytes L 0 bs)) = length ?s + length ?rest" unfolding d by simp
  then have "length (log_bytes L 0 bs) - length ?rest + 8 = ?i + length ?s + 8"
    using log_bytes_take_length [of L n bs] by simp
  also have "\<dots> = length (log_bytes L 0 (take (Suc n) bs))"
    using assms(2) by (simp add: take_Suc_conv_app_nth log_bytes_append Let_def)
  finally have "length (log_bytes L 0 bs) - length ?rest + 8 = length (log_bytes L 0 (take (Suc n) bs))" .
  moreover have "fits_of (signed_block_packer L) (bs ! n)" using assms(1,2) by (simp add: loggable_def list_all_length)
  ultimately show ?thesis
    unfolding block_log_read_block_def assms(3) d by (simp only: block_codec.unpack_pack bindR_simps case_prod_conv)
qed

lemma read_pos_concat:
  "n < length ps \<Longrightarrow> \<forall>p \<in> set ps. p < 2 ^ 64 \<Longrightarrow> read_pos (8 * n) (concat (map pos_bytes ps)) = Inr (ps ! n)"
proof (induction ps arbitrary: n)
  case (Cons p ps)
  then show ?case by (cases n) (simp_all add: read_pos_def)
qed simp

lemma log_positions_small:
  assumes "loggable L bs"
  shows "\<forall>p \<in> set (log_positions L 0 bs). p < 2 ^ 64"
proof
  fix p assume "p \<in> set (log_positions L 0 bs)"
  then obtain n where "n < length bs" "p = length (log_bytes L 0 (take n bs))"
    by (auto simp: in_set_conv_nth nth_log_positions)
  then show "p < 2 ^ 64" using log_bytes_take_length [of L n bs] assms by (simp add: loggable_def)
qed

lemma head_num:
  assumes "loggable L bs" "bs \<noteq> []" "\<And>h. header_sha224 bc h \<noteq> []"
  shows "unat (num_from_id (block_id bc (last bs))) = length bs"
  using assms num_from_block_id [of bc "last bs"] by (simp add: loggable_def last_conv_nth block_num_def)

lemma read_block_by_num_list:
  assumes "loggable L bs"
  shows "read_block_by_num n bs = Inr (if 0 < n \<and> n \<le> length bs then Some (bs ! (n - 1)) else None)"
  using assms by (auto simp: read_block_by_num_def log_head_num_def loggable_def last_conv_nth fc_assert_def)

lemma read_back:
  assumes "loggable L bs" "\<And>h. header_sha224 bc h \<noteq> []"
  shows "block_log_read_block_by_num L n (log_of L bc bs) = read_block_by_num n bs"
proof (cases "0 < n \<and> n \<le> length bs")
  case True
  then have ne: "bs \<noteq> []" "n - 1 < length bs" by auto
  let ?i = "length (log_bytes L 0 (take (n - 1) bs))"
  have "block_log_get_block_pos n (log_of L bc bs) = Inr (Some ?i)"
    using True ne head_num [OF assms(1) ne(1) assms(2)] read_pos_concat [OF _ log_positions_small [OF assms(1)], of "n - 1"]
    by (simp add: block_log_get_block_pos_def log_of_def index_bytes_def nth_log_positions)
  moreover obtain k where "block_log_read_block L ?i (log_of L bc bs) = Inr (bs ! (n - 1), k)"
    using read_block_at [OF assms(1) ne(2), of "log_of L bc bs"] by (simp add: log_of_def)
  moreover have "unat (block_num (bs ! (n - 1))) = n" using assms(1) True ne by (simp add: loggable_def)
  ultimately show ?thesis
    using True by (simp add: block_log_read_block_by_num_def read_block_by_num_list [OF assms(1)])
next
  case False
  then have "block_log_get_block_pos n (log_of L bc bs) = Inr None"
    using head_num [OF assms(1) _ assms(2)] by (auto simp: block_log_get_block_pos_def log_of_def)
  with False show ?thesis
    by (auto simp: block_log_read_block_by_num_def read_block_by_num_list [OF assms(1)])
qed


section \<open>Appending\<close>

lemma length_index_bytes [simp]: "length (index_bytes L bs) = 8 * length bs"
  by (simp add: index_bytes_def length_concat comp_def sum_list_triv)

lemma index_bytes_snoc: "index_bytes L (bs @ [b]) = index_bytes L bs @ pos_bytes (length (log_bytes L 0 bs))"
  by (simp add: index_bytes_def log_positions_append)

lemma append_refines:
  "block_log_append L bc b (log_of L bc bs) =
     bindR (log_append b bs) (\<lambda>bs'. Inr (length (log_bytes L 0 bs), log_of L bc bs'))"
  by (simp add: block_log_append_def log_append_def fc_assert_def log_of_def index_bytes_snoc log_bytes_append Let_def)

definition room_for :: "layout \<Rightarrow> signed_block \<Rightarrow> signed_block list \<Rightarrow> block_log \<Rightarrow> bool" where
  "room_for L b bs l \<longleftrightarrow>
     fits_of (signed_block_packer L) b \<and> length bs + 1 < 2 ^ 32 \<and>
     length (bl_block_file l) + length (pack_of (signed_block_packer L) b) + 8 < 2 ^ 64"

lemma log_append_loggable:
  assumes "loggable L bs" "log_append b bs = Inr bs'" "room_for L b bs (log_of L bc bs)"
  shows "loggable L bs'"
proof -
  have bs': "bs' = bs @ [b]" "length bs = unat (block_num b - 1)"
    using assms(2) by (auto simp: log_append_def result_simps)
  have "block_num b = word_of_nat (length bs) + 1" unfolding bs'(2) by simp
  then have "unat (block_num b) = length bs + 1"
    using assms(3) by (simp add: room_for_def unat_word_ariths unsigned_of_nat take_bit_nat_eq_self)
  then show ?thesis
    using assms(1,3) unfolding bs'(1)
    by (auto simp: loggable_def room_for_def log_of_def log_bytes_append Let_def nth_append less_Suc_eq)
qed

section \<open>Opening\<close>

definition last_position :: "layout \<Rightarrow> signed_block list \<Rightarrow> nat" where
  "last_position L bs = length (log_bytes L 0 (butlast bs))"

lemma log_bytes_last:
  assumes "bs \<noteq> []"
  shows "log_bytes L 0 bs = log_bytes L 0 (butlast bs) @ pack_of (signed_block_packer L) (last bs) @ pos_bytes (last_position L bs)"
  using log_bytes_append [of L 0 "butlast bs" "[last bs]"] assms by (simp add: last_position_def Let_def)

lemma read_last_pos_bytes [simp]: "n < 2 ^ 64 \<Longrightarrow> read_last_pos (s @ pos_bytes n) = Inr n"
  by (simp add: read_last_pos_def read_pos_def)

lemma last_position_small: "loggable L bs \<Longrightarrow> bs \<noteq> [] \<Longrightarrow> last_position L bs < 2 ^ 64"
  using log_bytes_last [of bs L] by (simp add: loggable_def last_position_def)

lemma read_last_pos_log:
  assumes "loggable L bs" "bs \<noteq> []"
  shows "read_last_pos (log_bytes L 0 bs) = Inr (last_position L bs)"
  using read_last_pos_bytes [OF last_position_small [OF assms], of "log_bytes L 0 (butlast bs) @ pack_of (signed_block_packer L) (last bs)"]
  by (simp add: log_bytes_last [OF assms(2)])

lemma read_head_log:
  assumes "loggable L bs" "bs \<noteq> []" "bl_block_file l = log_bytes L 0 bs"
  shows "block_log_read_head L l = Inr (last bs)"
  using read_block_at [of L bs "length bs - 1" l] assms
  by (auto simp: block_log_read_head_def read_last_pos_log last_position_def butlast_conv_take last_conv_nth)

lemma last_log_positions: "bs \<noteq> [] \<Longrightarrow> last (log_positions L 0 bs) = last_position L bs"
  by (simp add: last_conv_nth nth_log_positions last_position_def butlast_conv_take flip: length_greater_0_conv)

lemma log_positions_lower: "p \<in> set (log_positions L i bs) \<Longrightarrow> i \<le> p"
  by (induction L i bs rule: log_positions.induct) auto

lemma index_loop_log:
  assumes "bs \<noteq> []" "pos < last (log_positions L i bs)" "list_all (fits_of (signed_block_packer L)) bs"
    "\<forall>p \<in> set (log_positions L i bs). p < 2 ^ 64"
  shows "index_loop L pos (last (log_positions L i bs)) (log_bytes L i bs) index =
     Inr (index @ concat (map pos_bytes (log_positions L i bs)))"
  using assms
proof (induction bs arbitrary: pos i index)
  case (Cons b bs)
  let ?i = "i + length (pack_of (signed_block_packer L) b) + 8"
  have step: "index_loop L pos (last (log_positions L i (b # bs))) (log_bytes L i (b # bs)) index =
      index_loop L i (last (log_positions L i (b # bs))) (log_bytes L ?i bs) (index @ pos_bytes i)"
    using Cons.prems by (subst index_loop.simps) (simp add: Let_def block_codec.unpack_pack)
  show ?case
  proof (cases "bs = []")
    case True
    then show ?thesis unfolding step by (simp add: index_loop.simps)
  next
    case False
    then have "log_positions L ?i bs \<noteq> []" using length_log_positions [of L ?i bs] by (metis length_0_conv)
    moreover from this have "?i \<le> last (log_positions L ?i bs)" by (intro log_positions_lower [of _ L ?i bs] last_in_set)
    ultimately show ?thesis
      unfolding step using Cons.IH [of i ?i "index @ pos_bytes i"] Cons.prems False by simp
  qed
qed simp

lemma construct_index_log:
  assumes "loggable L bs" "length bs \<ge> 2" "bl_block_file l = log_bytes L 0 bs"
  shows "block_log_construct_index L l = Inr (l\<lparr>bl_index_file := index_bytes L bs\<rparr>)"
proof -
  have ne: "bs \<noteq> []" "butlast bs \<noteq> []" using assms(2) by (auto simp: butlast_conv_take)
  have "0 < last_position L bs" using ne(2) by (cases "butlast bs") (simp_all add: last_position_def Let_def)
  then have "index_loop L 0 (last_position L bs) (log_bytes L 0 bs) [] = Inr (index_bytes L bs)"
    using index_loop_log [OF ne(1), of 0 L 0 "[]"] assms(1) log_positions_small [OF assms(1)]
    by (simp add: last_log_positions [OF ne(1)] loggable_def index_bytes_def)
  then show ?thesis by (simp add: block_log_construct_index_def assms(3) read_last_pos_log [OF assms(1) ne(1)])
qed

lemma read_last_pos_index:
  assumes "loggable L bs" "bs \<noteq> []"
  shows "read_last_pos (index_bytes L bs) = Inr (last_position L bs)"
proof -
  have "index_bytes L bs = index_bytes L (butlast bs) @ pos_bytes (last_position L bs)"
    using index_bytes_snoc [of L "butlast bs" "last bs"] assms(2) by (simp add: last_position_def)
  then show ?thesis using last_position_small [OF assms] by simp
qed

lemma log_bytes_Nil_iff: "log_bytes L i bs = [] \<longleftrightarrow> bs = []"
  by (cases bs) (auto simp: Let_def simp flip: length_0_conv)

lemma open_empty: "block_log_open L bc [] ix = Inr (log_of L bc [])"
  by (simp add: block_log_open_def log_of_def index_bytes_def Let_def)

lemma open_intact:
  assumes "loggable L bs"
  shows "block_log_open L bc (log_bytes L 0 bs) (index_bytes L bs) = Inr (log_of L bc bs)"
proof (cases "bs = []")
  case True
  then show ?thesis by (simp add: open_empty)
next
  case False
  then have "length (index_bytes L bs) > 0" "length (log_bytes L 0 bs) > 0" by (simp_all add: log_bytes_Nil_iff)
  with False assms show ?thesis
    by (simp add: block_log_open_def Let_def read_head_log read_last_pos_log read_last_pos_index del: length_greater_0_conv)
       (simp add: log_of_def)
qed

lemma open_lost_index:
  assumes "loggable L bs" "length bs \<noteq> 1"
    and "bs = [] \<or> ix = [] \<or> (\<exists>q. read_last_pos ix = Inr q \<and> read_last_pos (log_bytes L 0 bs) \<noteq> Inr q)"
  shows "block_log_open L bc (log_bytes L 0 bs) ix = Inr (log_of L bc bs)"
proof (cases "bs = []")
  case True
  then show ?thesis by (simp add: open_empty)
next
  case False
  with assms(2) have two: "length bs \<ge> 2" by (cases bs; cases "tl bs") auto
  show ?thesis
    using assms(3) False construct_index_log [OF assms(1) two] read_last_pos_log [OF assms(1) False]
    by (auto simp: block_log_open_def Let_def read_head_log [OF assms(1) False] log_bytes_Nil_iff log_of_def)
qed


section \<open>The life of a log\<close>

text \<open>
  The states of a log: opened on an empty file, blocks appended, and opened again on the file it left, with the index file it left or,
  unless the log has just one block, with none or with one that ends in another position.
\<close>

inductive log_life :: "layout \<Rightarrow> block_crypto \<Rightarrow> signed_block list \<Rightarrow> block_log \<Rightarrow> bool" for L bc where
  opened: "block_log_open L bc [] ix = Inr l \<Longrightarrow> log_life L bc [] l"
| appended: "log_life L bc bs l \<Longrightarrow> block_log_append L bc b l = Inr (pos, l') \<Longrightarrow> room_for L b bs l
    \<Longrightarrow> log_life L bc (bs @ [b]) l'"
| reopened: "log_life L bc bs l \<Longrightarrow> block_log_open L bc (bl_block_file l) (bl_index_file l) = Inr l' \<Longrightarrow> log_life L bc bs l'"
| index_lost: "log_life L bc bs l \<Longrightarrow> length bs \<noteq> 1
    \<Longrightarrow> ix = [] \<or> read_last_pos ix \<noteq> read_last_pos (bl_block_file l)
    \<Longrightarrow> block_log_open L bc (bl_block_file l) ix = Inr l' \<Longrightarrow> log_life L bc bs l'"

lemma open_reads_index:
  assumes "block_log_open L bc file ix = Inr l" "file \<noteq> []" "ix \<noteq> []"
  shows "\<exists>q. read_last_pos ix = Inr q"
  using assms by (auto simp: block_log_open_def Let_def result_simps)

lemma log_life_log_of: "log_life L bc bs l \<Longrightarrow> loggable L bs \<and> l = log_of L bc bs"
proof (induction rule: log_life.induct)
  case (opened ix l)
  then show ?case by (simp add: open_empty loggable_def)
next
  case (appended bs l b pos l')
  then obtain bs' where "log_append b bs = Inr bs'" "l' = log_of L bc bs'"
    by (auto simp: append_refines result_simps)
  moreover from this(1) have "bs' = bs @ [b]" by (simp add: log_append_def result_simps)
  ultimately show ?case using appended log_append_loggable [of L bs b bs' bc] by auto
next
  case (reopened bs l l')
  then show ?case by (auto simp: log_of_def open_intact [of L bs bc, unfolded log_of_def])
next
  case (index_lost bs l ix l')
  then have l: "loggable L bs" "bl_block_file l = log_bytes L 0 bs" by (auto simp: log_of_def)
  have "bs = [] \<or> ix = [] \<or> (\<exists>q. read_last_pos ix = Inr q \<and> read_last_pos (log_bytes L 0 bs) \<noteq> Inr q)"
    using index_lost.hyps open_reads_index [of L bc "bl_block_file l" ix l'] l(2) by (metis log_bytes_Nil_iff)
  with index_lost l open_lost_index [of L bs ix bc] show ?case by auto
qed


text \<open>
  C22: A lost index is rebuilt: opening the log file of a log that has no or at least two blocks, without an index or with one that
  ends in another position, gives back the log as it was, with all positions in its index.
\<close>

theorem lost_index_is_rebuilt:
  assumes "log_life L bc bs l" "length bs \<noteq> 1"
    and "ix = [] \<or> (\<exists>q. read_last_pos ix = Inr q \<and> read_last_pos (bl_block_file l) \<noteq> Inr q)"
  shows "block_log_open L bc (bl_block_file l) ix = Inr l"
proof -
  have l: "loggable L bs" "l = log_of L bc bs" using log_life_log_of [OF assms(1)] by auto
  then show ?thesis using open_lost_index [of L bs ix bc] assms by (auto simp: log_of_def)
qed

text \<open>
  Reading from the start and going on at the position each read returns, as \<^verbatim>\<open>reindex\<close> does, gives the blocks in their order.
\<close>

theorem log_reads_in_order:
  assumes "log_life L bc bs l" "n < length bs"
  shows "block_log_read_block L (log_positions L 0 bs ! n) l = Inr (bs ! n, length (log_bytes L 0 (take (Suc n) bs)))
    \<and> (Suc n < length bs \<longrightarrow> length (log_bytes L 0 (take (Suc n) bs)) = log_positions L 0 bs ! Suc n)"
  using log_life_log_of [OF assms(1)] read_block_at [of L bs n l] assms(2) by (simp add: nth_log_positions log_of_def)

text \<open>
  With exactly one block it is not: the loop of \<^verbatim>\<open>construct_index\<close> starts where the last block starts and writes nothing. The
  log opens, but its one block cannot be read and no second one can be appended.
\<close>

theorem index_of_one_block_is_lost:
  assumes "log_life L bc [b] l" "\<And>h. header_sha224 bc h \<noteq> []"
  shows "\<exists>l'. block_log_open L bc (bl_block_file l) [] = Inr l' \<and> bl_index_file l' = []
    \<and> block_log_read_block_by_num L 1 l' = Inl Out_of_range_exception
    \<and> (\<forall>c. block_num c = 2 \<longrightarrow> block_log_append L bc c l' = Inl (Assert_exception Out_of_range))"
proof -
  have l: "loggable L [b]" "l = log_of L bc [b]" using log_life_log_of [OF assms(1)] by auto
  let ?l = "l\<lparr>bl_index_file := []\<rparr>"
  have pos: "last_position L [b] = 0" by (simp add: last_position_def)
  have block_file: "bl_block_file l = log_bytes L 0 [b]" unfolding l(2) by (simp add: log_of_def)
  have "block_log_open L bc (bl_block_file l) [] = Inr ?l"
    using read_last_pos_log [OF l(1)] read_head_log [OF l(1)] unfolding block_file
    by (simp add: block_log_open_def Let_def block_log_construct_index_def pos index_loop.simps l(2) log_of_def)
  moreover have "block_log_read_block_by_num L 1 ?l = Inl Out_of_range_exception"
    using head_num [OF l(1) _ assms(2)] unfolding l(2)
    by (simp add: block_log_read_block_by_num_def block_log_get_block_pos_def log_of_def read_pos_def
        uint_packer_def conv_packer_def array_packer_def read_bytes_def)
  ultimately show ?thesis by (auto simp: block_log_append_def)
qed

section \<open>Witnesses\<close>

definition first_logged :: signed_block where
  "first_logged =
     \<lparr>previous = replicate 5 0, timestamp = 3, bobserver = ''alice'', transaction_merkle_root = replicate 5 0,
      extensions = [], bobserver_signature = replicate 65 CHR ''x'', transactions = []\<rparr>"

definition second_logged :: signed_block where
  "second_logged = first_logged\<lparr>previous := [0x01000000, 0, 0, 0, 0], timestamp := 6\<rparr>"

abbreviation logged_blocks :: "signed_block list" where
  "logged_blocks \<equiv> [first_logged, second_logged]"

lemma logged_numbers: "block_num first_logged = 1" "block_num second_logged = 2"
  by code_simp+

lemma logged_sizes:
  "length (pack_of (signed_block_packer example_layout) first_logged) = 117"
  "length (pack_of (signed_block_packer example_layout) second_logged) = 117"
  by (simp_all add: pack_simps signed_block_packer_def first_logged_def second_logged_def uint_packer_def digest_packer_def
      header_extensions_packer_def signature_packer_def bytes_of_word_def length_concat sum_list_replicate pack_varint.simps)

lemma logged_fit:
  "fits_of (signed_block_packer example_layout) first_logged" "fits_of (signed_block_packer example_layout) second_logged"
  by (simp_all add: fits_protocol first_logged_def second_logged_def example_layout_def)

lemma log_life_append:
  assumes "log_life L bc bs (log_of L bc bs)" "length bs = unat (block_num b - 1)" "room_for L b bs (log_of L bc bs)"
  shows "log_life L bc (bs @ [b]) (log_of L bc (bs @ [b]))"
  using assms by (intro log_life.appended [OF assms(1)]) (auto simp: append_refines log_append_def)

lemma logged_life:
  "log_life example_layout example_block_crypto logged_blocks (log_of example_layout example_block_crypto logged_blocks)"
proof -
  have "log_life example_layout example_block_crypto [] (log_of example_layout example_block_crypto [])"
    by (rule log_life.opened [OF open_empty])
  then have "log_life example_layout example_block_crypto ([] @ [first_logged]) (log_of example_layout example_block_crypto ([] @ [first_logged]))"
    by (rule log_life_append) (simp_all add: logged_numbers logged_fit logged_sizes room_for_def log_of_def)
  then have "log_life example_layout example_block_crypto [first_logged] (log_of example_layout example_block_crypto [first_logged])"
    by simp
  then have "log_life example_layout example_block_crypto ([first_logged] @ [second_logged])
      (log_of example_layout example_block_crypto ([first_logged] @ [second_logged]))"
    by (rule log_life_append) (simp_all add: logged_numbers logged_fit logged_sizes room_for_def log_of_def Let_def)
  then show ?thesis by simp
qed


theorem lost_index_is_rebuilt_witness:
  "block_log_open example_layout example_block_crypto
     (bl_block_file (log_of example_layout example_block_crypto logged_blocks)) [] = Inr (log_of example_layout example_block_crypto logged_blocks)"
  by (rule lost_index_is_rebuilt [OF logged_life]) simp_all

end
