(* ===== verification/Interest.thy ===== *)
theory Interest
  imports Complex_Main Economy
begin

text \<open>
  The arithmetic on \<^verbatim>\<open>double\<close> in \<^verbatim>\<open>staking_fund_evaluator\<close>, \<^verbatim>\<open>( amount * percent ) / 100.0\<close> converted to an integer,
  over the rounding of real numbers to doubles. What \<^verbatim>\<open>Economy\<close> assumes of it follows from the laws of rounding.
\<close>

text \<open>
  \<open>rnd\<close> rounds to a double; \<open>val\<close> is the number a double stands for, \<open>None\<close> for an infinity or no number, of which \<open>big\<close> is the
  positive infinity, the only one of them that compares above \<^verbatim>\<open>-1.0\<close>. The stake is rounded first, then the
  product and the quotient; the conversion drops the fraction and is undefined outside 64 bits.
\<close>

definition truncate_real :: "real \<Rightarrow> int" where
  "truncate_real x = (if x < 0 then \<lceil>x\<rceil> else \<lfloor>x\<rfloor>)"

definition rounded_interest :: "(real \<Rightarrow> real) \<Rightarrow> (double \<Rightarrow> real option) \<Rightarrow> int \<Rightarrow> double \<Rightarrow> int option" where
  "rounded_interest rnd val v p =
     (case val p of
        None \<Rightarrow> None
      | Some r \<Rightarrow>
          let i = truncate_real (rnd (rnd (rnd (of_int v) * r) / 100))
          in if int64_range i then Some i else None)"

definition rounded_doubles :: "(real \<Rightarrow> real) \<Rightarrow> (double \<Rightarrow> real option) \<Rightarrow> double \<Rightarrow> double \<Rightarrow> (string \<Rightarrow> double option) \<Rightarrow> double_ops" where
  "rounded_doubles rnd val big minus_one parse =
     \<lparr>dbl_minus_one = minus_one,
      dbl_above_minus_one = (\<lambda>p. case val p of None \<Rightarrow> p = big | Some r \<Rightarrow> - 1 < r),
      dbl_interest = rounded_interest rnd val, dbl_parse = parse\<rparr>"

text \<open>The laws: rounding is monotone, odd, leaves doubles as they are, and at most doubles a number.\<close>

definition rounding :: "(real \<Rightarrow> real) \<Rightarrow> bool" where
  "rounding rnd \<longleftrightarrow> mono rnd \<and> (\<forall>x. rnd (- x) = - rnd x) \<and> (\<forall>x. rnd (rnd x) = rnd x) \<and> (\<forall>x \<ge> 0. rnd x \<le> 2 * x)"

lemma rounded_lower:
  assumes "rounding rnd" "0 \<le> v" "- 1 < r"
  shows "- of_int v \<le> rnd (rnd (rnd (of_int v) * r) / 100)"
proof -
  have mono: "x \<le> y \<Longrightarrow> rnd x \<le> rnd y" and odd: "rnd (- x) = - rnd x" and idem: "rnd (rnd x) = rnd x"
    and error: "0 \<le> x \<Longrightarrow> rnd x \<le> 2 * x" for x y
    using assms(1) by (auto simp: rounding_def dest: monoD)
  let ?v = "rnd (of_int v)"
  have "rnd 0 = 0" using odd [of 0] by simp
  then have v: "0 \<le> ?v" "?v \<le> 2 * of_int v" using assms(2) mono [of 0 "of_int v"] error [of "of_int v"] by simp_all
  have "?v * (- 1) \<le> ?v * r" using v(1) assms(3) by (intro mult_left_mono) auto
  then have "rnd (- ?v) \<le> rnd (?v * r)" by (intro mono) simp
  then have "- ?v / 100 \<le> rnd (?v * r) / 100" by (simp add: odd idem divide_right_mono)
  then have "rnd (- (?v / 100)) \<le> rnd (rnd (?v * r) / 100)" by (intro mono) simp
  moreover have "rnd (?v / 100) \<le> of_int v" using error [of "?v / 100"] v by simp
  ultimately show ?thesis by (simp add: odd)
qed

text \<open>So the arithmetic of any rounding meets what the theorem on solvency asks.\<close>

theorem rounded_interest_bounded:
  assumes "rounding rnd"
  shows "interest_bounded (rounded_doubles rnd val big minus_one parse)"
  unfolding interest_bounded_def
proof (intro allI impI)
  fix v p i
  assume v: "0 \<le> v" and p: "dbl_above_minus_one (rounded_doubles rnd val big minus_one parse) p"
    and i: "dbl_interest (rounded_doubles rnd val big minus_one parse) v p = Some i"
  then obtain r where r: "val p = Some r" "i = truncate_real (rnd (rnd (rnd (of_int v) * r) / 100))"
    by (auto simp: rounded_doubles_def rounded_interest_def Let_def split: option.splits if_splits)
  have "- 1 < r" using p r(1) by (simp add: rounded_doubles_def)
  from rounded_lower [OF assms v this] show "- v \<le> i"
    unfolding r(2) truncate_real_def by (auto simp: le_floor_iff) linarith
qed

text \<open>Exact arithmetic is a rounding.\<close>

lemma exact_rounding: "rounding (\<lambda>x. x)"
  by (simp add: rounding_def mono_def)

end
