(* ===== verification/Spec2Isabelle.thy ===== *)
theory Spec2Isabelle
  imports Asset Version Chainbase Node Dapp_Comments Token_Payments Production Account_History Key_Lookup Genesis Sync Block_Log Interest
begin

text \<open>
  A verification development of the TNC node (sigmaengine), a delegated proof of stake chain of the Steem and
  Graphene family: the protocol types, the object store with undo, the fork database, the evaluators of all
  operations, block processing, the producer schedule, the node that pushes, pops and produces blocks, and the plugins
  that add dapps, tokens, block production, account histories and a key lookup.

  \<^bold>\<open>The program.\<close> A node keeps its state in multi-indexed tables (\<^verbatim>\<open>libraries/chainbase\<close>) with a stack of undo sessions.
  A block carries transactions, a transaction operations. \<^verbatim>\<open>database::push_block\<close> enters a block into the fork database,
  a tree of recent blocks, and applies it on the head, or pops blocks and applies a longer branch. Applying a block checks its header
  (slot, producer, signature), applies its transactions (validation, signatures against authorities, duplicates,
  expiry, then one evaluator per operation), advances the global properties and the last irreversible
  block, writes irreversible blocks to the block log, and runs the periodic steps (schedule, savings and
  staking payments, account recovery, hardforks). Between blocks, pending transactions are applied in a session of their own above
  the head. Plugins add operations, carried as JSON or bytes in custom operations, with tables of their own, and are notified
  around operations and after blocks. All source paths below are under \<^verbatim>\<open>src/libraries/\<close>.

  \<^bold>\<open>The theories, from the bottom up.\<close>

  \<^item> \<^verbatim>\<open>Prelude\<close>: errors as a sum type with \<open>bindR\<close>, \<open>fc_assert\<close> and \<open>foldR\<close>; the checked 64 bit arithmetic of \<^verbatim>\<open>fc::safe\<close>; C++ division;
    time arithmetic modulo \<open>2 ^ 32\<close>; flat maps and sets as sorted lists; the fixed size strings of \<^verbatim>\<open>protocol/fixed_string.hpp\<close>; the collections of
    rewrite rules.
  \<^item> \<^verbatim>\<open>Text_Format\<close>, \<^verbatim>\<open>Asset\<close>, \<^verbatim>\<open>Version\<close> (\<^verbatim>\<open>protocol/asset.cpp\<close>, \<^verbatim>\<open>version.cpp\<close>): amounts with a packed symbol, prices, packed versions, and
    their text forms. Round trips of printing and parsing, the order of prices and versions, and
    what \<^verbatim>\<open>asset::to_string\<close> prints below zero.
  \<^item> \<^verbatim>\<open>Authority\<close> (\<^verbatim>\<open>protocol/authority.cpp\<close>, \<^verbatim>\<open>sign_state.cpp\<close>): account names, weighted authorities, the recursive
    signature check. The check is sound against an inductive relation of who grants what, and complete up to its depth on accounts whose
    authorities lead to existing accounts.
  \<^item> \<^verbatim>\<open>Operations\<close>, \<^verbatim>\<open>Transaction\<close> (\<^verbatim>\<open>protocol/sigmaengine_operations.*\<close>, \<^verbatim>\<open>transaction.cpp\<close>, \<^verbatim>\<open>block.cpp\<close>): every operation with its validation and
    required authorities, verification and minimisation of signatures, block ids, the Merkle root. Hash functions,
    packing and key recovery are fields of the records \<open>trx_crypto\<close> and \<open>block_crypto\<close>.
  \<^item> \<^verbatim>\<open>Packing\<close> (\<^verbatim>\<open>fc/io/raw.hpp\<close>, \<^verbatim>\<open>fc/container/flat.hpp\<close>, the \<^verbatim>\<open>FC_REFLECT\<close> lines of \<^verbatim>\<open>protocol\<close>): the binary form of all operations, transactions and
    blocks, as packers built by combinators that keep the laws of the locale \<open>packer_laws\<close>. Blocks survive the round trip, also when
    read from bytes no packer writes, a signature binds the chain and the whole transaction, and the Merkle root the transactions of a block; all
    three only for names without bytes behind a zero byte, which are read and compared but neither packed nor signed. The records of digests above are built from
    the hash functions on bytes (\<open>packed_trx_crypto\<close>, \<open>packed_block_crypto\<close>).
  \<^item> \<^verbatim>\<open>Chainbase\<close> (\<^verbatim>\<open>chainbase/chainbase.hpp\<close>): \<^verbatim>\<open>generic_index\<close> with its undo stack of old values, new ids and
    removed values. It refines a stack of snapshots: undo restores the start of a session, squash
    joins two sessions, commit drops the oldest.
  \<^item> \<^verbatim>\<open>Fork_Database\<close> (\<^verbatim>\<open>chain/fork_database.cpp\<close>): the block tree on a heap with weak pointers. Reachable
    databases are well formed, and \<^verbatim>\<open>fetch_branch_from\<close> finds the most recent fork point.
  \<^item> \<^verbatim>\<open>Chain_State\<close>, \<^verbatim>\<open>Ledger\<close>, \<^verbatim>\<open>Evaluators\<close>, \<^verbatim>\<open>Economy\<close> (\<^verbatim>\<open>chain/*_object*.hpp\<close>, \<^verbatim>\<open>sigmaengine_evaluator.cpp\<close>, parts of \<^verbatim>\<open>database.cpp\<close>):
    the tables of the consensus state as one record \<open>chain_db\<close>, the balance adjustments, every \<^verbatim>\<open>do_apply\<close>.
    The books: \<open>unaccounted\<close> compares all balances with the supply, \<open>savings_gap\<close> and \<open>staking_gap\<close> compare savings and reserves with the
    requests against them. Operations keep the books and, \<^verbatim>\<open>burn\<close> apart, keep balances non-negative. \<^verbatim>\<open>Interest\<close> derives what this takes of the
    staking interest from the laws of rounding.
  \<^item> \<^verbatim>\<open>Processing\<close>, \<^verbatim>\<open>Payments\<close>, \<^verbatim>\<open>Slots\<close>, \<^verbatim>\<open>Schedule\<close> (\<^verbatim>\<open>chain/database.cpp\<close>, \<^verbatim>\<open>bobserver_schedule.cpp\<close>): the steps of a
    block. Savings payments never fail on regular requests and end; an accepted request with zero payments makes
    every later block fail once it is due; slots, participation, irreversibility, the schedule, hardfork votes.
  \<^item> \<^verbatim>\<open>Block_Apply\<close> (\<^verbatim>\<open>_apply_transaction\<close>, \<^verbatim>\<open>_apply_block\<close>): what a transaction and a block do to the state. An accepted
    block is scheduled, signed and linked; no transaction is applied twice; the books are kept.
  \<^item> \<^verbatim>\<open>Node\<close> (\<^verbatim>\<open>push_block\<close>, \<^verbatim>\<open>pop_block\<close>, \<^verbatim>\<open>push_transaction\<close>, \<^verbatim>\<open>generate_block\<close>, \<^verbatim>\<open>db_with.hpp\<close>): the node as a state machine over
    undo sessions, fork database, block log and pending transactions. Every reachable state is
    a replay of blocks, the longest chain wins, and value is neither created nor destroyed.
  \<^item> \<^verbatim>\<open>Tables\<close>, \<^verbatim>\<open>Plugin_Objects\<close>: a table of objects with the uniqueness checks of chainbase, and the objects of the plugins.
  \<^item> \<^verbatim>\<open>Dapp\<close>, \<^verbatim>\<open>Dapp_Comments\<close> (\<^verbatim>\<open>plugins/dapp\<close>): dapps, members, comments, votes, and the hourly count of the votes. Comments stay
    a forest and the loops over the parents of a comment end; eleven votes decide on a dapp; the fee follows the majority.
  \<^item> \<^verbatim>\<open>Token\<close>, \<^verbatim>\<open>Token_Books\<close>, \<^verbatim>\<open>Token_Payments\<close> (\<^verbatim>\<open>plugins/token\<close>): tokens of dapps, their funds, stakes and savings. The supply of a token is what
    accounts and funds hold; the payments after a block end; a stake its fund cannot pay and a seven letter symbol stop later ones.
  \<^item> \<^verbatim>\<open>Bobserver_Plugin\<close>, \<^verbatim>\<open>Production\<close> (\<^verbatim>\<open>plugins/bobserver\<close>): the reserve ratio, the checks around operations of a producing node, and the
    production loop with the clock as an argument. The ratio stays in range; produced blocks are on time, scheduled and signed.
  \<^item> \<^verbatim>\<open>Plugins\<close> (\<^verbatim>\<open>generic_custom_operation_interpreter.hpp\<close>, \<^verbatim>\<open>application.cpp\<close>): how the plugins hang on the chain. They keep
    what the theorems on blocks and nodes assume of interpreters and handlers, and inner operations run with the authorities they need.
  \<^item> \<^verbatim>\<open>Account_History\<close>, \<^verbatim>\<open>Key_Lookup\<close> (\<^verbatim>\<open>plugins/account_history\<close>, \<^verbatim>\<open>plugins/account_by_key\<close>, \<^verbatim>\<open>app/impacted.cpp\<close>): the numbered history of
    each account, and the table from keys to accounts, both of which follow the operations.
  \<^item> \<^verbatim>\<open>Genesis\<close> (\<^verbatim>\<open>init_genesis\<close>, \<^verbatim>\<open>open\<close>, \<^verbatim>\<open>reindex\<close>, \<^verbatim>\<open>application.cpp\<close>): the first state, opening a node on the files it left or on none,
    the replay of the block log, and the life of a node as a state machine. From genesis on, over restarts and replays, value is
    neither created nor destroyed.
  \<^item> \<^verbatim>\<open>Block_Log\<close> (\<^verbatim>\<open>chain/block_log.cpp\<close>): the block log on the bytes of its two files. It refines the list of blocks that \<^verbatim>\<open>Node\<close> and
    \<^verbatim>\<open>Genesis\<close> have for it, over appends, restarts and lost indexes; the index of a log with one block is the exception.
  \<^item> \<^verbatim>\<open>Sync\<close> (the network delegate of \<^verbatim>\<open>application.cpp\<close>, lookups of \<^verbatim>\<open>database.cpp\<close>): what a node answers its peers. A synopsis of the undoable blocks
    always exists and is short, and the reply to it finds the fork and leaves out no block.

  \<^bold>\<open>Interfaces.\<close> Locales state what one part relies on in another: among them \<open>node_chain\<close>, the law that applying a block is a step
    between good states, under which pushing, popping and switching forks keep the chain of undo states;
    it is interpreted for the replay of blocks, for the books and for the bookkeeping of sessions; \<open>node_lifetime\<close> extends it
    with the law that genesis is good, and carries what holds of every state over restarts and replays. The locale \<open>custom_operations\<close> is what
    the shared interpreter asks of a type of custom operations; it is interpreted for dapp, token and bobserver operations. The locale
    \<open>packer_laws\<close> is what readers rely on in the binary form of a type; it is interpreted for transactions, headers and blocks.

  \<^bold>\<open>Machine integers.\<close> Block numbers are \<open>32 word\<close>, the participation window \<open>128 word\<close>, payment counters \<open>8 word\<close>; amounts
  are integers with the range checks of \<^verbatim>\<open>safe<int64_t>\<close> written out; times are naturals with sums modulo \<open>2 ^ 32\<close>.

  \<^bold>\<open>Loops and fuel.\<close> Recursion of the signature check is bounded by its depth (2 in the node). Walks along weak pointers go to older
  addresses, so the allocation counter of the fork database bounds them, and the theorem on
  \<^verbatim>\<open>fetch_branch_from\<close> shows that it never runs out. The same counter is the fuel for popping blocks during a switch. The other loops
  have termination proofs: savings payments by the payments left, withdrawals by the requests left. The loops of the dapp and token plugins
  run on fuel, the number of ids in use for the parents of a comment and the number of payments left for the token payments; running out
  is the error \<open>Does_not_return\<close>, and theorems show that it never occurs. The loop of the synopsis counts in 32 bits and may not end once its
  top has wrapped, so it is a partial function; the theorem shows that it returns below that.

  \<^bold>\<open>Parameters.\<close> Hashes, signatures, packed sizes, sizes of types in memory, text checks (UTF-8, JSON), arithmetic on \<^verbatim>\<open>double\<close> in the staking
  interest (with \<open>None\<close> where the conversion to an integer is undefined), the node's black list and custom operation interpreters are arguments of the definitions; theorems that rely on an interpreter
  say what it must keep, and their witnesses instantiate it.

  \<^bold>\<open>Choices.\<close> A name is the list of its bytes without the zeros at its end, so that names are equal when the fixed strings of the source are; \<open>name_string\<close>
  converts one to a string where the source does. The producer in a block header and the observers a node is configured for are strings in the source;
  the model takes them for the names they convert to. The compile time switches \<^verbatim>\<open>IS_LOW_MEM\<close> and \<^verbatim>\<open>IS_TEST_NET\<close> are off. Reading JSON or packed bytes into operations is a parameter (\<open>codec\<close>).
  Deleting a comment looks up the dapp without checking that it exists, and producing looks up the observer likewise; the model
  stops with an error where the source would dereference an end iterator. Among token savings of the same date the index keeps
  the order of insertion, which the model keeps as a list of ids; undoing a session restores that list.

  \<^bold>\<open>Not modelled.\<close> The bytes of the memory file, JSON forms, locks, memory
  limits, the peer-to-peer network, the wallet, the query APIs, the statistics, debugging and delayed node plugins, and the vendored library
  \<^verbatim>\<open>fc\<close> beyond the arithmetic, text and packing functions above: they are input and output, other processes around the chain, or state the chain
  does not read.
\<close>

end
